(* ===== verification/Prelude.thy ===== *)
theory Prelude
  imports Main "HOL-Library.Word" "HOL-Library.Signed_Division"
begin

text \<open>
  Shared ground of the development: the widths of the C integers, the conversions between
  them, and the two contracts that several components share.

  Unsigned C integers are words of their width, so that they wrap as in C. Signed ones are
  \<open>int\<close>; where the code stores a result in an \<open>int32_t\<close> the model passes it through
  \<open>i32\<close>, the two's complement value of the low 32 bits, and a lemma of the component shows
  under its invariant that nothing was lost. C's division of signed values truncates:
  it is \<open>sdiv\<close>. Pointers to structures that callers always pass as the address of an
  existing object are the structure itself; the early returns on \<open>NULL\<close> have no counterpart.
\<close>

unbundle bit_operations_syntax

section \<open>Collections of facts\<close>

named_theorems width_simps \<open>conversions between C widths that lose nothing\<close>
named_theorems frame_simps \<open>fields an operation leaves alone\<close>

section \<open>C integers\<close>

type_synonym u8 = "8 word"
type_synonym u16 = "16 word"
type_synonym u32 = "32 word"
type_synonym u64 = "64 word"

definition i32 :: "int \<Rightarrow> int" where
  "i32 x = signed_take_bit 31 x"

definition in_i32 :: "int \<Rightarrow> bool" where
  "in_i32 x \<longleftrightarrow> - (2 ^ 31) \<le> x \<and> x < 2 ^ 31"

lemma i32_id [width_simps]: "in_i32 x \<Longrightarrow> i32 x = x"
  by (simp add: i32_def in_i32_def signed_take_bit_int_eq_self)

lemma i32_range: "in_i32 (i32 x)"
  using signed_take_bit_int_greater_eq_minus_exp [of 31 x] signed_take_bit_int_less_exp [of 31 x]
  by (simp add: i32_def in_i32_def)

lemma in_i32I: "- 2147483648 \<le> x \<Longrightarrow> x \<le> 2147483647 \<Longrightarrow> in_i32 x"
  by (simp add: in_i32_def)

lemma in_i32D: "in_i32 x \<Longrightarrow> - 2147483648 \<le> x \<and> x \<le> 2147483647"
  by (simp add: in_i32_def)

lemma i32_abs_id: "\<bar>x\<bar> < 2 ^ 31 \<Longrightarrow> i32 x = x"
  by (rule i32_id) (auto simp: in_i32_def)

lemma sint_in_i32: "in_i32 (sint (w :: u32))"
  using sint_ge [of w] sint_lt [of w] by (simp add: in_i32_def)

lemma uint_word_of_int_i32:
  "0 \<le> x \<Longrightarrow> x < 2 ^ 32 \<Longrightarrow> uint (word_of_int x :: u32) = x"
  by (simp add: uint_word_of_int)

lemma sint_word_of_int_i32: "in_i32 x \<Longrightarrow> sint (word_of_int x :: u32) = x"
  by (simp add: in_i32_def sint_sbintrunc' signed_take_bit_int_eq_self)

lemma unat_less_of: "unat (w :: 'a::len word) < 2 ^ LENGTH('a)" by simp

lemma unat_ucast_up [width_simps]:
  "LENGTH('a) \<le> LENGTH('b) \<Longrightarrow> unat (ucast (w :: 'a::len word) :: 'b::len word) = unat w"
proof -
  assume le: "LENGTH('a) \<le> LENGTH('b)"
  have "unat w < 2 ^ LENGTH('a)" by simp
  also have "(2::nat) ^ LENGTH('a) \<le> 2 ^ LENGTH('b)" using le by simp
  finally show ?thesis by (simp add: unsigned_ucast_eq take_bit_nat_eq_self)
qed

lemma uint_ucast_up [width_simps]:
  "LENGTH('a) \<le> LENGTH('b) \<Longrightarrow> uint (ucast (w :: 'a::len word) :: 'b::len word) = uint w"
  by (metis unat_ucast_up uint_nat)

lemma uint_plus_small:
  fixes a b :: "'a::len word"
  shows "uint a + uint b < 2 ^ LENGTH('a) \<Longrightarrow> uint (a + b) = uint a + uint b"
  by (simp add: uint_word_ariths)

lemma uint_minus_small:
  fixes a b :: "'a::len word"
  shows "uint b \<le> uint a \<Longrightarrow> uint (a - b) = uint a - uint b"
  by (simp add: uint_sub_if')

lemma uint_mult_small:
  fixes a b :: "'a::len word"
  shows "uint a * uint b < 2 ^ LENGTH('a) \<Longrightarrow> uint (a * b) = uint a * uint b"
  by (simp add: uint_word_ariths)

lemma uint_plus_of_int:
  fixes a :: "'a::len word"
  assumes "0 \<le> uint a + x" "uint a + x < 2 ^ LENGTH('a)"
  shows "uint (a + word_of_int x) = uint a + x"
proof -
  have "a + word_of_int x = word_of_int (uint a + x)" by simp
  then show ?thesis using assms by (simp only: uint_word_of_int take_bit_eq_mod) simp
qed

lemma word_xor_cancel [simp]:
  fixes a b c :: "'a::len word"
  shows "a XOR c = b XOR c \<longleftrightarrow> a = b" "c XOR a = c XOR b \<longleftrightarrow> a = b"
  by (metis xor.assoc xor.commute xor_self_eq xor.right_neutral)+

section \<open>Contract: an invariant kept by every step\<close>

text \<open>
  The interface of every stateful component: a step function on its state and an invariant
  that each step keeps on the events its callers may give it. What the components gain is
  the invariant over whole runs.
\<close>

locale stepper =
  fixes step :: "'e \<Rightarrow> 's \<Rightarrow> 's"
    and allowed :: "'e \<Rightarrow> bool"
    and invar :: "'s \<Rightarrow> bool"
  assumes step_invar: "allowed e \<Longrightarrow> invar s \<Longrightarrow> invar (step e s)"
begin

lemma run_invar: "list_all allowed es \<Longrightarrow> invar s \<Longrightarrow> invar (fold step es s)"
  by (induction es arbitrary: s) (auto intro: step_invar)

lemma run_prefix_invar:
  assumes "list_all allowed es" "invar s"
  shows "invar (fold step (take n es) s)"
proof (rule run_invar)
  show "list_all allowed (take n es)"
    using assms(1) by (auto simp: list_all_iff dest: in_set_takeD)
qed (rule assms(2))

end

end
