(* ===== verification/Checksum.thy ===== *)
theory Checksum
  imports Prelude
begin

text \<open>
  The CRC of \<open>common/sml.c\<close> (\<open>sml_crc\<close>), a nibble at a time from a table of 16 entries. The
  SML frames and the records of the settings store carry it. The lemmas show that it is the
  bitwise CRC-16 of polynomial 0x1021, and what it detects: the contract \<open>digest\<close> says that
  a step loses nothing of the register or of the input, and gives that a change confined to
  one symbol changes the digest; \<open>burst_digest\<close> extends it to two neighbouring symbols.
\<close>

section \<open>The code\<close>

definition crc_nibbles :: "u16 list" where
  "crc_nibbles =
     [0x0000, 0x1021, 0x2042, 0x3063, 0x4084, 0x50A5, 0x60C6, 0x70E7,
      0x8108, 0x9129, 0xA14A, 0xB16B, 0xC18C, 0xD1AD, 0xE1CE, 0xF1EF]"

definition sml_crc_nibble :: "u16 \<Rightarrow> u16" where
  "sml_crc_nibble crc = push_bit 4 crc XOR crc_nibbles ! unat (drop_bit 12 crc)"

definition sml_crc_byte :: "u16 \<Rightarrow> u8 \<Rightarrow> u16" where
  "sml_crc_byte crc b = sml_crc_nibble (sml_crc_nibble (crc XOR push_bit 8 (ucast b)))"

fun sml_crc :: "u16 \<Rightarrow> u8 list \<Rightarrow> u16" where
  "sml_crc crc [] = crc"
| "sml_crc crc (b # bs) = sml_crc (sml_crc_byte crc b) bs"

definition SML_CRC_INIT :: u16 where
  "SML_CRC_INIT = 0xFFFF"

section \<open>The reference: a bit at a time\<close>

definition crc_shift :: "u16 \<Rightarrow> u16" where
  "crc_shift c = (if bit c 15 then push_bit 1 c XOR 0x1021 else push_bit 1 c)"

definition crc_ref_byte :: "u16 \<Rightarrow> u8 \<Rightarrow> u16" where
  "crc_ref_byte c b = (crc_shift ^^ 8) (c XOR push_bit 8 (ucast b))"

definition crc_ref :: "u16 \<Rightarrow> u8 list \<Rightarrow> u16" where
  "crc_ref c bs = foldl crc_ref_byte c bs"

text \<open>The top bit of the register and the bits it flips, as one masked value.\<close>

lemma crc_shift_xor: "crc_shift (a XOR b) = crc_shift a XOR crc_shift b"
  by (simp add: crc_shift_def bit_xor_iff push_bit_xor ac_simps)

lemma crc_shift_0 [simp]: "crc_shift 0 = 0"
  by (simp add: crc_shift_def)

lemma crc_shifts_xor: "(crc_shift ^^ n) (a XOR b) = (crc_shift ^^ n) a XOR (crc_shift ^^ n) b"
  by (induction n) (simp_all add: crc_shift_xor)

lemma crc_shift_push:
  "\<not> bit c (15 - k) \<Longrightarrow> k \<le> 15 \<Longrightarrow> crc_shift (push_bit k c) = push_bit (Suc k) c"
  by (simp add: crc_shift_def bit_push_bit_iff)

lemma low_bits_no_feedback:
  assumes "\<And>i. i \<ge> 16 - n \<Longrightarrow> \<not> bit c i" "n \<le> 16"
  shows "m \<le> n \<Longrightarrow> (crc_shift ^^ m) c = push_bit m c"
proof (induction m)
  case (Suc m)
  then have "crc_shift (push_bit m c) = push_bit (Suc m) c"
    using assms by (intro crc_shift_push) auto
  with Suc show ?case by simp
qed simp

lemma top_nibble_table: "\<forall>x \<in> set [0..<16]. (crc_shift ^^ 4) (push_bit 12 (of_nat x)) = crc_nibbles ! x"
  by code_simp

lemma word_split_top:
  fixes c :: u16
  shows "c = push_bit 12 (drop_bit 12 c) XOR take_bit 12 c"
  by (rule bit_word_eqI) (auto simp: bit_xor_iff bit_push_bit_iff bit_drop_bit_eq bit_take_bit_iff)

lemma sml_crc_nibble_ref: "sml_crc_nibble c = (crc_shift ^^ 4) c"
proof -
  let ?h = "drop_bit 12 c" and ?l = "take_bit 12 c"
  have "unat ?h < 16"
    using unsigned_less [of c, where 'a = nat] by (simp add: unat_drop_bit_eq drop_bit_eq_div unat_div)
  then have h: "(crc_shift ^^ 4) (push_bit 12 ?h) = crc_nibbles ! unat ?h"
    using bspec [OF top_nibble_table, of "unat ?h"] by simp
  have l: "(crc_shift ^^ 4) ?l = push_bit 4 ?l"
    by (rule low_bits_no_feedback [of 4]) (simp_all add: bit_take_bit_iff)
  have p: "push_bit 4 c = push_bit 4 ?l"
    by (rule bit_word_eqI) (auto simp: bit_push_bit_iff bit_take_bit_iff)
  have "(crc_shift ^^ 4) c = (crc_shift ^^ 4) (push_bit 12 ?h XOR ?l)"
    using word_split_top [of c] by simp
  also have "\<dots> = crc_nibbles ! unat ?h XOR push_bit 4 ?l"
    by (simp only: crc_shifts_xor h l)
  finally show ?thesis
    by (simp only: sml_crc_nibble_def p xor.commute)
qed

lemma sml_crc_byte_ref: "sml_crc_byte c b = crc_ref_byte c b"
proof -
  have "(crc_shift ^^ 8) x = (crc_shift ^^ 4) ((crc_shift ^^ 4) x)" for x
    using funpow_add [of 4 4 crc_shift] by simp
  then show ?thesis
    by (simp add: sml_crc_byte_def crc_ref_byte_def sml_crc_nibble_ref)
qed

lemma sml_crc_foldl: "sml_crc c bs = foldl sml_crc_byte c bs"
  by (induction bs arbitrary: c) simp_all

lemma sml_crc_append: "sml_crc c (xs @ ys) = sml_crc (sml_crc c xs) ys"
  by (simp add: sml_crc_foldl)

section \<open>What a digest detects\<close>

text \<open>
  A digest folds a list of symbols into a register. \<open>digest\<close>: a step is injective in the
  register and in the symbol. \<open>burst_digest\<close>: and in two symbols taken together.
\<close>

locale digest =
  fixes step :: "'c \<Rightarrow> 'b \<Rightarrow> 'c"
  assumes step_inj_state: "step c b = step c' b \<Longrightarrow> c = c'"
    and step_inj_symbol: "step c b = step c b' \<Longrightarrow> b = b'"
begin

lemma fold_inj_state: "foldl step c bs = foldl step c' bs \<Longrightarrow> c = c'"
  by (induction bs arbitrary: c c') (auto dest: step_inj_state)

lemma change_detected:
  assumes "b \<noteq> b'"
  shows "foldl step c (xs @ b # ys) \<noteq> foldl step c (xs @ b' # ys)"
  using assms by (auto dest: fold_inj_state step_inj_symbol)

end

locale burst_digest = digest +
  assumes step_inj_pair: "step (step c a) b = step (step c a') b' \<Longrightarrow> a = a' \<and> b = b'"
begin

lemma burst_detected:
  assumes "(a, b) \<noteq> (a', b')"
  shows "foldl step c (xs @ a # b # ys) \<noteq> foldl step c (xs @ a' # b' # ys)"
  using assms by (auto dest: fold_inj_state step_inj_pair)

text \<open>Two symbols at a time, the register is a digest again.\<close>

lemma pair_step_digest: "digest (\<lambda>c (a, b). step (step c a) b)"
proof
  show "c = c'" if "(case p of (a, b) \<Rightarrow> step (step c a) b) = (case p of (a, b) \<Rightarrow> step (step c' a) b)"
    for c c' p
    using that by (cases p) (auto dest: step_inj_state)
  show "p = q" if "(case p of (a, b) \<Rightarrow> step (step c a) b) = (case q of (a, b) \<Rightarrow> step (step c a) b)"
    for c p q
    using that by (cases p, cases q) (auto dest: step_inj_pair)
qed

end

section \<open>The CRC is one\<close>

lemma crc_shift_inj: "crc_shift a = crc_shift b \<Longrightarrow> a = b"
proof -
  assume eq: "crc_shift a = crc_shift b"
  define d where "d = a XOR b"
  have d0: "crc_shift d = 0"
    using eq by (simp add: d_def crc_shift_xor)
  have "\<not> bit d 15"
  proof
    assume "bit d 15"
    then have "bit (crc_shift d) 0"
      unfolding crc_shift_def by (simp only: if_True bit_xor_iff bit_push_bit_iff) simp
    then show False by (simp add: d0)
  qed
  then have p: "push_bit 1 d = 0" and n: "\<not> bit d 15"
    using d0 by (simp_all add: crc_shift_def)
  have "d = 0"
  proof (rule bit_word_eqI)
    fix i assume i: "i < LENGTH(16)"
    show "bit d i = bit 0 i"
    proof (cases "i = 15")
      case False
      have "bit (push_bit 1 d) (Suc i) = bit d i"
        using i False unfolding bit_push_bit_iff by simp
      then show ?thesis by (simp only: p bit_0_eq bot_apply)
    qed (use n in simp)
  qed
  then show "a = b" by (metis d_def word_xor_cancel(2) xor_self_eq)
qed

lemma crc_shifts_inj: "(crc_shift ^^ n) a = (crc_shift ^^ n) b \<Longrightarrow> a = b"
  by (induction n) (auto dest: crc_shift_inj)

lemma ucast_shift_inj: "push_bit 8 (ucast (b :: u8) :: u16) = push_bit 8 (ucast b') \<Longrightarrow> b = b'"
proof (rule bit_word_eqI)
  fix i assume eq: "push_bit 8 (ucast b :: u16) = push_bit 8 (ucast b')" and i: "i < LENGTH(8)"
  have "bit (push_bit 8 (ucast x :: u16)) (i + 8) = bit x i" for x :: u8
    using i by (simp add: bit_push_bit_iff bit_ucast_iff)
  then show "bit b i = bit b' i" using eq by metis
qed

text \<open>
  Eight shifts move the low byte up untouched, so two bytes of input act as one 16-bit word
  XORed into the register before sixteen shifts.
\<close>

lemma low_byte_shifts: "(crc_shift ^^ 8) (ucast (b :: u8)) = push_bit 8 (ucast b)"
  by (rule low_bits_no_feedback [of 8]) (auto simp: bit_ucast_iff dest: bit_imp_le_length)

lemma sml_crc_pair:
  "sml_crc_byte (sml_crc_byte c a) b
   = (crc_shift ^^ 16) (c XOR (push_bit 8 (ucast a) XOR ucast b))"
proof -
  have "(crc_shift ^^ 16) x = (crc_shift ^^ 8) ((crc_shift ^^ 8) x)" for x
    using funpow_add [of 8 8 crc_shift] by simp
  then show ?thesis
    by (simp only: sml_crc_byte_ref crc_ref_byte_def crc_shifts_xor low_byte_shifts xor.assoc)
qed

lemma byte_pair_inj:
  assumes "push_bit 8 (ucast (a :: u8)) XOR ucast (b :: u8)
    = (push_bit 8 (ucast (a' :: u8)) XOR ucast (b' :: u8) :: u16)"
  shows "a = a' \<and> b = b'"
proof -
  let ?w = "\<lambda>x y. push_bit 8 (ucast (x :: u8)) XOR ucast (y :: u8) :: u16"
  have "bit (?w x y) (i + 8) = bit x i" "bit (?w x y) i = bit y i" if "i < LENGTH(8)" for x y i
    using that by (auto simp: bit_xor_iff bit_push_bit_iff bit_ucast_iff dest: bit_imp_le_length)
  then show ?thesis
    using assms by (metis bit_word_eqI)
qed

interpretation crc: burst_digest sml_crc_byte
proof
  show "c = c'" if "sml_crc_byte c b = sml_crc_byte c' b" for c c' b
    using that by (auto simp: sml_crc_byte_ref crc_ref_byte_def  dest: crc_shifts_inj)
  show "b = b'" if "sml_crc_byte c b = sml_crc_byte c b'" for c b b'
    using that by (auto simp: sml_crc_byte_ref crc_ref_byte_def dest!: crc_shifts_inj ucast_shift_inj)
  show "a = a' \<and> b = b'"
    if "sml_crc_byte (sml_crc_byte c a) b = sml_crc_byte (sml_crc_byte c a') b'" for c a b a' b'
    using that by (auto simp: sml_crc_pair dest!: crc_shifts_inj byte_pair_inj)
qed

section \<open>Properties\<close>

text \<open>
  The nibble-table CRC of the code is, for every register and every list of bytes, the
  bit-at-a-time CRC-16 of polynomial 0x1021 (most significant bit first, no reflection).
\<close>

theorem sml_crc_is_bitwise: "sml_crc crc data = crc_ref crc data"
proof (induction data arbitrary: crc)
  case (Cons b bs)
  then show ?case by (simp add: sml_crc_byte_ref crc_ref_def)
qed (simp add: crc_ref_def)

end
