(* ===== verification/Sml_Codec.thy ===== *)
theory Sml_Codec
  imports Checksum
begin

text \<open>
  The SML codec of \<open>common/sml.c\<close>: the message table, big-endian fields, the conversion of a
  packed native struct to the wire and back, and whole frames. A struct is the list of its
  bytes; the native byte order is the parameter \<open>little\<close> of the field loads and stores, since
  the code copies each field through a variable of its own width and never looks at the order.
  A read past the end of the struct or of the wire is \<open>None\<close>.
\<close>

section \<open>Constants and the message table\<close>

definition SML_MAGIC_1 :: u8 where "SML_MAGIC_1 = 0xB5"
definition SML_MAGIC_2 :: u8 where "SML_MAGIC_2 = 0x73"
definition SML_HEADER_BYTES :: nat where "SML_HEADER_BYTES = 6"
definition SML_CRC_BYTES :: nat where "SML_CRC_BYTES = 2"
definition SML_MAX_PAYLOAD_BYTES :: nat where "SML_MAX_PAYLOAD_BYTES = 240"
definition SML_MAX_FRAME_BYTES :: nat where "SML_MAX_FRAME_BYTES = 248"

lemmas sml_consts =
  SML_MAGIC_1_def SML_MAGIC_2_def SML_HEADER_BYTES_def SML_CRC_BYTES_def
  SML_MAX_PAYLOAD_BYTES_def SML_MAX_FRAME_BYTES_def

record SmlMessage =
  msg_class :: u8
  msg_id :: u8
  msg_length :: u8
  msg_direction :: u8
  msg_layout :: "u8 list"
  msg_name :: string

definition SML_FROM_PIC :: u8 where "SML_FROM_PIC = 1"
definition SML_FROM_ESP :: u8 where "SML_FROM_ESP = 2"

abbreviation tz_entry_fields :: "u8 list" where
  "tz_entry_fields \<equiv> [4, 4, 2, 1, 1]"

abbreviation settings_body_fields :: "u8 list" where
  "settings_body_fields \<equiv> [2, 2, 4, 4, 4, 4, 4, 2, 1, 1]"

abbreviation source_entry_fields :: "u8 list" where
  "source_entry_fields \<equiv> [1, 1, 1, 1, 2, 2, 4, 4, 4, 4]"

definition layout_tz_state :: "u8 list" where
  "layout_tz_state = [2, 1, 1, 4, 4, 4] @ concat (replicate 9 tz_entry_fields) @ [0]"

definition messages :: "SmlMessage list" where
  "messages = (let PIC = SML_FROM_PIC; ESP = SML_FROM_ESP; m = SmlMessage.make in
     [m 0x10 0x01 16 PIC [2, 1, 1, 4, 4, 4, 0] ''TIME-AUTH'',
      m 0x10 0x10 38 PIC [2, 1, 1, 1, 1, 1, 1, 4, 4, 4, 4, 4, 4, 4, 2, 0] ''TIME-PIC'',
      m 0x10 0x11 56 PIC [2, 1, 1, 4, 4, 4, 4, 4, 4, 4, 4, 4, 4, 4, 4, 4, 0] ''TIME-CTRL'',
      m 0x10 0x12 20 PIC [2, 1, 1, 4, 2, 4, 4, 2, 0] ''TIME-VCTCXO'',
      m 0x10 0x13 40 PIC [2, 1, 1, 4, 4, 4, 4, 4, 4, 4, 4, 4, 0] ''TIME-MEAS'',
      m 0x10 0x20 54 PIC [2, 1, 1, 4, 4, 4, 2, 2, 2, 4, 4, 4, 4, 4, 4, 2, 1, 1, 4, 0] ''TIME-GNSS'',
      m 0x10 0x30 42 ESP [2, 1, 1, 4, 4, 4, 4, 4, 2, 4, 4, 4, 4, 0] ''TIME-NTP'',
      m 0x10 0x40 34 PIC [2, 1, 1, 4, 4, 4, 2, 4, 4, 4, 4, 0] ''TIME-RTC'',
      m 0x10 0x50 16 ESP [2, 1, 1, 2, 1, 1, 4, 4, 0] ''TIME-LEAP'',
      m 0x20 0x01 124 ESP layout_tz_state ''TZ-STATE'',
      m 0x30 0x01 32 PIC [2, 1, 1, 1, 1, 2, 2, 2, 4, 4, 4, 4, 4, 0] ''STAT-UI'',
      m 0x30 0x10 14 PIC [2, 2, 2, 2, 2, 2, 2, 0] ''STAT-ENV'',
      m 0x30 0x20 14 PIC [2, 2, 2, 2, 2, 2, 2, 0] ''STAT-SUPPLY'',
      m 0x30 0x30 36 PIC ([2, 2, 4] @ settings_body_fields @ [0]) ''STAT-SETTINGS'',
      m 0x30 0x40 24 ESP [2, 1, 1, 4, 4, 4, 4, 4, 0] ''STAT-NET'',
      m 0x30 0x50 108 PIC
        ([2, 1, 1, 1, 1, 2, 4] @ concat (replicate 4 source_entry_fields) @ [0]) ''STAT-SOURCES'',
      m 0x30 0x60 16 PIC [2, 2, 4, 4, 2, 2, 0] ''STAT-SYS'',
      m 0x30 0xF0 0 PIC [0] ''STAT-DEBUG'',
      m 0x80 0x10 10 (PIC OR ESP) [2, 2, 2, 4, 0] ''CMD-USER'',
      m 0x80 0x20 12 (PIC OR ESP) [2, 2, 2, 2, 4, 0] ''CMD-RESPONSE'',
      m 0x80 0x30 38 ESP ([2, 2, 2, 4] @ settings_body_fields @ [0]) ''CMD-SETTINGS''])"

fun find_message :: "SmlMessage list \<Rightarrow> u8 \<Rightarrow> u8 \<Rightarrow> SmlMessage option" where
  "find_message [] c i = None"
| "find_message (m # ms) c i =
     (if msg_class m = c \<and> msg_id m = i then Some m else find_message ms c i)"

definition sml_message :: "u8 \<Rightarrow> u8 \<Rightarrow> SmlMessage option" where
  "sml_message class_id message_id = find_message messages class_id message_id"

section \<open>Fields\<close>

definition sml_put_u16 :: "u16 \<Rightarrow> u8 list" where
  "sml_put_u16 v = [ucast (drop_bit 8 v), ucast v]"

definition sml_put_u32 :: "u32 \<Rightarrow> u8 list" where
  "sml_put_u32 v = [ucast (drop_bit 24 v), ucast (drop_bit 16 v), ucast (drop_bit 8 v), ucast v]"

definition sml_get_u16 :: "u8 \<Rightarrow> u8 \<Rightarrow> u16" where
  "sml_get_u16 w0 w1 = push_bit 8 (ucast w0) OR ucast w1"

definition sml_get_u32 :: "u8 \<Rightarrow> u8 \<Rightarrow> u8 \<Rightarrow> u8 \<Rightarrow> u32" where
  "sml_get_u32 w0 w1 w2 w3 =
     push_bit 24 (ucast w0) OR push_bit 16 (ucast w1) OR push_bit 8 (ucast w2) OR ucast w3"

text \<open>\<open>memcpy\<close> of a native field to and from a variable of its width.\<close>

definition native_load16 :: "bool \<Rightarrow> u8 \<Rightarrow> u8 \<Rightarrow> u16" where
  "native_load16 little a b = (if little then sml_get_u16 b a else sml_get_u16 a b)"

definition native_load32 :: "bool \<Rightarrow> u8 \<Rightarrow> u8 \<Rightarrow> u8 \<Rightarrow> u8 \<Rightarrow> u32" where
  "native_load32 little a b c d = (if little then sml_get_u32 d c b a else sml_get_u32 a b c d)"

definition native_store16 :: "bool \<Rightarrow> u16 \<Rightarrow> u8 list" where
  "native_store16 little v = (if little then rev (sml_put_u16 v) else sml_put_u16 v)"

definition native_store32 :: "bool \<Rightarrow> u32 \<Rightarrow> u8 list" where
  "native_store32 little v = (if little then rev (sml_put_u32 v) else sml_put_u32 v)"

text \<open>
  One field of the given size at the read position, converted. The layouts' sizes are 1, 2 and
  4 (\<open>sml.h\<close>); any other size, for which the code would copy one byte and leave a gap, is
  \<open>None\<close>, as is a field past the end.
\<close>

definition encode_field :: "bool \<Rightarrow> u8 \<Rightarrow> u8 list \<Rightarrow> u8 list option" where
  "encode_field little sz src =
     (if sz = 4 then (case src of a # b # c # d # _ \<Rightarrow> Some (sml_put_u32 (native_load32 little a b c d))
                        | _ \<Rightarrow> None)
      else if sz = 2 then (case src of a # b # _ \<Rightarrow> Some (sml_put_u16 (native_load16 little a b))
                             | _ \<Rightarrow> None)
      else if sz = 1 then (case src of a # _ \<Rightarrow> Some [a] | [] \<Rightarrow> None)
      else None)"

definition decode_field :: "bool \<Rightarrow> u8 \<Rightarrow> u8 list \<Rightarrow> u8 list option" where
  "decode_field little sz src =
     (if sz = 4 then (case src of a # b # c # d # _ \<Rightarrow> Some (native_store32 little (sml_get_u32 a b c d))
                        | _ \<Rightarrow> None)
      else if sz = 2 then (case src of a # b # _ \<Rightarrow> Some (native_store16 little (sml_get_u16 a b))
                             | _ \<Rightarrow> None)
      else if sz = 1 then (case src of a # _ \<Rightarrow> Some [a] | [] \<Rightarrow> None)
      else None)"

text \<open>
  The loop over the layout: up to its zero, each field from the read position, which moves on
  by the field's size. The result is the bytes written; their number is what the code returns.
\<close>

fun convert :: "(u8 \<Rightarrow> u8 list \<Rightarrow> u8 list option) \<Rightarrow> u8 list \<Rightarrow> u8 list \<Rightarrow> u8 list option" where
  "convert field [] src = None"
| "convert field (sz # layout) src =
     (if sz = 0 then Some []
      else case field sz src of None \<Rightarrow> None
        | Some out \<Rightarrow> map_option (\<lambda>rest. out @ rest) (convert field layout (drop (unat sz) src)))"

definition sml_encode :: "bool \<Rightarrow> u8 list \<Rightarrow> u8 list \<Rightarrow> u8 list option" where
  "sml_encode little layout native = convert (encode_field little) layout native"

definition sml_decode :: "bool \<Rightarrow> u8 list \<Rightarrow> u8 list \<Rightarrow> u8 list option" where
  "sml_decode little layout wire = convert (decode_field little) layout wire"

section \<open>Frames\<close>

text \<open>The payload at \<open>frame + SML_HEADER_BYTES\<close> or copied there; \<open>None\<close> is the returned 0.\<close>

definition sml_frame :: "u8 \<Rightarrow> u8 \<Rightarrow> u8 list \<Rightarrow> u8 list option" where
  "sml_frame class_id message_id payload =
     (if length payload > SML_MAX_PAYLOAD_BYTES then None
      else
        let header = [SML_MAGIC_1, SML_MAGIC_2, class_id, message_id]
                     @ sml_put_u16 (of_nat (length payload));
            crc = sml_crc SML_CRC_INIT (header @ payload)
        in Some (header @ payload @ sml_put_u16 crc))"

definition sml_frame_message :: "bool \<Rightarrow> u8 \<Rightarrow> u8 \<Rightarrow> u8 list \<Rightarrow> u8 list option" where
  "sml_frame_message little class_id message_id native =
     (case sml_message class_id message_id of
        None \<Rightarrow> None
      | Some message \<Rightarrow>
          if msg_length message = 0 then None
          else case sml_encode little (msg_layout message) native of
                 None \<Rightarrow> None
               | Some payload \<Rightarrow> sml_frame class_id message_id (take (unat (msg_length message)) payload))"

section \<open>Lemmas: fields\<close>

lemma put_get_u16 [simp]: "sml_put_u16 (sml_get_u16 a b) = [a, b]"
  by (auto simp: sml_put_u16_def sml_get_u16_def intro!: bit_word_eqI)
    (auto simp: bit_simps dest: bit_imp_le_length)

lemma get_put_u16 [simp]: "sml_get_u16 (ucast (drop_bit 8 v)) (ucast v) = v"
  by (rule bit_word_eqI) (auto simp: sml_get_u16_def bit_simps)

lemma put_get_u32 [simp]: "sml_put_u32 (sml_get_u32 a b c d) = [a, b, c, d]"
  by (auto simp: sml_put_u32_def sml_get_u32_def intro!: bit_word_eqI)
    (auto simp: bit_simps dest: bit_imp_le_length)

lemma get_put_u32 [simp]:
  "sml_get_u32 (ucast (drop_bit 24 v)) (ucast (drop_bit 16 v)) (ucast (drop_bit 8 v)) (ucast v) = v"
proof (rule bit_word_eqI)
  fix n assume n: "n < LENGTH(32)"
  consider "n < 8" | "8 \<le> n" "n < 16" | "16 \<le> n" "n < 24" | "24 \<le> n" by linarith
  then show "bit (sml_get_u32 (ucast (drop_bit 24 v)) (ucast (drop_bit 16 v))
      (ucast (drop_bit 8 v)) (ucast v)) n = bit v n"
    using n by cases (auto simp: sml_get_u32_def bit_simps)
qed

lemma length_put [simp]: "length (sml_put_u16 v) = 2" "length (sml_put_u32 w) = 4"
  by (simp_all add: sml_put_u16_def sml_put_u32_def)

lemma native_roundtrip16:
  "\<exists>a b. native_store16 little v = [a, b] \<and> native_load16 little a b = v"
  "native_store16 little (native_load16 little a b) = [a, b]"
  by (auto simp: native_store16_def native_load16_def) (simp_all add: sml_put_u16_def)

lemma native_roundtrip32:
  "\<exists>a b c d. native_store32 little v = [a, b, c, d] \<and> native_load32 little a b c d = v"
  "native_store32 little (native_load32 little a b c d) = [a, b, c, d]"
  by (auto simp: native_store32_def native_load32_def) (simp_all add: sml_put_u32_def)

section \<open>Lemmas: a field, then a layout\<close>

text \<open>
  What one conversion owes to the loop: it is defined exactly when the bytes are there, and
  its output has the field's size. \<open>codec\<close> adds a second conversion that undoes the first;
  both directions of the code are instances.
\<close>

locale field_conversion =
  fixes field :: "u8 \<Rightarrow> u8 list \<Rightarrow> u8 list option"
  assumes field_defined: "sz \<in> {1, 2, 4} \<Longrightarrow> unat sz \<le> length src \<Longrightarrow> \<exists>out. field sz src = Some out"
    and field_length: "field sz src = Some out \<Longrightarrow> length out = unat sz \<and> unat sz \<le> length src"
begin

lemma convert_defined:
  "set layout \<subseteq> {1, 2, 4} \<Longrightarrow> sum_list (map unat layout) \<le> length src
   \<Longrightarrow> \<exists>out. convert field (layout @ [0]) src = Some out"
proof (induction layout arbitrary: src)
  case (Cons sz layout)
  then obtain out where "field sz src = Some out"
    using field_defined [of sz src] by auto
  moreover obtain rest where "convert field (layout @ [0]) (drop (unat sz) src) = Some rest"
    using Cons.IH [of "drop (unat sz) src"] Cons.prems
    by (metis add_le_imp_le_diff add.commute insert_subset length_drop list.simps(15) list.simps(9)
        sum_list.Cons)
  ultimately show ?case using Cons.prems by auto
qed simp

lemma convert_length:
  "0 \<notin> set layout \<Longrightarrow> convert field (layout @ [0]) src = Some out
   \<Longrightarrow> length out = sum_list (map unat layout)"
  by (induction layout arbitrary: src out)
    (auto split: option.splits if_splits dest: field_length)

end

locale codec = field_conversion enc + undo: field_conversion dec
  for enc :: "u8 \<Rightarrow> u8 list \<Rightarrow> u8 list option" and dec +
  assumes field_inverse: "enc sz src = Some out \<Longrightarrow> dec sz (out @ ext) = Some (take (unat sz) src)"
begin

lemma convert_inverse:
  assumes "0 \<notin> set layout" "convert enc (layout @ [0]) src = Some out"
  shows "convert dec (layout @ [0]) (out @ ext) = Some (take (sum_list (map unat layout)) src)"
  using assms
proof (induction layout arbitrary: src out)
  case (Cons sz layout)
  from Cons.prems obtain w rest where w: "enc sz src = Some w" and out: "out = w @ rest"
    and rest: "convert enc (layout @ [0]) (drop (unat sz) src) = Some rest"
    by (auto split: option.splits if_splits)
  have "convert dec (layout @ [0]) (rest @ ext)
      = Some (take (sum_list (map unat layout)) (drop (unat sz) src))"
    using Cons.IH [OF _ rest] Cons.prems(1) by simp
  then show ?case
    using Cons.prems(1) w field_inverse [OF w, of "rest @ ext"] field_length [OF w]
    by (simp add: out take_add)
qed simp

end

lemma encode_field_cases:
  assumes "encode_field little sz src = Some out"
  obtains a r where "sz = 1" "src = a # r" "out = [a]"
  | a b r where "sz = 2" "src = a # b # r" "out = sml_put_u16 (native_load16 little a b)"
  | a b c d r where "sz = 4" "src = a # b # c # d # r"
      "out = sml_put_u32 (native_load32 little a b c d)"
  using assms by (auto simp: encode_field_def split: if_splits list.splits)

lemma decode_field_cases:
  assumes "decode_field little sz src = Some out"
  obtains a r where "sz = 1" "src = a # r" "out = [a]"
  | a b r where "sz = 2" "src = a # b # r" "out = native_store16 little (sml_get_u16 a b)"
  | a b c d r where "sz = 4" "src = a # b # c # d # r"
      "out = native_store32 little (sml_get_u32 a b c d)"
  using assms by (auto simp: decode_field_def split: if_splits list.splits)

lemma take_cases:
  "2 \<le> length xs \<Longrightarrow> \<exists>a b r. xs = a # b # r"
  "4 \<le> length xs \<Longrightarrow> \<exists>a b c d r. xs = a # b # c # d # r"
  by (auto simp: numeral_eq_Suc Suc_le_length_iff)

lemma length_native_store [simp]:
  "length (native_store16 little v) = 2" "length (native_store32 little w) = 4"
  by (simp_all add: native_store16_def native_store32_def)

interpretation wire: codec "encode_field little" "decode_field little" for little
proof
  show "\<exists>out. encode_field little sz src = Some out"
    if "sz \<in> {1, 2, 4}" "unat sz \<le> length src" for sz src
    using that by (auto simp: encode_field_def split: list.splits dest!: take_cases)
  show "\<exists>out. decode_field little sz src = Some out"
    if "sz \<in> {1, 2, 4}" "unat sz \<le> length src" for sz src
    using that by (auto simp: decode_field_def split: list.splits dest!: take_cases)
  show "length out = unat sz \<and> unat sz \<le> length src" if "encode_field little sz src = Some out" for sz src out
    using that by (cases rule: encode_field_cases) auto
  show "length out = unat sz \<and> unat sz \<le> length src" if "decode_field little sz src = Some out" for sz src out
    using that by (cases rule: decode_field_cases) auto
  show "decode_field little sz (out @ ext) = Some (take (unat sz) src)"
    if "encode_field little sz src = Some out" for sz src out ext
    using that
    by (cases rule: encode_field_cases)
      (auto simp: decode_field_def sml_put_u16_def sml_put_u32_def native_roundtrip16 native_roundtrip32)
qed

section \<open>The table\<close>

definition layout_ok :: "SmlMessage \<Rightarrow> bool" where
  "layout_ok m \<longleftrightarrow>
     (let l = butlast (msg_layout m)
      in msg_layout m = l @ [0] \<and> list_all (\<lambda>sz. sz = 1 \<or> sz = 2 \<or> sz = 4) l
         \<and> sum_list (map unat l) = unat (msg_length m) \<and> unat (msg_length m) \<le> SML_MAX_PAYLOAD_BYTES)"

lemma messages_layout_ok: "list_all layout_ok messages"
  by code_simp

lemma messages_keys: "distinct (map (\<lambda>m. (msg_class m, msg_id m)) messages)"
  by code_simp

lemma message_layout:
  assumes "m \<in> set messages"
  obtains l where "msg_layout m = l @ [0]" "set l \<subseteq> {1, 2, 4}"
    "sum_list (map unat l) = unat (msg_length m)" "unat (msg_length m) \<le> 240"
proof
  from assms messages_layout_ok have "layout_ok m" by (simp add: list_all_iff)
  then show "msg_layout m = butlast (msg_layout m) @ [0]" "set (butlast (msg_layout m)) \<subseteq> {1, 2, 4}"
    "sum_list (map unat (butlast (msg_layout m))) = unat (msg_length m)" "unat (msg_length m) \<le> 240"
    by (auto simp: layout_ok_def Let_def list_all_iff sml_consts)
qed

lemma find_message_Some:
  "find_message ms c i = Some m \<Longrightarrow> m \<in> set ms \<and> msg_class m = c \<and> msg_id m = i"
  by (induction ms) (auto split: if_splits)

lemma find_message_in:
  "distinct (map (\<lambda>m. (msg_class m, msg_id m)) ms) \<Longrightarrow> m \<in> set ms
   \<Longrightarrow> find_message ms (msg_class m) (msg_id m) = Some m"
  by (induction ms) (auto simp: image_iff)

section \<open>Properties\<close>

text \<open>
  Every message of the table is found under its class and ID and no other is, and for
  every native struct of the message's length (in either byte order) \<open>sml_encode\<close> writes
  exactly that many bytes, from which \<open>sml_decode\<close> restores the struct, whatever follows
  them in the buffer.
\<close>

theorem sml_message_roundtrip:
  assumes "m \<in> set messages" "length native = unat (msg_length m)"
  shows "sml_message (msg_class m) (msg_id m) = Some m
    \<and> (\<exists>wire. sml_encode little (msg_layout m) native = Some wire
        \<and> length wire = unat (msg_length m)
        \<and> (\<forall>rest. sml_decode little (msg_layout m) (wire @ rest) = Some native))"
proof -
  obtain l where l: "msg_layout m = l @ [0]" "set l \<subseteq> {1, 2, 4}"
    "sum_list (map unat l) = unat (msg_length m)"
    using message_layout [OF assms(1)] by metis
  then have nz: "0 \<notin> set l" by auto
  obtain w where w: "convert (encode_field little) (l @ [0]) native = Some w"
    using wire.convert_defined [of l native little] l assms(2) by auto
  have "length w = unat (msg_length m)"
    using wire.convert_length [OF nz w] l(3) by simp
  moreover have "convert (decode_field little) (l @ [0]) (w @ rest) = Some native" for rest
    using wire.convert_inverse [OF nz w, of rest] l(3) assms(2) by simp
  ultimately show ?thesis
    using find_message_in [OF messages_keys assms(1)] w
    by (auto simp: sml_message_def sml_encode_def sml_decode_def l(1))
qed

theorem sml_message_roundtrip_witness:
  "\<exists>m wire. m \<in> set messages \<and> msg_name m = ''TIME-LEAP''
     \<and> sml_encode True (msg_layout m) [2, 1, 5, 6, 0x10, 0x20, 7, 8, 9, 10, 11, 12, 13, 14, 15, 16]
         = Some wire
     \<and> sml_decode True (msg_layout m) wire
         = Some [2, 1, 5, 6, 0x10, 0x20, 7, 8, 9, 10, 11, 12, 13, 14, 15, 16]"
proof -
  let ?m = "messages ! 8" and ?n = "[2, 1, 5, 6, 0x10, 0x20, 7, 8, 9, 10, 11, 12, 13, 14, 15, 16] :: u8 list"
  have m: "?m \<in> set messages" and name: "msg_name ?m = ''TIME-LEAP''"
    and len: "length ?n = unat (msg_length ?m)"
    by (simp_all add: messages_def Let_def SmlMessage.defs)
  show ?thesis
    using sml_message_roundtrip [OF m len, of True] m name by (metis append_Nil2)
qed

end
