(* ===== verification/Sml_Parser.thy ===== *)
theory Sml_Parser
  imports Sml_Codec
begin

text \<open>
  The incremental frame parser of \<open>common/sml.c\<close> and the receive loop that drives it
  (\<open>esp_link_service\<close>). The buffer is the list of the \<open>count\<close> bytes held, and a push that
  would write past \<open>SML_MAX_FRAME_BYTES\<close> is \<open>None\<close>. The reference is \<open>parse\<close>, which reads a
  whole stream at once; the parser fed a byte at a time finds the same frames.
\<close>

section \<open>The code\<close>

record SmlFrame =
  frm_class :: u8
  frm_id :: u8
  frm_length :: u16
  frm_payload :: "u8 list"

record SmlParserStats =
  frames :: u32
  noise_bytes :: u32
  crc_errors :: u32
  length_errors :: u32
  timeouts :: u32

record SmlParser =
  buffer :: "u8 list"
  consumed :: nat
  stats :: SmlParserStats

definition sml_parser_init :: SmlParser where
  "sml_parser_init =
     \<lparr>buffer = [], consumed = 0,
      stats = \<lparr>frames = 0, noise_bytes = 0, crc_errors = 0, length_errors = 0, timeouts = 0\<rparr>\<rparr>"

definition drop_bytes :: "nat \<Rightarrow> SmlParser \<Rightarrow> SmlParser" where
  "drop_bytes n p = p\<lparr>buffer := drop n (buffer p)\<rparr>"

definition count_noise :: "SmlParser \<Rightarrow> SmlParser" where
  "count_noise p = p\<lparr>stats := (stats p)\<lparr>noise_bytes := noise_bytes (stats p) + 1\<rparr>\<rparr>"

definition count_length_error :: "SmlParser \<Rightarrow> SmlParser" where
  "count_length_error p = p\<lparr>stats := (stats p)\<lparr>length_errors := length_errors (stats p) + 1\<rparr>\<rparr>"

definition count_crc_error :: "SmlParser \<Rightarrow> SmlParser" where
  "count_crc_error p = p\<lparr>stats := (stats p)\<lparr>crc_errors := crc_errors (stats p) + 1\<rparr>\<rparr>"

definition header_length :: "u8 list \<Rightarrow> nat" where
  "header_length b = unat (sml_get_u16 (b ! 4) (b ! 5))"

definition frame_of :: "u8 list \<Rightarrow> SmlFrame" where
  "frame_of b =
     \<lparr>frm_class = b ! 2, frm_id = b ! 3, frm_length = sml_get_u16 (b ! 4) (b ! 5),
      frm_payload = take (header_length b) (drop SML_HEADER_BYTES b)\<rparr>"

function scan :: "SmlParser \<Rightarrow> SmlParser \<times> SmlFrame option" where
  "scan p =
     (let b = buffer p in
      if b = [] then (p, None)
      else if b ! 0 \<noteq> SML_MAGIC_1 \<or> (length b \<ge> 2 \<and> b ! 1 \<noteq> SML_MAGIC_2)
      then scan (drop_bytes 1 (count_noise p))
      else if length b < SML_HEADER_BYTES then (p, None)
      else if header_length b > SML_MAX_PAYLOAD_BYTES
      then scan (drop_bytes 1 (count_noise (count_length_error p)))
      else let total = SML_HEADER_BYTES + header_length b + SML_CRC_BYTES in
        if length b < total then (p, None)
        else if sml_crc SML_CRC_INIT (take (total - SML_CRC_BYTES) b)
                \<noteq> sml_get_u16 (b ! (total - SML_CRC_BYTES)) (b ! (total - SML_CRC_BYTES + 1))
        then scan (drop_bytes 1 (count_noise (count_crc_error p)))
        else (p\<lparr>consumed := total, stats := (stats p)\<lparr>frames := frames (stats p) + 1\<rparr>\<rparr>,
              Some (frame_of b)))"
  by pat_completeness auto
termination
  by (relation "measure (length \<circ> buffer)")
    (auto simp: drop_bytes_def count_noise_def count_length_error_def count_crc_error_def)

definition release :: "SmlParser \<Rightarrow> SmlParser" where
  "release p = (if consumed p \<noteq> 0 then (drop_bytes (consumed p) p)\<lparr>consumed := 0\<rparr> else p)"

definition sml_parser_push :: "SmlParser \<Rightarrow> u8 \<Rightarrow> (SmlParser \<times> SmlFrame option) option" where
  "sml_parser_push p byte =
     (let q = release p in
      if length (buffer q) \<ge> SML_MAX_FRAME_BYTES then None
      else Some (scan (q\<lparr>buffer := buffer q @ [byte]\<rparr>)))"

definition sml_parser_next :: "SmlParser \<Rightarrow> SmlParser \<times> SmlFrame option" where
  "sml_parser_next p = scan (release p)"

definition sml_parser_timeout :: "SmlParser \<Rightarrow> SmlParser \<times> bool" where
  "sml_parser_timeout p =
     (let q = release p in
      if buffer q = [] then (q, False)
      else (q\<lparr>buffer := [],
              stats := (stats q)\<lparr>timeouts := timeouts (stats q) + 1,
                noise_bytes := noise_bytes (stats q) + of_nat (length (buffer q))\<rparr>\<rparr>, True))"

declare scan.simps [simp del]

section \<open>The decision at the head of the buffer\<close>

text \<open>
  What one round of the loop decides: nothing to decide yet, drop a byte, or a frame of the
  given size. The decision, once taken, does not depend on bytes that arrive later.
\<close>

datatype verdict = Wait | Skip | Accept nat

definition verdict :: "u8 list \<Rightarrow> verdict" where
  "verdict b =
     (if b = [] then Wait
      else if b ! 0 \<noteq> SML_MAGIC_1 \<or> (length b \<ge> 2 \<and> b ! 1 \<noteq> SML_MAGIC_2) then Skip
      else if length b < SML_HEADER_BYTES then Wait
      else if header_length b > SML_MAX_PAYLOAD_BYTES then Skip
      else let total = SML_HEADER_BYTES + header_length b + SML_CRC_BYTES in
        if length b < total then Wait
        else if sml_crc SML_CRC_INIT (take total b) \<noteq> 0 then Skip else Accept total)"

lemma crc_residue:
  "sml_crc c (xs @ [hi, lo]) = 0 \<longleftrightarrow> sml_crc c xs = sml_get_u16 hi lo"
proof -
  have w: "push_bit 8 (ucast hi) XOR ucast lo = sml_get_u16 hi lo"
    by (rule bit_word_eqI) (auto simp: sml_get_u16_def bit_simps dest: bit_imp_le_length)
  have "sml_crc c (xs @ [hi, lo]) = (crc_shift ^^ 16) (sml_crc c xs XOR sml_get_u16 hi lo)"
    by (simp add: sml_crc_append sml_crc_pair w)
  moreover have "(crc_shift ^^ 16) 0 = 0" by (simp add: crc_shift_def numeral_eq_Suc)
  moreover have "x XOR y = 0 \<longleftrightarrow> x = y" for x y :: u16
    by (metis word_xor_cancel(1) xor_self_eq)
  ultimately show ?thesis by (metis crc_shifts_inj)
qed

lemma crc_check:
  assumes "n + 2 \<le> length b"
  shows "sml_crc c (take (n + 2) b) = 0 \<longleftrightarrow> sml_crc c (take n b) = sml_get_u16 (b ! n) (b ! (n + 1))"
proof -
  have "take (n + 2) b = take n b @ [b ! n, b ! (n + 1)]"
    using assms by (simp add: take_Suc_conv_app_nth)
  then show ?thesis by (simp only: crc_residue)
qed

lemma verdict_accept_size:
  "verdict b = Accept n \<Longrightarrow> 8 \<le> n \<and> n \<le> 248 \<and> n \<le> length b"
  by (auto simp: verdict_def Let_def sml_consts split: if_splits)

lemma verdict_wait_size: "verdict b = Wait \<Longrightarrow> length b < 248"
  by (auto simp: verdict_def Let_def sml_consts split: if_splits)

lemma verdict_skip_nonempty: "verdict b = Skip \<Longrightarrow> b \<noteq> []"
  by (auto simp: verdict_def)

lemma nth_Cons_append: "b \<noteq> [] \<Longrightarrow> (b @ c) ! 0 = b ! 0"
  by (cases b) auto

lemma verdict_append:
  assumes "verdict b \<noteq> Wait"
  shows "verdict (b @ c) = verdict b"
proof -
  have hl: "header_length (b @ c) = header_length b" if "6 \<le> length b"
    using that by (simp add: header_length_def nth_append)
  have tk: "take n (b @ c) = take n b" if "n \<le> length b" for n
    using that by simp
  have "b \<noteq> []" using assms by (auto simp: verdict_def)
  moreover have "2 \<le> length b \<Longrightarrow> (b @ c) ! 1 = b ! 1" by (simp add: nth_append)
  ultimately show ?thesis
    using assms hl tk
    by (auto simp: verdict_def Let_def sml_consts nth_Cons_append split: if_splits)
qed

lemma frame_of_append:
  assumes "verdict b = Accept n"
  shows "frame_of (b @ c) = frame_of b"
proof -
  have "8 + header_length b \<le> length b"
    using assms by (auto simp: verdict_def Let_def sml_consts split: if_splits)
  then show ?thesis
    by (simp add: frame_of_def header_length_def nth_append sml_consts)
qed

text \<open>One round of \<open>scan\<close>, by the decision.\<close>

lemma scan_wait: "verdict (buffer p) = Wait \<Longrightarrow> scan p = (p, None)"
  by (subst scan.simps) (auto simp: verdict_def Let_def crc_check sml_consts split: if_splits)

lemma scan_accept:
  assumes "verdict (buffer p) = Accept n"
  shows "scan p = (p\<lparr>consumed := n, stats := (stats p)\<lparr>frames := frames (stats p) + 1\<rparr>\<rparr>,
    Some (frame_of (buffer p)))"
  using assms crc_check [of "6 + header_length (buffer p)" "buffer p" SML_CRC_INIT]
  by (subst scan.simps) (auto simp: verdict_def Let_def sml_consts split: if_splits)

text \<open>The counters after a byte is dropped: which check failed, then the noise byte.\<close>

definition skip_stats :: "u8 list \<Rightarrow> SmlParserStats \<Rightarrow> SmlParserStats" where
  "skip_stats b st =
     (let st' = (if b ! 0 \<noteq> SML_MAGIC_1 \<or> (length b \<ge> 2 \<and> b ! 1 \<noteq> SML_MAGIC_2) then st
                 else if header_length b > SML_MAX_PAYLOAD_BYTES
                 then st\<lparr>length_errors := length_errors st + 1\<rparr>
                 else st\<lparr>crc_errors := crc_errors st + 1\<rparr>)
      in st'\<lparr>noise_bytes := noise_bytes st' + 1\<rparr>)"

lemma skip_stats_simps [simp]:
  "noise_bytes (skip_stats b st) = noise_bytes st + 1"
  "frames (skip_stats b st) = frames st"
  "timeouts (skip_stats b st) = timeouts st"
  by (simp_all add: skip_stats_def Let_def)

lemma update_order: "p\<lparr>stats := s, buffer := b\<rparr> = p\<lparr>buffer := b, stats := s\<rparr>"
  by (cases p) simp

lemma scan_skip:
  assumes "verdict (buffer p) = Skip"
  shows "scan p = scan (p\<lparr>buffer := tl (buffer p), stats := skip_stats (buffer p) (stats p)\<rparr>)"
  using assms crc_check [of "6 + header_length (buffer p)" "buffer p" SML_CRC_INIT]
  by (subst scan.simps)
    (auto simp: verdict_def Let_def sml_consts drop_bytes_def count_noise_def count_length_error_def
      count_crc_error_def skip_stats_def update_order drop_Suc split: if_splits)

text \<open>Induction over the rounds of one call.\<close>

lemma scan_rounds [case_names wait accept skip]:
  assumes "\<And>p. verdict (buffer p) = Wait \<Longrightarrow> P p"
    and "\<And>p n. verdict (buffer p) = Accept n \<Longrightarrow> P p"
    and "\<And>p. verdict (buffer p) = Skip \<Longrightarrow>
      P (p\<lparr>buffer := tl (buffer p), stats := skip_stats (buffer p) (stats p)\<rparr>) \<Longrightarrow> P p"
  shows "P p"
proof (induction "length (buffer p)" arbitrary: p rule: less_induct)
  case less
  show ?case
  proof (cases "verdict (buffer p)")
    case Skip
    show ?thesis
      by (rule assms(3) [OF Skip], rule less) (simp add: verdict_skip_nonempty [OF Skip])
  qed (use assms in blast)+
qed

section \<open>The reference: a whole stream at once\<close>

function parse :: "u8 list \<Rightarrow> SmlFrame list \<times> u8 list" where
  "parse b =
     (case verdict b of
        Wait \<Rightarrow> ([], b)
      | Skip \<Rightarrow> parse (tl b)
      | Accept n \<Rightarrow> (let (fs, r) = parse (drop n b) in (frame_of b # fs, r)))"
  by pat_completeness auto
termination
proof (relation "measure length")
  show "(tl b, b) \<in> measure length" if "verdict b = Skip" for b
    using verdict_skip_nonempty [OF that] by (cases b) auto
  show "(drop n b, b) \<in> measure length" if "verdict b = Accept n" for b n
    using verdict_accept_size [OF that] by (simp, arith)
qed simp

declare parse.simps [simp del]

lemma parse_wait: "verdict b = Wait \<Longrightarrow> parse b = ([], b)"
  by (simp add: parse.simps)

lemma parse_skip: "verdict b = Skip \<Longrightarrow> parse b = parse (tl b)"
  by (subst parse.simps) simp

lemma parse_accept:
  "verdict b = Accept n \<Longrightarrow> parse b = (frame_of b # fst (parse (drop n b)), snd (parse (drop n b)))"
  by (subst parse.simps) (simp add: case_prod_beta)

text \<open>What is left over is undecided; parsing a longer stream goes on from it.\<close>

lemma parse_rest_waits: "verdict (snd (parse b)) = Wait"
proof (induction b rule: parse.induct)
  case (1 b)
  then show ?case by (cases "verdict b") (auto simp: parse_wait parse_skip parse_accept)
qed

lemma parse_append:
  "parse (b @ c) = (fst (parse b) @ fst (parse (snd (parse b) @ c)), snd (parse (snd (parse b) @ c)))"
proof (induction b rule: parse.induct)
  case (1 b)
  show ?case
  proof (cases "verdict b")
    case Wait
    then show ?thesis by (simp add: parse_wait)
  next
    case Skip
    then have "b \<noteq> []" by (rule verdict_skip_nonempty)
    with Skip 1 show ?thesis
      using verdict_append [of b c] by (simp add: parse_skip [of b] parse_skip [of "b @ c"])
  next
    case (Accept n)
    then have "n \<le> length b" using verdict_accept_size by blast
    with Accept 1 show ?thesis
      using verdict_append [of b c] frame_of_append [OF Accept, of c]
      by (simp add: parse_accept [of b] parse_accept [of "b @ c"])
  qed
qed

section \<open>The parser against the reference\<close>

text \<open>
  The invariant between calls. Either the last call returned a frame of \<open>consumed\<close> bytes, not
  yet released, or what is buffered is undecided; in both cases there is room for a byte.
\<close>

definition parser_ok :: "SmlParser \<Rightarrow> bool" where
  "parser_ok p \<longleftrightarrow>
     (if consumed p = 0 then verdict (buffer p) = Wait
      else consumed p \<le> length (buffer p) \<and> length (buffer p) < consumed p + 248)"

lemma release_simps [simp]:
  "buffer (release p) = drop (consumed p) (buffer p)" "consumed (release p) = 0"
  "stats (release p) = stats p"
  by (simp_all add: release_def drop_bytes_def)

lemma parser_ok_room: "parser_ok p \<Longrightarrow> length (buffer (release p)) < 248"
  by (auto simp: parser_ok_def dest: verdict_wait_size split: if_splits)

lemma scan_spec:
  assumes "consumed p = 0" "scan p = (p', r)"
  shows "length (buffer p') \<le> length (buffer p)"
    "noise_bytes (stats p') + of_nat (length (buffer p'))
     = noise_bytes (stats p) + of_nat (length (buffer p))"
    "r = None \<Longrightarrow> consumed p' = 0 \<and> verdict (buffer p') = Wait \<and> parse (buffer p) = ([], buffer p')"
    "r = Some f \<Longrightarrow> verdict (buffer p') = Accept (consumed p')
      \<and> parse (buffer p) = (f # fst (parse (drop (consumed p') (buffer p'))),
                            snd (parse (drop (consumed p') (buffer p'))))"
proof -
  let ?Q = "\<lambda>p. consumed p = 0 \<longrightarrow> scan p = (p', r) \<longrightarrow>
    length (buffer p') \<le> length (buffer p)
    \<and> noise_bytes (stats p') + of_nat (length (buffer p'))
      = noise_bytes (stats p) + of_nat (length (buffer p))
    \<and> (r = None \<longrightarrow> consumed p' = 0 \<and> verdict (buffer p') = Wait \<and> parse (buffer p) = ([], buffer p'))
    \<and> (r = Some f \<longrightarrow> verdict (buffer p') = Accept (consumed p')
        \<and> parse (buffer p) = (f # fst (parse (drop (consumed p') (buffer p'))),
                              snd (parse (drop (consumed p') (buffer p')))))"
  have "?Q p"
  proof (induction p rule: scan_rounds)
    case (wait p)
    then show ?case by (auto simp: scan_wait parse_wait)
  next
    case (accept p n)
    then show ?case by (auto simp: scan_accept parse_accept)
  next
    case (skip p)
    have "length (buffer p) = Suc (length (tl (buffer p)))"
      using verdict_skip_nonempty [OF skip(1)] by simp
    with skip show ?case
      by (auto simp: scan_skip [OF skip(1)] parse_skip [OF skip(1)] add.assoc simp del: length_tl)
  qed
  with assms show "length (buffer p') \<le> length (buffer p)"
    "noise_bytes (stats p') + of_nat (length (buffer p'))
     = noise_bytes (stats p) + of_nat (length (buffer p))"
    "r = None \<Longrightarrow> consumed p' = 0 \<and> verdict (buffer p') = Wait \<and> parse (buffer p) = ([], buffer p')"
    "r = Some f \<Longrightarrow> verdict (buffer p') = Accept (consumed p')
      \<and> parse (buffer p) = (f # fst (parse (drop (consumed p') (buffer p'))),
                            snd (parse (drop (consumed p') (buffer p'))))"
    by blast+
qed

lemma scan_ok:
  assumes "consumed p = 0" "length (buffer p) \<le> 248" "scan p = (p', r)"
  shows "parser_ok p'"
proof (cases r)
  case None
  with scan_spec(3) [OF assms(1,3)] show ?thesis by (simp add: parser_ok_def)
next
  case (Some f)
  have v: "verdict (buffer p') = Accept (consumed p')"
    using scan_spec(4) [OF assms(1,3) Some] by simp
  show ?thesis
    using verdict_accept_size [OF v] scan_spec(1) [OF assms(1,3)] assms(2)
    by (simp add: parser_ok_def)
qed

section \<open>The receive loop\<close>

text \<open>
  \<open>esp_link_service\<close>: each byte received is pushed; after a frame, \<open>sml_parser_next\<close> is called
  until it finds no more. The frames handled, in order; \<open>None\<close> is a write past the buffer.
\<close>

function drain :: "SmlParser \<Rightarrow> SmlParser \<times> SmlFrame list" where
  "drain p =
     (case sml_parser_next p of
        (p', None) \<Rightarrow> (p', [])
      | (p', Some f) \<Rightarrow> (let (p'', fs) = drain p' in (p'', f # fs)))"
  by pat_completeness auto
termination
proof (relation "measure (\<lambda>p. length (buffer p) - consumed p)")
  fix p p' r f assume "(p', r) = sml_parser_next p" "r = Some f"
  then have sc: "scan (release p) = (p', Some f)" by (simp add: sml_parser_next_def)
  have v: "verdict (buffer p') = Accept (consumed p')"
    using scan_spec(4) [OF _ sc refl] by simp
  show "(p', p) \<in> measure (\<lambda>p. length (buffer p) - consumed p)"
    using verdict_accept_size [OF v] scan_spec(1) [OF _ sc] by auto
qed simp

declare drain.simps [simp del]

definition receive :: "SmlParser \<Rightarrow> u8 \<Rightarrow> (SmlParser \<times> SmlFrame list) option" where
  "receive p byte =
     (case sml_parser_push p byte of
        None \<Rightarrow> None
      | Some (p', None) \<Rightarrow> Some (p', [])
      | Some (p', Some f) \<Rightarrow> Some (let (p'', fs) = drain p' in (p'', f # fs)))"

fun receive_all :: "SmlParser \<Rightarrow> u8 list \<Rightarrow> (SmlParser \<times> SmlFrame list) option" where
  "receive_all p [] = Some (p, [])"
| "receive_all p (b # bs) =
     (case receive p b of
        None \<Rightarrow> None
      | Some (p', fs) \<Rightarrow> map_option (\<lambda>(q, gs). (q, fs @ gs)) (receive_all p' bs))"

lemma drain_spec:
  assumes "drain p = (q, fs)"
  shows "consumed q = 0 \<and> parse (drop (consumed p) (buffer p)) = (fs, buffer q)
    \<and> verdict (buffer q) = Wait"
  using assms
proof (induction p arbitrary: q fs rule: drain.induct)
  case (1 p)
  obtain p' r where sc: "scan (release p) = (p', r)" by fastforce
  show ?case
  proof (cases r)
    case None
    with sc "1.prems" scan_spec(3) [OF _ sc] show ?thesis
      by (auto simp: drain.simps [of p] sml_parser_next_def)
  next
    case (Some f)
    obtain q' gs where d: "drain p' = (q', gs)" by fastforce
    from d sc Some "1.prems" have "q = q'" "fs = f # gs"
      by (auto simp: drain.simps [of p] sml_parser_next_def)
    moreover have "consumed q' = 0 \<and> parse (drop (consumed p') (buffer p')) = (gs, buffer q')
        \<and> verdict (buffer q') = Wait"
      using "1.IH" [OF _ Some d] sc by (simp add: sml_parser_next_def)
    ultimately show ?thesis using scan_spec(4) [OF _ sc Some] by simp
  qed
qed

lemma receive_spec:
  assumes "consumed p = 0" "verdict (buffer p) = Wait"
  obtains q fs where "receive p b = Some (q, fs)" "consumed q = 0" "verdict (buffer q) = Wait"
    "parse (buffer p @ [b]) = (fs, buffer q)"
proof -
  let ?p = "(release p)\<lparr>buffer := buffer p @ [b]\<rparr>"
  obtain p' r where sc: "scan ?p = (p', r)" by fastforce
  have push: "sml_parser_push p b = Some (p', r)"
    using sc assms verdict_wait_size [OF assms(2)]
    by (simp add: sml_parser_push_def sml_consts Let_def)
  show thesis
  proof (cases r)
    case None
    with scan_spec(3) [OF _ sc] push that show thesis by (auto simp: receive_def)
  next
    case (Some f)
    obtain q fs where d: "drain p' = (q, fs)" by fastforce
    with drain_spec [OF d] scan_spec(4) [OF _ sc Some] push Some that show thesis
      by (auto simp: receive_def)
  qed
qed

lemma receive_all_spec:
  assumes "consumed p = 0" "verdict (buffer p) = Wait"
  shows "\<exists>q. receive_all p bs = Some (q, fst (parse (buffer p @ bs)))
    \<and> consumed q = 0 \<and> buffer q = snd (parse (buffer p @ bs))"
  using assms
proof (induction bs arbitrary: p)
  case Nil
  then show ?case by (simp add: parse_wait)
next
  case (Cons b bs)
  obtain q fs where q: "receive p b = Some (q, fs)" "consumed q = 0" "verdict (buffer q) = Wait"
    "parse (buffer p @ [b]) = (fs, buffer q)"
    using receive_spec [OF Cons.prems] by metis
  show ?case
    using Cons.IH [OF q(2,3)] q(1,4) parse_append [of "buffer p @ [b]" bs] by auto
qed

section \<open>Every byte accounted for\<close>

definition frame_bytes :: "SmlFrame \<Rightarrow> nat" where
  "frame_bytes f = SML_HEADER_BYTES + unat (frm_length f) + SML_CRC_BYTES"

lemma verdict_accept_frame: "verdict b = Accept n \<Longrightarrow> frame_bytes (frame_of b) = n"
  by (auto simp: verdict_def Let_def frame_bytes_def frame_of_def header_length_def split: if_splits)

text \<open>Bytes the parser has seen and not passed on: noise, and what is buffered after the frame
  last returned.\<close>

definition held :: "SmlParser \<Rightarrow> u32" where
  "held p = noise_bytes (stats p) + of_nat (length (buffer p) - consumed p)"

lemma scan_held:
  assumes "consumed p = 0" "scan p = (p', r)"
  shows "held p = held p' + (case r of None \<Rightarrow> 0 | Some f \<Rightarrow> of_nat (frame_bytes f))"
proof (cases r)
  case None
  with scan_spec(2,3) [OF assms] assms(1) show ?thesis by (simp add: held_def)
next
  case (Some f)
  have v: "verdict (buffer p') = Accept (consumed p')" and fp: "parse (buffer p) = (f # fst (parse (drop (consumed p') (buffer p'))),
                            snd (parse (drop (consumed p') (buffer p'))))"
    using scan_spec(4) [OF assms Some] by auto
  have "f = frame_of (buffer p')"
    using assms(2) Some
  proof (induction p rule: scan_rounds)
    case (skip p)
    then show ?case by (simp add: scan_skip [OF skip(1)])
  qed (auto simp: scan_wait scan_accept)
  then have fb: "frame_bytes f = consumed p'" using verdict_accept_frame [OF v] by simp
  have "consumed p' \<le> length (buffer p')" using verdict_accept_size [OF v] by simp
  then have "of_nat (length (buffer p') - consumed p') + of_nat (consumed p') = (of_nat (length (buffer p')) :: u32)"
    by (metis le_add_diff_inverse2 of_nat_add)
  then show ?thesis
    using Some fb scan_spec(2) [OF assms] assms(1) by (simp add: held_def add.assoc)
qed

lemma held_release [simp]: "held (release p) = held p"
  by (simp add: held_def)

lemma drain_held: "drain p = (q, fs) \<Longrightarrow> held p = held q + of_nat (sum_list (map frame_bytes fs))"
proof (induction p arbitrary: q fs rule: drain.induct)
  case (1 p)
  obtain p' r where sc: "scan (release p) = (p', r)" by fastforce
  show ?case
  proof (cases r)
    case None
    with sc "1.prems" scan_held [OF _ sc] show ?thesis
      by (auto simp: drain.simps [of p] sml_parser_next_def)
  next
    case (Some f)
    obtain q' gs where d: "drain p' = (q', gs)" by fastforce
    from d sc Some "1.prems" have "q = q'" "fs = f # gs"
      by (auto simp: drain.simps [of p] sml_parser_next_def)
    moreover have "held p' = held q' + of_nat (sum_list (map frame_bytes gs))"
      using "1.IH" [OF _ Some d] sc by (simp add: sml_parser_next_def)
    ultimately show ?thesis using scan_held [OF _ sc] Some by (simp add: ac_simps)
  qed
qed

lemma receive_held:
  assumes "receive p b = Some (q, fs)" "consumed p = 0"
  shows "held p + 1 = held q + of_nat (sum_list (map frame_bytes fs))"
proof -
  let ?p = "(release p)\<lparr>buffer := buffer p @ [b]\<rparr>"
  obtain p' r where sc: "scan ?p = (p', r)" by fastforce
  have push: "sml_parser_push p b = Some (p', r)"
    using assms sc by (auto simp: receive_def sml_parser_push_def Let_def split: if_splits)
  have h: "held p + 1 = held ?p" using assms(2) by (simp add: held_def)
  show ?thesis
  proof (cases r)
    case None
    with push assms scan_held [OF _ sc] h show ?thesis by (auto simp: receive_def)
  next
    case (Some f)
    obtain q' gs where d: "drain p' = (q', gs)" by fastforce
    with push assms Some have "q = q'" "fs = f # gs" by (auto simp: receive_def)
    with drain_held [OF d] scan_held [OF _ sc] h Some show ?thesis
      by (simp only: SmlParser.simps release_simps list.map sum_list.Cons of_nat_add option.case) (simp add: ac_simps)
  qed
qed

lemma receive_all_held:
  assumes "receive_all p bs = Some (q, fs)" "consumed p = 0" "verdict (buffer p) = Wait"
  shows "held p + of_nat (length bs) = held q + of_nat (sum_list (map frame_bytes fs))"
  using assms
proof (induction bs arbitrary: p fs)
  case (Cons b bs)
  obtain p' gs where r: "receive p b = Some (p', gs)" and w: "consumed p' = 0" "verdict (buffer p') = Wait"
    using receive_spec [OF Cons.prems(2,3)] by metis
  obtain hs where a: "receive_all p' bs = Some (q, hs)" and fs: "fs = gs @ hs"
    using Cons.prems(1) r by auto
  show ?case
    using Cons.IH [OF a w] receive_held [OF r Cons.prems(2)] fs
    by (simp add: add.assoc [symmetric])
qed simp

section \<open>Any calls in any order\<close>

datatype parser_call = Push u8 | Next | Timeout

definition parser_step :: "parser_call \<Rightarrow> SmlParser option \<Rightarrow> SmlParser option" where
  "parser_step e s =
     (case s of None \<Rightarrow> None
      | Some p \<Rightarrow> (case e of
            Push b \<Rightarrow> map_option fst (sml_parser_push p b)
          | Next \<Rightarrow> Some (fst (sml_parser_next p))
          | Timeout \<Rightarrow> Some (fst (sml_parser_timeout p))))"

definition parser_state_ok :: "SmlParser option \<Rightarrow> bool" where
  "parser_state_ok s \<longleftrightarrow> (\<exists>p. s = Some p \<and> parser_ok p)"

interpretation parser: stepper parser_step "\<lambda>_. True" parser_state_ok
proof
  fix e s assume "parser_state_ok s"
  then obtain p where p: "s = Some p" "parser_ok p" by (auto simp: parser_state_ok_def)
  note room = parser_ok_room [OF p(2)]
  show "parser_state_ok (parser_step e s)"
  proof (cases e)
    case (Push b)
    obtain p' r where sc: "scan ((release p)\<lparr>buffer := buffer (release p) @ [b]\<rparr>) = (p', r)" by fastforce
    have "parser_ok p'" by (rule scan_ok [OF _ _ sc]) (use room in simp_all)
    with sc room p Push show ?thesis
      by (simp add: parser_step_def parser_state_ok_def sml_parser_push_def Let_def sml_consts)
  next
    case Next
    obtain p' r where sc: "scan (release p) = (p', r)" by fastforce
    have "parser_ok p'" by (rule scan_ok [OF _ _ sc]) (use room in simp_all)
    with sc p Next show ?thesis
      by (simp add: parser_step_def parser_state_ok_def sml_parser_next_def)
  next
    case Timeout
    with p show ?thesis
      by (auto simp: parser_step_def parser_state_ok_def sml_parser_timeout_def Let_def parser_ok_def
          verdict_def)
  qed
qed

section \<open>Frames built by the sender\<close>

definition sent_frame :: "u8 \<Rightarrow> u8 \<Rightarrow> u8 list \<Rightarrow> SmlFrame" where
  "sent_frame c i payload =
     \<lparr>frm_class = c, frm_id = i, frm_length = of_nat (length payload), frm_payload = payload\<rparr>"

lemma sml_frame_shape:
  assumes "sml_frame c i payload = Some fr"
  obtains hi lo where
    "fr = [SML_MAGIC_1, SML_MAGIC_2, c, i] @ sml_put_u16 (of_nat (length payload)) @ payload @ [hi, lo]"
    "sml_crc SML_CRC_INIT fr = 0" "length payload \<le> 240" "length fr = 8 + length payload"
proof -
  let ?h = "[SML_MAGIC_1, SML_MAGIC_2, c, i] @ sml_put_u16 (of_nat (length payload)) @ payload"
  let ?crc = "sml_crc SML_CRC_INIT ?h"
  have fr: "fr = ?h @ sml_put_u16 ?crc" and len: "length payload \<le> 240"
    using assms by (auto simp: sml_frame_def Let_def sml_consts split: if_splits)
  show thesis
  proof (rule that [of "ucast (drop_bit 8 ?crc)" "ucast ?crc"])
    show "sml_crc SML_CRC_INIT fr = 0"
      unfolding fr by (simp only: sml_put_u16_def crc_residue get_put_u16)
  qed (use fr len in \<open>simp_all add: sml_put_u16_def\<close>)
qed

lemma verdict_sent:
  assumes "sml_frame c i payload = Some fr"
  shows "verdict fr = Accept (length fr)" "frame_of fr = sent_frame c i payload"
proof -
  obtain hi lo where fr:
    "fr = [SML_MAGIC_1, SML_MAGIC_2, c, i] @ sml_put_u16 (of_nat (length payload)) @ payload @ [hi, lo]"
    and crc: "sml_crc SML_CRC_INIT fr = 0" and len: "length payload \<le> 240"
    and lfr: "length fr = 8 + length payload"
    using sml_frame_shape [OF assms] by metis
  have get: "sml_get_u16 (fr ! 4) (fr ! 5) = of_nat (length payload)"
    by (simp add: fr sml_put_u16_def)
  have hl: "header_length fr = length payload"
    using len by (simp add: header_length_def get unat_of_nat)
  have m: "fr ! 0 = SML_MAGIC_1" "fr ! 1 = SML_MAGIC_2" "fr ! 2 = c" "fr ! 3 = i" "fr \<noteq> []"
    by (simp_all add: fr)
  show "verdict fr = Accept (length fr)"
    using m crc len by (simp add: verdict_def hl lfr sml_consts Let_def)
  have "drop 6 fr = payload @ [hi, lo]" by (simp add: fr sml_put_u16_def)
  then show "frame_of fr = sent_frame c i payload"
    by (simp add: frame_of_def sent_frame_def m get hl sml_consts)
qed

lemma parse_sent:
  assumes "sml_frame c i payload = Some fr"
  shows "parse (fr @ rest) = (sent_frame c i payload # fst (parse rest), snd (parse rest))"
proof -
  have "verdict (fr @ rest) = Accept (length fr)"
    using verdict_sent(1) [OF assms] verdict_append [of fr rest] by simp
  then show ?thesis
    using parse_accept frame_of_append [OF verdict_sent(1) [OF assms]] verdict_sent(2) [OF assms] by simp
qed

lemma parse_all_sent:
  "list_all2 (\<lambda>(c, i, payload) fr. sml_frame c i payload = Some fr) msgs frs
   \<Longrightarrow> parse (concat frs) = (map (\<lambda>(c, i, payload). sent_frame c i payload) msgs, [])"
  by (induction rule: list_all2_induct)
    (auto simp: parse_sent parse_wait verdict_def)

lemma init_ok: "consumed sml_parser_init = 0" "verdict (buffer sml_parser_init) = Wait"
  by (simp_all add: sml_parser_init_def verdict_def)

section \<open>Properties\<close>

text \<open>
  C1: refinement. The receive loop, fed any bytes one at a time from the initial state, never
  writes past the buffer, hands on exactly the frames that \<open>parse\<close> finds in the whole stream
  (so it loses no frame that begins inside a rejected one, and splitting the stream changes
  nothing), keeps buffered exactly the undecided rest, and accounts for every byte: the noise
  counter, the frames handed on and the bytes buffered add up to the bytes received (the
  counters wrap at 32 bits).
\<close>

theorem parser_refines_parse:
  "\<exists>q. receive_all sml_parser_init bs = Some (q, fst (parse bs)) \<and> buffer q = snd (parse bs)
     \<and> noise_bytes (stats q) + of_nat (length (buffer q)) + of_nat (sum_list (map frame_bytes (fst (parse bs))))
       = of_nat (length bs)"
proof -
  obtain q where q: "receive_all sml_parser_init bs = Some (q, fst (parse bs))" "consumed q = 0"
    "buffer q = snd (parse bs)"
    using receive_all_spec [OF init_ok, of bs] by (auto simp: sml_parser_init_def)
  have "held sml_parser_init = 0" by (simp add: held_def sml_parser_init_def)
  with receive_all_held [OF q(1) init_ok] q show ?thesis by (auto simp: held_def)
qed

text \<open>
  Whatever calls are made in whatever order (\<open>push\<close>, \<open>next\<close> and \<open>timeout\<close>, a frame
  returned and never asked about again included), the parser never writes past its buffer.
\<close>

theorem parser_never_overflows:
  "fold parser_step calls (Some sml_parser_init) \<noteq> None"
proof -
  have "parser_state_ok (Some sml_parser_init)"
    by (simp add: parser_state_ok_def parser_ok_def init_ok)
  then have "parser_state_ok (fold parser_step calls (Some sml_parser_init))"
    by (intro parser.run_invar) (simp_all add: list_all_iff)
  then show ?thesis by (auto simp: parser_state_ok_def)
qed

text \<open>
  C19: round trip. Any sequence of messages framed by \<open>sml_frame\<close> and sent back to back is
  received as exactly those messages, in order, with no noise and nothing left over.
\<close>

theorem sml_frames_roundtrip:
  assumes "list_all2 (\<lambda>(c, i, payload) fr. sml_frame c i payload = Some fr) msgs frs"
  shows "\<exists>q. receive_all sml_parser_init (concat frs)
      = Some (q, map (\<lambda>(c, i, payload). sent_frame c i payload) msgs)
    \<and> buffer q = [] \<and> noise_bytes (stats q) = 0"
proof -
  note pa = parse_all_sent [OF assms]
  obtain q where q: "receive_all sml_parser_init (concat frs)
      = Some (q, map (\<lambda>(c, i, payload). sent_frame c i payload) msgs)" "buffer q = []" "consumed q = 0"
    using receive_all_spec [OF init_ok, of "concat frs"] pa by (auto simp: sml_parser_init_def)
  have "sum_list (map (frame_bytes \<circ> (\<lambda>(c, i, payload). sent_frame c i payload)) msgs)
      = length (concat frs)"
    using assms
  proof (induction rule: list_all2_induct)
    case (Cons m msgs fr frs)
    obtain c i payload where m: "m = (c, i, payload)" by (cases m)
    with Cons(1) have "frame_bytes (sent_frame c i payload) = length fr"
      using verdict_sent [of c i payload fr] verdict_accept_frame by fastforce
    with m Cons(3) show ?case by (simp add: o_def)
  qed simp
  with receive_all_held [OF q(1) init_ok] q show ?thesis
    by (auto simp: held_def sml_parser_init_def)
qed

theorem sml_frames_roundtrip_witness:
  "\<exists>fr q. sml_frame 0x30 0xF0 [104, 105] = Some fr
    \<and> receive_all sml_parser_init (fr @ fr)
      = Some (q, [sent_frame 0x30 0xF0 [104, 105], sent_frame 0x30 0xF0 [104, 105]])"
proof -
  obtain fr where fr: "sml_frame 0x30 0xF0 [104, 105] = Some fr"
    by (simp add: sml_frame_def sml_consts Let_def)
  have "list_all2 (\<lambda>(c, i, payload) fr. sml_frame c i payload = Some fr)
      [(0x30, 0xF0, [104, 105]), (0x30, 0xF0, [104, 105])] [fr, fr]"
    using fr by simp
  from sml_frames_roundtrip [OF this] fr show ?thesis by auto
qed

text \<open>
  C29: corruption. Change any one byte, or any two neighbouring bytes, of a frame anywhere but
  in its length field (the CRC included): whatever the buffer then holds after it, the parser
  does not accept it but drops its first byte as noise and looks again from the next.
\<close>

theorem corrupted_frame_rejected:
  assumes "sml_frame c i payload = Some (xs @ a # b # ys)" "(a, b) \<noteq> (a', b')"
    and "header_length (xs @ a' # b' # ys) = length payload"
    and "buffer p = (xs @ a' # b' # ys) @ later"
  shows "scan p = scan (p\<lparr>buffer := tl (buffer p), stats := skip_stats (buffer p) (stats p)\<rparr>)"
proof -
  let ?f = "xs @ a' # b' # ys"
  have crc: "sml_crc SML_CRC_INIT (xs @ a # b # ys) = 0" and l: "length payload \<le> 240"
    and "length (xs @ a # b # ys) = 8 + length payload"
    using sml_frame_shape [OF assms(1)] by metis+
  then have len: "length ?f = 8 + length payload" by simp
  have "sml_crc SML_CRC_INIT ?f \<noteq> 0"
    using crc.burst_detected [OF assms(2), of SML_CRC_INIT xs ys] crc by (simp add: sml_crc_foldl)
  then have "verdict ?f = Skip"
    using assms(3) len l by (auto simp: verdict_def Let_def sml_consts)
  then have "verdict (buffer p) = Skip"
    using verdict_append [of ?f later] assms(4) by simp
  then show ?thesis by (rule scan_skip)
qed

theorem corrupted_frame_rejected_witness:
  "\<exists>fr a b. sml_frame 0x30 0xF0 [104, 105] = Some ([0xB5, 0x73, 0x30, 0xF0, 0, 2] @ 104 # 105 # fr)
    \<and> (let p = sml_parser_init\<lparr>buffer := [0xB5, 0x73, 0x30, 0xF0, 0, 2] @ a # b # fr\<rparr>
       in scan p = scan (p\<lparr>buffer := tl (buffer p), stats := skip_stats (buffer p) (stats p)\<rparr>))"
proof -
  obtain fr where fr: "sml_frame 0x30 0xF0 [104, 105]
      = Some ([0xB5, 0x73, 0x30, 0xF0, 0, 2] @ 104 # 105 # fr)"
    by (simp add: sml_frame_def sml_consts Let_def sml_put_u16_def)
  have hl: "header_length ([0xB5, 0x73, 0x30, 0xF0, 0, 2] @ 107 # 105 # fr) = length [104, 105 :: u8]"
    by (simp add: header_length_def sml_get_u16_def)
  show ?thesis
    using corrupted_frame_rejected [OF fr, of 107 105 "sml_parser_init\<lparr>buffer :=
        [0xB5, 0x73, 0x30, 0xF0, 0, 2] @ 107 # 105 # fr\<rparr>" "[]"] hl fr
    by (auto simp: Let_def)
qed

end
