(* ===== verification/Utc.thy ===== *)
theory Utc
  imports Prelude
begin

text \<open>
  UTC seconds and the calendar (\<open>dspic_src/platform/utc.c\<close>): counting seconds through an
  announced leap second, snapping a leap estimate to a midnight, and the proleptic Gregorian
  conversions, all in the unsigned widths of the code. The reference calendar is
  \<open>next_date\<close>, the date after a date; the lemmas tie the closed formulas to it. Printing is
  not modelled.
\<close>

section \<open>The code: seconds and leap seconds\<close>

definition UTC_SECONDS_PER_DAY :: u32 where "UTC_SECONDS_PER_DAY = 86400"
definition UTC_LAST_DAY :: u32 where "UTC_LAST_DAY = 49709"
definition UTC_LAST_YEAR :: u16 where "UTC_LAST_YEAR = 2106"

record UtcLeap =
  event_utc :: u32
  change :: int

definition utc_advance :: "u32 \<Rightarrow> bool \<Rightarrow> u32 \<Rightarrow> UtcLeap option \<Rightarrow> u32 \<times> bool" where
  "utc_advance label label_is_leap seconds leap =
     (let result = label + seconds;
          result_is_leap = (label_is_leap \<and> seconds = 0)
      in case leap of
           None \<Rightarrow> (result, result_is_leap)
         | Some l \<Rightarrow>
             if seconds > 0 then
               let event = event_utc l in
               if change l > 0 \<and> \<not> label_is_leap \<and> label < event \<and> result \<ge> event
               then (result - 1, result = event)
               else if change l < 0 \<and> label < event - 1 \<and> result \<ge> event - 1
               then (result + 1, result_is_leap)
               else (result, result_is_leap)
             else (result, result_is_leap))"

definition utc_leap_snap :: "u32 \<Rightarrow> u32 \<Rightarrow> u32 option" where
  "utc_leap_snap estimated_utc tolerance_s =
     (let into_day = estimated_utc mod UTC_SECONDS_PER_DAY;
          midnight = estimated_utc - into_day
      in if into_day > UTC_SECONDS_PER_DAY div 2 then
           if UTC_SECONDS_PER_DAY - into_day > tolerance_s
              \<or> midnight div UTC_SECONDS_PER_DAY > UTC_LAST_DAY
           then None
           else Some (midnight + UTC_SECONDS_PER_DAY)
         else if into_day > tolerance_s then None
         else Some midnight)"

section \<open>The code: the calendar\<close>

record UtcCivil =
  year :: u16
  month :: u8
  day :: u8
  hour :: u8
  minute :: u8
  second :: u8

definition DAYS_TO_1970 :: u32 where "DAYS_TO_1970 = 719468"
definition DAYS_PER_ERA :: u32 where "DAYS_PER_ERA = 146097"
definition LAST_SECOND_OF_LAST_DAY :: u32 where
  "LAST_SECOND_OF_LAST_DAY = 6 * 3600 + 28 * 60 + 15"

text \<open>The day of the year counted from March, in the 16-bit \<open>unsigned\<close> of the target.\<close>

definition day_of_march_year :: "u8 \<Rightarrow> u8 \<Rightarrow> u16" where
  "day_of_march_year m d =
     (153 * (if m > 2 then ucast m - 3 else ucast m + 9) + 2) div 5 + ucast d - 1"

definition utc_days_from_civil :: "u16 \<Rightarrow> u8 \<Rightarrow> u8 \<Rightarrow> u16" where
  "utc_days_from_civil yr m d =
     (let y = (ucast yr :: u32) - (if m \<le> 2 then 1 else 0);
          era = y div 400;
          year_of_era = y - era * 400;
          day_of_year = ucast (day_of_march_year m d) :: u32;
          day_of_era = year_of_era * 365 + year_of_era div 4 - year_of_era div 100 + day_of_year
      in ucast (era * DAYS_PER_ERA + day_of_era - DAYS_TO_1970))"

definition utc_civil_from_days :: "u16 \<Rightarrow> UtcCivil \<Rightarrow> UtcCivil" where
  "utc_civil_from_days days civil =
     (let z = (ucast days :: u32) + DAYS_TO_1970;
          era = z div DAYS_PER_ERA;
          day_of_era = z - era * DAYS_PER_ERA;
          year_of_era = (day_of_era - day_of_era div 1460 + day_of_era div 36524
                         - day_of_era div 146096) div 365;
          day_of_year = day_of_era - (365 * year_of_era + year_of_era div 4 - year_of_era div 100);
          month_index = (5 * day_of_year + 2) div 153;
          mon = (if month_index < 10 then month_index + 3 else month_index - 9)
      in civil\<lparr>year := ucast (year_of_era + era * 400 + (if mon \<le> 2 then 1 else 0)),
               month := ucast mon,
               day := ucast (day_of_year - (153 * month_index + 2) div 5 + 1)\<rparr>)"

definition utc_to_civil :: "u32 \<Rightarrow> bool \<Rightarrow> UtcCivil \<Rightarrow> UtcCivil" where
  "utc_to_civil utc_seconds leap_second civil =
     (let second_of_day = utc_seconds mod UTC_SECONDS_PER_DAY;
          minute_of_day = ucast (second_of_day div 60) :: u16;
          c = utc_civil_from_days (ucast (utc_seconds div UTC_SECONDS_PER_DAY)) civil
      in c\<lparr>hour := ucast (minute_of_day div 60),
           minute := ucast (minute_of_day mod 60),
           second := ucast (if leap_second then 60 else second_of_day mod 60)\<rparr>)"

definition utc_from_civil :: "UtcCivil \<Rightarrow> u32" where
  "utc_from_civil c =
     (let days = ucast (utc_days_from_civil (year c) (month c) (day c)) :: u32;
          s = (if second c > 59 then 59 else ucast (second c)) :: u32
      in days * UTC_SECONDS_PER_DAY + ucast (hour c) * 3600 + ucast (minute c) * 60 + s)"

definition month_lengths :: "u8 list" where
  "month_lengths = [31, 28, 31, 30, 31, 30, 31, 31, 30, 31, 30, 31]"

definition days_in_month :: "u16 \<Rightarrow> u8 \<Rightarrow> u8" where
  "days_in_month yr m =
     (let leap_year = ((yr mod 4 = 0 \<and> yr mod 100 \<noteq> 0) \<or> yr mod 400 = 0)
      in month_lengths ! (unat m - 1) + (if m = 2 \<and> leap_year then 1 else 0))"

definition utc_civil_is_valid :: "UtcCivil \<Rightarrow> bool" where
  "utc_civil_is_valid c =
     (if year c < 1970 \<or> year c > UTC_LAST_YEAR \<or> month c < 1 \<or> month c > 12 \<or> day c < 1
         \<or> day c > days_in_month (year c) (month c) \<or> hour c > 23 \<or> minute c > 59 \<or> second c > 60
      then False
      else if year c < UTC_LAST_YEAR \<or> month c = 1 \<or> (month c = 2 \<and> day c < 7) then True
      else let second_of_day = (ucast (hour c) :: u32) * 3600 + ucast (minute c) * 60 + ucast (second c)
           in month c = 2 \<and> day c = 7 \<and> second_of_day \<le> LAST_SECOND_OF_LAST_DAY)"

lemmas utc_consts =
  UTC_SECONDS_PER_DAY_def UTC_LAST_DAY_def UTC_LAST_YEAR_def DAYS_TO_1970_def DAYS_PER_ERA_def
  LAST_SECOND_OF_LAST_DAY_def

section \<open>The calendar, date by date\<close>

text \<open>A date is year, month and day as natural numbers; \<open>next_date\<close> is the day after.\<close>

definition leap_year :: "nat \<Rightarrow> bool" where
  "leap_year y \<longleftrightarrow> y mod 4 = 0 \<and> (y mod 100 \<noteq> 0 \<or> y mod 400 = 0)"

definition month_days :: "nat \<Rightarrow> nat \<Rightarrow> nat" where
  "month_days y m =
     (if m = 2 then if leap_year y then 29 else 28
      else if m \<in> {4, 6, 9, 11} then 30 else 31)"

fun next_date :: "nat \<times> nat \<times> nat \<Rightarrow> nat \<times> nat \<times> nat" where
  "next_date (y, m, d) =
     (if d < month_days y m then (y, m, d + 1)
      else if m < 12 then (y, m + 1, 1) else (y + 1, 1, 1))"

fun date_ok :: "nat \<times> nat \<times> nat \<Rightarrow> bool" where
  "date_ok (y, m, d) \<longleftrightarrow> 0 < y \<and> 1 \<le> m \<and> m \<le> 12 \<and> 1 \<le> d \<and> d \<le> month_days y m"


section \<open>Day numbers\<close>

text \<open>
  \<open>days_nat\<close> is \<open>utc_days_from_civil\<close> on natural numbers and with days counted from 1 March of
  year 0; \<open>year_of_era_inverse\<close> is why the division by 1460, 36524 and 146096 finds the year.
\<close>

lemma year_of_era_inverse:
  fixes a c e y :: nat
  assumes "a < 4" "c < 25" "e < 4" "y \<le> 365" "y = 365 \<Longrightarrow> e = 3 \<and> (c = 24 \<longrightarrow> a = 3)"
  defines "doe \<equiv> 36524 * a + 1461 * c + 365 * e + y"
  shows "(doe - doe div 1460 + doe div 36524 - doe div 146096) div 365 = 100 * a + 4 * c + e"
proof -
  define s where "s = 365 * e + y"
  define t where "t = (24 * a + c + s) div 1460"
  have s: "s \<le> 1460" "s = 1460 \<Longrightarrow> y = 365" using assms(3,4) by (auto simp: s_def)
  have t: "t = (if 24 * a + c + s < 1460 then 0 else 1)"
    using s assms(1,2) by (auto simp: t_def intro!: div_nat_eqI)
  have A: "doe div 1460 = 25 * a + c + t"
  proof -
    have "doe = 24 * a + c + s + 1460 * (25 * a + c)" by (simp add: doe_def s_def)
    then show ?thesis by (simp add: t_def)
  qed
  have BC: "doe div 36524 = a + doe div 146096 \<and> doe div 146096 \<le> 1"
  proof (cases "doe = 146096")
    case True
    then have "a = 3" using assms(1-4) by (auto simp: doe_def)
    with True show ?thesis by simp
  next
    case False
    have "1461 * c + s < 36524"
    proof (rule ccontr)
      assume "\<not> 1461 * c + s < 36524"
      then have "c = 24" "s = 1460" using s(1) assms(2) by auto
      with s(2) assms(5) have "a = 3" by auto
      with False \<open>c = 24\<close> \<open>s = 1460\<close> show False by (simp add: doe_def s_def)
    qed
    then have "doe div 36524 = a" "doe < 146096"
      using assms(1) by (auto simp: doe_def s_def intro!: div_nat_eqI)
    then show ?thesis by simp
  qed
  have y: "t \<le> y" "y - t < 365"
    using assms(3-5) assms(1,2) by (cases "y = 365"; auto simp: t s_def)+
  have "doe - doe div 1460 + doe div 36524 - doe div 146096 = 365 * (100 * a + 4 * c + e) + (y - t)"
    using BC y(1) unfolding A by (simp add: doe_def)
  then show ?thesis using y(2) by simp
qed

definition march_day :: "nat \<Rightarrow> nat \<Rightarrow> nat" where
  "march_day m d = (153 * (if m > 2 then m - 3 else m + 9) + 2) div 5 + d - 1"

definition march_year :: "nat \<Rightarrow> nat \<Rightarrow> nat" where
  "march_year y m = (if m \<le> 2 then y - 1 else y)"

definition days_nat :: "nat \<Rightarrow> nat \<Rightarrow> nat \<Rightarrow> nat" where
  "days_nat y m d =
     (let Y = march_year y m; e = Y mod 400
      in Y div 400 * 146097 + e * 365 + e div 4 - e div 100 + march_day m d)"

fun date_days :: "nat \<times> nat \<times> nat \<Rightarrow> nat" where
  "date_days (y, m, d) = days_nat y m d"

lemma march_day_bound: "1 \<le> m \<Longrightarrow> m \<le> 12 \<Longrightarrow> 1 \<le> d \<Longrightarrow> d \<le> 31 \<Longrightarrow> march_day m d \<le> 367"
  by (auto simp: march_day_def)

lemma unat_day_of_march_year:
  assumes "1 \<le> unat m" "unat m \<le> 12" "1 \<le> unat d" "unat d \<le> 31"
  shows "unat (day_of_march_year m d) = march_day (unat m) (unat d)"
proof -
  define k :: u16 where "k = (if m > 2 then ucast m - 3 else ucast m + 9)"
  have k: "unat k = (if unat m > 2 then unat m - 3 else unat m + 9)"
  proof (cases "m > 2")
    case True
    then have "2 < unat m" by (simp add: word_less_nat_alt)
    then show ?thesis by (simp add: k_def True unat_sub word_le_nat_alt width_simps)
  next
    case False
    then have "\<not> 2 < unat m" by (simp add: word_less_nat_alt)
    then show ?thesis using assms by (simp add: k_def False unat_word_ariths width_simps)
  qed
  then have "unat k \<le> 11" using assms by auto
  then have n: "unat (153 * k + 2) = 153 * unat k + 2" by (simp add: unat_word_ariths)
  have "unat ((153 * k + 2) div 5 + ucast d) = (153 * unat k + 2) div 5 + unat d"
    using n assms \<open>unat k \<le> 11\<close> by (simp add: unat_word_ariths unat_div width_simps)
  then have "unat (day_of_march_year m d) = (153 * unat k + 2) div 5 + unat d - 1"
    using assms by (simp add: day_of_march_year_def flip: k_def) (simp add: unat_sub word_le_nat_alt)
  then show ?thesis by (simp add: march_day_def k)
qed

lemma unat_days_from_civil:
  assumes "1970 \<le> unat y" "unat y \<le> 2500"
    and "1 \<le> unat m" "unat m \<le> 12" "1 \<le> unat d" "unat d \<le> 31"
    and "719468 \<le> days_nat (unat y) (unat m) (unat d)"
    and "days_nat (unat y) (unat m) (unat d) < 719468 + 65536"
  shows "unat (utc_days_from_civil y m d) = days_nat (unat y) (unat m) (unat d) - 719468"
proof -
  define Y :: u32 where "Y = ucast y - (if m \<le> 2 then 1 else 0)"
  have m2: "m \<le> 2 \<longleftrightarrow> unat m \<le> 2" by (simp add: word_le_nat_alt)
  have Y: "unat Y = march_year (unat y) (unat m)"
    using assms(1) by (auto simp: Y_def march_year_def m2 unat_sub word_le_nat_alt width_simps)
  have Yb: "unat Y \<le> 2500" using assms(2) by (auto simp: Y march_year_def)
  define E where "E = Y - Y div 400 * 400"
  have E: "unat E = unat Y mod 400"
    using Yb by (simp add: E_def unat_sub word_le_nat_alt unat_div unat_word_ariths minus_div_mult_eq_mod)
  have Eb: "unat E < 400" by (simp add: E)
  define w where "w = (ucast (day_of_march_year m d) :: u32)"
  have w: "unat w = march_day (unat m) (unat d)"
    using assms by (simp add: w_def width_simps unat_day_of_march_year)
  then have wb: "unat w \<le> 367" using march_day_bound assms by simp
  have doe: "unat (E * 365 + E div 4 - E div 100 + w)
      = unat E * 365 + unat E div 4 - unat E div 100 + unat w"
    using Eb wb by (simp add: unat_word_ariths unat_sub word_le_nat_alt unat_div)
  have "unat (Y div 400 * 146097 + (E * 365 + E div 4 - E div 100 + w))
      = unat Y div 400 * 146097 + (unat E * 365 + unat E div 4 - unat E div 100 + unat w)"
    using doe Yb Eb wb by (simp add: unat_word_ariths unat_div)
  also have "\<dots> = days_nat (unat y) (unat m) (unat d)"
    using Eb by (simp add: days_nat_def Let_def Y E w add.assoc)
  finally have s: "unat (Y div 400 * 146097 + (E * 365 + E div 4 - E div 100 + w))
      = days_nat (unat y) (unat m) (unat d)" .
  have "utc_days_from_civil y m d
      = ucast (Y div 400 * 146097 + (E * 365 + E div 4 - E div 100 + w) - 719468)"
    by (simp add: utc_days_from_civil_def Let_def utc_consts Y_def E_def w_def)
  moreover have "unat (Y div 400 * 146097 + (E * 365 + E div 4 - E div 100 + w) - 719468)
      = days_nat (unat y) (unat m) (unat d) - 719468"
    using s assms(7) by (simp add: unat_sub word_le_nat_alt)
  ultimately show ?thesis
    using assms(8) by (simp add: unsigned_ucast_eq take_bit_nat_eq_self)
qed

text \<open>The other way, on natural numbers.\<close>

definition civil_nat :: "nat \<Rightarrow> nat \<times> nat \<times> nat" where
  "civil_nat z =
     (let doe = z mod 146097;
          yoe = (doe - doe div 1460 + doe div 36524 - doe div 146096) div 365;
          doy = doe - (365 * yoe + yoe div 4 - yoe div 100);
          mi = (5 * doy + 2) div 153;
          m = (if mi < 10 then mi + 3 else mi - 9)
      in (yoe + z div 146097 * 400 + (if m \<le> 2 then 1 else 0), m, doy - (153 * mi + 2) div 5 + 1))"

lemma months:
  fixes m :: nat
  assumes "1 \<le> m" "m \<le> 12"
  shows "m \<in> {1,2,3,4,5,6,7,8,9,10,11,12}"
  using assms by simp presburger

lemma date_ok_next: "date_ok x \<Longrightarrow> date_ok (next_date x)"
  by (cases x rule: next_date.cases) (auto simp: month_days_def)

lemma march_day_inverse:
  assumes "1 \<le> m" "m \<le> 12" "1 \<le> d" "d \<le> month_days y m"
  defines "mi \<equiv> if m > 2 then m - 3 else m + 9"
  shows "(5 * march_day m d + 2) div 153 = mi" "march_day m d = (153 * mi + 2) div 5 + (d - 1)"
    "march_day m d \<le> 365"
    "march_day m d = 365 \<Longrightarrow> m = 2 \<and> leap_year y"
proof -
  have "m \<in> {1,2,3,4,5,6,7,8,9,10,11,12}" using assms(1,2) by (rule months)
  then show "(5 * march_day m d + 2) div 153 = mi" "march_day m d \<le> 365"
    "march_day m d = 365 \<Longrightarrow> m = 2 \<and> leap_year y"
    using assms(3,4)
    by (auto simp: march_day_def mi_def month_days_def split: if_splits intro!: div_nat_eqI)
  show "march_day m d = (153 * mi + 2) div 5 + (d - 1)"
    using assms(3) by (auto simp: march_day_def mi_def)
qed

lemma leap_year_mod: "leap_year (r + 400 * q) \<longleftrightarrow> leap_year r"
proof -
  have "(r + 400 * q) mod 4 = r mod 4" "(r + 400 * q) mod 100 = r mod 100"
    "(r + 400 * q) mod 400 = r mod 400"
    using mod_mult_self2 [of r 4 "100 * q"] mod_mult_self2 [of r 100 "4 * q"]
      mod_mult_self2 [of r 400 q] by simp_all
  then show ?thesis by (simp add: leap_year_def)
qed

lemma split_year:
  fixes Y :: nat
  obtains a c e where "Y mod 400 = 100 * a + 4 * c + e" "a < 4" "c < 25" "e < 4"
    "leap_year (Y + 1) \<Longrightarrow> e = 3 \<and> (c = 24 \<longrightarrow> a = 3)"
proof -
  define r where "r = Y mod 400"
  have r: "r < 400" by (simp add: r_def)
  have lp: "leap_year (Y + 1) \<longleftrightarrow> leap_year (r + 1)"
    using leap_year_mod [of "r + 1" "Y div 400"] by (simp add: r_def)
  define a where "a = r div 100"
  define c where "c = r mod 100 div 4"
  define e where "e = r mod 100 mod 4"
  have re: "r = 100 * a + 4 * c + e" by (simp add: a_def c_def e_def)
  have b: "a < 4" "c < 25" "e < 4" using r by (auto simp: a_def c_def e_def)
  have l: "e = 3 \<and> (c = 24 \<longrightarrow> a = 3)" if "leap_year (r + 1)"
  proof -
    have "(e + 1 + 4 * (25 * a + c)) mod 4 = 0" using that by (simp add: leap_year_def re ac_simps)
    then have "(e + 1) mod 4 = 0" by (simp only: mod_mult_self2)
    then have e3: "e = 3" using b(3) by presburger
    moreover have "a = 3" if c: "c = 24"
    proof -
      have "r + 1 = 100 * (a + 1)" using e3 c by (simp add: re)
      then have "100 * (a + 1) mod 400 = 0"
        using \<open>leap_year (r + 1)\<close> by (auto simp: leap_year_def)
      then show ?thesis using b(1) by presburger
    qed
    ultimately show ?thesis by simp
  qed
  show ?thesis
  proof (rule that)
    show "Y mod 400 = 100 * a + 4 * c + e" using re by (simp only: r_def)
    show "leap_year (Y + 1) \<Longrightarrow> e = 3 \<and> (c = 24 \<longrightarrow> a = 3)" using l lp by blast
  qed (fact b)+
qed

definition yoe_of_doe :: "nat \<Rightarrow> nat" where
  "yoe_of_doe doe = (doe - doe div 1460 + doe div 36524 - doe div 146096) div 365"

lemma days_split:
  assumes ok: "date_ok (y, m, d)"
  defines "Y \<equiv> march_year y m"
  shows "days_nat y m d div 146097 = Y div 400"
    and "days_nat y m d mod 146097
      = 365 * (Y mod 400) + Y mod 400 div 4 - Y mod 400 div 100 + march_day m d"
    and "yoe_of_doe (days_nat y m d mod 146097) = Y mod 400"
proof -
  have ok: "0 < y" "1 \<le> m" "m \<le> 12" "1 \<le> d" "d \<le> month_days y m" using assms by auto
  obtain a c e where ace: "Y mod 400 = 100 * a + 4 * c + e" "a < 4" "c < 25" "e < 4"
    "leap_year (Y + 1) \<Longrightarrow> e = 3 \<and> (c = 24 \<longrightarrow> a = 3)"
    using split_year [of Y] by metis
  note md = march_day_inverse [OF ok(2-5)]
  define w where "w = march_day m d"
  have w: "w \<le> 365" "w = 365 \<Longrightarrow> e = 3 \<and> (c = 24 \<longrightarrow> a = 3)"
  proof -
    show "w \<le> 365" using md(3) by (simp add: w_def)
    assume "w = 365"
    then have "m = 2 \<and> leap_year y" using md(4) by (simp add: w_def)
    then show "e = 3 \<and> (c = 24 \<longrightarrow> a = 3)" using ace(5) ok(1) by (simp add: Y_def march_year_def)
  qed
  define doe where "doe = 36524 * a + 1461 * c + 365 * e + w"
  have q: "(100 * a + 4 * c + e) div 4 = 25 * a + c" "(100 * a + 4 * c + e) div 100 = a"
    using ace(2-4) by (auto intro!: div_nat_eqI)
  have days: "days_nat y m d = Y div 400 * 146097 + doe"
    using ace(1) by (simp add: days_nat_def Let_def q doe_def flip: Y_def w_def)
  have "1461 * c + (365 * e + w) \<le> 36524 \<and> (a < 3 \<longrightarrow> 1461 * c + (365 * e + w) < 36525)"
    using ace(2-4) w by (cases "c = 24") auto
  then have doeb: "doe < 146097" using ace(2-4) w by (simp add: doe_def)
  show "days_nat y m d div 146097 = Y div 400" using doeb by (simp add: days)
  show "days_nat y m d mod 146097
      = 365 * (Y mod 400) + Y mod 400 div 4 - Y mod 400 div 100 + march_day m d"
    using doeb by (simp add: days ace(1) q) (simp add: doe_def w_def)
  have "yoe_of_doe doe = 100 * a + 4 * c + e"
    unfolding yoe_of_doe_def doe_def using ace(2-4) w by (rule year_of_era_inverse)
  then show "yoe_of_doe (days_nat y m d mod 146097) = Y mod 400"
    using doeb by (simp add: days ace(1))
qed

definition year_start :: "nat \<Rightarrow> nat" where
  "year_start Y = (let e = Y mod 400 in Y div 400 * 146097 + e * 365 + (e div 4 - e div 100))"

lemma days_nat_alt: "days_nat y m d = year_start (march_year y m) + march_day m d"
proof -
  have "e div 100 \<le> e div (4::nat)" for e by (simp add: div_le_mono2)
  then show ?thesis by (simp add: days_nat_def year_start_def Let_def)
qed

lemma year_start_Suc:
  "year_start (Y + 1) = year_start Y + (if leap_year (Y + 1) then 366 else 365)"
proof -
  define r where "r = Y mod 400"
  have r: "r < 400" by (simp add: r_def)
  have lp: "leap_year (Y + 1) \<longleftrightarrow> leap_year (r + 1)"
    using leap_year_mod [of "r + 1" "Y div 400"] by (simp add: r_def)
  show ?thesis
  proof (cases "r = 399")
    case True
    then have "(Y + 1) mod 400 = 0" "(Y + 1) div 400 = Y div 400 + 1" by (auto simp: r_def mod_Suc div_Suc)
    moreover have "leap_year (r + 1)" by (simp add: True leap_year_def)
    moreover from this have "leap_year (Y + 1)" using lp by blast
    ultimately show ?thesis using True by (simp add: year_start_def Let_def r_def)
  next
    case False
    with r have r1: "Suc r mod 400 = Suc r" by simp
    from False have "(Y + 1) mod 400 = Suc r" "(Y + 1) div 400 = Y div 400"
      by (auto simp: r_def mod_Suc div_Suc)
    then have "year_start (Y + 1)
        = Y div 400 * 146097 + Suc r * 365 + (Suc r div 4 - Suc r div 100)"
      by (simp add: year_start_def Let_def)
    also have "Suc r div 4 - Suc r div 100 = r div 4 - r div 100 + (if leap_year (r + 1) then 1 else 0)"
    proof -
      have "r div 100 \<le> r div 4" by (simp add: div_le_mono2)
      moreover have "Suc r mod 4 = 0" if "Suc r mod 100 = 0" using that by presburger
      ultimately show ?thesis using r1 by (auto simp: div_Suc leap_year_def)
    qed
    finally have "year_start (Y + 1) = (Y div 400 * 146097 + r * 365 + (r div 4 - r div 100))
        + (if leap_year (Y + 1) then 366 else 365)" unfolding lp by (simp add: ac_simps)
    moreover have "year_start Y = Y div 400 * 146097 + r * 365 + (r div 4 - r div 100)"
      by (simp add: year_start_def Let_def r_def)
    ultimately show ?thesis by (simp only:)
  qed
qed

lemma date_days_next:
  assumes "date_ok x"
  shows "date_days (next_date x) = date_days x + 1"
proof -
  obtain y m d where x: "x = (y, m, d)" by (cases x)
  have ok: "0 < y" "1 \<le> m" "m \<le> 12" "1 \<le> d" "d \<le> month_days y m" using assms x by auto
  have m: "m \<in> {1,2,3,4,5,6,7,8,9,10,11,12}" using ok(2,3) by (rule months)
  show ?thesis
  proof (cases "d < month_days y m")
    case True
    then show ?thesis using ok(4)
      by (simp add: x days_nat_alt march_day_def)
  next
    case False
    then have d: "d = month_days y m" using ok(5) by simp
    show ?thesis
    proof (cases "m = 2")
      case True
      then show ?thesis using year_start_Suc [of "y - 1"] ok(1)
        by (auto simp: x d month_days_def days_nat_alt march_day_def march_year_def)
    next
      case False
      then show ?thesis using m ok(1)
        by (auto simp: x d month_days_def days_nat_alt march_day_def march_year_def)
    qed
  qed
qed

fun civil_date :: "UtcCivil \<Rightarrow> nat \<times> nat \<times> nat" where
  "civil_date c = (unat (year c), unat (month c), unat (day c))"

definition calendar :: "nat \<Rightarrow> nat \<times> nat \<times> nat" where
  "calendar n = (next_date ^^ n) (1970, 1, 1)"

lemma calendar_0: "calendar 0 = (1970, 1, 1)" by (simp add: calendar_def)
lemma calendar_Suc: "calendar (Suc n) = next_date (calendar n)" by (simp add: calendar_def)

lemma calendar_date_ok: "date_ok (calendar n)"
  by (induction n) (auto simp: calendar_0 calendar_Suc month_days_def simp del: next_date.simps
      intro: date_ok_next)

lemma calendar_days: "date_days (calendar n) = 719468 + n"
proof (induction n)
  case 0
  show ?case by (simp add: calendar_0 days_nat_def march_year_def march_day_def)
next
  case (Suc n)
  then show ?case by (simp only: calendar_Suc date_days_next [OF calendar_date_ok])
qed


lemma civil_from_days_calendar: "civil_date (utc_civil_from_days n c) = calendar (unat n)"
proof -
  obtain y m d where cal: "calendar (unat n) = (y, m, d)" by (cases "calendar (unat n)")
  have ok: "date_ok (y, m, d)" using calendar_date_ok [of "unat n"] by (simp add: cal)
  then have b: "0 < y" "1 \<le> m" "m \<le> 12" "1 \<le> d" "d \<le> month_days y m" by auto
  have days: "days_nat y m d = 719468 + unat n" using calendar_days [of "unat n"] by (simp add: cal)
  define z :: u32 where "z = ucast n + 719468"
  have z: "unat z = days_nat y m d"
    using unat_less_of [of n] by (simp add: z_def days unat_word_ariths width_simps)
  define D where "D = z - z div 146097 * 146097"
  have D: "unat D = days_nat y m d mod 146097"
    by (simp add: D_def unat_sub word_le_nat_alt unat_div unat_word_ariths minus_div_mult_eq_mod z)
  then have Db: "unat D < 146097" by simp
  define e where "e = march_year y m mod 400"
  have e: "e < 400" by (simp add: e_def)
  note sp = days_split [OF ok, folded e_def D]
  define Yw where "Yw = (D - D div 1460 + D div 36524 - D div 146096) div 365"
  have Yw: "unat Yw = e"
  proof -
    have "unat D div 1460 \<le> unat D" "unat D div 146096 \<le> unat D div 36524"
      by (simp_all add: div_le_mono2)
    then have "unat Yw = yoe_of_doe (unat D)"
      using Db by (simp add: Yw_def yoe_of_doe_def unat_sub word_le_nat_alt unat_div unat_word_ariths)
    then show ?thesis using sp(3) by simp
  qed
  define W where "W = D - (365 * Yw + Yw div 4 - Yw div 100)"
  have W: "unat W = march_day m d"
  proof -
    have q: "e div 100 \<le> e div 4" by (simp add: div_le_mono2)
    then have S: "unat (365 * Yw + Yw div 4 - Yw div 100) = 365 * e + e div 4 - e div 100"
      using e by (simp add: unat_sub word_le_nat_alt unat_div unat_word_ariths Yw)
    have "365 * Yw + Yw div 4 - Yw div 100 \<le> D"
      using q unfolding word_le_nat_alt S sp(2) by simp
    then show ?thesis using q by (simp add: W_def unat_sub S sp(2))
  qed
  note md = march_day_inverse [OF b(2-5), folded W]
  define M where "M = (5 * W + 2) div 153"
  have M: "unat M = (if m > 2 then m - 3 else m + 9)"
    using md(1,3) by (simp add: M_def unat_div unat_word_ariths)
  define mon where "mon = (if M < 10 then M + 3 else M - 9)"
  have mon: "unat mon = m"
    using M b by (auto simp: mon_def word_less_nat_alt unat_word_ariths unat_sub word_le_nat_alt
        split: if_splits)
  have Z: "unat (z div 146097) = march_year y m div 400"
    using sp(1) by (simp add: unat_div z)
  have "march_year y m div 400 * 400 + e = march_year y m" by (simp add: e_def)
  moreover have yb: "march_year y m \<le> 3000"
  proof (rule ccontr)
    assume "\<not> ?thesis"
    then have "7 * 146097 \<le> march_year y m div 400 * 146097" by simp
    then show False using days unat_less_of [of n] by (simp add: days_nat_alt year_start_def Let_def)
  qed
  ultimately have "march_year y m div 400 * 400 + e \<le> 3000"
    and my: "march_year y m div 400 * 400 + e = march_year y m" by auto
  then have "unat (Yw + z div 146097 * 400 + (if mon \<le> 2 then 1 else 0))
      = e + march_year y m div 400 * 400 + (if m \<le> 2 then 1 else 0)"
    using mon Z by (simp add: unat_word_ariths Yw word_le_nat_alt)
  also have "\<dots> = march_year y m + (if m \<le> 2 then 1 else 0)"
    using my by (simp only: add.commute)
  also have "\<dots> = y" using b(1) by (simp add: march_year_def)
  finally have yr: "unat (Yw + z div 146097 * 400 + (if mon \<le> 2 then 1 else 0)) = y" .
  have dd: "unat (W - (153 * M + 2) div 5 + 1) = d"
  proof -
    have P: "unat ((153 * M + 2) div 5) = (153 * unat M + 2) div 5"
      using M b by (simp add: unat_div unat_word_ariths)
    have W': "unat W = (153 * unat M + 2) div 5 + (d - 1)" using md(2) unfolding M by simp
    have "(153 * M + 2) div 5 \<le> W" unfolding word_le_nat_alt P W' by simp
    then have "unat (W - (153 * M + 2) div 5) = d - 1" by (simp only: unat_sub P W')
    moreover have "d \<le> 31" using b(5) by (simp add: month_days_def split: if_splits)
    ultimately show ?thesis using b(4) by (simp add: unat_word_ariths)
  qed
  have "y \<le> 3001" "d \<le> 31" using yb b(5)
    by (auto simp: march_year_def month_days_def split: if_splits)
  moreover have "utc_civil_from_days n c
      = c\<lparr>year := ucast (Yw + z div 146097 * 400 + (if mon \<le> 2 then 1 else 0)),
           month := ucast mon, day := ucast (W - (153 * M + 2) div 5 + 1)\<rparr>"
    unfolding mon_def M_def W_def Yw_def D_def z_def utc_civil_from_days_def Let_def utc_consts
    by (rule refl)
  ultimately show ?thesis
    using yr dd mon b by (simp add: cal unsigned_ucast_eq take_bit_nat_eq_self)
qed

lemma month_days_le: "month_days y m \<le> 31" by (simp add: month_days_def)

lemma march_day_first: "1 \<le> d \<Longrightarrow> march_day m d = march_day m 1 + (d - 1)"
  by (simp add: march_day_def)

lemma year_starts: "year_start 1969 = 719162" "year_start 1970 = 719527" "year_start 2104 = 768470"
  "year_start 2105 = 768835"
  by (simp_all add: year_start_def)

lemma date_days_inj:
  assumes "date_ok x" "date_ok x'" "date_days x = date_days x'"
  shows "x = x'"
proof -
  obtain y m d y' m' d' where x: "x = (y, m, d)" "x' = (y', m', d')" by (cases x, cases x')
  have ok: "date_ok (y, m, d)" "date_ok (y', m', d')" using assms(1,2) by (simp_all only: x)
  have eq: "days_nat y m d = days_nat y' m' d'" using assms(3) by (simp add: x)
  note s = days_split [OF ok(1)] and s' = days_split [OF ok(2)]
  have Y: "march_year y m = march_year y' m'"
    using s(1,3) s'(1,3) eq by (metis div_mult_mod_eq)
  have w: "march_day m d = march_day m' d'"
    using eq by (simp add: days_nat_alt Y)
  note md = march_day_inverse [of m d y] and md' = march_day_inverse [of m' d' y']
  have "m = m'"
    using md(1) md'(1) w ok by (auto split: if_splits)
  moreover from this have "d = d'" using w ok march_day_first [of d m] march_day_first [of d' m] by auto
  ultimately show ?thesis using Y ok by (auto simp: x march_year_def split: if_splits)
qed

lemma year_start_mono: "Y \<le> Y' \<Longrightarrow> year_start Y \<le> year_start Y'"
proof (induction rule: dec_induct)
  case (step n)
  then show ?case using year_start_Suc [of n] by simp
qed simp

lemma days_nat_lower: "date_ok (y, m, d) \<Longrightarrow> 1970 \<le> y \<Longrightarrow> 719468 \<le> days_nat y m d"
proof -
  assume a: "date_ok (y, m, d)" "1970 \<le> y"
  show ?thesis
  proof (cases "m \<le> 2")
    case True
    have "year_start 1969 \<le> year_start (y - 1)" using a(2) by (intro year_start_mono) simp
    moreover have "306 \<le> march_day m d"
    proof -
      have "m = 1 \<or> m = 2" using True a(1) by auto
      then show ?thesis using a(1) by (auto simp: march_day_def)
    qed
    ultimately show ?thesis using True by (simp add: days_nat_alt march_year_def year_starts)
  next
    case False
    have "year_start 1970 \<le> year_start y" using a(2) by (intro year_start_mono) simp
    then show ?thesis using False
      by (simp add: days_nat_alt march_year_def year_starts)
  qed
qed

lemma days_nat_upper:
  assumes ok: "date_ok (y, m, d)" and lim: "y < 2106 \<or> y = 2106 \<and> (m = 1 \<or> m = 2 \<and> d < 7)"
  shows "days_nat y m d < 719468 + 49710"
proof (cases "march_year y m \<le> 2104")
  case True
  then have "year_start (march_year y m) \<le> year_start 2104" by (rule year_start_mono)
  moreover have "march_day m d \<le> 365" using march_day_inverse(3) [of m d y] ok by simp
  ultimately show ?thesis by (simp add: days_nat_alt year_starts)
next
  case False
  then have "march_year y m = 2105" "m > 2 \<or> m = 1 \<or> m = 2 \<and> d < 7"
    using lim by (auto simp: march_year_def split: if_splits)
  moreover have "march_day m d \<le> march_day m 1 + 30"
    using ok month_days_le [of y m] march_day_first [of d m] by auto
  moreover have "march_day m 1 \<le> 275" if "m > 2"
  proof -
    have "(153 * (m - 3) + 2) div 5 \<le> 1379 div 5" using ok by (intro div_le_mono) auto
    then show ?thesis using that by (simp add: march_day_def)
  qed
  moreover have "march_day 1 1 = 306" "d < 7 \<Longrightarrow> march_day 2 d \<le> 342" by (simp_all add: march_day_def)
  ultimately show ?thesis by (auto simp: days_nat_alt year_starts)
qed

lemma month_lengths_nth:
  assumes "m \<in> {1,2,3,4,5,6,7,8,9,10,11,12}"
  shows "unat (month_lengths ! (m - 1)) = (if m = 2 then 28 else if m \<in> {4, 6, 9, 11} then 30 else 31)"
  using assms by (auto simp: month_lengths_def)

lemma unat_days_in_month:
  assumes "1 \<le> unat m" "unat m \<le> 12"
  shows "unat (days_in_month y m) = month_days (unat y) (unat m)"
proof -
  have leap: "((y mod 4 = 0 \<and> y mod 100 \<noteq> 0) \<or> y mod 400 = 0) = leap_year (unat y)"
    by (auto simp: leap_year_def word_eq_iff_unsigned unat_mod word_unat_eq_iff)
  have m2: "m = 2 \<longleftrightarrow> unat m = 2" by (simp add: word_unat_eq_iff)
  note l = month_lengths_nth [OF months [OF assms]]
  show ?thesis
    unfolding days_in_month_def Let_def leap m2
    using l by (auto simp: month_days_def unat_word_ariths)
qed


lemma valid_date:
  assumes v: "utc_civil_is_valid c"
  shows "date_ok (civil_date c)"
    and "719468 \<le> date_days (civil_date c)" "date_days (civil_date c) < 719468 + 49711"
    and "unat (hour c) < 24" "unat (minute c) < 60" "unat (second c) \<le> 60"
    and "date_days (civil_date c) = 719468 + 49710 \<Longrightarrow>
      unat (hour c) * 3600 + unat (minute c) * 60 + unat (second c) \<le> 23295"
proof -
  have r: "1970 \<le> unat (year c)" "unat (year c) \<le> 2106" "1 \<le> unat (month c)" "unat (month c) \<le> 12"
    "1 \<le> unat (day c)" "day c \<le> days_in_month (year c) (month c)"
    using v by (auto simp: utc_civil_is_valid_def utc_consts word_less_nat_alt word_le_nat_alt
        not_less split: if_splits)
  show t: "unat (hour c) < 24" "unat (minute c) < 60" "unat (second c) \<le> 60"
    using v by (auto simp: utc_civil_is_valid_def word_less_nat_alt word_le_nat_alt
        not_less split: if_splits)
  show ok: "date_ok (civil_date c)"
    using r by (simp add: word_le_nat_alt unat_days_in_month)
  then show "719468 \<le> date_days (civil_date c)" using days_nat_lower r(1) by simp
  define last where "last = (unat (year c) = 2106 \<and> unat (month c) = 2 \<and> unat (day c) = 7)"
  have l: "unat (year c) < 2106 \<or> unat (year c) = 2106 \<and> (unat (month c) = 1
      \<or> unat (month c) = 2 \<and> unat (day c) < 7) \<or> last \<and>
      ucast (hour c) * 3600 + ucast (minute c) * 60 + ucast (second c) \<le> LAST_SECOND_OF_LAST_DAY"
    using v r(2) by (auto simp: last_def utc_civil_is_valid_def UTC_LAST_YEAR_def word_less_nat_alt word_le_nat_alt
        word_unat_eq_iff Let_def split: if_splits)
  have feb: "days_nat 2106 2 7 = 769178" by (simp add: days_nat_alt year_starts march_year_def march_day_def)
  show "date_days (civil_date c) < 719468 + 49711"
    using l days_nat_upper [of "unat (year c)" "unat (month c)" "unat (day c)"] ok feb
    by (auto simp: last_def)
  show "unat (hour c) * 3600 + unat (minute c) * 60 + unat (second c) \<le> 23295"
    if "date_days (civil_date c) = 719468 + 49710"
  proof -
    have "last" "(ucast (hour c) :: u32) * 3600 + ucast (minute c) * 60 + ucast (second c) \<le> 23295"
      using that l days_nat_upper [of "unat (year c)" "unat (month c)" "unat (day c)"] ok
      by (auto simp: utc_consts)
    then show ?thesis using t by (simp add: word_le_nat_alt unat_word_ariths width_simps)
  qed
qed

lemma unat_utc_from_civil:
  assumes v: "utc_civil_is_valid c"
  shows "unat (utc_from_civil c) = (date_days (civil_date c) - 719468) * 86400
     + unat (hour c) * 3600 + unat (minute c) * 60 + min 59 (unat (second c))"
proof -
  note ok = valid_date [OF v]
  define n where "n = date_days (civil_date c) - 719468"
  have "unat (day c) \<le> 31" using ok(1) month_days_le [of "unat (year c)" "unat (month c)"] by simp
  moreover have "unat (year c) \<le> 2500" "1970 \<le> unat (year c)"
    using v by (auto simp: utc_civil_is_valid_def utc_consts word_less_nat_alt not_less split: if_splits)
  ultimately have d: "unat (utc_days_from_civil (year c) (month c) (day c)) = n"
    using ok(1-3) unat_days_from_civil [of "year c" "month c" "day c"] by (simp add: n_def)
  define s where "s = (if second c > 59 then 59 else ucast (second c) :: u32)"
  have s: "unat s = min 59 (unat (second c))"
    by (auto simp: s_def word_less_nat_alt width_simps)
  have n: "date_days (civil_date c) = 719468 + n" using ok(2) by (simp add: n_def)
  then have "n \<le> 49710" using ok(3) by simp
  moreover have "n = 49710 \<Longrightarrow> unat (hour c) * 3600 + unat (minute c) * 60 + unat s \<le> 23295"
    using ok(7) n s by simp
  ultimately have b: "n * 86400 + unat (hour c) * 3600 + unat (minute c) * 60 + unat s < 2 ^ 32"
    using ok(4,5) s by (cases "n = 49710") auto
  have "utc_from_civil c = ucast (utc_days_from_civil (year c) (month c) (day c)) * 86400
      + ucast (hour c) * 3600 + ucast (minute c) * 60 + s"
    by (simp add: utc_from_civil_def Let_def utc_consts s_def)
  then show ?thesis
    using b by (simp add: unat_word_ariths width_simps d n s del: civil_date.simps date_days.simps)
qed

lemma utc_to_civil_fields:
  "civil_date (utc_to_civil t l c) = calendar (unat t div 86400)"
  "unat (hour (utc_to_civil t l c)) = unat t mod 86400 div 3600"
  "unat (minute (utc_to_civil t l c)) = unat t mod 86400 mod 3600 div 60"
  "unat (second (utc_to_civil t l c)) = (if l then 60 else unat t mod 60)"
proof -
  have t: "unat t < 4294967296" using unat_less_of [of t] by simp
  then have "unat t div 86400 \<le> 49710" by (auto intro: order_trans [OF div_le_mono [of _ 4294967295]])
  then have d: "unat (ucast (t div 86400) :: u16) = unat t div 86400"
    by (simp add: unsigned_ucast_eq take_bit_nat_eq_self unat_div)
  have "civil_date (c\<lparr>hour := h, minute := mi, second := s\<rparr>) = civil_date c" for c :: UtcCivil and h mi s
    by simp
  then show "civil_date (utc_to_civil t l c) = calendar (unat t div 86400)"
    using civil_from_days_calendar [of "ucast (t div 86400)" c]
    by (simp only: utc_to_civil_def Let_def utc_consts d)
  have s: "unat (t mod 86400) = unat t mod 86400" by (simp add: unat_mod)
  define x where "x = unat t mod 86400"
  have x: "x < 86400" by (simp add: x_def)
  then have b: "x div 60 < 1440" by (simp add: less_mult_imp_div_less)
  define mo where "mo = (ucast (t mod 86400 div 60) :: u16)"
  have m: "unat mo = x div 60"
    using b by (simp add: mo_def x_def unsigned_ucast_eq take_bit_nat_eq_self unat_div s)
  have c: "hour (utc_to_civil t l c) = ucast (mo div 60)" "minute (utc_to_civil t l c) = ucast (mo mod 60)"
    by (simp_all add: utc_to_civil_def Let_def utc_consts mo_def)
  have "x div 60 div 60 = x div 3600" by (simp flip: div_mult2_eq)
  moreover have "x div 3600 < 24" using x by (simp add: less_mult_imp_div_less)
  ultimately show "unat (hour (utc_to_civil t l c)) = unat t mod 86400 div 3600"
    by (simp add: c unsigned_ucast_eq unat_div m take_bit_nat_eq_self flip: x_def)
  have "x mod 3600 div 60 = x div 60 mod 60"
    using mod_mult2_eq [of x 60 60] by simp
  moreover have "x div 60 mod 60 < 256" by (rule less_trans [of _ 60]) simp_all
  ultimately show "unat (minute (utc_to_civil t l c)) = unat t mod 86400 mod 3600 div 60"
    by (simp add: c unsigned_ucast_eq unat_mod m take_bit_nat_eq_self flip: x_def)
  have "unat t mod 86400 mod 60 = unat t mod 60" by (simp add: mod_mod_cancel)
  moreover have "unat t mod 60 < 256" by (rule less_trans [of _ 60]) simp_all
  ultimately show "unat (second (utc_to_civil t l c)) = (if l then 60 else unat t mod 60)"
    by (simp add: utc_to_civil_def Let_def utc_consts unsigned_ucast_eq take_bit_nat_eq_self unat_mod)
qed

lemma civil_eqI:
  fixes c c' :: UtcCivil
  assumes "civil_date c = civil_date c'" "unat (hour c) = unat (hour c')"
    "unat (minute c) = unat (minute c')" "unat (second c) = unat (second c')"
  shows "c = c'"
  using assms by (simp add: word_unat_eq_iff)

lemma hms_sum: "r div 3600 * 3600 + r mod 3600 div 60 * 60 + r mod 60 = (r::nat)"
proof -
  have "r mod 3600 div 60 * 60 + r mod 60 = r mod 3600"
    using div_mult_mod_eq [of "r mod 3600" 60] by (simp add: mod_mod_cancel)
  then show ?thesis using div_mult_mod_eq [of r 3600] by linarith
qed

lemma calendar_year_ge: "1970 \<le> fst (calendar n)"
proof (induction n)
  case (Suc n)
  then show ?case by (cases "calendar n") (simp add: calendar_Suc)
qed (simp add: calendar_0)

lemma utc_to_civil_valid:
  assumes "l \<Longrightarrow> unat t mod 60 = 59"
  shows "utc_civil_is_valid (utc_to_civil t l c)"
proof -
  define c' where "c' = utc_to_civil t l c"
  note f = utc_to_civil_fields [of t l c, folded c'_def]
  have t: "unat t < 4294967296" using unat_less_of [of t] by simp
  define n where "n = unat t div 86400"
  have n: "n \<le> 49710" using t unfolding n_def by (auto intro: order_trans [OF div_le_mono [of _ 4294967295]])
  obtain y m d where cal: "calendar n = (y, m, d)" by (cases "calendar n")
  have ymd: "unat (year c') = y" "unat (month c') = m" "unat (day c') = d" using f(1) cal by (auto simp: n_def)
  have ok: "date_ok (y, m, d)" using calendar_date_ok [of n] by (simp add: cal)
  then have b: "0 < y" "1 \<le> m" "m \<le> 12" "1 \<le> d" "d \<le> month_days y m" by auto
  have y0: "1970 \<le> y" using calendar_year_ge [of n] by (simp add: cal)
  have days: "days_nat y m d = 719468 + n" using calendar_days [of n] by (simp add: cal)
  have late: False if "2106 \<le> march_year y m"
  proof -
    have "year_start 2106 \<le> days_nat y m d"
      using year_start_mono [OF that] by (simp add: days_nat_alt)
    then show False using n days by (simp add: year_start_def)
  qed
  have my: "march_year y m < 2106" by (rule ccontr) (use late in simp)
  then have y1: "y \<le> 2106" using my by (auto simp: march_year_def split: if_splits)
  have eoy: "m = 1 \<or> m = 2 \<and> d < 7 \<or> m = 2 \<and> d = 7 \<and> n = 49710" if "y = 2106"
  proof -
    have "m = 1 \<or> m = 2" using my that b(2) by (auto simp: march_year_def split: if_splits)
    moreover have "d \<le> 7 \<and> (d = 7 \<longrightarrow> n = 49710)" if "m = 2"
      using days n b(4) \<open>y = 2106\<close> that by (auto simp: days_nat_alt march_year_def year_starts march_day_def)
    ultimately show ?thesis by auto
  qed
  have hms: "unat (hour c') < 24" "unat (minute c') < 60" "unat (second c') \<le> 60"
    using f(2-4) by (auto simp: less_mult_imp_div_less intro: less_imp_le less_trans [of _ 60])
  have dm: "day c' \<le> days_in_month (year c') (month c')"
    using b ymd by (simp add: word_le_nat_alt unat_days_in_month)
  define r where "r = unat t mod 86400"
  note hm = hms_sum [of r]
  have r60: "unat t mod 60 = r mod 60" by (simp add: r_def mod_mod_cancel)
  have last: "unat (hour c') * 3600 + unat (minute c') * 60 + unat (second c') \<le> 23295" if "n = 49710"
  proof -
    have "r \<le> 23295" using t that div_mult_mod_eq [of "unat t" 86400] unfolding n_def r_def by linarith
    moreover have "l \<Longrightarrow> r \<noteq> 23295" using assms r60 by auto
    moreover have "unat (hour c') * 3600 + unat (minute c') * 60 + unat (second c') = (if l then r + 1 else r)"
      using hm assms r60 by (auto simp: f r60 simp flip: r_def)
    ultimately show ?thesis by auto
  qed
  show ?thesis unfolding c'_def [symmetric]
    using ymd b y0 y1 hms dm eoy last
    by (auto simp: utc_civil_is_valid_def utc_consts word_less_nat_alt word_le_nat_alt Let_def
       word_unat_eq_iff unat_word_ariths width_simps)
qed

lemma utc_from_to_civil:
  assumes l: "l \<Longrightarrow> unat t mod 60 = 59"
  shows "utc_from_civil (utc_to_civil t l c) = t"
proof -
  note v = utc_to_civil_valid [of l t c, OF l]
  note f = utc_to_civil_fields [of t l c]
  define r where "r = unat t mod 86400"
  note hm = hms_sum [of r]
  have r60: "unat t mod 60 = r mod 60" by (simp add: r_def mod_mod_cancel)
  have m: "min 59 (if l then 60 else r mod 60) = r mod 60"
    using l r60 pos_mod_bound [of 60 "int r"] by (cases l) (auto simp: min_def not_le Suc_le_eq)
  have "unat (utc_from_civil (utc_to_civil t l c))
      = unat t div 86400 * 86400 + r div 3600 * 3600 + r mod 3600 div 60 * 60 + r mod 60"
    using v by (simp only: unat_utc_from_civil f calendar_days r60 m r_def [symmetric]) simp
  also have "\<dots> = unat t"
    using hm div_mult_mod_eq [of "unat t" 86400] unfolding r_def by linarith
  finally show ?thesis by (simp add: word_unat_eq_iff)
qed


section \<open>Seconds across a leap second\<close>


definition utc_tick :: "UtcLeap option \<Rightarrow> u32 \<times> bool \<Rightarrow> u32 \<times> bool" where
  "utc_tick leap lf = utc_advance (fst lf) (snd lf) 1 leap"

lemma utc_advance_Suc:
  assumes nowrap: "unat u + n + 2 < 2 ^ 32"
    and ev: "\<And>l. leap = Some l \<Longrightarrow> 1 \<le> event_utc l \<and> (f \<longrightarrow> event_utc l - 1 \<le> u)"
  shows "utc_advance u f (word_of_nat (Suc n)) leap = utc_tick leap (utc_advance u f (word_of_nat n) leap)"
proof -
  have w: "unat (word_of_nat n :: u32) = n" "unat (word_of_nat (Suc n) :: u32) = Suc n"
    "unat (u + word_of_nat n) = unat u + n" "unat (u + word_of_nat (Suc n)) = unat u + Suc n"
    using nowrap by (simp_all add: unat_of_nat unat_word_ariths)
  have nz: "1 + word_of_nat n \<noteq> (0 :: u32)" using w(2) by (auto simp: word_unat_eq_iff)
  show ?thesis
  proof (cases leap)
    case None
    then show ?thesis using nz by (simp add: utc_tick_def utc_advance_def Let_def)
  next
    case (Some l)
    have e: "1 \<le> unat (event_utc l)" "unat (event_utc l - 1) = unat (event_utc l) - 1"
      "f \<Longrightarrow> unat (event_utc l) - 1 \<le> unat u"
      using ev [OF Some] by (auto simp: word_le_nat_alt unat_sub)
    consider (up) "change l > 0" | (down) "change l < 0" | (none) "change l = 0" by linarith
    then show ?thesis
    proof cases
      case none
      then show ?thesis using nz by (simp add: Some utc_tick_def utc_advance_def Let_def)
    next
      case up
      then show ?thesis using e w nowrap
        by (auto simp: Some utc_tick_def utc_advance_def Let_def word_less_nat_alt word_le_nat_alt 
           word_unat_eq_iff unat_sub unat_word_ariths)
    next
      case down
      then show ?thesis using e w nowrap
        by (auto simp: Some utc_tick_def utc_advance_def Let_def word_less_nat_alt word_le_nat_alt 
           word_unat_eq_iff unat_sub unat_word_ariths)
    qed
  qed
qed

lemma to_next:
  "r < 86400 \<Longrightarrow>
    t < 86400 - r \<longleftrightarrow> \<not> \<bar>int ((q + 1) * 86400) - int (q * 86400 + r)\<bar> \<le> int t" for q r t :: nat
  by auto

lemma from_last: "t < r \<longleftrightarrow> \<not> \<bar>int (q * 86400) - int (q * 86400 + r)\<bar> \<le> int t" for q r t :: nat
  by auto

lemma if_within: "A \<Longrightarrow> (if \<not> Q then None else Some x) = (if A \<and> Q then Some x else None)"
  by simp

lemma if_beyond: "(if \<not> Q \<or> \<not> A then None else Some x) = (if A \<and> Q then Some x else None)"
  by simp


section \<open>Properties\<close>

text \<open>
  C13: the closed formula of the calendar is the calendar. For each of the 65536 day numbers,
  \<open>utc_civil_from_days\<close> gives the date reached from 1 January 1970 by that many steps to
  the next date.
\<close>

theorem utc_calendar:
  "civil_date (utc_civil_from_days n c) = (next_date ^^ unat n) (1970, 1, 1)"
  using civil_from_days_calendar [of n c] by (simp only: calendar_def)

text \<open>
  A valid civil time, a leap second 60 included, is restored by converting it to seconds
  and back.
\<close>

theorem utc_civil_roundtrip:
  assumes v: "utc_civil_is_valid c"
  shows "utc_to_civil (utc_from_civil c) (second c = 60) c' = c"
proof (rule civil_eqI)
  note ok = valid_date [OF v]
  define n where "n = date_days (civil_date c) - 719468"
  define r where "r = unat (hour c) * 3600 + unat (minute c) * 60 + min 59 (unat (second c))"
  have r: "r < 86400" using ok(4,5) by (simp add: r_def)
  have u: "unat (utc_from_civil c) = n * 86400 + r"
    using unat_utc_from_civil [OF v] by (simp add: n_def r_def)
  then have q: "unat (utc_from_civil c) div 86400 = n" "unat (utc_from_civil c) mod 86400 = r"
    using r by simp_all
  have "date_days (calendar n) = date_days (civil_date c)"
    using ok(2) by (simp add: calendar_days n_def)
  then have "calendar n = civil_date c" by (rule date_days_inj [OF calendar_date_ok ok(1)])
  then show "civil_date (utc_to_civil (utc_from_civil c) (second c = 60) c') = civil_date c"
    by (simp only: utc_to_civil_fields q)
  show "unat (hour (utc_to_civil (utc_from_civil c) (second c = 60) c')) = unat (hour c)"
    using ok(5) by (simp add: utc_to_civil_fields q r_def)
  have "r mod 3600 = unat (minute c) * 60 + min 59 (unat (second c))"
    using ok(5) mod_mult_self3 [of "unat (hour c)" 3600 "unat (minute c) * 60 + min 59 (unat (second c))"]
    by (simp add: r_def add.assoc)
  then show "unat (minute (utc_to_civil (utc_from_civil c) (second c = 60) c')) = unat (minute c)"
    by (simp add: utc_to_civil_fields q)
  have "unat (utc_from_civil c)
      = 60 * (n * 1440 + unat (hour c) * 60 + unat (minute c)) + min 59 (unat (second c))"
    by (simp add: u r_def)
  then have "unat (utc_from_civil c) mod 60 = min 59 (unat (second c))"
    by (simp only: mod_mult_self4) simp
  moreover have "second c = 60 \<longleftrightarrow> unat (second c) = 60" by (simp add: word_unat_eq_iff)
  ultimately show "unat (second (utc_to_civil (utc_from_civil c) (second c = 60) c')) = unat (second c)"
    using ok(6) by (simp add: utc_to_civil_fields)
qed


theorem utc_civil_roundtrip_witness:
  "utc_to_civil (utc_from_civil (UtcCivil.make 2016 12 31 23 59 60)) True (UtcCivil.make 1 1 1 1 1 1)
    = UtcCivil.make 2016 12 31 23 59 60"
  using utc_civil_roundtrip [of "UtcCivil.make 2016 12 31 23 59 60" "UtcCivil.make 1 1 1 1 1 1"]
  by (simp add: UtcCivil.make_def utc_civil_is_valid_def days_in_month_def month_lengths_def
      UTC_LAST_YEAR_def)

text \<open>
  Every second of the 32-bit range has a valid civil time, which converts back to it; a
  second flagged as a leap second, the last of its minute, does too and prints as 60.
\<close>

theorem utc_seconds_roundtrip:
  assumes l: "l \<Longrightarrow> unat t mod 60 = 59"
  shows "utc_civil_is_valid (utc_to_civil t l c) \<and> utc_from_civil (utc_to_civil t l c) = t"
  using utc_to_civil_valid [of l t c] utc_from_to_civil [of l t c] l by blast

theorem utc_seconds_roundtrip_witness:
  "utc_civil_is_valid (utc_to_civil 1483228799 True (UtcCivil.make 0 0 0 0 0 0))
    \<and> utc_from_civil (utc_to_civil 1483228799 True (UtcCivil.make 0 0 0 0 0 0)) = 1483228799"
  using utc_seconds_roundtrip [of True 1483228799 "UtcCivil.make 0 0 0 0 0 0"] by simp

text \<open>
  Advancing by any number of seconds at once is advancing second by second, through an
  inserted leap second (23:59:60 is its own step), a deleted one or none, as long as the label
  does not run past 32 bits and a label flagged as a leap second is not before its event.
\<close>

theorem utc_advance_is_ticks:
  assumes "unat u + n + 1 < 2 ^ 32"
    and "\<And>l. leap = Some l \<Longrightarrow> 1 \<le> event_utc l \<and> (f \<longrightarrow> event_utc l - 1 \<le> u)"
  shows "utc_advance u f (word_of_nat n) leap = (utc_tick leap ^^ n) (u, f)"
  using assms(1)
proof (induction n)
  case 0
  then show ?case by (simp add: utc_advance_def Let_def split: option.splits)
next
  case (Suc n)
  then show ?case using utc_advance_Suc [of u n leap f] assms(2) by simp
qed

theorem utc_advance_is_ticks_witness:
  "utc_advance 1483228798 False 3 (Some \<lparr>event_utc = 1483228800, change = 1\<rparr>)
    = (utc_tick (Some \<lparr>event_utc = 1483228800, change = 1\<rparr>) ^^ 3) (1483228798, False)"
  using utc_advance_is_ticks [of 1483228798 3 "Some \<lparr>event_utc = 1483228800, change = 1\<rparr>" False]
  by simp

text \<open>
  A leap estimate snaps to the midnight nearest to it (half a day goes back) exactly when
  that midnight is within the tolerance and still a 32-bit time, and to nothing otherwise.
\<close>

theorem utc_leap_snap_nearest:
  "utc_leap_snap est tol =
     (let m = (unat est + 43199) div 86400 * 86400
      in if m < 2 ^ 32 \<and> \<bar>int m - int (unat est)\<bar> \<le> int (unat tol) then Some (word_of_nat m) else None)"
proof -
  define r where "r = unat est mod 86400"
  define q where "q = unat est div 86400"
  have qr: "unat est = q * 86400 + r" "r < 86400" by (simp_all add: q_def r_def)
  have u: "unat (est mod 86400) = r" by (simp add: r_def unat_mod)
  have le: "est mod 86400 \<le> est" by (simp add: word_le_nat_alt unat_mod)
  have mid: "unat (est - est mod 86400) = q * 86400" using le by (simp add: unat_sub u qr(1))
  have t: "unat est < 4294967296" using unat_less_of [of est] by simp
  show ?thesis
  proof (cases "r > 43200")
    case True
    have m: "(unat est + 43199) div 86400 = q + 1"
      using True qr by (intro div_nat_eqI) auto
    have c: "est mod 86400 > UTC_SECONDS_PER_DAY div 2"
      using True by (simp add: word_less_nat_alt u utc_consts unat_div)
    have g: "unat (UTC_SECONDS_PER_DAY - est mod 86400) = 86400 - r"
      using qr(2) by (simp add: utc_consts unat_sub word_le_nat_alt u)
    have d: "unat ((est - est mod 86400) div UTC_SECONDS_PER_DAY) = q"
      by (simp add: unat_div mid utc_consts)
    have qb: "q \<le> 49710" using t qr(1) by simp
    have A: "(est - est mod 86400) div UTC_SECONDS_PER_DAY > UTC_LAST_DAY \<longleftrightarrow> \<not> (q + 1) * 86400 < 2 ^ 32"
      using qb by (auto simp: word_less_nat_alt d UTC_LAST_DAY_def)
    have B: "UTC_SECONDS_PER_DAY - est mod 86400 > tol \<longleftrightarrow>
        \<not> \<bar>int ((q + 1) * 86400) - int (unat est)\<bar> \<le> int (unat tol)"
      unfolding word_less_nat_alt g qr(1) using qr(2) by (rule to_next)
    have C: "est - est mod 86400 + UTC_SECONDS_PER_DAY = word_of_nat ((q + 1) * 86400)"
    proof -
      have "word_of_nat ((q + 1) * 86400) = word_of_nat (unat (est - est mod 86400)) + (86400 :: u32)"
        by (simp add: mid)
      then show ?thesis by (simp add: UTC_SECONDS_PER_DAY_def del: word_of_nat_eq_0_iff)
    qed
    have day: "est mod UTC_SECONDS_PER_DAY = est mod 86400" by (simp add: UTC_SECONDS_PER_DAY_def)
    show ?thesis
      unfolding utc_leap_snap_def m Let_def day if_P [OF c] A B C by (rule if_beyond)
  next
    case False
    have m: "(unat est + 43199) div 86400 = q"
      using False qr by (intro div_nat_eqI) auto
    have c: "\<not> est mod 86400 > UTC_SECONDS_PER_DAY div 2"
      using False by (simp add: word_less_nat_alt u utc_consts unat_div)
    have C: "est - est mod 86400 = word_of_nat (q * 86400)"
      unfolding mid [symmetric] by simp
    have B: "tol < est mod 86400 \<longleftrightarrow> \<not> \<bar>int (q * 86400) - int (unat est)\<bar> \<le> int (unat tol)"
      unfolding word_less_nat_alt u qr(1) by (rule from_last)
    have A: "q * 86400 < 2 ^ 32" using t qr(1) by simp
    have day: "est mod UTC_SECONDS_PER_DAY = est mod 86400" by (simp add: UTC_SECONDS_PER_DAY_def)
    show ?thesis
      unfolding utc_leap_snap_def m Let_def day if_not_P [OF c] B C by (rule if_within [OF A])
  qed
qed

end
