(* ===== verification/Sync_Source.thy ===== *)
theory Sync_Source
  imports Utc
begin

text \<open>
  One time source as the synchroniser sees it (\<open>dspic_src/sync/sync_source.c\<close>): the report an
  adapter makes each epoch, its verdict, the label continuity by the source's own edges and the
  runs of good epochs. The verdicts are ordered as in the code, most fundamental failure first.
\<close>

section \<open>The code\<close>

record SyncSourceReport =
  present :: bool
  time_valid :: bool
  edge :: bool
  edge_number :: u32
  captured :: bool
  edge_stamp :: u32
  edge_offset_ns :: int
  source_stepped :: bool
  labelled :: bool
  utc_seconds :: u32
  leap_second :: bool
  leap :: UtcLeap
  uncertainty_ns :: u32
  cross_check :: bool
  cross_check_ns :: int

datatype SyncCheck =
  SYNC_CHECK_ABSENT | SYNC_CHECK_NO_TIME | SYNC_CHECK_NO_EDGE | SYNC_CHECK_UNLABELLED
  | SYNC_CHECK_INACCURATE | SYNC_CHECK_INCONSISTENT | SYNC_CHECK_GOOD

fun check_index :: "SyncCheck \<Rightarrow> nat" where
  "check_index SYNC_CHECK_ABSENT = 0"
| "check_index SYNC_CHECK_NO_TIME = 1"
| "check_index SYNC_CHECK_NO_EDGE = 2"
| "check_index SYNC_CHECK_UNLABELLED = 3"
| "check_index SYNC_CHECK_INACCURATE = 4"
| "check_index SYNC_CHECK_INCONSISTENT = 5"
| "check_index SYNC_CHECK_GOOD = 6"

lemma check_index_inj: "check_index a = check_index b \<longleftrightarrow> a = b"
  by (cases a; cases b) simp_all

instantiation SyncCheck :: linorder
begin

definition less_eq_SyncCheck :: "SyncCheck \<Rightarrow> SyncCheck \<Rightarrow> bool" where
  "less_eq_SyncCheck a b \<longleftrightarrow> check_index a \<le> check_index b"

definition less_SyncCheck :: "SyncCheck \<Rightarrow> SyncCheck \<Rightarrow> bool" where
  "less_SyncCheck a b \<longleftrightarrow> check_index a < check_index b"

instance
  by standard (auto simp: less_eq_SyncCheck_def less_SyncCheck_def check_index_inj [symmetric])

end

record SyncSourceTracker =
  check :: SyncCheck
  report :: SyncSourceReport
  good_run :: u16
  usable_run :: u16
  last_good_epoch :: u32
  bound_ns :: u32
  tracker_phase_valid :: bool
  phase_ticks :: int
  has_label :: bool
  last_label :: u32
  last_label_leap :: bool
  last_label_edge :: u32
  label_jumps :: u32
  verdicts :: "u32 list"
  cross_checks :: u32
  cross_check_min_ns :: int
  cross_check_max_ns :: int

definition no_leap :: UtcLeap where "no_leap = \<lparr>event_utc = 0, change = 0\<rparr>"

definition no_report :: SyncSourceReport where
  "no_report = \<lparr>present = False, time_valid = False, edge = False, edge_number = 0, captured = False,
     edge_stamp = 0, edge_offset_ns = 0, source_stepped = False, labelled = False, utc_seconds = 0,
     leap_second = False, leap = no_leap, uncertainty_ns = 0, cross_check = False, cross_check_ns = 0\<rparr>"

definition sync_source_reset :: SyncSourceTracker where
  "sync_source_reset = \<lparr>check = SYNC_CHECK_ABSENT, report = no_report, good_run = 0, usable_run = 0,
     last_good_epoch = 0, bound_ns = 0, tracker_phase_valid = False, phase_ticks = 0,
     has_label = False, last_label = 0, last_label_leap = False, last_label_edge = 0,
     label_jumps = 0, verdicts = replicate 7 0, cross_checks = 0, cross_check_min_ns = 0,
     cross_check_max_ns = 0\<rparr>"

text \<open>A leap second is passed on only when one is announced.\<close>

definition announced :: "UtcLeap \<Rightarrow> UtcLeap option" where
  "announced l = (if change l \<noteq> 0 then Some l else None)"

definition classify :: "SyncSourceReport \<Rightarrow> u32 \<Rightarrow> SyncCheck" where
  "classify r max_uncertainty_ns =
     (if \<not> present r then SYNC_CHECK_ABSENT
      else if \<not> time_valid r then SYNC_CHECK_NO_TIME
      else if \<not> edge r then SYNC_CHECK_NO_EDGE
      else if \<not> labelled r then SYNC_CHECK_UNLABELLED
      else if max_uncertainty_ns \<noteq> 0 \<and> uncertainty_ns r > max_uncertainty_ns then SYNC_CHECK_INACCURATE
      else SYNC_CHECK_GOOD)"

definition label_follows_on :: "SyncSourceTracker \<Rightarrow> SyncSourceReport \<Rightarrow> bool \<times> SyncSourceTracker" where
  "label_follows_on t r =
     (let follows =
            (if has_label t then
               let edges = edge_number r - last_label_edge t;
                   (expected, expected_leap) =
                     utc_advance (last_label t) (last_label_leap t) edges (announced (leap r))
               in expected = utc_seconds r \<and> expected_leap = leap_second r
             else True);
          t1 = (if \<not> follows then t\<lparr>label_jumps := label_jumps t + 1\<rparr> else t)
      in (follows, t1\<lparr>has_label := True, last_label := utc_seconds r, last_label_leap := leap_second r,
                      last_label_edge := edge_number r\<rparr>))"

definition record_cross_check :: "SyncSourceReport \<Rightarrow> SyncSourceTracker \<Rightarrow> SyncSourceTracker" where
  "record_cross_check r t =
     (if \<not> cross_check r then t
      else let t1 = (if cross_checks t = 0 \<or> cross_check_ns r < cross_check_min_ns t
                     then t\<lparr>cross_check_min_ns := cross_check_ns r\<rparr> else t);
               t2 = (if cross_checks t1 = 0 \<or> cross_check_ns r > cross_check_max_ns t1
                     then t1\<lparr>cross_check_max_ns := cross_check_ns r\<rparr> else t1)
           in t2\<lparr>cross_checks := cross_checks t2 + 1\<rparr>)"

definition count_run :: "bool \<Rightarrow> u16 \<Rightarrow> u16" where
  "count_run ok run = (if ok then if run < 65535 then run + 1 else run else 0)"

definition sync_source_judge ::
  "SyncSourceTracker \<Rightarrow> SyncSourceReport \<Rightarrow> u32 \<Rightarrow> u32 \<Rightarrow> SyncCheck \<times> SyncSourceTracker" where
  "sync_source_judge t0 r max_uncertainty_ns epoch =
     (let c0 = classify r max_uncertainty_ns;
          t1 = (if \<not> present r \<or> \<not> edge r then t0\<lparr>has_label := False\<rparr> else t0);
          (c, t2) = (if present r \<and> time_valid r \<and> edge r \<and> labelled r
                     then let (follows, t) = label_follows_on t1 r
                          in (if \<not> follows \<and> c0 = SYNC_CHECK_GOOD then SYNC_CHECK_INCONSISTENT else c0, t)
                     else (c0, t1));
          t3 = t2\<lparr>report := r, check := c,
                  verdicts := (verdicts t2)[check_index c := verdicts t2 ! check_index c + 1]\<rparr>;
          t4 = (if c = SYNC_CHECK_GOOD
                then t3\<lparr>good_run := count_run True (good_run t3), last_good_epoch := epoch\<rparr>
                else t3\<lparr>good_run := count_run False (good_run t3)\<rparr>);
          t5 = t4\<lparr>usable_run := count_run (c = SYNC_CHECK_GOOD \<or> c = SYNC_CHECK_INACCURATE) (usable_run t4)\<rparr>
      in (c, record_cross_check r t5))"

section \<open>What a verdict means\<close>

text \<open>Whether a report fails a check; \<open>jump\<close> says its label does not follow on.\<close>

fun fails :: "SyncSourceReport \<Rightarrow> u32 \<Rightarrow> bool \<Rightarrow> SyncCheck \<Rightarrow> bool" where
  "fails r lim jump SYNC_CHECK_ABSENT = (\<not> present r)"
| "fails r lim jump SYNC_CHECK_NO_TIME = (\<not> time_valid r)"
| "fails r lim jump SYNC_CHECK_NO_EDGE = (\<not> edge r)"
| "fails r lim jump SYNC_CHECK_UNLABELLED = (\<not> labelled r)"
| "fails r lim jump SYNC_CHECK_INACCURATE = (lim \<noteq> 0 \<and> uncertainty_ns r > lim)"
| "fails r lim jump SYNC_CHECK_INCONSISTENT = jump"
| "fails r lim jump SYNC_CHECK_GOOD = True"

definition label_jump :: "SyncSourceTracker \<Rightarrow> SyncSourceReport \<Rightarrow> bool" where
  "label_jump t r \<longleftrightarrow> has_label t \<and>
     utc_advance (last_label t) (last_label_leap t) (edge_number r - last_label_edge t) (announced (leap r))
       \<noteq> (utc_seconds r, leap_second r)"

lemma label_follows_on_fst: "fst (label_follows_on t r) \<longleftrightarrow> \<not> label_jump t r"
  by (auto simp: label_follows_on_def label_jump_def Let_def split: prod.splits)

lemma record_cross_check_frame [frame_simps]:
  "check (record_cross_check r t) = check t" "report (record_cross_check r t) = report t"
  "good_run (record_cross_check r t) = good_run t" "usable_run (record_cross_check r t) = usable_run t"
  "has_label (record_cross_check r t) = has_label t" "last_label (record_cross_check r t) = last_label t"
  "last_label_leap (record_cross_check r t) = last_label_leap t"
  "last_label_edge (record_cross_check r t) = last_label_edge t"
  "verdicts (record_cross_check r t) = verdicts t" "bound_ns (record_cross_check r t) = bound_ns t"
  "tracker_phase_valid (record_cross_check r t) = tracker_phase_valid t"
  "label_jumps (record_cross_check r t) = label_jumps t"
  "phase_ticks (record_cross_check r t) = phase_ticks t"
  by (simp_all add: record_cross_check_def Let_def)

text \<open>The verdict, in one formula.\<close>

definition verdict_of :: "SyncSourceTracker \<Rightarrow> SyncSourceReport \<Rightarrow> u32 \<Rightarrow> SyncCheck" where
  "verdict_of t r lim =
     (if classify r lim = SYNC_CHECK_GOOD \<and> label_jump t r then SYNC_CHECK_INCONSISTENT else classify r lim)"

lemma classify_good:
  "classify r lim = SYNC_CHECK_GOOD \<or> classify r lim = SYNC_CHECK_INACCURATE \<longleftrightarrow>
     present r \<and> time_valid r \<and> edge r \<and> labelled r"
  by (simp add: classify_def)

lemma judge_check:
  "fst (sync_source_judge t r lim n) = verdict_of t r lim"
  "check (snd (sync_source_judge t r lim n)) = verdict_of t r lim"
proof -
  define t1 where "t1 = (if \<not> present r \<or> \<not> edge r then t\<lparr>has_label := False\<rparr> else t)"
  obtain fo t' where lf: "label_follows_on t1 r = (fo, t')" by fastforce
  have fo: "fo \<longleftrightarrow> \<not> label_jump t1 r" using label_follows_on_fst [of t1 r] by (simp add: lf)
  have j: "present r \<Longrightarrow> edge r \<Longrightarrow> label_jump t1 r = label_jump t r" by (simp add: t1_def)
  have c: "classify r lim = SYNC_CHECK_GOOD \<Longrightarrow> present r \<and> time_valid r \<and> edge r \<and> labelled r"
    using classify_good [of r lim] by simp
  show "fst (sync_source_judge t r lim n) = verdict_of t r lim"
    unfolding sync_source_judge_def Let_def t1_def [symmetric] lf prod.case verdict_of_def
    using c j fo by (auto split: prod.splits)
  show "check (snd (sync_source_judge t r lim n)) = verdict_of t r lim"
    unfolding sync_source_judge_def Let_def t1_def [symmetric] lf prod.case verdict_of_def
    using c j fo by (auto simp: frame_simps split: prod.splits)
qed

lemma judge_runs:
  "good_run (snd (sync_source_judge t r lim n)) = count_run (verdict_of t r lim = SYNC_CHECK_GOOD) (good_run t)"
  "usable_run (snd (sync_source_judge t r lim n))
    = count_run (verdict_of t r lim \<in> {SYNC_CHECK_GOOD, SYNC_CHECK_INACCURATE}) (usable_run t)"
  "report (snd (sync_source_judge t r lim n)) = r"
proof -
  define t1 where "t1 = (if \<not> present r \<or> \<not> edge r then t\<lparr>has_label := False\<rparr> else t)"
  obtain fo t' where lf: "label_follows_on t1 r = (fo, t')" by fastforce
  have g: "good_run t1 = good_run t" "usable_run t1 = usable_run t" by (simp_all add: t1_def)
  have g': "good_run t' = good_run t" "usable_run t' = usable_run t"
    using lf g by (auto simp: label_follows_on_def Let_def split: if_splits)
  have v: "fst (sync_source_judge t r lim n) = verdict_of t r lim" by (rule judge_check)
  show "good_run (snd (sync_source_judge t r lim n)) = count_run (verdict_of t r lim = SYNC_CHECK_GOOD) (good_run t)"
    unfolding v [symmetric] unfolding sync_source_judge_def Let_def t1_def [symmetric] lf prod.case
    by (simp add: frame_simps g g' split: prod.splits)
  show "usable_run (snd (sync_source_judge t r lim n))
    = count_run (verdict_of t r lim \<in> {SYNC_CHECK_GOOD, SYNC_CHECK_INACCURATE}) (usable_run t)"
    unfolding v [symmetric] unfolding sync_source_judge_def Let_def t1_def [symmetric] lf prod.case
    by (simp add: frame_simps g g' split: prod.splits)
  show "report (snd (sync_source_judge t r lim n)) = r"
    unfolding sync_source_judge_def Let_def by (simp add: frame_simps split: prod.splits)
qed

lemma judge_label:
  "has_label (snd (sync_source_judge t r lim n)) \<longleftrightarrow>
     (if present r \<and> edge r then (time_valid r \<and> labelled r) \<or> has_label t else False)"
  "present r \<and> time_valid r \<and> edge r \<and> labelled r \<Longrightarrow>
     last_label (snd (sync_source_judge t r lim n)) = utc_seconds r \<and>
     last_label_leap (snd (sync_source_judge t r lim n)) = leap_second r \<and>
     last_label_edge (snd (sync_source_judge t r lim n)) = edge_number r"
proof -
  define t1 where "t1 = (if \<not> present r \<or> \<not> edge r then t\<lparr>has_label := False\<rparr> else t)"
  obtain fo t' where lf: "label_follows_on t1 r = (fo, t')" by fastforce
  have l: "has_label t'" "last_label t' = utc_seconds r" "last_label_leap t' = leap_second r"
    "last_label_edge t' = edge_number r"
    using lf by (auto simp: label_follows_on_def Let_def)
  show "has_label (snd (sync_source_judge t r lim n)) \<longleftrightarrow>
     (if present r \<and> edge r then (time_valid r \<and> labelled r) \<or> has_label t else False)"
    unfolding sync_source_judge_def Let_def t1_def [symmetric] lf prod.case
    using l(1) by (auto simp add: frame_simps t1_def split: prod.splits)
  show "present r \<and> time_valid r \<and> edge r \<and> labelled r \<Longrightarrow>
     last_label (snd (sync_source_judge t r lim n)) = utc_seconds r \<and>
     last_label_leap (snd (sync_source_judge t r lim n)) = leap_second r \<and>
     last_label_edge (snd (sync_source_judge t r lim n)) = edge_number r"
    unfolding sync_source_judge_def Let_def t1_def [symmetric] lf prod.case
    using l by (simp add: frame_simps split: prod.splits)
qed

section \<open>Runs\<close>

type_synonym judgement = "SyncSourceReport \<times> u32 \<times> u32"

fun judge_all :: "judgement list \<Rightarrow> SyncSourceTracker \<Rightarrow> SyncCheck list \<times> SyncSourceTracker" where
  "judge_all [] t = ([], t)"
| "judge_all ((r, lim, n) # js) t =
     (let (c, t1) = sync_source_judge t r lim n; (cs, t2) = judge_all js t1 in (c # cs, t2))"

definition trailing :: "('a \<Rightarrow> bool) \<Rightarrow> 'a list \<Rightarrow> nat" where
  "trailing P xs = length (takeWhile P (rev xs))"

lemma trailing_simps:
  "trailing P [] = 0" "trailing P (xs @ [x]) = (if P x then Suc (trailing P xs) else 0)"
  by (simp_all add: trailing_def)

lemma judge_all_snoc:
  "judge_all (js @ [(r, lim, n)]) t =
     (let (cs, t1) = judge_all js t; (c, t2) = sync_source_judge t1 r lim n in (cs @ [c], t2))"
  by (induction js arbitrary: t) (auto split: prod.splits)

lemma count_run_min:
  "unat run = min 65535 k \<Longrightarrow> unat (count_run ok run) = (if ok then min 65535 (Suc k) else 0)"
  by (auto simp: count_run_def word_less_nat_alt unat_word_ariths min_def)

lemma judge_all_runs:
  "unat (good_run (snd (judge_all js sync_source_reset)))
     = min 65535 (trailing (\<lambda>c. c = SYNC_CHECK_GOOD) (fst (judge_all js sync_source_reset)))
   \<and> unat (usable_run (snd (judge_all js sync_source_reset)))
     = min 65535 (trailing (\<lambda>c. c \<in> {SYNC_CHECK_GOOD, SYNC_CHECK_INACCURATE}) (fst (judge_all js sync_source_reset)))"
proof (induction js rule: rev_induct)
  case Nil
  then show ?case by (simp add: trailing_simps sync_source_reset_def)
next
  case (snoc j js)
  obtain r lim n where j: "j = (r, lim, n)" by (cases j)
  obtain cs t1 where js: "judge_all js sync_source_reset = (cs, t1)" by fastforce
  obtain c t2 where c: "sync_source_judge t1 r lim n = (c, t2)" by fastforce
  have v: "c = verdict_of t1 r lim" using judge_check(1) [of t1 r lim n] by (simp add: c)
  have "good_run t2 = count_run (c = SYNC_CHECK_GOOD) (good_run t1)"
    "usable_run t2 = count_run (c \<in> {SYNC_CHECK_GOOD, SYNC_CHECK_INACCURATE}) (usable_run t1)"
    using judge_runs(1,2) [of t1 r lim n] by (simp_all add: c v)
  then show ?case
    using snoc.IH count_run_min [of "good_run t1"] count_run_min [of "usable_run t1"]
    by (simp add: j judge_all_snoc js c trailing_simps)
qed

section \<open>Properties\<close>

text \<open>
  The verdict is the most fundamental failure. Of the checks a report fails, in the order
  absent, no time, no edge, unlabelled, inaccurate, inconsistent, it is the first; GOOD means
  it fails none.
\<close>

theorem verdict_is_first_failure:
  "fst (sync_source_judge t r lim n) = Min {c. fails r lim (label_jump t r) c}"
proof (rule Min_eqI [symmetric])
  have "(UNIV :: SyncCheck set) \<subseteq> {SYNC_CHECK_ABSENT, SYNC_CHECK_NO_TIME, SYNC_CHECK_NO_EDGE,
      SYNC_CHECK_UNLABELLED, SYNC_CHECK_INACCURATE, SYNC_CHECK_INCONSISTENT, SYNC_CHECK_GOOD}"
    by (auto intro: SyncCheck.exhaust)
  then have "finite (UNIV :: SyncCheck set)" by (rule finite_subset) simp
  then show "finite {c. fails r lim (label_jump t r) c}" by (rule finite_subset [OF subset_UNIV])
  show "fst (sync_source_judge t r lim n) \<in> {c. fails r lim (label_jump t r) c}"
    by (simp add: judge_check verdict_of_def classify_def)
  fix c
  assume "c \<in> {c. fails r lim (label_jump t r) c}"
  then show "fst (sync_source_judge t r lim n) \<le> c"
    by (cases c) (auto simp: judge_check verdict_of_def classify_def less_eq_SyncCheck_def)
qed

text \<open>
  The runs count epochs in a row. After any history from a reset, the good run is the number
  of GOOD verdicts at its end and the usable run the number of GOOD or INACCURATE ones, both
  stopping at 65535 instead of wrapping.
\<close>

theorem runs_count_trailing:
  "unat (good_run (snd (judge_all js sync_source_reset)))
     = min 65535 (trailing (\<lambda>c. c = SYNC_CHECK_GOOD) (fst (judge_all js sync_source_reset)))
   \<and> unat (usable_run (snd (judge_all js sync_source_reset)))
     = min 65535 (trailing (\<lambda>c. c \<in> {SYNC_CHECK_GOOD, SYNC_CHECK_INACCURATE}) (fst (judge_all js sync_source_reset)))"
  by (rule judge_all_runs)

text \<open>
  C21: a label is believed if and only if it follows the one before it by the source's own edges,
  through any announced leap second. After a report with a label, whatever its verdict, the next
  labelled one within its limit is GOOD if its label is that count on and INCONSISTENT if not; so
  a source that really changed its time is believed again one edge later. After a report without
  an edge any label is GOOD.
\<close>

theorem label_continuity:
  assumes "classify r1 lim1 \<in> {SYNC_CHECK_GOOD, SYNC_CHECK_INACCURATE, SYNC_CHECK_NO_EDGE}"
    and "classify r2 lim2 = SYNC_CHECK_GOOD"
  shows "fst (sync_source_judge (snd (sync_source_judge t r1 lim1 n1)) r2 lim2 n2) =
    (if edge r1 \<longrightarrow> utc_advance (utc_seconds r1) (leap_second r1) (edge_number r2 - edge_number r1)
                      (announced (leap r2)) = (utc_seconds r2, leap_second r2)
     then SYNC_CHECK_GOOD else SYNC_CHECK_INCONSISTENT)"
proof (cases "edge r1")
  case True
  then have "present r1 \<and> time_valid r1 \<and> edge r1 \<and> labelled r1"
    using assms(1) by (auto simp: classify_def split: if_splits)
  with judge_label(2) [of r1 t lim1 n1] judge_label(1) [of t r1 lim1 n1] show ?thesis
    using True assms(2) by (simp add: judge_check verdict_of_def label_jump_def)
next
  case False
  then have "\<not> has_label (snd (sync_source_judge t r1 lim1 n1))" by (simp add: judge_label)
  then show ?thesis using False assms(2) by (simp add: judge_check verdict_of_def label_jump_def)
qed

definition good_report :: "u32 \<Rightarrow> u32 \<Rightarrow> SyncSourceReport" where
  "good_report utc number = no_report\<lparr>present := True, time_valid := True, edge := True, labelled := True,
     edge_number := number, utc_seconds := utc\<rparr>"

theorem label_continuity_witness:
  "fst (sync_source_judge (snd (sync_source_judge sync_source_reset (good_report 1700000000 5) 0 1))
     (good_report 1700000003 7) 0 2) = SYNC_CHECK_INCONSISTENT"
proof -
  have c: "classify (good_report 1700000000 5) 0 \<in> {SYNC_CHECK_GOOD, SYNC_CHECK_INACCURATE, SYNC_CHECK_NO_EDGE}"
    "classify (good_report 1700000003 7) 0 = SYNC_CHECK_GOOD" by (simp_all add: classify_def good_report_def)
  show ?thesis
    by (subst label_continuity [OF c]) (simp add: good_report_def announced_def no_report_def no_leap_def utc_advance_def Let_def)
qed

end
