(* ===== verification/Fixed_Point.thy ===== *)
theory Fixed_Point
  imports Prelude
begin

text \<open>
  Q16.16 fixed point (\<open>dspic_src/timing/q16.h\<close>). Rounding, clamping and splitting as the code
  does them on \<open>int32_t\<close> and \<open>int64_t\<close>; \<open>symmetric_rounding\<close> is the contract of every
  rounding of the firmware (to nearest, ties away from zero), with the bounds its users need.
\<close>

section \<open>The code\<close>

definition Q16_ONE :: int where "Q16_ONE = 65536"
definition Q16_HALF :: int where "Q16_HALF = 32768"
definition Q16_TICK_LIMIT :: int where "Q16_TICK_LIMIT = 16383"

definition Q16_FROM_TICKS :: "int \<Rightarrow> int" where
  "Q16_FROM_TICKS ticks = i32 (ticks * Q16_ONE)"

definition Q16_RATIO :: "int \<Rightarrow> int \<Rightarrow> int" where
  "Q16_RATIO numerator denominator = i32 ((numerator * Q16_ONE + denominator sdiv 2) sdiv denominator)"

definition q16_round_from_q32 :: "int \<Rightarrow> int" where
  "q16_round_from_q32 v =
     (if v \<ge> 0 then i32 (drop_bit 16 (v + Q16_HALF))
      else i32 (- i32 (drop_bit 16 (- v + Q16_HALF))))"

definition q_round_shift :: "int \<Rightarrow> nat \<Rightarrow> int" where
  "q_round_shift v shift =
     (let half = push_bit (shift - 1) 1
      in if v \<ge> 0 then drop_bit shift (v + half) else - drop_bit shift (- v + half))"

definition q16_multiply :: "int \<Rightarrow> int \<Rightarrow> int" where
  "q16_multiply a b = q16_round_from_q32 (a * b)"

definition q16_round_to_ticks :: "int \<Rightarrow> int" where
  "q16_round_to_ticks v =
     (if v \<ge> 0 then i32 (uint (drop_bit 16 (word_of_int v + word_of_int Q16_HALF :: u32)))
      else i32 (- i32 (uint (drop_bit 16 (word_of_int (i32 (- v)) + word_of_int Q16_HALF :: u32)))))"

definition q16_clamp :: "int \<Rightarrow> int \<Rightarrow> int" where
  "q16_clamp v limit = (if v > limit then limit else if v < - limit then - limit else v)"

definition q16_split :: "int \<Rightarrow> int \<times> u16" where
  "q16_split v =
     (let low = ucast ((word_of_int v :: u32) AND 0xFFFF) :: u16
      in (i32 (v - uint low) sdiv Q16_ONE, low))"

lemmas q16_consts = Q16_ONE_def Q16_HALF_def Q16_TICK_LIMIT_def

section \<open>Contract: rounding to nearest, ties away from zero\<close>

locale symmetric_rounding =
  fixes rnd :: "int \<Rightarrow> int" and half :: int and dom :: "int \<Rightarrow> bool"
  assumes half_pos: "0 < half"
    and dom_minus: "dom v \<Longrightarrow> dom (- v)"
    and rnd_nonneg: "dom v \<Longrightarrow> 0 \<le> v \<Longrightarrow> rnd v = (v + half) div (2 * half)"
    and rnd_neg: "dom v \<Longrightarrow> v < 0 \<Longrightarrow> rnd v = - rnd (- v)"
begin

lemma rnd_minus: "dom v \<Longrightarrow> rnd (- v) = - rnd v"
proof -
  assume d: "dom v"
  consider "v < 0" | "v = 0" | "0 < v" by linarith
  then show ?thesis
  proof cases
    case 2
    then show ?thesis using d half_pos by (simp add: rnd_nonneg div_pos_pos_trivial)
  next
    case 3
    then show ?thesis using rnd_neg [of "- v"] dom_minus [OF d] by simp
  qed (use rnd_neg [OF d] in simp)
qed

lemma nearest_nonneg:
  assumes "dom v" "0 \<le> v"
  shows "\<bar>rnd v * (2 * half) - v\<bar> \<le> half"
proof -
  define q where "q = (v + half) div (2 * half)"
  have "q * (2 * half) + (v + half) mod (2 * half) = v + half"
    unfolding q_def by (rule div_mult_mod_eq)
  moreover have "0 \<le> (v + half) mod (2 * half)" "(v + half) mod (2 * half) < 2 * half"
    using half_pos by simp_all
  ultimately show ?thesis using assms by (simp add: rnd_nonneg flip: q_def)
qed

lemma nearest: "dom v \<Longrightarrow> \<bar>rnd v * (2 * half) - v\<bar> \<le> half"
proof (cases "0 \<le> v")
  case False
  assume d: "dom v"
  have "\<bar>rnd (- v) * (2 * half) - (- v)\<bar> \<le> half"
    using False by (intro nearest_nonneg dom_minus [OF d]) simp
  then show ?thesis by (simp add: rnd_minus [OF d])
qed (rule nearest_nonneg)

lemma rnd_sign: "dom v \<Longrightarrow> 0 \<le> v \<Longrightarrow> 0 \<le> rnd v" "dom v \<Longrightarrow> v \<le> 0 \<Longrightarrow> rnd v \<le> 0"
proof -
  have pos: "dom v \<Longrightarrow> 0 \<le> v \<Longrightarrow> 0 \<le> rnd v" for v
    using half_pos by (simp add: rnd_nonneg pos_imp_zdiv_nonneg_iff)
  then show "dom v \<Longrightarrow> 0 \<le> v \<Longrightarrow> 0 \<le> rnd v" .
  show "dom v \<Longrightarrow> v \<le> 0 \<Longrightarrow> rnd v \<le> 0"
    using pos [of "- v"] dom_minus [of v] rnd_minus [of v] by simp
qed

lemma rnd_upper: "dom v \<Longrightarrow> v \<le> n * (2 * half) \<Longrightarrow> 0 \<le> n \<Longrightarrow> rnd v \<le> n"
proof (cases "0 \<le> v")
  case True
  assume d: "dom v" and v: "v \<le> n * (2 * half)"
  have "(v + half) div (2 * half) \<le> (n * (2 * half) + half) div (2 * half)"
    using v half_pos by (intro zdiv_mono1) auto
  also have "\<dots> = n" using half_pos by (simp add: div_pos_pos_trivial)
  finally show ?thesis by (simp add: rnd_nonneg [OF d True])
next
  case False
  assume "dom v" "0 \<le> n"
  then show ?thesis using rnd_sign(2) [of v] False by simp
qed

lemma rnd_bound: "dom v \<Longrightarrow> \<bar>v\<bar> \<le> n * (2 * half) \<Longrightarrow> \<bar>rnd v\<bar> \<le> n"
proof -
  assume d: "dom v" and v: "\<bar>v\<bar> \<le> n * (2 * half)"
  then have "0 \<le> n * (2 * half)" by linarith
  then have n: "0 \<le> n" using half_pos by (simp add: zero_le_mult_iff)
  have "rnd v \<le> n" using v by (intro rnd_upper d n) simp
  moreover have "rnd (- v) \<le> n" using v by (intro rnd_upper dom_minus d n) simp
  ultimately show ?thesis using rnd_minus [OF d] by simp
qed

lemma rnd_exact: "dom (n * (2 * half)) \<Longrightarrow> rnd (n * (2 * half)) = n"
proof -
  assume d: "dom (n * (2 * half))"
  have "\<bar>(rnd (n * (2 * half)) - n) * (2 * half)\<bar> \<le> half"
    using nearest [OF d] by (simp add: algebra_simps)
  then have "\<bar>rnd (n * (2 * half)) - n\<bar> * (2 * half) \<le> half"
    using half_pos by (simp add: abs_mult)
  then have "\<bar>rnd (n * (2 * half)) - n\<bar> < 1"
    using half_pos mult_right_mono [of 1 "\<bar>rnd (n * (2 * half)) - n\<bar>" "2 * half"] by linarith
  then show ?thesis by simp
qed

end

section \<open>The roundings of the code\<close>

lemma rounding_step: "drop_bit (Suc n) (v + 2 ^ n) = (v + 2 ^ n) div (2 * 2 ^ n)" for v :: int
  by (simp add: drop_bit_eq_div)

definition q32_range :: "int \<Rightarrow> bool" where "q32_range v \<longleftrightarrow> \<bar>v\<bar> < 2 ^ 47 - 2 ^ 15"

interpretation q32: symmetric_rounding q16_round_from_q32 Q16_HALF q32_range
proof
  fix v
  show "q32_range v \<Longrightarrow> q32_range (- v)" by (simp add: q32_range_def)
  have r: "i32 ((v + 32768) div 65536) = (v + 32768) div 65536"
    if "q32_range v" "0 \<le> v" for v
    using that by (intro i32_abs_id) (simp add: q32_range_def)
  show nn: "q32_range v \<Longrightarrow> 0 \<le> v \<Longrightarrow> q16_round_from_q32 v = (v + Q16_HALF) div (2 * Q16_HALF)"
    using r [of v] by (simp add: q16_round_from_q32_def q16_consts drop_bit_eq_div)
  show "q32_range v \<Longrightarrow> v < 0 \<Longrightarrow> q16_round_from_q32 v = - q16_round_from_q32 (- v)"
  proof -
    assume v: "q32_range v" "v < 0"
    have m: "(- v + 32768) div 65536 < 2 ^ 31" "0 \<le> (- v + 32768) div 65536"
      using v by (auto simp: q32_range_def)
    then show ?thesis using v r [of "- v"]
      by (auto simp: q16_round_from_q32_def q16_consts drop_bit_eq_div q32_range_def i32_abs_id)
  qed
qed (simp add: q16_consts)

interpretation ticks: symmetric_rounding q16_round_to_ticks Q16_HALF "\<lambda>v. \<bar>v\<bar> < 2 ^ 31"
proof
  fix v :: int
  have u: "uint (drop_bit 16 (word_of_int x + word_of_int Q16_HALF :: u32)) = (x + 32768) div 65536"
    if "0 \<le> x" "x < 2 ^ 31" for x
    using that by (simp add: q16_consts uint_word_of_int drop_bit_eq_div uint_div uint_word_ariths)
  have nn: "q16_round_to_ticks v = (v + 32768) div 65536" if "0 \<le> v" "v < 2 ^ 31" for v
    using that u [of v] by (simp only: q16_round_to_ticks_def if_True) (simp add: i32_abs_id)
  then show "\<bar>v\<bar> < 2 ^ 31 \<Longrightarrow> 0 \<le> v \<Longrightarrow> q16_round_to_ticks v = (v + Q16_HALF) div (2 * Q16_HALF)"
    by (simp add: q16_consts)
  show "\<bar>v\<bar> < 2 ^ 31 \<Longrightarrow> v < 0 \<Longrightarrow> q16_round_to_ticks v = - q16_round_to_ticks (- v)"
  proof -
    assume v: "\<bar>v\<bar> < 2 ^ 31" "v < 0"
    then have p: "q16_round_to_ticks (- v) = (- v + 32768) div 65536" by (intro nn) auto
    have b: "\<bar>(- v + 32768) div 65536\<bar> < 2 ^ 31" using v by auto
    have m: "i32 (- v) = - v" using v by (intro i32_abs_id) simp
    have "uint (drop_bit 16 (word_of_int (i32 (- v)) + word_of_int Q16_HALF :: u32)) = (- v + 32768) div 65536"
      unfolding m using v by (intro u) auto
    then show ?thesis using v b unfolding p
      by (simp add: q16_round_to_ticks_def i32_abs_id)
  qed
qed (simp_all add: q16_consts)

lemma q_round_shift_rounding:
  "symmetric_rounding (\<lambda>v. q_round_shift v (Suc n)) (2 ^ n) (\<lambda>_. True)"
  by unfold_locales (auto simp: q_round_shift_def Let_def drop_bit_eq_div push_bit_eq_mult)

interpretation shift30: symmetric_rounding "\<lambda>v. q_round_shift v 30" "2 ^ 29" "\<lambda>_. True"
  using q_round_shift_rounding [of 29] by simp

section \<open>Facts for the components\<close>

lemma q16_from_ticks [width_simps]: "\<bar>n\<bar> \<le> 16383 \<Longrightarrow> Q16_FROM_TICKS n = n * 65536"
  unfolding Q16_FROM_TICKS_def Q16_ONE_def by (rule i32_abs_id) (simp add: abs_mult)

lemma q16_clamp_bound: "0 \<le> l \<Longrightarrow> \<bar>q16_clamp v l\<bar> \<le> l"
  by (auto simp: q16_clamp_def)

lemma q16_clamp_id: "\<bar>v\<bar> \<le> l \<Longrightarrow> q16_clamp v l = v"
  by (auto simp: q16_clamp_def)

lemma q16_multiply_bound:
  assumes "0 \<le> a" "a \<le> 65536" "\<bar>b\<bar> \<le> n" "n \<le> 2 ^ 30"
  shows "\<bar>q16_multiply a b\<bar> \<le> n"
proof -
  have "\<bar>a * b\<bar> \<le> 65536 * n"
    using assms by (simp add: abs_mult mult_mono)
  moreover from this have "q32_range (a * b)" using assms(4) by (simp add: q32_range_def)
  ultimately show ?thesis
    using q32.rnd_bound [of "a * b" n] by (simp add: q16_multiply_def q16_consts mult.commute)
qed

lemma q16_split_exact:
  assumes "in_i32 v"
  shows "fst (q16_split v) = v div 65536" "uint (snd (q16_split v)) = v mod 65536"
proof -
  have low: "uint (ucast ((word_of_int v :: u32) AND 0xFFFF) :: u16) = v mod 65536"
  proof -
    have m: "(0xFFFF :: u32) = mask 16" by (simp add: mask_eq_exp_minus_1)
    have "uint ((word_of_int v :: u32) AND 0xFFFF) = v mod 65536"
      unfolding m by (simp add: uint_word_of_int mod_mod_cancel take_bit_eq_mod
        uint_mod flip: take_bit_eq_mask)
    then show ?thesis by (simp add: unsigned_ucast_eq take_bit_eq_mod)
  qed
  then show "uint (snd (q16_split v)) = v mod 65536" by (simp add: q16_split_def Let_def)
  have "v - v mod 65536 = 65536 * (v div 65536)" by (simp add: minus_mod_eq_mult_div)
  moreover have "in_i32 (v - v mod 65536)"
  proof (rule in_i32I)
    have "- 2147483648 div 65536 \<le> v div 65536"
      using in_i32D [OF assms] by (intro zdiv_mono1) auto
    then show "- 2147483648 \<le> v - v mod 65536" by (simp add: minus_mod_eq_mult_div)
    have "0 \<le> v mod 65536" by simp
    then show "v - v mod 65536 \<le> 2147483647" using in_i32D [OF assms] by linarith
  qed
  ultimately show "fst (q16_split v) = v div 65536"
    using low by (simp add: q16_split_def Let_def q16_consts i32_id signed_divide_int_def sgn_mult abs_mult
        sgn_mult_abs)
qed

end
