(* ===== verification/Kalman.thy ===== *)
theory Kalman
  imports Fixed_Point
begin

text \<open>
  The oscillator estimator (\<open>dspic_src/timing/kalman.c\<close>): a one-state Kalman filter on the
  timer ticks between PPS edges. \<open>kalman_valid\<close> holds of every state, whatever it is seeded with: the
  update is then that of unbounded integers and the gain never leaves 0 to 1. \<open>kalman_ok\<close> adds that
  the estimate is within the tick limit, which seeds beyond it would leave.
\<close>

section \<open>The code\<close>

definition KALMAN_Q30_ONE :: u32 where "KALMAN_Q30_ONE = push_bit 30 1"
definition KALMAN_GATE_SIGMA :: u64 where "KALMAN_GATE_SIGMA = 8"
definition KALMAN_REJECT_LIMIT :: u8 where "KALMAN_REJECT_LIMIT = 4"
definition VARIANCE_RATIO_MAX :: u32 where "VARIANCE_RATIO_MAX = 2 * KALMAN_Q30_ONE"

definition KALMAN_VARIANCE_Q16 :: "u32 \<Rightarrow> u32 \<Rightarrow> u32" where
  "KALMAN_VARIANCE_Q16 numerator denominator = (numerator * 65536 + denominator div 2) div denominator"

definition PPS_KF_Q :: u32 where "PPS_KF_Q = KALMAN_VARIANCE_Q16 1 1024"
definition PPS_KF_R :: u32 where "PPS_KF_R = KALMAN_VARIANCE_Q16 1 1"

datatype KalmanResult = KALMAN_ACCEPTED | KALMAN_ACQUIRED | KALMAN_REJECTED | KALMAN_REACQUIRING

record KalmanStats =
  accepted :: u32
  rejected :: u32
  reacquisitions :: u32

record KalmanFilter =
  offset_q16 :: int
  variance_ratio_q30 :: u32
  process_ratio_q30 :: u32
  measurement_variance_q16 :: u32
  gain_q30 :: u32
  nominal_period :: u32
  consecutive_rejects :: u8
  initialized :: bool
  kalman_stats :: KalmanStats

definition gain_from_ratio :: "u32 \<Rightarrow> u32" where
  "gain_from_ratio p_minus_q30 =
     (let numerator = push_bit 30 (ucast p_minus_q30 :: u64);
          denominator = p_minus_q30 + KALMAN_Q30_ONE
      in ucast ((numerator + ucast (drop_bit 1 denominator)) div ucast denominator))"

definition within_gate :: "KalmanFilter \<Rightarrow> int \<Rightarrow> u32 \<Rightarrow> bool" where
  "within_gate kf innovation_q16 p_minus_q30 =
     (let magnitude = word_of_int (if innovation_q16 < 0 then - innovation_q16 else innovation_q16) :: u64;
          innovation_squared_q32 = magnitude * magnitude;
          one_plus_p_q16 = drop_bit 14 (ucast KALMAN_Q30_ONE + ucast p_minus_q30 :: u64);
          variance_q32 = ucast (measurement_variance_q16 kf) * one_plus_p_q16;
          gate_squared = KALMAN_GATE_SIGMA * KALMAN_GATE_SIGMA
      in innovation_squared_q32 \<le> gate_squared * variance_q32)"

definition kalman_acquire :: "KalmanFilter \<Rightarrow> int \<Rightarrow> KalmanFilter" where
  "kalman_acquire kf measured_offset_q16 =
     kf\<lparr>offset_q16 := measured_offset_q16, variance_ratio_q30 := KALMAN_Q30_ONE,
        gain_q30 := KALMAN_Q30_ONE, consecutive_rejects := 0, initialized := True\<rparr>"

definition kalman_reject :: "KalmanFilter \<Rightarrow> KalmanResult \<times> KalmanFilter" where
  "kalman_reject kf0 =
     (let st = kalman_stats kf0;
          kf = kf0\<lparr>kalman_stats := st\<lparr>rejected := rejected st + 1\<rparr>,
                   consecutive_rejects := consecutive_rejects kf0 + 1\<rparr>
      in if consecutive_rejects kf \<ge> KALMAN_REJECT_LIMIT then
           (KALMAN_REACQUIRING,
            kf\<lparr>initialized := False,
               kalman_stats := (kalman_stats kf)\<lparr>reacquisitions := reacquisitions st + 1\<rparr>\<rparr>)
         else (KALMAN_REJECTED, kf))"

definition kalman_reset :: "KalmanFilter \<Rightarrow> KalmanFilter" where
  "kalman_reset kf =
     kf\<lparr>offset_q16 := 0, variance_ratio_q30 := KALMAN_Q30_ONE, gain_q30 := 0,
        consecutive_rejects := 0, initialized := False\<rparr>"

definition kalman_init :: "KalmanFilter \<Rightarrow> u32 \<Rightarrow> u32 \<Rightarrow> u32 \<Rightarrow> bool \<times> KalmanFilter" where
  "kalman_init kf nominal process_variance_q16 measurement_variance =
     (if nominal = 0 \<or> measurement_variance = 0 \<or> process_variance_q16 > measurement_variance
      then (False, kf)
      else (True, kalman_reset (kf\<lparr>nominal_period := nominal,
             measurement_variance_q16 := measurement_variance,
             process_ratio_q30 :=
               ucast ((push_bit 30 (ucast process_variance_q16 :: u64) + ucast (measurement_variance div 2))
                      div ucast measurement_variance),
             kalman_stats := \<lparr>accepted = 0, rejected = 0, reacquisitions = 0\<rparr>\<rparr>)))"

definition kalman_seed :: "KalmanFilter \<Rightarrow> int \<Rightarrow> KalmanFilter" where
  "kalman_seed kf offset = kalman_acquire kf offset"

definition count_accepted :: "KalmanFilter \<Rightarrow> KalmanFilter" where
  "count_accepted kf = kf\<lparr>kalman_stats := (kalman_stats kf)\<lparr>accepted := accepted (kalman_stats kf) + 1\<rparr>\<rparr>"

definition kalman_update :: "KalmanFilter \<Rightarrow> u32 \<Rightarrow> KalmanResult \<times> KalmanFilter" where
  "kalman_update kf measured_period =
     (let measured_offset = sint (measured_period - nominal_period kf)
      in if measured_offset > Q16_TICK_LIMIT \<or> measured_offset < - Q16_TICK_LIMIT then kalman_reject kf
      else let measured_offset_q16 = Q16_FROM_TICKS measured_offset
      in if \<not> initialized kf then
           (KALMAN_ACQUIRED, count_accepted (kalman_acquire kf measured_offset_q16))
      else let p0 = variance_ratio_q30 kf + process_ratio_q30 kf;
               p_minus_q30 = (if p0 > VARIANCE_RATIO_MAX then VARIANCE_RATIO_MAX else p0);
               innovation_q16 = i32 (measured_offset_q16 - offset_q16 kf)
      in if \<not> within_gate kf innovation_q16 p_minus_q30 then
           kalman_reject (kf\<lparr>variance_ratio_q30 := p_minus_q30\<rparr>)
      else let gain = gain_from_ratio p_minus_q30
      in (KALMAN_ACCEPTED,
          count_accepted (kf\<lparr>gain_q30 := gain,
             offset_q16 := i32 (offset_q16 kf + i32 (q_round_shift (uint gain * innovation_q16) 30)),
             variance_ratio_q30 := gain, consecutive_rejects := 0\<rparr>)))"

definition kalman_phase_q16 :: "KalmanFilter \<Rightarrow> int" where
  "kalman_phase_q16 kf = offset_q16 kf"

definition kalman_period :: "KalmanFilter \<Rightarrow> u32" where
  "kalman_period kf = nominal_period kf + word_of_int (q16_round_to_ticks (offset_q16 kf))"

definition kalman_hz :: "KalmanFilter \<Rightarrow> u32 \<times> u16" where
  "kalman_hz kf =
     (let (whole_offset, fraction) = q16_split (offset_q16 kf);
          milli = drop_bit 16 (ucast fraction * 1000 + word_of_int Q16_HALF :: u32);
          whole_hz = nominal_period kf + word_of_int whole_offset
      in if milli \<ge> 1000 then (whole_hz + 1, ucast (milli - 1000)) else (whole_hz, ucast milli))"

lemmas kalman_consts =
  KALMAN_Q30_ONE_def KALMAN_GATE_SIGMA_def KALMAN_REJECT_LIMIT_def VARIANCE_RATIO_MAX_def

section \<open>The invariant\<close>

definition offset_ok :: "int \<Rightarrow> bool" where "offset_ok x \<longleftrightarrow> \<bar>x\<bar> \<le> 16383 * 65536"

text \<open>
  What \<open>kalman_init\<close> and the field's type alone give, and the narrower invariant of an estimate
  within the tick limit, which a seed can leave.
\<close>

definition kalman_valid :: "KalmanFilter \<Rightarrow> bool" where
  "kalman_valid kf \<longleftrightarrow>
     in_i32 (offset_q16 kf) \<and> unat (variance_ratio_q30 kf) \<le> 2 ^ 31 \<and>
     unat (process_ratio_q30 kf) \<le> 2 ^ 30 \<and> unat (gain_q30 kf) \<le> 2 ^ 30 \<and>
     measurement_variance_q16 kf \<noteq> 0 \<and> nominal_period kf \<noteq> 0 \<and>
     (initialized kf \<longrightarrow> unat (consecutive_rejects kf) < 4)"

definition kalman_ok :: "KalmanFilter \<Rightarrow> bool" where
  "kalman_ok kf \<longleftrightarrow>
     offset_ok (offset_q16 kf) \<and> unat (variance_ratio_q30 kf) \<le> 2 ^ 31 \<and>
     unat (process_ratio_q30 kf) \<le> 2 ^ 30 \<and> unat (gain_q30 kf) \<le> 2 ^ 30 \<and>
     measurement_variance_q16 kf \<noteq> 0 \<and> nominal_period kf \<noteq> 0 \<and>
     (initialized kf \<longrightarrow> unat (consecutive_rejects kf) < 4)"

lemma offset_ok_i32: "offset_ok x \<Longrightarrow> in_i32 x"
  by (auto simp: offset_ok_def in_i32_def abs_le_iff)

lemma kalman_ok_valid: "kalman_ok kf \<longleftrightarrow> kalman_valid kf \<and> offset_ok (offset_q16 kf)"
  using offset_ok_i32 by (auto simp: kalman_ok_def kalman_valid_def)

definition predicted_ratio :: "KalmanFilter \<Rightarrow> u32" where
  "predicted_ratio kf =
     (let p0 = variance_ratio_q30 kf + process_ratio_q30 kf
      in if p0 > VARIANCE_RATIO_MAX then VARIANCE_RATIO_MAX else p0)"

lemma unat_predicted_ratio:
  assumes "kalman_valid kf"
  shows "unat (predicted_ratio kf) = min (2 ^ 31) (unat (variance_ratio_q30 kf) + unat (process_ratio_q30 kf))"
  using assms
  by (auto simp: predicted_ratio_def Let_def kalman_valid_def kalman_consts word_less_nat_alt unat_word_ariths
      min_def)

lemma exact_gain:
  fixes p :: nat
  assumes "p \<le> 2 ^ 31"
  shows "(p * 2 ^ 30 + (p + 2 ^ 30) div 2) div (p + 2 ^ 30) < 2 ^ 30"
proof (rule less_mult_imp_div_less)
  have "(p + 2 ^ 30) div 2 < 2 ^ 60" using assms by simp
  then show "p * 2 ^ 30 + (p + 2 ^ 30) div 2 < 2 ^ 30 * (p + 2 ^ 30)" by simp
qed

lemma unat_gain_from_ratio:
  assumes "unat p \<le> 2 ^ 31"
  shows "unat (gain_from_ratio p) = (unat p * 2 ^ 30 + (unat p + 2 ^ 30) div 2) div (unat p + 2 ^ 30)"
    and "unat (gain_from_ratio p) < 2 ^ 30"
proof -
  define D where "D = p + KALMAN_Q30_ONE"
  have d: "unat D = unat p + 2 ^ 30"
    using assms by (simp add: D_def kalman_consts unat_word_ariths)
  define n where "n = unat p * 2 ^ 30 + (unat p + 2 ^ 30) div 2"
  have "unat p * 2 ^ 30 \<le> 2 ^ 61" using assms by simp
  then have nb: "n < 2 ^ 62" using assms by (simp add: n_def)
  have "unat (push_bit 30 (ucast p :: u64)) = unat p * 2 ^ 30"
    using assms by (simp add: push_bit_eq_mult unat_word_ariths width_simps)
  then have n: "unat (push_bit 30 (ucast p :: u64) + ucast (drop_bit 1 D)) = n"
    using nb by (simp add: n_def unat_word_ariths width_simps drop_bit_eq_div unat_div d)
  have q: "n div (unat p + 2 ^ 30) < 2 ^ 30"
    unfolding n_def by (rule exact_gain [OF assms])
  define X where "X = (push_bit 30 (ucast p :: u64) + ucast (drop_bit 1 D)) div ucast D"
  have "unat X = n div (unat p + 2 ^ 30)"
    unfolding X_def unat_div n by (simp add: unat_ucast_up d)
  moreover have "gain_from_ratio p = ucast X"
    by (simp only: gain_from_ratio_def Let_def X_def D_def)
  ultimately show "unat (gain_from_ratio p) = n div (unat p + 2 ^ 30)"
    using q by (simp add: unsigned_ucast_eq take_bit_nat_eq_self)
  then show "unat (gain_from_ratio p) < 2 ^ 30" using q by simp
qed

lemma within_gate_exact:
  assumes "\<bar>innovation\<bar> \<le> 2 ^ 31" "unat p \<le> 2 ^ 31"
  shows "within_gate kf innovation p \<longleftrightarrow>
    innovation ^ 2 \<le> 64 * (uint (measurement_variance_q16 kf) * ((2 ^ 30 + uint p) div 2 ^ 14))"
proof -
  define m where "m = (word_of_int (if innovation < 0 then - innovation else innovation) :: u64)"
  have m: "uint m = \<bar>innovation\<bar>" using assms(1) by (simp add: m_def uint_word_of_int abs_if)
  have "\<bar>innovation\<bar> * \<bar>innovation\<bar> \<le> 2 ^ 31 * 2 ^ 31"
    using assms(1) by (intro mult_mono) auto
  then have mm: "uint (m * m) = innovation ^ 2"
    by (simp add: uint_mult_small m power2_eq_square)
  define vo where "vo = drop_bit 14 (ucast KALMAN_Q30_ONE + ucast p :: u64)"
  have pb: "uint p \<le> 2 ^ 31" using assms(2) by (simp add: word_le_nat_alt uint_nat del: of_nat_unat)
  have K: "uint KALMAN_Q30_ONE = 2 ^ 30" by (simp add: KALMAN_Q30_ONE_def)
  have vo: "uint vo = (2 ^ 30 + uint p) div 2 ^ 14"
    using pb by (simp add: vo_def drop_bit_eq_div uint_div uint_plus_small uint_ucast_up K)
  have ob: "uint vo \<le> 2 ^ 18" using pb unfolding vo by simp
  define R where "R = (ucast (measurement_variance_q16 kf) :: u64)"
  have R: "uint R = uint (measurement_variance_q16 kf)" by (simp add: R_def uint_ucast_up)
  have Rb: "uint R < 2 ^ 32" unfolding R using uint_lt2p [of "measurement_variance_q16 kf"] by simp
  have "uint R * uint vo \<le> 2 ^ 32 * 2 ^ 18" using Rb ob by (intro mult_mono) auto
  then have "uint (R * vo) = uint R * uint vo" "uint (R * vo) \<le> 2 ^ 50" by (auto simp: uint_mult_small)
  then have "uint (64 * (R * vo)) = 64 * (uint R * uint vo)" by (simp add: uint_mult_small)
  then show ?thesis
    using mm unfolding within_gate_def Let_def
    by (simp add: word_le_def R vo KALMAN_GATE_SIGMA_def flip: m_def R_def vo_def)
qed

text \<open>No gate is as wide as 16385 ticks, whatever the variances.\<close>

lemma gate_far:
  assumes "16385 * 65536 \<le> \<bar>e\<bar>" "unat p \<le> 2 ^ 31"
  shows "\<not> e ^ 2 \<le> 64 * (uint (R :: u32) * ((2 ^ 30 + uint (p :: u32)) div 2 ^ 14))"
proof -
  have "uint p \<le> 2 ^ 31" using assms(2) by (simp add: word_le_nat_alt uint_nat del: of_nat_unat)
  then have v: "(2 ^ 30 + uint p) div 2 ^ 14 \<le> 196608" by simp
  have "uint R * ((2 ^ 30 + uint p) div 2 ^ 14) \<le> 2 ^ 32 * 196608"
    using v uint_lt2p [of R] by (intro mult_mono) (auto simp: pos_imp_zdiv_nonneg_iff)
  moreover have "(16385 * 65536) ^ 2 \<le> \<bar>e\<bar> ^ 2" using assms(1) by (intro power_mono) auto
  ultimately show ?thesis by simp
qed

section \<open>The invariant is kept\<close>

lemma convex_step:
  assumes "0 \<le> g" "g \<le> 2 ^ 30"
  shows "d \<ge> 0 \<Longrightarrow> 0 \<le> q_round_shift (g * d) 30 \<and> q_round_shift (g * d) 30 \<le> d"
    and "d \<le> 0 \<Longrightarrow> d \<le> q_round_shift (g * d) 30 \<and> q_round_shift (g * d) 30 \<le> 0"
proof -
  have pos: "0 \<le> q_round_shift (g * d) 30 \<and> q_round_shift (g * d) 30 \<le> d" if "0 \<le> d" for d
    using that assms shift30.rnd_sign(1) [of "g * d"] shift30.rnd_upper [of "g * d" d]
      mult_left_mono [of g "2 ^ 30" d] by (simp add: mult.commute)
  then show "d \<ge> 0 \<Longrightarrow> 0 \<le> q_round_shift (g * d) 30 \<and> q_round_shift (g * d) 30 \<le> d" .
  show "d \<le> 0 \<Longrightarrow> d \<le> q_round_shift (g * d) 30 \<and> q_round_shift (g * d) 30 \<le> 0"
    using pos [of "- d"] shift30.rnd_minus [of "g * d"] by simp
qed

lemma kalman_reject_simps [simp]:
  "offset_q16 (snd (kalman_reject kf)) = offset_q16 kf"
  "variance_ratio_q30 (snd (kalman_reject kf)) = variance_ratio_q30 kf"
  "process_ratio_q30 (snd (kalman_reject kf)) = process_ratio_q30 kf"
  "gain_q30 (snd (kalman_reject kf)) = gain_q30 kf"
  "measurement_variance_q16 (snd (kalman_reject kf)) = measurement_variance_q16 kf"
  "nominal_period (snd (kalman_reject kf)) = nominal_period kf"
  "consecutive_rejects (snd (kalman_reject kf)) = consecutive_rejects kf + 1"
  "initialized (snd (kalman_reject kf)) \<longleftrightarrow> initialized kf \<and> consecutive_rejects kf + 1 < 4"
  by (auto simp: kalman_reject_def Let_def KALMAN_REJECT_LIMIT_def)

lemma kalman_reject_ok: "kalman_ok kf \<Longrightarrow> kalman_ok (snd (kalman_reject kf))"
  by (simp add: kalman_ok_def word_less_nat_alt)

lemma kalman_reject_result: "fst (kalman_reject kf) \<in> {KALMAN_REJECTED, KALMAN_REACQUIRING}"
  by (simp add: kalman_reject_def Let_def)

text \<open>The measurement the update sees, and the whole ticks it accepts.\<close>

definition measured_ticks :: "KalmanFilter \<Rightarrow> u32 \<Rightarrow> int" where
  "measured_ticks kf m = sint (m - nominal_period kf)"

definition in_range :: "KalmanFilter \<Rightarrow> u32 \<Rightarrow> bool" where
  "in_range kf m \<longleftrightarrow> \<bar>measured_ticks kf m\<bar> \<le> 16383"

text \<open>The update on unbounded integers: the filter the comments of the header describe.\<close>

definition exact_update :: "KalmanFilter \<Rightarrow> u32 \<Rightarrow> KalmanResult \<times> KalmanFilter" where
  "exact_update kf m =
     (let z = measured_ticks kf m * 65536; x = offset_q16 kf; d = z - x;
          p = min (2 ^ 31) (unat (variance_ratio_q30 kf) + unat (process_ratio_q30 kf));
          K = (p * 2 ^ 30 + (p + 2 ^ 30) div 2) div (p + 2 ^ 30)
      in if \<not> in_range kf m then kalman_reject kf
         else if \<not> initialized kf then (KALMAN_ACQUIRED, count_accepted (kalman_acquire kf z))
         else if d ^ 2 > 64 * (uint (measurement_variance_q16 kf) * ((2 ^ 30 + int p) div 2 ^ 14))
         then kalman_reject (kf\<lparr>variance_ratio_q30 := word_of_nat p\<rparr>)
         else (KALMAN_ACCEPTED,
               count_accepted (kf\<lparr>gain_q30 := word_of_nat K, offset_q16 := x + q_round_shift (int K * d) 30,
                  variance_ratio_q30 := word_of_nat K, consecutive_rejects := 0\<rparr>)))"

text \<open>
  The innovation either fits or, after a seed beyond the tick limit, wraps: then both it and the
  wrapped value lie outside any gate.
\<close>

lemma i32_wrapped: "2 ^ 31 \<le> x \<Longrightarrow> x < 3 * 2 ^ 31 \<Longrightarrow> i32 x = x - 2 ^ 32"
  "x < - (2 ^ 31) \<Longrightarrow> - (3 * 2 ^ 31) \<le> x \<Longrightarrow> i32 x = x + 2 ^ 32"
proof -
  have p: "i32 (x + 2 ^ 32) = i32 x" for x 
    unfolding i32_def signed_take_bit_eq_take_bit_shift take_bit_eq_mod
    using mod_add_self2 [of "x + 2 ^ 31" "2 ^ 32 :: int"] by (simp add: algebra_simps)
  show "2 ^ 31 \<le> x \<Longrightarrow> x < 3 * 2 ^ 31 \<Longrightarrow> i32 x = x - 2 ^ 32"
    using p [of "x - 2 ^ 32"] i32_id [of "x - 2 ^ 32"] by (simp add: in_i32_def)
  show "x < - (2 ^ 31) \<Longrightarrow> - (3 * 2 ^ 31) \<le> x \<Longrightarrow> i32 x = x + 2 ^ 32"
    using p [of x] i32_id [of "x + 2 ^ 32"] by (simp add: in_i32_def)
qed

lemma innovation_bounds:
  assumes "kalman_valid kf" "in_range kf m"
  defines "d \<equiv> measured_ticks kf m * 65536 - offset_q16 kf"
  shows "i32 d = d \<and> \<bar>d\<bar> \<le> 2 ^ 31 \<or> 16385 * 65536 \<le> \<bar>d\<bar> \<and> 16385 * 65536 \<le> \<bar>i32 d\<bar> \<and> \<bar>i32 d\<bar> \<le> 2 ^ 31"
    "Q16_FROM_TICKS (measured_ticks kf m) = measured_ticks kf m * 65536"
proof -
  have z: "\<bar>measured_ticks kf m * 65536\<bar> \<le> 16383 * 65536"
    using assms(2) by (simp add: in_range_def abs_mult)
  have x: "- 2147483648 \<le> offset_q16 kf \<and> offset_q16 kf \<le> 2147483647"
    using assms(1) in_i32D by (simp add: kalman_valid_def)
  consider "in_i32 d" | "2 ^ 31 \<le> d" | "d < - (2 ^ 31)" unfolding in_i32_def by linarith
  then show "i32 d = d \<and> \<bar>d\<bar> \<le> 2 ^ 31 \<or> 16385 * 65536 \<le> \<bar>d\<bar> \<and> 16385 * 65536 \<le> \<bar>i32 d\<bar> \<and> \<bar>i32 d\<bar> \<le> 2 ^ 31"
  proof cases
    case 1
    then show ?thesis by (auto simp: i32_id in_i32_def)
  next
    case 2
    then have "i32 d = d - 2 ^ 32" using z x by (intro i32_wrapped(1)) (auto simp: d_def)
    then show ?thesis using 2 z x by (auto simp: d_def)
  next
    case 3
    then have "i32 d = d + 2 ^ 32" using z x by (intro i32_wrapped(2)) (auto simp: d_def)
    then show ?thesis using 3 z x by (auto simp: d_def)
  qed
  show "Q16_FROM_TICKS (measured_ticks kf m) = measured_ticks kf m * 65536"
    using assms(2) by (intro q16_from_ticks) (simp add: in_range_def)
qed

lemma estimate_between:
  assumes "0 \<le> g" "g \<le> 2 ^ 30"
  shows "min x z \<le> x + q_round_shift (g * (z - x)) 30 \<and> x + q_round_shift (g * (z - x)) 30 \<le> max x z"
  using convex_step [OF assms, of "z - x"] by (cases "x \<le> z") auto

lemma offset_ok_between:
  "offset_ok x \<Longrightarrow> offset_ok z \<Longrightarrow> min x z \<le> y \<and> y \<le> max x z \<Longrightarrow> offset_ok y"
  by (auto simp: offset_ok_def min_def max_def abs_le_iff split: if_splits)

lemma i32_between: "in_i32 x \<Longrightarrow> in_i32 z \<Longrightarrow> min x z \<le> y \<and> y \<le> max x z \<Longrightarrow> in_i32 y"
  by (auto simp: in_i32_def min_def max_def split: if_splits)

lemma moved_estimate:
  assumes "kalman_valid kf" "in_range kf m" "0 \<le> g" "g \<le> 2 ^ 30"
  defines "x \<equiv> offset_q16 kf" and "z \<equiv> measured_ticks kf m * 65536"
  shows "min x z \<le> x + q_round_shift (g * (z - x)) 30 \<and> x + q_round_shift (g * (z - x)) 30 \<le> max x z"
    and "in_i32 (x + q_round_shift (g * (z - x)) 30)"
proof -
  show b: "min x z \<le> x + q_round_shift (g * (z - x)) 30 \<and> x + q_round_shift (g * (z - x)) 30 \<le> max x z"
    by (rule estimate_between [OF assms(3,4)])
  have "in_i32 x" "offset_ok z"
    using assms by (auto simp: kalman_valid_def offset_ok_def in_range_def abs_mult)
  from i32_between [OF this(1) offset_ok_i32 [OF this(2)] b]
  show "in_i32 (x + q_round_shift (g * (z - x)) 30)" .
qed

lemma kalman_update_eq_exact:
  assumes ok: "kalman_valid kf"
  shows "kalman_update kf m = exact_update kf m"
proof (cases "in_range kf m")
  case False
  then have "measured_ticks kf m > Q16_TICK_LIMIT \<or> measured_ticks kf m < - Q16_TICK_LIMIT"
    by (auto simp: in_range_def q16_consts)
  then show ?thesis
    using False by (simp add: kalman_update_def exact_update_def Let_def flip: measured_ticks_def)
next
  case True
  then have r: "\<not> (measured_ticks kf m > Q16_TICK_LIMIT \<or> measured_ticks kf m < - Q16_TICK_LIMIT)"
    by (auto simp: in_range_def q16_consts)
  note b = innovation_bounds [OF ok True]
  define d where "d = measured_ticks kf m * 65536 - offset_q16 kf"
  define p where "p = predicted_ratio kf"
  have p: "unat p = min (2 ^ 31) (unat (variance_ratio_q30 kf) + unat (process_ratio_q30 kf))"
    unfolding p_def by (rule unat_predicted_ratio [OF ok])
  then have pb: "unat p \<le> 2 ^ 31" by simp
  note g = unat_gain_from_ratio [OF pb]
  have gate: "within_gate kf (i32 d) p \<longleftrightarrow>
      \<not> d ^ 2 > 64 * (uint (measurement_variance_q16 kf) * ((2 ^ 30 + int (unat p)) div 2 ^ 14))"
    using b(1) [folded d_def] within_gate_exact [of "i32 d" p kf] pb
      gate_far [of "i32 d" p "measurement_variance_q16 kf"] gate_far [of d p "measurement_variance_q16 kf"]
    by (auto simp: not_less)
  have fits: "i32 d = d" if "within_gate kf (i32 d) p"
    using b(1) [folded d_def] that within_gate_exact [of "i32 d" p kf] pb
      gate_far [of "i32 d" p "measurement_variance_q16 kf"] by auto
  have gb: "0 \<le> uint (gain_from_ratio p)" "uint (gain_from_ratio p) \<le> 2 ^ 30"
    using g(2) by (simp_all add: uint_nat del: of_nat_unat)
  define y where "y = q_round_shift (uint (gain_from_ratio p) * d) 30"
  have y: "i32 y = y" "i32 (offset_q16 kf + y) = offset_q16 kf + y" if "i32 d = d"
  proof -
    have "in_i32 d" using that i32_range [of d] by simp
    then have "in_i32 y"
      using convex_step [OF gb, of d] by (cases "0 \<le> d") (auto simp: y_def in_i32_def)
    then show "i32 y = y" by (rule i32_id)
    have "in_i32 (offset_q16 kf + y)" unfolding y_def d_def by (rule moved_estimate(2) [OF ok True gb])
    then show "i32 (offset_q16 kf + y) = offset_q16 kf + y" by (rule i32_id)
  qed
  define K where "K = (unat p * 2 ^ 30 + (unat p + 2 ^ 30) div 2) div (unat p + 2 ^ 30)"
  have "unat (gain_from_ratio p) = K" using g(1) by (simp only: K_def)
  then have K: "int K = uint (gain_from_ratio p)" "word_of_nat K = gain_from_ratio p" by auto
  have Kp: "word_of_nat (unat p) = p" by simp
  show ?thesis
  proof (cases "within_gate kf (i32 d) p")
    case gated: True
    show ?thesis
      unfolding exact_update_def Let_def p [symmetric] K_def [symmetric] K Kp
      unfolding kalman_update_def Let_def measured_ticks_def [symmetric] b(2) d_def [symmetric]
        if_not_P [OF r] predicted_ratio_def [unfolded Let_def, symmetric] p_def [symmetric]
        gate [symmetric] fits [OF gated] y_def [symmetric] y [OF fits [OF gated]]
      using True gate gated fits [OF gated] by simp
  next
    case False
    then show ?thesis
      unfolding exact_update_def Let_def p [symmetric] K_def [symmetric] K Kp
      unfolding kalman_update_def Let_def measured_ticks_def [symmetric] b(2) d_def [symmetric]
        if_not_P [OF r] predicted_ratio_def [unfolded Let_def, symmetric] p_def [symmetric]
      using True gate by simp
  qed
qed

section \<open>The invariant over runs\<close>

datatype kalman_event = Measure u32 | Seed int | Reset

fun kalman_step :: "kalman_event \<Rightarrow> KalmanFilter \<Rightarrow> KalmanFilter" where
  "kalman_step (Measure m) kf = snd (kalman_update kf m)"
| "kalman_step (Seed x) kf = kalman_seed kf x"
| "kalman_step Reset kf = kalman_reset kf"

fun kalman_allowed :: "kalman_event \<Rightarrow> bool" where
  "kalman_allowed (Seed x) = offset_ok x"
| "kalman_allowed _ = True"

lemma kalman_acquire_ok: "kalman_ok kf \<Longrightarrow> offset_ok x \<Longrightarrow> kalman_ok (kalman_acquire kf x)"
  by (simp add: kalman_ok_def kalman_acquire_def KALMAN_Q30_ONE_def)

lemma kalman_reset_ok: "kalman_ok kf \<Longrightarrow> kalman_ok (kalman_reset kf)"
  by (simp add: kalman_ok_def kalman_reset_def KALMAN_Q30_ONE_def offset_ok_def)

lemma count_accepted_ok [simp]: "kalman_ok (count_accepted kf) = kalman_ok kf"
  by (simp add: kalman_ok_def count_accepted_def)

lemma kalman_acquire_valid: "kalman_valid kf \<Longrightarrow> in_i32 x \<Longrightarrow> kalman_valid (kalman_acquire kf x)"
  by (simp add: kalman_valid_def kalman_acquire_def KALMAN_Q30_ONE_def)

lemma kalman_reset_valid: "kalman_valid kf \<Longrightarrow> kalman_valid (kalman_reset kf)"
  by (simp add: kalman_valid_def kalman_reset_def KALMAN_Q30_ONE_def in_i32_def)

lemma kalman_reject_valid: "kalman_valid kf \<Longrightarrow> kalman_valid (snd (kalman_reject kf))"
  by (simp add: kalman_valid_def word_less_nat_alt)

lemma count_accepted_valid [simp]: "kalman_valid (count_accepted kf) = kalman_valid kf"
  by (simp add: kalman_valid_def count_accepted_def)

lemma kalman_update_valid:
  assumes ok: "kalman_valid kf"
  shows "kalman_valid (snd (kalman_update kf m))"
proof -
  define p where "p = min (2 ^ 31) (unat (variance_ratio_q30 kf) + unat (process_ratio_q30 kf))"
  define K where "K = (p * 2 ^ 30 + (p + 2 ^ 30) div 2) div (p + 2 ^ 30)"
  define z where "z = measured_ticks kf m * 65536"
  have pb: "p \<le> 2 ^ 31" by (simp add: p_def)
  then have pw: "unat (word_of_nat p :: u32) = p" by (simp add: unat_of_nat)
  have Kb: "K < 2 ^ 30" unfolding K_def by (rule exact_gain [OF pb])
  then have Kw: "unat (word_of_nat K :: u32) = K" by (simp add: unat_of_nat)
  show ?thesis
  proof (cases "in_range kf m")
    case False
    then show ?thesis
      by (simp add: kalman_update_eq_exact [OF ok] exact_update_def Let_def kalman_reject_valid [OF ok])
  next
    case True
    have "in_i32 (offset_q16 kf + q_round_shift (int K * (z - offset_q16 kf)) 30)"
      unfolding z_def using Kb by (intro moved_estimate(2) [OF ok True]) auto
    then have acc: "kalman_valid (kf\<lparr>gain_q30 := word_of_nat K,
        offset_q16 := offset_q16 kf + q_round_shift (int K * (z - offset_q16 kf)) 30,
        variance_ratio_q30 := word_of_nat K, consecutive_rejects := 0\<rparr>)"
      using ok Kw Kb by (simp add: kalman_valid_def)
    have "in_i32 z" using True by (intro offset_ok_i32) (simp add: z_def offset_ok_def in_range_def abs_mult)
    then have acq: "kalman_valid (kalman_acquire kf z)" by (rule kalman_acquire_valid [OF ok])
    have rej: "kalman_valid (kf\<lparr>variance_ratio_q30 := word_of_nat p\<rparr>)"
      using ok pw pb by (simp add: kalman_valid_def)
    show ?thesis
      unfolding kalman_update_eq_exact [OF ok] exact_update_def Let_def
        p_def [symmetric] K_def [symmetric] z_def [symmetric]
      using acc acq rej kalman_reject_valid [OF ok] kalman_reject_valid [OF rej] by simp
  qed
qed

lemma kalman_update_offset:
  assumes "kalman_valid kf" "offset_ok (offset_q16 kf)"
  shows "offset_ok (offset_q16 (snd (kalman_update kf m)))"
proof (cases "in_range kf m")
  case True
  define p where "p = min (2 ^ 31) (unat (variance_ratio_q30 kf) + unat (process_ratio_q30 kf))"
  define K where "K = (p * 2 ^ 30 + (p + 2 ^ 30) div 2) div (p + 2 ^ 30)"
  have Kb: "0 \<le> int K" "int K \<le> 2 ^ 30" using exact_gain [of p] by (simp_all add: K_def p_def)
  have z: "offset_ok (measured_ticks kf m * 65536)" using True by (simp add: offset_ok_def in_range_def abs_mult)
  note y = offset_ok_between [OF assms(2) z moved_estimate(1) [OF assms(1) True Kb]]
  show ?thesis
    using assms(2) z y
    unfolding kalman_update_eq_exact [OF assms(1)] exact_update_def Let_def p_def [symmetric] K_def [symmetric]
    by (simp add: count_accepted_def kalman_acquire_def)
qed (simp add: kalman_update_eq_exact [OF assms(1)] exact_update_def Let_def assms(2))

lemma kalman_update_ok: "kalman_ok kf \<Longrightarrow> kalman_ok (snd (kalman_update kf m))"
  by (simp add: kalman_ok_valid kalman_update_valid kalman_update_offset)

interpretation kalman: stepper kalman_step kalman_allowed kalman_ok
proof
  fix e kf
  assume "kalman_allowed e" "kalman_ok kf"
  then show "kalman_ok (kalman_step e kf)"
    by (cases e) (auto simp: kalman_update_ok kalman_seed_def kalman_acquire_ok kalman_reset_ok)
qed

text \<open>The same for every seed an \<open>int32_t\<close> can be, within the tick limit or not.\<close>

fun kalman_typed :: "kalman_event \<Rightarrow> bool" where
  "kalman_typed (Seed x) = in_i32 x"
| "kalman_typed _ = True"

interpretation kalman_any: stepper kalman_step kalman_typed kalman_valid
proof
  fix e kf
  assume "kalman_typed e" "kalman_valid kf"
  then show "kalman_valid (kalman_step e kf)"
    by (cases e) (auto simp: kalman_update_valid kalman_seed_def kalman_acquire_valid kalman_reset_valid)
qed

lemma kalman_init_ok:
  assumes "fst (kalman_init kf n q r)"
  shows "kalman_ok (snd (kalman_init kf n q r))"
proof -
  have a: "n \<noteq> 0" "r \<noteq> 0" "unat q \<le> unat r" "0 < unat r"
    using assms by (auto simp: kalman_init_def word_le_nat_alt not_less unat_gt_0 split: if_splits)
  define N where "N = push_bit 30 (ucast q :: u64) + ucast (r div 2)"
  have q: "unat q < 2 ^ 32" "unat r < 2 ^ 32" using unat_less_of [of q] unat_less_of [of r] by auto
  have N: "unat N = unat q * 2 ^ 30 + unat r div 2"
    using q by (simp add: N_def push_bit_eq_mult unat_word_ariths width_simps unat_div)
  have "unat q * 2 ^ 30 + unat r div 2 < (2 ^ 30 + 1) * unat r"
    using a(3,4) by simp
  then have d: "(unat q * 2 ^ 30 + unat r div 2) div unat r < 2 ^ 30 + 1"
    by (rule less_mult_imp_div_less)
  have "unat (N div ucast r) = (unat q * 2 ^ 30 + unat r div 2) div unat r"
    by (simp only: unat_div N) (simp add: width_simps)
  then have "unat (ucast (N div ucast r) :: u32) \<le> 2 ^ 30"
    using d by (simp add: unsigned_ucast_eq take_bit_nat_eq_self)
  then show ?thesis
    using a assms unfolding kalman_init_def N_def [symmetric]
    by (auto simp: kalman_ok_def kalman_reset_def offset_ok_def KALMAN_Q30_ONE_def split: if_splits)
qed

section \<open>Properties\<close>

text \<open>
  From a successful \<open>kalman_init\<close>, whatever measurements, resets and seeds within the tick
  limit follow, the estimate stays within 16383 ticks, the gain within 0 to 1, and the state is
  one where every later update is exact.
\<close>

theorem kalman_stays_in_range:
  assumes "fst (kalman_init kf n q r)" and "list_all kalman_allowed es"
  shows "kalman_ok (fold kalman_step es (snd (kalman_init kf n q r)))"
  using kalman.run_invar [OF assms(2) kalman_init_ok [OF assms(1)]] .

definition blank_filter :: KalmanFilter where
  "blank_filter = \<lparr>offset_q16 = 0, variance_ratio_q30 = 0, process_ratio_q30 = 0,
     measurement_variance_q16 = 0, gain_q30 = 0, nominal_period = 0, consecutive_rejects = 0,
     initialized = False, kalman_stats = \<lparr>accepted = 0, rejected = 0, reacquisitions = 0\<rparr>\<rparr>"

lemma blank_init: "fst (kalman_init blank_filter 40000000 64 65536)"
  by (simp add: kalman_init_def)

theorem kalman_stays_in_range_witness:
  "kalman_ok (fold kalman_step [Measure 40000003, Seed (- 65536), Measure 39999990, Reset]
     (snd (kalman_init blank_filter 40000000 64 65536)))"
  by (rule kalman_stays_in_range [OF blank_init]) (simp add: offset_ok_def)

text \<open>
  C9: the update is the filter of the header on unbounded integers. After a successful
  \<open>kalman_init\<close> and any measurements, resets and seeds, a seed being any \<open>int32_t\<close>, the result and
  the new state of an update with any period are those of \<open>exact_update\<close>, which computes without
  bounds: no product, sum or conversion to 32 or 64 bits loses anything on any branch, with one
  exception that makes no difference. After a seed beyond the 16383 ticks the filter itself keeps
  to, which the loop's own \<open>seed_frequency\<close> can give, the innovation may not fit an \<open>int32_t\<close>; wrapped
  (as the model has it; in C this overflow is undefined) it is still at least 16385 ticks, as the
  exact one is, and no variance makes the gate as wide as that, so both are rejected alike.
\<close>

theorem kalman_update_exact:
  assumes "fst (kalman_init k n q r)" and "list_all kalman_typed es"
    and "kf = fold kalman_step es (snd (kalman_init k n q r))"
  shows "kalman_update kf m = exact_update kf m"
proof -
  have "kalman_valid (snd (kalman_init k n q r))" using kalman_init_ok [OF assms(1)] by (simp add: kalman_ok_valid)
  from kalman_any.run_invar [OF assms(2) this] show ?thesis
    unfolding assms(3) by (rule kalman_update_eq_exact)
qed

theorem kalman_update_exact_witness:
  "kalman_update (fold kalman_step [Measure 40000003, Measure 39999990, Seed (- (2 ^ 31))]
       (snd (kalman_init blank_filter 40000000 64 65536))) 40016383
     = exact_update (fold kalman_step [Measure 40000003, Measure 39999990, Seed (- (2 ^ 31))]
       (snd (kalman_init blank_filter 40000000 64 65536))) 40016383"
  by (rule kalman_update_exact [OF blank_init _ refl]) (simp add: in_i32_def)

text \<open>
  An update never moves the estimate away from the evidence. An accepted period leaves it
  between the old estimate and the measurement, an acquiring one puts it on the measurement, and
  a rejected one, out of range or beyond the gate, leaves estimate and gain alone.
\<close>

theorem kalman_update_moves:
  assumes ok: "kalman_ok kf"
  shows "case kalman_update kf m of (res, kf') \<Rightarrow>
    let x = offset_q16 kf; z = measured_ticks kf m * 65536; x' = offset_q16 kf' in
    (case res of
       KALMAN_ACCEPTED \<Rightarrow> initialized kf \<and> in_range kf m \<and> min x z \<le> x' \<and> x' \<le> max x z
     | KALMAN_ACQUIRED \<Rightarrow> \<not> initialized kf \<and> in_range kf m \<and> initialized kf' \<and> x' = z
     | _ \<Rightarrow> x' = x \<and> gain_q30 kf' = gain_q30 kf)"
proof -
  have valid: "kalman_valid kf" using ok by (simp add: kalman_ok_valid)
  define p where "p = min (2 ^ 31) (unat (variance_ratio_q30 kf) + unat (process_ratio_q30 kf))"
  define K where "K = (p * 2 ^ 30 + (p + 2 ^ 30) div 2) div (p + 2 ^ 30)"
  have Kb: "0 \<le> int K" "int K \<le> 2 ^ 30" using exact_gain [of p] by (simp_all add: K_def p_def)
  have rej: "case kalman_reject k of (res, kf') \<Rightarrow>
      res \<in> {KALMAN_REJECTED, KALMAN_REACQUIRING} \<and> offset_q16 kf' = offset_q16 k \<and> gain_q30 kf' = gain_q30 k" for k
    using kalman_reject_result [of k] kalman_reject_simps(1,4) [of k]
    by (auto simp del: kalman_reject_simps split: prod.splits)
  show ?thesis
    unfolding kalman_update_eq_exact [OF valid] exact_update_def Let_def
      p_def [symmetric] K_def [symmetric]
    using moved_estimate(1) [OF valid _ Kb, of m]
      rej [of kf] rej [of "kf\<lparr>variance_ratio_q30 := word_of_nat p\<rparr>"]
    by (auto simp: count_accepted_def kalman_acquire_def split: prod.splits KalmanResult.splits)
qed

theorem kalman_update_moves_witness:
  "initialized (snd (kalman_update (snd (kalman_init blank_filter 40000000 64 65536)) 40000003))"
proof -
  let ?kf = "snd (kalman_init blank_filter 40000000 64 65536)"
  have "fst (kalman_update ?kf 40000003) = KALMAN_ACQUIRED" by code_simp
  then show ?thesis
    using kalman_update_moves [OF kalman_init_ok [OF blank_init], of 40000003]
    by (auto simp: Let_def split: prod.splits)
qed

lemma kalman_reject_result_eq:
  "fst (kalman_reject kf) = (if consecutive_rejects kf + 1 < 4 then KALMAN_REJECTED else KALMAN_REACQUIRING)"
  by (auto simp: kalman_reject_def Let_def KALMAN_REJECT_LIMIT_def)

lemma rejected_update:
  assumes "kalman_ok kf" "fst (kalman_update kf m) \<in> {KALMAN_REJECTED, KALMAN_REACQUIRING}"
  shows "consecutive_rejects (snd (kalman_update kf m)) = consecutive_rejects kf + 1"
    and "initialized (snd (kalman_update kf m)) \<longleftrightarrow> initialized kf \<and> consecutive_rejects kf + 1 < 4"
    and "offset_q16 (snd (kalman_update kf m)) = offset_q16 kf"
    and "nominal_period (snd (kalman_update kf m)) = nominal_period kf"
    and "fst (kalman_update kf m) = (if consecutive_rejects kf + 1 < 4 then KALMAN_REJECTED else KALMAN_REACQUIRING)"
  using assms(2) unfolding kalman_update_eq_exact [OF kalman_ok_valid [THEN iffD1, THEN conjunct1, OF assms(1)]] exact_update_def Let_def
  by (auto simp: kalman_reject_result_eq split: if_splits)

fun kalman_run :: "KalmanFilter \<Rightarrow> u32 list \<Rightarrow> KalmanResult list \<times> KalmanFilter" where
  "kalman_run kf [] = ([], kf)"
| "kalman_run kf (m # ms) =
     (let (r, kf1) = kalman_update kf m; (rs, kf2) = kalman_run kf1 ms in (r # rs, kf2))"

lemma kalman_run_rejected:
  assumes "kalman_ok kf" "initialized kf" "kalman_run kf ms = (rs, kf')"
    "set rs \<subseteq> {KALMAN_REJECTED, KALMAN_REACQUIRING}"
    "length ms = 4 - unat (consecutive_rejects kf)"
  shows "rs = replicate (length ms - 1) KALMAN_REJECTED @ [KALMAN_REACQUIRING]
    \<and> offset_q16 kf' = offset_q16 kf \<and> nominal_period kf' = nominal_period kf
    \<and> kalman_ok kf' \<and> \<not> initialized kf'"
  using assms
proof (induction ms arbitrary: kf rs)
  case Nil
  then show ?case by (simp add: kalman_ok_def)
next
  case (Cons m ms)
  define kf1 where "kf1 = snd (kalman_update kf m)"
  obtain rs1 where run: "kalman_run kf1 ms = (rs1, kf')" "rs = fst (kalman_update kf m) # rs1"
    using Cons.prems(3) by (auto simp: kf1_def split: prod.splits)
  have c: "unat (consecutive_rejects kf) < 4" using Cons.prems(1,2) by (simp add: kalman_ok_def)
  have "fst (kalman_update kf m) \<in> {KALMAN_REJECTED, KALMAN_REACQUIRING}"
    using Cons.prems(4) run(2) by simp
  note r = rejected_update [OF Cons.prems(1) this, folded kf1_def]
  have ok1: "kalman_ok kf1" unfolding kf1_def by (rule kalman_update_ok [OF Cons.prems(1)])
  have c1: "unat (consecutive_rejects kf + 1) = unat (consecutive_rejects kf) + 1"
    using c by (simp add: unat_word_ariths)
  show ?case
  proof (cases "unat (consecutive_rejects kf) = 3")
    case True
    then have "consecutive_rejects kf = 3" by (simp add: word_unat_eq_iff)
    moreover from this have "ms = []" using Cons.prems(5) by simp
    ultimately show ?thesis using r run ok1 by simp
  next
    case False
    then have lt: "consecutive_rejects kf + 1 < 4" using c c1 by (simp add: word_less_nat_alt)
    have len: "length ms = 4 - unat (consecutive_rejects kf1)" using Cons.prems(5) r(1) c1 by simp
    have "ms \<noteq> []" using Cons.prems(5) c False by auto
    then have "replicate (length ms) KALMAN_REJECTED = KALMAN_REJECTED # replicate (length ms - 1) KALMAN_REJECTED"
      by (cases ms) auto
    then show ?thesis
      using Cons.IH [OF ok1 _ run(1) _ len] r run(2) lt Cons.prems(2,4) by auto
  qed
qed

text \<open>
  A lasting change of the reference is followed. When the measurements of a tracking filter
  are all rejected, the filter gives up exactly at the fourth in a row, still at its old
  estimate, and then adopts the next measurement within the tick limit as it is.
\<close>

theorem kalman_reacquires:
  assumes "kalman_ok kf" "initialized kf" "kalman_run kf ms = (rs, kf')"
    "set rs \<subseteq> {KALMAN_REJECTED, KALMAN_REACQUIRING}"
    "length ms = 4 - unat (consecutive_rejects kf)" "in_range kf' m"
  shows "rs = replicate (length ms - 1) KALMAN_REJECTED @ [KALMAN_REACQUIRING]
    \<and> offset_q16 kf' = offset_q16 kf
    \<and> kalman_update kf' m
      = (KALMAN_ACQUIRED, count_accepted (kalman_acquire kf' (measured_ticks kf m * 65536)))"
proof -
  note r = kalman_run_rejected [OF assms(1-5)]
  then have ok: "kalman_ok kf'" "\<not> initialized kf'" "nominal_period kf' = nominal_period kf" by auto
  then have "measured_ticks kf m = measured_ticks kf' m" by (simp add: measured_ticks_def)
  then show ?thesis
    using r ok(2) assms(6) unfolding kalman_update_eq_exact [OF kalman_ok_valid [THEN iffD1, THEN conjunct1, OF ok(1)]] exact_update_def Let_def by simp
qed

definition tracking_filter :: KalmanFilter where
  "tracking_filter = kalman_acquire (snd (kalman_init blank_filter 40000000 64 65536)) 0"

lemma tracking_filter_ok: "kalman_ok tracking_filter"
  unfolding tracking_filter_def
  by (rule kalman_acquire_ok [OF kalman_init_ok [OF blank_init]]) (simp add: offset_ok_def)

theorem kalman_reacquires_witness:
  "fst (kalman_run tracking_filter [40009000, 40009000, 40009000, 40009000])
    = [KALMAN_REJECTED, KALMAN_REJECTED, KALMAN_REJECTED, KALMAN_REACQUIRING]"
proof -
  define kf' where "kf' = snd (kalman_run tracking_filter [40009000, 40009000, 40009000, 40009000])"
  have "kalman_run tracking_filter [40009000, 40009000, 40009000, 40009000]
    = ([KALMAN_REJECTED, KALMAN_REJECTED, KALMAN_REJECTED, KALMAN_REACQUIRING], kf')"
    unfolding kf'_def by code_simp
  moreover have "in_range kf' 40009000" unfolding kf'_def by code_simp
  moreover have "initialized tracking_filter" by code_simp
  moreover have "consecutive_rejects tracking_filter = 0" by code_simp
  ultimately show ?thesis
    using kalman_reacquires [OF tracking_filter_ok] by auto
qed

lemma kalman_period_nearest:
  assumes "kalman_ok kf" "16384 \<le> uint (nominal_period kf)" "uint (nominal_period kf) < 2 ^ 32 - 16384"
  shows "\<bar>uint (kalman_period kf) * 65536 - (uint (nominal_period kf) * 65536 + offset_q16 kf)\<bar> \<le> 32768"
proof -
  define x where "x = offset_q16 kf"
  define n where "n = uint (nominal_period kf)"
  have x: "\<bar>x\<bar> \<le> 16383 * 65536" using assms(1) by (simp add: x_def kalman_ok_def offset_ok_def)
  then have dom: "\<bar>x\<bar> < 2 ^ 31" by simp
  have r: "\<bar>q16_round_to_ticks x\<bar> \<le> 16383"
    using ticks.rnd_bound [OF dom, of 16383] x by (simp add: q16_consts)
  have "uint (kalman_period kf) = n + q16_round_to_ticks x"
    unfolding kalman_period_def n_def x_def [symmetric]
    using r assms(2,3) by (intro uint_plus_of_int) auto
  moreover have "\<bar>q16_round_to_ticks x * 65536 - x\<bar> \<le> 32768"
    using ticks.nearest [OF dom] by (simp add: q16_consts)
  ultimately show ?thesis by (simp add: algebra_simps flip: n_def x_def)
qed

lemma milli_round:
  fixes F :: int
  assumes "0 \<le> F" "F < 65536"
  shows "0 \<le> (F * 1000 + 32768) div 65536" "(F * 1000 + 32768) div 65536 \<le> 1000"
    "\<bar>(F * 1000 + 32768) div 65536 * 65536 - F * 1000\<bar> \<le> 32768"
  using assms by auto

text \<open>
  The reported period is the estimate to the nearest tick and the reported frequency the
  estimate to the nearest millihertz, with the milli part below 1000, for any nominal period
  that the tick limit cannot take out of 32 bits.
\<close>

theorem kalman_reports_nearest:
  assumes "kalman_ok kf" "16384 \<le> uint (nominal_period kf)" "uint (nominal_period kf) < 2 ^ 32 - 16384"
  shows "\<bar>uint (kalman_period kf) * 65536 - (uint (nominal_period kf) * 65536 + offset_q16 kf)\<bar> \<le> 32768
    \<and> (case kalman_hz kf of (hz, milli) \<Rightarrow> uint milli < 1000 \<and>
       \<bar>(uint hz * 1000 + uint milli) * 65536 - (uint (nominal_period kf) * 65536 + offset_q16 kf) * 1000\<bar> \<le> 32768)"
proof -
  define x where "x = offset_q16 kf"
  define n where "n = uint (nominal_period kf)"
  have x: "\<bar>x\<bar> \<le> 16383 * 65536" using assms(1) by (simp add: x_def kalman_ok_def offset_ok_def)
  have P: "\<bar>uint (kalman_period kf) * 65536 - (n * 65536 + x)\<bar> \<le> 32768"
    using kalman_period_nearest [OF assms] by (simp add: n_def x_def)
  obtain w f where wf: "q16_split x = (w, f)" by (cases "q16_split x")
  have "in_i32 x" using x by (intro in_i32I) auto
  from q16_split_exact [OF this] have w: "w = x div 65536" and f: "uint f = x mod 65536"
    by (simp_all add: wf)
  have wb: "- 16383 \<le> w" "w \<le> 16383"
    using x zdiv_mono1 [of "- 16383 * 65536" x 65536] zdiv_mono1 [of x "16383 * 65536" 65536]
    by (auto simp: w)
  have xs: "x = w * 65536 + uint f" by (simp add: w f)
  have fb: "0 \<le> uint f" "uint f < 65536" by (simp_all add: f)
  define M where "M = (uint f * 1000 + 32768) div 65536"
  define milli where "milli = drop_bit 16 (ucast f * 1000 + word_of_int Q16_HALF :: u32)"
  have uf: "uint (ucast f :: u32) = uint f" by (rule uint_ucast_up) simp
  have "uint (ucast f * 1000 + word_of_int Q16_HALF :: u32) = uint f * 1000 + 32768"
    using fb by (simp add: uint_plus_small uint_mult_small uf q16_consts)
  then have milli: "uint milli = M"
    by (simp add: milli_def M_def drop_bit_eq_div uint_div)
  have M: "0 \<le> M" "M \<le> 1000" "\<bar>M * 65536 - uint f * 1000\<bar> \<le> 32768"
    using milli_round [OF fb] unfolding M_def by auto
  have ge: "milli \<ge> 1000 \<longleftrightarrow> M = 1000" using M by (auto simp: word_le_def milli)
  define H where "H = nominal_period kf + word_of_int w"
  define H1 where "H1 = H + 1"
  have u0: "uint H = n + w"
    unfolding n_def H_def using wb assms(2,3) by (intro uint_plus_of_int) auto
  have u1: "uint H1 = n + w + 1"
    unfolding H1_def using wb assms(2,3) u0 by (subst uint_plus_small) (auto simp: n_def)
  have hz: "kalman_hz kf = (if M = 1000 then (H1, ucast (milli - 1000)) else (H, ucast milli))"
    unfolding kalman_hz_def Let_def x_def [symmetric] wf prod.case milli_def [symmetric] ge
      H_def [symmetric] H1_def [symmetric] by (rule refl)
  have "case kalman_hz kf of (hz, milli) \<Rightarrow> uint milli < 1000 \<and>
     \<bar>(uint hz * 1000 + uint milli) * 65536 - (n * 65536 + x) * 1000\<bar> \<le> 32768"
  proof (cases "M = 1000")
    case True
    then have "milli = 1000" using milli by (simp add: word_uint_eq_iff)
    then show ?thesis using True M(3) by (simp add: hz u1 xs algebra_simps)
  next
    case False
    have "uint (ucast milli :: u16) = M"
      using M False by (simp add: unsigned_ucast_eq milli take_bit_eq_mod)
    then show ?thesis using False M by (simp add: hz u0 xs algebra_simps)
  qed
  then show ?thesis using P by (simp add: n_def x_def)
qed

theorem kalman_reports_nearest_witness:
  "\<bar>uint (kalman_period tracking_filter) * 65536
     - (uint (nominal_period tracking_filter) * 65536 + offset_q16 tracking_filter)\<bar> \<le> 32768"
proof -
  have "nominal_period tracking_filter = 40000000" by code_simp
  then show ?thesis using kalman_reports_nearest [OF tracking_filter_ok] by simp
qed

end
