(* ===== verification/Servo.thy ===== *)
theory Servo
  imports Fixed_Point
begin

text \<open>
  The phase servo and the period synthesis (\<open>dspic_src/timing/servo.c\<close>): the phase error and
  its one-epoch prediction, the measurement gate, the PI loop with conditional integration and
  the fractional accumulator that dithers the timer period. \<open>servo_ok\<close> and \<open>gate_ok\<close> are the
  invariants; under them no \<open>int32_t\<close> sum wraps.
\<close>

section \<open>The code: phase error\<close>

definition servo_phase_error_q16 :: "int \<Rightarrow> int \<Rightarrow> int" where
  "servo_phase_error_q16 measured_ticks calibration_q16 =
     (let clamped = q16_clamp measured_ticks Q16_TICK_LIMIT
      in i32 (Q16_FROM_TICKS clamped - calibration_q16))"

definition servo_phase_predict_q16 :: "int \<Rightarrow> int \<Rightarrow> int \<Rightarrow> int" where
  "servo_phase_predict_q16 phase_error_q16 running_offset_ticks kalman_offset_q16 =
     (let limit_q16 = Q16_FROM_TICKS Q16_TICK_LIMIT;
          predicted_q16 = phase_error_q16 + Q16_FROM_TICKS (q16_clamp running_offset_ticks Q16_TICK_LIMIT)
                          - kalman_offset_q16
      in i32 (if predicted_q16 > limit_q16 then limit_q16
              else if predicted_q16 < - limit_q16 then - limit_q16 else predicted_q16))"

section \<open>The code: measurement gate\<close>

datatype EpochPhaseGateResult = EPOCH_PHASE_ACCEPTED | EPOCH_PHASE_REJECTED | EPOCH_PHASE_LOST

record EpochPhaseGate =
  limit_q16 :: int
  reject_limit :: u8
  gate_consecutive_rejects :: u8
  gate_rejected :: u32

definition magnitude32 :: "int \<Rightarrow> int" where
  "magnitude32 ticks = (if ticks < 0 then i32 (- ticks) else ticks)"

definition servo_gate_set_limits :: "EpochPhaseGate \<Rightarrow> int \<Rightarrow> u8 \<Rightarrow> EpochPhaseGate" where
  "servo_gate_set_limits gate limit_ticks rejects =
     gate\<lparr>limit_q16 := Q16_FROM_TICKS (q16_clamp (magnitude32 limit_ticks) Q16_TICK_LIMIT),
          reject_limit := (if rejects = 0 then 1 else rejects)\<rparr>"

definition servo_gate_reset :: "EpochPhaseGate \<Rightarrow> EpochPhaseGate" where
  "servo_gate_reset gate = gate\<lparr>gate_consecutive_rejects := 0\<rparr>"

definition servo_gate_init :: "EpochPhaseGate \<Rightarrow> int \<Rightarrow> u8 \<Rightarrow> EpochPhaseGate" where
  "servo_gate_init gate limit_ticks rejects =
     servo_gate_reset (servo_gate_set_limits (gate\<lparr>gate_rejected := 0\<rparr>) limit_ticks rejects)"

definition servo_gate_check :: "int \<Rightarrow> EpochPhaseGate \<Rightarrow> EpochPhaseGateResult \<times> EpochPhaseGate" where
  "servo_gate_check predicted_phase_q16 gate =
     (if predicted_phase_q16 \<le> limit_q16 gate \<and> predicted_phase_q16 \<ge> - limit_q16 gate
      then (EPOCH_PHASE_ACCEPTED, gate\<lparr>gate_consecutive_rejects := 0\<rparr>)
      else let g = gate\<lparr>gate_rejected := gate_rejected gate + 1,
                        gate_consecutive_rejects := gate_consecutive_rejects gate + 1\<rparr>
           in if gate_consecutive_rejects g \<ge> reject_limit g
              then (EPOCH_PHASE_LOST, g\<lparr>gate_consecutive_rejects := 0\<rparr>)
              else (EPOCH_PHASE_REJECTED, g))"

section \<open>The code: PI loop\<close>

record EpochPiServo =
  kp_q16 :: int
  ki_q16 :: int
  integral_limit_q16 :: int
  correction_limit_q16 :: int
  integral_q16 :: int
  proportional_q16 :: int
  correction_q16 :: int
  pi_enabled :: bool
  pi_holding :: bool

definition servo_pi_set_gains :: "EpochPiServo \<Rightarrow> int \<Rightarrow> int \<Rightarrow> int \<Rightarrow> int \<Rightarrow> EpochPiServo" where
  "servo_pi_set_gains servo kp ki integral_limit_ticks correction_limit_ticks =
     (let s = servo\<lparr>kp_q16 := (if kp < 0 then 0 else q16_clamp kp Q16_ONE),
                    ki_q16 := (if ki < 0 then 0 else q16_clamp ki Q16_ONE),
                    integral_limit_q16 :=
                      Q16_FROM_TICKS (q16_clamp (magnitude32 integral_limit_ticks) Q16_TICK_LIMIT),
                    correction_limit_q16 :=
                      Q16_FROM_TICKS (q16_clamp (magnitude32 correction_limit_ticks) Q16_TICK_LIMIT)\<rparr>
      in s\<lparr>integral_q16 := q16_clamp (integral_q16 s) (integral_limit_q16 s)\<rparr>)"

definition servo_pi_hold :: "EpochPiServo \<Rightarrow> bool \<Rightarrow> EpochPiServo" where
  "servo_pi_hold servo on = servo\<lparr>pi_holding := on\<rparr>"

definition servo_pi_enable :: "EpochPiServo \<Rightarrow> bool \<Rightarrow> EpochPiServo" where
  "servo_pi_enable servo on = servo\<lparr>pi_enabled := on\<rparr>"

definition servo_pi_reset_phase :: "EpochPiServo \<Rightarrow> EpochPiServo" where
  "servo_pi_reset_phase servo = servo\<lparr>proportional_q16 := 0, correction_q16 := integral_q16 servo\<rparr>"

definition servo_pi_reset :: "EpochPiServo \<Rightarrow> EpochPiServo" where
  "servo_pi_reset servo = servo_pi_reset_phase (servo\<lparr>integral_q16 := 0\<rparr>)"

definition servo_pi_init :: "EpochPiServo \<Rightarrow> int \<Rightarrow> int \<Rightarrow> int \<Rightarrow> int \<Rightarrow> EpochPiServo" where
  "servo_pi_init servo kp ki integral_limit_ticks correction_limit_ticks =
     (let s = servo_pi_set_gains (servo\<lparr>integral_q16 := 0\<rparr>) kp ki integral_limit_ticks correction_limit_ticks
      in servo_pi_reset (s\<lparr>pi_enabled := False, pi_holding := False\<rparr>))"

definition servo_pi_preload :: "EpochPiServo \<Rightarrow> int \<Rightarrow> EpochPiServo" where
  "servo_pi_preload servo x = servo\<lparr>integral_q16 := q16_clamp x (integral_limit_q16 servo)\<rparr>"

definition servo_pi_update :: "EpochPiServo \<Rightarrow> int \<Rightarrow> int \<times> EpochPiServo" where
  "servo_pi_update servo phase_error_q16 =
     (if \<not> pi_enabled servo then (0, servo)
      else let proportional = q16_multiply (kp_q16 servo) phase_error_q16;
               integral_step = q16_multiply (ki_q16 servo) phase_error_q16;
               candidate_integral =
                 q16_clamp (i32 (integral_q16 servo + integral_step)) (integral_limit_q16 servo);
               candidate_correction = i32 (proportional + candidate_integral);
               s = (if \<not> pi_holding servo \<and>
                       \<not> (candidate_correction > correction_limit_q16 servo \<and> integral_step > 0 \<or>
                          candidate_correction < - correction_limit_q16 servo \<and> integral_step < 0)
                    then servo\<lparr>integral_q16 := candidate_integral\<rparr> else servo);
               s' = s\<lparr>proportional_q16 := proportional,
                      correction_q16 :=
                        q16_clamp (i32 (proportional + integral_q16 s)) (correction_limit_q16 s)\<rparr>
           in (correction_q16 s', s'))"

definition servo_offset :: "EpochPiServo \<Rightarrow> int \<Rightarrow> int \<Rightarrow> int \<times> EpochPiServo" where
  "servo_offset servo kalman_offset_q16 phase_error_q16 =
     (let (c, s) = servo_pi_update servo phase_error_q16 in (i32 (kalman_offset_q16 - c), s))"

definition servo_holdover_offset :: "EpochPiServo \<Rightarrow> int \<Rightarrow> int" where
  "servo_holdover_offset servo kalman_offset_q16 =
     (if \<not> pi_enabled servo then kalman_offset_q16
      else i32 (kalman_offset_q16 - integral_q16 servo))"

section \<open>The code: fractional periods\<close>

record EpochFractionalAccumulator =
  accumulator_q16 :: u16

definition servo_fraction_init :: "EpochFractionalAccumulator \<Rightarrow> EpochFractionalAccumulator" where
  "servo_fraction_init acc = acc\<lparr>accumulator_q16 := 0\<rparr>"

definition servo_fraction_reset :: "EpochFractionalAccumulator \<Rightarrow> EpochFractionalAccumulator" where
  "servo_fraction_reset acc = servo_fraction_init acc"

definition servo_fraction_next ::
  "EpochFractionalAccumulator \<Rightarrow> u32 \<Rightarrow> int \<Rightarrow> u32 \<times> EpochFractionalAccumulator" where
  "servo_fraction_next acc nominal offset =
     (let (whole_offset, fraction) = q16_split offset;
          period = nominal + word_of_int whole_offset;
          owed = (ucast (accumulator_q16 acc) :: u32) + ucast fraction;
          (owed, period) = (if owed \<ge> word_of_int Q16_ONE then (owed - word_of_int Q16_ONE, period + 1)
                            else (owed, period))
      in (if period \<noteq> 0 then period else 1, acc\<lparr>accumulator_q16 := ucast owed\<rparr>))"

section \<open>Fractional periods add up\<close>

lemma fraction_step:
  assumes o: "in_i32 x" and n: "1 \<le> uint nominal + x div 65536" "uint nominal + x div 65536 < 2 ^ 32 - 1"
    and r: "servo_fraction_next acc nominal x = (period, acc')"
  shows "uint period * 65536 + uint (accumulator_q16 acc')
     = uint nominal * 65536 + x + uint (accumulator_q16 acc)"
    and "uint period - (uint nominal + x div 65536) \<in> {0, 1}"
proof -
  obtain w f where wf: "q16_split x = (w, f)" by (cases "q16_split x")
  from q16_split_exact [OF o] have w: "w = x div 65536" and f: "uint f = x mod 65536" by (simp_all add: wf)
  define A where "A = (ucast (accumulator_q16 acc) :: u32) + ucast f"
  have ub: "uint (accumulator_q16 acc) < 65536" "uint f < 65536"
    using uint_lt2p [of "accumulator_q16 acc"] uint_lt2p [of f] by auto
  have A: "uint A = uint (accumulator_q16 acc) + uint f"
    using ub by (simp add: A_def uint_plus_small uint_ucast_up)
  define P where "P = nominal + word_of_int w"
  have P: "uint P = uint nominal + w"
    unfolding P_def w using n by (intro uint_plus_of_int) auto
  then have P1: "uint (P + 1) = uint nominal + w + 1"
    using n by (subst uint_plus_small) (auto simp: w)
  have x: "x = w * 65536 + uint f" by (simp add: w f)
  have ge: "A \<ge> word_of_int Q16_ONE \<longleftrightarrow> 65536 \<le> uint A" by (simp add: word_le_def q16_consts)
  have nz: "P \<noteq> 0" "P + 1 \<noteq> 0" using P P1 n by (auto simp: w)
  have res: "period = (if 65536 \<le> uint A then P + 1 else P)"
    "accumulator_q16 acc' = ucast (if 65536 \<le> uint A then A - word_of_int Q16_ONE else A)"
    using r nz unfolding servo_fraction_next_def Let_def wf prod.case A_def [symmetric] P_def [symmetric] ge
    by (auto split: if_splits)
  have "uint (A - word_of_int Q16_ONE) = uint A - 65536" if "65536 \<le> uint A"
    using that by (subst uint_minus_small) (auto simp: q16_consts)
  moreover have "uint A < 2 * 65536" using ub A by simp
  ultimately have a: "uint (accumulator_q16 acc') = (if 65536 \<le> uint A then uint A - 65536 else uint A)"
    by (auto simp: res(2) unsigned_ucast_eq take_bit_eq_mod)
  show "uint period * 65536 + uint (accumulator_q16 acc')
     = uint nominal * 65536 + x + uint (accumulator_q16 acc)"
    using A by (simp add: a res(1) P P1 x)
  show "uint period - (uint nominal + x div 65536) \<in> {0, 1}"
    by (simp add: res(1) P P1 flip: w)
qed

fun fraction_run ::
  "EpochFractionalAccumulator \<Rightarrow> u32 \<Rightarrow> int list \<Rightarrow> u32 list \<times> EpochFractionalAccumulator" where
  "fraction_run acc nominal [] = ([], acc)"
| "fraction_run acc nominal (x # xs) =
     (let (period, acc1) = servo_fraction_next acc nominal x;
          (periods, acc2) = fraction_run acc1 nominal xs in (period # periods, acc2))"

lemma fraction_run_sum:
  assumes "\<forall>x\<in>set xs. in_i32 x \<and> 1 \<le> uint nominal + x div 65536 \<and> uint nominal + x div 65536 < 2 ^ 32 - 1"
    and "fraction_run acc nominal xs = (periods, acc')"
  shows "(\<Sum>p\<leftarrow>periods. uint p) * 65536 + uint (accumulator_q16 acc')
    = (\<Sum>x\<leftarrow>xs. uint nominal * 65536 + x) + uint (accumulator_q16 acc)"
  using assms
proof (induction xs arbitrary: acc periods)
  case (Cons x xs)
  obtain p acc1 where 1: "servo_fraction_next acc nominal x = (p, acc1)" by fastforce
  obtain ps where 2: "fraction_run acc1 nominal xs = (ps, acc')" "periods = p # ps"
    using Cons.prems(2) by (auto simp: 1 split: prod.splits)
  have "(\<Sum>p\<leftarrow>ps. uint p) * 65536 + uint (accumulator_q16 acc')
      = (\<Sum>x\<leftarrow>xs. uint nominal * 65536 + x) + uint (accumulator_q16 acc1)"
    using Cons.prems(1) by (intro Cons.IH [OF _ 2(1)]) auto
  moreover have "uint p * 65536 + uint (accumulator_q16 acc1)
      = uint nominal * 65536 + x + uint (accumulator_q16 acc)"
    using Cons.prems(1) by (intro fraction_step(1) [OF _ _ _ 1]) auto
  ultimately show ?case by (simp add: 2(2) algebra_simps)
qed simp

section \<open>The PI loop stays in range\<close>

definition q16_limit :: int where "q16_limit = 16383 * 65536"

definition servo_ok :: "EpochPiServo \<Rightarrow> bool" where
  "servo_ok s \<longleftrightarrow>
     0 \<le> kp_q16 s \<and> kp_q16 s \<le> 65536 \<and> 0 \<le> ki_q16 s \<and> ki_q16 s \<le> 65536 \<and>
     0 \<le> integral_limit_q16 s \<and> integral_limit_q16 s \<le> q16_limit \<and>
     0 \<le> correction_limit_q16 s \<and> correction_limit_q16 s \<le> q16_limit \<and>
     \<bar>integral_q16 s\<bar> \<le> integral_limit_q16 s \<and> \<bar>correction_q16 s\<bar> \<le> q16_limit"

definition ticks_ok :: "int \<Rightarrow> bool" where "ticks_ok t \<longleftrightarrow> \<bar>t\<bar> < 2 ^ 31"

definition phase_ok :: "int \<Rightarrow> bool" where "phase_ok e \<longleftrightarrow> \<bar>e\<bar> \<le> 2 ^ 30"

lemma tick_limit_bounds:
  assumes "ticks_ok t"
  shows "0 \<le> Q16_FROM_TICKS (q16_clamp (magnitude32 t) Q16_TICK_LIMIT)"
    "Q16_FROM_TICKS (q16_clamp (magnitude32 t) Q16_TICK_LIMIT) = min \<bar>t\<bar> 16383 * 65536"
proof -
  have "magnitude32 t = \<bar>t\<bar>" using assms by (simp add: magnitude32_def ticks_ok_def i32_abs_id)
  then have c: "q16_clamp (magnitude32 t) Q16_TICK_LIMIT = min \<bar>t\<bar> 16383"
    by (auto simp: q16_clamp_def q16_consts)
  then show "Q16_FROM_TICKS (q16_clamp (magnitude32 t) Q16_TICK_LIMIT) = min \<bar>t\<bar> 16383 * 65536"
    by (simp add: q16_from_ticks)
  then show "0 \<le> Q16_FROM_TICKS (q16_clamp (magnitude32 t) Q16_TICK_LIMIT)" by simp
qed

lemma gain_range: "0 \<le> (if k < 0 then 0 else q16_clamp k Q16_ONE)"
  "(if k < 0 then 0 else q16_clamp k Q16_ONE) \<le> 65536"
  by (auto simp: q16_clamp_def q16_consts)

lemma tick_limit_range:
  "ticks_ok t \<Longrightarrow> Q16_FROM_TICKS (q16_clamp (magnitude32 t) Q16_TICK_LIMIT) \<le> q16_limit"
  by (simp add: tick_limit_bounds(2) q16_limit_def)

lemma set_gains_ok:
  assumes "ticks_ok il" "ticks_ok cl" "\<bar>correction_q16 s\<bar> \<le> q16_limit"
  shows "servo_ok (servo_pi_set_gains s kp ki il cl)"
  unfolding servo_pi_set_gains_def Let_def servo_ok_def
  using tick_limit_bounds(1) [OF assms(1)] tick_limit_bounds(1) [OF assms(2)] assms
    gain_range [of kp] gain_range [of ki]
  by (simp add: tick_limit_range q16_clamp_bound)

text \<open>The update on unbounded integers.\<close>

definition exact_pi_update :: "EpochPiServo \<Rightarrow> int \<Rightarrow> int \<times> EpochPiServo" where
  "exact_pi_update s e =
     (if \<not> pi_enabled s then (0, s)
      else let P = q16_multiply (kp_q16 s) e; D = q16_multiply (ki_q16 s) e;
               I = q16_clamp (integral_q16 s + D) (integral_limit_q16 s);
               saturating = (P + I > correction_limit_q16 s \<and> D > 0
                             \<or> P + I < - correction_limit_q16 s \<and> D < 0);
               I' = (if pi_holding s \<or> saturating then integral_q16 s else I);
               C = q16_clamp (P + I') (correction_limit_q16 s)
           in (C, s\<lparr>integral_q16 := I', proportional_q16 := P, correction_q16 := C\<rparr>))"

lemma pi_terms:
  assumes ok: "servo_ok s" and e: "phase_ok e"
  shows "\<bar>q16_multiply (kp_q16 s) e\<bar> \<le> 2 ^ 30" "\<bar>q16_multiply (ki_q16 s) e\<bar> \<le> 2 ^ 30"
  using assms by (auto simp: servo_ok_def phase_ok_def intro!: q16_multiply_bound)

lemma pi_update_exact:
  assumes ok: "servo_ok s" and e: "phase_ok e"
  shows "servo_pi_update s e = exact_pi_update s e"
proof -
  define P where "P = q16_multiply (kp_q16 s) e"
  define D where "D = q16_multiply (ki_q16 s) e"
  have PD: "\<bar>P\<bar> \<le> 2 ^ 30" "\<bar>D\<bar> \<le> 2 ^ 30" using pi_terms [OF assms] by (simp_all add: P_def D_def)
  have I: "\<bar>integral_q16 s\<bar> \<le> q16_limit" "0 \<le> integral_limit_q16 s" "integral_limit_q16 s \<le> q16_limit"
    using ok by (auto simp: servo_ok_def)
  have a: "i32 (integral_q16 s + D) = integral_q16 s + D"
    using PD(2) I(1) by (intro i32_abs_id) (simp add: q16_limit_def)
  have sum: "i32 (P + x) = P + x" if "\<bar>x\<bar> \<le> q16_limit" for x
    using PD(1) that by (intro i32_abs_id) (simp add: q16_limit_def)
  have c: "\<bar>q16_clamp (integral_q16 s + D) (integral_limit_q16 s)\<bar> \<le> q16_limit"
    using q16_clamp_bound [OF I(2)] I(3) by (rule order_trans)
  show ?thesis
    unfolding servo_pi_update_def exact_pi_update_def Let_def P_def [symmetric] D_def [symmetric]
    using sum [OF c] sum [OF I(1)] by (auto simp: a)
qed

lemma exact_pi_ok:
  assumes ok: "servo_ok s"
  shows "servo_ok (snd (exact_pi_update s e))" "\<bar>fst (exact_pi_update s e)\<bar> \<le> correction_limit_q16 s"
proof -
  have b: "\<bar>q16_clamp x (correction_limit_q16 s)\<bar> \<le> correction_limit_q16 s"
    "\<bar>q16_clamp x (integral_limit_q16 s)\<bar> \<le> integral_limit_q16 s" for x
    using ok by (auto simp: servo_ok_def intro!: q16_clamp_bound)
  have "\<bar>q16_clamp x (correction_limit_q16 s)\<bar> \<le> q16_limit" for x
    using b(1) [of x] ok by (auto simp: servo_ok_def)
  then show "servo_ok (snd (exact_pi_update s e))"
    using ok b by (auto simp: exact_pi_update_def Let_def servo_ok_def)
  show "\<bar>fst (exact_pi_update s e)\<bar> \<le> correction_limit_q16 s"
    using ok b by (auto simp: exact_pi_update_def Let_def servo_ok_def)
qed

datatype servo_event =
  Gains int int int int | Hold bool | Enable bool | Reset_all | Reset_phase | Preload int | Phase int

fun servo_step :: "servo_event \<Rightarrow> EpochPiServo \<Rightarrow> EpochPiServo" where
  "servo_step (Gains kp ki il cl) s = servo_pi_set_gains s kp ki il cl"
| "servo_step (Hold on) s = servo_pi_hold s on"
| "servo_step (Enable on) s = servo_pi_enable s on"
| "servo_step Reset_all s = servo_pi_reset s"
| "servo_step Reset_phase s = servo_pi_reset_phase s"
| "servo_step (Preload x) s = servo_pi_preload s x"
| "servo_step (Phase e) s = snd (servo_pi_update s e)"

fun servo_allowed :: "servo_event \<Rightarrow> bool" where
  "servo_allowed (Gains kp ki il cl) = (ticks_ok il \<and> ticks_ok cl)"
| "servo_allowed (Phase e) = phase_ok e"
| "servo_allowed _ = True"

lemma servo_pi_update_ok: "servo_ok s \<Longrightarrow> phase_ok e \<Longrightarrow> servo_ok (snd (servo_pi_update s e))"
  by (simp add: pi_update_exact exact_pi_ok)

lemma servo_correction_ok: "servo_ok s \<Longrightarrow> \<bar>correction_q16 s\<bar> \<le> q16_limit"
  by (simp add: servo_ok_def)

lemma servo_ops_ok:
  "servo_ok (servo_pi_hold s on) = servo_ok s" "servo_ok (servo_pi_enable s on) = servo_ok s"
  "servo_ok s \<Longrightarrow> servo_ok (servo_pi_reset s)" "servo_ok s \<Longrightarrow> servo_ok (servo_pi_reset_phase s)"
  "servo_ok s \<Longrightarrow> servo_ok (servo_pi_preload s x)"
  by (auto simp: servo_ok_def servo_pi_hold_def servo_pi_enable_def servo_pi_reset_def
      servo_pi_reset_phase_def servo_pi_preload_def q16_limit_def intro!: q16_clamp_bound)

interpretation servo: stepper servo_step servo_allowed servo_ok
proof
  fix e s
  assume "servo_allowed e" "servo_ok s"
  then show "servo_ok (servo_step e s)"
    by (cases e) (simp_all add: servo_ops_ok servo_pi_update_ok set_gains_ok servo_correction_ok)
qed

lemma servo_pi_init_ok:
  assumes "ticks_ok il" "ticks_ok cl"
  shows "servo_ok (servo_pi_init s kp ki il cl)"
proof -
  have "servo_ok (servo_pi_set_gains (s\<lparr>integral_q16 := 0, correction_q16 := 0\<rparr>) kp ki il cl)"
    by (rule set_gains_ok [OF assms]) (simp add: q16_limit_def)
  then show ?thesis
    by (simp add: servo_pi_init_def servo_pi_set_gains_def servo_pi_reset_def servo_pi_reset_phase_def
        Let_def servo_ok_def q16_clamp_def q16_limit_def)
qed

section \<open>The gate counts runs\<close>

definition gate_ok :: "EpochPhaseGate \<Rightarrow> bool" where
  "gate_ok g \<longleftrightarrow> 0 \<le> limit_q16 g \<and> limit_q16 g \<le> q16_limit \<and>
     gate_consecutive_rejects g < reject_limit g"

lemma gate_check_ok: "gate_ok g \<Longrightarrow> gate_ok (snd (servo_gate_check p g))"
  by (auto simp: gate_ok_def servo_gate_check_def Let_def not_le word_gt_0 order.strict_trans1
      dest: le_less_trans [OF word_zero_le])

lemma gate_set_limits_ok:
  assumes "ticks_ok t"
  shows "gate_ok (servo_gate_reset (servo_gate_set_limits g t r))"
  using tick_limit_bounds(1) [OF assms] tick_limit_range [OF assms]
  by (auto simp: gate_ok_def servo_gate_set_limits_def servo_gate_reset_def word_gt_0)

fun gate_run :: "EpochPhaseGate \<Rightarrow> int list \<Rightarrow> EpochPhaseGateResult list \<times> EpochPhaseGate" where
  "gate_run g [] = ([], g)"
| "gate_run g (p # ps) =
     (let (r, g1) = servo_gate_check p g; (rs, g2) = gate_run g1 ps in (r # rs, g2))"

lemma gate_run_lost:
  assumes "gate_ok g" "\<forall>p\<in>set ps. \<bar>p\<bar> > limit_q16 g"
    and "length ps = unat (reject_limit g) - unat (gate_consecutive_rejects g)"
  shows "fst (gate_run g ps) = replicate (length ps - 1) EPOCH_PHASE_REJECTED @ [EPOCH_PHASE_LOST]
    \<and> gate_consecutive_rejects (snd (gate_run g ps)) = 0"
  using assms
proof (induction ps arbitrary: g)
  case Nil
  then show ?case by (simp add: gate_ok_def word_less_nat_alt)
next
  case (Cons p ps)
  have lt: "unat (gate_consecutive_rejects g) < unat (reject_limit g)"
    using Cons.prems(1) by (simp add: gate_ok_def word_less_nat_alt)
  have out: "\<not> (p \<le> limit_q16 g \<and> p \<ge> - limit_q16 g)" using Cons.prems(2) by auto
  have c1: "unat (gate_consecutive_rejects g + 1) = unat (gate_consecutive_rejects g) + 1"
    using lt unat_less_of [of "reject_limit g"] by (simp add: unat_word_ariths)
  show ?case
  proof (cases "unat (gate_consecutive_rejects g) + 1 = unat (reject_limit g)")
    case True
    then have "ps = []" using Cons.prems(3) unfolding True [symmetric] by simp
    moreover have "reject_limit g \<le> gate_consecutive_rejects g + 1"
      using True c1 by (simp add: word_le_nat_alt)
    ultimately show ?thesis using out by (simp add: servo_gate_check_def Let_def)
  next
    case False
    then have nl: "\<not> reject_limit g \<le> gate_consecutive_rejects g + 1"
      using lt c1 by (simp add: word_le_nat_alt)
    define g1 where "g1 = g\<lparr>gate_rejected := gate_rejected g + 1,
        gate_consecutive_rejects := gate_consecutive_rejects g + 1\<rparr>"
    have step: "servo_gate_check p g = (EPOCH_PHASE_REJECTED, g1)"
      using out nl by (simp add: servo_gate_check_def Let_def g1_def)
    have "gate_ok g1" using Cons.prems(1) nl by (simp add: gate_ok_def g1_def)
    moreover have "\<forall>p\<in>set ps. \<bar>p\<bar> > limit_q16 g1" using Cons.prems(2) by (simp add: g1_def)
    moreover have len: "length ps = unat (reject_limit g1) - unat (gate_consecutive_rejects g1)"
      using Cons.prems(3) c1 by (simp add: g1_def)
    ultimately have IH: "fst (gate_run g1 ps) = replicate (length ps - 1) EPOCH_PHASE_REJECTED @ [EPOCH_PHASE_LOST]
        \<and> gate_consecutive_rejects (snd (gate_run g1 ps)) = 0" by (rule Cons.IH)
    have "length ps > 0" using len lt False c1 by (simp add: g1_def)
    then have "replicate (length ps) EPOCH_PHASE_REJECTED
        = EPOCH_PHASE_REJECTED # replicate (length ps - 1) EPOCH_PHASE_REJECTED" by (cases ps) auto
    then show ?thesis using IH by (cases "gate_run g1 ps") (simp add: step)
  qed
qed

lemma phase_predict_eq:
  "servo_phase_predict_q16 e running k =
     max (- 16383 * 65536) (min (16383 * 65536)
       (e + max (- 16383) (min 16383 running) * 65536 - k))"
proof -
  have c: "q16_clamp running Q16_TICK_LIMIT = max (- 16383) (min 16383 running)"
    by (auto simp: q16_clamp_def q16_consts)
  have f: "Q16_FROM_TICKS (max (- 16383) (min 16383 running)) = max (- 16383) (min 16383 running) * 65536"
    by (rule q16_from_ticks) auto
  define v where "v = e + max (- 16383) (min 16383 running) * 65536 - k"
  have L: "Q16_FROM_TICKS Q16_TICK_LIMIT = 1073676288" by (simp add: q16_from_ticks q16_consts)
  have "servo_phase_predict_q16 e running k =
      i32 (if v > 1073676288 then 1073676288 else if v < - 1073676288 then - 1073676288 else v)"
    unfolding servo_phase_predict_q16_def Let_def c f L v_def by (rule refl)
  also have "\<dots> = max (- 16383 * 65536) (min (16383 * 65536) v)"
    by (subst i32_abs_id) auto
  finally show ?thesis by (simp add: v_def)
qed

lemma phase_predict_bound: "\<bar>servo_phase_predict_q16 e r k\<bar> \<le> 16383 * 65536"
  unfolding phase_predict_eq by auto

section \<open>Properties\<close>

text \<open>
  C12: dithering loses nothing. Over any run of epochs the periods handed to the timer sum to
  the periods requested, fractions included, up to the fraction still owed, which is less than
  one tick: as long as each request is a period of 1 to 2^32 - 1 ticks.
\<close>

theorem fraction_conserves:
  assumes "\<forall>x\<in>set xs. in_i32 x \<and> 1 \<le> uint nominal + x div 65536 \<and> uint nominal + x div 65536 < 2 ^ 32 - 1"
    and "fraction_run acc nominal xs = (periods, acc')"
  shows "\<bar>(\<Sum>p\<leftarrow>periods. uint p) * 65536 - (\<Sum>x\<leftarrow>xs. uint nominal * 65536 + x)\<bar> < 65536
    \<and> length periods = length xs"
proof -
  have len: "length (fst (fraction_run acc nominal xs)) = length xs"
    by (induction xs arbitrary: acc) (auto split: prod.splits, metis fst_conv)
  have "uint (accumulator_q16 acc) < 65536" "uint (accumulator_q16 acc') < 65536"
    using uint_lt2p [of "accumulator_q16 acc"] uint_lt2p [of "accumulator_q16 acc'"] by auto
  moreover have "0 \<le> uint (accumulator_q16 acc)" "0 \<le> uint (accumulator_q16 acc')" by simp_all
  ultimately have "\<bar>(\<Sum>p\<leftarrow>periods. uint p) * 65536 - (\<Sum>x\<leftarrow>xs. uint nominal * 65536 + x)\<bar> < 65536"
    using fraction_run_sum [OF assms] by linarith
  then show ?thesis using len assms(2) by simp
qed

theorem fraction_conserves_witness:
  "length (fst (fraction_run \<lparr>accumulator_q16 = 0\<rparr> 40000000 [32768, 32768, - 196609])) = 3"
proof -
  have "length (fst (fraction_run \<lparr>accumulator_q16 = 0\<rparr> 40000000 [32768, 32768, - 196609]))
      = length [32768, 32768, - 196609 :: int]"
    using fraction_conserves [of "[32768, 32768, - 196609]" 40000000 "\<lparr>accumulator_q16 = 0\<rparr>"
        "fst (fraction_run \<lparr>accumulator_q16 = 0\<rparr> 40000000 [32768, 32768, - 196609])"
        "snd (fraction_run \<lparr>accumulator_q16 = 0\<rparr> 40000000 [32768, 32768, - 196609])"]
    by (simp add: in_i32_def)
  then show ?thesis by simp
qed

text \<open>
  From \<open>servo_pi_init\<close>, through any changes of gains, holds, resets, preloads and phase
  measurements, the next update computes on integers what the code computes in 32 bits and its
  correction is within the correction limit.
\<close>

theorem servo_output_bounded:
  assumes "ticks_ok il" "ticks_ok cl" "list_all servo_allowed es" "phase_ok e"
  shows "let s = fold servo_step es (servo_pi_init s0 kp ki il cl) in
    servo_pi_update s e = exact_pi_update s e \<and>
    \<bar>fst (servo_pi_update s e)\<bar> \<le> correction_limit_q16 s \<and> \<bar>integral_q16 s\<bar> \<le> integral_limit_q16 s"
proof -
  define s where "s = fold servo_step es (servo_pi_init s0 kp ki il cl)"
  have ok: "servo_ok s"
    unfolding s_def by (rule servo.run_invar [OF assms(3) servo_pi_init_ok [OF assms(1,2)]])
  then show ?thesis
    using exact_pi_ok(2) [OF ok, of e]
    by (simp add: pi_update_exact [OF ok assms(4)] servo_ok_def Let_def flip: s_def)
qed

definition blank_servo :: EpochPiServo where
  "blank_servo = \<lparr>kp_q16 = 0, ki_q16 = 0, integral_limit_q16 = 0, correction_limit_q16 = 0,
     integral_q16 = 0, proportional_q16 = 0, correction_q16 = 0, pi_enabled = False, pi_holding = False\<rparr>"

theorem servo_output_bounded_witness:
  "fst (servo_pi_update (fold servo_step [Enable True, Phase 70000, Phase 1000000]
       (servo_pi_init blank_servo 8192 256 200 4000)) (- 65536)) \<le> 4000 * 65536"
proof -
  let ?s = "fold servo_step [Enable True, Phase 70000, Phase 1000000] (servo_pi_init blank_servo 8192 256 200 4000)"
  have a: "ticks_ok 200" "ticks_ok 4000" "phase_ok (- 65536)" by (simp_all add: ticks_ok_def phase_ok_def)
  have l: "list_all servo_allowed [Enable True, Phase 70000, Phase 1000000]" by (simp add: phase_ok_def)
  have "correction_limit_q16 ?s = 4000 * 65536" by code_simp
  moreover have "\<bar>fst (servo_pi_update ?s (- 65536))\<bar> \<le> correction_limit_q16 ?s"
    using servo_output_bounded [OF a(1,2) l a(3), of blank_servo 8192 256] unfolding Let_def by (elim conjE)
  ultimately show ?thesis by linarith
qed

text \<open>
  The integral never winds up. An update that moves it was not held, moves it in the
  direction of the phase error, and leaves proportional plus integral within the correction
  limit on that side.
\<close>

theorem servo_no_windup:
  assumes "servo_ok s" "phase_ok e" "servo_pi_update s e = (c, s')" "integral_q16 s' \<noteq> integral_q16 s"
  shows "pi_enabled s \<and> \<not> pi_holding s \<and>
    (if integral_q16 s' > integral_q16 s
     then e > 0 \<and> proportional_q16 s' + integral_q16 s' \<le> correction_limit_q16 s
     else e < 0 \<and> proportional_q16 s' + integral_q16 s' \<ge> - correction_limit_q16 s)"
proof -
  define P where "P = q16_multiply (kp_q16 s) e"
  define D where "D = q16_multiply (ki_q16 s) e"
  define I where "I = q16_clamp (integral_q16 s + D) (integral_limit_q16 s)"
  have r: "exact_pi_update s e = (c, s')" using assms(3) by (simp add: pi_update_exact [OF assms(1,2)])
  have s': "pi_enabled s" "\<not> pi_holding s" "proportional_q16 s' = P" "integral_q16 s' = I"
    "\<not> (P + I > correction_limit_q16 s \<and> D > 0)" "\<not> (P + I < - correction_limit_q16 s \<and> D < 0)"
    using r assms(4) unfolding exact_pi_update_def Let_def P_def [symmetric] D_def [symmetric] I_def [symmetric]
    by (auto split: if_splits)
  have lim: "\<bar>integral_q16 s\<bar> \<le> integral_limit_q16 s" using assms(1) by (simp add: servo_ok_def)
  then have dir: "I > integral_q16 s \<Longrightarrow> D > 0" "I < integral_q16 s \<Longrightarrow> D < 0"
    by (auto simp: I_def q16_clamp_def split: if_splits)
  have ki: "0 \<le> ki_q16 s" "ki_q16 s \<le> 65536" using assms(1) by (auto simp: servo_ok_def)
  have "q32_range (ki_q16 s * e)"
  proof -
    have "\<bar>ki_q16 s * e\<bar> \<le> 65536 * 2 ^ 30"
      unfolding abs_mult using ki assms(2) by (intro mult_mono) (auto simp: phase_ok_def)
    then show ?thesis by (simp add: q32_range_def)
  qed
  note sgn = q32.rnd_sign [OF this]
  have "D \<le> 0" if "e \<le> 0"
    unfolding D_def q16_multiply_def using ki(1) that by (intro sgn(2) mult_nonneg_nonpos)
  moreover have "0 \<le> D" if "0 \<le> e"
    unfolding D_def q16_multiply_def using ki(1) that by (intro sgn(1) mult_nonneg_nonneg)
  ultimately have "D > 0 \<Longrightarrow> e > 0" "D < 0 \<Longrightarrow> e < 0" by linarith+
  then show ?thesis using s' dir assms(4) by auto
qed

definition saturating_servo :: EpochPiServo where
  "saturating_servo = blank_servo\<lparr>kp_q16 := 8192, ki_q16 := 256, integral_limit_q16 := 65536,
     correction_limit_q16 := 6553600, pi_enabled := True\<rparr>"

theorem servo_no_windup_witness:
  "0 < integral_q16 (snd (servo_pi_update saturating_servo 655360)) \<and>
   proportional_q16 (snd (servo_pi_update saturating_servo 655360))
     + integral_q16 (snd (servo_pi_update saturating_servo 655360)) \<le> 6553600"
proof -
  have ok: "servo_ok saturating_servo" by (simp add: saturating_servo_def blank_servo_def servo_ok_def q16_limit_def)
  have e: "phase_ok 655360" by (simp add: phase_ok_def)
  have "0 < integral_q16 (snd (servo_pi_update saturating_servo 655360))" by code_simp
  moreover have "integral_q16 saturating_servo = 0" "correction_limit_q16 saturating_servo = 6553600"
    by (simp_all add: saturating_servo_def blank_servo_def)
  ultimately show ?thesis
    using servo_no_windup [OF ok e, of "fst (servo_pi_update saturating_servo 655360)"
        "snd (servo_pi_update saturating_servo 655360)"] by simp
qed

text \<open>
  The gate declares the reference lost on exactly the \<open>reject_limit\<close>-th outlier in a row: a
  run of outliers as long as the rejections left is rejected up to its last, which is lost and
  clears the count, and one phase within the limit clears it too.
\<close>

theorem gate_lost_after_limit:
  assumes "gate_ok g" "\<forall>p\<in>set ps. \<bar>p\<bar> > limit_q16 g"
    and "length ps = unat (reject_limit g) - unat (gate_consecutive_rejects g)" "\<bar>q\<bar> \<le> limit_q16 g"
  shows "fst (gate_run g ps) = replicate (length ps - 1) EPOCH_PHASE_REJECTED @ [EPOCH_PHASE_LOST]
    \<and> gate_consecutive_rejects (snd (gate_run g ps)) = 0
    \<and> servo_gate_check q g = (EPOCH_PHASE_ACCEPTED, g\<lparr>gate_consecutive_rejects := 0\<rparr>)"
  using gate_run_lost [OF assms(1-3)] assms(4) by (auto simp: servo_gate_check_def)

theorem gate_lost_after_limit_witness:
  "fst (gate_run \<lparr>limit_q16 = 65536, reject_limit = 3, gate_consecutive_rejects = 1, gate_rejected = 0\<rparr>
     [70000, - 70000]) = [EPOCH_PHASE_REJECTED, EPOCH_PHASE_LOST]"
  using gate_lost_after_limit [of "\<lparr>limit_q16 = 65536, reject_limit = 3, gate_consecutive_rejects = 1,
      gate_rejected = 0\<rparr>" "[70000, - 70000]" 0]
  by (simp add: gate_ok_def q16_limit_def)

text \<open>
  The predicted phase is the measured phase plus what the running period, clamped to the
  tick limit, adds over the true one, clamped to the tick limit, for all arguments: no sum
  wraps.
\<close>

theorem phase_predict_clamped:
  "servo_phase_predict_q16 e running k =
     max (- 16383 * 65536) (min (16383 * 65536)
       (e + max (- 16383) (min 16383 running) * 65536 - k))"
  by (rule phase_predict_eq)

end
