(* ===== verification/Epoch_Timer.thy ===== *)
theory Epoch_Timer
  imports Prelude
begin

text \<open>
  The epoch timer (\<open>dspic_src/timing/epoch_timer.c\<close>): T2/T3 runs the second, T4 its
  millisecond slots. The state holds the module's statics and the timer registers the handlers
  read and write; between handlers the hardware moves the registers, within one they stand.
  The record is extensible: the control loop's state extends it with its own, since each
  epoch it requests a period here. What slot handlers start elsewhere (probing and ending the
  output pulse) is logged in \<open>slot_work\<close>, newest first.
\<close>

section \<open>The code\<close>

definition TIMING_NOMINAL_TICKS :: u32 where "TIMING_NOMINAL_TICKS = 40000000"
definition TIMING_HALF_SECOND_TICKS :: u32 where "TIMING_HALF_SECOND_TICKS = TIMING_NOMINAL_TICKS div 2"
definition EPOCH_SLOT_TICKS :: u32 where "EPOCH_SLOT_TICKS = TIMING_NOMINAL_TICKS div 1000"
definition EPOCH_MEASURE_SLOT :: u16 where "EPOCH_MEASURE_SLOT = 1"
definition EPOCH_PULSE_PROBE_SLOT :: u16 where "EPOCH_PULSE_PROBE_SLOT = 50"
definition EPOCH_PULSE_END_SLOT :: u16 where "EPOCH_PULSE_END_SLOT = 100"
definition SLOT_MIDPOINT_TICKS :: u32 where "SLOT_MIDPOINT_TICKS = EPOCH_SLOT_TICKS div 2"

datatype SlotWork = Output_probe | Output_end

record EpochTimer =
  measurement_due :: bool
  epoch_sequence :: u32
  handler_late :: u32
  current_slot :: u16
  milliseconds :: u32
  resumed_slots :: u32
  resume_spans :: u32
  requested_period :: u32
  requested_period_pending :: bool
  running_period :: u32
  scheduler_running :: bool
  slot_work :: "SlotWork list"
  PR2 :: u16
  PR3 :: u16
  TMR2 :: u16
  TMR3HLD :: u16
  TMR4 :: u16
  T2_on :: bool
  T3_flag :: bool
  T4_on :: bool
  T4_flag :: bool

record EpochTimerSample =
  sample_sequence :: u32
  sample_running_period :: u32
  sample_handler_late :: u32

definition load_period :: "u32 \<Rightarrow> 'a EpochTimer_scheme \<Rightarrow> 'a EpochTimer_scheme" where
  "load_period period_ticks t =
     (let p = (if period_ticks = 0 then 1 else period_ticks);
          register_value = p - 1
      in t\<lparr>PR3 := ucast (drop_bit 16 register_value), PR2 := ucast register_value,
           running_period := p\<rparr>)"

definition epoch_timer_set_period :: "u32 \<Rightarrow> 'a EpochTimer_scheme \<Rightarrow> 'a EpochTimer_scheme" where
  "epoch_timer_set_period p t = t\<lparr>requested_period := p, requested_period_pending := True\<rparr>"

definition epoch_timer_sample :: "'a EpochTimer_scheme \<Rightarrow> EpochTimerSample \<times> 'a EpochTimer_scheme" where
  "epoch_timer_sample t =
     (\<lparr>sample_sequence = epoch_sequence t, sample_running_period = running_period t,
       sample_handler_late = handler_late t\<rparr>, t\<lparr>measurement_due := False\<rparr>)"

definition epoch_timer_position :: "'a EpochTimer_scheme \<Rightarrow> u32 \<times> u16" where
  "epoch_timer_position t = (epoch_sequence t, current_slot t)"

definition restart_scheduler :: "'a EpochTimer_scheme \<Rightarrow> 'a EpochTimer_scheme" where
  "restart_scheduler t0 =
     (let slot_ticks = TMR4 t0;
          boundary_pending = T4_flag t0;
          late = TMR2 t0 \<ge> ucast EPOCH_SLOT_TICKS;
          since_epoch = (if late then ucast (EPOCH_SLOT_TICKS - 1) else TMR2 t0);
          t1 = (if late then t0\<lparr>handler_late := handler_late t0 + 1\<rparr> else t0);
          t = t1\<lparr>TMR4 := since_epoch, T4_flag := False, T4_on := True\<rparr>;
          t' = (if scheduler_running t then
                  let boundary_after_epoch = slot_ticks < since_epoch;
                      slot_ticks_at_epoch =
                        (if boundary_after_epoch then slot_ticks + ucast EPOCH_SLOT_TICKS - since_epoch
                         else slot_ticks - since_epoch);
                      u = (if boundary_pending \<and> \<not> boundary_after_epoch
                           then t\<lparr>milliseconds := milliseconds t + 1\<rparr> else t)
                  in if slot_ticks_at_epoch \<ge> ucast SLOT_MIDPOINT_TICKS
                     then u\<lparr>milliseconds := milliseconds u + 1\<rparr> else u
                else t\<lparr>milliseconds := milliseconds t + 1, scheduler_running := True\<rparr>)
      in t'\<lparr>current_slot := 0\<rparr>)"

definition T3Interrupt :: "'a EpochTimer_scheme \<Rightarrow> 'a EpochTimer_scheme" where
  "T3Interrupt t0 =
     (let t1 = restart_scheduler t0;
          t2 = (if requested_period_pending t1
                then (load_period (requested_period t1) t1)\<lparr>requested_period_pending := False\<rparr>
                else t1)
      in t2\<lparr>epoch_sequence := epoch_sequence t2 + 1, T3_flag := False\<rparr>)"

definition advance_slot :: "'a EpochTimer_scheme \<Rightarrow> 'a EpochTimer_scheme" where
  "advance_slot t0 =
     (let t1 = t0\<lparr>milliseconds := milliseconds t0 + 1\<rparr>;
          t = (if current_slot t1 < 65535 then t1\<lparr>current_slot := current_slot t1 + 1\<rparr> else t1)
      in if current_slot t = EPOCH_MEASURE_SLOT then t\<lparr>measurement_due := True\<rparr>
         else if current_slot t = EPOCH_PULSE_PROBE_SLOT then t\<lparr>slot_work := Output_probe # slot_work t\<rparr>
         else if current_slot t = EPOCH_PULSE_END_SLOT then t\<lparr>slot_work := Output_end # slot_work t\<rparr>
         else t)"

definition T4Interrupt :: "'a EpochTimer_scheme \<Rightarrow> 'a EpochTimer_scheme" where
  "T4Interrupt t = advance_slot (t\<lparr>T4_flag := False\<rparr>)"

lemma current_slot_advance:
  "current_slot t < 65535 \<Longrightarrow> current_slot (advance_slot t) = current_slot t + 1"
  by (simp add: advance_slot_def Let_def)

lemma unat_slot_Suc: "s < 65535 \<Longrightarrow> unat (s + 1 :: u16) = unat s + 1"
  by (simp add: word_less_nat_alt unat_word_ariths)

function resume_slots :: "u32 \<Rightarrow> 'a EpochTimer_scheme \<Rightarrow> 'a EpochTimer_scheme" where
  "resume_slots slot t =
     (if ucast (current_slot t) < slot \<and> current_slot t < 65535
      then resume_slots slot (advance_slot t) else t)"
  by auto

termination
  by (relation "measure (\<lambda>(slot, t). 65535 - unat (current_slot t))")
    (auto simp: current_slot_advance unat_slot_Suc word_less_nat_alt)

declare resume_slots.simps [simp del]

definition epoch_timer_resume :: "'a EpochTimer_scheme \<Rightarrow> 'a EpochTimer_scheme" where
  "epoch_timer_resume t =
     (if \<not> T2_on t \<or> T3_flag t
      then (if T3_flag t then t\<lparr>resume_spans := resume_spans t + 1\<rparr> else t)
      else let since_epoch = push_bit 16 (ucast (TMR3HLD t)) OR ucast (TMR2 t) :: u32;
               slot = since_epoch div EPOCH_SLOT_TICKS;
               t1 = (if slot > ucast (current_slot t)
                     then t\<lparr>resumed_slots := resumed_slots t + (slot - ucast (current_slot t))\<rparr> else t);
               t2 = resume_slots slot t1
           in t2\<lparr>TMR4 := ucast (since_epoch mod EPOCH_SLOT_TICKS), T4_flag := False\<rparr>)"

definition scheduler_init :: "'a EpochTimer_scheme \<Rightarrow> 'a EpochTimer_scheme" where
  "scheduler_init t = t\<lparr>T4_on := False, TMR4 := 0, T4_flag := False\<rparr>"

definition epoch_timer_init :: "'a EpochTimer_scheme \<Rightarrow> 'a EpochTimer_scheme" where
  "epoch_timer_init t0 =
     (let t = load_period TIMING_NOMINAL_TICKS ((scheduler_init t0)\<lparr>T2_on := False, TMR2 := 0, TMR3HLD := 0\<rparr>)
      in t\<lparr>T3_flag := False, T2_on := True\<rparr>)"

lemmas timer_consts =
  TIMING_NOMINAL_TICKS_def TIMING_HALF_SECOND_TICKS_def EPOCH_SLOT_TICKS_def EPOCH_MEASURE_SLOT_def
  EPOCH_PULSE_PROBE_SLOT_def EPOCH_PULSE_END_SLOT_def SLOT_MIDPOINT_TICKS_def

section \<open>The period registers\<close>

definition period_loaded :: "'a EpochTimer_scheme \<Rightarrow> bool" where
  "period_loaded t \<longleftrightarrow> running_period t \<noteq> 0 \<and>
     uint (PR3 t) * 65536 + uint (PR2 t) + 1 = uint (running_period t)"

lemma load_period_loaded: "period_loaded (load_period p t)"
proof -
  define q where "q = (if p = 0 then 1 else p)"
  have "q \<noteq> 0" by (simp add: q_def)
  then have "uint q \<noteq> 0" by (simp add: uint_0_iff)
  moreover have "0 \<le> uint q" by simp
  ultimately have q: "1 \<le> uint q" by linarith
  then have r: "uint (q - 1) = uint q - 1" by (subst uint_minus_small) auto
  have b: "uint (q - 1) < 2 ^ 32" using uint_lt2p [of "q - 1"] by simp
  have "uint (q - 1) div 65536 < 65536" using b by auto
  moreover have "0 \<le> uint (q - 1) div 65536" by (simp add: pos_imp_zdiv_nonneg_iff)
  ultimately have hi: "uint (ucast (drop_bit 16 (q - 1)) :: u16) = uint (q - 1) div 65536"
    by (simp add: unsigned_ucast_eq drop_bit_eq_div uint_div take_bit_eq_mod)
  have lo: "uint (ucast (q - 1) :: u16) = uint (q - 1) mod 65536"
    by (simp add: unsigned_ucast_eq take_bit_eq_mod)
  have "load_period p t = t\<lparr>PR3 := ucast (drop_bit 16 (q - 1)), PR2 := ucast (q - 1), running_period := q\<rparr>"
    by (simp add: load_period_def Let_def q_def)
  moreover have "q \<noteq> 0" by (simp add: q_def)
  ultimately show ?thesis
    using r by (simp add: period_loaded_def hi lo div_mult_mod_eq)
qed

section \<open>Slots made up after a stall\<close>

lemma advance_slot_frame [frame_simps]:
  "running_period (advance_slot t) = running_period t"
  "epoch_sequence (advance_slot t) = epoch_sequence t"
  "T2_on (advance_slot t) = T2_on t" "T3_flag (advance_slot t) = T3_flag t"
  "milliseconds (advance_slot t) = milliseconds t + 1"
  by (auto simp: advance_slot_def Let_def)

definition slot_events :: "nat \<Rightarrow> SlotWork list" where
  "slot_events n = (if n = 50 then [Output_probe] else if n = 100 then [Output_end] else [])"

lemma advance_slot_work:
  assumes "current_slot t < 65535"
  shows "slot_work (advance_slot t) = slot_events (unat (current_slot t) + 1) @ slot_work t"
    and "measurement_due (advance_slot t) \<longleftrightarrow> measurement_due t \<or> unat (current_slot t) + 1 = 1"
proof -
  have c: "unat (current_slot t + 1) = unat (current_slot t) + 1" using assms by (rule unat_slot_Suc)
  have k: "current_slot t + 1 = k \<longleftrightarrow> unat (current_slot t) + 1 = unat k" for k
    by (simp only: c [symmetric] word_unat_eq_iff)
  show "slot_work (advance_slot t) = slot_events (unat (current_slot t) + 1) @ slot_work t"
    using assms by (simp add: advance_slot_def Let_def timer_consts k slot_events_def)
  show "measurement_due (advance_slot t) \<longleftrightarrow> measurement_due t \<or> unat (current_slot t) + 1 = 1"
    using assms by (simp add: advance_slot_def Let_def timer_consts k unat_eq_0)
qed

lemma resume_slots_made_up:
  assumes "unat slot < 65536" "unat (current_slot t) \<le> unat slot"
  shows "let t' = resume_slots slot t; n = unat (current_slot t) in
    unat (current_slot t') = unat slot
    \<and> milliseconds t' = milliseconds t + word_of_nat (unat slot - n)
    \<and> slot_work t' = concat (map slot_events (rev [n + 1 ..< unat slot + 1])) @ slot_work t
    \<and> (measurement_due t' \<longleftrightarrow> measurement_due t \<or> n = 0 \<and> 1 \<le> unat slot)
    \<and> epoch_sequence t' = epoch_sequence t \<and> running_period t' = running_period t"
  using assms
proof (induction slot t rule: resume_slots.induct)
  case (1 slot t)
  define n where "n = unat (current_slot t)"
  have lt: "ucast (current_slot t) < slot \<longleftrightarrow> n < unat slot"
    by (simp add: word_less_nat_alt width_simps n_def)
  show ?case
  proof (cases "n < unat slot")
    case False
    then have "n = unat slot" using 1(3) by (simp add: n_def)
    then show ?thesis
      by (subst resume_slots.simps) (auto simp add: lt Let_def simp flip: n_def)
  next
    case True
    then have c: "current_slot t < 65535" using 1(2) by (simp add: word_less_nat_alt n_def)
    have step: "resume_slots slot t = resume_slots slot (advance_slot t)"
      by (subst resume_slots.simps) (simp add: lt True c)
    have n1: "unat (current_slot (advance_slot t)) = n + 1"
      by (simp add: current_slot_advance [OF c] unat_slot_Suc [OF c] n_def)
    have IH: "let t' = resume_slots slot (advance_slot t); n = unat (current_slot (advance_slot t)) in
      unat (current_slot t') = unat slot
      \<and> milliseconds t' = milliseconds (advance_slot t) + word_of_nat (unat slot - n)
      \<and> slot_work t' = concat (map slot_events (rev [n + 1 ..< unat slot + 1])) @ slot_work (advance_slot t)
      \<and> (measurement_due t' \<longleftrightarrow> measurement_due (advance_slot t) \<or> n = 0 \<and> 1 \<le> unat slot)
      \<and> epoch_sequence t' = epoch_sequence (advance_slot t) \<and> running_period t' = running_period (advance_slot t)"
      using 1(1) lt True c 1(2) n1 by auto
    have "unat slot - n = Suc (unat slot - (n + 1))" using True by simp
    then have ms: "1 + word_of_nat (unat slot - (n + 1)) = (word_of_nat (unat slot - n) :: u32)"
      by (simp only: of_nat_Suc)
    have seq: "[n + 1 ..< unat slot + 1] = (n + 1) # [n + 1 + 1 ..< unat slot + 1]"
      using True by (simp add: upt_conv_Cons)
    show ?thesis
      using IH True ms unfolding step Let_def n1 n_def [symmetric] seq
      by (auto simp: advance_slot_frame advance_slot_work [OF c] n_def [symmetric] add.assoc)
  qed
qed

lemma unat_join_halves:
  "unat (push_bit 16 (ucast (hi :: u16)) OR ucast (lo :: u16) :: u32) = unat hi * 65536 + unat lo"
proof -
  have z: "push_bit 16 (ucast hi) AND (ucast lo :: u32) = 0"
    by (rule bit_eqI) (auto simp: bit_simps dest: bit_imp_le_length)
  have "push_bit 16 (ucast hi) OR (ucast lo :: u32) = push_bit 16 (ucast hi) + ucast lo"
    using z by (simp add: disjunctive_add bit_eq_iff bit_simps)
  moreover have "unat hi < 65536" "unat lo < 65536" using unat_less_of [of hi] unat_less_of [of lo] by auto
  ultimately show ?thesis
    by (simp add: push_bit_eq_mult unat_word_ariths width_simps)
qed

lemma restart_scheduler_frame [frame_simps]:
  "requested_period (restart_scheduler t) = requested_period t"
  "requested_period_pending (restart_scheduler t) = requested_period_pending t"
  "running_period (restart_scheduler t) = running_period t"
  "epoch_sequence (restart_scheduler t) = epoch_sequence t"
  "PR2 (restart_scheduler t) = PR2 t" "PR3 (restart_scheduler t) = PR3 t"
  by (simp_all add: restart_scheduler_def Let_def)

section \<open>Properties\<close>

text \<open>
  The epoch counts as a millisecond boundary once, however late its handler runs. Take the
  T4 count \<open>s0\<close> at the epoch and a latency of \<open>since\<close> cycles, both less than a slot: T4 now reads
  their sum modulo the slot, its flag is up if it wrapped meanwhile or a boundary before the
  epoch was held off. The milliseconds then advance by that held-off boundary and by one if the
  epoch is at least half a slot after the last boundary, whatever the latency, and T4 is
  preloaded so that slots end whole milliseconds after the epoch.
\<close>

theorem epoch_counted_once:
  assumes s0: "s0 < 40000" and late: "since < 40000" and run: "scheduler_running t"
    and regs: "TMR2 t = word_of_nat since" "TMR4 t = word_of_nat ((s0 + since) mod 40000)"
      "T4_flag t \<longleftrightarrow> held \<or> s0 + since \<ge> 40000" "\<not> (held \<and> s0 + since \<ge> 40000)"
  shows "milliseconds (restart_scheduler t)
      = milliseconds t + (if held then 1 else 0) + (if s0 \<ge> 20000 then 1 else 0)
    \<and> TMR4 (restart_scheduler t) = word_of_nat since \<and> current_slot (restart_scheduler t) = 0
    \<and> handler_late (restart_scheduler t) = handler_late t"
proof -
  have since: "unat (word_of_nat since :: u16) = since" using late by (simp add: unat_of_nat)
  have m: "(s0 + since) mod 40000 < 65536" by (rule less_trans [of _ 40000]) simp_all
  have tmr4: "unat (word_of_nat ((s0 + since) mod 40000) :: u16) = (s0 + since) mod 40000"
    using m by (simp add: unat_of_nat)
  have slot: "(ucast EPOCH_SLOT_TICKS :: u16) = 40000" "(ucast SLOT_MIDPOINT_TICKS :: u16) = 20000"
    by (simp_all add: timer_consts)
  have nl: "\<not> TMR2 t \<ge> ucast EPOCH_SLOT_TICKS"
    using late by (simp add: slot regs word_le_nat_alt since)
  define after where "after = (s0 + since \<ge> 40000)"
  have after: "TMR4 t < TMR2 t \<longleftrightarrow> after"
    unfolding regs(1,2) word_less_nat_alt since tmr4 after_def using s0 late by (auto simp: mod_if)
  define at where "at = (if after then TMR4 t + 40000 - TMR2 t else TMR4 t - TMR2 t)"
  have at: "at = word_of_nat s0"
  proof (cases after)
    case True
    then have "(s0 + since) mod 40000 + 40000 = s0 + since"
      using s0 late by (simp add: after_def le_mod_geq)
    then have "TMR4 t + 40000 = word_of_nat (s0 + since)"
      unfolding regs(2) by (metis of_nat_add of_nat_numeral)
    then show ?thesis using True by (simp add: at_def regs(1))
  next
    case False
    then have "(s0 + since) mod 40000 = s0 + since" using s0 late by (simp add: after_def)
    then show ?thesis using False by (simp add: at_def regs)
  qed
  have mid: "at \<ge> ucast SLOT_MIDPOINT_TICKS \<longleftrightarrow> s0 \<ge> 20000"
    using s0 by (simp add: slot at word_le_nat_alt unat_of_nat)
  have fl: "T4_flag t \<and> \<not> after \<longleftrightarrow> held" using regs(3,4) by (auto simp: after_def)
  show ?thesis
    using nl run after mid fl regs(1) unfolding restart_scheduler_def Let_def slot(1)
    by (auto simp: at_def slot)
qed

definition blank_timer :: EpochTimer where
  "blank_timer = \<lparr>measurement_due = False, epoch_sequence = 0, handler_late = 0, current_slot = 0,
     milliseconds = 999, resumed_slots = 0, resume_spans = 0, requested_period = 40000000,
     requested_period_pending = False, running_period = 40000000, scheduler_running = True,
     slot_work = [], PR2 = 0, PR3 = 0, TMR2 = 0, TMR3HLD = 0, TMR4 = 0, T2_on = True,
     T3_flag = False, T4_on = True, T4_flag = False\<rparr>"

theorem epoch_counted_once_witness:
  "milliseconds (restart_scheduler (blank_timer\<lparr>TMR2 := 150, TMR4 := 100, T4_flag := True\<rparr>)) = 1000"
  using epoch_counted_once [of 39950 150 "blank_timer\<lparr>TMR2 := 150, TMR4 := 100, T4_flag := True\<rparr>" False]
  by (simp add: blank_timer_def)

text \<open>
  After a stall the slots are brought up to where T2/T3 stands, as if no interrupt had been
  missed: the slot counter, one millisecond per slot, each slot's work exactly once and in
  order, the measurement flag if slot 1 was passed, and T4 back in phase.
\<close>

theorem resume_makes_up:
  assumes "T2_on t" "\<not> T3_flag t"
    and since: "unat (TMR3HLD t) * 65536 + unat (TMR2 t) = since" "since < 65536 * 40000"
    and behind: "unat (current_slot t) \<le> since div 40000"
  shows "let t' = epoch_timer_resume t; n = unat (current_slot t); m = since div 40000 in
    unat (current_slot t') = m
    \<and> milliseconds t' = milliseconds t + word_of_nat (m - n)
    \<and> slot_work t' = concat (map slot_events (rev [n + 1 ..< m + 1])) @ slot_work t
    \<and> (measurement_due t' \<longleftrightarrow> measurement_due t \<or> n = 0 \<and> 1 \<le> m)
    \<and> unat (TMR4 t') = since mod 40000 \<and> \<not> T4_flag t'"
proof -
  define S where "S = (push_bit 16 (ucast (TMR3HLD t)) OR ucast (TMR2 t) :: u32)"
  have S: "unat S = since" unfolding S_def since(1) [symmetric] by (rule unat_join_halves)
  have e: "unat EPOCH_SLOT_TICKS = 40000" by (simp add: timer_consts)
  have slot: "unat (S div EPOCH_SLOT_TICKS) = since div 40000" by (simp add: unat_div S e)
  have b: "since div 40000 < 65536" using since(2) by (simp add: less_mult_imp_div_less)
  define t1 where "t1 = (if S div EPOCH_SLOT_TICKS > ucast (current_slot t)
      then t\<lparr>resumed_slots := resumed_slots t + (S div EPOCH_SLOT_TICKS - ucast (current_slot t))\<rparr> else t)"
  have t1: "current_slot t1 = current_slot t" "milliseconds t1 = milliseconds t" "slot_work t1 = slot_work t"
    "measurement_due t1 = measurement_due t" by (simp_all add: t1_def)
  have r: "epoch_timer_resume t = (resume_slots (S div EPOCH_SLOT_TICKS) t1)
      \<lparr>TMR4 := ucast (S mod EPOCH_SLOT_TICKS), T4_flag := False\<rparr>"
    using assms(1,2) by (simp add: epoch_timer_resume_def Let_def S_def t1_def)
  have "since mod 40000 < 65536" by (rule less_trans [of _ 40000]) simp_all
  then have tm: "unat (ucast (S mod EPOCH_SLOT_TICKS) :: u16) = since mod 40000"
    by (simp add: unsigned_ucast_eq unat_mod S e take_bit_nat_eq_self)
  show ?thesis
    using resume_slots_made_up [of "S div EPOCH_SLOT_TICKS" t1] b behind tm
    by (simp add: r slot t1 Let_def)
qed

theorem resume_makes_up_witness:
  "unat (current_slot (epoch_timer_resume
     (blank_timer\<lparr>TMR3HLD := 15, TMR2 := 16960, current_slot := 2\<rparr>))) = 25"
  using resume_makes_up [of "blank_timer\<lparr>TMR3HLD := 15, TMR2 := 16960, current_slot := 2\<rparr>" 1000000]
  by (simp add: Let_def blank_timer_def)

text \<open>
  The newest request wins and is loaded once. With a request pending the epoch interrupt
  loads it into PR3:PR2 (a period of 0 as 1) and reports it as the running period; without one
  the registers and the running period stay. Either way the epoch is counted.
\<close>

theorem epoch_loads_request:
  "period_loaded (T3Interrupt (epoch_timer_set_period p t))
   \<and> running_period (T3Interrupt (epoch_timer_set_period p t)) = (if p = 0 then 1 else p)
   \<and> \<not> requested_period_pending (T3Interrupt t)
   \<and> epoch_sequence (T3Interrupt t) = epoch_sequence t + 1
   \<and> (if requested_period_pending t
       then running_period (T3Interrupt t) = (if requested_period t = 0 then 1 else requested_period t)
       else running_period (T3Interrupt t) = running_period t
        \<and> PR2 (T3Interrupt t) = PR2 t \<and> PR3 (T3Interrupt t) = PR3 t)"
proof -
  note f = restart_scheduler_frame
  have "period_loaded (load_period p (restart_scheduler (epoch_timer_set_period p t)))"
    by (rule load_period_loaded)
  then show ?thesis
    by (auto simp: T3Interrupt_def Let_def f period_loaded_def load_period_def epoch_timer_set_period_def)
qed

end
