(* ===== verification/Epoch_Control.thy ===== *)
theory Epoch_Control
  imports Kalman Servo Epoch_Timer
begin

text \<open>
  The epoch control loop (\<open>dspic_src/timing/epoch_control.c\<close>): once a second it feeds the
  estimator, runs the state machine ACQUIRE, STEP, TRACK and requests the next period of the
  epoch timer. Its record extends the timer's, so a request is an update of the same state.
  Of the timing snapshot the model keeps what the loop reads. \<open>loop_ok\<close> is the invariant and
  \<open>loop_step\<close> the transition relation of everything that can happen to the loop.
\<close>

section \<open>The code: state\<close>

record EpochProfile =
  profile_kp_q16 :: int
  profile_ki_q16 :: int
  integral_limit_ticks :: int
  correction_limit_ticks :: int
  gate_ticks :: int
  profile_reject_limit :: u8
  learn_frequency :: bool

definition epoch_profile_precise :: EpochProfile where
  "epoch_profile_precise =
     \<lparr>profile_kp_q16 = Q16_RATIO 1 8, profile_ki_q16 = Q16_RATIO 1 256, integral_limit_ticks = 8,
      correction_limit_ticks = 16, gate_ticks = 16, profile_reject_limit = 4, learn_frequency = True\<rparr>"

definition EPOCH_ACQUIRE_DELAY :: u32 where "EPOCH_ACQUIRE_DELAY = 3"
definition EPOCH_STEP_HOLD_MIN :: u32 where "EPOCH_STEP_HOLD_MIN = 10"
definition EPOCH_STEP_HOLD_MAX :: u32 where "EPOCH_STEP_HOLD_MAX = 600"
definition EPOCH_SEED_PERIODS :: u32 where "EPOCH_SEED_PERIODS = 16"
definition EPOCH_PHASE_CALIBRATION_Q16 :: int where "EPOCH_PHASE_CALIBRATION_Q16 = Q16_HALF"

datatype EpochSyncState = EPOCH_STATE_ACQUIRE | EPOCH_STATE_STEP_ACTIVE | EPOCH_STATE_TRACK

datatype EpochUpdateKind =
  EPOCH_UPDATE_MEASURED | EPOCH_UPDATE_HOLDOVER | EPOCH_UPDATE_FREE_RUN | EPOCH_UPDATE_INCOMPLETE

record EpochUpdate =
  kind :: EpochUpdateKind
  phase_valid :: bool
  utc_offset_ticks :: int

record PpsCaptureSample =
  reference_capture :: u32
  reference_capture_valid :: bool
  reference_period :: u32
  reference_period_sequence :: u32
  reference_period_valid :: bool
  epoch_capture :: u32
  epoch_capture_valid :: bool

record TimingSnapshot =
  snap_timer :: EpochTimerSample
  snap_capture :: PpsCaptureSample

record EpochControl = EpochTimer +
  loop_state :: EpochSyncState
  last_resync :: u32
  last_pps_sequence :: u32
  holdover_epochs :: u32
  reference_epochs :: u32
  discard_period :: bool
  profile :: EpochProfile
  seed_started :: bool
  seed_first :: u32
  seed_sequence :: u32
  seed_periods :: u32
  step_hold :: u32
  step_hold_min :: u32
  free_run_step :: int
  free_run_step_taken :: int
  pps_kf :: KalmanFilter
  pi_servo :: EpochPiServo
  gate :: EpochPhaseGate
  fractional :: EpochFractionalAccumulator
  filtered_pps_period :: u32
  predicted_phase_q16 :: int
  commanded_offset_q16 :: int
  commanded_period :: u32

section \<open>The code: helpers\<close>

definition wrap_phase :: "int \<Rightarrow> u32 \<Rightarrow> int" where
  "wrap_phase phase nominal =
     (let period = sint nominal; half_period = period sdiv 2
      in if phase \<ge> half_period then i32 (phase - period)
         else if phase < - half_period then i32 (phase + period) else phase)"

definition compute_step :: "u32 \<Rightarrow> int \<Rightarrow> u32 option" where
  "compute_step base_period offset_ticks =
     (let period = (if offset_ticks > 0 then base_period - word_of_int offset_ticks
                    else base_period + word_of_int (i32 (- offset_ticks)))
      in if period < TIMING_HALF_SECOND_TICKS \<or> period > TIMING_HALF_SECOND_TICKS + TIMING_NOMINAL_TICKS
         then None else Some period)"

definition update_kalman :: "PpsCaptureSample \<Rightarrow> bool \<Rightarrow> EpochControl \<Rightarrow> EpochControl" where
  "update_kalman capture learn l =
     (if \<not> reference_period_valid capture \<or> reference_period_sequence capture = last_pps_sequence l
      then l
      else let l1 = l\<lparr>last_pps_sequence := reference_period_sequence capture\<rparr>
      in if \<not> learn \<or> discard_period l1 \<or> \<not> learn_frequency (profile l1)
         then l1\<lparr>discard_period := False\<rparr>
         else let kf = snd (kalman_update (pps_kf l1) (reference_period capture))
              in l1\<lparr>pps_kf := kf, filtered_pps_period := kalman_period kf\<rparr>)"

definition request_offset :: "int \<Rightarrow> EpochControl \<Rightarrow> EpochControl" where
  "request_offset offset l =
     (let (period, acc) = servo_fraction_next (fractional l) TIMING_NOMINAL_TICKS offset
      in epoch_timer_set_period period
           (l\<lparr>commanded_offset_q16 := offset, commanded_period := period, fractional := acc\<rparr>))"

definition request_frequency :: "EpochControl \<Rightarrow> EpochControl" where
  "request_frequency l = request_offset (servo_holdover_offset (pi_servo l) (kalman_phase_q16 (pps_kf l))) l"

definition request_holdover :: "EpochControl \<Rightarrow> EpochControl" where
  "request_holdover l = request_frequency (l\<lparr>holdover_epochs := holdover_epochs l + 1\<rparr>)"

definition enter_track :: "u32 \<Rightarrow> EpochControl \<Rightarrow> EpochControl" where
  "enter_track sequence l =
     l\<lparr>pi_servo := servo_pi_enable (servo_pi_reset_phase (pi_servo l)) True,
       fractional := servo_fraction_reset (fractional l), gate := servo_gate_reset (gate l),
       loop_state := EPOCH_STATE_TRACK, last_resync := sequence\<rparr>"

definition enter_acquire :: "EpochControl \<Rightarrow> EpochControl" where
  "enter_acquire l =
     l\<lparr>pi_servo := servo_pi_reset_phase (servo_pi_enable (pi_servo l) False),
       fractional := servo_fraction_reset (fractional l), loop_state := EPOCH_STATE_ACQUIRE\<rparr>"

section \<open>The code: states\<close>

definition seed_frequency :: "PpsCaptureSample \<Rightarrow> EpochControl \<Rightarrow> bool \<times> EpochControl" where
  "seed_frequency capture l =
     (if learn_frequency (profile l) \<or> initialized (pps_kf l) then (True, l)
      else if \<not> reference_capture_valid capture then (False, l)
      else let l1 = (if \<not> seed_started l \<or> \<not> reference_period_valid capture
                        \<or> reference_period_sequence capture \<noteq> seed_sequence l + 1
                     then l\<lparr>seed_started := True, seed_first := reference_capture capture, seed_periods := 0\<rparr>
                     else l\<lparr>seed_periods := seed_periods l + 1\<rparr>);
               l2 = l1\<lparr>seed_sequence := reference_period_sequence capture\<rparr>
      in if seed_periods l2 < EPOCH_SEED_PERIODS then (False, l2)
      else let span = reference_capture capture - seed_first l2;
               excess_q16 = (uint span - uint (seed_periods l2) * uint TIMING_NOMINAL_TICKS) * 65536;
               kf = kalman_seed (pps_kf l2) (i32 (excess_q16 sdiv uint (seed_periods l2)))
      in (True, l2\<lparr>pps_kf := kf, filtered_pps_period := kalman_period kf\<rparr>))"

definition acquire :: "TimingSnapshot \<Rightarrow> int \<Rightarrow> EpochControl \<Rightarrow> EpochControl" where
  "acquire snapshot offset_ticks l =
     (if reference_epochs l < EPOCH_ACQUIRE_DELAY then request_frequency l
      else let predicted_ticks =
                 wrap_phase (i32 (offset_ticks
                     + sint (sample_running_period (snap_timer snapshot) - filtered_pps_period l)))
                   (filtered_pps_period l);
               l1 = l\<lparr>predicted_phase_q16 := 0\<rparr>
      in case compute_step (filtered_pps_period l1) predicted_ticks of
           Some step_period \<Rightarrow>
             (epoch_timer_set_period step_period (l1\<lparr>commanded_period := step_period\<rparr>))
               \<lparr>loop_state := EPOCH_STATE_STEP_ACTIVE\<rparr>
         | None \<Rightarrow> request_frequency l1)"

definition follow_step :: "TimingSnapshot \<Rightarrow> EpochControl \<Rightarrow> EpochControl" where
  "follow_step snapshot l = enter_track (sample_sequence (snap_timer snapshot)) l"

definition follow_step_hold :: "EpochControl \<Rightarrow> EpochControl" where
  "follow_step_hold l =
     (let settle_q16 = Q16_FROM_TICKS (gate_ticks (profile l) sdiv 32);
          phase_q16 = predicted_phase_q16 l;
          l1 = (if step_hold l > 0 then
                  let m = l\<lparr>step_hold := step_hold l - 1\<rparr>
                  in if step_hold_min m > 0 then m\<lparr>step_hold_min := step_hold_min m - 1\<rparr>
                     else if phase_q16 \<le> settle_q16 \<and> phase_q16 \<ge> - settle_q16 then m\<lparr>step_hold := 0\<rparr>
                     else m
                else l)
      in l1\<lparr>pi_servo := servo_pi_hold (pi_servo l1) (step_hold l1 > 0)\<rparr>)"

definition track :: "TimingSnapshot \<Rightarrow> int \<Rightarrow> EpochControl \<Rightarrow> EpochUpdateKind \<times> EpochControl" where
  "track snapshot offset_ticks l =
     (let running_offset_ticks = sint (sample_running_period (snap_timer snapshot) - TIMING_NOMINAL_TICKS);
          kalman_offset_q16 = kalman_phase_q16 (pps_kf l);
          l1 = l\<lparr>predicted_phase_q16 :=
                 servo_phase_predict_q16 (servo_phase_error_q16 offset_ticks EPOCH_PHASE_CALIBRATION_Q16)
                   running_offset_ticks (servo_holdover_offset (pi_servo l) kalman_offset_q16)\<rparr>;
          l2 = follow_step_hold l1;
          (verdict, g) = servo_gate_check (predicted_phase_q16 l2) (gate l2);
          l3 = l2\<lparr>gate := g\<rparr>
      in case verdict of
           EPOCH_PHASE_ACCEPTED \<Rightarrow>
             (let (offset, servo) = servo_offset (pi_servo l3) kalman_offset_q16 (predicted_phase_q16 l3)
              in (EPOCH_UPDATE_MEASURED,
                  request_offset offset (l3\<lparr>holdover_epochs := 0, pi_servo := servo\<rparr>)))
         | EPOCH_PHASE_REJECTED \<Rightarrow> (EPOCH_UPDATE_HOLDOVER, request_holdover l3)
         | EPOCH_PHASE_LOST \<Rightarrow> (EPOCH_UPDATE_MEASURED, request_frequency (enter_acquire l3)))"

section \<open>The code: interface\<close>

definition epoch_control_init :: "EpochControl \<Rightarrow> EpochControl" where
  "epoch_control_init l0 =
     (let p = epoch_profile_precise;
          l = l0\<lparr>loop_state := EPOCH_STATE_ACQUIRE, last_resync := 0, last_pps_sequence := 0,
                 holdover_epochs := 0, reference_epochs := 0, discard_period := False,
                 seed_started := False, step_hold := 0, step_hold_min := 0, free_run_step := 0,
                 free_run_step_taken := 0, filtered_pps_period := TIMING_NOMINAL_TICKS,
                 predicted_phase_q16 := 0, commanded_offset_q16 := 0,
                 commanded_period := TIMING_NOMINAL_TICKS, profile := p\<rparr>
      in l\<lparr>pi_servo := servo_pi_enable (servo_pi_init (pi_servo l) (profile_kp_q16 p) (profile_ki_q16 p)
                        (integral_limit_ticks p) (correction_limit_ticks p)) False,
           gate := servo_gate_init (gate l) (gate_ticks p) (profile_reject_limit p),
           fractional := servo_fraction_init (fractional l),
           pps_kf := snd (kalman_init (pps_kf l) TIMING_NOMINAL_TICKS PPS_KF_Q PPS_KF_R)\<rparr>)"

definition use_reference :: "TimingSnapshot \<Rightarrow> bool \<Rightarrow> int \<Rightarrow> EpochControl \<Rightarrow> EpochUpdateKind \<times> EpochControl" where
  "use_reference snapshot valid offset_ticks l0 =
     (let l = l0\<lparr>reference_epochs := reference_epochs l0 + 1\<rparr>
      in case loop_state l of
           EPOCH_STATE_ACQUIRE \<Rightarrow>
             if \<not> valid then (EPOCH_UPDATE_INCOMPLETE, request_frequency l)
             else let (seeded, l1) = seed_frequency (snap_capture snapshot) l
                  in if \<not> seeded then (EPOCH_UPDATE_MEASURED, request_frequency l1)
                     else (EPOCH_UPDATE_MEASURED, acquire snapshot offset_ticks l1)
         | EPOCH_STATE_STEP_ACTIVE \<Rightarrow>
             (if valid then EPOCH_UPDATE_MEASURED else EPOCH_UPDATE_INCOMPLETE,
              request_frequency (follow_step snapshot l))
         | EPOCH_STATE_TRACK \<Rightarrow>
             if \<not> valid then (EPOCH_UPDATE_HOLDOVER, request_holdover l)
             else track snapshot offset_ticks l)"

definition hold :: "TimingSnapshot \<Rightarrow> EpochControl \<Rightarrow> EpochUpdateKind \<times> EpochControl" where
  "hold snapshot l =
     (case loop_state l of
        EPOCH_STATE_STEP_ACTIVE \<Rightarrow> (EPOCH_UPDATE_HOLDOVER, request_holdover (follow_step snapshot l))
      | EPOCH_STATE_TRACK \<Rightarrow> (EPOCH_UPDATE_HOLDOVER, request_holdover l)
      | EPOCH_STATE_ACQUIRE \<Rightarrow>
          let l1 = request_frequency l
          in (EPOCH_UPDATE_FREE_RUN,
              if free_run_step l1 \<noteq> 0 then
                let l2 = l1\<lparr>commanded_period := word_of_int (i32 (sint (commanded_period l1) + free_run_step l1))\<rparr>
                in (epoch_timer_set_period (commanded_period l2) l2)
                     \<lparr>free_run_step_taken := free_run_step l1, free_run_step := 0\<rparr>
              else l1))"

definition epoch_control_update :: "TimingSnapshot \<Rightarrow> bool \<Rightarrow> int \<Rightarrow> EpochControl \<Rightarrow> EpochUpdate \<times> EpochControl" where
  "epoch_control_update snapshot reference_usable reference_offset_ticks l0 =
     (let capture = snap_capture snapshot;
          l1 = update_kalman capture reference_usable l0;
          l2 = (if \<not> reference_usable then l1\<lparr>discard_period := True\<rparr> else l1);
          valid = (reference_capture_valid capture \<and> epoch_capture_valid capture);
          offset_ticks =
            (if valid then wrap_phase (i32 (sint (epoch_capture capture - reference_capture capture)
                                            + reference_offset_ticks)) (filtered_pps_period l2)
             else 0);
          l3 = (if reference_usable then l2\<lparr>free_run_step := 0\<rparr> else l2);
          (k, l4) = (if reference_usable then use_reference snapshot valid offset_ticks l3
                     else hold snapshot l3)
      in (\<lparr>kind = k, phase_valid = valid, utc_offset_ticks = offset_ticks\<rparr>, l4))"

definition epoch_control_restart :: "EpochProfile option \<Rightarrow> bool \<Rightarrow> EpochControl \<Rightarrow> EpochControl" where
  "epoch_control_restart new_profile slew l0 =
     (let l1 = (case new_profile of Some p \<Rightarrow> l0\<lparr>profile := p\<rparr> | None \<Rightarrow> l0);
          p = profile l1;
          servo = servo_pi_set_gains (pi_servo l1) (profile_kp_q16 p) (profile_ki_q16 p)
                    (integral_limit_ticks p) (correction_limit_ticks p);
          l2 = l1\<lparr>gate := servo_gate_reset (servo_gate_set_limits (gate l1) (gate_ticks p) (profile_reject_limit p)),
                  reference_epochs := 0, holdover_epochs := 0, discard_period := True,
                  seed_started := False, step_hold := 0, pi_servo := servo_pi_hold servo False\<rparr>
      in if slew \<and> loop_state l2 = EPOCH_STATE_TRACK
         then l2\<lparr>pi_servo := servo_pi_reset_phase (pi_servo l2)\<rparr>
         else let l3 = enter_acquire l2 in l3\<lparr>pi_servo := servo_pi_reset (pi_servo l3)\<rparr>)"

definition epoch_control_seed :: "int \<Rightarrow> EpochControl \<Rightarrow> EpochControl" where
  "epoch_control_seed offset l =
     (let kf = kalman_seed (pps_kf l) offset
      in l\<lparr>pps_kf := kf, filtered_pps_period := kalman_period kf\<rparr>)"

definition epoch_control_free_run_step :: "int \<Rightarrow> EpochControl \<Rightarrow> EpochControl" where
  "epoch_control_free_run_step ticks l =
     (let half = sint (TIMING_NOMINAL_TICKS div 2)
      in l\<lparr>free_run_step := (if ticks > half then half else if ticks < - half then - half else ticks)\<rparr>)"

definition epoch_control_source_stepped :: "EpochControl \<Rightarrow> EpochControl" where
  "epoch_control_source_stepped l = l\<lparr>step_hold := EPOCH_STEP_HOLD_MAX, step_hold_min := EPOCH_STEP_HOLD_MIN\<rparr>"

definition epoch_control_holdover_offset_q16 :: "EpochControl \<Rightarrow> int" where
  "epoch_control_holdover_offset_q16 l = servo_holdover_offset (pi_servo l) (kalman_phase_q16 (pps_kf l))"

section \<open>The invariant\<close>

definition profile_ok :: "EpochProfile \<Rightarrow> bool" where
  "profile_ok p \<longleftrightarrow> ticks_ok (integral_limit_ticks p) \<and> ticks_ok (correction_limit_ticks p) \<and> ticks_ok (gate_ticks p)"

definition loop_ok :: "EpochControl \<Rightarrow> bool" where
  "loop_ok l \<longleftrightarrow>
     kalman_ok (pps_kf l) \<and> nominal_period (pps_kf l) = TIMING_NOMINAL_TICKS \<and>
     filtered_pps_period l = kalman_period (pps_kf l) \<and> servo_ok (pi_servo l) \<and> gate_ok (gate l) \<and>
     profile_ok (profile l) \<and> \<bar>free_run_step l\<bar> \<le> 20000000"

text \<open>What a request leaves alone, and the period it asks for.\<close>

lemma request_offset_frame [frame_simps]:
  "loop_state (request_offset x l) = loop_state l" "pps_kf (request_offset x l) = pps_kf l"
  "pi_servo (request_offset x l) = pi_servo l" "gate (request_offset x l) = gate l"
  "profile (request_offset x l) = profile l" "free_run_step (request_offset x l) = free_run_step l"
  "filtered_pps_period (request_offset x l) = filtered_pps_period l"
  "discard_period (request_offset x l) = discard_period l"
  "step_hold (request_offset x l) = step_hold l" "step_hold_min (request_offset x l) = step_hold_min l"
  "holdover_epochs (request_offset x l) = holdover_epochs l"
  "running_period (request_offset x l) = running_period l"
  "requested_period_pending (request_offset x l)"
  "requested_period (request_offset x l) = commanded_period (request_offset x l)"
  by (simp_all add: request_offset_def Let_def epoch_timer_set_period_def split: prod.splits)

lemma request_frequency_frame [frame_simps]:
  "loop_state (request_frequency l) = loop_state l" "pps_kf (request_frequency l) = pps_kf l"
  "pi_servo (request_frequency l) = pi_servo l" "gate (request_frequency l) = gate l"
  "profile (request_frequency l) = profile l" "free_run_step (request_frequency l) = free_run_step l"
  "filtered_pps_period (request_frequency l) = filtered_pps_period l"
  "discard_period (request_frequency l) = discard_period l"
  "step_hold (request_frequency l) = step_hold l" "step_hold_min (request_frequency l) = step_hold_min l"
  "holdover_epochs (request_frequency l) = holdover_epochs l"
  "running_period (request_frequency l) = running_period l"
  "requested_period_pending (request_frequency l)"
  "requested_period (request_frequency l) = commanded_period (request_frequency l)"
  by (simp_all add: request_frequency_def frame_simps)

lemma request_holdover_frame [frame_simps]:
  "loop_state (request_holdover l) = loop_state l" "pps_kf (request_holdover l) = pps_kf l"
  "pi_servo (request_holdover l) = pi_servo l" "gate (request_holdover l) = gate l"
  "profile (request_holdover l) = profile l" "free_run_step (request_holdover l) = free_run_step l"
  "filtered_pps_period (request_holdover l) = filtered_pps_period l"
  "discard_period (request_holdover l) = discard_period l"
  "step_hold (request_holdover l) = step_hold l" "step_hold_min (request_holdover l) = step_hold_min l"
  "holdover_epochs (request_holdover l) = holdover_epochs l + 1"
  "running_period (request_holdover l) = running_period l"
  "requested_period_pending (request_holdover l)"
  "requested_period (request_holdover l) = commanded_period (request_holdover l)"
  by (simp_all add: request_holdover_def frame_simps)

lemma loop_ok_frame:
  "loop_ok (request_offset x l) = loop_ok l" "loop_ok (request_frequency l) = loop_ok l"
  "loop_ok (request_holdover l) = loop_ok l"
  by (simp_all add: loop_ok_def frame_simps)

definition period_ok :: "int \<Rightarrow> u32 \<Rightarrow> bool" where
  "period_ok d p \<longleftrightarrow> \<bar>uint p - 40000000\<bar> \<le> d"

text \<open>The offset limit of two tick limits: estimate less correction or integral.\<close>

definition offset2_ok :: "int \<Rightarrow> bool" where "offset2_ok x \<longleftrightarrow> \<bar>x\<bar> \<le> 2 * 16383 * 65536"

lemma nominal_uint: "uint TIMING_NOMINAL_TICKS = 40000000" by (simp add: timer_consts)

lemma request_offset_period:
  assumes "offset2_ok x"
  shows "period_ok 32767 (commanded_period (request_offset x l))"
proof -
  obtain p acc where r: "servo_fraction_next (fractional l) TIMING_NOMINAL_TICKS x = (p, acc)" by fastforce
  have x: "- (32766 * 65536) \<le> x" "x \<le> 32766 * 65536" using assms by (auto simp: offset2_ok_def)
  then have d: "- 32766 \<le> x div 65536" "x div 65536 \<le> 32766"
    using zdiv_mono1 [of "- (32766 * 65536)" x 65536] zdiv_mono1 [of x "32766 * 65536" 65536] by auto
  have "uint p - (uint TIMING_NOMINAL_TICKS + x div 65536) \<in> {0, 1}"
    using x d by (intro fraction_step(2) [OF _ _ _ r] in_i32I) (auto simp: nominal_uint)
  moreover have "commanded_period (request_offset x l) = p"
    by (simp add: request_offset_def r epoch_timer_set_period_def)
  ultimately show ?thesis using d by (auto simp: period_ok_def nominal_uint)
qed

lemma holdover_offset_ok:
  assumes "loop_ok l"
  shows "offset2_ok (epoch_control_holdover_offset_q16 l)"
    and "epoch_control_holdover_offset_q16 l
      = offset_q16 (pps_kf l) - (if pi_enabled (pi_servo l) then integral_q16 (pi_servo l) else 0)"
proof -
  have k: "\<bar>offset_q16 (pps_kf l)\<bar> \<le> 16383 * 65536" "\<bar>integral_q16 (pi_servo l)\<bar> \<le> 16383 * 65536"
    using assms by (auto simp: loop_ok_def kalman_ok_def offset_ok_def servo_ok_def q16_limit_def)
  then have "i32 (offset_q16 (pps_kf l) - integral_q16 (pi_servo l)) = offset_q16 (pps_kf l) - integral_q16 (pi_servo l)"
    by (intro i32_abs_id) simp
  then show "epoch_control_holdover_offset_q16 l
      = offset_q16 (pps_kf l) - (if pi_enabled (pi_servo l) then integral_q16 (pi_servo l) else 0)"
    by (simp add: epoch_control_holdover_offset_q16_def servo_holdover_offset_def kalman_phase_q16_def)
  then show "offset2_ok (epoch_control_holdover_offset_q16 l)" using k by (auto simp: offset2_ok_def abs_le_iff)
qed

lemma request_frequency_period: "loop_ok l \<Longrightarrow> period_ok 32767 (commanded_period (request_frequency l))"
  using holdover_offset_ok(1) [of l]
  by (simp add: request_frequency_def epoch_control_holdover_offset_q16_def request_offset_period)

lemma request_holdover_period: "loop_ok l \<Longrightarrow> period_ok 32767 (commanded_period (request_holdover l))"
  unfolding request_holdover_def by (rule request_frequency_period) (simp add: loop_ok_def)

lemma enter_track_ok: "loop_ok l \<Longrightarrow> loop_ok (enter_track q l)"
  by (auto simp: loop_ok_def enter_track_def servo_ops_ok gate_ok_def servo_gate_reset_def word_gt_0
      dest: le_less_trans [OF word_zero_le])

lemma enter_acquire_ok: "loop_ok l \<Longrightarrow> loop_ok (enter_acquire l)"
  by (simp add: loop_ok_def enter_acquire_def servo_ops_ok)

lemma follow_step_hold_frame [frame_simps]:
  "loop_state (follow_step_hold l) = loop_state l" "pps_kf (follow_step_hold l) = pps_kf l"
  "gate (follow_step_hold l) = gate l" "profile (follow_step_hold l) = profile l"
  "free_run_step (follow_step_hold l) = free_run_step l"
  "filtered_pps_period (follow_step_hold l) = filtered_pps_period l"
  "predicted_phase_q16 (follow_step_hold l) = predicted_phase_q16 l"
  "pi_servo (follow_step_hold l) = servo_pi_hold (pi_servo l) (step_hold (follow_step_hold l) > 0)"
  by (simp_all add: follow_step_hold_def Let_def)

lemma follow_step_hold_ok: "loop_ok l \<Longrightarrow> loop_ok (follow_step_hold l)"
  by (simp add: loop_ok_def frame_simps servo_ops_ok)

lemma predict_ok: "phase_ok (servo_phase_predict_q16 e r k)"
proof -
  have "\<bar>servo_phase_predict_q16 e r k\<bar> \<le> 16383 * 65536" by (rule phase_predict_bound)
  then show ?thesis by (simp add: phase_ok_def)
qed

section \<open>What an update requests\<close>

text \<open>A period is pending, it is the one commanded, and it is half a second to one and a half,
  give or take the frequency offset.\<close>

definition requests :: "EpochControl \<Rightarrow> bool" where
  "requests l \<longleftrightarrow> requested_period_pending l \<and> requested_period l = commanded_period l \<and>
     period_ok 20032767 (commanded_period l)"

lemma period_ok_weaken: "period_ok d p \<Longrightarrow> d \<le> d' \<Longrightarrow> period_ok d' p"
  by (simp add: period_ok_def)

lemma requests_offset: "offset2_ok x \<Longrightarrow> requests (request_offset x l)"
  by (simp add: requests_def frame_simps period_ok_weaken [OF request_offset_period])

lemma requests_frequency: "loop_ok l \<Longrightarrow> requests (request_frequency l)"
  by (simp add: requests_def frame_simps period_ok_weaken [OF request_frequency_period])

lemma requests_holdover: "loop_ok l \<Longrightarrow> requests (request_holdover l)"
  by (simp add: requests_def frame_simps period_ok_weaken [OF request_holdover_period])

lemma servo_offset_ok:
  assumes "loop_ok l" "phase_ok e"
  shows "offset2_ok (fst (servo_offset (pi_servo l) (kalman_phase_q16 (pps_kf l)) e))"
    "servo_ok (snd (servo_offset (pi_servo l) (kalman_phase_q16 (pps_kf l)) e))"
proof -
  have ok: "servo_ok (pi_servo l)" using assms(1) by (simp add: loop_ok_def)
  obtain c s where u: "servo_pi_update (pi_servo l) e = (c, s)" by fastforce
  have x: "exact_pi_update (pi_servo l) e = (c, s)" using pi_update_exact [OF ok assms(2)] u by simp
  have "\<bar>c\<bar> \<le> correction_limit_q16 (pi_servo l)" "servo_ok s"
    using exact_pi_ok [OF ok, of e] by (simp_all add: x)
  then have c: "\<bar>c\<bar> \<le> 16383 * 65536" using ok by (simp add: servo_ok_def q16_limit_def)
  have k: "\<bar>offset_q16 (pps_kf l)\<bar> \<le> 16383 * 65536"
    using assms(1) by (simp add: loop_ok_def kalman_ok_def offset_ok_def)
  have "i32 (offset_q16 (pps_kf l) - c) = offset_q16 (pps_kf l) - c" using c k by (intro i32_abs_id) simp
  then show "offset2_ok (fst (servo_offset (pi_servo l) (kalman_phase_q16 (pps_kf l)) e))"
    using c k by (auto simp: servo_offset_def u kalman_phase_q16_def offset2_ok_def abs_le_iff)
  show "servo_ok (snd (servo_offset (pi_servo l) (kalman_phase_q16 (pps_kf l)) e))"
    using \<open>servo_ok s\<close> by (simp add: servo_offset_def u)
qed

lemma track_result:
  assumes ok: "loop_ok l" and t: "loop_state l = EPOCH_STATE_TRACK"
  shows "loop_ok (snd (track snap x l)) \<and> requests (snd (track snap x l))
    \<and> loop_state (snd (track snap x l)) \<in> {EPOCH_STATE_TRACK, EPOCH_STATE_ACQUIRE}
    \<and> (loop_state (snd (track snap x l)) = EPOCH_STATE_ACQUIRE
        \<longleftrightarrow> fst (servo_gate_check (predicted_phase_q16 (snd (track snap x l))) (gate l)) = EPOCH_PHASE_LOST)"
proof -
  define ph where "ph = servo_phase_predict_q16 (servo_phase_error_q16 x EPOCH_PHASE_CALIBRATION_Q16)
     (sint (sample_running_period (snap_timer snap) - TIMING_NOMINAL_TICKS))
     (servo_holdover_offset (pi_servo l) (kalman_phase_q16 (pps_kf l)))"
  define l2 where "l2 = follow_step_hold (l\<lparr>predicted_phase_q16 := ph\<rparr>)"
  have ph: "phase_ok ph" unfolding ph_def by (rule predict_ok)
  have "loop_ok (l\<lparr>predicted_phase_q16 := ph\<rparr>)" using ok by (simp add: loop_ok_def)
  then have ok2: "loop_ok l2" unfolding l2_def by (rule follow_step_hold_ok)
  have l2: "loop_state l2 = EPOCH_STATE_TRACK" "pps_kf l2 = pps_kf l" "gate l2 = gate l" "predicted_phase_q16 l2 = ph"
    by (simp_all add: l2_def frame_simps t)
  obtain v g where vg: "servo_gate_check ph (gate l) = (v, g)" by fastforce
  have g: "gate_ok g" using gate_check_ok [of "gate l" ph] ok by (simp add: vg loop_ok_def)
  define l3 where "l3 = l2\<lparr>gate := g\<rparr>"
  have ok3: "loop_ok l3" using ok2 g by (simp add: l3_def loop_ok_def)
  have l3: "loop_state l3 = EPOCH_STATE_TRACK" "pps_kf l3 = pps_kf l" "predicted_phase_q16 l3 = ph"
    by (simp_all add: l3_def l2)
  obtain y sv where so: "servo_offset (pi_servo l3) (kalman_phase_q16 (pps_kf l)) ph = (y, sv)" by fastforce
  have y: "offset2_ok y" "servo_ok sv" using servo_offset_ok [OF ok3 ph] by (simp_all add: l3 so)
  have T: "track snap x l = (case v of
        EPOCH_PHASE_ACCEPTED \<Rightarrow> (EPOCH_UPDATE_MEASURED, request_offset y (l3\<lparr>holdover_epochs := 0, pi_servo := sv\<rparr>))
      | EPOCH_PHASE_REJECTED \<Rightarrow> (EPOCH_UPDATE_HOLDOVER, request_holdover l3)
      | EPOCH_PHASE_LOST \<Rightarrow> (EPOCH_UPDATE_MEASURED, request_frequency (enter_acquire l3)))"
    unfolding track_def Let_def ph_def [symmetric] l2_def [symmetric] l2 vg prod.case l3_def [symmetric]
      l3(3) so by (rule refl)
  have acc: "loop_ok (l3\<lparr>holdover_epochs := 0, pi_servo := sv\<rparr>)" using ok3 y by (simp add: loop_ok_def)
  have pred: "predicted_phase_q16 (snd (track snap x l)) = ph"
    by (cases v) (simp_all add: T l3 request_offset_def request_holdover_def request_frequency_def
        enter_acquire_def epoch_timer_set_period_def split: prod.splits)
  have st: "loop_state (enter_acquire l3) = EPOCH_STATE_ACQUIRE" by (simp add: enter_acquire_def)
  show ?thesis
    unfolding pred vg fst_conv
    using ok3 acc y(1) enter_acquire_ok [OF ok3] st
    by (cases v) (simp_all add: T loop_ok_frame frame_simps l3 requests_offset requests_frequency requests_holdover)
qed

lemma kalman_update_nominal: "nominal_period (snd (kalman_update kf m)) = nominal_period kf"
  by (simp add: kalman_update_def Let_def count_accepted_def kalman_acquire_def)

lemma update_kalman_ok: "loop_ok l \<Longrightarrow> loop_ok (update_kalman c learn l)"
  by (auto simp: loop_ok_def update_kalman_def Let_def kalman_update_ok kalman_update_nominal)

lemma update_kalman_frame [frame_simps]:
  "loop_state (update_kalman c learn l) = loop_state l" "pi_servo (update_kalman c learn l) = pi_servo l"
  "gate (update_kalman c learn l) = gate l" "profile (update_kalman c learn l) = profile l"
  "reference_epochs (update_kalman c learn l) = reference_epochs l"
  "seed_started (update_kalman c learn l) = seed_started l"
  "seed_first (update_kalman c learn l) = seed_first l"
  "seed_sequence (update_kalman c learn l) = seed_sequence l"
  "seed_periods (update_kalman c learn l) = seed_periods l"
  "free_run_step (update_kalman c learn l) = free_run_step l"
  "step_hold (update_kalman c learn l) = step_hold l" "step_hold_min (update_kalman c learn l) = step_hold_min l"
  "holdover_epochs (update_kalman c learn l) = holdover_epochs l"
  by (simp_all add: update_kalman_def Let_def)

lemma update_kalman_unusable: "pps_kf (update_kalman c False l) = pps_kf l"
  by (simp add: update_kalman_def Let_def)

text \<open>
  The period the seed averages: when the next consecutive period completes a baseline, the whole
  of it is within the tick limit per period of nominal. The capture only ensures 1000 ppm for
  each. Nothing is asked while there is no seed to measure.
\<close>

definition seed_fits :: "PpsCaptureSample \<Rightarrow> EpochControl \<Rightarrow> bool" where
  "seed_fits capture l \<longleftrightarrow>
     (let n = uint (seed_periods l + 1); span = uint (reference_capture capture - seed_first l)
      in \<not> learn_frequency (profile l) \<and> \<not> initialized (pps_kf l) \<and> reference_capture_valid capture
         \<and> seed_started l \<and> reference_period_valid capture
         \<and> reference_period_sequence capture = seed_sequence l + 1 \<and> 16 \<le> n
         \<longrightarrow> \<bar>span - n * 40000000\<bar> \<le> n * 16383)"

lemma update_kalman_fits: "seed_fits d l \<Longrightarrow> seed_fits d (update_kalman c learn l)"
  by (simp add: update_kalman_def seed_fits_def Let_def)

lemma seed_average:
  assumes "\<bar>d\<bar> \<le> n * 16383" "16 \<le> n"
  shows "offset_ok (i32 ((d * 65536) sdiv n))"
proof -
  have "\<bar>(d * 65536) sdiv n\<bar> \<le> 16383 * 65536"
  proof -
    have "\<bar>(d * 65536) sdiv n\<bar> = \<bar>d * 65536\<bar> div n"
    proof -
      have "0 \<le> \<bar>d * 65536\<bar> div n" using assms(2) by (simp add: pos_imp_zdiv_nonneg_iff)
      moreover have "(d * 65536) sdiv n = sgn (d * 65536) * (\<bar>d * 65536\<bar> div n)"
        using assms(2) by (simp add: signed_divide_int_def)
      ultimately show ?thesis by (cases "d = 0") (simp_all add: abs_mult abs_sgn_eq)
    qed
    also have "\<dots> \<le> (n * 16383 * 65536) div n"
      using assms by (intro zdiv_mono1) (auto simp: abs_mult)
    also have "\<dots> = 16383 * 65536" using assms(2) by simp
    finally show ?thesis .
  qed
  then show ?thesis by (simp add: offset_ok_def i32_abs_id)
qed

lemma seed_frequency_result:
  assumes ok: "loop_ok l" and fits: "seed_fits c l"
  shows "loop_ok (snd (seed_frequency c l))" "loop_state (snd (seed_frequency c l)) = loop_state l"
    "free_run_step (snd (seed_frequency c l)) = free_run_step l"
    "reference_epochs (snd (seed_frequency c l)) = reference_epochs l"
proof -
  define l1 where "l1 = (if \<not> seed_started l \<or> \<not> reference_period_valid c
      \<or> reference_period_sequence c \<noteq> seed_sequence l + 1
    then l\<lparr>seed_started := True, seed_first := reference_capture c, seed_periods := 0\<rparr>
    else l\<lparr>seed_periods := seed_periods l + 1\<rparr>)"
  define l2 where "l2 = l1\<lparr>seed_sequence := reference_period_sequence c\<rparr>"
  have f: "loop_ok l2 = loop_ok l" "loop_state l2 = loop_state l" "free_run_step l2 = free_run_step l"
    "reference_epochs l2 = reference_epochs l" "pps_kf l2 = pps_kf l" "seed_periods l2 = seed_periods l1"
    "seed_first l2 = seed_first l1"
    by (simp_all add: l2_def l1_def loop_ok_def)
  define d where "d = uint (reference_capture c - seed_first l2) - uint (seed_periods l2) * uint TIMING_NOMINAL_TICKS"
  define kf where "kf = kalman_seed (pps_kf l2) (i32 ((d * 65536) sdiv uint (seed_periods l2)))"
  have r: "seed_frequency c l =
     (if learn_frequency (profile l) \<or> initialized (pps_kf l) then (True, l)
      else if \<not> reference_capture_valid c then (False, l)
      else if seed_periods l2 < EPOCH_SEED_PERIODS then (False, l2)
      else (True, l2\<lparr>pps_kf := kf, filtered_pps_period := kalman_period kf\<rparr>))"
    unfolding seed_frequency_def Let_def l1_def [symmetric] l2_def [symmetric] d_def [symmetric] kf_def [symmetric]
    by (rule refl)
  have off: "offset_ok (i32 ((d * 65536) sdiv uint (seed_periods l2)))"
    if n: "\<not> seed_periods l2 < EPOCH_SEED_PERIODS" and used: "\<not> (learn_frequency (profile l) \<or> initialized (pps_kf l))"
      "reference_capture_valid c"
  proof -
    have n16: "16 \<le> uint (seed_periods l2)"
      using n by (simp add: EPOCH_SEED_PERIODS_def word_less_def)
    have nz: "seed_periods l1 \<noteq> 0" using n by (auto simp: f EPOCH_SEED_PERIODS_def)
    have "\<not> (\<not> seed_started l \<or> \<not> reference_period_valid c \<or> reference_period_sequence c \<noteq> seed_sequence l + 1)"
    proof
      assume a: "\<not> seed_started l \<or> \<not> reference_period_valid c \<or> reference_period_sequence c \<noteq> seed_sequence l + 1"
      show False using nz unfolding l1_def if_P [OF a] by simp
    qed
    from if_not_P [OF this] have "l1 = l\<lparr>seed_periods := seed_periods l + 1\<rparr>" by (simp only: l1_def)
    then have "\<bar>d\<bar> \<le> uint (seed_periods l2) * 16383"
      using fits used n16 \<open>\<not> (\<not> seed_started l \<or> _ \<or> _)\<close> by (simp add: seed_fits_def Let_def d_def f nominal_uint)
    then show ?thesis using n16 by (rule seed_average)
  qed
  have "loop_ok (l2\<lparr>pps_kf := kf, filtered_pps_period := kalman_period kf\<rparr>)"
    if "\<not> seed_periods l2 < EPOCH_SEED_PERIODS" "\<not> (learn_frequency (profile l) \<or> initialized (pps_kf l))"
      "reference_capture_valid c"
    using ok off [OF that] f(1) kalman_acquire_ok [of "pps_kf l"]
    by (simp add: loop_ok_def kf_def f(5) kalman_seed_def) (simp add: kalman_acquire_def)
  then show "loop_ok (snd (seed_frequency c l))" "loop_state (snd (seed_frequency c l)) = loop_state l"
    "free_run_step (snd (seed_frequency c l)) = free_run_step l"
    "reference_epochs (snd (seed_frequency c l)) = reference_epochs l"
    using ok f by (auto simp: r)
qed

lemma word_of_i32: "word_of_int (i32 x) = (word_of_int x :: u32)"
proof -
  have "take_bit 32 (signed_take_bit 31 x) = take_bit 32 x" by (simp add: take_bit_signed_take_bit)
  then show ?thesis by (simp add: word_uint_eq_iff uint_word_of_int i32_def take_bit_eq_mod)
qed

lemma compute_step_exact:
  assumes "compute_step base x = Some p" "in_i32 x" "uint base \<le> 2 ^ 30"
  shows "uint p = uint base - x" "20000000 \<le> uint p" "uint p \<le> 60000000"
proof -
  have p: "p = base + word_of_int (- x)" "\<not> p < TIMING_HALF_SECOND_TICKS"
    "\<not> p > TIMING_HALF_SECOND_TICKS + TIMING_NOMINAL_TICKS"
    using assms(1) by (auto simp: compute_step_def Let_def word_of_i32 split: if_splits)
  have k: "uint TIMING_HALF_SECOND_TICKS = 20000000"
    "uint (TIMING_HALF_SECOND_TICKS + TIMING_NOMINAL_TICKS) = 60000000" by (simp_all add: timer_consts)
  show b: "20000000 \<le> uint p" "uint p \<le> 60000000"
    using p(2,3) by (simp_all add: word_less_def k)
  have i: "- 2147483648 \<le> x" "x \<le> 2147483647" using in_i32D [OF assms(2)] by auto
  have u: "uint p = (uint base - x) mod 4294967296"
    by (simp add: p(1) uint_word_ariths uint_word_of_int mod_simps)
  show "uint p = uint base - x"
  proof (cases "0 \<le> uint base - x")
    case True
    moreover have "uint base - x < 2 ^ 32" using i assms(3) by simp
    ultimately show ?thesis by (simp add: u)
  next
    case False
    have "(uint base - x) mod 4294967296 = (uint base - x + 4294967296) mod 4294967296" by simp
    also have "\<dots> = uint base - x + 4294967296"
      using False i uint_ge_0 [of base] by (intro mod_pos_pos_trivial) linarith+
    finally have q: "(uint base - x) mod 4294967296 = uint base - x + 4294967296" .
    have "60000000 < uint p" unfolding u q using i uint_ge_0 [of base] by linarith
    then show ?thesis using b(2) by simp
  qed
qed

lemma wrap_phase_exact:
  assumes "in_i32 x" "0 < uint P" "uint P \<le> 2 ^ 30"
  shows "\<exists>k. wrap_phase x P = x + k * uint P" "in_i32 (wrap_phase x P)"
    "\<bar>x\<bar> \<le> uint P \<Longrightarrow> 2 * \<bar>wrap_phase x P\<bar> \<le> uint P + 1"
proof -
  have "- (2 ^ 31) \<le> uint P" by (rule order_trans [OF _ uint_ge_0]) simp
  then have s: "sint P = uint P" using assms(3) by (simp add: sint_uint signed_take_bit_int_eq_self)
  have "P \<noteq> 0" using assms(2) by auto
  then have h: "sint P sdiv 2 = uint P div 2" using assms(2) by (simp add: s signed_divide_int_def)
  have i: "- (2 ^ 31) \<le> x" "x < 2 ^ 31" using assms(1) by (auto simp: in_i32_def)
  have h0: "0 \<le> uint P div 2" "uint P div 2 \<le> uint P" "2 * (uint P div 2) \<le> uint P" "uint P \<le> 2 * (uint P div 2) + 1"
    using assms(2) by (auto simp: pos_imp_zdiv_nonneg_iff)
  have m: "in_i32 (x - uint P)" if "x \<ge> uint P div 2" using that i assms(2,3) h0 by (auto simp: in_i32_def)
  have p: "in_i32 (x + uint P)" if "x < - (uint P div 2)" using that i assms(2,3) h0 by (auto simp: in_i32_def)
  have w: "wrap_phase x P = (if x \<ge> uint P div 2 then x - uint P
      else if x < - (uint P div 2) then x + uint P else x)"
    using i32_id [OF m] i32_id [OF p] by (auto simp: wrap_phase_def Let_def s h [unfolded s])
  have "wrap_phase x P = x + (if x \<ge> uint P div 2 then - 1 else if x < - (uint P div 2) then 1 else 0) * uint P"
    by (simp add: w)
  then show "\<exists>k. wrap_phase x P = x + k * uint P" by blast
  show "in_i32 (wrap_phase x P)" using m p assms(1) by (simp add: w)
  show "\<bar>x\<bar> \<le> uint P \<Longrightarrow> 2 * \<bar>wrap_phase x P\<bar> \<le> uint P + 1"
    using h0 by (auto simp: w abs_if split: if_splits)
qed

lemma filtered_bounds:
  assumes "loop_ok l"
  shows "uint (filtered_pps_period l) \<le> 2 ^ 30" "period_ok 16384 (filtered_pps_period l)"
proof -
  have "\<bar>uint (filtered_pps_period l) * 65536 - (40000000 * 65536 + offset_q16 (pps_kf l))\<bar> \<le> 32768"
    using assms kalman_period_nearest [of "pps_kf l"] by (simp add: loop_ok_def nominal_uint)
  moreover have "\<bar>offset_q16 (pps_kf l)\<bar> \<le> 16383 * 65536"
    using assms by (simp add: loop_ok_def kalman_ok_def offset_ok_def)
  ultimately show "period_ok 16384 (filtered_pps_period l)" unfolding period_ok_def by linarith
  then show "uint (filtered_pps_period l) \<le> 2 ^ 30" by (simp add: period_ok_def)
qed

lemma acquire_result:
  assumes ok: "loop_ok l" and st: "loop_state l = EPOCH_STATE_ACQUIRE"
  shows "loop_ok (acquire snap x l) \<and> requests (acquire snap x l)
    \<and> free_run_step (acquire snap x l) = free_run_step l
    \<and> filtered_pps_period (acquire snap x l) = filtered_pps_period l
    \<and> loop_state (acquire snap x l) \<in> {EPOCH_STATE_ACQUIRE, EPOCH_STATE_STEP_ACTIVE}
    \<and> (loop_state (acquire snap x l) = EPOCH_STATE_STEP_ACTIVE \<longrightarrow>
        reference_epochs l \<ge> EPOCH_ACQUIRE_DELAY \<and>
        compute_step (filtered_pps_period l)
          (wrap_phase (i32 (x + sint (sample_running_period (snap_timer snap) - filtered_pps_period l)))
             (filtered_pps_period l)) = Some (commanded_period (acquire snap x l)))"
proof (cases "reference_epochs l < EPOCH_ACQUIRE_DELAY")
  case True
  then show ?thesis
    using ok st by (simp add: acquire_def loop_ok_frame requests_frequency frame_simps)
next
  case False
  define y where "y = wrap_phase (i32 (x + sint (sample_running_period (snap_timer snap) - filtered_pps_period l)))
             (filtered_pps_period l)"
  define l1 where "l1 = l\<lparr>predicted_phase_q16 := 0\<rparr>"
  have ok1: "loop_ok l1" using ok by (simp add: l1_def loop_ok_def)
  have l1: "filtered_pps_period l1 = filtered_pps_period l" "loop_state l1 = EPOCH_STATE_ACQUIRE"
    "free_run_step l1 = free_run_step l"
    by (simp_all add: l1_def st)
  have A: "acquire snap x l = (case compute_step (filtered_pps_period l) y of
      Some p \<Rightarrow> (epoch_timer_set_period p (l1\<lparr>commanded_period := p\<rparr>))\<lparr>loop_state := EPOCH_STATE_STEP_ACTIVE\<rparr>
    | None \<Rightarrow> request_frequency l1)"
    unfolding acquire_def if_not_P [OF False] Let_def y_def [symmetric] l1_def [symmetric] l1(1)
    by (rule refl)
  show ?thesis
  proof (cases "compute_step (filtered_pps_period l) y")
    case None
    then show ?thesis
      using ok1 l1 by (simp add: A loop_ok_frame requests_frequency frame_simps)
  next
    case (Some p)
    have f0: "0 < uint (filtered_pps_period l)" using filtered_bounds(2) [OF ok] by (auto simp: period_ok_def)
    have "in_i32 y" unfolding y_def
      by (rule wrap_phase_exact(2) [OF i32_range f0 filtered_bounds(1) [OF ok]])
    then have "20000000 \<le> uint p" "uint p \<le> 60000000"
      using compute_step_exact [OF Some] filtered_bounds(1) [OF ok] by auto
    then have p: "period_ok 20032767 p" by (simp add: period_ok_def)
    have "loop_ok ((epoch_timer_set_period p (l1\<lparr>commanded_period := p\<rparr>))\<lparr>loop_state := EPOCH_STATE_STEP_ACTIVE\<rparr>)"
      using ok1 by (simp add: loop_ok_def epoch_timer_set_period_def)
    then show ?thesis
      using p l1 Some False
      by (simp add: A requests_def not_less flip: y_def) (simp add: epoch_timer_set_period_def)
  qed
qed

section \<open>One epoch\<close>

text \<open>The transitions an epoch may make, as a relation on states; \<open>usable\<close> and \<open>valid\<close> say
  whether the reference could be used and both captures were in.\<close>

inductive epoch_edge :: "bool \<Rightarrow> bool \<Rightarrow> u32 \<Rightarrow> EpochSyncState \<Rightarrow> EpochSyncState \<Rightarrow> bool" where
  wait: "epoch_edge usable valid n EPOCH_STATE_ACQUIRE EPOCH_STATE_ACQUIRE"
| step: "usable \<Longrightarrow> valid \<Longrightarrow> n \<ge> EPOCH_ACQUIRE_DELAY \<Longrightarrow>
    epoch_edge usable valid n EPOCH_STATE_ACQUIRE EPOCH_STATE_STEP_ACTIVE"
| follow: "epoch_edge usable valid n EPOCH_STATE_STEP_ACTIVE EPOCH_STATE_TRACK"
| stay: "epoch_edge usable valid n EPOCH_STATE_TRACK EPOCH_STATE_TRACK"
| lost: "usable \<Longrightarrow> valid \<Longrightarrow> epoch_edge usable valid n EPOCH_STATE_TRACK EPOCH_STATE_ACQUIRE"

inductive_cases edge_from_step: "epoch_edge usable valid n EPOCH_STATE_STEP_ACTIVE s"
inductive_simps edge_simps [simp]:
  "epoch_edge usable valid n EPOCH_STATE_ACQUIRE s"
  "epoch_edge usable valid n EPOCH_STATE_STEP_ACTIVE s"
  "epoch_edge usable valid n EPOCH_STATE_TRACK s"

lemma follow_step_ok: "loop_ok l \<Longrightarrow> loop_ok (follow_step snap l)"
  by (simp add: follow_step_def enter_track_ok)

lemma follow_step_state: "loop_state (follow_step snap l) = EPOCH_STATE_TRACK"
  by (simp add: follow_step_def enter_track_def)

lemma use_reference_result:
  assumes ok: "loop_ok l" and fits: "seed_fits (snap_capture snap) l"
  shows "loop_ok (snd (use_reference snap valid x l)) \<and> requests (snd (use_reference snap valid x l))
    \<and> epoch_edge True valid (reference_epochs l + 1) (loop_state l) (loop_state (snd (use_reference snap valid x l)))"
proof -
  define l1 where "l1 = l\<lparr>reference_epochs := reference_epochs l + 1\<rparr>"
  have ok1: "loop_ok l1" using ok by (simp add: l1_def loop_ok_def)
  have fits1: "seed_fits (snap_capture snap) l1" using fits by (simp add: l1_def seed_fits_def)
  have st1: "loop_state l1 = loop_state l" by (simp add: l1_def)
  obtain seeded l2 where sf: "seed_frequency (snap_capture snap) l1 = (seeded, l2)" by fastforce
  have l2: "loop_ok l2" "loop_state l2 = loop_state l" "reference_epochs l2 = reference_epochs l + 1"
    using seed_frequency_result [OF ok1 fits1, unfolded sf snd_conv] st1 by (simp_all add: l1_def)
  show ?thesis
  proof (cases "loop_state l")
    case EPOCH_STATE_ACQUIRE
    have a: "loop_state l2 = EPOCH_STATE_ACQUIRE" using l2(2) EPOCH_STATE_ACQUIRE by simp
    show ?thesis
      using acquire_result [OF l2(1) a, of snap x] l2 a ok1 EPOCH_STATE_ACQUIRE
      by (auto simp: use_reference_def Let_def sf st1 loop_ok_frame requests_frequency frame_simps
          simp flip: l1_def)
  next
    case EPOCH_STATE_STEP_ACTIVE
    then show ?thesis
      using follow_step_ok [OF ok1, of snap]
      by (simp add: use_reference_def Let_def st1 loop_ok_frame requests_frequency frame_simps
          follow_step_state flip: l1_def)
  next
    case EPOCH_STATE_TRACK
    then have t: "loop_state l1 = EPOCH_STATE_TRACK" by (simp add: st1)
    show ?thesis
      using track_result [OF ok1 t, of snap x] EPOCH_STATE_TRACK ok1 
      by (cases valid) (auto simp: use_reference_def Let_def st1 loop_ok_frame requests_holdover frame_simps
          simp flip: l1_def)
  qed
qed

lemma hold_result:
  assumes ok: "loop_ok l"
  shows "loop_ok (snd (hold snap l)) \<and> requests (snd (hold snap l))
    \<and> epoch_edge False valid n (loop_state l) (loop_state (snd (hold snap l)))
    \<and> pps_kf (snd (hold snap l)) = pps_kf l \<and> discard_period (snd (hold snap l)) = discard_period l
    \<and> integral_q16 (pi_servo (snd (hold snap l))) = integral_q16 (pi_servo l)
    \<and> fst (hold snap l) = (if loop_state l = EPOCH_STATE_ACQUIRE then EPOCH_UPDATE_FREE_RUN else EPOCH_UPDATE_HOLDOVER)"
proof (cases "loop_state l")
  case EPOCH_STATE_ACQUIRE
  define l1 where "l1 = request_frequency l"
  have l1: "loop_ok l1" "loop_state l1 = EPOCH_STATE_ACQUIRE" "requests l1" "pps_kf l1 = pps_kf l"
    "discard_period l1 = discard_period l" "pi_servo l1 = pi_servo l" "free_run_step l1 = free_run_step l"
    "period_ok 32767 (commanded_period l1)"
    using ok EPOCH_STATE_ACQUIRE by (simp_all add: l1_def loop_ok_frame frame_simps requests_frequency
        request_frequency_period)
  define p where "p = (word_of_int (i32 (sint (commanded_period l1) + free_run_step l)) :: u32)"
  have fs: "\<bar>free_run_step l\<bar> \<le> 20000000" using ok by (simp add: loop_ok_def)
  have p: "period_ok 20032767 p"
  proof -
    have c: "39967233 \<le> uint (commanded_period l1)" "uint (commanded_period l1) \<le> 40032767"
      using l1(8) by (auto simp: period_ok_def)
    then have s: "sint (commanded_period l1) = uint (commanded_period l1)"
      by (simp add: sint_uint signed_take_bit_int_eq_self)
    have "i32 (sint (commanded_period l1) + free_run_step l) = uint (commanded_period l1) + free_run_step l"
      unfolding s using c fs by (intro i32_abs_id) simp
    then have "uint p = uint (commanded_period l1) + free_run_step l"
      unfolding p_def using c fs by (simp only: uint_word_of_int) simp
    then show ?thesis using c fs by (simp add: period_ok_def)
  qed
  have H: "hold snap l = (EPOCH_UPDATE_FREE_RUN,
      if free_run_step l \<noteq> 0 then
        (epoch_timer_set_period p (l1\<lparr>commanded_period := p\<rparr>))\<lparr>free_run_step_taken := free_run_step l, free_run_step := 0\<rparr>
      else l1)"
    using EPOCH_STATE_ACQUIRE by (simp add: hold_def Let_def l1(7) p_def flip: l1_def)
  have "loop_ok ((epoch_timer_set_period p (l1\<lparr>commanded_period := p\<rparr>))
      \<lparr>free_run_step_taken := free_run_step l, free_run_step := 0\<rparr>)"
    using l1(1) by (simp add: loop_ok_def epoch_timer_set_period_def)
  then show ?thesis
    using l1 p EPOCH_STATE_ACQUIRE by (simp add: H) (simp add: requests_def epoch_timer_set_period_def)
next
  case EPOCH_STATE_STEP_ACTIVE
  then show ?thesis
    using follow_step_ok [OF ok, of snap]
    by (simp add: hold_def loop_ok_frame requests_holdover frame_simps follow_step_state)
      (simp add: follow_step_def enter_track_def servo_pi_enable_def servo_pi_reset_phase_def)
next
  case EPOCH_STATE_TRACK
  then show ?thesis
    using ok by (simp add: hold_def loop_ok_frame requests_holdover frame_simps)
qed

lemma loop_ok_fields:
  "loop_ok (l\<lparr>discard_period := b\<rparr>) = loop_ok l"
  "loop_ok l \<Longrightarrow> loop_ok (l\<lparr>free_run_step := 0\<rparr>)"
  by (simp_all add: loop_ok_def)

definition update_valid :: "TimingSnapshot \<Rightarrow> bool" where
  "update_valid snap \<longleftrightarrow> reference_capture_valid (snap_capture snap) \<and> epoch_capture_valid (snap_capture snap)"

definition update_offset :: "TimingSnapshot \<Rightarrow> int \<Rightarrow> EpochControl \<Rightarrow> int" where
  "update_offset snap off l =
     (if update_valid snap
      then wrap_phase (i32 (sint (epoch_capture (snap_capture snap) - reference_capture (snap_capture snap)) + off))
             (filtered_pps_period l) else 0)"

lemma update_unusable:
  "epoch_control_update snap False off l =
     (let l1 = (update_kalman (snap_capture snap) False l)\<lparr>discard_period := True\<rparr>
      in (\<lparr>kind = fst (hold snap l1), phase_valid = update_valid snap, utc_offset_ticks = update_offset snap off l1\<rparr>,
          snd (hold snap l1)))"
  by (simp add: epoch_control_update_def Let_def update_valid_def update_offset_def split: prod.splits)

lemma update_usable:
  "epoch_control_update snap True off l =
     (let l1 = update_kalman (snap_capture snap) True l; x = update_offset snap off l1;
          r = use_reference snap (update_valid snap) x (l1\<lparr>free_run_step := 0\<rparr>)
      in (\<lparr>kind = fst r, phase_valid = update_valid snap, utc_offset_ticks = x\<rparr>, snd r))"
  by (simp add: epoch_control_update_def Let_def update_valid_def update_offset_def split: prod.splits)

lemma update_result:
  assumes ok: "loop_ok l" and fits: "seed_fits (snap_capture snap) l"
    and u: "epoch_control_update snap usable off l = (u, l')"
  shows "loop_ok l' \<and> requests l' \<and>
    epoch_edge usable (phase_valid u) (reference_epochs l + 1) (loop_state l) (loop_state l')"
proof (cases usable)
  case True
  define l1 where "l1 = update_kalman (snap_capture snap) True l"
  have ok1: "loop_ok (l1\<lparr>free_run_step := 0\<rparr>)"
    unfolding l1_def by (intro loop_ok_fields(2) update_kalman_ok ok)
  have "seed_fits (snap_capture snap) (l1\<lparr>free_run_step := 0\<rparr>)"
    using update_kalman_fits [OF fits, of "snap_capture snap" True] by (simp add: seed_fits_def l1_def)
  from use_reference_result [OF ok1 this, of "update_valid snap" "update_offset snap off l1"]
  show ?thesis
    using u True by (auto simp: update_usable Let_def l1_def frame_simps simp del: edge_simps)
next
  case False
  define l1 where "l1 = (update_kalman (snap_capture snap) False l)\<lparr>discard_period := True\<rparr>"
  have "loop_ok l1" unfolding l1_def by (simp add: loop_ok_fields update_kalman_ok ok)
  from hold_result [OF this, of snap "update_valid snap" "reference_epochs l + 1"]
  show ?thesis
    using u False by (auto simp: update_unusable Let_def l1_def frame_simps simp del: edge_simps)
qed

section \<open>Everything that can happen to the loop\<close>

text \<open>
  The calls the synchroniser makes, and the timer's interrupts, which leave the loop's own
  fields alone. A seed is within the tick limit: stored estimates are, and a measured baseline
  is by \<open>seed_fits\<close>.
\<close>

inductive loop_step :: "EpochControl \<Rightarrow> EpochControl \<Rightarrow> bool" where
  update: "seed_fits (snap_capture snap) l \<Longrightarrow>
    loop_step l (snd (epoch_control_update snap usable off l))"
| restart: "(\<And>q. p = Some q \<Longrightarrow> profile_ok q) \<Longrightarrow> loop_step l (epoch_control_restart p slew l)"
| seed: "offset_ok x \<Longrightarrow> loop_step l (epoch_control_seed x l)"
| free_run: "loop_step l (epoch_control_free_run_step ticks l)"
| stepped: "loop_step l (epoch_control_source_stepped l)"
| epoch: "loop_step l (T3Interrupt l)"
| slot: "loop_step l (T4Interrupt l)"

inductive loop_reachable :: "EpochControl \<Rightarrow> bool" where
  init: "loop_reachable (epoch_control_init l)"
| "step": "loop_reachable l \<Longrightarrow> loop_step l l' \<Longrightarrow> loop_reachable l'"

lemma restart_ok:
  assumes ok: "loop_ok l" and p: "\<And>q. p = Some q \<Longrightarrow> profile_ok q"
  shows "loop_ok (epoch_control_restart p slew l)"
proof -
  define l1 where "l1 = (case p of Some q \<Rightarrow> l\<lparr>profile := q\<rparr> | None \<Rightarrow> l)"
  have ok1: "loop_ok l1" using ok p by (auto simp: l1_def loop_ok_def split: option.splits)
  define q where "q = profile l1"
  have q: "ticks_ok (integral_limit_ticks q)" "ticks_ok (correction_limit_ticks q)" "ticks_ok (gate_ticks q)"
    using ok1 by (auto simp: q_def loop_ok_def profile_ok_def)
  define sv where "sv = servo_pi_set_gains (pi_servo l1) (profile_kp_q16 q) (profile_ki_q16 q)
      (integral_limit_ticks q) (correction_limit_ticks q)"
  have sv: "servo_ok sv" unfolding sv_def
    using ok1 by (intro set_gains_ok q) (simp add: loop_ok_def servo_correction_ok)
  define g where "g = servo_gate_reset (servo_gate_set_limits (gate l1) (gate_ticks q) (profile_reject_limit q))"
  have g: "gate_ok g" unfolding g_def by (rule gate_set_limits_ok [OF q(3)])
  define l2 where "l2 = l1\<lparr>gate := g, reference_epochs := 0, holdover_epochs := 0, discard_period := True,
      seed_started := False, step_hold := 0, pi_servo := servo_pi_hold sv False\<rparr>"
  have ok2: "loop_ok l2" using ok1 sv g by (simp add: l2_def loop_ok_def servo_ops_ok)
  have R: "epoch_control_restart p slew l =
     (if slew \<and> loop_state l2 = EPOCH_STATE_TRACK
      then l2\<lparr>pi_servo := servo_pi_reset_phase (pi_servo l2)\<rparr>
      else (enter_acquire l2)\<lparr>pi_servo := servo_pi_reset (pi_servo (enter_acquire l2))\<rparr>)"
    unfolding epoch_control_restart_def Let_def l1_def [symmetric] q_def [symmetric] sv_def [symmetric]
      g_def [symmetric] l2_def [symmetric] by (rule refl)
  show ?thesis
    using ok2 enter_acquire_ok [OF ok2] by (simp add: R loop_ok_def servo_ops_ok)
qed

lemma seed_ok: "loop_ok l \<Longrightarrow> offset_ok x \<Longrightarrow> loop_ok (epoch_control_seed x l)"
  using kalman_acquire_ok [of "pps_kf l" x]
  by (simp add: loop_ok_def epoch_control_seed_def Let_def kalman_seed_def) (simp add: kalman_acquire_def)

lemma timer_interrupts_ok: "loop_ok (T3Interrupt l) = loop_ok l" "loop_ok (T4Interrupt l) = loop_ok l"
  by (simp_all add: loop_ok_def T3Interrupt_def T4Interrupt_def restart_scheduler_def load_period_def
      advance_slot_def Let_def)

lemma source_stepped_ok: "loop_ok (epoch_control_source_stepped l) = loop_ok l"
  by (simp add: loop_ok_def epoch_control_source_stepped_def)

lemma loop_step_ok: "loop_step l l' \<Longrightarrow> loop_ok l \<Longrightarrow> loop_ok l'"
proof (induction rule: loop_step.induct)
  case (update snap l usable off)
  then show ?case using update_result [of l snap usable off] by (metis prod.collapse)
next
  case (free_run l ticks)
  then show ?case
    by (auto simp: loop_ok_def epoch_control_free_run_step_def Let_def timer_consts)
qed (simp_all add: restart_ok seed_ok timer_interrupts_ok source_stepped_ok)

lemma epoch_control_init_ok: "loop_ok (epoch_control_init l)"
proof -
  have p: "ticks_ok 8" "ticks_ok 16" by (simp_all add: ticks_ok_def)
  have c: "PPS_KF_Q = 64" "PPS_KF_R = 65536" "TIMING_NOMINAL_TICKS = 40000000"
    by (simp_all add: PPS_KF_Q_def PPS_KF_R_def KALMAN_VARIANCE_Q16_def timer_consts)
  have i: "fst (kalman_init (pps_kf l) TIMING_NOMINAL_TICKS PPS_KF_Q PPS_KF_R)"
    by (simp add: kalman_init_def c)
  have k: "nominal_period (snd (kalman_init (pps_kf l) TIMING_NOMINAL_TICKS PPS_KF_Q PPS_KF_R)) = TIMING_NOMINAL_TICKS"
    "offset_q16 (snd (kalman_init (pps_kf l) TIMING_NOMINAL_TICKS PPS_KF_Q PPS_KF_R)) = 0"
    using i by (auto simp: kalman_init_def kalman_reset_def)
  have kp: "kalman_period (snd (kalman_init (pps_kf l) TIMING_NOMINAL_TICKS PPS_KF_Q PPS_KF_R)) = TIMING_NOMINAL_TICKS"
    unfolding kalman_period_def k by (simp add: q16_round_to_ticks_def q16_consts i32_id in_i32_def)
  show ?thesis
    using kalman_init_ok [OF i] k(1) kp servo_pi_init_ok [OF p, of "pi_servo l"] gate_set_limits_ok [OF p(2)]
    unfolding epoch_control_init_def Let_def loop_ok_def
    by (simp add: servo_ops_ok servo_gate_init_def epoch_profile_precise_def profile_ok_def p)
qed

lemma loop_reachable_ok: "loop_reachable l \<Longrightarrow> loop_ok l"
  by (induction rule: loop_reachable.induct) (auto intro: epoch_control_init_ok loop_step_ok)

section \<open>The integral hold\<close>

lemma holding_keeps_integral:
  "pi_holding sv \<Longrightarrow> integral_q16 (snd (servo_offset sv k e)) = integral_q16 sv"
  by (simp add: servo_offset_def servo_pi_update_def Let_def split: prod.splits)

definition hold_fields :: "EpochControl \<Rightarrow> int \<times> u32 \<times> u32" where
  "hold_fields l = (integral_q16 (pi_servo l), step_hold l, step_hold_min l)"

lemma hold_fields_frame [frame_simps]:
  "hold_fields (request_offset x l) = hold_fields l" "hold_fields (request_frequency l) = hold_fields l"
  "hold_fields (request_holdover l) = hold_fields l" "hold_fields (enter_acquire l) = hold_fields l"
  "hold_fields (follow_step snap l) = hold_fields l" "hold_fields (update_kalman c b l) = hold_fields l"
  "hold_fields (snd (seed_frequency c l)) = hold_fields l" "hold_fields (acquire snap x l) = hold_fields l"
  "hold_fields (l\<lparr>free_run_step := i\<rparr>) = hold_fields l" "hold_fields (l\<lparr>discard_period := b\<rparr>) = hold_fields l"
  "hold_fields (l\<lparr>reference_epochs := n\<rparr>) = hold_fields l"
  by (simp_all add: hold_fields_def frame_simps enter_acquire_def follow_step_def enter_track_def
      servo_pi_enable_def servo_pi_reset_phase_def seed_frequency_def acquire_def Let_def
      epoch_timer_set_period_def split: option.splits)

lemma hold_fields_hold: "hold_fields (snd (hold snap l)) = hold_fields l"
proof (cases "loop_state l")
  case EPOCH_STATE_ACQUIRE
  have "hold_fields (request_frequency l) = hold_fields l" by (rule hold_fields_frame)
  then show ?thesis using EPOCH_STATE_ACQUIRE
    by (simp add: hold_def Let_def) (simp add: hold_fields_def epoch_timer_set_period_def)
qed (simp_all add: hold_def frame_simps)

definition hold_active :: "nat \<Rightarrow> EpochControl \<Rightarrow> bool" where
  "hold_active n l \<longleftrightarrow> n \<le> unat (step_hold_min l) \<and> n < unat (step_hold l)"

lemma hold_active_fields:
  "hold_fields l' = hold_fields l \<Longrightarrow> hold_active n l' = hold_active n l \<and>
     integral_q16 (pi_servo l') = integral_q16 (pi_servo l)"
  by (simp add: hold_fields_def hold_active_def)

lemma follow_step_hold_active:
  assumes "hold_active (Suc n) l"
  shows "hold_active n (follow_step_hold l)" "pi_holding (pi_servo (follow_step_hold l))"
    "integral_q16 (pi_servo (follow_step_hold l)) = integral_q16 (pi_servo l)"
proof -
  have m: "Suc n \<le> unat (step_hold_min l)" "Suc n < unat (step_hold l)"
    using assms by (auto simp: hold_active_def)
  then have p: "step_hold_min l > 0" "step_hold l > 0" by (auto simp: word_less_nat_alt)
  then have d: "unat (step_hold_min l - 1) = unat (step_hold_min l) - 1"
    "unat (step_hold l - 1) = unat (step_hold l) - 1"
    using m by (auto simp: unat_sub word_le_nat_alt)
  have f: "step_hold (follow_step_hold l) = step_hold l - 1"
    "step_hold_min (follow_step_hold l) = step_hold_min l - 1"
    using p by (simp_all add: follow_step_hold_def Let_def)
  show "hold_active n (follow_step_hold l)"
    unfolding hold_active_def f d using m by auto
  show "pi_holding (pi_servo (follow_step_hold l))"
    using m d by (simp add: frame_simps f servo_pi_hold_def word_less_nat_alt)
  show "integral_q16 (pi_servo (follow_step_hold l)) = integral_q16 (pi_servo l)"
    by (simp add: frame_simps servo_pi_hold_def)
qed

lemma hold_active_mono: "hold_active (Suc n) l \<Longrightarrow> hold_active n l"
  by (simp add: hold_active_def)

lemma track_holds:
  assumes "hold_active (Suc n) l"
  shows "hold_active n (snd (track snap x l)) \<and> integral_q16 (pi_servo (snd (track snap x l))) = integral_q16 (pi_servo l)"
proof -
  define ph where "ph = servo_phase_predict_q16 (servo_phase_error_q16 x EPOCH_PHASE_CALIBRATION_Q16)
     (sint (sample_running_period (snap_timer snap) - TIMING_NOMINAL_TICKS))
     (servo_holdover_offset (pi_servo l) (kalman_phase_q16 (pps_kf l)))"
  define l2 where "l2 = follow_step_hold (l\<lparr>predicted_phase_q16 := ph\<rparr>)"
  have "hold_active (Suc n) (l\<lparr>predicted_phase_q16 := ph\<rparr>)" using assms by (simp add: hold_active_def)
  note l2 = follow_step_hold_active [OF this, folded l2_def]
  obtain v g where vg: "servo_gate_check (predicted_phase_q16 l2) (gate l2) = (v, g)" by fastforce
  define l3 where "l3 = l2\<lparr>gate := g\<rparr>"
  have l3: "hold_active n l3" "pi_holding (pi_servo l3)" "integral_q16 (pi_servo l3) = integral_q16 (pi_servo l)"
    using l2 by (simp_all add: l3_def hold_active_def)
  obtain y sv where so: "servo_offset (pi_servo l3) (kalman_phase_q16 (pps_kf l)) (predicted_phase_q16 l3) = (y, sv)" by fastforce
  have sv: "integral_q16 sv = integral_q16 (pi_servo l)"
    using holding_keeps_integral [OF l3(2), of "kalman_phase_q16 (pps_kf l)" "predicted_phase_q16 l3"] so l3(3) by simp
  have T: "track snap x l = (case v of
        EPOCH_PHASE_ACCEPTED \<Rightarrow> (EPOCH_UPDATE_MEASURED, request_offset y (l3\<lparr>holdover_epochs := 0, pi_servo := sv\<rparr>))
      | EPOCH_PHASE_REJECTED \<Rightarrow> (EPOCH_UPDATE_HOLDOVER, request_holdover l3)
      | EPOCH_PHASE_LOST \<Rightarrow> (EPOCH_UPDATE_MEASURED, request_frequency (enter_acquire l3)))"
    unfolding track_def Let_def ph_def [symmetric] l2_def [symmetric] vg prod.case l3_def [symmetric] so
    by (rule refl)
  have a: "hold_active n (l3\<lparr>holdover_epochs := 0, pi_servo := sv\<rparr>)" using l3(1) by (simp add: hold_active_def)
  show ?thesis
    using a l3 sv
      hold_active_fields [OF hold_fields_frame(1), of n y "l3\<lparr>holdover_epochs := 0, pi_servo := sv\<rparr>"]
      hold_active_fields [OF hold_fields_frame(3), of n l3]
      hold_active_fields [OF hold_fields_frame(2), of n "enter_acquire l3"]
      hold_active_fields [OF hold_fields_frame(4), of n l3]
    by (cases v) (simp_all add: T)
qed

lemma use_reference_holds:
  assumes a: "hold_active (Suc n) l"
  shows "hold_active n (snd (use_reference snap valid x l)) \<and>
    integral_q16 (pi_servo (snd (use_reference snap valid x l))) = integral_q16 (pi_servo l)"
proof -
  define l1 where "l1 = l\<lparr>reference_epochs := reference_epochs l + 1\<rparr>"
  have f1: "hold_fields l1 = hold_fields l" "loop_state l1 = loop_state l"
    by (simp_all add: l1_def frame_simps)
  have a1: "hold_active (Suc n) l1" "integral_q16 (pi_servo l1) = integral_q16 (pi_servo l)"
    using a hold_active_fields [OF f1(1)] by auto
  have keep: "hold_active n l' \<and> integral_q16 (pi_servo l') = integral_q16 (pi_servo l)"
    if "hold_fields l' = hold_fields l1" for l'
    using that f1(1) hold_active_fields [of l' l n] hold_active_mono [OF a] by simp
  obtain seeded l2 where sf: "seed_frequency (snap_capture snap) l1 = (seeded, l2)" by fastforce
  have f2: "hold_fields l2 = hold_fields l1"
    using hold_fields_frame(7) [of "snap_capture snap" l1] by (simp add: sf)
  show ?thesis
  proof (cases "loop_state l = EPOCH_STATE_TRACK \<and> valid")
    case True
    then show ?thesis
      using track_holds [OF a1(1), of snap x] a1(2)
      by (simp add: use_reference_def Let_def f1(2) flip: l1_def)
  next
    case False
    then have "hold_fields (snd (use_reference snap valid x l)) = hold_fields l1"
      by (cases "loop_state l")
        (auto simp: use_reference_def Let_def f1(2) sf f2 frame_simps simp flip: l1_def)
    then show ?thesis by (rule keep)
  qed
qed

lemma update_holds:
  assumes a: "hold_active (Suc n) l"
  shows "hold_active n (snd (epoch_control_update snap usable off l)) \<and>
    integral_q16 (pi_servo (snd (epoch_control_update snap usable off l))) = integral_q16 (pi_servo l)"
proof (cases usable)
  case True
  define l1 where "l1 = (update_kalman (snap_capture snap) True l)\<lparr>free_run_step := 0\<rparr>"
  have "hold_fields l1 = hold_fields l" by (simp add: l1_def frame_simps)
  note l1 = hold_active_fields [OF this]
  then have "hold_active (Suc n) l1" using a by simp
  from use_reference_holds [OF this] show ?thesis
    using True l1 by (simp add: update_usable Let_def flip: l1_def)
next
  case False
  have "hold_fields (snd (epoch_control_update snap False off l)) = hold_fields l"
    by (simp add: update_unusable Let_def hold_fields_hold frame_simps)
  from hold_active_fields [OF this] show ?thesis using False hold_active_mono [OF a] by simp
qed

fun updates :: "(TimingSnapshot \<times> bool \<times> int) list \<Rightarrow> EpochControl \<Rightarrow> EpochControl" where
  "updates [] l = l"
| "updates ((snap, usable, off) # es) l = updates es (snd (epoch_control_update snap usable off l))"

lemma updates_hold:
  "hold_active (length es) l \<Longrightarrow> integral_q16 (pi_servo (updates es l)) = integral_q16 (pi_servo l)"
proof (induction es arbitrary: l)
  case (Cons e es)
  then show ?case using update_holds [of "length es" l] by (cases e) simp
qed simp

section \<open>Where a step lands\<close>

lemma use_reference_steps:
  assumes ok: "loop_ok l" and fits: "seed_fits (snap_capture snap) l" and st: "loop_state l = EPOCH_STATE_ACQUIRE"
    and r: "use_reference snap valid x l = (k, l')" and stp: "loop_state l' = EPOCH_STATE_STEP_ACTIVE"
  shows "valid \<and> requested_period l' = commanded_period l' \<and>
    compute_step (filtered_pps_period l')
      (wrap_phase (i32 (x + sint (sample_running_period (snap_timer snap) - filtered_pps_period l')))
         (filtered_pps_period l')) = Some (commanded_period l')"
proof -
  define l1 where "l1 = l\<lparr>reference_epochs := reference_epochs l + 1\<rparr>"
  have ok1: "loop_ok l1" using ok by (simp add: l1_def loop_ok_def)
  have fits1: "seed_fits (snap_capture snap) l1" using fits by (simp add: l1_def seed_fits_def)
  have st1: "loop_state l1 = EPOCH_STATE_ACQUIRE" by (simp add: l1_def st)
  obtain seeded l2 where sf: "seed_frequency (snap_capture snap) l1 = (seeded, l2)" by fastforce
  have l2: "loop_ok l2" "loop_state l2 = EPOCH_STATE_ACQUIRE"
    using seed_frequency_result [OF ok1 fits1, unfolded sf snd_conv] st1 by simp_all
  have U: "(k, l') = (if \<not> valid then (EPOCH_UPDATE_INCOMPLETE, request_frequency l1)
      else if \<not> seeded then (EPOCH_UPDATE_MEASURED, request_frequency l2)
      else (EPOCH_UPDATE_MEASURED, acquire snap x l2))"
    using r unfolding use_reference_def Let_def l1_def [symmetric] st1 EpochSyncState.case sf prod.case
    by simp
  have v: "valid" "l' = acquire snap x l2"
    using U stp st1 l2(2) by (auto simp: frame_simps split: if_splits)
  show ?thesis
    using acquire_result [OF l2, of snap x] stp v by (auto simp: requests_def loop_ok_def)
qed

lemma step_lands:
  assumes ok: "loop_ok l" and fits: "seed_fits (snap_capture snap) l" and st: "loop_state l = EPOCH_STATE_ACQUIRE"
    and u: "epoch_control_update snap usable off l = (u, l')" and stp: "loop_state l' = EPOCH_STATE_STEP_ACTIVE"
    and x: "\<bar>utc_offset_ticks u\<bar> \<le> 2 ^ 30" and ok': "loop_ok l'"
    and run: "\<bar>uint (sample_running_period (snap_timer snap)) - uint (filtered_pps_period l')\<bar> < 2 ^ 30"
  shows "\<exists>k. utc_offset_ticks u + (uint (sample_running_period (snap_timer snap)) - uint (filtered_pps_period l'))
      + (uint (requested_period l') - uint (filtered_pps_period l')) = k * uint (filtered_pps_period l')"
proof -
  define R where "R = sample_running_period (snap_timer snap)"
  define P where "P = filtered_pps_period l'"
  have us: "usable"
    using update_result [OF ok fits u] st stp by (auto)
  define l1 where "l1 = update_kalman (snap_capture snap) True l"
  define l1f where "l1f = l1\<lparr>free_run_step := 0\<rparr>"
  have ok1: "loop_ok l1f" unfolding l1f_def l1_def by (intro loop_ok_fields(2) update_kalman_ok ok)
  have fits1: "seed_fits (snap_capture snap) l1f"
    using update_kalman_fits [OF fits, of "snap_capture snap" True] by (simp add: seed_fits_def l1f_def l1_def)
  have st1: "loop_state l1f = EPOCH_STATE_ACQUIRE" by (simp add: l1f_def l1_def frame_simps st)
  have "use_reference snap (update_valid snap) (utc_offset_ticks u) l1f = (kind u, l')"
    using u us by (auto simp: update_usable Let_def l1f_def l1_def)
  from use_reference_steps [OF ok1 fits1 st1 this stp]
  have c: "requested_period l' = commanded_period l'"
    "compute_step P (wrap_phase (i32 (utc_offset_ticks u + sint (R - P))) P) = Some (commanded_period l')"
    by (simp_all add: R_def P_def)
  have Pb: "uint P \<le> 2 ^ 30" "0 < uint P"
    using filtered_bounds [OF ok'] by (auto simp: P_def period_ok_def)
  have d: "sint (R - P) = uint R - uint P"
  proof -
    have w: "R - P = word_of_int (uint R - uint P)" by simp
    have "in_i32 (uint R - uint P)" using run by (auto simp: in_i32_def R_def P_def abs_less_iff)
    then show ?thesis unfolding w by (rule sint_word_of_int_i32)
  qed
  define y where "y = utc_offset_ticks u + (uint R - uint P)"
  have "\<bar>y\<bar> < 2 ^ 31" using x run unfolding y_def R_def P_def by (auto simp: abs_le_iff abs_less_iff)
  then have y: "i32 y = y" "in_i32 y" by (auto simp: i32_abs_id in_i32_def)
  obtain k where k: "wrap_phase y P = y + k * uint P" using wrap_phase_exact(1) [OF y(2) Pb(2,1)] by blast
  have "compute_step P (wrap_phase y P) = Some (commanded_period l')"
    using c(2) by (simp add: d y_def [symmetric] y(1))
  from compute_step_exact(1) [OF this wrap_phase_exact(2) [OF y(2) Pb(2,1)] Pb(1)]
  have "uint (requested_period l') = uint P - (y + k * uint P)" by (simp add: c(1) k)
  then have "y + (uint (requested_period l') - uint P) = (- k) * uint P" by simp
  then show ?thesis unfolding y_def R_def P_def by blast
qed

section \<open>A loop about to step\<close>

definition blank_loop :: EpochControl where
  "blank_loop = EpochTimer.extend blank_timer
     \<lparr>loop_state = EPOCH_STATE_ACQUIRE, last_resync = 0, last_pps_sequence = 0, holdover_epochs = 0,
      reference_epochs = 0, discard_period = False, profile = epoch_profile_precise,
      seed_started = False, seed_first = 0, seed_sequence = 0, seed_periods = 0, step_hold = 0,
      step_hold_min = 0, free_run_step = 0, free_run_step_taken = 0, pps_kf = blank_filter,
      pi_servo = blank_servo,
      gate = \<lparr>limit_q16 = 0, reject_limit = 0, gate_consecutive_rejects = 0, gate_rejected = 0\<rparr>,
      fractional = \<lparr>accumulator_q16 = 0\<rparr>, filtered_pps_period = 0, predicted_phase_q16 = 0,
      commanded_offset_q16 = 0, commanded_period = 0\<rparr>"

definition late_snapshot :: TimingSnapshot where
  "late_snapshot =
     \<lparr>snap_timer = \<lparr>sample_sequence = 7, sample_running_period = 40000000, sample_handler_late = 0\<rparr>,
      snap_capture = \<lparr>reference_capture = 40000000, reference_capture_valid = True, reference_period = 40000000,
        reference_period_sequence = 0, reference_period_valid = False, epoch_capture = 45000000,
        epoch_capture_valid = True\<rparr>\<rparr>"

definition acquiring_loop :: EpochControl where
  "acquiring_loop = snd (epoch_control_update late_snapshot True 0
     (snd (epoch_control_update late_snapshot True 0 (epoch_control_init blank_loop))))"

lemma acquiring_fits: "seed_fits (snap_capture late_snapshot) acquiring_loop"
  by code_simp

lemma acquiring_reachable: "loop_reachable acquiring_loop"
proof -
  have 0: "seed_fits (snap_capture late_snapshot) (epoch_control_init blank_loop)" by code_simp
  have 1: "seed_fits (snap_capture late_snapshot)
      (snd (epoch_control_update late_snapshot True 0 (epoch_control_init blank_loop)))" by code_simp
  show ?thesis unfolding acquiring_loop_def
    by (intro loop_reachable.step [OF loop_reachable.step [OF loop_reachable.init loop_step.update [OF 0]]
          loop_step.update [OF 1]])
qed

text \<open>
  Beyond the tick limit the seed is not safe: a baseline of sixteen periods 35000 ticks long,
  each within the 1000 ppm the capture accepts, averages to more than 32767 ticks, and the
  conversion to \<open>int32_t\<close> turns the estimate negative.
\<close>

definition fast_baseline :: EpochControl where
  "fast_baseline = blank_loop\<lparr>profile := epoch_profile_precise\<lparr>learn_frequency := False\<rparr>,
     seed_started := True, seed_periods := 15, seed_sequence := 15\<rparr>"

lemma seed_overflows:
  "offset_q16 (pps_kf (snd (seed_frequency
     (snap_capture late_snapshot\<lparr>reference_capture := 16 * 40035000, reference_period_sequence := 16,
        reference_period_valid := True\<rparr>) fast_baseline))) = 35000 * 65536 - 2 ^ 32"
  by code_simp

section \<open>Properties\<close>

text \<open>
  C2: whatever has happened since start-up (updates, restarts, seeds, free-run steps, corrections
  of the source, timer interrupts), each epoch requests exactly one period of the timer, it is
  the commanded one and between half a second and one and a half, give or take 32767 ticks; the
  state machine takes only the edges of \<open>epoch_edge\<close>, so a step is always followed by tracking
  and only a usable reference with both captures starts a step or loses the lock. A frequency
  seed, wherever one is taken, is to be within 16383 ticks (\<open>seed_fits\<close>); the code does not check it.
\<close>

theorem loop_requests_every_epoch:
  assumes "loop_reachable l" "seed_fits (snap_capture snap) l" "epoch_control_update snap usable off l = (u, l')"
  shows "requests l' \<and>
    epoch_edge usable (phase_valid u) (reference_epochs l + 1) (loop_state l) (loop_state l')"
  using update_result [OF loop_reachable_ok [OF assms(1)] assms(2,3)] by simp

theorem loop_requests_every_epoch_witness:
  "requests (snd (epoch_control_update late_snapshot True 0 acquiring_loop))"
  using loop_requests_every_epoch [OF acquiring_reachable acquiring_fits, of True 0
      "fst (epoch_control_update late_snapshot True 0 acquiring_loop)"
      "snd (epoch_control_update late_snapshot True 0 acquiring_loop)"] by simp

text \<open>
  C30: an unusable reference is neither learnt from nor steered to. The update leaves the whole
  estimator and the servo's integral alone, holds the estimated frequency, discards the period
  that would span the gap, and reports holdover or free run.
\<close>

theorem unusable_never_learns:
  assumes "loop_reachable l" "epoch_control_update snap False off l = (u, l')"
  shows "pps_kf l' = pps_kf l \<and> integral_q16 (pi_servo l') = integral_q16 (pi_servo l) \<and> discard_period l'
    \<and> kind u = (if loop_state l = EPOCH_STATE_ACQUIRE then EPOCH_UPDATE_FREE_RUN else EPOCH_UPDATE_HOLDOVER)"
proof -
  define l1 where "l1 = (update_kalman (snap_capture snap) False l)\<lparr>discard_period := True\<rparr>"
  have "loop_ok l1" unfolding l1_def
    by (simp add: loop_ok_fields update_kalman_ok loop_reachable_ok [OF assms(1)])
  from hold_result [OF this, of snap]
  show ?thesis
    using assms(2) by (auto simp: update_unusable Let_def l1_def frame_simps update_kalman_unusable simp del: edge_simps)
qed

theorem unusable_never_learns_witness:
  "pps_kf (snd (epoch_control_update late_snapshot False 0 acquiring_loop)) = pps_kf acquiring_loop"
  using unusable_never_learns [OF acquiring_reachable, of late_snapshot 0
      "fst (epoch_control_update late_snapshot False 0 acquiring_loop)"
      "snd (epoch_control_update late_snapshot False 0 acquiring_loop)"] by simp

text \<open>
  When the source announces that it is stepping its own time, the servo's integral does not
  move for the next ten updates, whatever they measure and whether or not the source is usable.
\<close>

theorem source_step_freezes_integral:
  assumes "length es \<le> 10"
  shows "integral_q16 (pi_servo (updates es (epoch_control_source_stepped l))) = integral_q16 (pi_servo l)"
proof -
  have "hold_active (length es) (epoch_control_source_stepped l)"
    using assms by (simp add: hold_active_def epoch_control_source_stepped_def EPOCH_STEP_HOLD_MIN_def
        EPOCH_STEP_HOLD_MAX_def)
  from updates_hold [OF this] show ?thesis by (simp add: epoch_control_source_stepped_def)
qed

theorem source_step_freezes_integral_witness:
  "integral_q16 (pi_servo (updates [(late_snapshot, True, 0)] (epoch_control_source_stepped blank_loop))) = 0"
  using source_step_freezes_integral [of "[(late_snapshot, True, 0)]" blank_loop]
  by (simp add: blank_loop_def EpochTimer.extend_def blank_servo_def del: updates.simps)

text \<open>
  C20: a step puts the epoch on a reference edge. When an epoch in ACQUIRE makes the loop step,
  the measured offset, plus what the running interval adds, plus what the requested interval
  adds against the estimated second, is a whole number of estimated seconds.
\<close>

theorem step_lands_on_edge:
  assumes "loop_reachable l" "seed_fits (snap_capture snap) l" "loop_state l = EPOCH_STATE_ACQUIRE"
    and "epoch_control_update snap usable off l = (u, l')" "loop_state l' = EPOCH_STATE_STEP_ACTIVE"
    and "\<bar>utc_offset_ticks u\<bar> \<le> 2 ^ 30"
    and "\<bar>uint (sample_running_period (snap_timer snap)) - uint (filtered_pps_period l')\<bar> < 2 ^ 30"
  shows "\<exists>k. utc_offset_ticks u + (uint (sample_running_period (snap_timer snap)) - uint (filtered_pps_period l'))
      + (uint (requested_period l') - uint (filtered_pps_period l')) = k * uint (filtered_pps_period l')"
proof -
  note ok = loop_reachable_ok [OF assms(1)]
  show ?thesis
    using update_result [OF ok assms(2,4)] by (intro step_lands [OF ok assms(2-6) _ assms(7)]) simp
qed

theorem step_lands_on_edge_witness:
  "\<exists>k. 5000000 + (40000000 - 40000000)
     + (uint (requested_period (snd (epoch_control_update late_snapshot True 0 acquiring_loop))) - 40000000)
     = k * 40000000"
proof -
  define r where "r = epoch_control_update late_snapshot True 0 acquiring_loop"
  have e: "utc_offset_ticks (fst r) = 5000000" "loop_state (snd r) = EPOCH_STATE_STEP_ACTIVE"
    "requested_period (snd r) = 35000000" "filtered_pps_period (snd r) = 40000000"
    unfolding r_def by code_simp+
  have a: "loop_state acquiring_loop = EPOCH_STATE_ACQUIRE" by code_simp
  have R: "sample_running_period (snap_timer late_snapshot) = 40000000" by (simp add: late_snapshot_def)
  show ?thesis
    using step_lands_on_edge [OF acquiring_reachable acquiring_fits a, of True 0 "fst r" "snd r"] e
    by (simp add: r_def R)
qed

end
