(* ===== verification/Sync_Rank.thy ===== *)
theory Sync_Rank
  imports Sync_Source Epoch_Control
begin

text \<open>
  The synchroniser's record and its choice between candidates (\<open>dspic_src/sync/sync.c\<close>, first
  half): the table of sources, the judging of an epoch's reports, the bound of every candidate,
  holdover's included, and the ranking by it. Candidates are numbered as in the code: 0 GNSS,
  1 NTP, 2 RTC, 3 none, 4 holdover.
\<close>

section \<open>The code: sources\<close>

abbreviation "SYNC_SOURCE_GNSS \<equiv> 0 :: nat"
abbreviation "SYNC_SOURCE_NTP \<equiv> 1 :: nat"
abbreviation "SYNC_SOURCE_RTC \<equiv> 2 :: nat"
definition SYNC_SOURCE_COUNT :: nat where "SYNC_SOURCE_COUNT = 3"
definition SYNC_SOURCE_NONE :: nat where "SYNC_SOURCE_NONE = SYNC_SOURCE_COUNT"
definition SYNC_CANDIDATE_HOLDOVER :: nat where "SYNC_CANDIDATE_HOLDOVER = SYNC_SOURCE_COUNT + 1"
definition SYNC_BOUND_NONE :: u32 where "SYNC_BOUND_NONE = 0xFFFFFFFF"
definition SYNC_QUALIFY_EPOCHS :: u16 where "SYNC_QUALIFY_EPOCHS = 3"
definition SYNC_SWITCH_EPOCHS :: u16 where "SYNC_SWITCH_EPOCHS = 10"
definition SYNC_SWITCH_RATIO :: u64 where "SYNC_SWITCH_RATIO = 2"
definition SYNC_HOLDOVER_DRIFT_PPT_PER_S :: u64 where "SYNC_HOLDOVER_DRIFT_PPT_PER_S = 5"
definition SYNC_SYNCHRONISED_LIMIT_NS :: u32 where "SYNC_SYNCHRONISED_LIMIT_NS = 100000000"
definition SYNC_HISTORY_LENGTH :: nat where "SYNC_HISTORY_LENGTH = 8"
definition SYNC_CAPTURE_RESOLUTION_NS :: int where "SYNC_CAPTURE_RESOLUTION_NS = 25"

record SyncSourceDefinition =
  has_select :: bool
  qualify_ns :: u32
  hold_ns :: u32
  bound_scale :: u32
  bound_floor_ns :: u32
  source_profile :: "EpochProfile option"
  holdover_frequency_ns :: u32
  steers :: bool

definition ntp_profile :: EpochProfile where
  "ntp_profile =
     \<lparr>profile_kp_q16 = Q16_RATIO 1 64, profile_ki_q16 = Q16_RATIO 1 16384, integral_limit_ticks = 400,
      correction_limit_ticks = 400, gate_ticks = 12000, profile_reject_limit = 8, learn_frequency = False\<rparr>"

definition source_table :: "SyncSourceDefinition list" where
  "source_table =
     [\<lparr>has_select = True, qualify_ns = 10000, hold_ns = 100000, bound_scale = 3, bound_floor_ns = 25,
       source_profile = Some epoch_profile_precise, holdover_frequency_ns = 40, steers = True\<rparr>,
      \<lparr>has_select = True, qualify_ns = 50000000, hold_ns = 100000000, bound_scale = 1, bound_floor_ns = 20000,
       source_profile = Some ntp_profile, holdover_frequency_ns = 1000, steers = True\<rparr>,
      \<lparr>has_select = False, qualify_ns = 1000000000, hold_ns = 1000000000, bound_scale = 1, bound_floor_ns = 0,
       source_profile = None, holdover_frequency_ns = 0, steers = False\<rparr>]"

section \<open>The code: state\<close>

datatype SyncState = SYNC_FREE_RUN | SYNC_ACQUIRE | SYNC_LOCKED | SYNC_HOLDOVER

datatype SyncReason =
  SYNC_REASON_QUALIFIED | SYNC_REASON_TRACKING | SYNC_REASON_PHASE_LOST | SYNC_REASON_SOURCE_LOST
  | SYNC_REASON_SOURCE_BACK | SYNC_REASON_ALTERNATIVE | SYNC_REASON_BETTER_SOURCE
  | SYNC_REASON_EXPIRED | SYNC_REASON_RESYNC

record SyncTransition =
  at_epoch :: u32
  from_state :: SyncState
  to_state :: SyncState
  to_source :: nat
  reason :: SyncReason
  verdict :: SyncCheck

record SyncHoldover =
  ready :: bool
  holdover_source :: nat
  age :: u32
  base_ns :: u32
  frequency_ns :: u32
  holdover_bound_ns :: u32

record SyncTime =
  known :: bool
  time_utc :: u32
  time_leap_second :: bool
  time_leap :: UtcLeap
  corrections :: u32
  time_source :: nat

record SyncStatus =
  sync_state :: SyncState
  source :: nat
  fallback :: bool
  state_epochs :: u32
  epochs_in_holdover :: u32
  sources :: "SyncSourceTracker list"
  holdover :: SyncHoldover
  time :: SyncTime
  link_leap :: UtcLeap
  second :: nat
  second_bound_ns :: u32
  challenger :: nat
  challenge_run :: u16
  epochs :: u32
  epoch_phase_valid :: bool
  epoch_phase_ticks :: int
  transitions :: u32
  history :: "SyncTransition list"
  steered :: bool
  aligned :: bool
  aligned_to :: nat
  aligned_ticks :: int
  resync_slew :: bool

section \<open>The code: helpers\<close>

definition saturate :: "u64 \<Rightarrow> u32" where
  "saturate v = (if v \<ge> ucast SYNC_BOUND_NONE then SYNC_BOUND_NONE - 1 else ucast v)"

definition ns_to_ticks :: "int \<Rightarrow> int" where
  "ns_to_ticks ns =
     (let half = SYNC_CAPTURE_RESOLUTION_NS div 2
      in i32 (if ns \<ge> 0 then ns + half else ns - half) sdiv SYNC_CAPTURE_RESOLUTION_NS)"

definition ticks_to_ns :: "int \<Rightarrow> u32" where
  "ticks_to_ns ticks = word_of_int (if ticks < 0 then - ticks else ticks) * word_of_int SYNC_CAPTURE_RESOLUTION_NS"

definition fold_phase :: "int \<Rightarrow> int" where
  "fold_phase phase =
     (let half_second = sint (TIMING_NOMINAL_TICKS div 2)
      in if phase \<ge> half_second then phase - sint TIMING_NOMINAL_TICKS
         else if phase < - half_second then phase + sint TIMING_NOMINAL_TICKS else phase)"

definition is_tracking :: "SyncStatus \<Rightarrow> bool" where
  "is_tracking s \<longleftrightarrow> sync_state s = SYNC_ACQUIRE \<or> sync_state s = SYNC_LOCKED"

definition source_good :: "nat \<Rightarrow> SyncStatus \<Rightarrow> bool" where
  "source_good i s \<longleftrightarrow> i < SYNC_SOURCE_COUNT \<and> check (sources s ! i) = SYNC_CHECK_GOOD"

definition source_usable :: "nat \<Rightarrow> SyncStatus \<Rightarrow> bool" where
  "source_usable i s \<longleftrightarrow>
     source_good i s \<or>
     (i < SYNC_SOURCE_COUNT \<and> i = source s \<and> fallback s \<and> check (sources s ! i) = SYNC_CHECK_INACCURATE)"

definition source_fallback :: "nat \<Rightarrow> SyncStatus \<Rightarrow> bool" where
  "source_fallback i s \<longleftrightarrow> usable_run (sources s ! i) \<ge> SYNC_QUALIFY_EPOCHS"

section \<open>The code: judging the sources\<close>

definition judge_source ::
  "TimingSnapshot \<Rightarrow> SyncSourceReport \<Rightarrow> u32 \<Rightarrow> SyncSourceDefinition \<Rightarrow> SyncSourceTracker \<Rightarrow> SyncSourceTracker" where
  "judge_source snapshot r limit d t0 =
     (let t = snd (sync_source_judge t0 r limit (sample_sequence (snap_timer snapshot)));
          placed = (edge r \<and> epoch_capture_valid (snap_capture snapshot))
      in t\<lparr>bound_ns := (if check t = SYNC_CHECK_GOOD \<or> check t = SYNC_CHECK_INACCURATE
                        then saturate (ucast (uncertainty_ns r) * ucast (bound_scale d) + ucast (bound_floor_ns d))
                        else 0),
           tracker_phase_valid := placed,
           phase_ticks := (if placed
                           then fold_phase (i32 (sint (epoch_capture (snap_capture snapshot) - edge_stamp r)
                                                 + ns_to_ticks (edge_offset_ns r)))
                           else 0)\<rparr>)"

definition judge_sources :: "TimingSnapshot \<Rightarrow> (nat \<Rightarrow> SyncSourceReport) \<Rightarrow> SyncStatus \<Rightarrow> SyncStatus" where
  "judge_sources snapshot reports s =
     s\<lparr>sources := map (\<lambda>i. let d = source_table ! i
         in judge_source snapshot (reports i) (if i = source s then hold_ns d else qualify_ns d) d (sources s ! i))
       [0..<SYNC_SOURCE_COUNT]\<rparr>"

definition update_holdover_bound :: "SyncStatus \<Rightarrow> SyncStatus" where
  "update_holdover_bound s =
     (let h = holdover s; a = ucast (age h) :: u64
      in if \<not> ready h then s\<lparr>holdover := h\<lparr>holdover_bound_ns := SYNC_BOUND_NONE\<rparr>\<rparr>
         else s\<lparr>holdover := h\<lparr>holdover_bound_ns :=
           saturate (ucast (base_ns h) + ucast (frequency_ns h) * a
                     + (SYNC_HOLDOVER_DRIFT_PPT_PER_S * a * a) div 2000)\<rparr>\<rparr>)"

section \<open>The code: ranking\<close>

definition sync_source_steers :: "nat \<Rightarrow> bool" where
  "sync_source_steers i \<longleftrightarrow> i < SYNC_SOURCE_COUNT \<and> steers (source_table ! i)"

definition sync_candidate_bound :: "nat \<Rightarrow> SyncStatus \<Rightarrow> u32" where
  "sync_candidate_bound c s =
     (if c = SYNC_CANDIDATE_HOLDOVER then
        if ready (holdover s) \<and> holdover_bound_ns (holdover s) \<le> SYNC_SYNCHRONISED_LIMIT_NS
        then holdover_bound_ns (holdover s) else SYNC_BOUND_NONE
      else if c \<ge> SYNC_SOURCE_COUNT \<or> \<not> steers (source_table ! c) then SYNC_BOUND_NONE
      else if c = source s \<and> is_tracking s then
        if source_usable c s then bound_ns (sources s ! c) else SYNC_BOUND_NONE
      else if \<not> source_good c s \<or> good_run (sources s ! c) < SYNC_QUALIFY_EPOCHS then SYNC_BOUND_NONE
      else bound_ns (sources s ! c))"

text \<open>The loops over the candidates keep the best so far and its bound.\<close>

definition best_source :: "nat \<Rightarrow> SyncStatus \<Rightarrow> nat" where
  "best_source except_source s =
     fst (fold (\<lambda>i (best, best_bound).
            if i \<noteq> except_source \<and> sync_candidate_bound i s < best_bound
            then (i, sync_candidate_bound i s) else (best, best_bound))
          [0..<SYNC_SOURCE_COUNT] (SYNC_SOURCE_NONE, SYNC_BOUND_NONE))"

definition best_fallback :: "SyncStatus \<Rightarrow> nat" where
  "best_fallback s =
     fst (fold (\<lambda>i (best, best_bound).
            if steers (source_table ! i) \<and> source_fallback i s \<and> bound_ns (sources s ! i) < best_bound
            then (i, bound_ns (sources s ! i)) else (best, best_bound))
          [0..<SYNC_SOURCE_COUNT] (SYNC_SOURCE_NONE, SYNC_BOUND_NONE))"

definition current_bound :: "SyncStatus \<Rightarrow> u32" where
  "current_bound s =
     (case sync_state s of
        SYNC_ACQUIRE \<Rightarrow> sync_candidate_bound (source s) s
      | SYNC_LOCKED \<Rightarrow> sync_candidate_bound (source s) s
      | SYNC_HOLDOVER \<Rightarrow> holdover_bound_ns (holdover s)
      | SYNC_FREE_RUN \<Rightarrow> SYNC_BOUND_NONE)"

definition challenge :: "nat \<Rightarrow> u32 \<Rightarrow> SyncStatus \<Rightarrow> bool \<times> SyncStatus" where
  "challenge c incumbent_bound s =
     (let bound = sync_candidate_bound c s
      in if c = SYNC_SOURCE_NONE \<or> bound = SYNC_BOUND_NONE
            \<or> (ucast bound :: u64) * SYNC_SWITCH_RATIO \<ge> ucast incumbent_bound
         then (False, s\<lparr>challenger := SYNC_SOURCE_NONE, challenge_run := 0\<rparr>)
         else let s1 = (if c \<noteq> challenger s then s\<lparr>challenger := c, challenge_run := 0\<rparr> else s);
                  s2 = (if challenge_run s1 < 0xFFFF then s1\<lparr>challenge_run := challenge_run s1 + 1\<rparr> else s1)
              in (challenge_run s2 \<ge> SYNC_SWITCH_EPOCHS, s2))"

definition rank_second :: "SyncStatus \<Rightarrow> SyncStatus" where
  "rank_second s =
     (let current = (if sync_state s = SYNC_HOLDOVER then SYNC_CANDIDATE_HOLDOVER
                     else if is_tracking s then source s else SYNC_SOURCE_NONE);
          (best, bound) = fold (\<lambda>c (best, best_bound).
              if c \<noteq> current \<and> c \<noteq> SYNC_SOURCE_NONE \<and> sync_candidate_bound c s < best_bound
              then (c, sync_candidate_bound c s) else (best, best_bound))
            [0..<SYNC_CANDIDATE_HOLDOVER + 1] (SYNC_SOURCE_NONE, SYNC_BOUND_NONE)
      in s\<lparr>second := best, second_bound_ns := bound\<rparr>)"

definition sync_candidate_rank :: "nat \<Rightarrow> SyncStatus \<Rightarrow> nat" where
  "sync_candidate_rank c s =
     (let bound = sync_candidate_bound c s
      in if bound = SYNC_BOUND_NONE \<or> c = SYNC_SOURCE_NONE then 0
         else fold (\<lambda>other rank.
                let other_bound = sync_candidate_bound other s
                in if other \<noteq> SYNC_SOURCE_NONE \<and> other \<noteq> c
                      \<and> (other_bound < bound \<or> (other_bound = bound \<and> other < c))
                   then rank + 1 else rank)
              [0..<SYNC_CANDIDATE_HOLDOVER + 1] 1)"

section \<open>The ranking\<close>

definition ranking :: "SyncStatus \<Rightarrow> nat list" where
  "ranking s = sort_key (\<lambda>c. sync_candidate_bound c s)
     (filter (\<lambda>c. sync_candidate_bound c s \<noteq> SYNC_BOUND_NONE) [0..<SYNC_CANDIDATE_HOLDOVER + 1])"

text \<open>The code's search loop finds the head of a stable sort.\<close>

lemma search_is_sort:
  fixes key :: "'a \<Rightarrow> 'k::linorder"
  shows "fold (\<lambda>i (b, k). if P i \<and> key i < k then (i, key i) else (b, k)) xs (b0, k0)
     = (case sort_key key (filter (\<lambda>i. P i \<and> key i < k0) xs) of [] \<Rightarrow> (b0, k0) | c # _ \<Rightarrow> (c, key c))"
proof (induction xs arbitrary: b0 k0)
  case (Cons x xs)
  let ?S = "sort_key key (filter (\<lambda>i. P i \<and> key i < k0) xs)"
  show ?case
  proof (cases "P x \<and> key x < k0")
    case True
    have "filter (\<lambda>i. key i < key x) (filter (\<lambda>i. P i \<and> key i < k0) xs)
        = filter (\<lambda>i. P i \<and> key i < key x) xs"
      using True by (auto intro!: filter_cong)
    then have f: "sort_key key (filter (\<lambda>i. P i \<and> key i < key x) xs) = filter (\<lambda>i. key i < key x) ?S"
      by (simp only: filter_sort)
    have srt: "sorted (map key ?S)" by simp
    show ?thesis
    proof (cases ?S)
      case Nil
      then show ?thesis using True by (simp add: Cons.IH f)
    next
      case (Cons c cs)
      have ge: "\<forall>i\<in>set cs. key c \<le> key i" using srt by (simp add: Cons)
      show ?thesis
      proof (cases "key c < key x")
        case True
        then have "\<not> key x \<le> key c" by simp
        then show ?thesis using \<open>P x \<and> key x < k0\<close> True by (simp add: Cons.IH f Cons)
      next
        case False
        then have "filter (\<lambda>i. key i < key x) ?S = []" using ge by (auto simp: Cons filter_empty_conv)
        moreover have "key x \<le> key c" using False by simp
        ultimately show ?thesis using \<open>P x \<and> key x < k0\<close> by (simp add: Cons.IH f Cons)
      qed
    qed
  next
    case False
    then show ?thesis by (auto simp: Cons.IH)
  qed
qed simp

lemma bound_none_top: "b < SYNC_BOUND_NONE \<longleftrightarrow> b \<noteq> SYNC_BOUND_NONE"
proof -
  have "SYNC_BOUND_NONE = (- 1 :: u32)" by (simp add: SYNC_BOUND_NONE_def)
  then show ?thesis using word_n1_ge [of b] by (simp only: less_le simp_thms)
qed

lemmas sync_ids = SYNC_SOURCE_COUNT_def SYNC_SOURCE_NONE_def SYNC_CANDIDATE_HOLDOVER_def

lemma upto_3: "[0..<3] = [0, 1, 2 :: nat]" by (simp add: upt_rec)
lemma upto_5: "[0..<5] = [0, 1, 2, 3, 4 :: nat]" by (simp add: upt_rec)

lemma never_candidates:
  "sync_candidate_bound SYNC_SOURCE_RTC s = SYNC_BOUND_NONE"
  "sync_candidate_bound SYNC_SOURCE_NONE s = SYNC_BOUND_NONE"
  by (simp_all add: sync_candidate_bound_def sync_ids source_table_def)

lemma best_source_ranked:
  "best_source e s = (case filter (\<lambda>c. c < SYNC_SOURCE_COUNT \<and> c \<noteq> e) (ranking s) of [] \<Rightarrow> SYNC_SOURCE_NONE | c # _ \<Rightarrow> c)"
proof -
  have "filter (\<lambda>c. c < SYNC_SOURCE_COUNT \<and> c \<noteq> e)
      (filter (\<lambda>c. sync_candidate_bound c s \<noteq> SYNC_BOUND_NONE) [0..<SYNC_CANDIDATE_HOLDOVER + 1])
    = filter (\<lambda>i. i \<noteq> e \<and> sync_candidate_bound i s < SYNC_BOUND_NONE) [0..<SYNC_SOURCE_COUNT]"
    by (simp add: sync_ids upto_5 upto_3 bound_none_top)
  then show ?thesis
    by (simp add: best_source_def search_is_sort ranking_def filter_sort split: list.splits)
qed

lemma ranking_shape:
  "ranking s = sort_key (\<lambda>c. sync_candidate_bound c s)
     (filter (\<lambda>c. sync_candidate_bound c s \<noteq> SYNC_BOUND_NONE) [0, 1, 4])"
  using never_candidates [of s] by (simp add: ranking_def sync_ids upto_5)

lemma sync_rank_shape:
  "sync_candidate_rank c s =
     (if sync_candidate_bound c s = SYNC_BOUND_NONE then 0
      else Suc (length (filter (\<lambda>d. d \<noteq> c \<and> (sync_candidate_bound d s < sync_candidate_bound c s
             \<or> sync_candidate_bound d s = sync_candidate_bound c s \<and> d < c)) [0, 1, 4])))"
proof -
  have n: "\<not> SYNC_BOUND_NONE < b" for b using bound_none_top [of b] by (metis less_asym less_irrefl)
  show ?thesis
    using never_candidates [of s] n
    by (auto simp: sync_candidate_rank_def sync_ids upto_5 Let_def)
qed

text \<open>A stable sort of ascending numbers is strictly ascending by key, then number, and counting
  what comes before gives the positions.\<close>

definition before_by :: "('a::linorder \<Rightarrow> 'k::linorder) \<Rightarrow> 'a \<Rightarrow> 'a \<Rightarrow> bool" where
  "before_by key c d \<longleftrightarrow> key c < key d \<or> key c = key d \<and> c < d"

lemma insort_before_by:
  "sorted_wrt (before_by key) ys \<Longrightarrow> \<forall>y\<in>set ys. x < y \<Longrightarrow> sorted_wrt (before_by key) (insort_key key x ys)"
  by (induction ys) (auto simp: before_by_def set_insort_key)

lemma sort_before_by: "sorted_wrt (<) xs \<Longrightarrow> sorted_wrt (before_by key) (sort_key key xs)"
  by (induction xs) (auto intro: insort_before_by)

lemma sorted_positions:
  assumes "sorted_wrt (before_by key) ys"
  shows "map (\<lambda>c. length (filter (\<lambda>d. before_by key d c) ys)) ys = [0..<length ys]"
proof (rule nth_equalityI)
  fix i
  assume "i < length (map (\<lambda>c. length (filter (\<lambda>d. before_by key d c) ys)) ys)"
  then have i: "i < length ys" by simp
  define a b where "a = take i ys" and "b = drop (Suc i) ys"
  have ys: "ys = a @ ys ! i # b" using i by (simp add: a_def b_def id_take_nth_drop)
  have irr: "before_by key x y \<Longrightarrow> \<not> before_by key y x" "\<not> before_by key x x" for x y
    by (auto simp: before_by_def)
  have srt: "\<forall>d\<in>set a. before_by key d (ys ! i)" "\<forall>d\<in>set b. before_by key (ys ! i) d"
    using assms ys by (metis sorted_wrt_append list.set_intros(1), metis sorted_wrt_append sorted_wrt.simps(2))
  then have "filter (\<lambda>d. before_by key d (ys ! i)) a = a" "filter (\<lambda>d. before_by key d (ys ! i)) b = []"
    using irr by (auto simp: filter_empty_conv)
  then have "filter (\<lambda>d. before_by key d (ys ! i)) ys = a" by (subst (2) ys) (simp add: irr)
  then show "map (\<lambda>c. length (filter (\<lambda>d. before_by key d c) ys)) ys ! i = [0..<length ys] ! i"
    using i by (simp add: a_def)
qed simp

lemma rank_counts:
  assumes "sync_candidate_bound c s \<noteq> SYNC_BOUND_NONE"
  shows "sync_candidate_rank c s
    = Suc (length (filter (\<lambda>d. before_by (\<lambda>c. sync_candidate_bound c s) d c) (ranking s)))"
proof -
  let ?b = "\<lambda>c. sync_candidate_bound c s"
  have n: "\<not> SYNC_BOUND_NONE < b" for b :: u32
    using bound_none_top [of b] by (metis less_asym less_irrefl)
  have "length (filter (\<lambda>d. before_by ?b d c) (ranking s))
      = length (filter (\<lambda>d. before_by ?b d c) (filter (\<lambda>c. ?b c \<noteq> SYNC_BOUND_NONE) [0, 1, 4]))"
    unfolding ranking_shape by (metis (no_types) filter_sort length_sort)
  also have "filter (\<lambda>d. before_by ?b d c) (filter (\<lambda>c. ?b c \<noteq> SYNC_BOUND_NONE) [0, 1, 4])
      = filter (\<lambda>d. d \<noteq> c \<and> (?b d < ?b c \<or> ?b d = ?b c \<and> d < c)) [0, 1, 4]"
    using assms n unfolding filter_filter by (intro filter_cong) (auto simp: before_by_def)
  finally show ?thesis using assms by (simp add: sync_rank_shape)
qed

lemma ranking_bounds: "c \<in> set (ranking s) \<Longrightarrow> sync_candidate_bound c s \<noteq> SYNC_BOUND_NONE"
  by (simp only: ranking_def set_sort set_filter mem_Collect_eq simp_thms)

lemma rank_places:
  "map (\<lambda>c. sync_candidate_rank c s) (ranking s) = [1..<Suc (length (ranking s))]"
proof -
  have "sorted_wrt (before_by (\<lambda>c. sync_candidate_bound c s)) (ranking s)"
    unfolding ranking_shape by (rule sort_before_by) simp
  then have "map (\<lambda>c. length (filter (\<lambda>d. before_by (\<lambda>c. sync_candidate_bound c s) d c) (ranking s))) (ranking s)
      = [0..<length (ranking s)]" by (rule sorted_positions)
  then have "map Suc (map (\<lambda>c. length (filter (\<lambda>d. before_by (\<lambda>c. sync_candidate_bound c s) d c) (ranking s))) (ranking s))
      = map Suc [0..<length (ranking s)]" by simp
  then show ?thesis by (simp add: rank_counts ranking_bounds map_Suc_upt cong: map_cong)
qed

lemma ranked_iff: "c \<in> set (ranking s) \<longleftrightarrow> sync_candidate_bound c s \<noteq> SYNC_BOUND_NONE"
proof -
  have "c < SYNC_CANDIDATE_HOLDOVER + 1" if "sync_candidate_bound c s \<noteq> SYNC_BOUND_NONE"
    using that by (auto simp: sync_candidate_bound_def sync_ids split: if_splits)
  then show ?thesis by (auto simp only: ranking_def set_sort set_filter mem_Collect_eq set_upt atLeastLessThan_iff)
qed

lemma rank_second_ranked:
  "second (rank_second s) =
     (case filter (\<lambda>c. c \<noteq> (if sync_state s = SYNC_HOLDOVER then SYNC_CANDIDATE_HOLDOVER
                            else if is_tracking s then source s else SYNC_SOURCE_NONE)) (ranking s)
      of [] \<Rightarrow> SYNC_SOURCE_NONE | c # _ \<Rightarrow> c)"
proof -
  define cur where "cur = (if sync_state s = SYNC_HOLDOVER then SYNC_CANDIDATE_HOLDOVER
                            else if is_tracking s then source s else SYNC_SOURCE_NONE)"
  have "filter (\<lambda>c. c \<noteq> cur) (filter (\<lambda>c. sync_candidate_bound c s \<noteq> SYNC_BOUND_NONE) [0..<SYNC_CANDIDATE_HOLDOVER + 1])
    = filter (\<lambda>i. (i \<noteq> cur \<and> i \<noteq> SYNC_SOURCE_NONE) \<and> sync_candidate_bound i s < SYNC_BOUND_NONE) [0..<SYNC_CANDIDATE_HOLDOVER + 1]"
    using never_candidates [of s] by (auto intro!: filter_cong simp: bound_none_top)
  then show ?thesis
    unfolding rank_second_def Let_def cur_def [symmetric]
    using search_is_sort [of "\<lambda>i. i \<noteq> cur \<and> i \<noteq> SYNC_SOURCE_NONE" "\<lambda>c. sync_candidate_bound c s"
        "[0..<SYNC_CANDIDATE_HOLDOVER + 1]" SYNC_SOURCE_NONE SYNC_BOUND_NONE]
    by (simp add: ranking_def filter_sort conj_assoc split: list.splits)
qed

section \<open>The holdover bound\<close>

lemma uint_saturate: "uint (saturate v) = min (uint v) (2 ^ 32 - 2)"
proof -
  have n: "uint (ucast SYNC_BOUND_NONE :: u64) = 2 ^ 32 - 1" by (simp add: SYNC_BOUND_NONE_def)
  show ?thesis
  proof (cases "v \<ge> ucast SYNC_BOUND_NONE")
    case True
    then have "uint v \<ge> 2 ^ 32 - 1" by (simp only: word_le_def n)
    then show ?thesis using True by (simp add: saturate_def SYNC_BOUND_NONE_def)
  next
    case False
    then have "uint v < 2 ^ 32 - 1" by (simp only: word_le_def n not_le)
    moreover have "uint (ucast v :: u32) = uint v mod 2 ^ 32" by (simp add: unsigned_ucast_eq take_bit_eq_mod)
    ultimately show ?thesis using False by (simp add: saturate_def)
  qed
qed

lemma holdover_bound_exact:
  assumes "ready (holdover s)" "uint (age (holdover s)) < 1000000000"
  shows "uint (holdover_bound_ns (holdover (update_holdover_bound s)))
    = min (uint (base_ns (holdover s)) + uint (frequency_ns (holdover s)) * uint (age (holdover s))
           + (5 * (uint (age (holdover s)))\<^sup>2) div 2000) (2 ^ 32 - 2)"
proof -
  define h where "h = holdover s"
  define a b f where "a = (ucast (age h) :: u64)" and "b = (ucast (base_ns h) :: u64)"
    and "f = (ucast (frequency_ns h) :: u64)"
  have u: "uint a = uint (age h)" "uint b = uint (base_ns h)" "uint f = uint (frequency_ns h)"
    by (simp_all add: a_def b_def f_def width_simps)
  have ra: "0 \<le> uint a" "uint a < 1000000000" and rb: "uint b < 2 ^ 32" and rf: "0 \<le> uint f" "uint f < 2 ^ 32"
    using assms(2) uint_lt2p [of "base_ns h"] uint_lt2p [of "frequency_ns h"] by (simp_all add: u h_def)
  have fa: "uint f * uint a \<le> 2 ^ 32 * 1000000000" using ra rf by (intro mult_mono) auto
  have aa: "uint a * uint a \<le> 1000000000 * 1000000000" using ra by (intro mult_mono) auto
  have d5: "uint (SYNC_HOLDOVER_DRIFT_PPT_PER_S * a) = 5 * uint a"
    using ra by (subst uint_mult_small) (simp_all add: SYNC_HOLDOVER_DRIFT_PPT_PER_S_def)
  have d: "uint (SYNC_HOLDOVER_DRIFT_PPT_PER_S * a * a) = 5 * (uint a)\<^sup>2"
    using aa d5 by (subst uint_mult_small) (simp_all add: power2_eq_square)
  have m: "uint (f * a) = uint f * uint a" using fa by (intro uint_mult_small) simp
  have q: "(5 * (uint a)\<^sup>2) div 2000 \<le> 5 * 1000000000 * 1000000000 div 2000"
    using aa by (intro zdiv_mono1) (simp_all add: power2_eq_square)
  have s1: "uint (b + f * a) = uint b + uint f * uint a"
    using fa rb m by (subst uint_plus_small) simp_all
  have "uint (b + f * a + (SYNC_HOLDOVER_DRIFT_PPT_PER_S * a * a) div 2000)
      = uint b + uint f * uint a + (5 * (uint a)\<^sup>2) div 2000"
    using fa rb s1 q d by (subst uint_plus_small) (simp_all add: uint_div)
  then show ?thesis
    using assms(1) by (simp add: update_holdover_bound_def Let_def uint_saturate a_def b_def f_def h_def u width_simps)
qed

section \<open>Properties\<close>

text \<open>
  C28: there is one ranking and every choice is its head. Sorting the candidates by bound, the
  earlier one first when bounds are equal, the rank of each is its place in that order and 0
  for anything that is not a candidate; the best source other than a given one and the second
  best shown in the reports are the first of the order that are not excluded; the RTC is never
  in it.
\<close>

theorem choice_is_ranking:
  "map (\<lambda>c. sync_candidate_rank c s) (ranking s) = [1..<Suc (length (ranking s))]
   \<and> (sync_candidate_rank c s = 0 \<longleftrightarrow> c \<notin> set (ranking s))
   \<and> best_source e s
       = (case filter (\<lambda>c. c < SYNC_SOURCE_COUNT \<and> c \<noteq> e) (ranking s) of [] \<Rightarrow> SYNC_SOURCE_NONE | c # _ \<Rightarrow> c)
   \<and> second (rank_second s)
       = (case filter (\<lambda>c. c \<noteq> (if sync_state s = SYNC_HOLDOVER then SYNC_CANDIDATE_HOLDOVER
                               else if is_tracking s then source s else SYNC_SOURCE_NONE)) (ranking s)
          of [] \<Rightarrow> SYNC_SOURCE_NONE | c # _ \<Rightarrow> c)
   \<and> SYNC_SOURCE_RTC \<notin> set (ranking s)"
proof -
  have "sync_candidate_rank c s = 0 \<longleftrightarrow> c \<notin> set (ranking s)"
    by (simp add: sync_rank_shape ranked_iff)
  then show ?thesis
    using never_candidates(1) [of s] by (simp only: rank_places best_source_ranked rank_second_ranked ranked_iff simp_thms)
qed

text \<open>
  The holdover bound is \<open>u0 + f t + D t\<^sup>2 / 2\<close> exactly, saturating below the value that means no
  bound. No product or sum wraps for any base, any frequency error and an age up to thirty years.
\<close>

theorem holdover_bound_law:
  assumes "ready (holdover s)" "uint (age (holdover s)) < 1000000000"
  shows "uint (holdover_bound_ns (holdover (update_holdover_bound s)))
    = min (uint (base_ns (holdover s)) + uint (frequency_ns (holdover s)) * uint (age (holdover s))
           + (5 * (uint (age (holdover s)))\<^sup>2) div 2000) (2 ^ 32 - 2)"
  using assms by (rule holdover_bound_exact)

definition blank_status :: SyncStatus where
  "blank_status =
     \<lparr>sync_state = SYNC_FREE_RUN, source = SYNC_SOURCE_NONE, fallback = False, state_epochs = 0,
      epochs_in_holdover = 0, sources = replicate SYNC_SOURCE_COUNT sync_source_reset,
      holdover = \<lparr>ready = False, holdover_source = 0, age = 0, base_ns = 0, frequency_ns = 0,
                  holdover_bound_ns = SYNC_BOUND_NONE\<rparr>,
      time = \<lparr>known = False, time_utc = 0, time_leap_second = False, time_leap = no_leap,
              corrections = 0, time_source = SYNC_SOURCE_NONE\<rparr>,
      link_leap = no_leap, second = SYNC_SOURCE_NONE, second_bound_ns = SYNC_BOUND_NONE,
      challenger = SYNC_SOURCE_NONE, challenge_run = 0, epochs = 0, epoch_phase_valid = False,
      epoch_phase_ticks = 0, transitions = 0,
      history = replicate SYNC_HISTORY_LENGTH
        \<lparr>at_epoch = 0, from_state = SYNC_FREE_RUN, to_state = SYNC_FREE_RUN, to_source = 0,
         reason = SYNC_REASON_QUALIFIED, verdict = SYNC_CHECK_ABSENT\<rparr>,
      steered = False, aligned = False, aligned_to = SYNC_SOURCE_NONE, aligned_ticks = 0,
      resync_slew = False\<rparr>"

theorem holdover_bound_law_witness:
  "uint (holdover_bound_ns (holdover (update_holdover_bound
     (blank_status\<lparr>holdover := \<lparr>ready = True, holdover_source = 0, age = 3600, base_ns = 145,
        frequency_ns = 40, holdover_bound_ns = 0\<rparr>\<rparr>)))) = 176545"
  by (subst holdover_bound_law) simp_all

end
