(* ===== verification/Sync.thy ===== *)
theory Sync
  imports Sync_Rank
begin

text \<open>
  The synchroniser's state machine and the time of day (\<open>dspic_src/sync/sync.c\<close>, second half).
  Its state is the record of \<open>Sync_Rank\<close>, the requests waiting for the next epoch, the epoch
  control loop it drives and the source its capture pair is routed to. The adapters' reports of
  an epoch are an argument of \<open>sync_update\<close>.
\<close>

section \<open>The code: state\<close>

record ManualTime =
  pending :: bool
  manual_utc :: u32
  manual_epoch :: u32
  manual_slot_ms :: u16

record Sync =
  status :: SyncStatus
  resync_pending :: bool
  manual_time :: ManualTime
  control :: EpochControl
  routed :: nat

record SyncUpdate =
  loop_update :: EpochUpdate
  usable :: bool
  transitioned :: bool

definition TIMING_TICKS_PER_MS :: u32 where "TIMING_TICKS_PER_MS = TIMING_NOMINAL_TICKS div 1000"
definition SYNC_ALIGN_WAIT_EPOCHS :: u32 where "SYNC_ALIGN_WAIT_EPOCHS = 6"

section \<open>The code: transitions\<close>

definition enter :: "SyncState \<Rightarrow> nat \<Rightarrow> SyncReason \<Rightarrow> u32 \<Rightarrow> SyncStatus \<Rightarrow> SyncStatus" where
  "enter st src why epoch s =
     (let entry = \<lparr>at_epoch = epoch, from_state = sync_state s, to_state = st, to_source = src, reason = why,
                   verdict = (if source s < SYNC_SOURCE_COUNT then check (sources s ! source s)
                              else SYNC_CHECK_ABSENT)\<rparr>;
          s1 = s\<lparr>history := (history s)[unat (transitions s) mod SYNC_HISTORY_LENGTH := entry],
                 transitions := transitions s + 1\<rparr>;
          s2 = (if src \<noteq> source s1 then s1\<lparr>fallback := False\<rparr> else s1);
          s3 = s2\<lparr>sync_state := st, source := src, state_epochs := 0, challenger := SYNC_SOURCE_NONE,
                  challenge_run := 0\<rparr>
      in if st \<noteq> SYNC_HOLDOVER then s3\<lparr>epochs_in_holdover := 0\<rparr> else s3)"

definition sync_acquire :: "nat \<Rightarrow> SyncReason \<Rightarrow> u32 \<Rightarrow> bool \<Rightarrow> Sync \<Rightarrow> Sync" where
  "sync_acquire src why epoch fallback_source y =
     (let d = source_table ! src; s = status y; t = sources s ! src;
          p = (case source_profile d of Some p \<Rightarrow> p | None \<Rightarrow> profile (control y));
          limit = gate_ticks p sdiv 2;
          slew = ((sync_state s = SYNC_LOCKED \<or> sync_state s = SYNC_HOLDOVER \<or> resync_slew s)
                  \<and> tracker_phase_valid t \<and> loop_state (control y) = EPOCH_STATE_TRACK
                  \<and> phase_ticks t \<le> limit \<and> phase_ticks t \<ge> - limit);
          y1 = (if has_select d then y\<lparr>routed := src\<rparr> else y);
          y2 = y1\<lparr>control := epoch_control_restart (source_profile d) slew (control y1)\<rparr>
      in y2\<lparr>status := (enter SYNC_ACQUIRE src why epoch (status y2))
              \<lparr>fallback := fallback_source, steered := True, resync_slew := False\<rparr>\<rparr>)"

definition align_to_time_of_day :: "Sync \<Rightarrow> Sync" where
  "align_to_time_of_day y =
     (let s = status y
      in if sync_state s \<noteq> SYNC_FREE_RUN \<or> aligned s \<or> steered s then y
         else case find (\<lambda>i. let t = sources s ! i
                             in \<not> steers (source_table ! i)
                                \<and> (check t = SYNC_CHECK_GOOD \<or> check t = SYNC_CHECK_INACCURATE)
                                \<and> tracker_phase_valid t) [0..<SYNC_SOURCE_COUNT] of
           None \<Rightarrow> y
         | Some i \<Rightarrow>
             let s1 = s\<lparr>aligned := True, aligned_to := i, aligned_ticks := - phase_ticks (sources s ! i)\<rparr>
             in y\<lparr>status := s1, control := epoch_control_free_run_step (aligned_ticks s1) (control y)\<rparr>)"

definition time_of_day_pending :: "SyncStatus \<Rightarrow> bool" where
  "time_of_day_pending s =
     (if aligned s \<or> steered s \<or> epochs s \<ge> SYNC_ALIGN_WAIT_EPOCHS then False
      else list_ex (\<lambda>i. let r = report (sources s ! i)
                        in \<not> steers (source_table ! i) \<and> present r \<and> time_valid r \<and> \<not> edge r)
             [0..<SYNC_SOURCE_COUNT])"

definition follow_sources :: "u32 \<Rightarrow> Sync \<Rightarrow> Sync" where
  "follow_sources epoch y =
     (let s = status y; selected = source s
      in case sync_state s of
           SYNC_FREE_RUN \<Rightarrow>
             if time_of_day_pending s then y
             else let best = best_source SYNC_SOURCE_NONE s
                  in if best \<noteq> SYNC_SOURCE_NONE then sync_acquire best SYNC_REASON_QUALIFIED epoch False y
                     else let coarse = best_fallback s
                          in if coarse \<noteq> SYNC_SOURCE_NONE
                             then sync_acquire coarse SYNC_REASON_QUALIFIED epoch (\<not> source_good coarse s) y
                             else y
         | SYNC_HOLDOVER \<Rightarrow>
             let best = best_source SYNC_SOURCE_NONE s
             in if source_usable selected s \<and> captured (report (sources s ! selected))
                   \<and> bound_ns (sources s ! selected) \<le> holdover_bound_ns (holdover s)
                then y\<lparr>status := enter SYNC_LOCKED selected SYNC_REASON_SOURCE_BACK epoch s\<rparr>
                else if best = selected \<and> \<not> captured (report (sources s ! selected))
                then sync_acquire selected SYNC_REASON_SOURCE_BACK epoch False y
                else let (won, s1) = challenge best (holdover_bound_ns (holdover s)) s; y1 = y\<lparr>status := s1\<rparr>
                     in if won then sync_acquire best SYNC_REASON_ALTERNATIVE epoch False y1
                        else if holdover_bound_ns (holdover s1) > SYNC_SYNCHRONISED_LIMIT_NS
                        then y1\<lparr>status := enter SYNC_FREE_RUN SYNC_SOURCE_NONE SYNC_REASON_EXPIRED epoch s1\<rparr>
                        else y1
         | _ \<Rightarrow>
             if source_usable selected s then
               let best = best_source selected s;
                   (won, s1) = challenge best (current_bound s) s; y1 = y\<lparr>status := s1\<rparr>
               in if won then sync_acquire best SYNC_REASON_BETTER_SOURCE epoch False y1 else y1
             else if sync_candidate_bound SYNC_CANDIDATE_HOLDOVER s \<noteq> SYNC_BOUND_NONE
             then y\<lparr>status := enter SYNC_HOLDOVER (holdover_source (holdover s)) SYNC_REASON_SOURCE_LOST epoch s\<rparr>
             else let best = best_source selected s
                  in if best \<noteq> SYNC_SOURCE_NONE then sync_acquire best SYNC_REASON_ALTERNATIVE epoch False y
                     else y\<lparr>status := enter SYNC_FREE_RUN SYNC_SOURCE_NONE SYNC_REASON_SOURCE_LOST epoch s\<rparr>)"

definition follow_loop :: "TimingSnapshot \<Rightarrow> EpochUpdate \<Rightarrow> EpochControl \<Rightarrow> SyncStatus \<Rightarrow> SyncStatus" where
  "follow_loop snapshot u l s =
     (let epoch = sample_sequence (snap_timer snapshot)
      in if sync_state s = SYNC_ACQUIRE \<and> loop_state l = EPOCH_STATE_TRACK \<and> last_resync l \<noteq> epoch
            \<and> kind u = EPOCH_UPDATE_MEASURED
         then enter SYNC_LOCKED (source s) SYNC_REASON_TRACKING epoch s
         else if sync_state s = SYNC_LOCKED \<and> loop_state l \<noteq> EPOCH_STATE_TRACK
         then enter SYNC_ACQUIRE (source s) SYNC_REASON_PHASE_LOST epoch s
         else s)"

definition follow_holdover :: "EpochUpdate \<Rightarrow> SyncStatus \<Rightarrow> SyncStatus" where
  "follow_holdover u s =
     (let h = holdover s
      in if sync_state s = SYNC_LOCKED \<and> kind u = EPOCH_UPDATE_MEASURED
         then s\<lparr>holdover := h\<lparr>ready := True, holdover_source := source s, age := 0,
                  base_ns := saturate (ucast (bound_ns (sources s ! source s)) + ucast (ticks_to_ns (utc_offset_ticks u))),
                  frequency_ns := holdover_frequency_ns (source_table ! source s)\<rparr>\<rparr>
         else if ready h \<and> age h < 0xFFFFFFFF then s\<lparr>holdover := h\<lparr>age := age h + 1\<rparr>\<rparr>
         else s)"

section \<open>The code: time of day\<close>

definition label_epoch :: "TimingSnapshot \<Rightarrow> SyncSourceReport \<Rightarrow> UtcLeap \<Rightarrow> u32 \<times> bool" where
  "label_epoch snapshot r l =
     (let raw = i32 (sint (epoch_capture (snap_capture snapshot) - edge_stamp r) + ns_to_ticks (edge_offset_ns r))
      in if epoch_capture_valid (snap_capture snapshot) \<and> raw \<ge> sint (TIMING_NOMINAL_TICKS div 2)
         then utc_advance (utc_seconds r) (leap_second r) 1 (announced l)
         else (utc_seconds r, leap_second r))"

definition chosen_leap :: "SyncSourceReport \<Rightarrow> SyncStatus \<Rightarrow> UtcLeap" where
  "chosen_leap r s = (if change (leap r) \<noteq> 0 then leap r else link_leap s)"

definition seed_time :: "TimingSnapshot \<Rightarrow> SyncStatus \<Rightarrow> SyncStatus" where
  "seed_time snapshot s =
     (let (best, _) = fold (\<lambda>i (best, best_bound). let t = sources s ! i in
              if (check t = SYNC_CHECK_GOOD \<or> check t = SYNC_CHECK_INACCURATE) \<and> labelled (report t)
                 \<and> bound_ns t < best_bound
              then (i, bound_ns t) else (best, best_bound))
            [0..<SYNC_SOURCE_COUNT] (SYNC_SOURCE_NONE, SYNC_BOUND_NONE)
      in if best = SYNC_SOURCE_NONE then s
         else let r = report (sources s ! best); lp = chosen_leap r s;
                  (label, is_leap) = label_epoch snapshot r lp
              in s\<lparr>time := (time s)\<lparr>time_leap := lp, time_utc := label, time_leap_second := is_leap,
                                    known := True, time_source := best\<rparr>\<rparr>)"

definition keep_time :: "TimingSnapshot \<Rightarrow> bool \<Rightarrow> bool \<Rightarrow> SyncStatus \<Rightarrow> SyncStatus" where
  "keep_time snapshot use was_locked s =
     (let tm = time s;
          (counted, counted_leap) = utc_advance (time_utc tm) (time_leap_second tm) 1 (announced (time_leap tm))
      in if use then
           let r = report (sources s ! source s); lp = chosen_leap r s;
               (label, label_leap) = label_epoch snapshot r lp;
               correction = (was_locked \<and> known tm \<and> (label \<noteq> counted \<or> label_leap \<noteq> counted_leap))
           in s\<lparr>time := tm\<lparr>time_leap := lp,
                          corrections := (if correction then corrections tm + 1 else corrections tm),
                          time_utc := label, time_leap_second := label_leap, known := True,
                          time_source := source s\<rparr>\<rparr>
         else if known tm then
           s\<lparr>time := tm\<lparr>time_utc := counted, time_leap_second := counted_leap,
                        time_leap := (if change (link_leap s) \<noteq> 0 then link_leap s else time_leap tm)\<rparr>\<rparr>
         else seed_time snapshot s)"

section \<open>The code: interface\<close>

definition sync_init :: "Sync \<Rightarrow> Sync" where
  "sync_init y =
     y\<lparr>status := blank_status, resync_pending := False, manual_time := (manual_time y)\<lparr>pending := False\<rparr>,
       control := epoch_control_init (control y)\<rparr>"

definition apply_manual_time :: "u32 \<Rightarrow> Sync \<Rightarrow> Sync" where
  "apply_manual_time epoch y =
     (let m = manual_time y; elapsed = epoch - manual_epoch m; later_half = (manual_slot_ms m > 500)
      in if \<not> pending m then y
         else let y1 = y\<lparr>manual_time := m\<lparr>pending := False\<rparr>\<rparr>; s = status y1; tm = time s
         in if sync_state s \<noteq> SYNC_FREE_RUN \<or> steered s then y1
            else y1\<lparr>control := epoch_control_free_run_step
                      (if later_half then i32 (- sint (ucast (1000 - manual_slot_ms m) * TIMING_TICKS_PER_MS))
                       else sint (ucast (manual_slot_ms m) * TIMING_TICKS_PER_MS)) (control y1),
                    status := s\<lparr>time := tm\<lparr>corrections := (if known tm then corrections tm + 1 else corrections tm),
                                  known := True, time_leap_second := False,
                                  time_utc := manual_utc m + elapsed - (if later_half then 1 else 0) - 1,
                                  time_source := SYNC_SOURCE_NONE\<rparr>,
                                aligned := True\<rparr>\<rparr>)"

definition apply_resync :: "u32 \<Rightarrow> Sync \<Rightarrow> Sync" where
  "apply_resync epoch y =
     (if \<not> resync_pending y then y
      else let s = status y;
               s1 = s\<lparr>resync_slew := (sync_state s = SYNC_LOCKED \<or> sync_state s = SYNC_HOLDOVER),
                      sources := map (\<lambda>_. sync_source_reset) [0..<SYNC_SOURCE_COUNT],
                      holdover := (holdover s)\<lparr>ready := False, holdover_bound_ns := SYNC_BOUND_NONE\<rparr>\<rparr>
           in y\<lparr>resync_pending := False,
                status := enter SYNC_FREE_RUN SYNC_SOURCE_NONE SYNC_REASON_RESYNC epoch s1\<rparr>)"

text \<open>\<open>sync_update\<close> in its four parts: up to the transitions driven by the sources, the control
  loop's turn, what follows from it, and the counters.\<close>

definition on_status :: "(SyncStatus \<Rightarrow> SyncStatus) \<Rightarrow> Sync \<Rightarrow> Sync" where
  "on_status f y = y\<lparr>status := f (status y)\<rparr>"

definition clear_fallback :: "SyncStatus \<Rightarrow> SyncStatus" where
  "clear_fallback s = (if fallback s \<and> source_good (source s) s then s\<lparr>fallback := False\<rparr> else s)"

definition prepare :: "TimingSnapshot \<Rightarrow> (nat \<Rightarrow> SyncSourceReport) \<Rightarrow> Sync \<Rightarrow> Sync" where
  "prepare snapshot reports y =
     align_to_time_of_day (on_status update_holdover_bound (on_status clear_fallback
       (apply_manual_time (sample_sequence (snap_timer snapshot))
         (on_status (judge_sources snapshot reports)
           (apply_resync (sample_sequence (snap_timer snapshot)) y)))))"

definition run_loop :: "TimingSnapshot \<Rightarrow> Sync \<Rightarrow> (bool \<times> EpochUpdate) \<times> Sync" where
  "run_loop snapshot y =
     (let s = status y; r = report (sources s ! source s);
          use = (is_tracking s \<and> source_usable (source s) s \<and> captured r);
          offset_ticks = (if use then ns_to_ticks (edge_offset_ns r) else 0);
          l1 = (if is_tracking s \<and> source s < SYNC_SOURCE_COUNT \<and> source_stepped r
                then epoch_control_source_stepped (control y) else control y);
          (u, l2) = epoch_control_update snapshot use offset_ticks l1
      in ((use, u), y\<lparr>control := l2\<rparr>))"

definition after_loop :: "TimingSnapshot \<Rightarrow> bool \<Rightarrow> EpochUpdate \<Rightarrow> bool \<Rightarrow> EpochControl \<Rightarrow> SyncStatus \<Rightarrow> SyncStatus" where
  "after_loop snapshot use u was_locked l s =
     rank_second (keep_time snapshot use was_locked
       (update_holdover_bound (follow_holdover u (follow_loop snapshot u l s))))"

definition count_epoch :: "EpochUpdate \<Rightarrow> SyncStatus \<Rightarrow> SyncStatus" where
  "count_epoch u s =
     (let s1 = s\<lparr>epochs := epochs s + 1, epoch_phase_valid := phase_valid u,
                 epoch_phase_ticks := utc_offset_ticks u, state_epochs := state_epochs s + 1\<rparr>
      in if sync_state s1 = SYNC_HOLDOVER then s1\<lparr>epochs_in_holdover := epochs_in_holdover s1 + 1\<rparr> else s1)"

fun conclude :: "TimingSnapshot \<Rightarrow> SyncStatus \<Rightarrow> (bool \<times> EpochUpdate) \<times> Sync \<Rightarrow> SyncUpdate \<times> Sync" where
  "conclude snapshot before ((use, u), y) =
     (let was_locked = (sync_state before = SYNC_LOCKED \<or> sync_state before = SYNC_HOLDOVER);
          s = count_epoch u (after_loop snapshot use u was_locked (control y) (status y))
      in (\<lparr>loop_update = u, usable = use, transitioned = (transitions s \<noteq> transitions before)\<rparr>,
          y\<lparr>status := s\<rparr>))"

definition sync_update :: "TimingSnapshot \<Rightarrow> (nat \<Rightarrow> SyncSourceReport) \<Rightarrow> Sync \<Rightarrow> SyncUpdate \<times> Sync" where
  "sync_update snapshot reports y =
     conclude snapshot (status y)
       (run_loop snapshot (follow_sources (sample_sequence (snap_timer snapshot)) (prepare snapshot reports y)))"

definition sync_set_time :: "u32 \<Rightarrow> u32 \<Rightarrow> u16 \<Rightarrow> Sync \<Rightarrow> bool \<times> Sync" where
  "sync_set_time utc at_sequence slot_ms y =
     (if sync_state (status y) \<noteq> SYNC_FREE_RUN \<or> steered (status y) \<or> slot_ms \<ge> 1000 then (False, y)
      else (True, y\<lparr>manual_time := \<lparr>pending = True, manual_utc = utc, manual_epoch = at_sequence,
                                   manual_slot_ms = slot_ms\<rparr>\<rparr>))"

definition sync_resync :: "Sync \<Rightarrow> Sync" where
  "sync_resync y = y\<lparr>resync_pending := True\<rparr>"

definition sync_set_leap :: "UtcLeap \<Rightarrow> Sync \<Rightarrow> Sync" where
  "sync_set_leap l y =
     y\<lparr>status := (status y)\<lparr>link_leap := (if change l = 0 then l\<lparr>event_utc := 0\<rparr> else l)\<rparr>\<rparr>"

definition sync_uncertainty :: "SyncStatus \<Rightarrow> u32 option" where
  "sync_uncertainty s =
     (if \<not> known (time s) then None
      else if sync_state s = SYNC_HOLDOVER \<and> ready (holdover s) then Some (holdover_bound_ns (holdover s))
      else if is_tracking s \<and> source_usable (source s) s \<and> epoch_phase_valid s
      then Some (saturate (ucast (bound_ns (sources s ! source s)) + ucast (ticks_to_ns (epoch_phase_ticks s))))
      else if sync_state s = SYNC_FREE_RUN \<and> time_source (time s) < SYNC_SOURCE_COUNT
              \<and> \<not> steers (source_table ! time_source (time s)) \<and> source_good (time_source (time s)) s
      then Some (bound_ns (sources s ! time_source (time s)))
      else None)"

definition sync_is_synchronised :: "SyncStatus \<Rightarrow> bool" where
  "sync_is_synchronised s \<longleftrightarrow>
     (sync_state s = SYNC_LOCKED \<or> sync_state s = SYNC_HOLDOVER) \<and> current_bound s \<le> SYNC_SYNCHRONISED_LIMIT_NS"

definition sync_last_transition :: "SyncStatus \<Rightarrow> SyncTransition option" where
  "sync_last_transition s =
     (if transitions s = 0 then None
      else Some (history s ! (unat (transitions s - 1) mod SYNC_HISTORY_LENGTH)))"

section \<open>The transitions\<close>

text \<open>
  The edges of the state machine: state, selected source, reason, state and source after it.
  First the diagram in the header of \<open>sync.h\<close>, arrow by arrow.
\<close>

inductive diagram_edge :: "SyncState \<Rightarrow> nat \<Rightarrow> SyncReason \<Rightarrow> SyncState \<Rightarrow> nat \<Rightarrow> bool" where
  taken_up: "sync_source_steers t \<Longrightarrow>
    diagram_edge SYNC_FREE_RUN SYNC_SOURCE_NONE SYNC_REASON_QUALIFIED SYNC_ACQUIRE t"
| tracking: "diagram_edge SYNC_ACQUIRE i SYNC_REASON_TRACKING SYNC_LOCKED i"
| held_again: "sync_source_steers h \<Longrightarrow>
    diagram_edge SYNC_ACQUIRE i SYNC_REASON_SOURCE_LOST SYNC_HOLDOVER h"
| given_up: "diagram_edge SYNC_ACQUIRE i SYNC_REASON_SOURCE_LOST SYNC_FREE_RUN SYNC_SOURCE_NONE"
| phase_lost: "diagram_edge SYNC_LOCKED i SYNC_REASON_PHASE_LOST SYNC_ACQUIRE i"
| held: "diagram_edge SYNC_LOCKED i SYNC_REASON_SOURCE_LOST SYNC_HOLDOVER i"
| returned: "diagram_edge SYNC_HOLDOVER i SYNC_REASON_SOURCE_BACK SYNC_LOCKED i"
| rerouted: "diagram_edge SYNC_HOLDOVER i SYNC_REASON_SOURCE_BACK SYNC_ACQUIRE i"
| outranked: "sync_source_steers t \<Longrightarrow> t \<noteq> i \<Longrightarrow>
    diagram_edge SYNC_HOLDOVER i SYNC_REASON_ALTERNATIVE SYNC_ACQUIRE t"
| expired: "diagram_edge SYNC_HOLDOVER i SYNC_REASON_EXPIRED SYNC_FREE_RUN SYNC_SOURCE_NONE"
| better: "a = SYNC_ACQUIRE \<or> a = SYNC_LOCKED \<Longrightarrow> sync_source_steers t \<Longrightarrow> t \<noteq> i \<Longrightarrow>
    diagram_edge a i SYNC_REASON_BETTER_SOURCE SYNC_ACQUIRE t"

text \<open>
  The edges the code has beyond the diagram: what becomes of a source that fails when holdover
  is no candidate (not ready, or its bound past \<open>SYNC_SYNCHRONISED_LIMIT_NS\<close>), and a
  resynchronisation that was asked for.
\<close>

inductive unheld_edge :: "SyncState \<Rightarrow> nat \<Rightarrow> SyncReason \<Rightarrow> SyncState \<Rightarrow> nat \<Rightarrow> bool" where
  dropped: "unheld_edge SYNC_LOCKED i SYNC_REASON_SOURCE_LOST SYNC_FREE_RUN SYNC_SOURCE_NONE"
| replaced: "a = SYNC_ACQUIRE \<or> a = SYNC_LOCKED \<Longrightarrow> sync_source_steers t \<Longrightarrow> t \<noteq> i \<Longrightarrow>
    unheld_edge a i SYNC_REASON_ALTERNATIVE SYNC_ACQUIRE t"

inductive resync_edge :: "SyncState \<Rightarrow> nat \<Rightarrow> SyncReason \<Rightarrow> SyncState \<Rightarrow> nat \<Rightarrow> bool" where
  asked: "resync_edge a i SYNC_REASON_RESYNC SYNC_FREE_RUN SYNC_SOURCE_NONE"

definition sync_edge :: "SyncState \<Rightarrow> nat \<Rightarrow> SyncReason \<Rightarrow> SyncState \<Rightarrow> nat \<Rightarrow> bool" where
  "sync_edge a i why b j \<longleftrightarrow>
     diagram_edge a i why b j \<or> unheld_edge a i why b j \<or> resync_edge a i why b j"

lemma sync_edgeI [intro]:
  "diagram_edge a i why b j \<Longrightarrow> sync_edge a i why b j"
  "unheld_edge a i why b j \<Longrightarrow> sync_edge a i why b j"
  "resync_edge a i why b j \<Longrightarrow> sync_edge a i why b j"
  by (simp_all add: sync_edge_def)

text \<open>The transitions the ring still holds, newest first, and that they lead, each by an edge
  from where the one before it arrived, to a given state and source.\<close>

definition recent :: "SyncTransition list \<Rightarrow> u32 \<Rightarrow> SyncTransition list" where
  "recent h n = map (\<lambda>k. h ! ((unat n - 1 - k) mod SYNC_HISTORY_LENGTH)) [0..<min (unat n) SYNC_HISTORY_LENGTH]"

fun leads_to :: "SyncTransition list \<Rightarrow> SyncState \<Rightarrow> nat \<Rightarrow> bool" where
  "leads_to [] st src = True"
| "leads_to (e # es) st src \<longleftrightarrow> to_state e = st \<and> to_source e = src \<and>
     (case es of [] \<Rightarrow> \<exists>i. sync_edge (from_state e) i (reason e) st src
      | d # _ \<Rightarrow> sync_edge (from_state e) (to_source d) (reason e) st src
                \<and> leads_to es (from_state e) (to_source d))"

lemma leads_to_cons:
  "sync_edge (from_state e) i (reason e) (to_state e) (to_source e) \<Longrightarrow> leads_to es (from_state e) i \<Longrightarrow>
   leads_to (e # es) (to_state e) (to_source e)"
  by (cases es) auto

lemma leads_to_take: "leads_to es st src \<Longrightarrow> leads_to (take n es) st src"
proof (induction es arbitrary: st src n)
  case (Cons e es)
  show ?case
  proof (cases n)
    case (Suc m)
    show ?thesis
    proof (cases es)
      case (Cons d ds)
      then have "leads_to (take m (d # ds)) (from_state e) (to_source d)"
        using Cons.IH [of "from_state e" "to_source d" m] Cons.prems by simp
      then show ?thesis using Cons.prems Cons Suc by (cases m) auto
    qed (use Cons.prems Suc in simp)
  qed simp
qed simp

lemma recent_push:
  assumes "length h = SYNC_HISTORY_LENGTH"
  shows "recent (h[unat n mod SYNC_HISTORY_LENGTH := e]) (n + 1)
    = (if n + 1 = 0 then [] else take SYNC_HISTORY_LENGTH (e # recent h n))"
proof (cases "n + 1 = 0")
  case True
  then show ?thesis by (simp add: recent_def)
next
  case False
  then have u: "unat (n + 1) = Suc (unat n)" using unatSuc [of n] by (simp add: add.commute)
  have L: "SYNC_HISTORY_LENGTH = 8" by (simp add: SYNC_HISTORY_LENGTH_def)
  show ?thesis
  proof (rule nth_equalityI)
    fix i
    assume i: "i < length (recent (h[unat n mod SYNC_HISTORY_LENGTH := e]) (n + 1))"
    then have i8: "i < 8" "i \<le> unat n" by (simp_all add: recent_def u L del: upt_Suc)
    show "recent (h[unat n mod SYNC_HISTORY_LENGTH := e]) (n + 1) ! i
      = (if n + 1 = 0 then [] else take SYNC_HISTORY_LENGTH (e # recent h n)) ! i"
    proof (cases i)
      case 0
      then show ?thesis using False i assms by (simp add: recent_def u L del: upt_Suc)
    next
      case (Suc j)
      have "unat n mod 8 \<noteq> (unat n - i) mod 8"
        using i8 Suc mod_eq_dvd_iff_nat [of "unat n - i" "unat n" 8] by (auto dest: dvd_imp_le)
      then show ?thesis
        using False i i8 assms Suc by (simp add: recent_def u L nth_list_update diff_commute del: upt_Suc)
    qed
  qed (use False in \<open>simp add: recent_def u L del: upt_Suc\<close>)
qed

definition trail_ok :: "SyncTransition list \<Rightarrow> u32 \<Rightarrow> SyncState \<Rightarrow> nat \<Rightarrow> bool" where
  "trail_ok h n st src \<longleftrightarrow> length h = SYNC_HISTORY_LENGTH \<and> leads_to (recent h n) st src"

lemma trail_push:
  assumes "trail_ok h n (from_state e) i" "sync_edge (from_state e) i (reason e) (to_state e) (to_source e)"
  shows "trail_ok (h[unat n mod SYNC_HISTORY_LENGTH := e]) (n + 1) (to_state e) (to_source e)"
  using assms leads_to_take [OF leads_to_cons [OF assms(2), of "recent h n"], of SYNC_HISTORY_LENGTH]
  by (auto simp: trail_ok_def recent_push)

section \<open>The invariant\<close>

definition status_ok :: "SyncStatus \<Rightarrow> bool" where
  "status_ok s \<longleftrightarrow>
     length (sources s) = SYNC_SOURCE_COUNT \<and>
     (is_tracking s \<longrightarrow> sync_source_steers (source s)) \<and>
     (sync_state s = SYNC_HOLDOVER \<longrightarrow> ready (holdover s) \<and> source s = holdover_source (holdover s)) \<and>
     (sync_state s = SYNC_FREE_RUN \<longrightarrow> source s = SYNC_SOURCE_NONE) \<and>
     (ready (holdover s) \<longrightarrow> sync_source_steers (holdover_source (holdover s))) \<and>
     trail_ok (history s) (transitions s) (sync_state s) (source s)"

text \<open>Locked, the source in use is the one holdover would hold on.\<close>

definition lock_held :: "SyncStatus \<Rightarrow> bool" where
  "lock_held s \<longleftrightarrow>
     (sync_state s = SYNC_LOCKED \<longrightarrow> ready (holdover s) \<and> holdover_source (holdover s) = source s)"

lemma enter_fields [frame_simps]:
  "sync_state (enter st src why n s) = st" "source (enter st src why n s) = src"
  "sources (enter st src why n s) = sources s" "holdover (enter st src why n s) = holdover s"
  "time (enter st src why n s) = time s" "transitions (enter st src why n s) = transitions s + 1"
  "fallback (enter st src why n s) = (fallback s \<and> src = source s)"
  "challenger (enter st src why n s) = SYNC_SOURCE_NONE" "challenge_run (enter st src why n s) = 0"
  "steered (enter st src why n s) = steered s" "link_leap (enter st src why n s) = link_leap s"
  "epochs (enter st src why n s) = epochs s" "aligned (enter st src why n s) = aligned s"
  by (simp_all add: enter_def Let_def)

lemma enter_trail:
  assumes "trail_ok (history s) (transitions s) (sync_state s) (source s)"
    and "sync_edge (sync_state s) (source s) why st src"
  shows "trail_ok (history (enter st src why n s)) (transitions (enter st src why n s)) st src"
  using trail_push [of "history s" "transitions s" "\<lparr>at_epoch = n, from_state = sync_state s, to_state = st,
      to_source = src, reason = why, verdict = if source s < SYNC_SOURCE_COUNT then check (sources s ! source s)
        else SYNC_CHECK_ABSENT\<rparr>" "source s"] assms
  by (auto simp: enter_def Let_def split: if_splits)

lemma enter_ok:
  assumes "status_ok s" "sync_edge (sync_state s) (source s) why st src"
    and "st = SYNC_ACQUIRE \<or> st = SYNC_LOCKED \<Longrightarrow> sync_source_steers src"
    and "st = SYNC_HOLDOVER \<Longrightarrow> ready (holdover s) \<and> src = holdover_source (holdover s)"
    and "st = SYNC_FREE_RUN \<Longrightarrow> src = SYNC_SOURCE_NONE"
  shows "status_ok (enter st src why n s)"
  using assms enter_trail [of s why st src n]
  by (simp add: status_ok_def is_tracking_def frame_simps)

lemma not_none_steers: "sync_source_steers i \<Longrightarrow> i < SYNC_SOURCE_COUNT" "\<not> sync_source_steers SYNC_SOURCE_NONE"
  by (simp_all add: sync_source_steers_def sync_ids)

lemma best_source_steers:
  assumes "best_source e s \<noteq> SYNC_SOURCE_NONE"
  shows "sync_source_steers (best_source e s)" "best_source e s \<noteq> e"
    "sync_candidate_bound (best_source e s) s \<noteq> SYNC_BOUND_NONE"
proof -
  from assms obtain cs where c: "filter (\<lambda>c. c < SYNC_SOURCE_COUNT \<and> c \<noteq> e) (ranking s) = best_source e s # cs"
    by (auto simp: best_source_ranked split: list.splits)
  then have "best_source e s \<in> set (filter (\<lambda>c. c < SYNC_SOURCE_COUNT \<and> c \<noteq> e) (ranking s))" by simp
  then show "best_source e s \<noteq> e" "sync_candidate_bound (best_source e s) s \<noteq> SYNC_BOUND_NONE"
    "sync_source_steers (best_source e s)"
    by (auto simp: ranked_iff sync_candidate_bound_def sync_source_steers_def sync_ids split: if_splits)
qed

lemma best_fallback_steers:
  "best_fallback s \<noteq> SYNC_SOURCE_NONE \<Longrightarrow> sync_source_steers (best_fallback s) \<and> source_fallback (best_fallback s) s"
  by (auto simp: best_fallback_def sync_ids upto_3 sync_source_steers_def split: if_splits)

text \<open>Updates of fields outside the invariant.\<close>

lemma status_ok_fields [frame_simps]:
  "status_ok (s\<lparr>fallback := b\<rparr>) = status_ok s" "status_ok (s\<lparr>steered := b\<rparr>) = status_ok s"
  "status_ok (s\<lparr>resync_slew := b\<rparr>) = status_ok s" "status_ok (s\<lparr>aligned := b\<rparr>) = status_ok s"
  "status_ok (s\<lparr>aligned_to := i\<rparr>) = status_ok s" "status_ok (s\<lparr>aligned_ticks := x\<rparr>) = status_ok s"
  "status_ok (s\<lparr>challenger := i\<rparr>) = status_ok s" "status_ok (s\<lparr>challenge_run := r\<rparr>) = status_ok s"
  "status_ok (s\<lparr>time := t\<rparr>) = status_ok s" "status_ok (s\<lparr>link_leap := lp\<rparr>) = status_ok s"
  "status_ok (s\<lparr>epochs := w\<rparr>) = status_ok s" "status_ok (s\<lparr>state_epochs := w\<rparr>) = status_ok s"
  "status_ok (s\<lparr>epochs_in_holdover := w\<rparr>) = status_ok s" "status_ok (s\<lparr>epoch_phase_valid := b\<rparr>) = status_ok s"
  "status_ok (s\<lparr>epoch_phase_ticks := x\<rparr>) = status_ok s" "status_ok (s\<lparr>second := i\<rparr>) = status_ok s"
  "status_ok (s\<lparr>second_bound_ns := w\<rparr>) = status_ok s"
  by (simp_all add: status_ok_def is_tracking_def)

lemma judge_sources_frame [frame_simps]:
  "sync_state (judge_sources snap reps s) = sync_state s" "source (judge_sources snap reps s) = source s"
  "fallback (judge_sources snap reps s) = fallback s" "challenger (judge_sources snap reps s) = challenger s"
  "challenge_run (judge_sources snap reps s) = challenge_run s" "steered (judge_sources snap reps s) = steered s"
  "time (judge_sources snap reps s) = time s" "link_leap (judge_sources snap reps s) = link_leap s"
  "transitions (judge_sources snap reps s) = transitions s" "holdover (judge_sources snap reps s) = holdover s"
  "aligned (judge_sources snap reps s) = aligned s" "epochs (judge_sources snap reps s) = epochs s"
  by (simp_all add: judge_sources_def)

lemma holdover_bound_frame [frame_simps]:
  "sync_state (update_holdover_bound s) = sync_state s" "source (update_holdover_bound s) = source s"
  "fallback (update_holdover_bound s) = fallback s" "challenger (update_holdover_bound s) = challenger s"
  "challenge_run (update_holdover_bound s) = challenge_run s" "steered (update_holdover_bound s) = steered s"
  "time (update_holdover_bound s) = time s" "link_leap (update_holdover_bound s) = link_leap s"
  "transitions (update_holdover_bound s) = transitions s" "sources (update_holdover_bound s) = sources s"
  "history (update_holdover_bound s) = history s" "aligned (update_holdover_bound s) = aligned s"
  "epochs (update_holdover_bound s) = epochs s"
  "ready (holdover (update_holdover_bound s)) = ready (holdover s)"
  "holdover_source (holdover (update_holdover_bound s)) = holdover_source (holdover s)"
  by (simp_all add: update_holdover_bound_def Let_def)

lemma judge_sources_ok: "status_ok s \<Longrightarrow> status_ok (judge_sources snap reps s)"
  by (simp add: status_ok_def is_tracking_def judge_sources_def)

lemma holdover_bound_ok: "status_ok s \<Longrightarrow> status_ok (update_holdover_bound s)"
  by (simp add: status_ok_def is_tracking_def frame_simps)

lemma resync_ok: "status_ok (status y) \<Longrightarrow> status_ok (status (apply_resync n y))"
proof (cases "resync_pending y")
  case True
  assume ok: "status_ok (status y)"
  define s1 where "s1 = (status y)\<lparr>resync_slew := (sync_state (status y) = SYNC_LOCKED \<or> sync_state (status y) = SYNC_HOLDOVER),
                      sources := map (\<lambda>_. sync_source_reset) [0..<SYNC_SOURCE_COUNT],
                      holdover := (holdover (status y))\<lparr>ready := False, holdover_bound_ns := SYNC_BOUND_NONE\<rparr>\<rparr>"
  have t: "trail_ok (history s1) (transitions s1) (sync_state s1) (source s1)" "length (sources s1) = SYNC_SOURCE_COUNT"
    "\<not> ready (holdover s1)"
    using ok by (simp_all add: s1_def status_ok_def)
  have "status_ok (enter SYNC_FREE_RUN SYNC_SOURCE_NONE SYNC_REASON_RESYNC n s1)"
    using t enter_trail [OF t(1) sync_edgeI(3) [OF resync_edge.asked], of n]
    by (simp add: status_ok_def frame_simps is_tracking_def)
  then show ?thesis using True by (simp add: apply_resync_def Let_def s1_def)
qed (simp add: apply_resync_def)

lemma manual_time_ok: "status_ok (status y) \<Longrightarrow> status_ok (status (apply_manual_time n y))"
  by (simp add: apply_manual_time_def Let_def frame_simps)

lemma align_ok: "status_ok (status y) \<Longrightarrow> status_ok (status (align_to_time_of_day y))"
  by (simp add: align_to_time_of_day_def Let_def frame_simps split: option.splits)

lemma prepare_ok: "status_ok (status y) \<Longrightarrow> status_ok (status (prepare snap reps y))"
  unfolding prepare_def on_status_def clear_fallback_def
  by (intro align_ok) (simp add: frame_simps holdover_bound_ok manual_time_ok judge_sources_ok resync_ok)

lemma challenge_frame [frame_simps]:
  assumes "challenge c b s = (won, s1)"
  shows "status_ok s1 = status_ok s" "sync_state s1 = sync_state s" "source s1 = source s"
    "sources s1 = sources s" "holdover s1 = holdover s" "transitions s1 = transitions s"
    "fallback s1 = fallback s" "time s1 = time s"
  using assms by (auto simp: challenge_def Let_def frame_simps split: if_splits)

lemma sync_acquire_fields:
  "\<exists>slew. control (sync_acquire i why n f y) = epoch_control_restart (source_profile (source_table ! i)) slew (control y)"
  "status (sync_acquire i why n f y) = (enter SYNC_ACQUIRE i why n (status y))\<lparr>fallback := f, steered := True, resync_slew := False\<rparr>"
  by (auto simp: sync_acquire_def Let_def)

lemma sync_acquire_ok:
  assumes "status_ok (status y)" "sync_source_steers i"
    and "sync_edge (sync_state (status y)) (source (status y)) why SYNC_ACQUIRE i"
  shows "status_ok (status (sync_acquire i why n f y))"
  unfolding sync_acquire_fields using assms by (simp add: frame_simps) (rule enter_ok, simp_all)

lemma holdover_candidate: "sync_candidate_bound SYNC_CANDIDATE_HOLDOVER s \<noteq> SYNC_BOUND_NONE \<Longrightarrow> ready (holdover s)"
  by (simp add: sync_candidate_bound_def split: if_splits)

lemma challenge_won:
  "challenge c b s = (True, s1) \<Longrightarrow> c \<noteq> SYNC_SOURCE_NONE"
  by (auto simp: challenge_def Let_def split: if_splits)

lemma ratio_exact:
  "(ucast (b :: u32) :: u64) * SYNC_SWITCH_RATIO \<ge> ucast (i :: u32) \<longleftrightarrow> uint i \<le> uint b * 2"
proof -
  have "uint ((ucast b :: u64) * SYNC_SWITCH_RATIO) = uint b * 2"
    using uint_lt2p [of b] by (subst uint_mult_small) (simp_all add: width_simps SYNC_SWITCH_RATIO_def)
  then show ?thesis by (simp add: word_le_def width_simps)
qed

text \<open>In holdover its own source can only win a challenge when it is fit to return at once.\<close>

lemma challenge_selected:
  assumes "sync_state s = SYNC_HOLDOVER" "challenge i (holdover_bound_ns (holdover s)) s = (True, s1)"
    "sync_source_steers i"
  shows "bound_ns (sources s ! i) \<le> holdover_bound_ns (holdover s) \<and> source_usable i s"
proof -
  have c: "sync_candidate_bound i s \<noteq> SYNC_BOUND_NONE"
    "\<not> (ucast (sync_candidate_bound i s) :: u64) * SYNC_SWITCH_RATIO \<ge> ucast (holdover_bound_ns (holdover s))"
    using assms(2) by (auto simp: challenge_def Let_def split: if_splits)
  have "source_good i s \<and> sync_candidate_bound i s = bound_ns (sources s ! i)"
    using c(1) assms(1,3) not_none_steers(1) [OF assms(3)]
    by (auto simp: sync_candidate_bound_def is_tracking_def sync_ids split: if_splits)
  moreover from this have "\<not> uint (holdover_bound_ns (holdover s)) \<le> uint (bound_ns (sources s ! i)) * 2"
    using c(2) [unfolded ratio_exact] by simp
  then have "uint (bound_ns (sources s ! i)) \<le> uint (holdover_bound_ns (holdover s))"
    using uint_ge_0 [of "bound_ns (sources s ! i)"] by linarith
  ultimately show ?thesis by (simp add: source_usable_def word_le_def)
qed

text \<open>What the transitions do with a source in use: while tracking, and in holdover.\<close>

lemma follow_tracking:
  assumes "is_tracking (status y)" "s = status y" "best = best_source (source s) s"
    "challenge best (current_bound s) s = (won, s1)"
  shows "follow_sources n y =
     (if source_usable (source s) s then
        if won then sync_acquire best SYNC_REASON_BETTER_SOURCE n False (y\<lparr>status := s1\<rparr>) else y\<lparr>status := s1\<rparr>
      else if sync_candidate_bound SYNC_CANDIDATE_HOLDOVER s \<noteq> SYNC_BOUND_NONE
      then y\<lparr>status := enter SYNC_HOLDOVER (holdover_source (holdover s)) SYNC_REASON_SOURCE_LOST n s\<rparr>
      else if best \<noteq> SYNC_SOURCE_NONE then sync_acquire best SYNC_REASON_ALTERNATIVE n False y
      else y\<lparr>status := enter SYNC_FREE_RUN SYNC_SOURCE_NONE SYNC_REASON_SOURCE_LOST n s\<rparr>)"
  using assms(1) unfolding is_tracking_def assms(2) [symmetric]
  by (elim disjE) (simp_all add: follow_sources_def Let_def assms(2) [symmetric] assms(3) [symmetric] assms(4))

lemma follow_holding:
  assumes "sync_state (status y) = SYNC_HOLDOVER" "s = status y" "best = best_source SYNC_SOURCE_NONE s"
    "challenge best (holdover_bound_ns (holdover s)) s = (won, s1)"
  shows "follow_sources n y =
     (if source_usable (source s) s \<and> captured (report (sources s ! source s))
         \<and> bound_ns (sources s ! source s) \<le> holdover_bound_ns (holdover s)
      then y\<lparr>status := enter SYNC_LOCKED (source s) SYNC_REASON_SOURCE_BACK n s\<rparr>
      else if best = source s \<and> \<not> captured (report (sources s ! source s))
      then sync_acquire (source s) SYNC_REASON_SOURCE_BACK n False y
      else if won then sync_acquire best SYNC_REASON_ALTERNATIVE n False (y\<lparr>status := s1\<rparr>)
      else if holdover_bound_ns (holdover s1) > SYNC_SYNCHRONISED_LIMIT_NS
      then y\<lparr>status := enter SYNC_FREE_RUN SYNC_SOURCE_NONE SYNC_REASON_EXPIRED n s1\<rparr>
      else y\<lparr>status := s1\<rparr>)"
  using assms(1) unfolding assms(2) [symmetric]
  by (simp add: follow_sources_def Let_def assms(2) [symmetric] assms(3) [symmetric] assms(4))

lemma held_edge:
  assumes "status_ok s" "lock_held s" "sync_state s = SYNC_ACQUIRE \<or> sync_state s = SYNC_LOCKED"
    "ready (holdover s)"
  shows "diagram_edge (sync_state s) (source s) SYNC_REASON_SOURCE_LOST SYNC_HOLDOVER (holdover_source (holdover s))"
proof -
  have "sync_source_steers (holdover_source (holdover s))" using assms(1,4) by (simp add: status_ok_def)
  then show ?thesis
    using assms(2,3) by (elim disjE) (simp_all add: lock_held_def diagram_edge.held_again diagram_edge.held)
qed

lemma free_edge:
  assumes "sync_state s = SYNC_ACQUIRE \<or> sync_state s = SYNC_LOCKED"
  shows "diagram_edge (sync_state s) (source s) SYNC_REASON_SOURCE_LOST SYNC_FREE_RUN SYNC_SOURCE_NONE
    \<or> unheld_edge (sync_state s) (source s) SYNC_REASON_SOURCE_LOST SYNC_FREE_RUN SYNC_SOURCE_NONE"
  using assms by (elim disjE) (simp_all add: diagram_edge.given_up unheld_edge.dropped)

lemma follow_sources_tracking_ok:
  assumes ok: "status_ok (status y)" and lock: "lock_held (status y)" and tr: "is_tracking (status y)"
  shows "status_ok (status (follow_sources n y))"
proof -
  define s where "s = status y"
  define best where "best = best_source (source s) s"
  obtain won s1 where ch: "challenge best (current_bound s) s = (won, s1)" by fastforce
  have st: "sync_state s = SYNC_ACQUIRE \<or> sync_state s = SYNC_LOCKED" using tr by (simp add: is_tracking_def s_def)
  have s: "status_ok s" and lock: "lock_held s" using ok lock by (simp_all add: s_def)
  have s1: "status_ok s1" "sync_state s1 = sync_state s" "source s1 = source s" using ch s by (simp_all add: frame_simps)
  have b: "best \<noteq> SYNC_SOURCE_NONE \<Longrightarrow> sync_source_steers best \<and> best \<noteq> source s"
    using best_source_steers [of "source s" s] by (simp add: best_def)
  have w: "won \<Longrightarrow> best \<noteq> SYNC_SOURCE_NONE" using challenge_won ch by auto
  have "diagram_edge (sync_state s) (source s) SYNC_REASON_BETTER_SOURCE SYNC_ACQUIRE best"
    "unheld_edge (sync_state s) (source s) SYNC_REASON_ALTERNATIVE SYNC_ACQUIRE best"
    if "best \<noteq> SYNC_SOURCE_NONE"
    using st b [OF that] by (simp_all add: diagram_edge.better unheld_edge.replaced)
  then have e: "best \<noteq> SYNC_SOURCE_NONE \<Longrightarrow> why = SYNC_REASON_BETTER_SOURCE \<or> why = SYNC_REASON_ALTERNATIVE \<Longrightarrow>
      sync_edge (sync_state s) (source s) why SYNC_ACQUIRE best" for why
    by (auto simp: sync_edge_def)
  have 1: "won \<Longrightarrow> status_ok (status (sync_acquire best SYNC_REASON_BETTER_SOURCE n False (y\<lparr>status := s1\<rparr>)))"
    using s1 b w by (intro sync_acquire_ok) (simp_all add: e)
  have 2: "best \<noteq> SYNC_SOURCE_NONE \<Longrightarrow> status_ok (status (sync_acquire best SYNC_REASON_ALTERNATIVE n False y))"
    using s b by (intro sync_acquire_ok) (simp_all add: e flip: s_def)
  have 3: "ready (holdover s) \<Longrightarrow>
      status_ok (enter SYNC_HOLDOVER (holdover_source (holdover s)) SYNC_REASON_SOURCE_LOST n s)"
    using s held_edge [OF s lock st] by (intro enter_ok) auto
  have 4: "status_ok (enter SYNC_FREE_RUN SYNC_SOURCE_NONE SYNC_REASON_SOURCE_LOST n s)"
    using s free_edge [OF st] by (intro enter_ok) auto
  show ?thesis
    using 1 2 3 4 s1(1) holdover_candidate [of s] by (simp add: follow_tracking [OF tr s_def best_def ch])
qed

lemma follow_sources_holdover_ok:
  assumes ok: "status_ok (status y)" and st: "sync_state (status y) = SYNC_HOLDOVER"
  shows "status_ok (status (follow_sources n y))"
proof -
  define s where "s = status y"
  define best where "best = best_source SYNC_SOURCE_NONE s"
  obtain won s1 where ch: "challenge best (holdover_bound_ns (holdover s)) s = (won, s1)" by fastforce
  have s: "status_ok s" "sync_state s = SYNC_HOLDOVER" using ok st by (simp_all add: s_def)
  then have sel: "sync_source_steers (source s)" by (auto simp: status_ok_def)
  have s1: "status_ok s1" "sync_state s1 = SYNC_HOLDOVER" "source s1 = source s"
    using ch s by (simp_all add: frame_simps)
  have b: "best \<noteq> SYNC_SOURCE_NONE \<Longrightarrow> sync_source_steers best"
    using best_source_steers [of SYNC_SOURCE_NONE s] by (simp add: best_def)
  have 1: "status_ok (enter SYNC_LOCKED (source s) SYNC_REASON_SOURCE_BACK n s)"
    using s sel by (intro enter_ok) (auto intro: diagram_edge.returned)
  have 2: "status_ok (status (sync_acquire (source s) SYNC_REASON_SOURCE_BACK n False y))"
    using s sel by (intro sync_acquire_ok) (auto simp: s_def intro: diagram_edge.rerouted)
  have 3: "status_ok (status (sync_acquire best SYNC_REASON_ALTERNATIVE n False (y\<lparr>status := s1\<rparr>)))"
    if "won" "best \<noteq> source s"
    using s1 b challenge_won [of best _ s s1] ch that by (intro sync_acquire_ok) (auto intro: diagram_edge.outranked)
  have 4: "status_ok (enter SYNC_FREE_RUN SYNC_SOURCE_NONE SYNC_REASON_EXPIRED n s1)"
    using s1 by (intro enter_ok) (auto intro: diagram_edge.expired)
  have "won \<Longrightarrow> best = source s \<Longrightarrow> bound_ns (sources s ! source s) \<le> holdover_bound_ns (holdover s)
      \<and> source_usable (source s) s"
    using challenge_selected [OF s(2) _ sel, of s1] ch by auto
  then show ?thesis using 1 2 3 4 s1(1) by (auto simp: follow_holding [OF st s_def best_def ch])
qed

lemma follow_sources_ok:
  assumes ok: "status_ok (status y)" and lock: "lock_held (status y)"
  shows "status_ok (status (follow_sources n y))"
proof (cases "sync_state (status y)")
  case SYNC_FREE_RUN
  then have src: "source (status y) = SYNC_SOURCE_NONE" using ok by (simp add: status_ok_def)
  have "status_ok (status (sync_acquire i SYNC_REASON_QUALIFIED n f y))" if "sync_source_steers i" for i f
    using ok that SYNC_FREE_RUN src by (intro sync_acquire_ok) (auto intro: diagram_edge.taken_up)
  then show ?thesis
    using ok SYNC_FREE_RUN best_source_steers(1) [of SYNC_SOURCE_NONE "status y"] best_fallback_steers [of "status y"]
    by (simp add: follow_sources_def Let_def)
next
  case SYNC_HOLDOVER
  then show ?thesis by (rule follow_sources_holdover_ok [OF ok])
qed (rule follow_sources_tracking_ok [OF ok lock], simp add: is_tracking_def)+

lemma lock_held_fields [frame_simps]:
  "lock_held (s\<lparr>challenger := i\<rparr>) = lock_held s" "lock_held (s\<lparr>challenge_run := r\<rparr>) = lock_held s"
  "lock_held (s\<lparr>fallback := b\<rparr>) = lock_held s" "lock_held (s\<lparr>time := t\<rparr>) = lock_held s"
  "lock_held (s\<lparr>aligned := b\<rparr>) = lock_held s" "lock_held (s\<lparr>aligned_to := i\<rparr>) = lock_held s"
  "lock_held (s\<lparr>aligned_ticks := x\<rparr>) = lock_held s" "lock_held (s\<lparr>steered := b\<rparr>) = lock_held s"
  "lock_held (s\<lparr>resync_slew := b\<rparr>) = lock_held s" "lock_held (s\<lparr>link_leap := lp\<rparr>) = lock_held s"
  "lock_held (judge_sources snap reps s) = lock_held s" "lock_held (update_holdover_bound s) = lock_held s"
  by (simp_all add: lock_held_def frame_simps)

lemma prepare_lock: "lock_held (status y) \<Longrightarrow> lock_held (status (prepare snap reps y))"
proof -
  have 1: "lock_held (status y) \<Longrightarrow> lock_held (status (apply_resync n y))" for n y
    by (simp add: apply_resync_def Let_def lock_held_def frame_simps)
  have 2: "lock_held (status (apply_manual_time n y)) = lock_held (status y)" for n y
    by (simp add: apply_manual_time_def Let_def frame_simps)
  have 3: "lock_held (status (align_to_time_of_day y)) = lock_held (status y)" for y
    by (simp add: align_to_time_of_day_def Let_def frame_simps split: option.splits)
  assume "lock_held (status y)"
  then show ?thesis
    unfolding prepare_def on_status_def clear_fallback_def by (simp add: 1 2 3 frame_simps)
qed

lemma sync_acquire_lock: "lock_held (status (sync_acquire i why n f y))"
  by (simp add: sync_acquire_fields lock_held_def frame_simps)

lemma follow_sources_lock:
  assumes ok: "status_ok (status y)" and lock: "lock_held (status y)"
  shows "lock_held (status (follow_sources n y))"
proof -
  define s where "s = status y"
  have c: "lock_held (snd (challenge c b s)) = lock_held s" for c b
    by (simp add: challenge_def Let_def frame_simps)
  have e: "lock_held (enter st src why n r)" if "st \<noteq> SYNC_LOCKED" for st src why r
    using that by (simp add: lock_held_def frame_simps)
  have b: "sync_state s = SYNC_HOLDOVER \<Longrightarrow> lock_held (enter SYNC_LOCKED (source s) why n s)" for why
    using ok by (simp add: lock_held_def frame_simps status_ok_def s_def)
  have "lock_held s" using lock by (simp add: s_def)
  then show ?thesis
    unfolding follow_sources_def Let_def s_def [symmetric]
    by (auto simp: case_prod_beta c b e sync_acquire_lock simp flip: s_def split: SyncState.splits)
qed

lemma follow_holdover_lock:
  assumes "lock_held s"
  shows "lock_held (follow_holdover u (follow_loop snap u l s))"
  using assms by (auto simp: lock_held_def follow_holdover_def follow_loop_def Let_def frame_simps)

lemma follow_loop_ok:
  assumes ok: "status_ok s"
  shows "status_ok (follow_loop snap u l s)"
proof -
  have st: "sync_state s = SYNC_ACQUIRE \<or> sync_state s = SYNC_LOCKED \<Longrightarrow> sync_source_steers (source s)"
    using ok by (simp add: status_ok_def is_tracking_def)
  have "sync_state s = SYNC_ACQUIRE \<Longrightarrow> status_ok (enter SYNC_LOCKED (source s) SYNC_REASON_TRACKING n s)" for n
    using st by (intro enter_ok [OF ok]) (auto intro: diagram_edge.tracking)
  moreover have "sync_state s = SYNC_LOCKED \<Longrightarrow> status_ok (enter SYNC_ACQUIRE (source s) SYNC_REASON_PHASE_LOST n s)" for n
    using st by (intro enter_ok [OF ok]) (auto intro: diagram_edge.phase_lost)
  ultimately show ?thesis using ok by (simp add: follow_loop_def Let_def)
qed

lemma follow_holdover_ok: "status_ok s \<Longrightarrow> status_ok (follow_holdover u s)"
  by (auto simp: follow_holdover_def Let_def status_ok_def is_tracking_def)

lemma keep_time_ok: "status_ok (keep_time snap use lck s) = status_ok s"
  by (simp add: keep_time_def seed_time_def Let_def frame_simps split: prod.splits)

lemma keep_time_lock: "lock_held (keep_time snap use lck s) = lock_held s"
  by (simp add: keep_time_def seed_time_def Let_def frame_simps split: prod.splits)

lemma rank_second_ok: "status_ok (rank_second s) = status_ok s"
  by (simp add: rank_second_def Let_def frame_simps split: prod.splits)

section \<open>The loop the synchroniser drives\<close>

text \<open>
  Every change to the control loop is one of the loop's own steps, and none before the update
  moves the baseline a frequency seed is measured from.
\<close>

definition loop_kept :: "EpochControl \<Rightarrow> EpochControl \<Rightarrow> bool" where
  "loop_kept l l' \<longleftrightarrow> (loop_reachable l \<longrightarrow> loop_reachable l') \<and> (\<forall>c. seed_fits c l \<longrightarrow> seed_fits c l')"

lemma loop_kept_refl [simp]: "loop_kept l l"
  by (simp add: loop_kept_def)

lemma loop_kept_trans: "loop_kept l l1 \<Longrightarrow> loop_kept l1 l2 \<Longrightarrow> loop_kept l l2"
  by (simp add: loop_kept_def)

lemma loop_kept_step: "loop_step l l' \<Longrightarrow> (\<And>c. seed_fits c l \<Longrightarrow> seed_fits c l') \<Longrightarrow> loop_kept l l'"
  by (auto simp: loop_kept_def intro: loop_reachable.step)

lemma free_run_step_kept: "loop_kept l (epoch_control_free_run_step x l)"
  by (rule loop_kept_step [OF loop_step.free_run]) (simp add: epoch_control_free_run_step_def seed_fits_def Let_def)

lemma source_stepped_kept: "loop_kept l (epoch_control_source_stepped l)"
  by (rule loop_kept_step [OF loop_step.stepped]) (simp add: epoch_control_source_stepped_def seed_fits_def)

lemma table_profiles_ok: "i < SYNC_SOURCE_COUNT \<Longrightarrow> source_profile (source_table ! i) = Some p \<Longrightarrow> profile_ok p"
  by (auto simp: sync_ids source_table_def nth_Cons' profile_ok_def ticks_ok_def ntp_profile_def
      epoch_profile_precise_def split: if_splits)

lemma restart_kept:
  assumes "sync_source_steers i"
  shows "loop_kept l (epoch_control_restart (source_profile (source_table ! i)) slew l)"
proof (rule loop_kept_step [OF loop_step.restart])
  show "profile_ok q" if "source_profile (source_table ! i) = Some q" for q
    using table_profiles_ok [OF _ that] not_none_steers(1) [OF assms] by simp
qed (auto simp: epoch_control_restart_def Let_def enter_acquire_def seed_fits_def split: option.splits)

lemma sync_acquire_kept:
  assumes "sync_source_steers i"
  shows "loop_kept (control y) (control (sync_acquire i why n f y))"
proof -
  obtain slew where "control (sync_acquire i why n f y)
      = epoch_control_restart (source_profile (source_table ! i)) slew (control y)"
    using sync_acquire_fields(1) by blast
  then show ?thesis using restart_kept [OF assms] by simp
qed

lemma prepare_kept: "loop_kept (control y) (control (prepare snap reps y))"
proof -
  have 1: "control (apply_resync n y) = control y" for n y by (simp add: apply_resync_def Let_def)
  have 2: "loop_kept (control y) (control (apply_manual_time n y))" for n y
    by (simp add: apply_manual_time_def Let_def free_run_step_kept)
  have 3: "loop_kept (control y) (control (align_to_time_of_day y))" for y
    by (simp add: align_to_time_of_day_def Let_def free_run_step_kept split: option.splits)
  show ?thesis
    unfolding prepare_def on_status_def
    by (rule loop_kept_trans [OF _ 3]) (use 2 in \<open>simp add: 1 loop_kept_def\<close>)
qed

lemma follow_sources_kept:
  assumes ok: "status_ok (status y)"
  shows "loop_kept (control y) (control (follow_sources n y))"
proof -
  define s where "s = status y"
  have b: "best_source e s \<noteq> SYNC_SOURCE_NONE \<Longrightarrow> sync_source_steers (best_source e s)" for e
    by (rule best_source_steers)
  have f: "best_fallback s \<noteq> SYNC_SOURCE_NONE \<Longrightarrow> sync_source_steers (best_fallback s)"
    using best_fallback_steers by blast
  have h: "sync_state s = SYNC_HOLDOVER \<Longrightarrow> sync_source_steers (source s)"
    using ok by (auto simp: status_ok_def s_def)
  have w: "fst (challenge (best_source e s) x s) \<Longrightarrow> sync_source_steers (best_source e s)" for e x
    using challenge_won [of "best_source e s" x s "snd (challenge (best_source e s) x s)"] b [of e]
    by (metis prod.collapse)
  have k: "sync_source_steers i \<Longrightarrow> loop_kept (control y) (control (sync_acquire i why n g (y\<lparr>status := s1\<rparr>)))" for i why g s1
    using sync_acquire_kept [of i "y\<lparr>status := s1\<rparr>"] by simp
  note simps = follow_sources_def Let_def s_def [symmetric] case_prod_beta sync_acquire_kept k b f w h
  show ?thesis
  proof (cases "sync_state s")
    case SYNC_HOLDOVER
    then show ?thesis by (simp add: simps)
  qed (simp_all add: simps)
qed

section \<open>Everything that can happen\<close>

lemma sync_update_parts:
  assumes "sync_update snap reps y = (u, y')"
  obtains y1 use off l1 l2 s3 where
    "y1 = follow_sources (sample_sequence (snap_timer snap)) (prepare snap reps y)"
    "use \<longleftrightarrow> is_tracking (status y1) \<and> source_usable (source (status y1)) (status y1)
        \<and> captured (report (sources (status y1) ! source (status y1)))"
    "loop_kept (control y1) l1" "epoch_control_update snap use off l1 = (loop_update u, l2)"
    "s3 = keep_time snap use (sync_state (status y) = SYNC_LOCKED \<or> sync_state (status y) = SYNC_HOLDOVER)
        (update_holdover_bound (follow_holdover (loop_update u) (follow_loop snap (loop_update u) l2 (status y1))))"
    "usable u = use" "control y' = l2" "resync_pending y' = resync_pending y1" "manual_time y' = manual_time y1"
    "sync_state (status y') = sync_state s3" "source (status y') = source s3" "sources (status y') = sources s3"
    "holdover (status y') = holdover s3" "time (status y') = time s3" "fallback (status y') = fallback s3"
    "challenger (status y') = challenger s3" "challenge_run (status y') = challenge_run s3"
    "transitions (status y') = transitions s3" "history (status y') = history s3"
    "epochs (status y') = epochs s3 + 1"
proof -
  define y1 where "y1 = follow_sources (sample_sequence (snap_timer snap)) (prepare snap reps y)"
  define s1 where "s1 = status y1"
  define r where "r = report (sources s1 ! source s1)"
  define use where "use \<longleftrightarrow> is_tracking s1 \<and> source_usable (source s1) s1 \<and> captured r"
  define off where "off = (if use then ns_to_ticks (edge_offset_ns r) else 0)"
  define l1 where "l1 = (if is_tracking s1 \<and> source s1 < SYNC_SOURCE_COUNT \<and> source_stepped r
                then epoch_control_source_stepped (control y1) else control y1)"
  obtain eu l2 where e: "epoch_control_update snap use off l1 = (eu, l2)" by fastforce
  define s3 where "s3 = keep_time snap use (sync_state (status y) = SYNC_LOCKED \<or> sync_state (status y) = SYNC_HOLDOVER)
        (update_holdover_bound (follow_holdover eu (follow_loop snap eu l2 s1)))"
  define s5 where "s5 = count_epoch eu (rank_second s3)"
  have L: "run_loop snap y1 = ((use, eu), y1\<lparr>control := l2\<rparr>)"
    unfolding run_loop_def Let_def s1_def [symmetric] r_def [symmetric] use_def [symmetric]
      off_def [symmetric] l1_def [symmetric] e prod.case by (rule refl)
  have R: "sync_update snap reps y = (\<lparr>loop_update = eu, usable = use, transitioned = (transitions s5 \<noteq> transitions (status y))\<rparr>,
      y1\<lparr>control := l2, status := s5\<rparr>)"
    unfolding sync_update_def y1_def [symmetric] L conclude.simps Let_def after_loop_def
    by (simp add: s5_def s3_def s1_def)
  have k: "loop_kept (control y1) l1" by (simp add: l1_def source_stepped_kept)
  have f: "sync_state s5 = sync_state s3" "source s5 = source s3" "sources s5 = sources s3" "holdover s5 = holdover s3"
    "time s5 = time s3" "fallback s5 = fallback s3" "challenger s5 = challenger s3" "challenge_run s5 = challenge_run s3"
    "transitions s5 = transitions s3" "history s5 = history s3" "epochs s5 = epochs s3 + 1"
    by (simp_all add: s5_def count_epoch_def rank_second_def Let_def split: prod.splits)
  show thesis
    by (rule that [of y1 use l1 off l2 s3]) (use assms k e f in \<open>auto simp: R y1_def s3_def use_def s1_def r_def\<close>)
qed

definition sync_ok :: "Sync \<Rightarrow> bool" where
  "sync_ok y \<longleftrightarrow> status_ok (status y) \<and> lock_held (status y) \<and> loop_reachable (control y)"

text \<open>
  The calls of the main loop and of the menus and the link, and what else moves the loop: the
  timer's interrupts and a frequency estimate restored from the settings.
\<close>

inductive sync_step :: "Sync \<Rightarrow> Sync \<Rightarrow> bool" where
  update: "seed_fits (snap_capture snap) (control y) \<Longrightarrow> sync_step y (snd (sync_update snap reports y))"
| set_time: "sync_step y (snd (sync_set_time utc n ms y))"
| resync: "sync_step y (sync_resync y)"
| set_leap: "sync_step y (sync_set_leap l y)"
| loop: "loop_step (control y) l \<Longrightarrow> sync_step y (y\<lparr>control := l\<rparr>)"

inductive sync_reachable :: "Sync \<Rightarrow> bool" where
  init: "sync_reachable (sync_init y)"
| step: "sync_reachable y \<Longrightarrow> sync_step y y' \<Longrightarrow> sync_reachable y'"

lemma blank_status_ok: "status_ok blank_status" "lock_held blank_status"
  by (simp_all add: status_ok_def blank_status_def is_tracking_def trail_ok_def recent_def lock_held_def)

lemma sync_update_status:
  assumes ok: "status_ok (status y)" "lock_held (status y)" and u: "sync_update snap reps y = (u, y')"
  shows "status_ok (status y') \<and> lock_held (status y')"
proof (rule sync_update_parts [OF u])
  fix y1 use off l1 l2 s3
  assume y1: "y1 = follow_sources (sample_sequence (snap_timer snap)) (prepare snap reps y)"
    and s3: "s3 = keep_time snap use (sync_state (status y) = SYNC_LOCKED \<or> sync_state (status y) = SYNC_HOLDOVER)
        (update_holdover_bound (follow_holdover (loop_update u) (follow_loop snap (loop_update u) l2 (status y1))))"
    and f: "sync_state (status y') = sync_state s3" "source (status y') = source s3"
      "sources (status y') = sources s3" "holdover (status y') = holdover s3"
      "transitions (status y') = transitions s3" "history (status y') = history s3"
  note p = prepare_ok [OF ok(1), of snap reps] prepare_lock [OF ok(2), of snap reps]
  have "status_ok s3"
    unfolding s3 keep_time_ok y1
    by (intro holdover_bound_ok follow_holdover_ok follow_loop_ok follow_sources_ok p)
  moreover have "lock_held s3"
    unfolding s3 y1 by (simp add: keep_time_lock frame_simps follow_holdover_lock follow_sources_lock [OF p])
  ultimately show ?thesis by (simp add: status_ok_def is_tracking_def lock_held_def f)
qed

lemma sync_update_result:
  assumes ok: "sync_ok y" and fits: "seed_fits (snap_capture snap) (control y)"
    and u: "sync_update snap reps y = (u, y')"
  shows "sync_ok y' \<and> requests (control y')"
proof (rule sync_update_parts [OF u])
  fix y1 use off l1 l2 s3
  assume y1: "y1 = follow_sources (sample_sequence (snap_timer snap)) (prepare snap reps y)"
    and k: "loop_kept (control y1) l1" and e: "epoch_control_update snap use off l1 = (loop_update u, l2)"
    and f: "control y' = l2"
  have st: "status_ok (status y') \<and> lock_held (status y')"
    using ok by (intro sync_update_status [OF _ _ u]) (simp_all add: sync_ok_def)
  have p: "status_ok (status (prepare snap reps y))" using ok by (simp add: sync_ok_def prepare_ok)
  have "loop_kept (control y) l1"
    using loop_kept_trans [OF loop_kept_trans [OF prepare_kept follow_sources_kept [OF p]]] k y1 by blast
  then have l1: "loop_reachable l1" "seed_fits (snap_capture snap) l1"
    using ok fits by (simp_all add: loop_kept_def sync_ok_def)
  have "loop_reachable (snd (epoch_control_update snap use off l1))"
    using l1 by (intro loop_reachable.step [OF _ loop_step.update])
  then show ?thesis
    using st update_result [OF loop_reachable_ok [OF l1(1)] l1(2) e] by (simp add: sync_ok_def f e)
qed

lemma sync_step_ok: "sync_step y y' \<Longrightarrow> sync_ok y \<Longrightarrow> sync_ok y'"
proof (induction rule: sync_step.induct)
  case (update snap y reports)
  then show ?case using sync_update_result [of y snap reports] by (metis prod.collapse)
next
  case (loop y l)
  then show ?case by (auto simp: sync_ok_def intro: loop_reachable.step)
qed (simp_all add: sync_ok_def sync_set_time_def sync_resync_def sync_set_leap_def frame_simps)

lemma sync_reachable_ok: "sync_reachable y \<Longrightarrow> sync_ok y"
proof (induction rule: sync_reachable.induct)
  case (init y)
  then show ?case by (simp add: sync_ok_def sync_init_def blank_status_ok loop_reachable.init)
qed (rule sync_step_ok)

text \<open>
  The same calls with nothing asked of the loop, whose state may be any between them: what the
  state machine does by itself.
\<close>

inductive machine_reachable :: "Sync \<Rightarrow> bool" where
  start: "machine_reachable (sync_init y)"
| updated: "machine_reachable y \<Longrightarrow> machine_reachable (snd (sync_update snap reports y))"
| time_given: "machine_reachable y \<Longrightarrow> machine_reachable (snd (sync_set_time utc n ms y))"
| resync_given: "machine_reachable y \<Longrightarrow> machine_reachable (sync_resync y)"
| leap_given: "machine_reachable y \<Longrightarrow> machine_reachable (sync_set_leap l y)"
| loop_moved: "machine_reachable y \<Longrightarrow> machine_reachable (y\<lparr>control := c\<rparr>)"

lemma machine_reachable_ok: "machine_reachable y \<Longrightarrow> status_ok (status y) \<and> lock_held (status y)"
proof (induction rule: machine_reachable.induct)
  case (updated y snap reports)
  then show ?case using sync_update_status [of y snap reports] by (metis prod.collapse)
qed (simp_all add: sync_init_def blank_status_ok sync_set_time_def sync_resync_def sync_set_leap_def frame_simps)

lemma unusable_kind:
  assumes "loop_reachable l" "epoch_control_update snap False off l = (u, l')"
  shows "kind u \<noteq> EPOCH_UPDATE_MEASURED"
proof -
  define l1 where "l1 = (update_kalman (snap_capture snap) False l)\<lparr>discard_period := True\<rparr>"
  have "loop_ok l1" unfolding l1_def
    by (simp add: loop_ok_fields update_kalman_ok loop_reachable_ok [OF assms(1)])
  from hold_result [OF this, of snap]
  show ?thesis
    using assms(2) by (auto simp: update_unusable Let_def l1_def frame_simps split: if_splits simp del: edge_simps)
qed

end
