(* ===== verification/Sync_Run.thy ===== *)
theory Sync_Run
  imports Sync
begin

text \<open>
  The synchroniser over runs of epochs: what a challenge counts, what an epoch may steer by, and
  a time set by hand. The properties of \<open>sync.c\<close> are stated here.
\<close>

section \<open>A challenge\<close>

text \<open>Whether \<open>t\<close> is a candidate with less than half the bound of what is in use.\<close>

definition beats :: "nat \<Rightarrow> SyncStatus \<Rightarrow> bool" where
  "beats t s \<longleftrightarrow> t \<noteq> SYNC_SOURCE_NONE \<and> sync_candidate_bound t s \<noteq> SYNC_BOUND_NONE
     \<and> uint (sync_candidate_bound t s) * 2 < uint (current_bound s)"

definition in_use :: "SyncStatus \<Rightarrow> bool" where
  "in_use s \<longleftrightarrow> (is_tracking s \<and> source_usable (source s) s) \<or> sync_state s = SYNC_HOLDOVER"

lemma challenge_counts:
  assumes "challenge c (current_bound s) s = (won, s1)"
  shows "if beats c s
    then challenger s1 = c \<and> unat (challenge_run s1) \<le> (if c = challenger s then unat (challenge_run s) + 1 else 1)
         \<and> (won \<longrightarrow> unat (challenge_run s1) \<ge> 10)
    else \<not> won \<and> challenge_run s1 = 0"
proof (cases "beats c s")
  case True
  then have n: "\<not> (c = SYNC_SOURCE_NONE \<or> sync_candidate_bound c s = SYNC_BOUND_NONE
      \<or> (ucast (sync_candidate_bound c s) :: u64) * SYNC_SWITCH_RATIO \<ge> ucast (current_bound s))"
    by (simp add: beats_def ratio_exact)
  define s0 where "s0 = (if c \<noteq> challenger s then s\<lparr>challenger := c, challenge_run := 0\<rparr> else s)"
  define s2 where "s2 = (if challenge_run s0 < 0xFFFF then s0\<lparr>challenge_run := challenge_run s0 + 1\<rparr> else s0)"
  have r: "won \<longleftrightarrow> challenge_run s2 \<ge> SYNC_SWITCH_EPOCHS" "s1 = s2"
    using assms n unfolding challenge_def Let_def if_not_P [OF n] s0_def [symmetric] s2_def [symmetric] by auto
  have "unat (challenge_run s2) \<le> unat (challenge_run s0) + 1"
    by (simp add: s2_def unat_plus_if' word_less_nat_alt)
  moreover have "challenger s2 = c" by (simp add: s2_def s0_def)
  moreover have "unat (challenge_run s0) = (if c = challenger s then unat (challenge_run s) else 0)"
    by (simp add: s0_def)
  moreover have "won \<Longrightarrow> 10 \<le> unat (challenge_run s2)"
    using r by (simp add: word_le_nat_alt SYNC_SWITCH_EPOCHS_def)
  ultimately show ?thesis using True by (auto simp: r(2))
next
  case False
  then have n: "c = SYNC_SOURCE_NONE \<or> sync_candidate_bound c s = SYNC_BOUND_NONE
      \<or> (ucast (sync_candidate_bound c s) :: u64) * SYNC_SWITCH_RATIO \<ge> ucast (current_bound s)"
    by (auto simp: beats_def ratio_exact)
  show ?thesis
    using assms False unfolding challenge_def Let_def if_P [OF n] by auto
qed

text \<open>A run of a challenge, as the state counts it: in free run there is none.\<close>

definition run_ok :: "SyncStatus list \<Rightarrow> SyncStatus \<Rightarrow> bool" where
  "run_ok ps s \<longleftrightarrow> unat (challenge_run s) \<le> length ps
     \<and> (\<forall>p\<in>set (take (unat (challenge_run s)) (rev ps)). beats (challenger s) p)
     \<and> (sync_state s = SYNC_FREE_RUN \<longrightarrow> challenge_run s = 0)"

lemma run_ok_zero: "challenge_run s = 0 \<Longrightarrow> run_ok ps s"
  by (simp add: run_ok_def)

lemma run_ok_challenge:
  assumes "run_ok ps s" "challenge c (current_bound s) s = (won, s1)" "sync_state s \<noteq> SYNC_FREE_RUN"
  shows "run_ok (ps @ [s]) s1"
proof (cases "beats c s")
  case True
  then have r: "challenger s1 = c"
    "unat (challenge_run s1) \<le> (if c = challenger s then unat (challenge_run s) + 1 else 1)"
    using challenge_counts [OF assms(2)] by auto
  have st: "sync_state s1 = sync_state s" using assms(2) by (simp add: frame_simps)
  have "p \<in> set (take (unat (challenge_run s1)) (s # rev ps)) \<Longrightarrow> beats c p" for p
  proof (cases "c = challenger s")
    case True
    assume p: "p \<in> set (take (unat (challenge_run s1)) (s # rev ps))"
    have "set (take (unat (challenge_run s1)) (s # rev ps)) \<subseteq> set (take (Suc (unat (challenge_run s))) (s # rev ps))"
      using r(2) True by (intro set_take_subset_set_take) simp
    then show ?thesis using p True assms(1) \<open>beats c s\<close> by (auto simp: run_ok_def)
  next
    case False
    assume "p \<in> set (take (unat (challenge_run s1)) (s # rev ps))"
    moreover have "set (take (unat (challenge_run s1)) (s # rev ps)) \<subseteq> set (take (Suc 0) (s # rev ps))"
      using r(2) False by (intro set_take_subset_set_take) simp
    ultimately show ?thesis using \<open>beats c s\<close> by auto
  qed
  then show ?thesis using r assms(1,3) st by (auto simp: run_ok_def split: if_splits)
next
  case False
  then show ?thesis using challenge_counts [OF assms(2)] by (simp add: run_ok_zero)
qed

lemma sync_acquire_run [frame_simps]:
  "challenge_run (status (sync_acquire i why n f y)) = 0" "source (status (sync_acquire i why n f y)) = i"
  by (simp_all add: sync_acquire_fields frame_simps)

lemma current_bound_holdover: "sync_state s = SYNC_HOLDOVER \<Longrightarrow> current_bound s = holdover_bound_ns (holdover s)"
  by (simp add: current_bound_def)

lemma follow_sources_run:
  assumes r: "run_ok ps (status y)"
  shows "run_ok (ps @ [status y]) (status (follow_sources n y))"
proof -
  define s where "s = status y"
  have tracking: "run_ok (ps @ [s]) (status (follow_sources n y))"
    if st: "sync_state s = SYNC_ACQUIRE \<or> sync_state s = SYNC_LOCKED"
  proof -
    define best where "best = best_source (source s) s"
    obtain won s1 where ch: "challenge best (current_bound s) s = (won, s1)" by fastforce
    have "run_ok (ps @ [s]) s1"
      using r ch st by (intro run_ok_challenge [of ps s best won]) (auto simp: s_def)
    then show ?thesis
      using st follow_tracking [OF _ s_def best_def ch, of n]
      by (auto simp: frame_simps s_def is_tracking_def intro: run_ok_zero)
  qed
  have "run_ok (ps @ [s]) (status (follow_sources n y))"
  proof (cases "sync_state s")
    case SYNC_FREE_RUN
    then have z: "challenge_run s = 0" "sync_state (status y) = SYNC_FREE_RUN" using r by (simp_all add: run_ok_def s_def)
    then show ?thesis
      by (intro run_ok_zero) (simp add: follow_sources_def Let_def frame_simps flip: s_def)
  next
    case SYNC_HOLDOVER
    define best where "best = best_source SYNC_SOURCE_NONE s"
    obtain won s1 where ch: "challenge best (holdover_bound_ns (holdover s)) s = (won, s1)" by fastforce
    have "run_ok (ps @ [s]) s1"
      using r ch SYNC_HOLDOVER by (intro run_ok_challenge [of ps s best won]) (simp_all add: s_def current_bound_holdover)
    then show ?thesis
      using SYNC_HOLDOVER follow_holding [OF _ s_def best_def ch, of n]
      by (auto simp: frame_simps s_def intro: run_ok_zero)
  next
    case SYNC_ACQUIRE
    then show ?thesis by (simp add: tracking)
  next
    case SYNC_LOCKED
    then show ?thesis by (simp add: tracking)
  qed
  then show ?thesis by (simp add: s_def)
qed

lemma run_ok_fields:
  "challenger s' = challenger s \<Longrightarrow> challenge_run s' = challenge_run s \<Longrightarrow> sync_state s' = sync_state s \<Longrightarrow>
   run_ok ps s' = run_ok ps s"
  by (simp add: run_ok_def)

lemma challenge_fields [frame_simps]:
  "challenger (keep_time snap use lck s) = challenger s" "challenge_run (keep_time snap use lck s) = challenge_run s"
  "sync_state (keep_time snap use lck s) = sync_state s" "source (keep_time snap use lck s) = source s"
  "sources (keep_time snap use lck s) = sources s" "fallback (keep_time snap use lck s) = fallback s"
  "challenger (follow_holdover u s) = challenger s" "challenge_run (follow_holdover u s) = challenge_run s"
  "sync_state (follow_holdover u s) = sync_state s" "source (follow_holdover u s) = source s"
  "sources (follow_holdover u s) = sources s" "fallback (follow_holdover u s) = fallback s"
  "time (follow_holdover u s) = time s" "link_leap (follow_holdover u s) = link_leap s"
  by (simp_all add: keep_time_def seed_time_def follow_holdover_def Let_def split: prod.splits)

lemma follow_loop_run: "run_ok ps s \<Longrightarrow> run_ok ps (follow_loop snap u l s)"
  by (simp add: follow_loop_def Let_def frame_simps run_ok_zero)

lemma follow_loop_frame [frame_simps]:
  "source (follow_loop snap u l s) = source s" "sources (follow_loop snap u l s) = sources s"
  "fallback (follow_loop snap u l s) = fallback s" "time (follow_loop snap u l s) = time s"
  "is_tracking (follow_loop snap u l s) = is_tracking s" "link_leap (follow_loop snap u l s) = link_leap s"
  by (simp_all add: follow_loop_def Let_def frame_simps is_tracking_def)

lemma prepare_run: "run_ok ps (status y) \<Longrightarrow> run_ok ps (status (prepare snap reps y))"
proof -
  assume r: "run_ok ps (status y)"
  have 1: "run_ok ps (status (apply_resync n y))" for n
    using r by (simp add: apply_resync_def Let_def frame_simps run_ok_zero)
  have m: "challenger (status (apply_manual_time n y)) = challenger (status y)"
    "challenge_run (status (apply_manual_time n y)) = challenge_run (status y)"
    "sync_state (status (apply_manual_time n y)) = sync_state (status y)" for n y
    by (simp_all add: apply_manual_time_def Let_def)
  have a: "challenger (status (align_to_time_of_day y)) = challenger (status y)"
    "challenge_run (status (align_to_time_of_day y)) = challenge_run (status y)"
    "sync_state (status (align_to_time_of_day y)) = sync_state (status y)" for y
    by (simp_all add: align_to_time_of_day_def Let_def split: option.splits)
  define n where "n = sample_sequence (snap_timer snap)"
  have "challenger (status (prepare snap reps y)) = challenger (status (apply_resync n y))"
    "challenge_run (status (prepare snap reps y)) = challenge_run (status (apply_resync n y))"
    "sync_state (status (prepare snap reps y)) = sync_state (status (apply_resync n y))"
    unfolding prepare_def on_status_def clear_fallback_def n_def [symmetric] a by (simp_all add: frame_simps m)
  then show ?thesis using run_ok_fields 1 by metis
qed

lemma sync_update_run:
  assumes "run_ok ps (status y)"
  shows "run_ok (ps @ [status (prepare snap reps y)]) (status (snd (sync_update snap reps y)))"
proof -
  obtain u y' where u: "sync_update snap reps y = (u, y')" by fastforce
  show ?thesis
  proof (rule sync_update_parts [OF u])
    fix y1 use off l1 l2 s3
    assume y1: "y1 = follow_sources (sample_sequence (snap_timer snap)) (prepare snap reps y)"
      and s3: "s3 = keep_time snap use (sync_state (status y) = SYNC_LOCKED \<or> sync_state (status y) = SYNC_HOLDOVER)
          (update_holdover_bound (follow_holdover (loop_update u) (follow_loop snap (loop_update u) l2 (status y1))))"
      and f: "challenger (status y') = challenger s3" "challenge_run (status y') = challenge_run s3"
        "sync_state (status y') = sync_state s3"
    have "run_ok (ps @ [status (prepare snap reps y)]) (follow_loop snap (loop_update u) l2 (status y1))"
      unfolding y1 using assms by (intro follow_loop_run follow_sources_run prepare_run)
    then have "run_ok (ps @ [status (prepare snap reps y)]) s3"
      by (subst run_ok_fields [of s3 "follow_loop snap (loop_update u) l2 (status y1)"]) (simp_all add: s3 frame_simps)
    then show ?thesis
      by (subst run_ok_fields [of _ s3]) (simp_all add: u f)
  qed
qed

section \<open>Runs\<close>

datatype SyncEvent =
  Epoch TimingSnapshot "nat \<Rightarrow> SyncSourceReport"
  | Time_set u32 u32 u16 | Resync_asked | Leap_set UtcLeap

text \<open>The state as each epoch's transitions find it, and the state at the end.\<close>

fun prepared :: "SyncEvent list \<Rightarrow> Sync \<Rightarrow> SyncStatus list \<times> Sync" where
  "prepared [] y = ([], y)"
| "prepared (Epoch snap reps # es) y =
     (let (ps, y') = prepared es (snd (sync_update snap reps y)) in (status (prepare snap reps y) # ps, y'))"
| "prepared (Time_set utc n ms # es) y = prepared es (snd (sync_set_time utc n ms y))"
| "prepared (Resync_asked # es) y = prepared es (sync_resync y)"
| "prepared (Leap_set l # es) y = prepared es (sync_set_leap l y)"

lemma prepared_run: "run_ok ps0 (status y) \<Longrightarrow> prepared es y = (ps, y') \<Longrightarrow> run_ok (ps0 @ ps) (status y')"
proof (induction es y arbitrary: ps0 ps rule: prepared.induct)
  case (2 snap reps es y)
  then obtain qs where q: "prepared es (snd (sync_update snap reps y)) = (qs, y')" "ps = status (prepare snap reps y) # qs"
    by (auto split: prod.splits)
  show ?case using 2(1) [OF sync_update_run [OF 2(2)] q(1)] q(2) by simp
next
  case (3 utc n ms es y)
  have "run_ok ps0 (status (snd (sync_set_time utc n ms y)))" using 3(2) by (simp add: sync_set_time_def)
  then show ?case using 3 by simp
next
  case (4 es y)
  have "run_ok ps0 (status (sync_resync y))" using 4(2) by (simp add: sync_resync_def)
  then show ?case using 4 by simp
next
  case (5 l es y)
  have "run_ok ps0 (status (sync_set_leap l y))" using 5(2) run_ok_fields [of "status (sync_set_leap l y)" "status y"]
    by (simp add: sync_set_leap_def)
  then show ?case using 5 by simp
qed simp

lemma displaced_follow:
  assumes r: "run_ok ps (status y)" and use: "in_use (status y)"
    and t: "source (status (follow_sources n y)) = t" "t \<noteq> source (status y)" "t \<noteq> SYNC_SOURCE_NONE"
  shows "beats t (status y) \<and> 9 \<le> length ps \<and> (\<forall>p\<in>set (take 9 (rev ps)). beats t p)"
proof -
  define s where "s = status y"
  have won: "beats c s \<and> 9 \<le> length ps \<and> (\<forall>p\<in>set (take 9 (rev ps)). beats c p)"
    if ch: "challenge c (current_bound s) s = (True, s1)" for c s1
  proof -
    have b: "beats c s" using challenge_counts [OF ch] by (auto split: if_splits)
    then have "c = challenger s" "9 \<le> unat (challenge_run s)"
      using challenge_counts [OF ch] by (auto split: if_splits)
    moreover from this have "set (take 9 (rev ps)) \<subseteq> set (take (unat (challenge_run s)) (rev ps))"
      by (intro set_take_subset_set_take)
    ultimately show ?thesis using b r by (auto simp: run_ok_def s_def)
  qed
  show ?thesis
  proof (cases "sync_state s = SYNC_HOLDOVER")
    case True
    then obtain won s1 where ch: "challenge (best_source SYNC_SOURCE_NONE s) (current_bound s) s = (won, s1)" by fastforce
    note R = follow_holding [OF _ s_def refl ch [unfolded current_bound_holdover [OF True]], of n]
    have "source s1 = source s" using ch by (simp add: frame_simps)
    then have "won" "t = best_source SYNC_SOURCE_NONE s"
      using R True t by (auto simp: s_def frame_simps split: if_splits)
    then show ?thesis using won ch by (simp add: s_def)
  next
    case False
    then have tr: "is_tracking (status y)" "source_usable (source s) s" using use by (auto simp: in_use_def s_def)
    obtain won s1 where ch: "challenge (best_source (source s) s) (current_bound s) s = (won, s1)" by fastforce
    note R = follow_tracking [OF tr(1) s_def refl ch, of n]
    have "source s1 = source s" using ch by (simp add: frame_simps)
    then have "won" "t = best_source (source s) s"
      using R tr(2) t by (auto simp: s_def frame_simps split: if_splits)
    then show ?thesis using won ch by (simp add: s_def)
  qed
qed

section \<open>The transitions one by one\<close>

text \<open>
  The newest entry of the history; a part of an update that makes no transition, and one that
  makes a single transition, along an edge of a given kind, and records it.
\<close>

definition newest :: "SyncStatus \<Rightarrow> SyncTransition" where
  "newest s = history s ! (unat (transitions s - 1) mod SYNC_HISTORY_LENGTH)"

definition stays :: "SyncStatus \<Rightarrow> SyncStatus \<Rightarrow> bool" where
  "stays s s' \<longleftrightarrow> transitions s' = transitions s \<and> history s' = history s
     \<and> sync_state s' = sync_state s \<and> source s' = source s"

definition takes ::
  "(SyncState \<Rightarrow> nat \<Rightarrow> SyncReason \<Rightarrow> SyncState \<Rightarrow> nat \<Rightarrow> bool) \<Rightarrow> SyncStatus \<Rightarrow> SyncStatus \<Rightarrow> bool" where
  "takes E s s' \<longleftrightarrow> transitions s' = transitions s + 1
     \<and> from_state (newest s') = sync_state s \<and> to_state (newest s') = sync_state s'
     \<and> to_source (newest s') = source s'
     \<and> E (sync_state s) (source s) (reason (newest s')) (sync_state s') (source s')"

text \<open>The source in use has failed, and holdover is no candidate.\<close>

definition unheld :: "SyncStatus \<Rightarrow> bool" where
  "unheld s \<longleftrightarrow> is_tracking s \<and> \<not> source_usable (source s) s
     \<and> \<not> (ready (holdover s) \<and> holdover_bound_ns (holdover s) \<le> SYNC_SYNCHRONISED_LIMIT_NS)"

lemma stays_refl [simp]: "stays s s"
  by (simp add: stays_def)

lemma stays_trans: "stays s t \<Longrightarrow> stays t u \<Longrightarrow> stays s u"
  by (simp add: stays_def)

lemma takes_stays: "takes E s t \<Longrightarrow> stays t u \<Longrightarrow> takes E s u"
  by (auto simp: stays_def takes_def newest_def)

lemma stays_takes: "stays s t \<Longrightarrow> takes E t u \<Longrightarrow> takes E s u"
  by (auto simp: stays_def takes_def)

lemma enter_takes:
  assumes "status_ok s" "E (sync_state s) (source s) why st src"
  shows "takes E s (enter st src why n s)"
proof -
  have "length (history s) = SYNC_HISTORY_LENGTH" using assms(1) by (simp add: status_ok_def trail_ok_def)
  then show ?thesis
    using assms(2) by (auto simp: takes_def newest_def enter_def Let_def SYNC_HISTORY_LENGTH_def)
qed

lemma acquire_takes:
  assumes "status_ok (status y)" "E (sync_state (status y)) (source (status y)) why SYNC_ACQUIRE i"
  shows "takes E (status y) (status (sync_acquire i why n f y))"
  by (rule takes_stays [OF enter_takes [of "status y" E why SYNC_ACQUIRE i n, OF assms]])
    (simp add: sync_acquire_fields stays_def)

lemma acquire_takes_from:
  assumes "stays s s1" "status_ok s1" "E (sync_state s1) (source s1) why SYNC_ACQUIRE i"
  shows "takes E s (status (sync_acquire i why n f (y\<lparr>status := s1\<rparr>)))"
  using acquire_takes [of "y\<lparr>status := s1\<rparr>" E why i n f] assms by (simp add: stays_takes)

lemma challenge_stays: "challenge c b s = (won, s1) \<Longrightarrow> stays s s1"
  by (auto simp: challenge_def Let_def stays_def split: if_splits)

lemma prepare_moves:
  assumes "status_ok (status y)"
  shows "if resync_pending y then takes resync_edge (status y) (status (prepare snap reps y))
    else stays (status y) (status (prepare snap reps y))"
proof -
  have h: "history (judge_sources snap reps s) = history s" for s by (simp add: judge_sources_def)
  define n where "n = sample_sequence (snap_timer snap)"
  define ya where "ya = apply_resync n y"
  have m: "stays (status z) (status (apply_manual_time n z))" for z
    by (simp add: apply_manual_time_def Let_def stays_def)
  have a: "stays (status z) (status (align_to_time_of_day z))" for z
    by (simp add: align_to_time_of_day_def Let_def stays_def split: option.splits)
  have j: "stays s (judge_sources snap reps s)" "stays s (update_holdover_bound (clear_fallback s))" for s
    by (simp_all add: stays_def frame_simps h clear_fallback_def)
  define yb where "yb = apply_manual_time n (on_status (judge_sources snap reps) ya)"
  have b: "stays (status ya) (status yb)"
    unfolding yb_def by (rule stays_trans [OF _ m]) (simp add: on_status_def j)
  have "stays (status ya) (status (prepare snap reps y))"
    unfolding prepare_def n_def [symmetric] ya_def [symmetric] yb_def [symmetric]
    by (rule stays_trans [OF b stays_trans [OF _ a]]) (simp add: on_status_def j)
  moreover have "if resync_pending y then takes resync_edge (status y) (status ya) else ya = y"
  proof (cases "resync_pending y")
    case True
    define s1 where "s1 = (status y)\<lparr>resync_slew := (sync_state (status y) = SYNC_LOCKED \<or> sync_state (status y) = SYNC_HOLDOVER),
                      sources := map (\<lambda>_. sync_source_reset) [0..<SYNC_SOURCE_COUNT],
                      holdover := (holdover (status y))\<lparr>ready := False, holdover_bound_ns := SYNC_BOUND_NONE\<rparr>\<rparr>"
    have "length (history s1) = SYNC_HISTORY_LENGTH"
      using assms by (simp add: status_ok_def trail_ok_def s1_def)
    then have "takes resync_edge s1 (enter SYNC_FREE_RUN SYNC_SOURCE_NONE SYNC_REASON_RESYNC n s1)"
      by (simp add: takes_def newest_def enter_def Let_def SYNC_HISTORY_LENGTH_def resync_edge.asked)
    then have "takes resync_edge (status y) (enter SYNC_FREE_RUN SYNC_SOURCE_NONE SYNC_REASON_RESYNC n s1)"
      by (rule stays_takes [rotated]) (simp add: stays_def s1_def)
    then show ?thesis using True by (simp add: ya_def apply_resync_def Let_def s1_def)
  qed (simp add: ya_def apply_resync_def)
  ultimately show ?thesis using takes_stays by (auto split: if_splits)
qed

text \<open>The parts of an update that the sources and the loop drive.\<close>

lemma takes_mono: "takes E s s' \<Longrightarrow> (\<And>a i why b j. E a i why b j \<Longrightarrow> F a i why b j) \<Longrightarrow> takes F s s'"
  by (auto simp: takes_def)

lemma follow_tracking_moves:
  assumes ok: "status_ok (status y)" and lock: "lock_held (status y)" and tr: "is_tracking (status y)"
  shows "if unheld (status y)
    then takes diagram_edge (status y) (status (follow_sources n y)) \<or> takes unheld_edge (status y) (status (follow_sources n y))
    else stays (status y) (status (follow_sources n y)) \<or> takes diagram_edge (status y) (status (follow_sources n y))"
proof -
  define s where "s = status y"
  define best where "best = best_source (source s) s"
  obtain won s1 where ch: "challenge best (current_bound s) s = (won, s1)" by fastforce
  have st: "sync_state s = SYNC_ACQUIRE \<or> sync_state s = SYNC_LOCKED" using tr by (simp add: is_tracking_def s_def)
  have s: "status_ok s" "lock_held s" using ok lock by (simp_all add: s_def)
  have s1: "status_ok s1" "stays s s1" using ch s by (simp_all add: frame_simps challenge_stays)
  have e: "diagram_edge (sync_state s) (source s) SYNC_REASON_BETTER_SOURCE SYNC_ACQUIRE best"
    "unheld_edge (sync_state s) (source s) SYNC_REASON_ALTERNATIVE SYNC_ACQUIRE best"
    if "best \<noteq> SYNC_SOURCE_NONE"
    using st best_source_steers [of "source s" s] that
    by (simp_all add: diagram_edge.better unheld_edge.replaced best_def)
  have 1: "won \<Longrightarrow> takes diagram_edge s (status (sync_acquire best SYNC_REASON_BETTER_SOURCE n False (y\<lparr>status := s1\<rparr>)))"
    using challenge_won ch s1 e(1) stays_def [of s s1]
    by (intro acquire_takes_from [OF s1(2,1)]) auto
  have 2: "best \<noteq> SYNC_SOURCE_NONE \<Longrightarrow> takes unheld_edge s (status (sync_acquire best SYNC_REASON_ALTERNATIVE n False y))"
    unfolding s_def by (rule acquire_takes [OF ok]) (use e(2) in \<open>simp add: s_def\<close>)
  have 3: "ready (holdover s) \<Longrightarrow>
      takes diagram_edge s (enter SYNC_HOLDOVER (holdover_source (holdover s)) SYNC_REASON_SOURCE_LOST n s)"
    by (rule enter_takes [OF s(1)]) (rule held_edge [OF s st])
  have 4: "takes diagram_edge s (enter SYNC_FREE_RUN SYNC_SOURCE_NONE SYNC_REASON_SOURCE_LOST n s)
      \<or> takes unheld_edge s (enter SYNC_FREE_RUN SYNC_SOURCE_NONE SYNC_REASON_SOURCE_LOST n s)"
    using free_edge [OF st] enter_takes [OF s(1)] by blast
  have h: "unheld s \<longleftrightarrow> \<not> source_usable (source s) s \<and> sync_candidate_bound SYNC_CANDIDATE_HOLDOVER s = SYNC_BOUND_NONE"
    using tr by (auto simp: unheld_def sync_candidate_bound_def SYNC_SYNCHRONISED_LIMIT_NS_def SYNC_BOUND_NONE_def
        simp flip: s_def)
  show ?thesis
    using 1 2 3 4 s1(2) holdover_candidate [of s]
    unfolding follow_tracking [OF tr s_def best_def ch] s_def [symmetric] h by auto
qed

lemma follow_holding_moves:
  assumes ok: "status_ok (status y)" and st: "sync_state (status y) = SYNC_HOLDOVER"
  shows "stays (status y) (status (follow_sources n y)) \<or> takes diagram_edge (status y) (status (follow_sources n y))"
proof -
  define s where "s = status y"
  define best where "best = best_source SYNC_SOURCE_NONE s"
  obtain won s1 where ch: "challenge best (holdover_bound_ns (holdover s)) s = (won, s1)" by fastforce
  have s: "status_ok s" "sync_state s = SYNC_HOLDOVER" using ok st by (simp_all add: s_def)
  then have sel: "sync_source_steers (source s)" by (auto simp: status_ok_def)
  have s1: "status_ok s1" "stays s s1" "sync_state s1 = SYNC_HOLDOVER" "source s1 = source s"
    using ch s by (simp_all add: frame_simps challenge_stays)
  have 1: "takes diagram_edge s (enter SYNC_LOCKED (source s) SYNC_REASON_SOURCE_BACK n s)"
    by (rule enter_takes [OF s(1)]) (simp add: s(2) diagram_edge.returned)
  have 2: "takes diagram_edge s (status (sync_acquire (source s) SYNC_REASON_SOURCE_BACK n False y))"
    unfolding s_def by (rule acquire_takes [OF ok]) (simp add: st diagram_edge.rerouted)
  have 3: "takes diagram_edge s (status (sync_acquire best SYNC_REASON_ALTERNATIVE n False (y\<lparr>status := s1\<rparr>)))"
    if "won" "best \<noteq> source s"
  proof -
    have "sync_source_steers best"
      using best_source_steers [of SYNC_SOURCE_NONE s] challenge_won ch that(1) by (auto simp: best_def)
    then show ?thesis
      using s1 that(2) by (intro acquire_takes_from [OF s1(2,1)]) (simp add: diagram_edge.outranked)
  qed
  have 4: "takes diagram_edge s (enter SYNC_FREE_RUN SYNC_SOURCE_NONE SYNC_REASON_EXPIRED n s1)"
    by (rule stays_takes [OF s1(2) enter_takes [OF s1(1)]]) (simp add: s1 diagram_edge.expired)
  have "won \<Longrightarrow> best = source s \<Longrightarrow> bound_ns (sources s ! source s) \<le> holdover_bound_ns (holdover s)
      \<and> source_usable (source s) s"
    using challenge_selected [OF s(2) _ sel, of s1] ch by auto
  then show ?thesis
    using 1 2 3 4 s1(2) unfolding follow_holding [OF st s_def best_def ch] s_def [symmetric] by auto
qed

lemma follow_sources_moves:
  assumes ok: "status_ok (status y)" and lock: "lock_held (status y)"
  shows "if unheld (status y)
    then takes diagram_edge (status y) (status (follow_sources n y)) \<or> takes unheld_edge (status y) (status (follow_sources n y))
    else stays (status y) (status (follow_sources n y)) \<or> takes diagram_edge (status y) (status (follow_sources n y))"
proof (cases "is_tracking (status y)")
  case True
  then show ?thesis by (rule follow_tracking_moves [OF ok lock])
next
  case False
  then have u: "\<not> unheld (status y)" by (simp add: unheld_def)
  show ?thesis
  proof (cases "sync_state (status y) = SYNC_HOLDOVER")
    case True
    then show ?thesis using follow_holding_moves [OF ok True] u by simp
  next
    case nh: False
    then have st: "sync_state (status y) = SYNC_FREE_RUN"
      using False by (cases "sync_state (status y)") (auto simp: is_tracking_def)
    then have src: "source (status y) = SYNC_SOURCE_NONE" using ok by (simp add: status_ok_def)
    have "takes diagram_edge (status y) (status (sync_acquire i SYNC_REASON_QUALIFIED n f y))"
      if "sync_source_steers i" for i f
      by (rule acquire_takes [OF ok]) (simp add: st src that diagram_edge.taken_up)
    then show ?thesis
      using u st best_source_steers(1) [of SYNC_SOURCE_NONE "status y"] best_fallback_steers [of "status y"]
      by (simp add: follow_sources_def Let_def)
  qed
qed

lemma follow_loop_moves:
  assumes "status_ok s"
  shows "stays s (follow_loop snap u l s) \<or> takes diagram_edge s (follow_loop snap u l s)"
  using enter_takes [OF assms, of diagram_edge] diagram_edge.tracking diagram_edge.phase_lost
  by (simp add: follow_loop_def Let_def)

lemma after_loop_stays: "stays s (keep_time snap use lck (update_holdover_bound (follow_holdover u s)))"
proof -
  have k: "stays t (keep_time snap use lck t)" for t
    by (simp add: stays_def keep_time_def seed_time_def Let_def split: prod.splits)
  have "stays s (follow_holdover u s)" by (simp add: stays_def follow_holdover_def Let_def)
  moreover have "stays t (update_holdover_bound t)" for t by (simp add: stays_def frame_simps)
  ultimately show ?thesis using k stays_trans by blast
qed

lemma update_moves_end:
  assumes "sync_update snap reps y = (u, y')"
    and "status_ok (status (follow_sources (sample_sequence (snap_timer snap)) (prepare snap reps y)))"
    and "q = status (follow_sources (sample_sequence (snap_timer snap)) (prepare snap reps y))"
  shows "stays q (status y') \<or> takes diagram_edge q (status y')"
proof (rule sync_update_parts [OF assms(1)])
  fix y1 use off l1 l2 s3
  assume y1: "y1 = follow_sources (sample_sequence (snap_timer snap)) (prepare snap reps y)"
    and s3: "s3 = keep_time snap use (sync_state (status y) = SYNC_LOCKED \<or> sync_state (status y) = SYNC_HOLDOVER)
        (update_holdover_bound (follow_holdover (loop_update u) (follow_loop snap (loop_update u) l2 (status y1))))"
    and f: "sync_state (status y') = sync_state s3" "source (status y') = source s3"
      "transitions (status y') = transitions s3" "history (status y') = history s3"
  have s: "stays (follow_loop snap (loop_update u) l2 q) (status y')"
    using after_loop_stays [of "follow_loop snap (loop_update u) l2 q"] by (simp add: stays_def f s3 y1 assms(3))
  show ?thesis
    using follow_loop_moves [of q snap "loop_update u" l2] assms(2,3) stays_trans [OF _ s] takes_stays [OF _ s] by auto
qed

section \<open>A time set by hand\<close>

lemma free_run_follow:
  assumes "sync_state (status y) = SYNC_FREE_RUN" "sync_state (status (follow_sources n y)) = SYNC_FREE_RUN"
  shows "follow_sources n y = y"
  using assms by (auto simp: follow_sources_def Let_def sync_acquire_fields frame_simps split: if_splits)

lemma free_run_loop: "sync_state (follow_loop snap u l s) = SYNC_FREE_RUN \<longleftrightarrow> sync_state s = SYNC_FREE_RUN"
  by (auto simp: follow_loop_def Let_def frame_simps)

lemma prepare_manual:
  assumes set: "sync_set_time utc n0 ms y = (True, y1)"
  defines "late \<equiv> ms > 500"
  shows "sync_state (status (prepare snap reps y1)) = SYNC_FREE_RUN"
    "time (status (prepare snap reps y1)) = (time (status y))\<lparr>
       corrections := (if known (time (status y)) then corrections (time (status y)) + 1 else corrections (time (status y))),
       known := True, time_leap_second := False,
       time_utc := utc + (sample_sequence (snap_timer snap) - n0) - (if late then 1 else 0) - 1,
       time_source := SYNC_SOURCE_NONE\<rparr>"
    "control (prepare snap reps y1) = epoch_control_free_run_step
       (if late then i32 (- sint (ucast (1000 - ms) * TIMING_TICKS_PER_MS)) else sint (ucast ms * TIMING_TICKS_PER_MS)) (control y1)"
proof -
  define n where "n = sample_sequence (snap_timer snap)"
  define ya where "ya = apply_resync n y1"
  define yb where "yb = ya\<lparr>status := judge_sources snap reps (status ya)\<rparr>"
  define yc where "yc = apply_manual_time n yb"
  have y: "sync_state (status y) = SYNC_FREE_RUN" "\<not> steered (status y)" "status y1 = status y"
    "manual_time y1 = \<lparr>pending = True, manual_utc = utc, manual_epoch = n0, manual_slot_ms = ms\<rparr>"
    using set by (auto simp: sync_set_time_def split: if_splits)
  have a: "sync_state (status ya) = SYNC_FREE_RUN" "\<not> steered (status ya)" "time (status ya) = time (status y)"
    "manual_time ya = manual_time y1" "control ya = control y1"
    using y by (simp_all add: ya_def apply_resync_def Let_def frame_simps)
  have b: "sync_state (status yb) = SYNC_FREE_RUN" "\<not> steered (status yb)" "time (status yb) = time (status y)"
    "manual_time yb = manual_time y1" "control yb = control y1"
    using a by (simp_all add: yb_def frame_simps)
  have c: "aligned (status yc)" "sync_state (status yc) = SYNC_FREE_RUN"
    "time (status yc) = (time (status y))\<lparr>
       corrections := (if known (time (status y)) then corrections (time (status y)) + 1 else corrections (time (status y))),
       known := True, time_leap_second := False,
       time_utc := utc + (n - n0) - (if late then 1 else 0) - 1, time_source := SYNC_SOURCE_NONE\<rparr>"
    "control yc = epoch_control_free_run_step
       (if late then i32 (- sint (ucast (1000 - ms) * TIMING_TICKS_PER_MS)) else sint (ucast ms * TIMING_TICKS_PER_MS)) (control y1)"
    using b y by (simp_all add: yc_def apply_manual_time_def Let_def late_def)
  define yd where "yd = (if fallback (status yc) \<and> source_good (source (status yc)) (status yc)
                then yc\<lparr>status := (status yc)\<lparr>fallback := False\<rparr>\<rparr> else yc)"
  have d: "aligned (status yd)" "sync_state (status yd) = SYNC_FREE_RUN" "time (status yd) = time (status yc)"
    "control yd = control yc" using c by (simp_all add: yd_def)
  have P: "prepare snap reps y1 = align_to_time_of_day (yd\<lparr>status := update_holdover_bound (status yd)\<rparr>)"
    unfolding prepare_def n_def [symmetric] ya_def [symmetric] on_status_def yb_def [symmetric] yc_def [symmetric]
    by (simp add: yd_def clear_fallback_def)
  have P': "prepare snap reps y1 = yd\<lparr>status := update_holdover_bound (status yd)\<rparr>"
    using d by (simp add: P align_to_time_of_day_def Let_def frame_simps)
  show "sync_state (status (prepare snap reps y1)) = SYNC_FREE_RUN" by (simp add: P' frame_simps d)
  show "time (status (prepare snap reps y1)) = (time (status y))\<lparr>
       corrections := (if known (time (status y)) then corrections (time (status y)) + 1 else corrections (time (status y))),
       known := True, time_leap_second := False,
       time_utc := utc + (sample_sequence (snap_timer snap) - n0) - (if late then 1 else 0) - 1,
       time_source := SYNC_SOURCE_NONE\<rparr>"
    by (simp add: P' frame_simps d c n_def)
  show "control (prepare snap reps y1) = epoch_control_free_run_step
       (if late then i32 (- sint (ucast (1000 - ms) * TIMING_TICKS_PER_MS)) else sint (ucast ms * TIMING_TICKS_PER_MS)) (control y1)"
    by (simp add: P' d c)
qed

lemma slot_ticks:
  assumes "(w :: u16) \<le> 1000"
  shows "sint ((ucast w :: u32) * TIMING_TICKS_PER_MS) = uint w * 40000"
proof -
  have w: "uint w \<le> 1000" using assms by (simp add: word_le_def)
  have t: "TIMING_TICKS_PER_MS = 40000" by (simp add: TIMING_TICKS_PER_MS_def timer_consts)
  have u: "uint ((ucast w :: u32) * TIMING_TICKS_PER_MS) = uint w * 40000"
    using w by (subst uint_mult_small) (simp_all add: width_simps t)
  then have "(ucast w :: u32) * TIMING_TICKS_PER_MS = word_of_int (uint w * 40000)"
    by (metis word_of_int_uint)
  then show ?thesis using w by (simp only:) (rule sint_word_of_int_i32, simp add: in_i32_def, use uint_ge_0 [of w] in linarith)
qed

lemma manual_step:
  assumes "ms < 1000"
  shows "free_run_step (epoch_control_free_run_step
       (if ms > 500 then i32 (- sint (ucast (1000 - ms :: u16) * TIMING_TICKS_PER_MS)) else sint (ucast ms * TIMING_TICKS_PER_MS)) l)
    = (if ms > 500 then uint ms * 40000 - 40000000 else uint ms * 40000)"
proof -
  have m: "uint ms < 1000" using assms by (simp add: word_less_def)
  have d: "uint (1000 - ms) = 1000 - uint ms" using m by (subst uint_minus_small) simp_all
  have le: "1000 - ms \<le> 1000" using d uint_ge_0 [of ms] by (simp add: word_le_def)
  have s: "sint (ucast ms * TIMING_TICKS_PER_MS) = uint ms * 40000" "sint (ucast (1000 - ms) * TIMING_TICKS_PER_MS) = (1000 - uint ms) * 40000"
    using assms le by (simp_all add: slot_ticks d)
  have i: "i32 (- ((1000 - uint ms) * 40000)) = uint ms * 40000 - 40000000" if "500 < uint ms"
    using that m by (subst i32_abs_id) (simp_all add: algebra_simps)
  have h: "sint (TIMING_NOMINAL_TICKS div 2) = 20000000" by (simp add: timer_consts)
  have n: "\<not> uint ms < - 500" using uint_ge_0 [of ms] by linarith
  show ?thesis
    using m i
    by (cases "500 < uint ms") (simp_all add: epoch_control_free_run_step_def Let_def h s n word_less_def)
qed

section \<open>Runs the properties apply to\<close>

definition blank_sync :: Sync where
  "blank_sync = \<lparr>status = blank_status, resync_pending = False,
     manual_time = \<lparr>pending = False, manual_utc = 0, manual_epoch = 0, manual_slot_ms = 0\<rparr>,
     control = blank_loop, routed = 0\<rparr>"

definition quiet :: "u32 \<Rightarrow> TimingSnapshot" where
  "quiet n = \<lparr>snap_timer = \<lparr>sample_sequence = n, sample_running_period = 40000000, sample_handler_late = 0\<rparr>,
      snap_capture = \<lparr>reference_capture = 0, reference_capture_valid = False, reference_period = 40000000,
        reference_period_sequence = 0, reference_period_valid = False, epoch_capture = 0,
        epoch_capture_valid = False\<rparr>\<rparr>"

text \<open>NTP from the first epoch with a bound of a millisecond, GNSS from the second with 100 ns.\<close>

definition contest :: "u32 \<Rightarrow> nat \<Rightarrow> SyncSourceReport" where
  "contest n i =
     (if i = 1 then (good_report (1700000000 + n) n)\<lparr>uncertainty_ns := 1000000\<rparr>
      else if i = 0 \<and> n \<ge> 2 then (good_report (1700000000 + n) n)\<lparr>uncertainty_ns := 100\<rparr>
      else no_report)"

definition contest_epoch :: "u32 \<Rightarrow> Sync \<Rightarrow> Sync" where
  "contest_epoch n y = snd (sync_update (quiet n) (contest n) y)"

definition contest_numbers :: "u32 list" where
  "contest_numbers = [1, 2, 3, 4, 5, 6, 7, 8, 9, 10, 11, 12]"

lemma contest_prepared:
  "snd (prepared (map (\<lambda>n. Epoch (quiet n) (contest n)) ns) y) = fold contest_epoch ns y"
  by (induction ns arbitrary: y) (simp_all add: contest_epoch_def case_prod_beta)

definition contest_outcome :: "Sync \<Rightarrow> bool \<times> nat \<times> nat" where
  "contest_outcome y = (in_use (status (prepare (quiet 13) (contest 13) y)),
     source (status (prepare (quiet 13) (contest 13) y)), source (status (contest_epoch 13 y)))"

lemma contest_run:
  "contest_outcome (fold contest_epoch contest_numbers (sync_init blank_sync)) = (True, SYNC_SOURCE_NTP, SYNC_SOURCE_GNSS)"
  by code_simp

lemma start_reachable: "sync_reachable (sync_init blank_sync)"
  by (rule sync_reachable.init)

lemma start_fits: "seed_fits (snap_capture (quiet 1)) (control (sync_init blank_sync))"
  by code_simp

text \<open>The same run, its first eleven epochs, and then NTP gone when holdover is not ready.\<close>

lemma contest_reachable: "machine_reachable y \<Longrightarrow> machine_reachable (fold contest_epoch ns y)"
  by (induction ns arbitrary: y) (auto simp: contest_epoch_def intro: machine_reachable.updated)

definition contest_lost :: "u32 \<Rightarrow> nat \<Rightarrow> SyncSourceReport" where
  "contest_lost n i = (if i = 1 then no_report else contest n i)"

definition lost_run :: "Sync \<Rightarrow> Sync" where
  "lost_run y = fold contest_epoch [1, 2, 3, 4, 5, 6, 7, 8, 9, 10, 11] y"

definition lost_outcome :: "Sync \<Rightarrow> bool \<times> u32 \<times> SyncState \<times> nat \<times> bool \<times> SyncReason" where
  "lost_outcome y =
     (let p = prepare (quiet 12) (contest_lost 12) y; q = follow_sources 12 p
      in (resync_pending y, transitions (status y), sync_state (status p), source (status p), unheld (status p),
          reason (newest (status q))))"

lemma lost_run_outcome:
  "lost_outcome (lost_run (sync_init blank_sync))
    = (False, 1, SYNC_ACQUIRE, SYNC_SOURCE_NTP, True, SYNC_REASON_ALTERNATIVE)"
  by code_simp

lemma lost_run_reachable: "machine_reachable (lost_run (sync_init blank_sync))"
  unfolding lost_run_def by (rule contest_reachable [OF machine_reachable.start])

section \<open>Properties\<close>

text \<open>
  C22: the synchroniser drives the control loop only within the loop's own contract. Whatever the
  sources report and whatever is asked for by hand or over the link, the loop it drives is one
  the loop's steps reach, and every update requests exactly one timer period, within half a
  second to one and a half. A frequency seed taken is to be within 16383 ticks (\<open>seed_fits\<close>);
  the code does not check it.
\<close>

theorem update_drives_loop:
  assumes "sync_reachable y" "seed_fits (snap_capture snap) (control y)" "sync_update snap reps y = (u, y')"
  shows "loop_reachable (control y') \<and> requests (control y')"
  using sync_update_result [OF sync_reachable_ok [OF assms(1)] assms(2,3)] by (simp add: sync_ok_def)

theorem update_drives_loop_witness:
  "requests (control (snd (sync_update (quiet 1) (contest 1) (sync_init blank_sync))))"
  using update_drives_loop [OF start_reachable start_fits, of "contest 1"
      "fst (sync_update (quiet 1) (contest 1) (sync_init blank_sync))"
      "snd (sync_update (quiet 1) (contest 1) (sync_init blank_sync))"] by simp


text \<open>
  C7: the transitions, and where they leave the diagram in \<open>sync.h\<close>. After any updates and other
  calls since start-up, whatever the sources report and whatever the loop's state is, the
  transitions the diagnostic ring holds (the last eight at most, across the wrap of its counter)
  are edges of the state machine, each starting from the state and source the one before it
  entered, and the newest entered the present state and source; tracking and holdover are only
  ever on a source that may steer, so never on the RTC, and free run has no source. The edges are
  the arrows of the diagram (\<open>diagram_edge\<close>) and three it does not draw: LOCKED to FREE_RUN, and
  ACQUIRE or LOCKED to ACQUIRE on another source because its own has failed (\<open>unheld_edge\<close>), and
  any state to FREE_RUN for a resynchronisation (\<open>resync_edge\<close>). An update takes the last of these
  exactly when a resynchronisation is pending, and the other two only when the source in use is
  no longer usable and holdover is no candidate, that is not ready or with a bound past
  \<open>SYNC_SYNCHRONISED_LIMIT_NS\<close>; from LOCKED it is the bound that has passed it, as holdover is
  ready then. All else an update does is to stay or take one arrow of the diagram before the
  loop's turn, and the same after it.
\<close>

theorem transitions_follow_diagram:
  assumes "machine_reachable y"
  shows "leads_to (recent (history (status y)) (transitions (status y))) (sync_state (status y)) (source (status y))
    \<and> (if sync_state (status y) = SYNC_FREE_RUN then source (status y) = SYNC_SOURCE_NONE
       else sync_source_steers (source (status y)))
    \<and> (let s = status y; y1 = prepare snap reps y; p = status y1;
           q = status (follow_sources (sample_sequence (snap_timer snap)) y1);
           s' = status (snd (sync_update snap reps y))
       in (if resync_pending y then takes resync_edge s p else stays s p)
        \<and> (if unheld p
           then (takes diagram_edge p q \<or> takes unheld_edge p q)
             \<and> (sync_state p = SYNC_LOCKED \<longrightarrow> SYNC_SYNCHRONISED_LIMIT_NS < holdover_bound_ns (holdover p))
           else stays p q \<or> takes diagram_edge p q)
        \<and> (stays q s' \<or> takes diagram_edge q s'))"
proof -
  have ok: "status_ok (status y)" "lock_held (status y)" using machine_reachable_ok [OF assms] by simp_all
  define y1 where "y1 = prepare snap reps y"
  define y2 where "y2 = follow_sources (sample_sequence (snap_timer snap)) y1"
  have p: "status_ok (status y1)" "lock_held (status y1)" using ok by (simp_all add: y1_def prepare_ok prepare_lock)
  have q: "status_ok (status y2)" using p by (simp add: y2_def follow_sources_ok)
  have 1: "leads_to (recent (history (status y)) (transitions (status y))) (sync_state (status y)) (source (status y))
    \<and> (if sync_state (status y) = SYNC_FREE_RUN then source (status y) = SYNC_SOURCE_NONE
       else sync_source_steers (source (status y)))"
    using ok(1) by (cases "sync_state (status y)") (auto simp: status_ok_def trail_ok_def is_tracking_def)
  have 2: "unheld (status y1) \<Longrightarrow> sync_state (status y1) = SYNC_LOCKED \<Longrightarrow>
      SYNC_SYNCHRONISED_LIMIT_NS < holdover_bound_ns (holdover (status y1))"
    using p(2) by (auto simp: unheld_def lock_held_def)
  obtain u y' where u: "sync_update snap reps y = (u, y')" by fastforce
  have 3: "stays (status y2) (status y') \<or> takes diagram_edge (status y2) (status y')"
    by (rule update_moves_end [OF u]) (simp_all add: q flip: y1_def y2_def)
  note 4 = prepare_moves [OF ok(1), of snap reps, folded y1_def]
  note 5 = follow_sources_moves [OF p, of "sample_sequence (snap_timer snap)", folded y2_def]
  show ?thesis
    unfolding Let_def u snd_conv y1_def [symmetric] y2_def [symmetric] using 1 2 3 4 5 by auto
qed

theorem transitions_follow_diagram_witness:
  "takes unheld_edge (status (prepare (quiet 12) (contest_lost 12) (lost_run (sync_init blank_sync))))
     (status (follow_sources 12 (prepare (quiet 12) (contest_lost 12) (lost_run (sync_init blank_sync)))))"
proof -
  define p where "p = prepare (quiet 12) (contest_lost 12) (lost_run (sync_init blank_sync))"
  define q where "q = status (follow_sources 12 p)"
  have o: "unheld (status p)" "sync_state (status p) = SYNC_ACQUIRE" "reason (newest q) = SYNC_REASON_ALTERNATIVE"
    using lost_run_outcome by (simp_all add: lost_outcome_def Let_def p_def q_def)
  have "takes diagram_edge (status p) q \<or> takes unheld_edge (status p) q"
    using transitions_follow_diagram [OF lost_run_reachable, of "quiet 12" "contest_lost 12"] o(1)
    by (simp add: Let_def p_def q_def quiet_def)
  moreover have "\<not> takes diagram_edge (status p) q"
    using o(2,3) by (auto simp: takes_def elim: diagram_edge.cases)
  ultimately show ?thesis by (simp add: p_def q_def)
qed


text \<open>
  C8: an epoch is steered only by a source fit for it. When an update used a source, it is the
  selected one, it may steer, its edge was captured, and this epoch's verdict on it is GOOD or,
  for a source taken as a fallback, INACCURATE; when it used none, nothing was measured.
\<close>

theorem steers_by_fit_source:
  assumes "sync_reachable y" "seed_fits (snap_capture snap) (control y)" "sync_update snap reps y = (u, y')"
  shows "if usable u
    then is_tracking (status y') \<and> sync_source_steers (source (status y'))
      \<and> captured (report (sources (status y') ! source (status y')))
      \<and> (check (sources (status y') ! source (status y')) = SYNC_CHECK_GOOD
         \<or> check (sources (status y') ! source (status y')) = SYNC_CHECK_INACCURATE \<and> fallback (status y'))
    else kind (loop_update u) \<noteq> EPOCH_UPDATE_MEASURED"
proof (rule sync_update_parts [OF assms(3)])
  fix y1 use off l1 l2 s3
  assume y1: "y1 = follow_sources (sample_sequence (snap_timer snap)) (prepare snap reps y)"
    and use: "use \<longleftrightarrow> is_tracking (status y1) \<and> source_usable (source (status y1)) (status y1)
        \<and> captured (report (sources (status y1) ! source (status y1)))"
    and k: "loop_kept (control y1) l1" and e: "epoch_control_update snap use off l1 = (loop_update u, l2)"
    and s3: "s3 = keep_time snap use (sync_state (status y) = SYNC_LOCKED \<or> sync_state (status y) = SYNC_HOLDOVER)
        (update_holdover_bound (follow_holdover (loop_update u) (follow_loop snap (loop_update u) l2 (status y1))))"
    and f: "usable u = use" "sync_state (status y') = sync_state s3" "source (status y') = source s3"
      "sources (status y') = sources s3" "fallback (status y') = fallback s3"
  have ok: "sync_ok y" by (rule sync_reachable_ok [OF assms(1)])
  have p: "status_ok (status (prepare snap reps y))" using ok by (simp add: sync_ok_def prepare_ok)
  have pl: "lock_held (status (prepare snap reps y))" using ok by (simp add: sync_ok_def prepare_lock)
  have ok1: "status_ok (status y1)" unfolding y1 by (rule follow_sources_ok [OF p pl])
  have g: "source s3 = source (status y1)" "sources s3 = sources (status y1)" "fallback s3 = fallback (status y1)"
    by (simp_all add: s3 frame_simps)
  have t: "is_tracking (status y') = is_tracking (status y1)"
    unfolding is_tracking_def [of "status y'"] f(2) s3 frame_simps
    unfolding is_tracking_def [of "follow_loop snap (loop_update u) l2 (status y1)", symmetric] by (rule follow_loop_frame)
  show ?thesis
  proof (cases use)
    case True
    then have "source_usable (source (status y1)) (status y1)" "is_tracking (status y1)"
      "captured (report (sources (status y1) ! source (status y1)))" using use by simp_all
    moreover have "sync_source_steers (source (status y1))" using ok1 calculation(2) by (simp add: status_ok_def)
    ultimately show ?thesis
      using True t by (auto simp: f(1,3,4,5) g source_usable_def source_good_def)
  next
    case False
    have "loop_reachable l1"
      using ok k loop_kept_trans [OF prepare_kept follow_sources_kept [OF p]] y1
      by (auto simp: loop_kept_def sync_ok_def)
    then show ?thesis using unusable_kind e False f(1) by auto
  qed
qed

theorem steers_by_fit_source_witness:
  "kind (loop_update (fst (sync_update (quiet 1) (contest 1) (sync_init blank_sync)))) \<noteq> EPOCH_UPDATE_MEASURED"
proof -
  have "\<not> usable (fst (sync_update (quiet 1) (contest 1) (sync_init blank_sync)))" by code_simp
  then show ?thesis
    using steers_by_fit_source [OF start_reachable start_fits, of "contest 1"
        "fst (sync_update (quiet 1) (contest 1) (sync_init blank_sync))"
        "snd (sync_update (quiet 1) (contest 1) (sync_init blank_sync))"] by simp
qed


text \<open>
  C6: hysteresis. A source in use, fit to steer by, or holdover, gives way to another source only
  when that one has been a candidate with less than half its bound in each of the last ten
  epochs, this one included, whatever was asked for in between.
\<close>

theorem displaced_after_ten:
  assumes "prepared es (sync_init y) = (ps, y1)" "in_use (status (prepare snap reps y1))"
    and "t = source (status (snd (sync_update snap reps y1)))"
    and "t \<noteq> source (status (prepare snap reps y1))" "t \<noteq> SYNC_SOURCE_NONE"
  shows "9 \<le> length ps \<and> (\<forall>p\<in>set (status (prepare snap reps y1) # take 9 (rev ps)). beats t p)"
proof -
  obtain u y' where u: "sync_update snap reps y1 = (u, y')" by fastforce
  have "run_ok [] (status (sync_init y))" by (simp add: run_ok_def sync_init_def blank_status_def)
  from prepared_run [OF this assms(1)] have r: "run_ok ps (status (prepare snap reps y1))"
    by (intro prepare_run) simp
  show ?thesis
  proof (rule sync_update_parts [OF u])
    fix ya use off l1 l2 s3
    assume ya: "ya = follow_sources (sample_sequence (snap_timer snap)) (prepare snap reps y1)"
      and s3: "s3 = keep_time snap use (sync_state (status y1) = SYNC_LOCKED \<or> sync_state (status y1) = SYNC_HOLDOVER)
          (update_holdover_bound (follow_holdover (loop_update u) (follow_loop snap (loop_update u) l2 (status ya))))"
      and f: "source (status y') = source s3"
    have "source (status ya) = t" by (simp add: assms(3) u f s3 frame_simps)
    from displaced_follow [OF r assms(2) this [unfolded ya]] assms(4,5) show ?thesis by auto
  qed
qed

theorem displaced_after_ten_witness:
  "list_all (beats SYNC_SOURCE_GNSS)
     (take 9 (rev (fst (prepared (map (\<lambda>n. Epoch (quiet n) (contest n)) contest_numbers) (sync_init blank_sync)))))"
proof -
  define r where "r = prepared (map (\<lambda>n. Epoch (quiet n) (contest n)) contest_numbers) (sync_init blank_sync)"
  have "contest_outcome (snd r) = (True, SYNC_SOURCE_NTP, SYNC_SOURCE_GNSS)"
    unfolding r_def contest_prepared by (rule contest_run)
  then have "in_use (status (prepare (quiet 13) (contest 13) (snd r)))"
    "source (status (snd (sync_update (quiet 13) (contest 13) (snd r)))) = SYNC_SOURCE_GNSS"
    "source (status (prepare (quiet 13) (contest 13) (snd r))) = SYNC_SOURCE_NTP"
    by (simp_all add: contest_outcome_def contest_epoch_def)
  then show ?thesis
    using displaced_after_ten [of _ blank_sync "fst r" "snd r" "quiet 13" "contest 13" SYNC_SOURCE_GNSS]
    unfolding r_def list_all_iff by (fastforce simp: sync_ids)
qed


text \<open>
  A time set by hand is exact. When it was accepted at a slot of epoch \<open>n0\<close> and the clock is
  still free running after the next update, the label of that epoch and the step of the epoch
  that the update starts place the clock so that the coming epochs fall exactly on the seconds
  counted from the moment set: label times the second's ticks is the moment of the epoch plus
  the step, which is at most half a second.
\<close>

theorem manual_time_exact:
  assumes "sync_set_time utc n0 ms y = (True, y1)" "sync_update snap reps y1 = (u, y')"
    and "sync_state (status y') = SYNC_FREE_RUN" "change (time_leap (time (status y))) = 0"
    and "n = uint (sample_sequence (snap_timer snap) - n0)" "1 \<le> n" "uint utc + n < 2 ^ 32"
  shows "known (time (status y')) \<and>
    uint (time_utc (time (status y'))) * 40000000
      = (uint utc + n) * 40000000 - uint ms * 40000 + free_run_step (control (prepare snap reps y1)) \<and>
    \<bar>free_run_step (control (prepare snap reps y1))\<bar> \<le> 20000000"
proof (rule sync_update_parts [OF assms(2)])
  fix ya use off l1 l2 s3
  assume ya: "ya = follow_sources (sample_sequence (snap_timer snap)) (prepare snap reps y1)"
    and use: "use \<longleftrightarrow> is_tracking (status ya) \<and> source_usable (source (status ya)) (status ya)
        \<and> captured (report (sources (status ya) ! source (status ya)))"
    and s3: "s3 = keep_time snap use (sync_state (status y1) = SYNC_LOCKED \<or> sync_state (status y1) = SYNC_HOLDOVER)
        (update_holdover_bound (follow_holdover (loop_update u) (follow_loop snap (loop_update u) l2 (status ya))))"
    and f: "sync_state (status y') = sync_state s3" "time (status y') = time s3"
  note P = prepare_manual [OF assms(1), of snap reps]
  have m: "ms < 1000" using assms(1) by (auto simp: sync_set_time_def split: if_splits)
  have "sync_state (status ya) = SYNC_FREE_RUN"
    using assms(3) by (simp add: f s3 frame_simps free_run_loop)
  then have ya': "ya = prepare snap reps y1" using free_run_follow P(1) ya by metis
  have nu: "\<not> use" using use P(1) by (simp add: ya' is_tracking_def)
  define d where "d = sample_sequence (snap_timer snap) - n0"
  define late :: u32 where "late = (if ms > 500 then 1 else 0)"
  have l: "time (status (prepare snap reps y1)) = (time (status y))\<lparr>
       corrections := (if known (time (status y)) then corrections (time (status y)) + 1 else corrections (time (status y))),
       known := True, time_leap_second := False, time_utc := utc + d - late - 1, time_source := SYNC_SOURCE_NONE\<rparr>"
    using P(2) by (simp add: d_def late_def)
  have t: "known (time s3)" "time_utc (time s3) = utc + d - late"
    using nu assms(4) by (simp_all add: s3 keep_time_def Let_def frame_simps ya' l announced_def utc_advance_def)
  have dn: "uint d = n" by (simp add: d_def assms(5))
  have "uint (utc + d) = uint utc + n" using assms(7) by (subst uint_plus_small) (simp_all add: dn)
  moreover have "uint late \<le> 1" by (simp add: late_def)
  ultimately have "uint (utc + d - late) = uint utc + n - uint late"
    using uint_minus_small [of late "utc + d"] assms(6) uint_ge_0 [of utc] by linarith
  moreover have st: "free_run_step (control (prepare snap reps y1))
      = (if ms > 500 then uint ms * 40000 - 40000000 else uint ms * 40000)"
    unfolding P(3) by (rule manual_step [OF m])
  moreover obtain v where "uint ms = v" "0 \<le> v" by simp
  moreover have "uint ms < 1000" "ms > 500 \<longleftrightarrow> uint ms > 500" using m by (simp_all add: word_less_def)
  ultimately show ?thesis
    unfolding f(2) t(2) by (auto simp: t(1) late_def abs_le_iff)
qed

definition hand_set :: Sync where
  "hand_set = snd (sync_set_time 1700000000 5 700 (sync_init blank_sync))"

theorem manual_time_exact_witness:
  "time_utc (time (status (snd (sync_update (quiet 6) (\<lambda>_. no_report) hand_set)))) = 1700000000
   \<and> free_run_step (control (prepare (quiet 6) (\<lambda>_. no_report) hand_set)) = - 12000000"
proof -
  define r where "r = sync_update (quiet 6) (\<lambda>_. no_report) hand_set"
  have e: "sync_set_time 1700000000 5 700 (sync_init blank_sync) = (True, hand_set)"
    "change (time_leap (time (status (sync_init blank_sync)))) = 0" by code_simp+
  have f: "sync_state (status (snd r)) = SYNC_FREE_RUN" "time_utc (time (status (snd r))) = 1700000000"
    unfolding r_def by code_simp+
  have "1 = uint (sample_sequence (snap_timer (quiet 6)) - 5)" by (simp add: quiet_def)
  from manual_time_exact [OF e(1) _ f(1) e(2) this, of "\<lambda>_. no_report" "fst r"] f(2)
  show ?thesis by (simp add: r_def)
qed

end
