(* ===== verification/Flash.thy ===== *)
theory Flash
  imports Prelude
begin

text \<open>
  The program flash of the settings store (\<open>dspic_src/drivers/flash.c\<close>). The memory is a map
  from program addresses to their data words. The controller may carry out an operation or
  report an error and leave the memory alone: \<open>performs n\<close> is its answer to the \<open>n\<close>-th operation,
  so a loss of power is an answer that stays negative. Writing clears bits only. Not modelled:
  the table page register, the latches, the clock that times operations and the resume hook.
\<close>

section \<open>The code\<close>

definition FLASH_PAGE_ADDRESSES :: nat where "FLASH_PAGE_ADDRESSES = 0x800"
definition FLASH_PAGE_WORDS :: nat where "FLASH_PAGE_WORDS = 1024"
definition FLASH_DOUBLE_ADDRESSES :: nat where "FLASH_DOUBLE_ADDRESSES = 4"
definition FLASH_STORE_BASE :: nat where "FLASH_STORE_BASE = 0x029800"
definition FLASH_STORE_PAGES :: nat where "FLASH_STORE_PAGES = 2"
definition FLASH_STORE_END :: nat where
  "FLASH_STORE_END = FLASH_STORE_BASE + FLASH_STORE_PAGES * FLASH_PAGE_ADDRESSES"
definition FLASH_CONFIG_PAGE :: nat where "FLASH_CONFIG_PAGE = 0x02A800"
definition FLASH_ADDRESS_MASK :: u32 where "FLASH_ADDRESS_MASK = 0x00FFFFFF"

datatype FlashResult = FLASH_OK | FLASH_BAD_ADDRESS | FLASH_NOT_RESERVED | FLASH_FAILED

record Flash =
  cells :: "nat \<Rightarrow> u16"
  reserved :: bool
  performs :: "nat \<Rightarrow> bool"
  operations :: nat
  wrerr :: bool
  flash_erases :: u32
  flash_writes :: u32
  flash_failures :: u32

text \<open>The linker's placements of the two reservations are the arguments.\<close>

definition flash_init :: "u32 \<Rightarrow> u32 \<Rightarrow> Flash \<Rightarrow> bool \<times> Flash" where
  "flash_init store_area config_page_free f =
     (let ok = (unat (store_area AND FLASH_ADDRESS_MASK) = FLASH_STORE_BASE
                \<and> unat (config_page_free AND FLASH_ADDRESS_MASK) = FLASH_CONFIG_PAGE)
      in (ok, f\<lparr>reserved := ok\<rparr>))"

definition in_store :: "nat \<Rightarrow> nat \<Rightarrow> bool" where
  "in_store address alignment \<longleftrightarrow>
     address \<ge> FLASH_STORE_BASE \<and> address < FLASH_STORE_END \<and> address mod alignment = 0"

definition flash_read_word :: "nat \<Rightarrow> Flash \<Rightarrow> u16" where
  "flash_read_word address f = cells f address"

definition run_operation :: "((nat \<Rightarrow> u16) \<Rightarrow> nat \<Rightarrow> u16) \<Rightarrow> Flash \<Rightarrow> Flash" where
  "run_operation change f =
     (if performs f (operations f)
      then f\<lparr>cells := change (cells f), operations := operations f + 1, wrerr := False\<rparr>
      else f\<lparr>operations := operations f + 1, wrerr := True\<rparr>)"

definition finish :: "Flash \<Rightarrow> FlashResult \<times> Flash" where
  "finish f = (if wrerr f then (FLASH_FAILED, f\<lparr>flash_failures := flash_failures f + 1\<rparr>) else (FLASH_OK, f))"

definition flash_erase_page :: "nat \<Rightarrow> Flash \<Rightarrow> FlashResult \<times> Flash" where
  "flash_erase_page address f =
     (if \<not> reserved f then (FLASH_NOT_RESERVED, f)
      else if \<not> in_store address FLASH_PAGE_ADDRESSES then (FLASH_BAD_ADDRESS, f)
      else let f1 = run_operation
                 (\<lambda>c a. if address \<le> a \<and> a < address + FLASH_PAGE_ADDRESSES then 0xFFFF else c a) f
           in finish (f1\<lparr>flash_erases := flash_erases f1 + 1\<rparr>))"

definition flash_write_double_word :: "nat \<Rightarrow> u16 \<Rightarrow> u16 \<Rightarrow> Flash \<Rightarrow> FlashResult \<times> Flash" where
  "flash_write_double_word address first second f =
     (if \<not> reserved f then (FLASH_NOT_RESERVED, f)
      else if \<not> in_store address FLASH_DOUBLE_ADDRESSES then (FLASH_BAD_ADDRESS, f)
      else let f1 = run_operation
                 (\<lambda>c. c(address := c address AND first, address + 2 := c (address + 2) AND second)) f
           in finish (f1\<lparr>flash_writes := flash_writes f1 + 1\<rparr>))"

section \<open>What an operation does\<close>

lemmas flash_ids = FLASH_PAGE_ADDRESSES_def FLASH_PAGE_WORDS_def FLASH_DOUBLE_ADDRESSES_def
  FLASH_STORE_BASE_def FLASH_STORE_PAGES_def FLASH_STORE_END_def

text \<open>The address of a data word of a page of the store.\<close>

definition word_address :: "nat \<Rightarrow> nat \<Rightarrow> nat" where
  "word_address page word = FLASH_STORE_BASE + page * FLASH_PAGE_ADDRESSES + 2 * word"

definition read_word :: "nat \<Rightarrow> nat \<Rightarrow> Flash \<Rightarrow> u16" where
  "read_word page word f = flash_read_word (word_address page word) f"

text \<open>A flash that performs whatever it is asked.\<close>

definition works :: "Flash \<Rightarrow> bool" where "works f \<longleftrightarrow> (\<forall>n. performs f n)"

lemma erase_result:
  assumes "flash_erase_page (word_address p 0) f = (r, f')"
  shows "reserved f' = reserved f" "performs f' = performs f"
    "r = FLASH_OK \<Longrightarrow> p < 2 \<and> reserved f"
    "r \<noteq> FLASH_OK \<Longrightarrow> cells f' = cells f"
    "r = FLASH_OK \<Longrightarrow> q < 2 \<Longrightarrow> i < FLASH_PAGE_WORDS \<Longrightarrow>
       read_word q i f' = (if q = p then 0xFFFF else read_word q i f)"
    "p < 2 \<Longrightarrow> reserved f \<Longrightarrow> performs f (operations f) \<Longrightarrow> r = FLASH_OK"
proof -
  have c: "(r, f') = (if \<not> reserved f then (FLASH_NOT_RESERVED, f)
      else if \<not> in_store (word_address p 0) FLASH_PAGE_ADDRESSES then (FLASH_BAD_ADDRESS, f)
      else if performs f (operations f)
      then (FLASH_OK, f\<lparr>cells := (\<lambda>a. if word_address p 0 \<le> a \<and> a < word_address p 0 + FLASH_PAGE_ADDRESSES then 0xFFFF
            else cells f a), operations := operations f + 1, wrerr := False, flash_erases := flash_erases f + 1\<rparr>)
      else (FLASH_FAILED, f\<lparr>operations := operations f + 1, wrerr := True, flash_erases := flash_erases f + 1,
            flash_failures := flash_failures f + 1\<rparr>))"
    using assms by (auto simp: flash_erase_page_def run_operation_def finish_def Let_def)
  show "reserved f' = reserved f" "performs f' = performs f" "r \<noteq> FLASH_OK \<Longrightarrow> cells f' = cells f"
    using c by (auto split: if_splits)
  show "p < 2 \<Longrightarrow> reserved f \<Longrightarrow> performs f (operations f) \<Longrightarrow> r = FLASH_OK"
    using c by (auto simp: in_store_def word_address_def flash_ids less_2_cases_iff split: if_splits)
  show "r = FLASH_OK \<Longrightarrow> p < 2 \<and> reserved f"
    using c by (auto simp: in_store_def word_address_def flash_ids split: if_splits)
  show "r = FLASH_OK \<Longrightarrow> q < 2 \<Longrightarrow> i < FLASH_PAGE_WORDS \<Longrightarrow>
       read_word q i f' = (if q = p then 0xFFFF else read_word q i f)"
    using c by (auto simp: read_word_def flash_read_word_def word_address_def flash_ids less_2_cases_iff split: if_splits)
qed

lemma write_result:
  assumes "flash_write_double_word (word_address p w) a b f = (r, f')" "p < 2" "even w" "w + 1 < FLASH_PAGE_WORDS"
    "reserved f"
  shows "reserved f'" "performs f' = performs f"
    "r \<noteq> FLASH_OK \<Longrightarrow> cells f' = cells f"
    "r = FLASH_OK \<Longrightarrow> q < 2 \<Longrightarrow> i < FLASH_PAGE_WORDS \<Longrightarrow>
       read_word q i f' = (if q = p \<and> i = w then read_word q i f AND a
                           else if q = p \<and> i = w + 1 then read_word q i f AND b else read_word q i f)"
    "performs f (operations f) \<Longrightarrow> r = FLASH_OK"
proof -
  have s: "in_store (word_address p w) FLASH_DOUBLE_ADDRESSES"
    using assms(2-4) by (auto simp: in_store_def word_address_def flash_ids less_2_cases_iff elim!: evenE)
  have c: "(r, f') = (if performs f (operations f)
      then (FLASH_OK, f\<lparr>cells := (cells f)(word_address p w := cells f (word_address p w) AND a,
              word_address p w + 2 := cells f (word_address p w + 2) AND b),
            operations := operations f + 1, wrerr := False, flash_writes := flash_writes f + 1\<rparr>)
      else (FLASH_FAILED, f\<lparr>operations := operations f + 1, wrerr := True, flash_writes := flash_writes f + 1,
            flash_failures := flash_failures f + 1\<rparr>))"
    using assms(1,5) s by (auto simp: flash_write_double_word_def run_operation_def finish_def Let_def)
  show "performs f (operations f) \<Longrightarrow> r = FLASH_OK" using c by (auto split: if_splits)
  show "reserved f'" "performs f' = performs f" "r \<noteq> FLASH_OK \<Longrightarrow> cells f' = cells f"
    using c assms(5) by (auto split: if_splits)
  show "r = FLASH_OK \<Longrightarrow> q < 2 \<Longrightarrow> i < FLASH_PAGE_WORDS \<Longrightarrow>
       read_word q i f' = (if q = p \<and> i = w then read_word q i f AND a
                           else if q = p \<and> i = w + 1 then read_word q i f AND b else read_word q i f)"
    using c assms(2,4)
    by (auto simp: read_word_def flash_read_word_def word_address_def flash_ids less_2_cases_iff split: if_splits)
qed

end
