(* ===== verification/Store.thy ===== *)
theory Store
  imports Flash Checksum
begin

text \<open>
  The settings store (\<open>dspic_src/settings/store.c\<close>): a journal of records in the two pages of
  \<open>Flash\<close>. Its state holds the flash, the status and the tables of the latest records. Positions
  and lengths in a page are at most 1024 and are natural numbers. Not modelled: the line
  \<open>store_print\<close> writes and the names of results.
\<close>

section \<open>The code\<close>

definition STORE_MAGIC :: u16 where "STORE_MAGIC = 0x5354"
definition STORE_FORMAT :: u16 where "STORE_FORMAT = 1"
definition STORE_HEADER_WORDS :: nat where "STORE_HEADER_WORDS = 4"
definition STORE_RECORD_MARK :: u16 where "STORE_RECORD_MARK = 0xA500"
definition STORE_RECORD_MAX_BYTES :: nat where "STORE_RECORD_MAX_BYTES = 128"
definition STORE_TYPES :: nat where "STORE_TYPES = 5"
definition ERASED :: u16 where "ERASED = 0xFFFF"

datatype StoreResult = STORE_OK | STORE_BAD_ARGUMENT | STORE_FLASH_FAILED | STORE_VERIFY

record Store =
  flash :: Flash
  active :: bool
  page :: nat
  generation :: u16
  used_words :: nat
  full :: bool
  torn :: u16
  unreadable :: bool
  appends :: u32
  page_changes :: u32
  store_failures :: u32
  last_result :: StoreResult
  last_flash :: FlashResult
  record_word :: "nat list"
  record_length :: "nat list"

definition crc_word :: "u16 \<Rightarrow> u16 \<Rightarrow> u16" where
  "crc_word crc w = sml_crc crc [ucast w, ucast (drop_bit 8 w)]"

definition record_words :: "nat \<Rightarrow> nat" where
  "record_words n = (let words = 3 + (n + 1) div 2 in (words + 1) div 2 * 2)"

definition header_valid :: "nat \<Rightarrow> Flash \<Rightarrow> bool \<times> u16" where
  "header_valid p f =
     (let words = map (\<lambda>i. read_word p i f) [0..<STORE_HEADER_WORDS];
          crc = foldl crc_word SML_CRC_INIT (take (STORE_HEADER_WORDS - 1) words)
      in (words ! 0 = STORE_MAGIC \<and> words ! 1 = STORE_FORMAT \<and> words ! 3 = crc, words ! 2))"

text \<open>The words a record spans (0: not one), its type, its length and whether its CRC is good.\<close>

definition check_record :: "nat \<Rightarrow> nat \<Rightarrow> Flash \<Rightarrow> nat \<times> nat \<times> nat \<times> bool" where
  "check_record p w f =
     (let mark = read_word p w f;
          type = unat (ucast mark :: u8);
          n = unat (read_word p (w + 1) f)
      in if mark AND 0xFF00 \<noteq> STORE_RECORD_MARK \<or> type = 0 \<or> type = 0xFF \<or> n > STORE_RECORD_MAX_BYTES
         then (0, type, n, False)
         else let words = record_words n
         in if w + words > FLASH_PAGE_WORDS then (0, type, n, False)
            else let crc = foldl crc_word SML_CRC_INIT (map (\<lambda>i. read_word p (w + i) f) [0..<words - 1])
                 in (words, type, n, read_word p (w + words - 1) f = crc))"

function scan_loop :: "nat \<Rightarrow> Store \<Rightarrow> Store" where
  "scan_loop w s =
     (if w + 2 \<le> FLASH_PAGE_WORDS then
        if read_word (page s) w (flash s) = ERASED \<and> read_word (page s) (w + 1) (flash s) = ERASED
        then s\<lparr>used_words := w\<rparr>
        else let (words, type, n, intact) = check_record (page s) w (flash s)
        in if words = 0 then s\<lparr>unreadable := True, full := True, used_words := w\<rparr>
           else scan_loop (w + words)
             (if \<not> intact then s\<lparr>torn := torn s + 1\<rparr>
              else if type < STORE_TYPES
              then s\<lparr>record_word := (record_word s)[type := w], record_length := (record_length s)[type := n]\<rparr>
              else s)
      else s\<lparr>used_words := w\<rparr>)"
  by pat_completeness auto
termination by (relation "measure (\<lambda>(w, _). FLASH_PAGE_WORDS - w)") (auto simp: FLASH_PAGE_WORDS_def)

declare scan_loop.simps [simp del]

definition store_scan :: "Store \<Rightarrow> Store" where
  "store_scan s =
     scan_loop STORE_HEADER_WORDS
       (s\<lparr>record_word := replicate STORE_TYPES 0, record_length := replicate STORE_TYPES 0, full := False\<rparr>)"

definition store_init :: "Flash \<Rightarrow> Store" where
  "store_init f =
     (let s = \<lparr>flash = f, active = False, page = 0, generation = 0, used_words = 0, full = False, torn = 0,
               unreadable = False, appends = 0, page_changes = 0, store_failures = 0, last_result = STORE_OK,
               last_flash = FLASH_OK, record_word = replicate STORE_TYPES 0,
               record_length = replicate STORE_TYPES 0\<rparr>;
          (valid0, generation0) = header_valid 0 f;
          (valid1, generation1) = header_valid 1 f
      in if \<not> valid0 \<and> \<not> valid1 then s
         else let p = (if valid0 \<and> (\<not> valid1 \<or> sint (generation0 - generation1) \<ge> 0) then 0 else 1)
         in store_scan (s\<lparr>page := p, generation := (if p = 0 then generation0 else generation1), active := True\<rparr>))"

definition store_read :: "nat \<Rightarrow> nat \<Rightarrow> Store \<Rightarrow> u8 list option" where
  "store_read type capacity s =
     (if \<not> active s \<or> type = 0 \<or> type \<ge> STORE_TYPES \<or> record_word s ! type = 0
         \<or> record_length s ! type > capacity then None
      else let w = record_word s ! type + 2
      in Some (map (\<lambda>i. let v = read_word (page s) (w + i div 2) (flash s)
                        in ucast (if even i then v else drop_bit 8 v)) [0..<record_length s ! type]))"

definition blank :: "nat \<Rightarrow> nat \<Rightarrow> nat \<Rightarrow> Flash \<Rightarrow> bool" where
  "blank p w n f \<longleftrightarrow> list_all (\<lambda>i. read_word p (w + i) f = ERASED) [0..<n]"

fun write_doubles :: "nat \<Rightarrow> nat \<Rightarrow> u16 list \<Rightarrow> Store \<Rightarrow> bool \<times> Store" where
  "write_doubles p w (a # b # ws) s =
     (let (r, f) = flash_write_double_word (word_address p w) a b (flash s);
          s1 = s\<lparr>flash := f, last_flash := r\<rparr>
      in if r \<noteq> FLASH_OK then (False, s1) else write_doubles p (w + 2) ws s1)"
| "write_doubles p w ws s = (True, s)"

definition write_words :: "nat \<Rightarrow> nat \<Rightarrow> u16 list \<Rightarrow> Store \<Rightarrow> StoreResult \<times> Store" where
  "write_words p w ws s =
     (let (written, s1) = write_doubles p w ws s
      in if \<not> written then (STORE_FLASH_FAILED, s1)
         else if list_all (\<lambda>i. read_word p (w + i) (flash s1) = ws ! i) [0..<length ws] then (STORE_OK, s1)
         else (STORE_VERIFY, s1))"

definition build_record :: "nat \<Rightarrow> u8 list \<Rightarrow> u16 list" where
  "build_record type d =
     (let count = record_words (length d);
          words = (replicate count 0)[0 := STORE_RECORD_MARK OR of_nat type, 1 := of_nat (length d)];
          words = fold (\<lambda>i ws. ws[2 + i div 2 := ws ! (2 + i div 2) OR push_bit (i mod 2 * 8) (ucast (d ! i))])
                    [0..<length d] words
      in words[count - 1 := foldl crc_word SML_CRC_INIT (take (count - 1) words)])"

text \<open>Copying the latest record of each other type, from the first to the last; on failure the
  result and the state so far.\<close>

fun copy_records :: "nat list \<Rightarrow> nat \<Rightarrow> nat \<Rightarrow> nat \<Rightarrow> nat list \<Rightarrow> Store
    \<Rightarrow> StoreResult \<times> nat list \<times> nat \<times> Store" where
  "copy_records [] type target w new_word s = (STORE_OK, new_word, w, s)"
| "copy_records (i # is) type target w new_word s =
     (if i = type \<or> record_word s ! i = 0 then copy_records is type target w new_word s
      else let count = record_words (record_length s ! i);
               words = map (\<lambda>k. read_word (page s) (record_word s ! i + k) (flash s)) [0..<count];
               (r, s1) = write_words target w words s
      in if r \<noteq> STORE_OK then (r, new_word, w, s1)
         else copy_records is type target (w + count) (new_word[i := w]) s1)"

definition header_words :: "u16 \<Rightarrow> u16 list" where
  "header_words g =
     [STORE_MAGIC, STORE_FORMAT, g, crc_word (crc_word (crc_word SML_CRC_INIT STORE_MAGIC) STORE_FORMAT) g]"

definition change_page :: "nat \<Rightarrow> u8 list \<Rightarrow> Store \<Rightarrow> StoreResult \<times> Store" where
  "change_page type d s0 =
     (let target = (if active s0 then 1 - page s0 else 0);
          g = (if active s0 then generation s0 + 1 else 1);
          (fr, f) = flash_erase_page (word_address target 0) (flash s0);
          s = s0\<lparr>flash := f, last_flash := fr\<rparr>
      in if fr \<noteq> FLASH_OK then (STORE_FLASH_FAILED, s)
         else if \<not> blank target 0 FLASH_PAGE_WORDS (flash s) then (STORE_VERIFY, s)
         else let (r, new_word, w, s1) =
                copy_records [1..<STORE_TYPES] type target STORE_HEADER_WORDS (replicate STORE_TYPES 0) s
         in if r \<noteq> STORE_OK then (r, s1)
            else let words = build_record type d; (r2, s2) = write_words target w words s1
            in if r2 \<noteq> STORE_OK then (r2, s2)
               else let (r3, s3) = write_words target 0 (header_words g) s2
               in if r3 \<noteq> STORE_OK then (r3, s3)
                  else (STORE_OK, s3\<lparr>record_word := new_word[type := w],
                          record_length := (record_length s3)[type := length d], active := True, page := target,
                          generation := g, used_words := w + length words, full := False,
                          page_changes := page_changes s3 + 1\<rparr>))"

definition store_write_erases :: "nat \<Rightarrow> Store \<Rightarrow> bool" where
  "store_write_erases n s \<longleftrightarrow> \<not> active s \<or> full s \<or> used_words s + record_words n > FLASH_PAGE_WORDS"

definition try_append :: "nat \<Rightarrow> u8 list \<Rightarrow> Store \<Rightarrow> bool \<times> Store" where
  "try_append type d s =
     (let words = build_record type d; count = length words
      in if blank (page s) (used_words s) count (flash s) then
           let (r, s1) = write_words (page s) (used_words s) words s
           in if r = STORE_OK
              then (True, s1\<lparr>record_word := (record_word s1)[type := used_words s1],
                            record_length := (record_length s1)[type := length d],
                            used_words := used_words s1 + count, appends := appends s1 + 1,
                            last_result := STORE_OK\<rparr>)
              else (False, s1\<lparr>store_failures := store_failures s1 + 1\<rparr>)
         else (False, s))"

definition store_write :: "nat \<Rightarrow> u8 list \<Rightarrow> Store \<Rightarrow> StoreResult \<times> Store" where
  "store_write type d s =
     (if type = 0 \<or> type \<ge> STORE_TYPES \<or> length d > STORE_RECORD_MAX_BYTES
      then (STORE_BAD_ARGUMENT, s\<lparr>last_result := STORE_BAD_ARGUMENT\<rparr>)
      else let (appended, s1) = (if store_write_erases (length d) s then (False, s)
                                 else let (a, t) = try_append type d s in (a, if a then t else t\<lparr>full := True\<rparr>))
      in if appended then (STORE_OK, s1)
         else let (r, s2) = change_page type d s1;
                  s3 = (if r \<noteq> STORE_OK then s2\<lparr>store_failures := store_failures s2 + 1\<rparr> else s2)
              in (r, s3\<lparr>last_result := r\<rparr>))"

end
