(* ===== verification/Journal.thy ===== *)
theory Journal
  imports Store
begin

text \<open>
  What the settings store promises: a page holds a journal, a list of records each whole or cut
  short, and the latest whole record of each type is what is stored. The store's operations
  keep the journal; a write that succeeds stores its data and nothing else changes, and one
  that fails, or that a reset cuts off at any operation of the flash, leaves what was stored.
\<close>

section \<open>Records as words\<close>

lemmas store_ids = STORE_HEADER_WORDS_def STORE_RECORD_MAX_BYTES_def STORE_TYPES_def FLASH_PAGE_WORDS_def

definition crc_words :: "u16 list \<Rightarrow> u16" where
  "crc_words ws = foldl crc_word SML_CRC_INIT ws"

definition rec_type :: "u16 list \<Rightarrow> nat" where "rec_type e = unat (ucast (e ! 0) :: u8)"
definition rec_length :: "u16 list \<Rightarrow> nat" where "rec_length e = unat (e ! 1)"
definition rec_intact :: "u16 list \<Rightarrow> bool" where
  "rec_intact e \<longleftrightarrow> e ! (length e - 1) = crc_words (take (length e - 1) e)"
definition rec_data :: "u16 list \<Rightarrow> u8 list" where
  "rec_data e = map (\<lambda>i. let v = e ! (2 + i div 2) in ucast (if even i then v else drop_bit 8 v)) [0..<rec_length e]"

definition is_rec :: "u16 list \<Rightarrow> bool" where
  "is_rec e \<longleftrightarrow> (e ! 0 AND 0xFF00) = STORE_RECORD_MARK \<and> rec_type e \<noteq> 0 \<and> rec_type e \<noteq> 0xFF
     \<and> rec_length e \<le> STORE_RECORD_MAX_BYTES \<and> length e = record_words (rec_length e)"

lemma record_words_bounds: "4 \<le> record_words n" "even (record_words n)" "n \<le> 128 \<Longrightarrow> record_words n \<le> 68"
  "2 + (n + 1) div 2 < record_words n"
  by (auto simp: record_words_def Let_def)

lemma rec_bounds: "is_rec e \<Longrightarrow> 4 \<le> length e \<and> even (length e) \<and> length e \<le> 68"
  using record_words_bounds [of "rec_length e"] by (auto simp: is_rec_def store_ids)

text \<open>A page from a position on.\<close>

definition holds :: "nat \<Rightarrow> nat \<Rightarrow> u16 list \<Rightarrow> Flash \<Rightarrow> bool" where
  "holds p w ws f \<longleftrightarrow> (\<forall>i<length ws. read_word p (w + i) f = ws ! i)"

lemma holds_append: "holds p w (a @ b) f \<longleftrightarrow> holds p w a f \<and> holds p (w + length a) b f"
proof
  assume h: "holds p w (a @ b) f"
  show "holds p w a f \<and> holds p (w + length a) b f"
  proof (intro conjI; unfold holds_def; intro allI impI)
    fix i assume "i < length a"
    then show "read_word p (w + i) f = a ! i" using h by (auto simp: holds_def nth_append dest: spec [of _ i])
  next
    fix i assume "i < length b"
    then show "read_word p (w + length a + i) f = b ! i"
      using h by (auto simp: holds_def nth_append add.assoc dest: spec [of _ "length a + i"])
  qed
next
  assume h: "holds p w a f \<and> holds p (w + length a) b f"
  show "holds p w (a @ b) f"
    unfolding holds_def
  proof (intro allI impI)
    fix i assume i: "i < length (a @ b)"
    show "read_word p (w + i) f = (a @ b) ! i"
    proof (cases "i < length a")
      case False
      then have "read_word p (w + length a + (i - length a)) f = b ! (i - length a)"
        using h i unfolding holds_def by (metis add_less_imp_less_left length_append le_add_diff_inverse not_le)
      then show ?thesis using False by (simp add: nth_append)
    qed (use h in \<open>simp add: holds_def nth_append\<close>)
  qed
qed

lemma holds_map: "holds p w ws f \<Longrightarrow> map (\<lambda>i. read_word p (w + i) f) [0..<length ws] = ws"
  by (rule nth_equalityI) (auto simp: holds_def)

lemma holds_take: "holds p w ws f \<Longrightarrow> n \<le> length ws \<Longrightarrow> map (\<lambda>i. read_word p (w + i) f) [0..<n] = take n ws"
  by (rule nth_equalityI) (auto simp: holds_def)

lemma check_record_holds:
  assumes "is_rec e" "holds p w e f" "w + length e \<le> FLASH_PAGE_WORDS"
  shows "check_record p w f = (length e, rec_type e, rec_length e, rec_intact e)"
proof -
  have l: "4 \<le> length e" using rec_bounds [OF assms(1)] by simp
  have h: "i < length e \<Longrightarrow> read_word p (w + i) f = e ! i" for i using assms(2) by (simp add: holds_def)
  have b: "0 < length e" "1 < length e" "length e - 1 < length e" "w + (length e - 1) = w + length e - 1"
    using l by linarith+
  have r0: "read_word p w f = e ! 0" using h [OF b(1)] by simp
  have r1: "read_word p (w + 1) f = e ! 1" by (rule h [OF b(2)])
  have r2: "read_word p (w + length e - 1) f = e ! (length e - 1)" using h [OF b(3)] by (simp only: b(4))
  have n: "unat (e ! 1) = rec_length e" "unat (ucast (e ! 0) :: u8) = rec_type e" "record_words (rec_length e) = length e"
    using assms(1) by (simp_all add: rec_length_def rec_type_def is_rec_def)
  have g: "\<not> (e ! 0 AND 0xFF00 \<noteq> STORE_RECORD_MARK \<or> rec_type e = 0 \<or> rec_type e = 0xFF \<or> rec_length e > STORE_RECORD_MAX_BYTES)"
    "\<not> w + length e > FLASH_PAGE_WORDS" using assms(1,3) by (simp_all add: is_rec_def)
  show ?thesis
    unfolding check_record_def Let_def r0 r1 n if_not_P [OF g(1)] if_not_P [OF g(2)] r2
      holds_take [OF assms(2) less_imp_le [OF b(3)]] rec_intact_def crc_words_def
    by (rule refl)
qed

section \<open>Building a record\<close>

lemma bytes_of_word:
  fixes a b :: u8
  shows "(ucast ((ucast a :: u16) OR push_bit 8 (ucast b)) :: u8) = a"
    "(ucast (drop_bit 8 ((ucast a :: u16) OR push_bit 8 (ucast b))) :: u8) = b"
  by (rule bit_word_eqI, auto simp: bit_simps dest: bit_imp_le_length)+

definition byte_or_zero :: "u8 list \<Rightarrow> nat \<Rightarrow> u16" where
  "byte_or_zero d i = (if i < length d then ucast (d ! i) else 0)"

lemma fill_words:
  assumes "n \<le> length d" "2 + (length d + 1) div 2 \<le> length ws" "\<forall>j. 2 + j < length ws \<longrightarrow> ws ! (2 + j) = 0"
  defines "r \<equiv> fold (\<lambda>i ws. ws[2 + i div 2 := ws ! (2 + i div 2) OR push_bit (i mod 2 * 8) (ucast (d ! i))]) [0..<n] ws"
  shows "length r = length ws" "j < 2 \<Longrightarrow> r ! j = ws ! j"
    "2 + j < length ws \<Longrightarrow> r ! (2 + j) = byte_or_zero (take n d) (2 * j) OR push_bit 8 (byte_or_zero (take n d) (2 * j + 1))"
proof -
  let ?f = "\<lambda>i ws. ws[2 + i div 2 := ws ! (2 + i div 2) OR push_bit (i mod 2 * 8) (ucast (d ! i) :: u16)]"
  have "length (fold ?f [0..<n] ws) = length ws \<and> (\<forall>j<2. fold ?f [0..<n] ws ! j = ws ! j) \<and>
    (\<forall>j. 2 + j < length ws \<longrightarrow> fold ?f [0..<n] ws ! (2 + j)
      = byte_or_zero (take n d) (2 * j) OR push_bit 8 (byte_or_zero (take n d) (2 * j + 1)))"
    using assms(1)
  proof (induction n)
    case 0
    then show ?case using assms(3) by (simp add: byte_or_zero_def)
  next
    case (Suc n)
    define R where "R = fold ?f [0..<n] ws"
    have IH: "length R = length ws" "\<And>j. j < 2 \<Longrightarrow> R ! j = ws ! j"
      "\<And>j. 2 + j < length ws \<Longrightarrow> R ! (2 + j) = byte_or_zero (take n d) (2 * j) OR push_bit 8 (byte_or_zero (take n d) (2 * j + 1))"
      using Suc by (auto simp: R_def)
    have e: "fold ?f [0..<Suc n] ws = ?f n R" by (simp add: R_def)
    have n: "n < length d" "2 + n div 2 < length ws" using Suc.prems assms(2) by auto
    have "?f n R ! (2 + j) = byte_or_zero (take (Suc n) d) (2 * j) OR push_bit 8 (byte_or_zero (take (Suc n) d) (2 * j + 1))"
      if j: "2 + j < length ws" for j
    proof (cases "j = n div 2")
      case True
      show ?thesis
      proof (cases "even n")
        case True
        then have "n = 2 * j" using \<open>j = n div 2\<close> by simp
        then show ?thesis using IH(1,3) j n(1) by (simp add: byte_or_zero_def nth_take)
      next
        case False
        then have "n = 2 * j + 1" using \<open>j = n div 2\<close> by presburger
        then show ?thesis using IH(1,3) j n(1) by (simp add: byte_or_zero_def nth_take)
      qed
    next
      case False
      then have "2 * j \<noteq> n" "2 * j + 1 \<noteq> n" by auto
      then have "2 * j < Suc n \<longleftrightarrow> 2 * j < n" "2 * j + 1 < Suc n \<longleftrightarrow> 2 * j + 1 < n" by auto
      then show ?thesis using IH(1,3) j False n(1) by (simp add: byte_or_zero_def nth_take)
    qed
    then show ?case unfolding e using IH(1,2) by simp
  qed
  then show "length r = length ws" "j < 2 \<Longrightarrow> r ! j = ws ! j"
    "2 + j < length ws \<Longrightarrow> r ! (2 + j) = byte_or_zero (take n d) (2 * j) OR push_bit 8 (byte_or_zero (take n d) (2 * j + 1))"
    by (auto simp: r_def)
qed

lemma mark_or:
  "0 < t \<Longrightarrow> t < STORE_TYPES \<Longrightarrow> (STORE_RECORD_MARK OR of_nat t) AND 0xFF00 = STORE_RECORD_MARK
    \<and> unat (ucast (STORE_RECORD_MARK OR (of_nat t :: u16)) :: u8) = t"
proof -
  assume "0 < t" "t < STORE_TYPES"
  then have "t = 1 \<or> t = 2 \<or> t = 3 \<or> t = 4" by (auto simp: store_ids)
  then show ?thesis by (elim disjE) (simp_all add: STORE_RECORD_MARK_def)
qed

lemma build_record_words:
  fixes d :: "u8 list" and t :: nat
  defines "c \<equiv> record_words (length d)" and "e \<equiv> build_record t d"
  shows "length e = c" "e ! 0 = STORE_RECORD_MARK OR of_nat t" "e ! 1 = of_nat (length d)"
    "e ! (c - 1) = crc_words (take (c - 1) e)"
    "2 + j < c - 1 \<Longrightarrow> e ! (2 + j) = byte_or_zero d (2 * j) OR push_bit 8 (byte_or_zero d (2 * j + 1))"
proof -
  let ?f = "\<lambda>i ws. ws[2 + i div 2 := ws ! (2 + i div 2) OR push_bit (i mod 2 * 8) (ucast (d ! i) :: u16)]"
  define w0 where "w0 = (replicate c (0 :: u16))[0 := STORE_RECORD_MARK OR of_nat t, 1 := of_nat (length d)]"
  define w where "w = fold ?f [0..<length d] w0"
  have c: "4 \<le> c" "2 + (length d + 1) div 2 < c" using record_words_bounds by (simp_all add: c_def)
  have l0: "length w0 = c" by (simp add: w0_def)
  have z: "\<forall>j. 2 + j < length w0 \<longrightarrow> w0 ! (2 + j) = 0" by (simp add: w0_def)
  have B: "e = w[c - 1 := crc_words (take (c - 1) w)]"
    unfolding e_def build_record_def Let_def c_def [symmetric] w0_def [symmetric] w_def [symmetric] crc_words_def
    by (rule refl)
  have fw: "length w = c" "\<And>j. j < 2 \<Longrightarrow> w ! j = w0 ! j"
    "\<And>j. 2 + j < c \<Longrightarrow> w ! (2 + j) = byte_or_zero d (2 * j) OR push_bit 8 (byte_or_zero d (2 * j + 1))"
    using fill_words [of "length d" d w0] c(2) z l0 by (simp_all add: w_def)
  show "length e = c" by (simp add: B fw)
  have tk: "take (c - 1) e = take (c - 1) w" by (simp add: B)
  show "e ! 0 = STORE_RECORD_MARK OR of_nat t" "e ! 1 = of_nat (length d)"
    using c fw(2) [of 0] fw(2) [of 1] by (simp_all add: B w0_def nth_list_update)
  show "e ! (c - 1) = crc_words (take (c - 1) e)" using c by (simp add: tk) (simp add: B fw)
  show "2 + j < c - 1 \<Longrightarrow> e ! (2 + j) = byte_or_zero d (2 * j) OR push_bit 8 (byte_or_zero d (2 * j + 1))"
    using fw(3) [of j] by (simp add: B)
qed

lemma byte_or_zero_cast: "\<exists>h :: u8. byte_or_zero d i = ucast h"
  by (metis byte_or_zero_def unsigned_0)

lemma word_bytes:
  assumes "v = byte_or_zero d (2 * (i div 2)) OR push_bit 8 (byte_or_zero d (2 * (i div 2) + 1))" "i < length d"
  shows "ucast (if even i then v else drop_bit 8 v) = d ! i"
proof -
  obtain a b :: u8 where ab: "byte_or_zero d (2 * (i div 2)) = ucast a" "byte_or_zero d (2 * (i div 2) + 1) = ucast b"
    using byte_or_zero_cast by meson
  have inj: "x = y" if "ucast x = (ucast y :: u16)" for x y :: u8
    using arg_cong [OF that, of unat] by (simp add: width_simps word_unat_eq_iff)
  show ?thesis
  proof (cases "even i")
    case True
    then have "ucast a = (ucast (d ! i) :: u16)" using ab(1) assms(2) by (simp add: byte_or_zero_def)
    then show ?thesis unfolding assms(1) ab if_P [OF True] bytes_of_word by (rule inj)
  next
    case False
    then have "ucast b = (ucast (d ! i) :: u16)" using ab(2) assms(2) by (simp add: byte_or_zero_def)
    then show ?thesis unfolding assms(1) ab if_not_P [OF False] bytes_of_word by (rule inj)
  qed
qed

lemma build_record_rec:
  assumes "0 < t" "t < STORE_TYPES" "length d \<le> STORE_RECORD_MAX_BYTES"
  shows "is_rec (build_record t d)" "rec_type (build_record t d) = t" "rec_intact (build_record t d)"
    "rec_data (build_record t d) = d" "length (build_record t d) = record_words (length d)"
proof -
  note B = build_record_words [where t = t and d = d]
  have n: "unat (of_nat (length d) :: u16) = length d"
    using assms(3) by (simp add: store_ids unat_of_nat)
  show "rec_type (build_record t d) = t" "length (build_record t d) = record_words (length d)"
    using mark_or [OF assms(1,2)] B(1,2) by (simp_all add: rec_type_def)
  have r: "rec_length (build_record t d) = length d" unfolding rec_length_def B(3) by (rule n)
  show "is_rec (build_record t d)"
    using mark_or [OF assms(1,2)] assms B(1,2) r by (simp add: is_rec_def rec_type_def store_ids)
  show "rec_intact (build_record t d)" using B(1,4) by (simp add: rec_intact_def)
  have b: "(let v = build_record t d ! (2 + i div 2) in ucast (if even i then v else drop_bit 8 v)) = d ! i"
    if i: "i < length d" for i
  proof -
    have "build_record t d ! (2 + i div 2) = byte_or_zero d (2 * (i div 2)) OR push_bit 8 (byte_or_zero d (2 * (i div 2) + 1))"
      using i record_words_bounds(4) [of "length d"] by (intro B(5)) linarith
    from word_bytes [OF this i] show ?thesis unfolding Let_def .
  qed
  have "rec_data (build_record t d) = map ((!) d) [0..<length d]"
    unfolding rec_data_def r by (rule map_cong [OF refl], rule b) simp
  then show "rec_data (build_record t d) = d" by (simp only: map_nth)
qed

section \<open>Reading a page\<close>

text \<open>What scanning one record does to the tables, and scanning them all.\<close>

definition note_rec :: "nat \<Rightarrow> u16 list \<Rightarrow> Store \<Rightarrow> Store" where
  "note_rec w e s =
     (if \<not> rec_intact e then s\<lparr>torn := torn s + 1\<rparr>
      else if rec_type e < STORE_TYPES
      then s\<lparr>record_word := (record_word s)[rec_type e := w], record_length := (record_length s)[rec_type e := rec_length e]\<rparr>
      else s)"

fun scan_recs :: "u16 list list \<Rightarrow> nat \<Rightarrow> Store \<Rightarrow> Store" where
  "scan_recs [] w s = s\<lparr>used_words := w\<rparr>"
| "scan_recs (e # es) w s = scan_recs es (w + length e) (note_rec w e s)"

lemma note_rec_frame [frame_simps]:
  "flash (note_rec w e s) = flash s" "page (note_rec w e s) = page s" "active (note_rec w e s) = active s"
  "generation (note_rec w e s) = generation s" "full (note_rec w e s) = full s"
  "length (record_word (note_rec w e s)) = length (record_word s)"
  "length (record_length (note_rec w e s)) = length (record_length s)"
  by (simp_all add: note_rec_def)

lemma mark_not_erased: "is_rec e \<Longrightarrow> e ! 0 \<noteq> ERASED"
  by (auto simp: is_rec_def ERASED_def STORE_RECORD_MARK_def)

lemma scan_loop_recs:
  assumes "\<forall>e\<in>set es. is_rec e" "even w" "holds (page s) w (concat es @ replicate k ERASED) (flash s)"
    "w + length (concat es) + k = FLASH_PAGE_WORDS"
  shows "scan_loop w s = scan_recs es w s"
  using assms
proof (induction es arbitrary: w s)
  case Nil
  show ?case
  proof (cases "w + 2 \<le> FLASH_PAGE_WORDS")
    case True
    then have "read_word (page s) w (flash s) = ERASED" "read_word (page s) (w + 1) (flash s) = ERASED"
      using Nil.prems(3,4) by (auto simp: holds_def dest: spec [of _ 0] spec [of _ 1])
    then show ?thesis by (subst scan_loop.simps) simp
  qed (subst scan_loop.simps, simp)
next
  case (Cons e es)
  have r: "is_rec e" using Cons.prems(1) by simp
  note l = rec_bounds [OF r]
  have h: "holds (page s) w e (flash s)" "holds (page s) (w + length e) (concat es @ replicate k ERASED) (flash s)"
    using Cons.prems(3) by (simp_all add: holds_append add.assoc)
  have fits: "w + length e \<le> FLASH_PAGE_WORDS" using Cons.prems(4) by simp
  have e0: "read_word (page s) w (flash s) \<noteq> ERASED"
    using h(1) l mark_not_erased [OF r] by (auto simp: holds_def dest: spec [of _ 0])
  have n: "\<not> (length e = 0)" "w + 2 \<le> FLASH_PAGE_WORDS" using l fits by auto
  have "scan_loop w s = scan_loop (w + length e) (note_rec w e s)"
    by (subst scan_loop.simps) (use e0 n in \<open>simp add: check_record_holds [OF r h(1) fits] note_rec_def\<close>)
  also have "\<dots> = scan_recs es (w + length e) (note_rec w e s)"
    using Cons.prems l h(2) by (intro Cons.IH) (simp_all add: frame_simps add.assoc)
  finally show ?case by simp
qed

text \<open>The latest whole record of a type and where it starts.\<close>

fun latest :: "u16 list list \<Rightarrow> nat \<Rightarrow> nat \<Rightarrow> (nat \<times> u16 list) option" where
  "latest [] w t = None"
| "latest (e # es) w t =
     (case latest es (w + length e) t of Some x \<Rightarrow> Some x
      | None \<Rightarrow> if rec_intact e \<and> rec_type e = t then Some (w, e) else None)"

lemma latest_append:
  "latest (es @ [e]) w t =
     (if rec_intact e \<and> rec_type e = t then Some (w + length (concat es), e) else latest es w t)"
  by (induction es arbitrary: w) (auto split: option.splits)

lemma latest_holds:
  "latest es w t = Some (v, e) \<Longrightarrow> holds p w (concat es) f \<Longrightarrow> \<forall>e\<in>set es. is_rec e \<Longrightarrow>
   holds p v e f \<and> is_rec e \<and> rec_intact e \<and> rec_type e = t \<and> w \<le> v \<and> v + length e \<le> w + length (concat es)"
proof (induction es arbitrary: w)
  case (Cons a es)
  then have h: "holds p w a f" "holds p (w + length a) (concat es) f" by (simp_all add: holds_append)
  show ?case
  proof (cases "latest es (w + length a) t")
    case None
    then have "rec_intact a \<and> rec_type a = t" "v = w" "e = a" using Cons.prems(1) by (auto split: if_splits)
    then show ?thesis using h(1) Cons.prems(3) by simp
  next
    case (Some x)
    then have "latest es (w + length a) t = Some (v, e)" using Cons.prems(1) by simp
    then show ?thesis using Cons.IH [OF _ h(2)] Cons.prems(3) by auto
  qed
qed simp

definition tables_ok :: "Store \<Rightarrow> u16 list list \<Rightarrow> bool" where
  "tables_ok s es \<longleftrightarrow> length (record_word s) = STORE_TYPES \<and> length (record_length s) = STORE_TYPES \<and>
     (\<forall>t<STORE_TYPES. case latest es STORE_HEADER_WORDS t of None \<Rightarrow> record_word s ! t = 0
        | Some (w, e) \<Rightarrow> record_word s ! t = w \<and> record_length s ! t = rec_length e)"

lemma scan_recs_tables:
  assumes "length (record_word s) = STORE_TYPES" "length (record_length s) = STORE_TYPES" "t < STORE_TYPES"
  shows "case latest es w t of
      None \<Rightarrow> record_word (scan_recs es w s) ! t = record_word s ! t \<and> record_length (scan_recs es w s) ! t = record_length s ! t
    | Some (v, e) \<Rightarrow> record_word (scan_recs es w s) ! t = v \<and> record_length (scan_recs es w s) ! t = rec_length e"
  using assms(1,2)
proof (induction es arbitrary: w s)
  case (Cons e es)
  have "length (record_word (note_rec w e s)) = STORE_TYPES" "length (record_length (note_rec w e s)) = STORE_TYPES"
    using Cons.prems by (simp_all add: frame_simps)
  from Cons.IH [OF this, of "w + length e"] show ?case
    using Cons.prems assms(3) by (auto simp: note_rec_def nth_list_update split: option.splits prod.splits if_splits)
qed simp

lemma scan_recs_frame [frame_simps]:
  "flash (scan_recs es w s) = flash s" "page (scan_recs es w s) = page s" "active (scan_recs es w s) = active s"
  "generation (scan_recs es w s) = generation s" "full (scan_recs es w s) = full s"
  "length (record_word (scan_recs es w s)) = length (record_word s)"
  "length (record_length (scan_recs es w s)) = length (record_length s)"
  "used_words (scan_recs es w s) = w + length (concat es)"
  by (induction es arbitrary: w s) (simp_all add: frame_simps)

section \<open>The journal in the flash\<close>

definition page_words :: "u16 \<Rightarrow> u16 list list \<Rightarrow> u16 list" where
  "page_words g es = header_words g @ concat es @ replicate (FLASH_PAGE_WORDS - STORE_HEADER_WORDS - length (concat es)) ERASED"

definition journal :: "Flash \<Rightarrow> nat \<Rightarrow> u16 \<Rightarrow> u16 list list \<Rightarrow> bool" where
  "journal f p g es \<longleftrightarrow> p < 2 \<and> (\<forall>e\<in>set es. is_rec e) \<and>
     STORE_HEADER_WORDS + length (concat es) \<le> FLASH_PAGE_WORDS \<and> holds p 0 (page_words g es) f"

text \<open>The other page is not in use: its header is not valid, or it loses by generation.\<close>

definition outlived :: "Flash \<Rightarrow> nat \<Rightarrow> u16 \<Rightarrow> bool" where
  "outlived f p g \<longleftrightarrow>
     (let (valid, g') = header_valid (1 - p) f
      in \<not> valid \<or> (if p = 0 then sint (g - g') \<ge> 0 else sint (g' - g) < 0))"

text \<open>What is in the flash: nothing yet, or the page in use, its generation and its records.\<close>

type_synonym journal_state = "(nat \<times> u16 \<times> u16 list list) option"

definition flash_ok :: "Flash \<Rightarrow> journal_state \<Rightarrow> bool" where
  "flash_ok f J \<longleftrightarrow>
     (case J of None \<Rightarrow> \<not> fst (header_valid 0 f) \<and> \<not> fst (header_valid 1 f)
      | Some (p, g, es) \<Rightarrow> journal f p g es \<and> outlived f p g)"

definition recorded :: "journal_state \<Rightarrow> nat \<Rightarrow> u8 list option" where
  "recorded J t = (case J of None \<Rightarrow> None
     | Some (p, g, es) \<Rightarrow> map_option (\<lambda>(w, e). rec_data e) (latest es STORE_HEADER_WORDS t))"

definition store_ok :: "Store \<Rightarrow> journal_state \<Rightarrow> bool" where
  "store_ok s J \<longleftrightarrow> flash_ok (flash s) J \<and>
     (case J of None \<Rightarrow> \<not> active s \<and> record_word s = replicate STORE_TYPES 0 \<and> length (record_length s) = STORE_TYPES
      | Some (p, g, es) \<Rightarrow> active s \<and> page s = p \<and> generation s = g \<and> tables_ok s es \<and>
          (\<not> full s \<longrightarrow> used_words s = STORE_HEADER_WORDS + length (concat es)))"

lemma length_header [simp]: "length (header_words g) = 4"
  by (simp add: header_words_def)

lemma header_valid_holds: "holds p 0 (header_words g) f \<Longrightarrow> header_valid p f = (True, g)"
proof -
  assume h: "holds p 0 (header_words g) f"
  have "map (\<lambda>i. read_word p i f) [0..<STORE_HEADER_WORDS] = header_words g"
    using holds_map [OF h] by (simp add: store_ids)
  then show ?thesis by (simp add: header_valid_def Let_def store_ids) (simp add: header_words_def)
qed

lemma header_erased: "(\<forall>i<4. read_word p i f = ERASED) \<Longrightarrow> \<not> fst (header_valid p f)"
  by (simp add: header_valid_def Let_def store_ids upt_rec ERASED_def STORE_MAGIC_def)

lemma header_words_same: "(\<forall>i<4. read_word p i f' = read_word p i f) \<Longrightarrow> header_valid p f' = header_valid p f"
proof -
  assume "\<forall>i<4. read_word p i f' = read_word p i f"
  then have "map (\<lambda>i. read_word p i f') [0..<4] = map (\<lambda>i. read_word p i f) [0..<4]" by simp
  then show ?thesis by (simp only: header_valid_def store_ids)
qed

lemma journal_parts:
  assumes "journal f p g es"
  shows "header_valid p f = (True, g)"
    "holds p STORE_HEADER_WORDS (concat es @ replicate (FLASH_PAGE_WORDS - STORE_HEADER_WORDS - length (concat es)) ERASED) f"
  using assms by (auto simp: journal_def page_words_def holds_append store_ids intro: header_valid_holds)

lemma store_init_ok:
  assumes "flash_ok f J"
  shows "store_ok (store_init f) J \<and> flash (store_init f) = f"
proof (cases J)
  case None
  then show ?thesis
    using assms by (auto simp: flash_ok_def store_ok_def store_init_def Let_def split: prod.splits)
next
  case (Some x)
  obtain p g es where J: "J = Some (p, g, es)" using Some by (cases x) auto
  have j: "journal f p g es" "outlived f p g" using assms by (simp_all add: flash_ok_def J)
  note h = journal_parts [OF j(1)]
  obtain v0 g0 v1 g1 where hv: "header_valid 0 f = (v0, g0)" "header_valid 1 f = (v1, g1)" by (meson surj_pair)
  define s0 where "s0 = \<lparr>flash = f, active = False, page = 0, generation = 0, used_words = 0, full = False, torn = 0,
               unreadable = False, appends = 0, page_changes = 0, store_failures = 0, last_result = STORE_OK,
               last_flash = FLASH_OK, record_word = replicate STORE_TYPES 0,
               record_length = replicate STORE_TYPES 0\<rparr>"
  define s1 where "s1 = s0\<lparr>page := p, generation := g, active := True\<rparr>"
  have p: "p = 0 \<or> p = 1" using j(1) by (auto simp: journal_def)
  have I: "store_init f = store_scan s1"
  proof (cases "p = 0")
    case True
    then have "v0" "g0 = g" "v1 \<longrightarrow> 0 \<le> sint (g0 - g1)"
      using h(1) hv j(2) by (auto simp: outlived_def)
    then show ?thesis using True unfolding store_init_def Let_def hv prod.case s0_def [symmetric] s1_def by auto
  next
    case False
    then have "p = 1" "v1" "g1 = g" "v0 \<longrightarrow> sint (g0 - g1) < 0"
      using p h(1) hv j(2) by (auto simp: outlived_def)
    then show ?thesis unfolding store_init_def Let_def hv prod.case s0_def [symmetric] s1_def by auto
  qed
  define s2 where "s2 = s1\<lparr>record_word := replicate STORE_TYPES 0, record_length := replicate STORE_TYPES 0, full := False\<rparr>"
  have s2: "flash s2 = f" "page s2 = p" "active s2" "generation s2 = g" "\<not> full s2"
    "record_word s2 = replicate STORE_TYPES 0" "record_length s2 = replicate STORE_TYPES 0"
    by (simp_all add: s2_def s1_def s0_def)
  have "store_scan s1 = scan_loop STORE_HEADER_WORDS s2" by (simp add: store_scan_def s2_def)
  also have "\<dots> = scan_recs es STORE_HEADER_WORDS s2"
    using j(1) h(2) by (intro scan_loop_recs) (auto simp: s2 journal_def store_ids)
  finally have S: "store_init f = scan_recs es STORE_HEADER_WORDS s2" using I by simp
  have "tables_ok (store_init f) es"
    using scan_recs_tables [of s2 _ es STORE_HEADER_WORDS]
    by (fastforce simp: tables_ok_def S frame_simps s2 split: option.splits)
  then show ?thesis using assms by (simp add: store_ok_def J S frame_simps s2)
qed

lemma store_read_recorded:
  assumes "store_ok s J" "0 < t" "t < STORE_TYPES"
  shows "store_read t n s = (case recorded J t of Some d \<Rightarrow> if length d \<le> n then Some d else None | None \<Rightarrow> None)"
proof (cases J)
  case None
  then show ?thesis using assms by (simp add: store_ok_def store_read_def recorded_def)
next
  case (Some x)
  obtain p g es where J: "J = Some (p, g, es)" using Some by (cases x) auto
  have s: "active s" "page s = p" "journal (flash s) p g es" "tables_ok s es"
    using assms(1) by (simp_all add: store_ok_def flash_ok_def J)
  show ?thesis
  proof (cases "latest es STORE_HEADER_WORDS t")
    case None
    then have "record_word s ! t = 0" using s(4) assms(3) by (fastforce simp: tables_ok_def)
    then show ?thesis by (simp add: store_read_def recorded_def J None)
  next
    case (Some y)
    obtain w e where we: "latest es STORE_HEADER_WORDS t = Some (w, e)" using Some by (cases y) auto
    then have tab: "record_word s ! t = w" "record_length s ! t = rec_length e"
      using s(4) assms(3) by (auto simp: tables_ok_def split: option.splits)
    have "holds p STORE_HEADER_WORDS (concat es) (flash s)" using journal_parts(2) [OF s(3)] by (simp add: holds_append)
    from latest_holds [OF we this] s(3)
    have h: "holds p w e (flash s)" "is_rec e" "4 \<le> w" by (simp_all add: journal_def store_ids)
    have H: "k < length e \<Longrightarrow> read_word p (w + k) (flash s) = e ! k" for k using h(1) by (simp add: holds_def)
    have "read_word p (w + 2 + i div 2) (flash s) = e ! (2 + i div 2)" if "i < rec_length e" for i
    proof -
      have "2 + i div 2 < length e"
        using that h(2) record_words_bounds(4) [of "rec_length e"] by (simp add: is_rec_def)
      from H [OF this] show ?thesis by (simp only: add.assoc)
    qed
    then have M: "map (\<lambda>i. let v = read_word p (w + 2 + i div 2) (flash s) in ucast (if even i then v else drop_bit 8 v))
        [0..<rec_length e] = rec_data e"
      unfolding rec_data_def by (intro map_cong refl) (simp only: Let_def set_upt atLeastLessThan_iff)
    have c: "(\<not> active s \<or> t = 0 \<or> STORE_TYPES \<le> t \<or> record_word s ! t = 0 \<or> n < record_length s ! t) = (n < rec_length e)"
      using assms(2,3) s(1) h(3) tab by auto
    have "store_read t n s = (if n < rec_length e then None else Some (rec_data e))"
      unfolding store_read_def c using M by (simp only: tab s(2) Let_def)
    moreover have "length (rec_data e) = rec_length e" by (simp add: rec_data_def)
    ultimately show ?thesis by (simp add: recorded_def J we)
  qed
qed

section \<open>Writing\<close>

lemma program_erased [simp]: "(65535 :: u16) AND x = x"
proof -
  have "(65535 :: u16) = - 1" by simp
  then show ?thesis by (simp only: and.left_neutral)
qed

lemma write_doubles_result:
  assumes "p < 2" "even w" "even (length ws)" "w + length ws \<le> FLASH_PAGE_WORDS" "reserved (flash s)"
    "\<forall>i<length ws. read_word p (w + i) (flash s) = ERASED" "write_doubles p w ws s = (ok, s')"
  shows "\<exists>k f r. s' = s\<lparr>flash := f, last_flash := r\<rparr> \<and> 2 * k \<le> length ws \<and> (ok \<longleftrightarrow> 2 * k = length ws) \<and>
      (reserved f \<and> (works (flash s) \<longrightarrow> works f \<and> ok)) \<and>
      (\<forall>q<2. \<forall>i<FLASH_PAGE_WORDS. read_word q i f
         = (if q = p \<and> w \<le> i \<and> i < w + 2 * k then ws ! (i - w) else read_word q i (flash s)))"
  using assms
proof (induction p w ws s arbitrary: ok s' rule: write_doubles.induct [case_names Double Done Odd])
  case (Double p w a b ws s)
  obtain r f where d: "flash_write_double_word (word_address p w) a b (flash s) = (r, f)" by fastforce
  define s1 where "s1 = s\<lparr>flash := f, last_flash := r\<rparr>"
  have W: "write_doubles p w (a # b # ws) s = (if r \<noteq> FLASH_OK then (False, s1) else write_doubles p (w + 2) ws s1)"
    by (simp add: d s1_def)
  have pw: "p < 2" "even w" "w + 1 < FLASH_PAGE_WORDS" "reserved (flash s)" using Double.prems by simp_all
  note wr = write_result [OF d pw]
  have er: "read_word p (w + i) (flash s) = ERASED" if "i < length (a # b # ws)" for i using Double.prems(6) that by blast
  show ?case
  proof (cases "r = FLASH_OK")
    case False
    then have ok: "\<not> ok" "s' = s1" using Double.prems(7) W by simp_all
    have "\<forall>q i. read_word q i f = read_word q i (flash s)"
      using wr(3) [OF False] by (simp add: read_word_def flash_read_word_def)
    then have "s' = s\<lparr>flash := f, last_flash := r\<rparr> \<and> 2 * 0 \<le> length (a # b # ws) \<and> (ok \<longleftrightarrow> 2 * 0 = length (a # b # ws)) \<and>
      (reserved f \<and> (works (flash s) \<longrightarrow> works f \<and> ok)) \<and> (\<forall>q<2. \<forall>i<FLASH_PAGE_WORDS. read_word q i f
         = (if q = p \<and> w \<le> i \<and> i < w + 2 * 0 then (a # b # ws) ! (i - w) else read_word q i (flash s)))"
      using wr(1,5) ok False by (auto simp: s1_def works_def)
    then show ?thesis by blast
  next
    case True
    have R: "read_word q i f = (if q = p \<and> i = w then a else if q = p \<and> i = w + 1 then b else read_word q i (flash s))"
      if "q < 2" "i < FLASH_PAGE_WORDS" for q i
      using wr(4) [OF True that] er [of 0] er [of 1] by (simp add: ERASED_def)
    have e': "\<forall>i<length ws. read_word p (w + 2 + i) (flash s1) = ERASED"
    proof (intro allI impI)
      fix i assume i: "i < length ws"
      then have "w + 2 + i < FLASH_PAGE_WORDS" using Double.prems(4) by simp
      then show "read_word p (w + 2 + i) (flash s1) = ERASED"
        using R [OF pw(1), of "w + 2 + i"] er [of "2 + i"] i by (simp add: s1_def add.assoc)
    qed
    have W': "write_doubles p (w + 2) ws s1 = (ok, s')" using Double.prems(7) W True by simp
    have pre: "even (w + 2)" "even (length ws)" "w + 2 + length ws \<le> FLASH_PAGE_WORDS" "reserved (flash s1)"
      using Double.prems(2-4) wr(1) by (simp_all add: s1_def)
    have nf: "\<not> r \<noteq> FLASH_OK" using True by simp
    obtain k f2 r2 where k: "s' = s1\<lparr>flash := f2, last_flash := r2\<rparr>" "2 * k \<le> length ws" "ok \<longleftrightarrow> 2 * k = length ws" "reserved f2 \<and> (works (flash s1) \<longrightarrow> works f2 \<and> ok)"
      "\<forall>q<2. \<forall>i<FLASH_PAGE_WORDS. read_word q i f2
         = (if q = p \<and> w + 2 \<le> i \<and> i < w + 2 + 2 * k then ws ! (i - (w + 2)) else read_word q i (flash s1))"
      using Double.IH [OF refl d [symmetric] s1_def nf pw(1) pre e' W'] by (elim exE conjE) (rule that, assumption, assumption, assumption, rule conjI, assumption+)
    have s': "s' = s\<lparr>flash := f2, last_flash := r2\<rparr>" by (simp add: k(1) s1_def)
    have k4: "reserved f2 \<and> (works (flash s) \<longrightarrow> works f2 \<and> ok)" using k(4) wr(2) by (simp add: s1_def works_def)
    have n: "2 * Suc k \<le> length (a # b # ws)" "ok \<longleftrightarrow> 2 * Suc k = length (a # b # ws)" using k(2,3) by auto
    have "read_word q i f2
         = (if q = p \<and> w \<le> i \<and> i < w + 2 * Suc k then (a # b # ws) ! (i - w) else read_word q i (flash s))"
      if q: "q < 2" and i: "i < FLASH_PAGE_WORDS" for q i
    proof -
      have F: "read_word q i (flash s1) = (if q = p \<and> i = w then a else if q = p \<and> i = w + 1 then b else read_word q i (flash s))"
        using R [OF q i] by (simp add: s1_def)
      have x: "(a # b # ws) ! (i - w) = (if i = w then a else if i = w + 1 then b else ws ! (i - (w + 2)))" if "w \<le> i"
        using that by (auto simp: nth_Cons' diff_diff_add)
      show ?thesis
        unfolding k(5) [rule_format, OF q i] F using x by auto
    qed
    then have "s' = s\<lparr>flash := f2, last_flash := r2\<rparr> \<and> 2 * Suc k \<le> length (a # b # ws) \<and>
      (ok \<longleftrightarrow> 2 * Suc k = length (a # b # ws)) \<and>
      (reserved f2 \<and> (works (flash s) \<longrightarrow> works f2 \<and> ok)) \<and> (\<forall>q<2. \<forall>i<FLASH_PAGE_WORDS. read_word q i f2
         = (if q = p \<and> w \<le> i \<and> i < w + 2 * Suc k then (a # b # ws) ! (i - w) else read_word q i (flash s)))"
      using s' n k4 by blast
    then show ?thesis by blast
  qed
next
  case (Done p w s)
  then have "s' = s\<lparr>flash := flash s, last_flash := last_flash s\<rparr>" "ok" by simp_all
  with Done show ?case by (intro exI [of _ 0] exI [of _ "flash s"] exI [of _ "last_flash s"]) auto
next
  case (Odd p w v s)
  then show ?case by simp
qed

text \<open>Written into erased cells, a whole number of the double words, all of them or a prefix,
  is in the flash and nothing else has changed.\<close>

definition wrote :: "nat \<Rightarrow> nat \<Rightarrow> u16 list \<Rightarrow> Flash \<Rightarrow> Flash \<Rightarrow> bool" where
  "wrote p w ws f f' \<longleftrightarrow> (\<forall>q<2. \<forall>i<FLASH_PAGE_WORDS. read_word q i f'
     = (if q = p \<and> w \<le> i \<and> i < w + length ws then ws ! (i - w) else read_word q i f))"

lemma wrote_holds:
  assumes "wrote p w ws f f'" "p < 2" "w + length ws \<le> FLASH_PAGE_WORDS"
  shows "holds p w ws f'"
  using assms by (auto simp: wrote_def holds_def)

lemma wrote_other:
  assumes "wrote p w ws f f'" "q < 2" "i < FLASH_PAGE_WORDS" "q \<noteq> p \<or> i < w \<or> w + length ws \<le> i"
  shows "read_word q i f' = read_word q i f"
  using assms by (auto simp: wrote_def)

lemma wrote_keeps:
  assumes "wrote p w ws f f'" "q < 2" "v + length vs \<le> FLASH_PAGE_WORDS"
    "q \<noteq> p \<or> v + length vs \<le> w \<or> w + length ws \<le> v" "holds q v vs f"
  shows "holds q v vs f'"
  using assms unfolding holds_def by (auto simp: wrote_other [OF assms(1,2)])

lemma write_words_result:
  assumes "p < 2" "even w" "even (length ws)" "w + length ws \<le> FLASH_PAGE_WORDS" "reserved (flash s)"
    "holds p w (replicate (length ws) ERASED) (flash s)" "write_words p w ws s = (r, s')"
  obtains k f fr where "s' = s\<lparr>flash := f, last_flash := fr\<rparr>" "2 * k \<le> length ws" "r = STORE_OK \<longleftrightarrow> 2 * k = length ws"
    "reserved f \<and> (works (flash s) \<longrightarrow> works f \<and> r = STORE_OK)" "wrote p w (take (2 * k) ws) (flash s) f"
proof -
  obtain ok s1 where d: "write_doubles p w ws s = (ok, s1)" by fastforce
  have e: "\<forall>i<length ws. read_word p (w + i) (flash s) = ERASED" using assms(6) by (simp add: holds_def)
  obtain k f fr where k: "s1 = s\<lparr>flash := f, last_flash := fr\<rparr>" "2 * k \<le> length ws" "ok \<longleftrightarrow> 2 * k = length ws"
      "reserved f \<and> (works (flash s) \<longrightarrow> works f \<and> ok)"
      "\<forall>q<2. \<forall>i<FLASH_PAGE_WORDS. read_word q i f
         = (if q = p \<and> w \<le> i \<and> i < w + 2 * k then ws ! (i - w) else read_word q i (flash s))"
    using write_doubles_result [OF assms(1-5) e d] by (elim exE conjE) (rule that, assumption, assumption, assumption, rule conjI, assumption+)
  have w: "wrote p w (take (2 * k) ws) (flash s) f"
    unfolding wrote_def using k(2,5) by (auto simp: min_def)
  have v: "list_all (\<lambda>i. read_word p (w + i) (flash s1) = ws ! i) [0..<length ws]" if ok
    using k(3,5) that assms(1,4) by (auto simp: list_all_iff k(1))
  have "s' = s1" "r = STORE_OK \<longleftrightarrow> ok"
    using assms(7) v by (auto simp: write_words_def d split: if_splits)
  then show thesis
    by (intro that [OF _ k(2) _ _ w, of fr]) (use k(1,3,4) in simp_all)
qed

lemma holds_erased_sub:
  "holds p w (replicate n ERASED) f \<Longrightarrow> w \<le> v \<Longrightarrow> v + m \<le> w + n \<Longrightarrow> holds p v (replicate m ERASED) f"
proof -
  assume h: "holds p w (replicate n ERASED) f" "w \<le> v" "v + m \<le> w + n"
  have "read_word p (v + i) f = ERASED" if "i < m" for i
  proof -
    have "(v - w) + i < n" "w + ((v - w) + i) = v + i" using that h(2,3) by linarith+
    then show ?thesis using h(1) by (metis holds_def length_replicate nth_replicate)
  qed
  then show ?thesis by (simp add: holds_def)
qed

lemma blank_holds: "blank p w n f \<longleftrightarrow> holds p w (replicate n ERASED) f"
  by (auto simp: blank_def holds_def list_all_iff)

section \<open>Appending\<close>

text \<open>A record cut off after some of its double words; a cut is detected when its CRC fails.\<close>

definition cut :: "nat \<Rightarrow> u16 list \<Rightarrow> u16 list" where
  "cut k e = take (2 * k) e @ replicate (length e - 2 * k) ERASED"

definition cut_detected :: "nat \<Rightarrow> u8 list \<Rightarrow> bool" where
  "cut_detected t d \<longleftrightarrow>
     list_all (\<lambda>k. \<not> rec_intact (cut k (build_record t d))) [1..<length (build_record t d) div 2]"

lemma cut_rec: "is_rec e \<Longrightarrow> 1 \<le> k \<Longrightarrow> 2 * k \<le> length e \<Longrightarrow> is_rec (cut k e) \<and> rec_type (cut k e) = rec_type e \<and> length (cut k e) = length e"
  using rec_bounds [of e] by (auto simp: is_rec_def cut_def rec_type_def rec_length_def nth_append)

lemma journal_same:
  assumes "journal f p g es" "\<And>i. i < FLASH_PAGE_WORDS \<Longrightarrow> read_word p i f' = read_word p i f"
  shows "journal f' p g es"
proof -
  have "length (page_words g es) = FLASH_PAGE_WORDS"
    using assms(1) by (simp add: journal_def page_words_def store_ids)
  then show ?thesis using assms by (simp add: journal_def holds_def)
qed

lemma journal_append:
  assumes j: "journal f p g es" and r: "reserved f" and e: "is_rec e" and fits: "STORE_HEADER_WORDS + length (concat es) + length e \<le> FLASH_PAGE_WORDS"
    and w: "wrote p (STORE_HEADER_WORDS + length (concat es)) e f f'"
  shows "journal f' p g (es @ [e])"
proof -
  define u where "u = STORE_HEADER_WORDS + length (concat es)"
  have p: "p < 2" using j by (simp add: journal_def)
  have h: "holds p 0 (header_words g @ concat es) f" "holds p u (replicate (FLASH_PAGE_WORDS - u) ERASED) f"
    using j by (simp_all add: journal_def page_words_def holds_append u_def store_ids)
  have le: "length (header_words g @ concat es) = u" by (simp add: u_def store_ids)
  have "holds p 0 (header_words g @ concat es) f'"
    using fits le by (intro wrote_keeps [OF w p _ _ h(1)]) (auto simp: u_def [symmetric])
  moreover have "holds p u e f'"
    using wrote_holds [OF w p] fits by (simp add: u_def)
  moreover have "holds p (u + length e) (replicate (FLASH_PAGE_WORDS - (u + length e)) ERASED) f'"
    using fits holds_erased_sub [OF h(2), of "u + length e"]
    by (intro wrote_keeps [OF w p]) (auto simp: u_def [symmetric])
  ultimately have "holds p 0 ((header_words g @ concat es) @ e @ replicate (FLASH_PAGE_WORDS - (u + length e)) ERASED) f'"
    unfolding holds_append le by simp
  moreover have "FLASH_PAGE_WORDS - STORE_HEADER_WORDS - length (concat (es @ [e])) = FLASH_PAGE_WORDS - (u + length e)"
    by (simp add: u_def)
  ultimately have "holds p 0 (page_words g (es @ [e])) f'" by (simp add: page_words_def)
  then show ?thesis using j e fits by (simp add: journal_def)
qed

lemma outlived_wrote:
  assumes "wrote p w ws f f'" "p < 2" "outlived f p g"
  shows "outlived f' p g"
proof -
  have "1 - p \<noteq> p" by (cases p) auto
  then have "header_valid (1 - p) f' = header_valid (1 - p) f"
    using assms(2) by (intro header_words_same) (auto intro!: wrote_other [OF assms(1)] simp: store_ids)
  then show ?thesis using assms(3) by (simp add: outlived_def)
qed

lemma concat_even: "\<forall>e\<in>set es. is_rec e \<Longrightarrow> even (length (concat es))"
  by (induction es) (auto dest: rec_bounds)

lemma recorded_append:
  "recorded (Some (p, g, es @ [e])) =
     (if rec_intact e then (recorded (Some (p, g, es)))(rec_type e := Some (rec_data e)) else recorded (Some (p, g, es)))"
  by (rule ext) (simp add: recorded_def latest_append)

lemma tables_same:
  "record_word s' = record_word s \<Longrightarrow> record_length s' = record_length s \<Longrightarrow> tables_ok s es \<Longrightarrow> tables_ok s' es"
  by (auto simp: tables_ok_def split: option.splits)

lemma tables_torn: "tables_ok s es \<Longrightarrow> \<not> rec_intact e \<Longrightarrow> tables_ok s (es @ [e])"
  by (simp add: tables_ok_def latest_append)

text \<open>The outcome of an attempt to append: done, or cut off.\<close>

lemma try_append_result:
  assumes ok: "store_ok s (Some (p, g, es))" and res: "reserved (flash s)" and fits: "\<not> store_write_erases (length d) s"
    and t: "0 < t" "t < STORE_TYPES" "length d \<le> STORE_RECORD_MAX_BYTES" and cd: "cut_detected t d"
    and a: "try_append t d s = (done, s')"
  shows "\<exists>es'. store_ok (if done then s' else s'\<lparr>full := True\<rparr>) (Some (p, g, es')) \<and>
    (reserved (flash s') \<and> (works (flash s) \<longrightarrow> works (flash s') \<and> done)) \<and>
    recorded (Some (p, g, es')) = (if done then (recorded (Some (p, g, es)))(t := Some d) else recorded (Some (p, g, es)))"
proof -
  define e where "e = build_record t d"
  define u where "u = STORE_HEADER_WORDS + length (concat es)"
  have e: "is_rec e" "rec_type e = t" "rec_intact e" "rec_data e = d" "length e = record_words (length d)"
    using build_record_rec [OF t] by (simp_all add: e_def)
  have j: "journal (flash s) p g es" "outlived (flash s) p g" "tables_ok s es" "page s = p" "active s" "generation s = g"
    using ok by (simp_all add: store_ok_def flash_ok_def)
  have f: "used_words s = u" "u + length e \<le> FLASH_PAGE_WORDS"
    using ok fits by (auto simp: store_write_erases_def store_ok_def u_def e(5))
  have p: "p < 2" using j(1) by (simp add: journal_def)
  have ev: "even u" "even (length e)"
    using concat_even j(1) rec_bounds [OF e(1)] by (auto simp: u_def journal_def store_ids)
  have er: "holds p u (replicate (length e) ERASED) (flash s)"
  proof (rule holds_erased_sub)
    show "holds p u (replicate (FLASH_PAGE_WORDS - u) ERASED) (flash s)"
      using journal_parts(2) [OF j(1)] by (simp add: holds_append u_def)
  qed (use f in auto)
  obtain r s1 where w: "write_words p u e s = (r, s1)" by fastforce
  have A: "(done, s') = (if r = STORE_OK
      then (True, s1\<lparr>record_word := (record_word s1)[t := used_words s1], record_length := (record_length s1)[t := length d],
                     used_words := used_words s1 + length e, appends := appends s1 + 1, last_result := STORE_OK\<rparr>)
      else (False, s1\<lparr>store_failures := store_failures s1 + 1\<rparr>))"
    using a er w by (simp add: try_append_def e_def [symmetric] Let_def blank_holds j(4) f(1))
  obtain k fl fr where k: "s1 = s\<lparr>flash := fl, last_flash := fr\<rparr>" "2 * k \<le> length e" "r = STORE_OK \<longleftrightarrow> 2 * k = length e"
    "reserved fl \<and> (works (flash s) \<longrightarrow> works fl \<and> r = STORE_OK)" "wrote p u (take (2 * k) e) (flash s) fl"
    by (rule write_words_result [OF p ev f(2) res er w])
  have out: "outlived fl p g" by (rule outlived_wrote [OF k(5) p j(2)])
  show ?thesis
  proof (cases "2 * k = length e")
    case True
    then have "done" "s' = s1\<lparr>record_word := (record_word s1)[t := used_words s1], record_length := (record_length s1)[t := length d],
                     used_words := used_words s1 + length e, appends := appends s1 + 1, last_result := STORE_OK\<rparr>"
      using A k(3) by simp_all
    moreover have "journal fl p g (es @ [e])"
      using k(5) True f(2) by (intro journal_append [OF j(1) res e(1)]) (simp_all add: u_def)
    moreover have "length (rec_data e) = rec_length e" by (simp add: rec_data_def)
    then have rl: "rec_length e = length d" using e(4) by simp
    have "tables_ok s' (es @ [e])"
      using j(3) e(2,3) t f(1) calculation(2) rl by (auto simp: tables_ok_def latest_append k(1) u_def nth_list_update split: option.splits)
    ultimately show ?thesis
      using e j k(1,4) out f by (intro exI [of _ "es @ [e]"]) (auto simp: store_ok_def flash_ok_def recorded_append u_def)
  next
    case False
    then have s': "\<not> done" "s' = s1\<lparr>store_failures := store_failures s1 + 1\<rparr>"
      using A k(3) by simp_all
    have w: "\<not> works (flash s)" using k(3,4) False by simp
    show ?thesis
    proof (cases "k = 0")
      case True
      then have "wrote p u [] (flash s) fl" using k(5) by simp
      then have same: "read_word q i fl = read_word q i (flash s)" if "q < 2" "i < FLASH_PAGE_WORDS" for q i
        using that by (auto simp: wrote_def)
      have "journal fl p g es"
        using same p by (intro journal_same [OF j(1)])
      moreover have "tables_ok (s'\<lparr>full := True\<rparr>) es"
        by (rule tables_same [OF _ _ j(3)]) (simp_all add: s'(2) k(1))
      ultimately show ?thesis
        using s' j k(1,4) out w by (intro exI [of _ es]) (simp add: store_ok_def flash_ok_def)
    next
      case nz: False
      define c where "c = cut k e"
      have c: "is_rec c" "rec_type c = t" "length c = length e"
        using cut_rec [OF e(1) _ k(2)] nz e(2) by (auto simp: c_def)
      have "2 * k < length e" using False k(2) by simp
      then have "k < length e div 2" using ev(2) by (auto elim: evenE)
      then have ni: "\<not> rec_intact c"
        using cd nz by (auto simp: cut_detected_def list_all_iff c_def e_def [symmetric])
      have "wrote p u c (flash s) fl"
        unfolding wrote_def
      proof (intro allI impI)
        fix q i :: nat
        assume q: "q < 2" "i < FLASH_PAGE_WORDS"
        have er': "read_word p i (flash s) = ERASED" if "u \<le> i" "i < u + length e"
          using er that unfolding holds_def by (metis length_replicate nth_replicate le_add_diff_inverse nat_add_left_cancel_less)
        show "read_word q i fl = (if q = p \<and> u \<le> i \<and> i < u + length c then c ! (i - u) else read_word q i (flash s))"
          using k(2,5) q er' c(3) by (auto simp: wrote_def c_def cut_def nth_append min_def)
      qed
      then have "journal fl p g (es @ [c])"
        using f(2) c(1,3) by (intro journal_append [OF j(1) res]) (simp_all add: u_def)
      moreover have "tables_ok (s'\<lparr>full := True\<rparr>) (es @ [c])"
        by (rule tables_same [OF _ _ tables_torn [OF j(3) ni]]) (simp_all add: s'(2) k(1))
      ultimately show ?thesis
        using s' j k(1,4) out ni w by (intro exI [of _ "es @ [c]"]) (simp add: store_ok_def flash_ok_def recorded_append)
    qed
  qed
qed

end
