(* ===== verification/Page_Change.thy ===== *)
theory Page_Change
  imports Journal
begin

text \<open>
  A change of page: the latest record of each type and the new one are written to the other
  page, and the header last. Until the header is whole the old page stays the one in use, so a
  change that fails or is cut off loses nothing.
\<close>

section \<open>Changing page\<close>

text \<open>The page being written: no header yet, and the records so far.\<close>

definition target_ok :: "Flash \<Rightarrow> nat \<Rightarrow> u16 list list \<Rightarrow> bool" where
  "target_ok f q ns \<longleftrightarrow> q < 2 \<and> reserved f \<and> (\<forall>e\<in>set ns. is_rec e) \<and>
     holds q 0 (replicate STORE_HEADER_WORDS ERASED) f \<and>
     STORE_HEADER_WORDS + length (concat ns) \<le> FLASH_PAGE_WORDS \<and>
     holds q STORE_HEADER_WORDS (concat ns @ replicate (FLASH_PAGE_WORDS - STORE_HEADER_WORDS - length (concat ns)) ERASED) f"

definition same_page :: "nat \<Rightarrow> Flash \<Rightarrow> Flash \<Rightarrow> bool" where
  "same_page p f f' \<longleftrightarrow> (\<forall>i<FLASH_PAGE_WORDS. read_word p i f' = read_word p i f)"

lemma same_page_trans: "same_page p f f' \<Longrightarrow> same_page p f' f'' \<Longrightarrow> same_page p f f''"
  by (simp add: same_page_def)

lemma no_header: "holds q 0 (replicate STORE_HEADER_WORDS ERASED) f \<Longrightarrow> \<not> fst (header_valid q f)"
  by (rule header_erased) (simp add: holds_def store_ids)

text \<open>While the target has no valid header, what is recorded is what was.\<close>

lemma kept_ok:
  assumes "flash_ok f J" "same_page (1 - q) f f'" "\<not> fst (header_valid q f')" "q < 2"
    "\<And>p g es. J = Some (p, g, es) \<Longrightarrow> q = 1 - p"
  shows "flash_ok f' J"
proof (cases J)
  case None
  have h: "header_valid (1 - q) f' = header_valid (1 - q) f"
    using assms(2) by (intro header_words_same) (auto simp: same_page_def store_ids)
  have "q = 0 \<or> q = 1" using assms(4) by auto
  then show ?thesis using assms(1,3) h by (auto simp: flash_ok_def None)
next
  case (Some x)
  obtain p g es where J: "J = Some (p, g, es)" using Some by (cases x) auto
  have j: "journal f p g es" using assms(1) by (simp add: flash_ok_def J)
  then have "p < 2" by (simp add: journal_def)
  then have q: "q = 1 - p" "1 - q = p" using assms(5) [OF J] by auto
  have "journal f' p g es" using assms(2) q by (intro journal_same [OF j]) (simp add: same_page_def)
  then show ?thesis using assms(3) q by (auto simp: flash_ok_def J outlived_def split: prod.splits)
qed

lemma target_write:
  assumes t: "target_ok (flash s) q ns" and e: "is_rec e"
    and fits: "STORE_HEADER_WORDS + length (concat ns) + length e \<le> FLASH_PAGE_WORDS"
    and w: "write_words q (STORE_HEADER_WORDS + length (concat ns)) e s = (r, s')"
  shows "\<exists>f fr. s' = s\<lparr>flash := f, last_flash := fr\<rparr> \<and>
    (reserved f \<and> (works (flash s) \<longrightarrow> works f \<and> r = STORE_OK)) \<and> same_page (1 - q) (flash s) f \<and>
    holds q 0 (replicate STORE_HEADER_WORDS ERASED) f \<and> (r = STORE_OK \<longrightarrow> target_ok f q (ns @ [e]))"
proof -
  define u where "u = STORE_HEADER_WORDS + length (concat ns)"
  have q: "q < 2" "reserved (flash s)" "holds q 0 (replicate STORE_HEADER_WORDS ERASED) (flash s)"
    "holds q STORE_HEADER_WORDS (concat ns) (flash s)" "holds q u (replicate (FLASH_PAGE_WORDS - u) ERASED) (flash s)"
    using t by (simp_all add: target_ok_def holds_append u_def)
  have ev: "even u" "even (length e)"
    using concat_even t rec_bounds [OF e] by (auto simp: u_def target_ok_def store_ids)
  have le: "u + length e \<le> FLASH_PAGE_WORDS" using fits by (simp add: u_def)
  have er: "holds q u (replicate (length e) ERASED) (flash s)"
    by (rule holds_erased_sub [OF q(5)]) (use le in auto)
  obtain k f fr where k: "s' = s\<lparr>flash := f, last_flash := fr\<rparr>" "2 * k \<le> length e" "r = STORE_OK \<longleftrightarrow> 2 * k = length e"
    "reserved f \<and> (works (flash s) \<longrightarrow> works f \<and> r = STORE_OK)" "wrote q u (take (2 * k) e) (flash s) f"
    by (rule write_words_result [OF q(1) ev le q(2) er w [folded u_def]])
  have "1 - q \<noteq> q" by (cases q) auto
  then have sp: "same_page (1 - q) (flash s) f"
    using wrote_other [OF k(5), of "1 - q"] by (simp add: same_page_def)
  have hd: "holds q 0 (replicate STORE_HEADER_WORDS ERASED) f"
    using le by (intro wrote_keeps [OF k(5) q(1) _ _ q(3)]) (auto simp: u_def)
  have "target_ok f q (ns @ [e])" if "r = STORE_OK"
  proof -
    have w: "wrote q u e (flash s) f" using k(3,5) that by simp
    have "holds q STORE_HEADER_WORDS (concat ns) f"
      using le by (intro wrote_keeps [OF w q(1) _ _ q(4)]) (auto simp: u_def)
    moreover have "holds q u e f" by (rule wrote_holds [OF w q(1) le])
    moreover have "holds q (u + length e) (replicate (FLASH_PAGE_WORDS - (u + length e)) ERASED) f"
      using le holds_erased_sub [OF q(5), of "u + length e"] by (intro wrote_keeps [OF w q(1)]) auto
    ultimately have "holds q STORE_HEADER_WORDS (concat ns @ e @ replicate (FLASH_PAGE_WORDS - (u + length e)) ERASED) f"
      by (simp add: holds_append u_def)
    moreover have "FLASH_PAGE_WORDS - STORE_HEADER_WORDS - length (concat (ns @ [e])) = FLASH_PAGE_WORDS - (u + length e)"
      by (simp add: u_def)
    ultimately show ?thesis using t e q(1) k(4) hd fits by (simp add: target_ok_def)
  qed
  then show ?thesis using k(1,4) sp hd by blast
qed

text \<open>The words of the latest record of a type, as the copy reads them.\<close>

lemma latest_words:
  assumes "journal f p g es" "latest es STORE_HEADER_WORDS t = Some (w, e)"
  shows "is_rec e" "rec_intact e" "rec_type e = t" "0 < w" "length e = record_words (rec_length e)"
    "map (\<lambda>k. read_word p (w + k) f) [0..<record_words (rec_length e)] = e"
proof -
  have "holds p STORE_HEADER_WORDS (concat es) f" using journal_parts(2) [OF assms(1)] by (simp add: holds_append)
  from latest_holds [OF assms(2) this] assms(1)
  have h: "holds p w e f" "is_rec e" "rec_intact e" "rec_type e = t" "4 \<le> w" by (simp_all add: journal_def store_ids)
  then show "is_rec e" "rec_intact e" "rec_type e = t" "0 < w" "length e = record_words (rec_length e)"
    by (simp_all add: is_rec_def)
  then show "map (\<lambda>k. read_word p (w + k) f) [0..<record_words (rec_length e)] = e"
    using holds_map [OF h(1)] by simp
qed

definition words_ok :: "nat list \<Rightarrow> u16 list list \<Rightarrow> bool" where
  "words_ok nw ns \<longleftrightarrow> length nw = STORE_TYPES \<and>
     (\<forall>t<STORE_TYPES. nw ! t = (case latest ns STORE_HEADER_WORDS t of None \<Rightarrow> 0 | Some (w, e) \<Rightarrow> w))"

text \<open>The latest record of a type, without its place.\<close>

definition newest :: "u16 list list \<Rightarrow> nat \<Rightarrow> u16 list option" where
  "newest es t = map_option snd (latest es STORE_HEADER_WORDS t)"

lemma newest_nil: "newest [] i = None"
  by (simp add: newest_def)

lemma newest_append: "newest (es @ [e]) t = (if rec_intact e \<and> rec_type e = t then Some e else newest es t)"
  by (simp add: newest_def latest_append)

lemma recorded_newest: "recorded (Some (p, g, es)) t = map_option rec_data (newest es t)"
  by (cases "latest es STORE_HEADER_WORDS t") (auto simp: recorded_def newest_def)

lemma copy_result:
  assumes "page s = p" "p < 2" "journal (flash s) p g es" "tables_ok s es" "target_ok (flash s) (1 - p) ns"
    "\<forall>i\<in>set is. i < STORE_TYPES" "STORE_HEADER_WORDS + length (concat ns) + 68 * (length is + 1) \<le> FLASH_PAGE_WORDS"
    "words_ok nw ns" "copy_records is t (1 - p) (STORE_HEADER_WORDS + length (concat ns)) nw s = (r, nw', w', s')"
  shows "\<exists>f fr. s' = s\<lparr>flash := f, last_flash := fr\<rparr> \<and>
    (reserved f \<and> (works (flash s) \<longrightarrow> works f \<and> r = STORE_OK)) \<and> same_page p (flash s) f \<and>
    holds (1 - p) 0 (replicate STORE_HEADER_WORDS ERASED) f \<and>
    (r = STORE_OK \<longrightarrow> (\<exists>ms. target_ok f (1 - p) ms \<and> w' = STORE_HEADER_WORDS + length (concat ms) \<and>
       w' + 68 \<le> FLASH_PAGE_WORDS \<and> words_ok nw' ms \<and>
       (\<forall>i. newest ms i = (if i \<in> set is \<and> i \<noteq> t \<and> newest es i \<noteq> None then newest es i else newest ns i))))"
  using assms(1,3-)
proof (induction "is" arbitrary: ns nw s)
  case Nil
  then have "s' = s\<lparr>flash := flash s, last_flash := last_flash s\<rparr>" "r = STORE_OK" "nw' = nw"
    "w' = STORE_HEADER_WORDS + length (concat ns)" by simp_all
  moreover have "target_ok (flash s) (1 - p) ns" "words_ok nw ns" using Nil by simp_all
  moreover have "w' + 68 \<le> FLASH_PAGE_WORDS" using Nil calculation(4) by simp
  moreover have "reserved (flash s)" "holds (1 - p) 0 (replicate STORE_HEADER_WORDS ERASED) (flash s)"
    using Nil by (simp_all add: target_ok_def)
  ultimately show ?case
    by (intro exI [of _ "flash s"] exI [of _ "last_flash s"]) (auto simp: same_page_def)
next
  case (Cons i "is")
  have i: "i < STORE_TYPES" using Cons.prems by simp
  have tab: "record_word s ! i = (case latest es STORE_HEADER_WORDS i of None \<Rightarrow> 0 | Some (w, e) \<Rightarrow> w)"
    "latest es STORE_HEADER_WORDS i = Some (w, e) \<Longrightarrow> record_length s ! i = rec_length e" for w e
    using Cons.prems(3) i by (auto simp: tables_ok_def split: option.splits)
  show ?case
  proof (cases "i = t \<or> latest es STORE_HEADER_WORDS i = None")
    case True
    then have c: "copy_records is t (1 - p) (STORE_HEADER_WORDS + length (concat ns)) nw s = (r, nw', w', s')"
      using Cons.prems(8) tab(1) True by (elim disjE) simp_all
    have n: "(j \<in> set (i # is) \<and> j \<noteq> t \<and> newest es j \<noteq> None) = (j \<in> set is \<and> j \<noteq> t \<and> newest es j \<noteq> None)" for j
      using True by (auto simp: newest_def)
    show ?thesis unfolding n
      by (rule Cons.IH [OF Cons.prems(1-4) _ _ Cons.prems(7) c]) (use Cons.prems(5,6) in auto)
  next
    case False
    then obtain w e where we: "latest es STORE_HEADER_WORDS i = Some (w, e)" by auto
    note L = latest_words [OF Cons.prems(2) we]
    have rw: "record_word s ! i = w" "record_length s ! i = rec_length e" "record_word s ! i \<noteq> 0"
      using tab we L(4) by auto
    define u where "u = STORE_HEADER_WORDS + length (concat ns)"
    obtain r1 s1 where wr: "write_words (1 - p) u e s = (r1, s1)" by fastforce
    have le: "length e \<le> 68" using rec_bounds [OF L(1)] by simp
    then have fits: "u + length e \<le> FLASH_PAGE_WORDS" using Cons.prems(6) by (simp add: u_def)
    obtain f fr where s1: "s1 = s\<lparr>flash := f, last_flash := fr\<rparr>" "reserved f \<and> (works (flash s) \<longrightarrow> works f \<and> r1 = STORE_OK)" "same_page (1 - (1 - p)) (flash s) f"
      "holds (1 - p) 0 (replicate STORE_HEADER_WORDS ERASED) f" "r1 = STORE_OK \<longrightarrow> target_ok f (1 - p) (ns @ [e])"
      using target_write [OF Cons.prems(4) L(1) fits [unfolded u_def] wr [unfolded u_def]] by blast
    have pp: "1 - (1 - p) = p" using assms(2) by auto
    have C: "(r, nw', w', s') = (if r1 \<noteq> STORE_OK then (r1, nw, u, s1)
        else copy_records is t (1 - p) (u + length e) (nw[i := u]) s1)"
      using Cons.prems(8) False rw(3) unfolding copy_records.simps(2) Let_def rw(1,2) Cons.prems(1) L(6) wr [unfolded u_def] prod.case
      by (auto simp: u_def L(5) [symmetric] simp del: One_nat_def)
    show ?thesis
    proof (cases "r1 = STORE_OK")
      case no: False
      then have "s' = s1" "r = r1" using C by simp_all
      then show ?thesis using s1 no pp by auto
    next
      case True
      have c: "copy_records is t (1 - p) (STORE_HEADER_WORDS + length (concat (ns @ [e]))) (nw[i := u]) s1 = (r, nw', w', s')"
        using C True by (simp add: u_def add.assoc)
      have j1: "journal (flash s1) p g es"
        using s1(1,3) pp by (intro journal_same [OF Cons.prems(2)]) (simp add: same_page_def)
      have t1: "tables_ok s1 es" by (rule tables_same [OF _ _ Cons.prems(3)]) (simp_all add: s1(1))
      have tg: "target_ok (flash s1) (1 - p) (ns @ [e])" using s1(1,5) True by simp
      have nw: "words_ok (nw[i := u]) (ns @ [e])"
        using Cons.prems(7) i L(2,3) by (auto simp: words_ok_def latest_append u_def nth_list_update)
      have sz: "STORE_HEADER_WORDS + length (concat (ns @ [e])) + 68 * (length is + 1) \<le> FLASH_PAGE_WORDS"
        using Cons.prems(6) le by simp
      have "page s1 = p" "\<forall>i\<in>set is. i < STORE_TYPES" using Cons.prems(1,5) s1(1) by simp_all
      from Cons.IH [OF this(1) j1 t1 tg this(2) sz nw c]
      obtain f' fr' where IH: "s' = s1\<lparr>flash := f', last_flash := fr'\<rparr>" "reserved f' \<and> (works (flash s1) \<longrightarrow> works f' \<and> r = STORE_OK)" "same_page p (flash s1) f'"
        "holds (1 - p) 0 (replicate STORE_HEADER_WORDS ERASED) f'"
        "r = STORE_OK \<longrightarrow> (\<exists>ms. target_ok f' (1 - p) ms \<and> w' = STORE_HEADER_WORDS + length (concat ms) \<and>
           w' + 68 \<le> FLASH_PAGE_WORDS \<and> words_ok nw' ms \<and>
           (\<forall>j. newest ms j = (if j \<in> set is \<and> j \<noteq> t \<and> newest es j \<noteq> None then newest es j else newest (ns @ [e]) j)))"
        by blast
      have n: "(if j \<in> set is \<and> j \<noteq> t \<and> newest es j \<noteq> None then newest es j else newest (ns @ [e]) j)
          = (if j \<in> set (i # is) \<and> j \<noteq> t \<and> newest es j \<noteq> None then newest es j else newest ns j)" for j
        using L(2,3) False we by (auto simp: newest_append) (auto simp: newest_def)
      have "same_page p (flash s) f'" using same_page_trans [of p "flash s" f f'] s1(1,3) IH(3) pp by simp
      moreover have "s' = s\<lparr>flash := f', last_flash := fr'\<rparr>" using IH(1) s1(1) by simp
      moreover have "reserved f' \<and> (works (flash s) \<longrightarrow> works f' \<and> r = STORE_OK)" using IH(2) s1(1,2) by simp
      ultimately show ?thesis using IH(4,5) unfolding n by blast
    qed
  qed
qed

lemma store_ok_flash:
  assumes "store_ok s J" "flash_ok f J"
  shows "store_ok (s\<lparr>flash := f, last_flash := fr\<rparr>) J"
proof (cases J)
  case (Some x)
  obtain p g es where J: "J = Some (p, g, es)" using Some by (cases x) auto
  have "tables_ok s es" using assms(1) by (simp add: store_ok_def J)
  then have "tables_ok (s\<lparr>flash := f, last_flash := fr\<rparr>) es" by (rule tables_same [rotated 2]) simp_all
  then show ?thesis using assms by (simp add: store_ok_def J)
qed (use assms in \<open>simp add: store_ok_def\<close>)

lemma half_header: "crc_word (crc_word (crc_word SML_CRC_INIT STORE_MAGIC) STORE_FORMAT) ERASED \<noteq> ERASED"
  by code_simp

text \<open>The header is the switch: half of it is not valid yet.\<close>

lemma header_written:
  assumes t: "target_ok (flash s) q ns" and w: "write_words q 0 (header_words g) s = (r, s')"
  shows "\<exists>f fr. s' = s\<lparr>flash := f, last_flash := fr\<rparr> \<and>
    (reserved f \<and> (works (flash s) \<longrightarrow> works f \<and> r = STORE_OK)) \<and> same_page (1 - q) (flash s) f \<and>
    (if r = STORE_OK then journal f q g ns else \<not> fst (header_valid q f))"
proof -
  have q: "q < 2" "reserved (flash s)" "holds q 0 (replicate (length (header_words g)) ERASED) (flash s)"
    using t by (simp_all add: target_ok_def store_ids)
  have le: "0 + length (header_words g) \<le> FLASH_PAGE_WORDS" by (simp add: store_ids)
  obtain k f fr where k: "s' = s\<lparr>flash := f, last_flash := fr\<rparr>" "2 * k \<le> length (header_words g)"
    "r = STORE_OK \<longleftrightarrow> 2 * k = length (header_words g)" "reserved f \<and> (works (flash s) \<longrightarrow> works f \<and> r = STORE_OK)" "wrote q 0 (take (2 * k) (header_words g)) (flash s) f"
    by (rule write_words_result [OF q(1) _ _ le q(2,3) w]) auto
  have "1 - q \<noteq> q" by (cases q) auto
  then have sp: "same_page (1 - q) (flash s) f"
    using wrote_other [OF k(5), of "1 - q"] by (simp add: same_page_def)
  have "if r = STORE_OK then journal f q g ns else \<not> fst (header_valid q f)"
  proof (cases "k = 2")
    case True
    then have ok: "r = STORE_OK" "wrote q 0 (header_words g) (flash s) f" using k(3,5) by simp_all
    define rest where "rest = concat ns @ replicate (FLASH_PAGE_WORDS - STORE_HEADER_WORDS - length (concat ns)) ERASED"
    have r0: "holds q STORE_HEADER_WORDS rest (flash s)" "STORE_HEADER_WORDS + length rest = FLASH_PAGE_WORDS"
      using t by (simp_all add: target_ok_def rest_def)
    have h: "holds q 0 (header_words g) f" by (rule wrote_holds [OF ok(2) q(1) le])
    have "holds q STORE_HEADER_WORDS rest f"
      using r0 by (intro wrote_keeps [OF ok(2) q(1)]) (auto simp: store_ids)
    moreover have "page_words g ns = header_words g @ rest" by (simp add: page_words_def rest_def)
    ultimately have "holds q 0 (page_words g ns) f"
      using h holds_append [of q 0 "header_words g" rest f] by (simp add: store_ids)
    then show ?thesis using t ok(1) by (simp add: journal_def target_ok_def)
  next
    case False
    then have n: "r \<noteq> STORE_OK" "k = 0 \<or> k = 1" using k(2,3) by auto
    have e: "i < 4 \<Longrightarrow> read_word q i (flash s) = ERASED" for i using q(3) by (simp add: holds_def)
    have r: "i < 4 \<Longrightarrow> read_word q i f = (if i < 2 * k then header_words g ! i else ERASED)" for i
      using k(2,5) q(1) e [of i] by (auto simp: wrote_def store_ids)
    have "\<not> fst (header_valid q f)"
    proof (cases "k = 0")
      case True
      then show ?thesis using r by (intro header_erased) simp
    next
      case False
      then have k1: "k = 1" using n(2) by simp
      have "read_word q 0 f = STORE_MAGIC" "read_word q 1 f = STORE_FORMAT" "read_word q 2 f = ERASED" "read_word q 3 f = ERASED"
        using r [of 0] r [of 1] r [of 2] r [of 3] k1 by (simp_all add: header_words_def)
      then have m: "map (\<lambda>i. read_word q i f) [0..<STORE_HEADER_WORDS] = [STORE_MAGIC, STORE_FORMAT, ERASED, ERASED]"
        by (simp add: store_ids upt_rec numeral_2_eq_2 numeral_3_eq_3)
      show ?thesis using half_header
        unfolding header_valid_def Let_def m by (simp add: store_ids eq_commute [of ERASED])
    qed
    then show ?thesis using n(1) by simp
  qed
  then show ?thesis using k(1,4) sp by blast
qed

lemma erase_target:
  assumes "flash_erase_page (word_address q 0) f = (fr, f')" "reserved f" "q < 2"
  shows "reserved f'" "fr = FLASH_OK \<Longrightarrow> same_page (1 - q) f f' \<and> target_ok f' q [] \<and> blank q 0 FLASH_PAGE_WORDS f'"
    "fr \<noteq> FLASH_OK \<Longrightarrow> cells f' = cells f" "works f \<Longrightarrow> works f' \<and> fr = FLASH_OK"
proof -
  note e = erase_result [OF assms(1)]
  show "reserved f'" using e(1) assms(2) by simp
  show "works f \<Longrightarrow> works f' \<and> fr = FLASH_OK" using e(2,6) assms(2,3) by (simp add: works_def)
  show "fr \<noteq> FLASH_OK \<Longrightarrow> cells f' = cells f" by (rule e(4))
  assume ok: "fr = FLASH_OK"
  have n: "1 - q \<noteq> q" "1 - q < 2" by (cases q; simp)+
  have w: "read_word q i f' = ERASED" if "i < FLASH_PAGE_WORDS" for i
    using e(5) [OF ok assms(3) that] by (simp add: ERASED_def)
  show "same_page (1 - q) f f' \<and> target_ok f' q [] \<and> blank q 0 FLASH_PAGE_WORDS f'"
    using w e(5) [OF ok n(2)] n(1) \<open>reserved f'\<close> assms(3)
    by (simp add: same_page_def target_ok_def holds_def blank_holds store_ids)
qed

lemma flash_ok_cells: "flash_ok f J \<Longrightarrow> cells f' = cells f \<Longrightarrow> flash_ok f' J"
proof -
  assume a: "flash_ok f J" "cells f' = cells f"
  have r: "read_word q i f' = read_word q i f" for q i using a(2) by (simp add: read_word_def flash_read_word_def)
  have h: "header_valid q f' = header_valid q f" for q by (rule header_words_same) (simp add: r)
  show ?thesis using a(1) by (auto simp: flash_ok_def h outlived_def r journal_def holds_def split: option.splits)
qed

lemma copy_nothing: "\<forall>i\<in>set is. record_word s ! i = 0 \<Longrightarrow> copy_records is t q w nw s = (STORE_OK, nw, w, s)"
  by (induction "is") auto

text \<open>The records copied, whatever was recorded before.\<close>

lemma copied:
  assumes ok: "store_ok s J" and q: "q = (if active s then 1 - page s else 0)" and t: "target_ok (flash s) q []"
    and c: "copy_records [1..<STORE_TYPES] t q STORE_HEADER_WORDS (replicate STORE_TYPES 0) s = (r, nw, w, s')"
  shows "\<exists>f fr. s' = s\<lparr>flash := f, last_flash := fr\<rparr> \<and>
    (reserved f \<and> (works (flash s) \<longrightarrow> works f \<and> r = STORE_OK)) \<and> same_page (1 - q) (flash s) f \<and>
    \<not> fst (header_valid q f) \<and>
    (r = STORE_OK \<longrightarrow> (\<exists>ms. target_ok f q ms \<and> w = STORE_HEADER_WORDS + length (concat ms) \<and>
       w + 68 \<le> FLASH_PAGE_WORDS \<and> words_ok nw ms \<and>
       (\<forall>i v x. latest ms STORE_HEADER_WORDS i = Some (v, x) \<and> i < STORE_TYPES \<and> i \<noteq> t \<longrightarrow> record_length s ! i = rec_length x) \<and>
       (\<forall>p g. \<forall>i. 0 < i \<and> i < STORE_TYPES \<and> i \<noteq> t \<longrightarrow> recorded (Some (p, g, ms)) i = recorded J i)))"
proof (cases J)
  case None
  then have z: "record_word s = replicate STORE_TYPES 0" using ok by (simp add: store_ok_def)
  have "(r, nw, w, s') = (STORE_OK, replicate STORE_TYPES 0, STORE_HEADER_WORDS, s)"
    using c copy_nothing [of "[1..<STORE_TYPES]" s] by (simp add: z)
  moreover have "s = s\<lparr>flash := flash s, last_flash := last_flash s\<rparr>" by simp
  moreover have "same_page (1 - q) (flash s) (flash s)" "reserved (flash s)" "\<not> fst (header_valid q (flash s))"
    using t no_header by (auto simp: same_page_def target_ok_def)
  moreover have "words_ok (replicate STORE_TYPES 0) []" "STORE_HEADER_WORDS + 68 \<le> FLASH_PAGE_WORDS"
    by (simp_all add: words_ok_def store_ids)
  moreover have "recorded (Some (p, g, [])) i = recorded J i" for p g i
    by (simp add: recorded_def None)
  moreover have "\<forall>i v x. latest [] STORE_HEADER_WORDS i = Some (v, x) \<and> i < STORE_TYPES \<and> i \<noteq> t \<longrightarrow> record_length s ! i = rec_length x"
    by simp
  ultimately show ?thesis using t by (metis Pair_inject add_0_right concat.simps(1) list.size(3))
next
  case (Some x)
  obtain p g es where J: "J = Some (p, g, es)" using Some by (cases x) auto
  have s: "page s = p" "journal (flash s) p g es" "tables_ok s es" "q = 1 - p"
    using ok q by (simp_all add: store_ok_def flash_ok_def J)
  have p: "p < 2" using s(2) by (simp add: journal_def)
  have pre: "STORE_HEADER_WORDS + length (concat []) + 68 * (length [1..<STORE_TYPES] + 1) \<le> FLASH_PAGE_WORDS"
    "words_ok (replicate STORE_TYPES 0) []" "\<forall>i\<in>set [1..<STORE_TYPES]. i < STORE_TYPES"
    by (simp_all add: store_ids words_ok_def)
  have c': "copy_records [1..<STORE_TYPES] t (1 - p) (STORE_HEADER_WORDS + length (concat [])) (replicate STORE_TYPES 0) s = (r, nw, w, s')"
    using c s(4) by simp
  from copy_result [OF s(1) p s(2,3) t [unfolded s(4)] pre(3,1,2) c']
  obtain f fr where C: "s' = s\<lparr>flash := f, last_flash := fr\<rparr>" "reserved f \<and> (works (flash s) \<longrightarrow> works f \<and> r = STORE_OK)" "same_page p (flash s) f"
    "holds (1 - p) 0 (replicate STORE_HEADER_WORDS ERASED) f"
    "r = STORE_OK \<longrightarrow> (\<exists>ms. target_ok f (1 - p) ms \<and> w = STORE_HEADER_WORDS + length (concat ms) \<and>
       w + 68 \<le> FLASH_PAGE_WORDS \<and> words_ok nw ms \<and>
       (\<forall>i. newest ms i = (if i \<in> set [1..<STORE_TYPES] \<and> i \<noteq> t \<and> newest es i \<noteq> None then newest es i else newest [] i)))"
    by blast
  have pp: "1 - q = p" using p s(4) by auto
  have "recorded (Some (p', g', ms)) i = recorded J i"
    if "\<forall>i. newest ms i = (if i \<in> set [1..<STORE_TYPES] \<and> i \<noteq> t \<and> newest es i \<noteq> None then newest es i else newest [] i)"
      "0 < i \<and> i < STORE_TYPES \<and> i \<noteq> t" for ms i p' g'
  proof -
    have "newest ms i = newest es i" using spec [OF that(1), of i] that(2) newest_nil [of i]
      by (cases "newest es i = None") simp_all
    then show ?thesis by (simp add: J recorded_newest)
  qed
  note same = this
  have len: "record_length s ! i = rec_length x"
    if n: "\<forall>i. newest ms i = (if i \<in> set [1..<STORE_TYPES] \<and> i \<noteq> t \<and> newest es i \<noteq> None then newest es i else newest [] i)"
      and l: "latest ms STORE_HEADER_WORDS i = Some (v, x) \<and> i < STORE_TYPES \<and> i \<noteq> t" for ms i v x
  proof -
    have n1: "newest ms i = Some x" using l by (simp add: newest_def)
    have "Some x = (if i \<in> set [1..<STORE_TYPES] \<and> i \<noteq> t \<and> newest es i \<noteq> None then newest es i else newest [] i)"
      using spec [OF n, of i] n1 by (rule trans [OF sym, rotated])
    then have "newest es i = Some x" by (metis newest_nil option.distinct(1))
    then obtain v' where "latest es STORE_HEADER_WORDS i = Some (v', x)" by (auto simp: newest_def)
    then show ?thesis using s(3) l by (auto simp: tables_ok_def split: option.splits)
  qed
  have "\<exists>ms. target_ok f (1 - p) ms \<and> w = STORE_HEADER_WORDS + length (concat ms) \<and>
       w + 68 \<le> FLASH_PAGE_WORDS \<and> words_ok nw ms \<and>
       (\<forall>i v x. latest ms STORE_HEADER_WORDS i = Some (v, x) \<and> i < STORE_TYPES \<and> i \<noteq> t \<longrightarrow> record_length s ! i = rec_length x) \<and>
       (\<forall>p g. \<forall>i. 0 < i \<and> i < STORE_TYPES \<and> i \<noteq> t \<longrightarrow> recorded (Some (p, g, ms)) i = recorded J i)"
    if r: "r = STORE_OK"
  proof -
    obtain ms where m: "target_ok f (1 - p) ms \<and> w = STORE_HEADER_WORDS + length (concat ms) \<and> w + 68 \<le> FLASH_PAGE_WORDS \<and> words_ok nw ms"
      and n: "\<forall>i. newest ms i = (if i \<in> set [1..<STORE_TYPES] \<and> i \<noteq> t \<and> newest es i \<noteq> None then newest es i else newest [] i)"
      using C(5) r by blast
    show ?thesis using m len [OF n] same [OF n] by blast
  qed
  then have "s' = s\<lparr>flash := f, last_flash := fr\<rparr> \<and>
    (reserved f \<and> (works (flash s) \<longrightarrow> works f \<and> r = STORE_OK)) \<and> same_page (1 - q) (flash s) f \<and> \<not> fst (header_valid q f) \<and>
    (r = STORE_OK \<longrightarrow> (\<exists>ms. target_ok f q ms \<and> w = STORE_HEADER_WORDS + length (concat ms) \<and>
       w + 68 \<le> FLASH_PAGE_WORDS \<and> words_ok nw ms \<and>
       (\<forall>i v x. latest ms STORE_HEADER_WORDS i = Some (v, x) \<and> i < STORE_TYPES \<and> i \<noteq> t \<longrightarrow> record_length s ! i = rec_length x) \<and>
       (\<forall>p g. \<forall>i. 0 < i \<and> i < STORE_TYPES \<and> i \<noteq> t \<longrightarrow> recorded (Some (p, g, ms)) i = recorded J i)))"
    using C(1-3) no_header [OF C(4)] unfolding s(4) pp [unfolded s(4)] by blast
  then show ?thesis by blast
qed

lemma outlived_new:
  assumes "header_valid p f = (True, g) \<or> \<not> fst (header_valid p f)" "p < 2"
  shows "outlived f (1 - p) (g + 1)"
proof -
  have d: "g + 1 - g = (1 :: u16)" "g - (g + 1) = (- 1 :: u16)" by simp_all
  have "p = 0 \<or> p = 1" using assms(2) by auto
  then show ?thesis using assms(1) by (auto simp: outlived_def d split: prod.splits)
qed

lemma change_page_result:
  assumes ok: "store_ok s J" and res: "reserved (flash s)"
    and t: "0 < t" "t < STORE_TYPES" "length d \<le> STORE_RECORD_MAX_BYTES"
    and c: "change_page t d s = (r, s')"
  shows "\<exists>J'. store_ok s' J' \<and>
    (reserved (flash s') \<and> (works (flash s) \<longrightarrow> works (flash s') \<and> r = STORE_OK)) \<and>
    (\<forall>i. 0 < i \<and> i < STORE_TYPES \<longrightarrow> recorded J' i = (if r = STORE_OK \<and> i = t then Some d else recorded J i))"
proof -
  define q where "q = (if active s then 1 - page s else 0)"
  define g where "g = (if active s then generation s + 1 else 1)"
  have qJ: "\<And>p g es. J = Some (p, g, es) \<Longrightarrow> q = 1 - p" "q < 2"
    using ok by (auto simp: q_def store_ok_def journal_def flash_ok_def)
  have f0: "flash_ok (flash s) J" using ok by (simp add: store_ok_def)
  obtain fr f where er: "flash_erase_page (word_address q 0) (flash s) = (fr, f)" by fastforce
  define s0 where "s0 = s\<lparr>flash := f, last_flash := fr\<rparr>"
  note E = erase_target [OF er res qJ(2)]
  have failed: ?thesis if "r \<noteq> STORE_OK" "s' = s\<lparr>flash := fl, last_flash := x\<rparr>" "reserved fl" "flash_ok fl J" "\<not> works (flash s)" for fl x
    using store_ok_flash [OF ok that(4)] that(1-3,5) by (intro exI [of _ J]) simp
  show ?thesis
  proof (cases "fr = FLASH_OK")
    case False
    then have "r = STORE_FLASH_FAILED" "s' = s0"
      using c unfolding change_page_def Let_def q_def [symmetric] g_def [symmetric] er prod.case s0_def [symmetric] by simp_all
    then show ?thesis
      using E(1,4) False flash_ok_cells [OF f0 E(3) [OF False]] by (intro failed) (auto simp: s0_def)
  next
    case True
    note T = E(2) [OF True]
    obtain r1 nw w s1 where cp: "copy_records [1..<STORE_TYPES] t q STORE_HEADER_WORDS (replicate STORE_TYPES 0) s0 = (r1, nw, w, s1)"
      by (metis prod_cases4)
    have fJ0: "flash_ok f J" using T no_header by (intro kept_ok [OF f0 _ _ qJ(2) qJ(1)]) (auto simp: target_ok_def)
    have ok0: "store_ok s0 J" unfolding s0_def by (rule store_ok_flash [OF ok fJ0])
    have q0: "q = (if active s0 then 1 - page s0 else 0)" by (simp add: q_def s0_def)
    have T0: "target_ok (flash s0) q []" using T by (simp add: s0_def)
    have fs0: "flash s0 = f" "record_length s0 = record_length s" by (simp_all add: s0_def)
    from copied [OF ok0 q0 T0 cp, unfolded fs0]
    obtain f1 x1 where C: "s1 = s0\<lparr>flash := f1, last_flash := x1\<rparr>" "reserved f1 \<and> (works f \<longrightarrow> works f1 \<and> r1 = STORE_OK)" "same_page (1 - q) f f1"
      "\<not> fst (header_valid q f1)"
      "r1 = STORE_OK \<longrightarrow> (\<exists>ms. target_ok f1 q ms \<and> w = STORE_HEADER_WORDS + length (concat ms) \<and>
       w + 68 \<le> FLASH_PAGE_WORDS \<and> words_ok nw ms \<and>
       (\<forall>i v x. latest ms STORE_HEADER_WORDS i = Some (v, x) \<and> i < STORE_TYPES \<and> i \<noteq> t \<longrightarrow> record_length s ! i = rec_length x) \<and>
       (\<forall>i v x. latest ms STORE_HEADER_WORDS i = Some (v, x) \<and> i < STORE_TYPES \<and> i \<noteq> t \<longrightarrow> record_length s ! i = rec_length x) \<and>
       (\<forall>p g. \<forall>i. 0 < i \<and> i < STORE_TYPES \<and> i \<noteq> t \<longrightarrow> recorded (Some (p, g, ms)) i = recorded J i))"
      by blast
    have w1: "works (flash s) \<Longrightarrow> works f1 \<and> r1 = STORE_OK" using C(2) E(4) by simp
    have s1: "s1 = s\<lparr>flash := f1, last_flash := x1\<rparr>" by (simp add: C(1) s0_def)
    have sp1: "same_page (1 - q) (flash s) f1" using same_page_trans T C(3) by blast
    have fJ1: "flash_ok f1 J" by (rule kept_ok [OF f0 sp1 C(4) qJ(2) qJ(1)])
    define e where "e = build_record t d"
    obtain r2 s2 where w2: "write_words q w e s1 = (r2, s2)" by fastforce
    obtain r3 s3 where w3: "write_words q 0 (header_words g) s2 = (r3, s3)" by fastforce
    have R: "(r, s') = (if r1 \<noteq> STORE_OK then (r1, s1) else if r2 \<noteq> STORE_OK then (r2, s2)
        else if r3 \<noteq> STORE_OK then (r3, s3)
        else (STORE_OK, s3\<lparr>record_word := nw[t := w], record_length := (record_length s3)[t := length d], active := True,
               page := q, generation := g, used_words := w + length e, full := False, page_changes := page_changes s3 + 1\<rparr>))"
    proof -
      have "blank q 0 FLASH_PAGE_WORDS (flash s0)" using T by (simp add: s0_def)
      moreover have "\<not> fr \<noteq> FLASH_OK" using True by simp
      ultimately show ?thesis
        using c unfolding change_page_def Let_def q_def [symmetric] g_def [symmetric] er prod.case s0_def [symmetric]
        by (simp only: if_False not_True_eq_False cp prod.case e_def [symmetric] w2 w3 split: if_splits)
    qed
    show ?thesis
    proof (cases "r1 = STORE_OK")
      case False
      then have "r \<noteq> STORE_OK" "s' = s1" using R by simp_all
      then show ?thesis using C(2) False w1 fJ1 by (intro failed [of x1 f1]) (auto simp: s1)
    next
      case r1: True
      then obtain ms where ms: "target_ok f1 q ms" "w = STORE_HEADER_WORDS + length (concat ms)" "w + 68 \<le> FLASH_PAGE_WORDS"
        "words_ok nw ms"
        "\<And>i v x. latest ms STORE_HEADER_WORDS i = Some (v, x) \<Longrightarrow> i < STORE_TYPES \<Longrightarrow> i \<noteq> t \<Longrightarrow> record_length s ! i = rec_length x"
        "\<And>p g i. 0 < i \<Longrightarrow> i < STORE_TYPES \<Longrightarrow> i \<noteq> t \<Longrightarrow> recorded (Some (p, g, ms)) i = recorded J i"
        using C(5) by blast
      have e: "is_rec e" "rec_type e = t" "rec_intact e" "rec_data e = d" "length e \<le> 68"
        using build_record_rec [OF t] rec_bounds [of e] by (simp_all add: e_def)
      have tw: "target_ok (flash s1) q ms" using ms(1) by (simp add: s1)
      have fits: "STORE_HEADER_WORDS + length (concat ms) + length e \<le> FLASH_PAGE_WORDS" using ms(2,3) e(5) by simp
      from target_write [OF tw e(1) fits w2 [unfolded ms(2)]]
      obtain f2 x2 where W: "s2 = s1\<lparr>flash := f2, last_flash := x2\<rparr>" "reserved f2 \<and> (works f1 \<longrightarrow> works f2 \<and> r2 = STORE_OK)" "same_page (1 - q) f1 f2"
        "holds q 0 (replicate STORE_HEADER_WORDS ERASED) f2" "r2 = STORE_OK \<longrightarrow> target_ok f2 q (ms @ [e])"
        by (auto simp: s1)
      have s2: "s2 = s\<lparr>flash := f2, last_flash := x2\<rparr>" by (simp add: W(1) s1)
      have sp2: "same_page (1 - q) (flash s) f2" using same_page_trans sp1 W(3) by blast
      have fJ2: "flash_ok f2 J" by (rule kept_ok [OF f0 sp2 no_header [OF W(4)] qJ(2) qJ(1)])
      show ?thesis
      proof (cases "r2 = STORE_OK")
        case False
        then have "r \<noteq> STORE_OK" "s' = s2" using R r1 by simp_all
        then show ?thesis using W(2) False w1 fJ2 by (intro failed [of x2 f2]) (auto simp: s2)
      next
        case r2: True
        then have th: "target_ok (flash s2) q (ms @ [e])" using W(5) by (simp add: s2)
        from header_written [OF th w3]
        obtain f3 x3 where H: "s3 = s2\<lparr>flash := f3, last_flash := x3\<rparr>" "reserved f3 \<and> (works f2 \<longrightarrow> works f3 \<and> r3 = STORE_OK)" "same_page (1 - q) f2 f3"
          "if r3 = STORE_OK then journal f3 q g (ms @ [e]) else \<not> fst (header_valid q f3)"
          by (auto simp: s2)
        have s3: "s3 = s\<lparr>flash := f3, last_flash := x3\<rparr>" by (simp add: H(1) s2)
        have sp3: "same_page (1 - q) (flash s) f3" using same_page_trans sp2 H(3) by blast
        show ?thesis
        proof (cases "r3 = STORE_OK")
          case False
          then have "r \<noteq> STORE_OK" "s' = s3" using R r1 r2 by simp_all
          moreover have "flash_ok f3 J" using H(4) False by (intro kept_ok [OF f0 sp3 _ qJ(2) qJ(1)]) simp
          ultimately show ?thesis using H(2) W(2) False w1 by (intro failed [of x3 f3]) (auto simp: s3)
        next
          case r3: True
          then have s': "r = STORE_OK" "s' = s3\<lparr>record_word := nw[t := w], record_length := (record_length s3)[t := length d],
              active := True, page := q, generation := g, used_words := w + length e, full := False,
              page_changes := page_changes s3 + 1\<rparr>"
            using R r1 r2 r3 by simp_all
          have j: "journal f3 q g (ms @ [e])" using H(4) r3 by simp
          have out: "outlived f3 q g"
          proof (cases J)
            case None
            have h: "header_valid 1 f3 = header_valid 1 (flash s)" if "q = 0"
              using sp3 that by (intro header_words_same) (auto simp: same_page_def store_ids)
            have "q = 0" using ok by (simp add: q_def store_ok_def None)
            then show ?thesis using f0 h by (auto simp: outlived_def flash_ok_def None split: prod.splits)
          next
            case (Some x)
            obtain p g0 es where J: "J = Some (p, g0, es)" using Some by (cases x) auto
            have jp: "journal (flash s) p g0 es" "active s" "generation s = g0" using ok by (simp_all add: store_ok_def flash_ok_def J)
            have p: "p < 2" "1 - q = p" using jp(1) qJ(1) [OF J] by (auto simp: journal_def)
            have "journal f3 p g0 es" using sp3 p(2) by (intro journal_same [OF jp(1)]) (simp add: same_page_def)
            then have "header_valid p f3 = (True, g0)" by (rule journal_parts)
            then show ?thesis using outlived_new [of p f3 g0] p(1) qJ(1) [OF J] jp(2,3) by (simp add: g_def)
          qed
          have tb: "tables_ok s' (ms @ [e])"
          proof -
            have l: "length (record_length s) = STORE_TYPES" using ok by (cases J) (auto simp: store_ok_def tables_ok_def)
            have "length (rec_data e) = rec_length e" by (simp add: rec_data_def)
            then have rl: "rec_length e = length d" using e(4) by simp
            have "case latest (ms @ [e]) STORE_HEADER_WORDS i of None \<Rightarrow> (nw[t := w]) ! i = 0
              | Some (v, x) \<Rightarrow> (nw[t := w]) ! i = v \<and> ((record_length s)[t := length d]) ! i = rec_length x"
              if i: "i < STORE_TYPES" for i
            proof (cases "i = t")
              case True
              then show ?thesis using ms(2,4) e(2,3) i l rl by (simp add: latest_append words_ok_def)
            next
              case False
              then show ?thesis using ms(4,5) e(2) i by (auto simp: latest_append words_ok_def split: option.splits)
            qed
            moreover have "record_word s' = nw[t := w]" "record_length s' = (record_length s)[t := length d]"
              by (simp_all add: s'(2) s3)
            moreover have "length (nw[t := w]) = STORE_TYPES" "length ((record_length s)[t := length d]) = STORE_TYPES"
              using ms(4) l by (simp_all add: words_ok_def)
            ultimately show ?thesis unfolding tables_ok_def by metis
          qed
          have rec: "recorded (Some (q, g, ms @ [e])) i = (if r = STORE_OK \<and> i = t then Some d else recorded J i)"
            if "0 < i \<and> i < STORE_TYPES" for i
            using that ms(6) [of i] e(2-4) s'(1) by (simp add: recorded_append)
          have "store_ok s' (Some (q, g, ms @ [e]))"
            using j out tb s' by (simp add: store_ok_def flash_ok_def s3 ms(2))
          then show ?thesis using H(2) W(2) w1 rec s' by (intro exI [of _ "Some (q, g, ms @ [e])"]) (simp add: s3)
        qed
      qed
    qed
  qed
qed

section \<open>A write\<close>

lemma store_ok_counters:
  "store_ok s J \<Longrightarrow> store_ok (s\<lparr>store_failures := n\<rparr>) J" "store_ok s J \<Longrightarrow> store_ok (s\<lparr>last_result := x\<rparr>) J"
  by (auto simp: store_ok_def tables_ok_def split: option.splits prod.splits)

lemma store_ok_full: "store_ok s J \<Longrightarrow> store_ok (s\<lparr>full := True\<rparr>) J"
  by (auto simp: store_ok_def tables_ok_def split: option.splits prod.splits)

lemma store_write_result:
  assumes ok: "store_ok s J" and res: "reserved (flash s)" and cd: "cut_detected t d"
    and w: "store_write t d s = (r, s')"
  shows "\<exists>J'. store_ok s' J' \<and>
    (reserved (flash s') \<and> (works (flash s) \<longrightarrow> works (flash s') \<and>
       (0 < t \<and> t < STORE_TYPES \<and> length d \<le> STORE_RECORD_MAX_BYTES \<longrightarrow> r = STORE_OK))) \<and>
    (\<forall>i. 0 < i \<and> i < STORE_TYPES \<longrightarrow> recorded J' i = (if r = STORE_OK \<and> i = t then Some d else recorded J i))"
proof (cases "t = 0 \<or> t \<ge> STORE_TYPES \<or> length d > STORE_RECORD_MAX_BYTES")
  case True
  then have "r = STORE_BAD_ARGUMENT" "s' = s\<lparr>last_result := STORE_BAD_ARGUMENT\<rparr>"
    using w by (simp_all only: store_write_def if_True prod.inject)
  then show ?thesis using True ok res store_ok_counters(2) [OF ok] by (intro exI [of _ J]) auto
next
  case bad: False
  then have t: "0 < t" "t < STORE_TYPES" "length d \<le> STORE_RECORD_MAX_BYTES" by auto
  define x where "x = (if store_write_erases (length d) s then (False, s)
                        else let (a, u) = try_append t d s in (a, if a then u else u\<lparr>full := True\<rparr>))"
  obtain appended s1 where x1: "x = (appended, s1)" by fastforce
  have "\<exists>J1. store_ok s1 J1 \<and> (reserved (flash s1) \<and> (works (flash s) \<longrightarrow> works (flash s1))) \<and>
      (\<forall>i. recorded J1 i = (if appended \<and> i = t then Some d else recorded J i))"
  proof (cases "store_write_erases (length d) s")
    case True
    then show ?thesis using x1 ok res by (auto simp: x_def)
  next
    case False
    then have "active s" by (simp add: store_write_erases_def)
    then obtain p g es where J: "J = Some (p, g, es)" using ok by (cases J) (auto simp: store_ok_def)
    obtain a u where a: "try_append t d s = (a, u)" by fastforce
    have s1: "appended = a" "s1 = (if a then u else u\<lparr>full := True\<rparr>)" using x1 False by (auto simp: x_def a)
    have "flash s1 = flash u" by (simp add: s1)
    from try_append_result [OF ok [unfolded J] res False t cd a] obtain es' where E:
      "store_ok s1 (Some (p, g, es'))" "reserved (flash u) \<and> (works (flash s) \<longrightarrow> works (flash u) \<and> a)"
      "recorded (Some (p, g, es')) = (if appended then (recorded J)(t := Some d) else recorded J)"
      unfolding s1 J by blast
    then show ?thesis using \<open>flash s1 = flash u\<close> by (intro exI [of _ "Some (p, g, es')"]) simp
  qed
  then obtain J1 where J1: "store_ok s1 J1" "reserved (flash s1) \<and> (works (flash s) \<longrightarrow> works (flash s1))"
    "\<And>i. recorded J1 i = (if appended \<and> i = t then Some d else recorded J i)" by blast
  have st: "(r, s') = (if appended then (STORE_OK, s1)
      else let (r, s2) = change_page t d s1; s3 = (if r \<noteq> STORE_OK then s2\<lparr>store_failures := store_failures s2 + 1\<rparr> else s2)
           in (r, s3\<lparr>last_result := r\<rparr>))"
    using w bad unfolding store_write_def x_def [symmetric] x1 by simp
  show ?thesis
  proof (cases appended)
    case True
    then show ?thesis using st J1 by (intro exI [of _ J1]) simp
  next
    case False
    obtain r2 s2 where c: "change_page t d s1 = (r2, s2)" by fastforce
    have s': "r = r2" "s' = (if r2 \<noteq> STORE_OK then s2\<lparr>store_failures := store_failures s2 + 1\<rparr> else s2)\<lparr>last_result := r2\<rparr>"
      using st False by (simp_all add: c Let_def)
    from change_page_result [OF J1(1) conjunct1 [OF J1(2)] t c] obtain J' where J':
      "store_ok s2 J'" "reserved (flash s2) \<and> (works (flash s1) \<longrightarrow> works (flash s2) \<and> r2 = STORE_OK)"
      "\<And>i. 0 < i \<Longrightarrow> i < STORE_TYPES \<Longrightarrow> recorded J' i = (if r2 = STORE_OK \<and> i = t then Some d else recorded J1 i)" by blast
    have "store_ok s' J'" using J'(1) store_ok_counters by (simp add: s')
    then show ?thesis using J'(2,3) J1(2,3) False s' by (intro exI [of _ J']) simp
  qed
qed

end
