(* ===== verification/Store_Run.thy ===== *)
theory Store_Run
  imports Page_Change
begin

text \<open>
  The store over its life: boots and writes in any order, against a flash that may fail or lose
  power at any operation. The map of the last data written with success is what a reader finds.
\<close>

section \<open>A life of the store\<close>

text \<open>At boot (\<open>main.c\<close>: \<open>flash_init\<close>, then \<open>store_init\<close>) the controller's answers are new ones; the
  cells are what the last operations left.\<close>

definition boot :: "(nat \<Rightarrow> bool) \<Rightarrow> Flash \<Rightarrow> Store" where
  "boot answers f =
     store_init (snd (flash_init (of_nat FLASH_STORE_BASE) (of_nat FLASH_CONFIG_PAGE) (f\<lparr>performs := answers\<rparr>)))"

datatype store_event = Write nat "u8 list" | Reset "nat \<Rightarrow> bool"

type_synonym written = "nat \<Rightarrow> u8 list option"

fun happens :: "store_event \<Rightarrow> Store \<times> written \<Rightarrow> Store \<times> written" where
  "happens (Write t d) (s, m) =
     (let (r, s') = store_write t d s in (s', if r = STORE_OK then m(t := Some d) else m))"
| "happens (Reset answers) (s, m) = (boot answers (flash s), m)"

text \<open>The data of a write is such that its record, cut short and with the rest erased, fails its
  CRC at every double word. Any other data fails one time in 65536.\<close>

fun cut_shows :: "store_event \<Rightarrow> bool" where
  "cut_shows (Write t d) = cut_detected t d"
| "cut_shows (Reset answers) = True"

section \<open>What is stored\<close>

lemma flash_ok_same_cells:
  "flash_ok f J \<Longrightarrow> flash_ok (snd (flash_init a b (f\<lparr>performs := x\<rparr>))) J"
  by (rule flash_ok_cells) (simp_all add: flash_init_def Let_def)

lemma boot_ok:
  assumes "flash_ok f J"
  shows "store_ok (boot x f) J" "reserved (flash (boot x f))"
proof -
  have "reserved (snd (flash_init (of_nat FLASH_STORE_BASE) (of_nat FLASH_CONFIG_PAGE) (f\<lparr>performs := x\<rparr>)))"
    by (simp add: flash_init_def FLASH_STORE_BASE_def FLASH_CONFIG_PAGE_def FLASH_ADDRESS_MASK_def)
  then show "store_ok (boot x f) J" "reserved (flash (boot x f))"
    using store_init_ok [OF flash_ok_same_cells [OF assms]] by (simp_all add: boot_def)
qed

definition keeps :: "Store \<times> written \<Rightarrow> bool" where
  "keeps x \<longleftrightarrow> (\<exists>J. store_ok (fst x) J \<and> reserved (flash (fst x)) \<and>
     (\<forall>t. 0 < t \<and> t < STORE_TYPES \<longrightarrow> recorded J t = snd x t))"

lemma keeps_event:
  assumes "keeps x" "cut_shows e"
  shows "keeps (happens e x)"
proof (cases e)
  case (Write t d)
  obtain s m where x: "x = (s, m)" by fastforce
  obtain r s' where w: "store_write t d s = (r, s')" by fastforce
  obtain J where J: "store_ok s J" "reserved (flash s)" "\<forall>i. 0 < i \<and> i < STORE_TYPES \<longrightarrow> recorded J i = m i"
    using assms(1) by (auto simp: keeps_def x)
  have "cut_detected t d" using assms(2) by (simp add: Write)
  from store_write_result [OF J(1,2) this w] J(3) show ?thesis
    by (force simp: keeps_def Write x w)
next
  case (Reset a)
  obtain s m where x: "x = (s, m)" by fastforce
  obtain J where J: "store_ok s J" "\<forall>i. 0 < i \<and> i < STORE_TYPES \<longrightarrow> recorded J i = m i"
    using assms(1) by (auto simp: keeps_def x)
  have "flash_ok (flash s) J" using J(1) by (simp add: store_ok_def)
  from boot_ok [OF this] J(2) show ?thesis by (force simp: keeps_def Reset x)
qed

interpretation kept: stepper happens cut_shows keeps
  by unfold_locales (rule keeps_event)

lemma keeps_first: "\<not> fst (header_valid 0 f) \<Longrightarrow> \<not> fst (header_valid 1 f) \<Longrightarrow> keeps (boot a f, Map.empty)"
  using boot_ok [of f None a] by (auto simp: keeps_def flash_ok_def recorded_def)

lemma keeps_run:
  assumes "\<not> fst (header_valid 0 f)" "\<not> fst (header_valid 1 f)" "list_all cut_shows es"
    "fold happens es (boot answers f, Map.empty) = (s, m)"
  shows "keeps (s, m)"
  using kept.run_invar [OF assms(3) keeps_first [OF assms(1,2)]] unfolding assms(4) [symmetric] .

lemma keeps_read:
  "keeps x \<Longrightarrow> 0 < t \<Longrightarrow> t < STORE_TYPES \<Longrightarrow>
    store_read t n (fst x) = (case snd x t of Some d \<Rightarrow> if length d \<le> n then Some d else None | None \<Rightarrow> None)"
  by (auto simp: keeps_def store_read_recorded)

lemma keeps_flash: "keeps x \<Longrightarrow> \<exists>J. flash_ok (flash (fst x)) J"
  by (auto simp: keeps_def store_ok_def)

lemma write_works:
  assumes "flash_ok f J" "0 < t" "t < STORE_TYPES" "length d \<le> STORE_RECORD_MAX_BYTES" "cut_detected t d"
    "store_write t d (boot (\<lambda>_. True) f) = (r, s')"
  shows "r = STORE_OK \<and> store_read t (length d) s' = Some d"
proof -
  have b: "store_ok (boot (\<lambda>_. True) f) J" "reserved (flash (boot (\<lambda>_. True) f))" by (rule boot_ok [OF assms(1)])+
  have "works (flash (boot (\<lambda>_. True) f))"
    using store_init_ok [OF flash_ok_same_cells [OF assms(1)]] by (simp add: boot_def works_def flash_init_def Let_def)
  with store_write_result [OF b assms(5,6)] assms(2-4) obtain J' where
    "store_ok s' J'" "r = STORE_OK" "recorded J' t = Some d" by auto
  then show ?thesis using store_read_recorded [of s' J' t "length d"] assms(2,3) by simp
qed

section \<open>The properties\<close>

definition blank_flash :: Flash where
  "blank_flash = \<lparr>cells = (\<lambda>_. 0xFFFF), reserved = False, performs = (\<lambda>_. True), operations = 0, wrerr = False,
     flash_erases = 0, flash_writes = 0, flash_failures = 0\<rparr>"

lemma blank_flash_headers: "\<not> fst (header_valid 0 blank_flash)" "\<not> fst (header_valid 1 blank_flash)"
  by (rule header_erased; simp add: read_word_def flash_read_word_def blank_flash_def ERASED_def)+

lemma cut_detected_example: "cut_detected 1 [1, 2, 3]" "cut_detected 2 [9]"
  by code_simp+

text \<open>
  C3: The store keeps what was written. Start a store on a flash without a valid header and let
  any writes and resets follow, each reset with its own controller, which may refuse any operation
  and so also every one from some moment on, as a loss of power does. Then for each type the store
  reads back the data of the last write that returned OK: a failed or interrupted write, an
  append as well as a change of page, loses nothing and changes nothing, and a reset at any
  operation of the flash leaves the same records. A record that was cut short is recognised by
  its CRC; the hypothesis names the data for which it is.
\<close>
theorem store_keeps_last:
  assumes "\<not> fst (header_valid 0 f)" "\<not> fst (header_valid 1 f)" "list_all cut_shows es"
    "fold happens es (boot answers f, Map.empty) = (s, m)" "0 < t" "t < STORE_TYPES"
  shows "store_read t n s = (case m t of Some d \<Rightarrow> if length d \<le> n then Some d else None | None \<Rightarrow> None)"
  using keeps_read [OF keeps_run [OF assms(1-4)] assms(5,6)] by simp

text \<open>A write, a loss of power for good and a last boot: the data of the write is read.\<close>

theorem store_keeps_last_witness:
  "\<exists>s m. fold happens [Write 1 [1, 2, 3], Reset (\<lambda>_. False), Reset (\<lambda>_. True)] (boot (\<lambda>_. True) blank_flash, Map.empty) = (s, m)
     \<and> store_read 1 8 s = Some [1, 2, 3]"
proof -
  let ?es = "[Write 1 [1, 2, 3], Reset (\<lambda>_. False), Reset (\<lambda>_. True)]"
  obtain s m where r: "fold happens ?es (boot (\<lambda>_. True) blank_flash, Map.empty) = (s, m)" by fastforce
  obtain r1 s1 where w: "store_write 1 [1, 2, 3] (boot (\<lambda>_. True) blank_flash) = (r1, s1)" by fastforce
  have "flash_ok blank_flash None" using blank_flash_headers by (simp add: flash_ok_def)
  from write_works [OF this _ _ _ cut_detected_example(1) w]
  have "r1 = STORE_OK" by (simp add: store_ids)
  then have "m 1 = Some [1, 2, 3]" using r w by (auto simp del: One_nat_def)
  moreover have "list_all cut_shows ?es" by (simp only: list_all_iff list.set insert_iff ball_simps cut_shows.simps cut_detected_example simp_thms)
  ultimately show ?thesis
    using store_keeps_last [OF blank_flash_headers _ r, of 1 8] r by (simp add: store_ids)
qed

text \<open>
  C11: The store recovers. After any writes, failures and resets as above, once the clock boots with a
  flash that does what it is asked, a write of data of an allowed type and length returns OK and
  its data is read back: neither torn records nor a full page nor a change that was cut off
  leaves the store unable to write.
\<close>
theorem store_recovers:
  assumes "\<not> fst (header_valid 0 f)" "\<not> fst (header_valid 1 f)" "list_all cut_shows es"
    "fold happens es (boot answers f, Map.empty) = (s, m)" "0 < t" "t < STORE_TYPES"
    "length d \<le> STORE_RECORD_MAX_BYTES" "cut_detected t d" "store_write t d (boot (\<lambda>_. True) (flash s)) = (r, s')"
  shows "r = STORE_OK \<and> store_read t (length d) s' = Some d"
proof -
  obtain J where "flash_ok (flash s) J" using keeps_flash [OF keeps_run [OF assms(1-4)]] by auto
  then show ?thesis by (rule write_works [OF _ assms(5-9)])
qed

theorem store_recovers_witness:
  "\<exists>s m s'. fold happens [Write 1 [1, 2, 3], Reset (\<lambda>_. False)] (boot (\<lambda>n. n < 9) blank_flash, Map.empty) = (s, m)
     \<and> store_write 2 [9] (boot (\<lambda>_. True) (flash s)) = (STORE_OK, s') \<and> store_read 2 1 s' = Some [9]"
proof -
  let ?es = "[Write 1 [1, 2, 3], Reset (\<lambda>_. False)]"
  obtain s m where r: "fold happens ?es (boot (\<lambda>n. n < 9) blank_flash, Map.empty) = (s, m)" by fastforce
  obtain r2 s' where w: "store_write 2 [9] (boot (\<lambda>_. True) (flash s)) = (r2, s')" by fastforce
  have "list_all cut_shows ?es" by (simp only: list_all_iff list.set insert_iff ball_simps cut_shows.simps cut_detected_example simp_thms)
  from store_recovers [OF blank_flash_headers this r _ _ _ cut_detected_example(2) w] r w show ?thesis
    by (simp add: store_ids)
qed

end
