(* ===== verification/Scheduler.thy ===== *)
theory Scheduler
  imports Prelude
begin

text \<open>
  The main loop's scheduler (\<open>dspic_src/timing/scheduler.c\<close>). A task is known by its number,
  \<open>tasks\<close> holds each one's structure and \<open>seen\<close> the numbers in the order of the linked list.
  What the epoch timer reads at each call is an argument. Not modelled: the text of the report.
\<close>

section \<open>The code\<close>

datatype SchedulerKind = SCHEDULER_PERIODIC | SCHEDULER_SLOT | SCHEDULER_SECTION_KIND

record SchedulerTask =
  kind :: SchedulerKind
  interval :: u16
  started :: bool
  next_ms :: u32
  last_epoch :: u32
  runs :: u32
  missed :: u32
  late_max :: u16
  busy_max :: u16
  busy_ms :: u32

definition SCHEDULER_TASK :: "SchedulerKind \<Rightarrow> u16 \<Rightarrow> SchedulerTask" where
  "SCHEDULER_TASK k n = \<lparr>kind = k, interval = n, started = False, next_ms = 0, last_epoch = 0, runs = 0, missed = 0,
     late_max = 0, busy_max = 0, busy_ms = 0\<rparr>"

definition SCHEDULER_EVERY :: "u16 \<Rightarrow> SchedulerTask" where
  "SCHEDULER_EVERY period_ms = SCHEDULER_TASK SCHEDULER_PERIODIC period_ms"

definition SCHEDULER_AT_SLOT :: "u16 \<Rightarrow> SchedulerTask" where
  "SCHEDULER_AT_SLOT n = SCHEDULER_TASK SCHEDULER_SLOT n"

definition SCHEDULER_SECTION :: SchedulerTask where
  "SCHEDULER_SECTION = SCHEDULER_TASK SCHEDULER_SECTION_KIND 0"

record Scheduler =
  now_ms :: u32
  epoch :: u32
  slot :: u16
  passed :: bool
  pass_start_ms :: u32
  pass_max_ms :: u16
  pass_max_taken_ms :: u16
  passes :: u32
  tasks :: "nat \<Rightarrow> SchedulerTask"
  seen :: "nat list"
  running :: "nat option"
  running_since_ms :: u32
  report_start_ms :: u32

definition time_ms_elapsed :: "u32 \<Rightarrow> u32 \<Rightarrow> u32" where
  "time_ms_elapsed now previous = now - previous"

definition enrol :: "nat \<Rightarrow> Scheduler \<Rightarrow> Scheduler" where
  "enrol k s =
     s\<lparr>seen := seen s @ [k],
       tasks := (tasks s)(k := (tasks s k)\<lparr>started := True, next_ms := now_ms s + ucast (interval (tasks s k)),
                                          last_epoch := epoch s - 1\<rparr>)\<rparr>"

text \<open>A \<open>uint32_t\<close> into a \<open>uint16_t\<close> that keeps the worst, saturating.\<close>

definition worst :: "u32 \<Rightarrow> u16 \<Rightarrow> u16" where
  "worst v m = (if v > ucast m then if v > 0xFFFF then 0xFFFF else ucast v else m)"

definition stop_running :: "u32 \<Rightarrow> Scheduler \<Rightarrow> Scheduler" where
  "stop_running ms s =
     (case running s of None \<Rightarrow> s
      | Some k \<Rightarrow>
          let busy = time_ms_elapsed ms (running_since_ms s); t = tasks s k
          in s\<lparr>tasks := (tasks s)(k := t\<lparr>busy_ms := busy_ms t + busy, busy_max := worst busy (busy_max t)\<rparr>),
               running := None\<rparr>)"

definition start_running :: "u32 \<Rightarrow> nat \<Rightarrow> Scheduler \<Rightarrow> Scheduler" where
  "start_running ms k s =
     s\<lparr>tasks := (tasks s)(k := (tasks s k)\<lparr>runs := runs (tasks s k) + 1\<rparr>), running := Some k,
       running_since_ms := ms\<rparr>"

definition note_lateness :: "u32 \<Rightarrow> SchedulerTask \<Rightarrow> SchedulerTask" where
  "note_lateness late t = t\<lparr>late_max := worst late (late_max t)\<rparr>"

definition periodic_due :: "u32 \<Rightarrow> SchedulerTask \<Rightarrow> bool \<times> SchedulerTask" where
  "periodic_due now t =
     (if sint (now - next_ms t) < 0 then (False, t)
      else let late = time_ms_elapsed now (next_ms t); t1 = note_lateness late t; n = ucast (interval t)
           in (True, t1\<lparr>missed := missed t1 + late div n, next_ms := next_ms t1 + n * (late div n + 1)\<rparr>))"

definition slot_due :: "u32 \<Rightarrow> u16 \<Rightarrow> SchedulerTask \<Rightarrow> bool \<times> SchedulerTask" where
  "slot_due epoch_now slot_now t =
     (let epochs = epoch_now - last_epoch t
      in if epochs = 0 \<or> slot_now < interval t then (False, t)
         else let t1 = note_lateness (ucast (slot_now - interval t)) t
              in (True, t1\<lparr>missed := missed t1 + (epochs - 1), last_epoch := epoch_now\<rparr>))"

definition scheduler_pass :: "u32 \<Rightarrow> u32 \<Rightarrow> u32 \<Rightarrow> u16 \<Rightarrow> Scheduler \<Rightarrow> Scheduler" where
  "scheduler_pass stop_ms ms e sl s0 =
     (let s = (stop_running stop_ms s0)\<lparr>now_ms := ms, epoch := e, slot := sl\<rparr>;
          pass_ms = time_ms_elapsed ms (pass_start_ms s);
          s1 = (if passed s then s\<lparr>pass_max_ms := worst pass_ms (pass_max_ms s),
                                   pass_max_taken_ms := worst pass_ms (pass_max_taken_ms s)\<rparr> else s)
      in s1\<lparr>passed := True, pass_start_ms := ms, passes := passes s1 + 1\<rparr>)"

definition scheduler_begin :: "u32 \<Rightarrow> u32 \<Rightarrow> u16 \<Rightarrow> Scheduler \<Rightarrow> Scheduler" where
  "scheduler_begin ms e sl s =
     (let s1 = scheduler_pass ms ms e sl (s\<lparr>seen := [], running := None, passed := False, passes := 0,
                                            pass_max_ms := 0, pass_max_taken_ms := 0\<rparr>)
      in s1\<lparr>report_start_ms := now_ms s1\<rparr>)"

definition scheduler_due :: "u32 \<Rightarrow> u32 \<Rightarrow> nat \<Rightarrow> Scheduler \<Rightarrow> bool \<times> Scheduler" where
  "scheduler_due stop_ms start_ms k s0 =
     (let s1 = stop_running stop_ms s0;
          s2 = (if started (tasks s1 k) then s1 else enrol k s1);
          (due, t) = (if kind (tasks s2 k) = SCHEDULER_SLOT then slot_due (epoch s2) (slot s2) (tasks s2 k)
                      else periodic_due (now_ms s2) (tasks s2 k));
          s3 = s2\<lparr>tasks := (tasks s2)(k := t)\<rparr>
      in (due, if due then start_running start_ms k s3 else s3))"

definition scheduler_section :: "u32 \<Rightarrow> u32 \<Rightarrow> nat \<Rightarrow> Scheduler \<Rightarrow> Scheduler" where
  "scheduler_section stop_ms start_ms k s0 =
     (let s1 = stop_running stop_ms s0
      in start_running start_ms k (if started (tasks s1 k) then s1 else enrol k s1))"

definition permille :: "u32 \<Rightarrow> u32 \<Rightarrow> u32" where
  "permille part whole = (if whole = 0 then 0 else (part * 1000 + whole div 2) div whole)"

definition scheduler_take_longest_pass_ms :: "Scheduler \<Rightarrow> u16 \<times> Scheduler" where
  "scheduler_take_longest_pass_ms s = (pass_max_taken_ms s, s\<lparr>pass_max_taken_ms := 0\<rparr>)"

text \<open>What the report leaves behind.\<close>

definition scheduler_print :: "u32 \<Rightarrow> u32 \<Rightarrow> Scheduler \<Rightarrow> Scheduler" where
  "scheduler_print stop_ms end_ms s0 =
     (let s = stop_running stop_ms s0
      in s\<lparr>tasks := (\<lambda>k. if k \<in> set (seen s) then (tasks s k)\<lparr>busy_ms := 0, busy_max := 0\<rparr> else tasks s k),
           passes := 0, pass_max_ms := 0, report_start_ms := end_ms\<rparr>)"

lemma unat_small: "n < 2 ^ 32 \<Longrightarrow> unat (of_nat n :: u32) = n"
  by (simp add: unat_of_nat)

section \<open>Passes of the main loop\<close>

text \<open>
  One pass as a task sees it: the time, epoch and slot read at its top, the calls for other tasks
  that come before it, and its own \<open>scheduler_due\<close>. Times and epochs are counted without
  wrapping here; the code sees them modulo 2^32. The other numbers are what the timer read when
  the timing of the last task ended and the next one began.
\<close>

datatype other_call = Other_Due nat u32 u32 | Other_Section nat u32 u32

fun other_id :: "other_call \<Rightarrow> nat" where
  "other_id (Other_Due k a b) = k"
| "other_id (Other_Section k a b) = k"

fun make_call :: "other_call \<Rightarrow> Scheduler \<Rightarrow> Scheduler" where
  "make_call (Other_Due k a b) s = snd (scheduler_due a b k s)"
| "make_call (Other_Section k a b) s = scheduler_section a b k s"

record pass =
  at_ms :: nat
  at_epoch :: nat
  at_slot :: u16
  others :: "other_call list"
  readings :: "u32 \<times> u32 \<times> u32"

definition poll :: "nat \<Rightarrow> pass \<Rightarrow> Scheduler \<Rightarrow> bool \<times> Scheduler" where
  "poll k r s =
     (let (a, b, c) = readings r
      in scheduler_due b c k
           (fold make_call (others r) (scheduler_pass a (of_nat (at_ms r)) (of_nat (at_epoch r)) (at_slot r) s)))"

fun polls :: "nat \<Rightarrow> pass list \<Rightarrow> Scheduler \<Rightarrow> bool list \<times> Scheduler" where
  "polls k [] s = ([], s)"
| "polls k (r # rs) s = (let (d, s1) = poll k r s; (ds, s2) = polls k rs s1 in (d # ds, s2))"

definition passes_ok :: "nat \<Rightarrow> pass list \<Rightarrow> bool" where
  "passes_ok k rs \<longleftrightarrow> list_all (\<lambda>r. list_all (\<lambda>c. other_id c \<noteq> k) (others r)) rs"

text \<open>What the calls for other tasks leave alone of a task: everything but its timing.\<close>

definition core :: "SchedulerTask \<Rightarrow> SchedulerTask" where
  "core t = t\<lparr>late_max := 0, busy_max := 0, busy_ms := 0\<rparr>"

lemma core_fields:
  "core t = core u \<Longrightarrow> kind t = kind u \<and> interval t = interval u \<and> started t = started u \<and> next_ms t = next_ms u
     \<and> last_epoch t = last_epoch u \<and> runs t = runs u \<and> missed t = missed u"
  by (cases t; cases u) (simp add: core_def)

lemma stop_running_core [simp]: "core (tasks (stop_running ms s) k) = core (tasks s k)"
  by (auto simp: stop_running_def core_def Let_def split: option.splits)

lemma stop_running_fields [simp]:
  "now_ms (stop_running ms s) = now_ms s" "epoch (stop_running ms s) = epoch s" "slot (stop_running ms s) = slot s"
  by (auto simp: stop_running_def Let_def split: option.splits)

lemma due_other:
  "k \<noteq> j \<Longrightarrow> core (tasks (snd (scheduler_due a b k s)) j) = core (tasks s j)"
  "now_ms (snd (scheduler_due a b k s)) = now_ms s" "epoch (snd (scheduler_due a b k s)) = epoch s"
  "slot (snd (scheduler_due a b k s)) = slot s"
  by (simp_all add: scheduler_due_def enrol_def start_running_def Let_def split: prod.splits)

lemma section_other:
  "k \<noteq> j \<Longrightarrow> core (tasks (scheduler_section a b k s) j) = core (tasks s j)"
  "now_ms (scheduler_section a b k s) = now_ms s" "epoch (scheduler_section a b k s) = epoch s"
  "slot (scheduler_section a b k s) = slot s"
  by (simp_all add: scheduler_section_def enrol_def start_running_def Let_def)

lemma others_frame:
  "list_all (\<lambda>c. other_id c \<noteq> j) cs \<Longrightarrow> core (tasks (fold make_call cs s) j) = core (tasks s j)
     \<and> now_ms (fold make_call cs s) = now_ms s \<and> epoch (fold make_call cs s) = epoch s \<and> slot (fold make_call cs s) = slot s"
proof (induction cs arbitrary: s)
  case (Cons c cs)
  then show ?case by (cases c) (simp_all add: due_other section_other)
qed simp

lemma pass_fields [simp]:
  "core (tasks (scheduler_pass a ms e sl s) k) = core (tasks s k)" "now_ms (scheduler_pass a ms e sl s) = ms"
  "epoch (scheduler_pass a ms e sl s) = e" "slot (scheduler_pass a ms e sl s) = sl"
  by (simp_all add: scheduler_pass_def Let_def)

text \<open>What a poll does to its task, from the task as it was and the readings of the pass.\<close>

definition decide :: "u32 \<Rightarrow> u32 \<Rightarrow> u16 \<Rightarrow> SchedulerTask \<Rightarrow> bool \<times> SchedulerTask" where
  "decide ms e sl t0 =
     (let t = (if started t0 then t0 else t0\<lparr>started := True, next_ms := ms + ucast (interval t0), last_epoch := e - 1\<rparr>);
          (due, t1) = (if kind t = SCHEDULER_SLOT then slot_due e sl t else periodic_due ms t)
      in (due, if due then t1\<lparr>runs := runs t1 + 1\<rparr> else t1))"

lemma decide_core:
  assumes "core t = core u"
  shows "fst (decide ms e sl t) = fst (decide ms e sl u)" "core (snd (decide ms e sl t)) = core (snd (decide ms e sl u))"
  using core_fields [OF assms] assms
  by (cases t; cases u; simp add: decide_def slot_due_def periodic_due_def note_lateness_def core_def Let_def)+

lemma poll_decides:
  assumes "list_all (\<lambda>c. other_id c \<noteq> k) (others r)" "poll k r s = (d, s')"
  shows "d = fst (decide (of_nat (at_ms r)) (of_nat (at_epoch r)) (at_slot r) (tasks s k))"
    "core (tasks s' k) = core (snd (decide (of_nat (at_ms r)) (of_nat (at_epoch r)) (at_slot r) (tasks s k)))"
proof -
  obtain a b c where r: "readings r = (a, b, c)" by (cases "readings r") auto
  define s1 where "s1 = stop_running b (fold make_call (others r)
     (scheduler_pass a (of_nat (at_ms r)) (of_nat (at_epoch r)) (at_slot r) s))"
  have f: "core (tasks s1 k) = core (tasks s k)" "now_ms s1 = of_nat (at_ms r)" "epoch s1 = of_nat (at_epoch r)" "slot s1 = at_slot r"
    using others_frame [OF assms(1)] by (simp_all add: s1_def)
  have p: "poll k r s = (let s2 = (if started (tasks s1 k) then s1 else enrol k s1);
          (due, t) = (if kind (tasks s2 k) = SCHEDULER_SLOT then slot_due (epoch s2) (slot s2) (tasks s2 k)
                      else periodic_due (now_ms s2) (tasks s2 k));
          s3 = s2\<lparr>tasks := (tasks s2)(k := t)\<rparr>
      in (due, if due then start_running c k s3 else s3))"
    unfolding poll_def r prod.case scheduler_due_def s1_def [symmetric] Let_def by (rule refl)
  have "d = fst (decide (now_ms s1) (epoch s1) (slot s1) (tasks s1 k)) \<and>
      tasks s' k = snd (decide (now_ms s1) (epoch s1) (slot s1) (tasks s1 k))"
    using p assms(2) by (auto simp: decide_def enrol_def start_running_def Let_def split: prod.splits if_splits)
  then show "d = fst (decide (of_nat (at_ms r)) (of_nat (at_epoch r)) (at_slot r) (tasks s k))"
    "core (tasks s' k) = core (snd (decide (of_nat (at_ms r)) (of_nat (at_epoch r)) (at_slot r) (tasks s k)))"
    using decide_core [OF f(1)] by (simp_all add: f(2-4))
qed

section \<open>A periodic task\<close>

text \<open>A task first polled at \<open>T\<^sub>0\<close> falls due at \<open>T\<^sub>0 + p\<close>, \<open>T\<^sub>0 + 2p\<close> and so on; it runs in a poll that has one or
  more of these moments between it and the poll before.\<close>

fun grid_runs :: "nat \<Rightarrow> nat \<Rightarrow> nat \<Rightarrow> nat list \<Rightarrow> bool list" where
  "grid_runs t0 p t [] = []"
| "grid_runs t0 p t (t' # ts) = ((t - t0) div p < (t' - t0) div p) # grid_runs t0 p t' ts"

fun follows :: "nat \<Rightarrow> nat list \<Rightarrow> bool" where
  "follows t [] = True"
| "follows t (t' # ts) \<longleftrightarrow> t \<le> t' \<and> t' - t \<le> 2 ^ 31 \<and> follows t' ts"

definition on_grid :: "nat \<Rightarrow> u16 \<Rightarrow> nat \<Rightarrow> SchedulerTask \<Rightarrow> bool" where
  "on_grid t0 p t k \<longleftrightarrow> started k \<and> kind k = SCHEDULER_PERIODIC \<and> interval k = p \<and> t0 \<le> t \<and>
     next_ms k = of_nat (t0 + unat p * ((t - t0) div unat p + 1)) \<and>
     runs k + missed k = of_nat ((t - t0) div unat p)"

lemma on_grid_core: "core t = core u \<Longrightarrow> on_grid t0 p x t = on_grid t0 p x u"
  using core_fields [of t u] by (simp add: on_grid_def)

lemma ms_since:
  assumes "int t - int n < 2147483648" "- 2147483648 \<le> int t - int n"
  shows "sint (of_nat t - of_nat n :: u32) = int t - int n"
proof -
  have "(of_nat t - of_nat n :: u32) = word_of_int (int t - int n)" by simp
  then show ?thesis using assms by (simp only: sint_word_of_int_i32 in_i32I)
qed

lemma periodic_step:
  assumes g: "on_grid t0 p t k" and p: "0 < unat p" and t: "t \<le> t'" "t' - t \<le> 2 ^ 31"
    and d: "decide (of_nat t') e sl k = (due, k')"
  shows "(due \<longleftrightarrow> (t - t0) div unat p < (t' - t0) div unat p) \<and> on_grid t0 p t' k'"
proof -
  define n where "n = (t - t0) div unat p"
  define x where "x = t0 + unat p * (n + 1)"
  have f: "started k" "kind k = SCHEDULER_PERIODIC" "interval k = p" "t0 \<le> t" "next_ms k = of_nat x" "runs k + missed k = of_nat n"
    using g by (simp_all add: on_grid_def x_def n_def)
  have D: "(due, k') = (let (a, b) = periodic_due (of_nat t') k in (a, if a then b\<lparr>runs := runs b + 1\<rparr> else b))"
    using d f(1,2) by (simp add: decide_def split: prod.splits)
  have tx: "t < x" "x \<le> t + unat p"
  proof -
    have "t - t0 = n * unat p + (t - t0) mod unat p" by (simp add: n_def)
    moreover have "(t - t0) mod unat p < unat p" using p by simp
    ultimately show "t < x" "x \<le> t + unat p" using f(4) by (simp_all add: x_def algebra_simps)
  qed
  have p16: "unat p < 65536" using unat_less_of [of p] by simp
  moreover have "t' \<le> t + 2147483648" using t by simp
  ultimately have "int t' - int x < 2147483648" "- 2147483648 \<le> int t' - int x" using tx t(1) by linarith+
  then have s: "sint (of_nat t' - of_nat x :: u32) = int t' - int x" by (rule ms_since)
  show ?thesis
  proof (cases "t' < x")
    case True
    then have r: "due = False" "k' = k" using D s f(5) by (simp_all add: periodic_due_def)
    have "t' - t0 < unat p * (n + 1)" using True f(4) t(1) unfolding x_def by linarith
    then have "(t' - t0) div unat p < n + 1" by (simp add: div_less_iff_less_mult p mult.commute)
    moreover have "n \<le> (t' - t0) div unat p" unfolding n_def using t by (intro div_le_mono) simp
    ultimately have "(t' - t0) div unat p = n" by simp
    then show ?thesis using r g t by (simp add: on_grid_def n_def)
  next
    case False
    define q where "q = (t' - x) div unat p"
    have late: "of_nat t' - next_ms k = of_nat (t' - x)" using False f(5) by (simp add: of_nat_diff)
    have small: "t' - x < 2 ^ 32" using t(2) tx(1) by simp
    have div_q: "(of_nat (t' - x) :: u32) div ucast p = of_nat q"
    proof (rule unsigned_word_eqI)
      have "unat (of_nat (t' - x) :: u32) = t' - x" using small by (simp add: unat_small)
      moreover have "unat (ucast p :: u32) = unat p" by (simp add: unat_ucast_up)
      moreover have "q < 2 ^ 32" unfolding q_def using small div_le_dividend [of "t' - x" "unat p"] by linarith
      ultimately show "unat ((of_nat (t' - x) :: u32) div ucast p) = unat (of_nat q :: u32)"
        by (simp add: unat_div_distrib unat_small q_def)
    qed
    have pw: "(ucast p :: u32) = of_nat (unat p)" by (rule unsigned_word_eqI) (simp add: unat_ucast_up unat_small less_trans [OF p16])
    have r: "due" "runs k' = runs k + 1" "missed k' = missed k + of_nat q" "next_ms k' = of_nat x + of_nat (unat p) * (of_nat q + 1)"
      "started k'" "kind k' = SCHEDULER_PERIODIC" "interval k' = p"
      using D False s f late div_q
      by (simp_all add: periodic_due_def time_ms_elapsed_def note_lateness_def Let_def pw [symmetric])
    have "t' - t0 = (t' - x) + unat p * (n + 1)" using False unfolding x_def by linarith
    then have n': "(t' - t0) div unat p = n + 1 + q" using p div_mult_self2 [of "unat p" "t' - x" "n + 1"] by (simp only: q_def)
    have "next_ms k' = of_nat (t0 + unat p * (n + 1 + q + 1))" by (simp add: r(4) x_def algebra_simps)
    moreover have "runs k' + missed k' = of_nat (n + 1 + q)" using f(6) by (simp add: r(2,3) algebra_simps)
    ultimately show ?thesis using r f t n' by (simp add: on_grid_def n_def [symmetric])
  qed
qed

lemma first_poll:
  assumes "t = SCHEDULER_EVERY p" "0 < p" "decide (of_nat t0) e sl t = (due, t')"
  shows "\<not> due \<and> on_grid t0 p t0 t'"
proof -
  define u where "u = t\<lparr>started := True, next_ms := of_nat t0 + ucast p, last_epoch := e - 1\<rparr>"
  have p16: "unat p < 65536" using unat_less_of [of p] by simp
  have nu: "next_ms u = of_nat (t0 + unat p)" by (simp add: u_def)
  have "sint (of_nat t0 - of_nat (t0 + unat p) :: u32) = int t0 - int (t0 + unat p)"
    by (rule ms_since) (use p16 in linarith)+
  moreover have "0 < unat p" using assms(2) by (simp add: unat_gt_0)
  ultimately have n: "sint (of_nat t0 - next_ms u) < 0" unfolding nu by linarith
  have f: "\<not> started t" "interval t = p" using assms(1) by (simp_all add: SCHEDULER_EVERY_def SCHEDULER_TASK_def)
  then have u: "t\<lparr>started := True, next_ms := of_nat t0 + ucast (interval t), last_epoch := e - 1\<rparr> = u" by (simp add: u_def)
  have ku: "kind u = SCHEDULER_PERIODIC" using assms(1) by (simp add: u_def SCHEDULER_EVERY_def SCHEDULER_TASK_def)
  have "periodic_due (of_nat t0) u = (False, u)" using n by (simp only: periodic_due_def if_True)
  then have "(due, t') = (False, u)"
    using assms(3) f(1) ku unfolding decide_def u by simp
  then show ?thesis
    using assms(1) nu by (simp add: u_def on_grid_def SCHEDULER_EVERY_def SCHEDULER_TASK_def)
qed

lemma polls_on_grid:
  assumes "passes_ok k rs" "on_grid t0 p t (tasks s k)" "0 < unat p" "follows t (map at_ms rs)" "polls k rs s = (ds, s')"
  shows "ds = grid_runs t0 (unat p) t (map at_ms rs) \<and> on_grid t0 p (last (t # map at_ms rs)) (tasks s' k)"
  using assms
proof (induction rs arbitrary: s t ds)
  case (Cons r rs)
  obtain d s1 where d: "poll k r s = (d, s1)" by fastforce
  obtain ds' s2 where ds: "polls k rs s1 = (ds', s2)" by fastforce
  have r: "ds = d # ds'" "s' = s2" using Cons.prems(5) by (simp_all add: d ds)
  have "list_all (\<lambda>c. other_id c \<noteq> k) (others r)" "passes_ok k rs" using Cons.prems(1) by (simp_all add: passes_ok_def)
  note P = poll_decides [OF this(1) d] and ok = this(2)
  obtain due k' where dd: "decide (of_nat (at_ms r)) (of_nat (at_epoch r)) (at_slot r) (tasks s k) = (due, k')" by fastforce
  have S: "(due \<longleftrightarrow> (t - t0) div unat p < (at_ms r - t0) div unat p) \<and> on_grid t0 p (at_ms r) k'"
    by (rule periodic_step [OF Cons.prems(2,3) _ _ dd]) (use Cons.prems(4) in simp_all)
  have "on_grid t0 p (at_ms r) (tasks s1 k)" using S on_grid_core [OF P(2)] by (simp add: dd)
  from Cons.IH [OF ok this Cons.prems(3) _ ds [folded r(2)]] Cons.prems(4) S P(1) show ?case
    by (simp add: r dd)
qed simp

section \<open>A task at a slot\<close>

text \<open>With the epoch of its last run: it runs at the first poll of a later epoch at or after its slot.\<close>

fun slot_runs :: "u16 \<Rightarrow> nat \<Rightarrow> (nat \<times> u16) list \<Rightarrow> bool list \<times> nat" where
  "slot_runs n l [] = ([], l)"
| "slot_runs n l ((e, sl) # xs) =
     (let due = l < e \<and> n \<le> sl; (ds, l') = slot_runs n (if due then e else l) xs in (due # ds, l'))"

definition at_slots :: "nat \<Rightarrow> u16 \<Rightarrow> nat \<Rightarrow> SchedulerTask \<Rightarrow> bool" where
  "at_slots e0 n l k \<longleftrightarrow> started k \<and> kind k = SCHEDULER_SLOT \<and> interval k = n \<and> e0 \<le> Suc l \<and>
     last_epoch k = of_nat l \<and> runs k + missed k = of_nat (Suc l - e0)"

lemma at_slots_core: "core t = core u \<Longrightarrow> at_slots e0 n l t = at_slots e0 n l u"
  using core_fields [of t u] by (simp add: at_slots_def)

lemma slot_step:
  assumes g: "at_slots e0 n l k" and e: "l \<le> e" "e - l < 2 ^ 32" and d: "decide ms (of_nat e) sl k = (due, k')"
  shows "(due \<longleftrightarrow> l < e \<and> n \<le> sl) \<and> at_slots e0 n (if due then e else l) k'"
proof -
  have f: "started k" "kind k = SCHEDULER_SLOT" "interval k = n" "e0 \<le> Suc l" "last_epoch k = of_nat l"
    "runs k + missed k = of_nat (Suc l - e0)" using g by (simp_all add: at_slots_def)
  have D: "(due, k') = (let (a, b) = slot_due (of_nat e) sl k in (a, if a then b\<lparr>runs := runs b + 1\<rparr> else b))"
    using d f(1,2) by (simp add: decide_def split: prod.splits)
  have w: "of_nat e - last_epoch k = of_nat (e - l)" using e(1) f(5) by (simp add: of_nat_diff)
  have z: "of_nat (e - l) = (0 :: u32) \<longleftrightarrow> \<not> l < e"
  proof -
    have "unat (of_nat (e - l) :: u32) = e - l" using e(2) by (rule unat_small)
    then show ?thesis unfolding unat_eq_zero [symmetric] by (simp add: not_less)
  qed
  define x where "x = (of_nat (e - l) :: u32)"
  have S: "slot_due (of_nat e) sl k = (if l < e \<and> n \<le> sl
      then (True, (note_lateness (ucast (sl - n)) k)\<lparr>missed := missed k + (x - 1), last_epoch := of_nat e\<rparr>) else (False, k))"
    unfolding slot_due_def Let_def w z f(3) x_def by (auto simp: not_le note_lateness_def)
  show ?thesis
  proof (cases "l < e \<and> n \<le> sl")
    case True
    then have r: "due" "k' = (let b = (note_lateness (ucast (sl - n)) k)\<lparr>missed := missed k + (x - 1), last_epoch := of_nat e\<rparr>
        in b\<lparr>runs := runs b + 1\<rparr>)" using D S by simp_all
    have "Suc e - e0 = (Suc l - e0) + (e - l)" using True f(4) by linarith
    then have "(of_nat (Suc e - e0) :: u32) = of_nat (Suc l - e0) + x" by (simp only: of_nat_add x_def)
    then have "runs k + 1 + (missed k + (x - 1)) = (of_nat (Suc e - e0) :: u32)"
      using f(6) by (simp only: algebra_simps)
    then show ?thesis using True f(1-4) r by (simp add: at_slots_def note_lateness_def Let_def)
  next
    case False
    then have "due = False" "k' = k" using D S by (simp_all split: if_splits)
    then show ?thesis using g False by simp
  qed
qed

lemma first_slot:
  assumes "t = SCHEDULER_AT_SLOT n" "0 < e0"
  shows "decide ms (of_nat e0) sl t = decide ms (of_nat e0) sl (t\<lparr>started := True, next_ms := ms + ucast n, last_epoch := of_nat (e0 - 1)\<rparr>)"
    "at_slots e0 n (e0 - 1) (t\<lparr>started := True, next_ms := ms + ucast n, last_epoch := of_nat (e0 - 1)\<rparr>)"
  using assms by (simp_all add: decide_def at_slots_def SCHEDULER_AT_SLOT_def SCHEDULER_TASK_def of_nat_diff Suc_leI)

definition slot_polls :: "pass list \<Rightarrow> (nat \<times> u16) list" where
  "slot_polls rs = map (\<lambda>r. (at_epoch r, at_slot r)) rs"

lemma poll_at_slots:
  assumes "list_all (\<lambda>c. other_id c \<noteq> k) (others r)" "poll k r s = (d, s')" "at_slots e0 n l t"
    "decide (of_nat (at_ms r)) (of_nat (at_epoch r)) (at_slot r) (tasks s k)
      = decide (of_nat (at_ms r)) (of_nat (at_epoch r)) (at_slot r) t" "l \<le> at_epoch r" "at_epoch r - l < 2 ^ 32"
  shows "(d \<longleftrightarrow> l < at_epoch r \<and> n \<le> at_slot r) \<and> at_slots e0 n (if d then at_epoch r else l) (tasks s' k)"
proof -
  note P = poll_decides [OF assms(1,2), unfolded assms(4)]
  obtain due k' where dd: "decide (of_nat (at_ms r)) (of_nat (at_epoch r)) (at_slot r) t = (due, k')" by fastforce
  have d: "d = due" "tasks s' k = tasks s' k" using P(1) by (simp_all add: dd)
  have "at_slots e0 n x (tasks s' k) = at_slots e0 n x k'" for x using at_slots_core [OF P(2)] by (simp add: dd)
  then show ?thesis unfolding d(1) using slot_step [OF assms(3,5,6) dd] by metis
qed

lemma slot_runs_Cons:
  assumes "d \<longleftrightarrow> l < at_epoch r \<and> n \<le> at_slot r" "l' = (if d then at_epoch r else l)"
  shows "slot_runs n l (slot_polls (r # rs)) = (d # fst (slot_runs n l' (slot_polls rs)), snd (slot_runs n l' (slot_polls rs)))"
  using assms by (simp add: slot_polls_def Let_def split: prod.splits)

lemma polls_at_slots:
  assumes "passes_ok k rs" "at_slots e0 n l (tasks s k)" "sorted (l # map at_epoch rs)" "list_all (\<lambda>r. at_epoch r - l < 2 ^ 32) rs"
    "polls k rs s = (ds, s')"
  shows "ds = fst (slot_runs n l (slot_polls rs)) \<and> at_slots e0 n (snd (slot_runs n l (slot_polls rs))) (tasks s' k)"
  using assms
proof (induction rs arbitrary: s l ds)
  case Nil
  then show ?case by (simp add: slot_polls_def)
next
  case (Cons r rs)
  obtain d s1 where d: "poll k r s = (d, s1)" by fastforce
  obtain ds' s2 where ds: "polls k rs s1 = (ds', s2)" by fastforce
  have r: "ds = d # ds'" "s' = s2" using Cons.prems(5) by (simp_all add: d ds)
  have ok: "list_all (\<lambda>c. other_id c \<noteq> k) (others r)" "passes_ok k rs" using Cons.prems(1) by (simp_all add: passes_ok_def)
  define l' where "l' = (if d then at_epoch r else l)"
  have P: "(d \<longleftrightarrow> l < at_epoch r \<and> n \<le> at_slot r) \<and> at_slots e0 n l' (tasks s1 k)"
    unfolding l'_def by (rule poll_at_slots [OF ok(1) d Cons.prems(2) refl]) (use Cons.prems(3,4) in simp_all)
  have "sorted (l' # map at_epoch rs)" using Cons.prems(3) by (auto simp: l'_def)
  moreover have "list_all (\<lambda>r. at_epoch r - l' < 2 ^ 32) rs"
    using Cons.prems(3,4) by (auto simp: l'_def list_all_iff intro: le_less_trans [OF diff_le_mono2])
  ultimately show ?case
    using Cons.IH [OF ok(2) conjunct2 [OF P] _ _ ds [folded r(2)]] slot_runs_Cons [OF conjunct1 [OF P] l'_def] r(1) by simp
qed

section \<open>The properties\<close>

text \<open>
  C38: A periodic task keeps to its grid. Poll a task made by SCHEDULER_EVERY(p) at times that never
  go back and are never more than 2^31 ms apart, with any calls for other tasks in between. It does
  not run at the first poll, at T0, and runs at a later one exactly when a moment T0 + i p (i > 0) has come
  since the poll before: however late a run is, the next is not delayed, and several missed
  moments are made up by one run. Runs and missed periods together are the moments passed.
\<close>
theorem periodic_runs_on_grid:
  assumes "tasks s k = SCHEDULER_EVERY p" "0 < p" "passes_ok k (r # rs)" "follows (at_ms r) (map at_ms rs)"
    "polls k (r # rs) s = (ds, s')"
  shows "ds = False # grid_runs (at_ms r) (unat p) (at_ms r) (map at_ms rs) \<and>
    runs (tasks s' k) + missed (tasks s' k) = of_nat ((last (map at_ms (r # rs)) - at_ms r) div unat p)"
proof -
  obtain d s1 where d: "poll k r s = (d, s1)" by fastforce
  obtain ds' s2 where ds: "polls k rs s1 = (ds', s2)" by fastforce
  have r: "ds = d # ds'" "s' = s2" using assms(5) by (simp_all add: d ds)
  have ok: "list_all (\<lambda>c. other_id c \<noteq> k) (others r)" "passes_ok k rs" using assms(3) by (simp_all add: passes_ok_def)
  note P = poll_decides [OF ok(1) d]
  obtain due k' where dd: "decide (of_nat (at_ms r)) (of_nat (at_epoch r)) (at_slot r) (tasks s k) = (due, k')" by fastforce
  have "\<not> due \<and> on_grid (at_ms r) p (at_ms r) k'" by (rule first_poll [OF assms(1,2) dd])
  then have F: "\<not> d" "on_grid (at_ms r) p (at_ms r) (tasks s1 k)"
    using P(1) on_grid_core [OF P(2)] by (simp_all add: dd)
  have "0 < unat p" using assms(2) by (simp add: unat_gt_0)
  from polls_on_grid [OF ok(2) F(2) this assms(4) ds [folded r(2)]] F(1) r(1) show ?thesis
    by (simp add: on_grid_def)
qed

definition some_scheduler :: Scheduler where
  "some_scheduler = \<lparr>now_ms = 0, epoch = 0, slot = 0, passed = False, pass_start_ms = 0, pass_max_ms = 0,
     pass_max_taken_ms = 0, passes = 0, tasks = (\<lambda>k. if k = 0 then SCHEDULER_EVERY 10 else SCHEDULER_AT_SLOT 500),
     seen = [], running = None, running_since_ms = 0, report_start_ms = 0\<rparr>"

definition pass_at :: "nat \<Rightarrow> nat \<Rightarrow> u16 \<Rightarrow> other_call list \<Rightarrow> pass" where
  "pass_at ms e sl cs = \<lparr>at_ms = ms, at_epoch = e, at_slot = sl, others = cs, readings = (0, 0, 0)\<rparr>"

lemmas pass_defs = pass_at_def some_scheduler_def passes_ok_def slot_polls_def

theorem periodic_runs_on_grid_witness:
  "fst (polls 0 [pass_at 4 1 4 [], pass_at 13 1 13 [Other_Due 1 0 0], pass_at 15 1 15 [], pass_at 47 1 47 [Other_Section 2 0 1]]
     some_scheduler) = [False, False, True, True]"
proof -
  let ?rs = "[pass_at 13 1 13 [Other_Due 1 0 0], pass_at 15 1 15 [], pass_at 47 1 47 [Other_Section 2 0 1]]"
  obtain ds s' where p: "polls 0 (pass_at 4 1 4 [] # ?rs) some_scheduler = (ds, s')" by fastforce
  have "ds = False # grid_runs 4 10 4 [13, 15, 47]"
    using periodic_runs_on_grid [OF _ _ _ _ p, of 10] by (simp add: pass_defs del: polls.simps)
  then show ?thesis unfolding p by simp
qed

text \<open>
  C39: A task at a slot runs once an epoch and never before its slot. Poll a task made by
  SCHEDULER_AT_SLOT(n), with any calls for other tasks in between, in epochs that never go back: it runs
  at a poll exactly when the slot is at or past n and it has not run in this epoch yet, and its
  runs and missed epochs together are the epochs from the first poll's to that of its last run.
\<close>
theorem slot_runs_once_an_epoch:
  assumes "tasks s k = SCHEDULER_AT_SLOT n" "0 < at_epoch r" "passes_ok k (r # rs)" "sorted (map at_epoch (r # rs))"
    "list_all (\<lambda>x. at_epoch x - at_epoch r < 2 ^ 32 - 1) rs" "polls k (r # rs) s = (ds, s')"
  shows "ds = fst (slot_runs n (at_epoch r - 1) (slot_polls (r # rs))) \<and>
    runs (tasks s' k) + missed (tasks s' k) = of_nat (Suc (snd (slot_runs n (at_epoch r - 1) (slot_polls (r # rs)))) - at_epoch r)"
proof -
  obtain d s1 where d: "poll k r s = (d, s1)" by fastforce
  obtain ds' s2 where ds: "polls k rs s1 = (ds', s2)" by fastforce
  have r: "ds = d # ds'" "s' = s2" using assms(6) by (simp_all add: d ds)
  have ok: "list_all (\<lambda>c. other_id c \<noteq> k) (others r)" "passes_ok k rs" using assms(3) by (simp_all add: passes_ok_def)
  define e0 where "e0 = at_epoch r"
  define l where "l = (if d then e0 else e0 - 1)"
  have P: "(d \<longleftrightarrow> e0 - 1 < e0 \<and> n \<le> at_slot r) \<and> at_slots e0 n l (tasks s1 k)"
    unfolding l_def e0_def
    by (rule poll_at_slots [OF ok(1) d first_slot(2) [OF assms(1,2)] first_slot(1) [OF assms(1,2)]]) (use assms(2) in simp_all)
  have "sorted (l # map at_epoch rs)" using assms(4) by (auto simp: l_def e0_def intro: le_trans [OF diff_le_self])
  moreover have "list_all (\<lambda>x. at_epoch x - l < 2 ^ 32) rs"
    using assms(2,5) by (auto simp: l_def e0_def list_all_iff)
  ultimately have "ds' = fst (slot_runs n l (slot_polls rs)) \<and> at_slots e0 n (snd (slot_runs n l (slot_polls rs))) (tasks s' k)"
    by (rule polls_at_slots [OF ok(2) conjunct2 [OF P] _ _ ds [folded r(2)]])
  moreover have "slot_runs n (e0 - 1) (slot_polls (r # rs)) = (d # fst (slot_runs n l (slot_polls rs)), snd (slot_runs n l (slot_polls rs)))"
    by (rule slot_runs_Cons) (use P in \<open>simp_all add: e0_def l_def\<close>)
  ultimately show ?thesis unfolding e0_def [symmetric] by (simp add: r(1) at_slots_def)
qed

theorem slot_runs_once_an_epoch_witness:
  "fst (polls 1 [pass_at 1 7 200 [], pass_at 2 7 510 [Other_Due 0 0 0], pass_at 3 7 900 [], pass_at 4 9 505 []] some_scheduler)
     = [False, True, False, True]"
proof -
  let ?rs = "[pass_at 2 7 510 [Other_Due 0 0 0], pass_at 3 7 900 [], pass_at 4 9 505 []]"
  obtain ds s' where p: "polls 1 (pass_at 1 7 200 [] # ?rs) some_scheduler = (ds, s')" by fastforce
  have "ds = fst (slot_runs 500 6 [(7, 200), (7, 510), (7, 900), (9, 505)])"
    using slot_runs_once_an_epoch [OF _ _ _ _ _ p, of 500] by (simp add: pass_defs del: polls.simps slot_runs.simps)
  then show ?thesis unfolding p by simp
qed

end
