(* ===== verification/Timezone.thy ===== *)
theory Timezone
  imports Sml_Codec
begin

text \<open>
  Local time (\<open>dspic_src/ui/timezone.c\<close>): the schedule of offsets from the ESP, the manual offsets
  and what is taken from each. Signed fields are \<open>int\<close> in their width. \<open>little\<close> is the byte order
  of the machine, which the CRC of the schedule does not depend on. Not modelled: what is printed.
\<close>

section \<open>The code\<close>

definition SML_TZ_TRANSITION_MAX :: u8 where "SML_TZ_TRANSITION_MAX = 8"
definition SML_TZ_STATE_BYTES :: nat where "SML_TZ_STATE_BYTES = 124"
definition SML_TZ_VALID :: u16 where "SML_TZ_VALID = 1"
definition SML_TZ_AMBIGUOUS :: u16 where "SML_TZ_AMBIGUOUS = 2"
definition SML_TZ_ENTRY_DST_ACTIVE :: u8 where "SML_TZ_ENTRY_DST_ACTIVE = 1"
definition SML_CLASS_TZ :: u8 where "SML_CLASS_TZ = 0x20"
definition SML_TZ_STATE :: u8 where "SML_TZ_STATE = 1"
definition TIMEZONE_OFFSET_LIMIT_S :: int where "TIMEZONE_OFFSET_LIMIT_S = 86399"
definition OPEN_ENDED_UTC :: u32 where "OPEN_ENDED_UTC = 0xFFFFFFFF"
definition NS_PER_SECOND :: int where "NS_PER_SECOND = 1000000000"

record SML_TZ_ENTRY =
  wire_utc :: u32
  wire_base_s :: int
  wire_dst_s :: int
  wire_flags :: u8
  wire_reserved :: u8

record SML_TZ_STATE_PAYLOAD =
  tz_flags :: u16
  tz_source :: u8
  tz_count :: u8
  tz_issued_utc :: u32
  tz_horizon_utc :: u32
  tz_subsecond_ns :: int
  tz_current :: SML_TZ_ENTRY
  tz_next :: "SML_TZ_ENTRY list"

record TimezoneEntry =
  utc_seconds :: u32
  base_offset_s :: int
  dst_offset_s :: int
  dst_active :: bool

record TimezoneSchedule =
  held :: bool
  source :: u8
  ambiguous :: bool
  issued_utc :: u32
  horizon_end_utc :: u32
  subsecond_offset_ns :: int
  count :: u8
  entries :: "TimezoneEntry list"
  crc :: u16

record TimezoneOffset =
  off_s :: int
  off_base_s :: int
  off_dst_s :: int
  off_dst_active :: bool
  base_automatic :: bool
  off_dst_automatic :: bool
  stale :: bool
  off_ambiguous :: bool

datatype TimezoneResult = TIMEZONE_APPLIED | TIMEZONE_UNCHANGED | TIMEZONE_NOT_VALID | TIMEZONE_OLDER | TIMEZONE_MALFORMED

record Timezone =
  automatic :: bool
  dst_automatic :: bool
  manual_base_s :: int
  manual_dst_s :: int
  manual_dst_active :: bool
  schedule :: TimezoneSchedule
  changed :: bool
  results :: "TimezoneResult \<Rightarrow> u32"

definition blank_entry :: TimezoneEntry where
  "blank_entry = \<lparr>utc_seconds = 0, base_offset_s = 0, dst_offset_s = 0, dst_active = False\<rparr>"

definition timezone_init :: Timezone where
  "timezone_init =
     \<lparr>automatic = True, dst_automatic = True, manual_base_s = 0, manual_dst_s = 0, manual_dst_active = False,
      schedule = \<lparr>held = False, source = 0, ambiguous = False, issued_utc = 0, horizon_end_utc = 0,
        subsecond_offset_ns = 0, count = 0, entries = replicate 9 blank_entry, crc = 0\<rparr>,
      changed = False, results = (\<lambda>_. 0)\<rparr>"

definition timezone_set_auto :: "bool \<Rightarrow> Timezone \<Rightarrow> Timezone" where
  "timezone_set_auto on s = s\<lparr>automatic := on\<rparr>"

definition timezone_set_dst_auto :: "bool \<Rightarrow> Timezone \<Rightarrow> Timezone" where
  "timezone_set_dst_auto on s = s\<lparr>dst_automatic := on\<rparr>"

definition timezone_set_manual :: "int \<Rightarrow> int \<Rightarrow> bool \<Rightarrow> Timezone \<Rightarrow> Timezone" where
  "timezone_set_manual base dst active s = s\<lparr>manual_base_s := base, manual_dst_s := dst, manual_dst_active := active\<rparr>"

definition timezone_manual :: "Timezone \<Rightarrow> TimezoneOffset" where
  "timezone_manual s =
     \<lparr>off_s = i32 (manual_base_s s + (if manual_dst_active s then manual_dst_s s else 0)), off_base_s = manual_base_s s,
      off_dst_s = manual_dst_s s, off_dst_active = manual_dst_active s, base_automatic = False,
      off_dst_automatic = False, stale = False, off_ambiguous = False\<rparr>"

definition offset_ok :: "int \<Rightarrow> bool" where
  "offset_ok x \<longleftrightarrow> x \<ge> - TIMEZONE_OFFSET_LIMIT_S \<and> x \<le> TIMEZONE_OFFSET_LIMIT_S"

definition copy_entry :: "SML_TZ_ENTRY \<Rightarrow> TimezoneEntry" where
  "copy_entry w = \<lparr>utc_seconds = wire_utc w, base_offset_s = wire_base_s w, dst_offset_s = wire_dst_s w,
     dst_active = (wire_flags w AND SML_TZ_ENTRY_DST_ACTIVE \<noteq> 0)\<rparr>"

text \<open>The loop over the future entries: the last entry's second, or \<open>None\<close> where it returns false.\<close>

fun ascending :: "u32 \<Rightarrow> SML_TZ_ENTRY list \<Rightarrow> u32 option" where
  "ascending previous [] = Some previous"
| "ascending previous (e # es) =
     (if wire_utc e \<le> previous \<or> \<not> offset_ok (wire_base_s e) then None else ascending (wire_utc e) es)"

definition well_formed :: "SML_TZ_STATE_PAYLOAD \<Rightarrow> bool" where
  "well_formed st \<longleftrightarrow>
     (if tz_count st > SML_TZ_TRANSITION_MAX \<or> \<not> offset_ok (wire_base_s (tz_current st))
         \<or> tz_subsecond_ns st \<le> - NS_PER_SECOND \<or> tz_subsecond_ns st \<ge> NS_PER_SECOND then False
      else case ascending (wire_utc (tz_current st)) (take (unat (tz_count st)) (tz_next st)) of
             None \<Rightarrow> False
           | Some previous \<Rightarrow> tz_horizon_utc st > previous)"

text \<open>The packed structures in the machine's memory.\<close>

definition entry_bytes :: "bool \<Rightarrow> SML_TZ_ENTRY \<Rightarrow> u8 list" where
  "entry_bytes little e =
     native_store32 little (wire_utc e) @ native_store32 little (word_of_int (wire_base_s e))
     @ native_store16 little (word_of_int (wire_dst_s e)) @ [wire_flags e, wire_reserved e]"

definition state_bytes :: "bool \<Rightarrow> SML_TZ_STATE_PAYLOAD \<Rightarrow> u8 list" where
  "state_bytes little st =
     native_store16 little (tz_flags st) @ [tz_source st, tz_count st] @ native_store32 little (tz_issued_utc st)
     @ native_store32 little (tz_horizon_utc st) @ native_store32 little (word_of_int (tz_subsecond_ns st))
     @ entry_bytes little (tz_current st) @ concat (map (entry_bytes little) (tz_next st))"

text \<open>The table has the message and its structure has its length, so neither \<open>None\<close> occurs.\<close>

definition schedule_crc :: "bool \<Rightarrow> SML_TZ_STATE_PAYLOAD \<Rightarrow> u16" where
  "schedule_crc little st =
     (case sml_message SML_CLASS_TZ SML_TZ_STATE of None \<Rightarrow> 0
      | Some m \<Rightarrow> (case sml_encode little (msg_layout m) (state_bytes little st) of None \<Rightarrow> 0
          | Some wire \<Rightarrow>
              sml_crc (sml_crc SML_CRC_INIT (take 4 wire)) (take (SML_TZ_STATE_BYTES - 8) (drop 8 wire))))"

definition replace_schedule :: "u16 \<Rightarrow> SML_TZ_STATE_PAYLOAD \<Rightarrow> TimezoneSchedule \<Rightarrow> TimezoneSchedule" where
  "replace_schedule c st sch =
     (let n = unat (tz_count st)
      in \<lparr>held = True, source = tz_source st, ambiguous = (tz_flags st AND SML_TZ_AMBIGUOUS \<noteq> 0),
          issued_utc = tz_issued_utc st, horizon_end_utc = tz_horizon_utc st,
          subsecond_offset_ns = tz_subsecond_ns st, count = tz_count st + 1,
          entries = copy_entry (tz_current st) # map copy_entry (take n (tz_next st)) @ drop (n + 1) (entries sch),
          crc = c\<rparr>)"

definition timezone_apply :: "bool \<Rightarrow> SML_TZ_STATE_PAYLOAD \<Rightarrow> Timezone \<Rightarrow> TimezoneResult \<times> Timezone" where
  "timezone_apply little st s =
     (let (result, s1) =
        (if tz_flags st AND SML_TZ_VALID = 0 then (TIMEZONE_NOT_VALID, s)
         else if \<not> well_formed st then (TIMEZONE_MALFORMED, s)
         else if held (schedule s) \<and> tz_source st = source (schedule s) \<and> tz_issued_utc st < issued_utc (schedule s)
         then (TIMEZONE_OLDER, s)
         else let c = schedule_crc little st;
                  result = (if held (schedule s) \<and> c = crc (schedule s) then TIMEZONE_UNCHANGED else TIMEZONE_APPLIED)
              in (result, s\<lparr>schedule := replace_schedule c st (schedule s),
                            changed := changed s \<or> result = TIMEZONE_APPLIED\<rparr>))
      in (result, s1\<lparr>results := (results s1)(result := results s1 result + 1)\<rparr>))"

definition rounded_seconds :: "int \<Rightarrow> int" where
  "rounded_seconds ns = (if ns \<ge> NS_PER_SECOND sdiv 2 then 1 else if ns < - (NS_PER_SECOND sdiv 2) then - 1 else 0)"

fun in_force :: "u32 \<Rightarrow> TimezoneEntry \<Rightarrow> TimezoneEntry list \<Rightarrow> TimezoneEntry" where
  "in_force utc e [] = e"
| "in_force utc e (x # xs) = (if utc < utc_seconds x then e else in_force utc x xs)"

definition timezone_offset_at :: "u32 \<Rightarrow> Timezone \<Rightarrow> TimezoneOffset" where
  "timezone_offset_at utc s =
     (let sch = schedule s;
          entry = (if held sch then in_force utc (entries sch ! 0) (take (unat (count sch) - 1) (tl (entries sch)))
                   else entries sch ! 0);
          base_auto = (held sch \<and> automatic s);
          dst_auto = (held sch \<and> dst_automatic s);
          base = (if base_auto then base_offset_s entry else manual_base_s s);
          part = (if base_auto then rounded_seconds (subsecond_offset_ns sch) else 0);
          dst = (if dst_auto then dst_offset_s entry else manual_dst_s s);
          active = (if dst_auto then dst_active entry else manual_dst_active s);
          any = (base_auto \<or> dst_auto)
      in \<lparr>off_s = i32 (part + i32 (base + (if active then dst else 0))), off_base_s = base, off_dst_s = dst,
          off_dst_active = active, base_automatic = base_auto, off_dst_automatic = dst_auto,
          stale = (any \<and> horizon_end_utc sch \<noteq> OPEN_ENDED_UTC \<and> utc \<ge> horizon_end_utc sch),
          off_ambiguous = (any \<and> ambiguous sch)\<rparr>)"

definition wire_entry :: "TimezoneEntry \<Rightarrow> SML_TZ_ENTRY" where
  "wire_entry e = \<lparr>wire_utc = utc_seconds e, wire_base_s = base_offset_s e, wire_dst_s = dst_offset_s e,
     wire_flags = (if dst_active e then SML_TZ_ENTRY_DST_ACTIVE else 0), wire_reserved = 0\<rparr>"

definition blank_wire_entry :: SML_TZ_ENTRY where
  "blank_wire_entry = \<lparr>wire_utc = 0, wire_base_s = 0, wire_dst_s = 0, wire_flags = 0, wire_reserved = 0\<rparr>"

definition timezone_state :: "Timezone \<Rightarrow> SML_TZ_STATE_PAYLOAD option" where
  "timezone_state s =
     (let sch = schedule s; n = unat (count sch)
      in if \<not> held sch then None
         else Some \<lparr>tz_flags = SML_TZ_VALID OR (if ambiguous sch then SML_TZ_AMBIGUOUS else 0), tz_source = source sch,
           tz_count = count sch - 1, tz_issued_utc = issued_utc sch, tz_horizon_utc = horizon_end_utc sch,
           tz_subsecond_ns = subsecond_offset_ns sch, tz_current = wire_entry (entries sch ! 0),
           tz_next = map wire_entry (take (n - 1) (tl (entries sch)))
                     @ replicate (8 - (n - 1)) blank_wire_entry\<rparr>)"

definition timezone_take_changed :: "Timezone \<Rightarrow> bool \<times> Timezone" where
  "timezone_take_changed s = (changed s, s\<lparr>changed := False\<rparr>)"

section \<open>The schedule held\<close>

definition used :: "TimezoneSchedule \<Rightarrow> TimezoneEntry list" where
  "used sch = take (unat (count sch)) (entries sch)"

definition tz_ok :: "Timezone \<Rightarrow> bool" where
  "tz_ok s \<longleftrightarrow> (let sch = schedule s in length (entries sch) = 9 \<and>
     (held sch \<longrightarrow> 1 \<le> unat (count sch) \<and> unat (count sch) \<le> 9 \<and>
        sorted_wrt (<) (map utc_seconds (used sch)) \<and> utc_seconds (last (used sch)) < horizon_end_utc sch \<and>
        list_all (\<lambda>e. \<bar>base_offset_s e\<bar> \<le> 86399 \<and> - 32768 \<le> dst_offset_s e \<and> dst_offset_s e < 32768) (used sch) \<and>
        \<bar>subsecond_offset_ns sch\<bar> < 1000000000))"

definition payload_ok :: "SML_TZ_STATE_PAYLOAD \<Rightarrow> bool" where
  "payload_ok st \<longleftrightarrow> length (tz_next st) = 8 \<and> list_all (\<lambda>e. - 32768 \<le> wire_dst_s e \<and> wire_dst_s e < 32768) (tz_current st # tz_next st)"

datatype tz_event = Apply SML_TZ_STATE_PAYLOAD | Set_Auto bool | Set_Dst_Auto bool | Set_Manual int int bool | Take_Changed

fun tz_step :: "bool \<Rightarrow> tz_event \<Rightarrow> Timezone \<Rightarrow> Timezone" where
  "tz_step little (Apply st) s = snd (timezone_apply little st s)"
| "tz_step little (Set_Auto on) s = timezone_set_auto on s"
| "tz_step little (Set_Dst_Auto on) s = timezone_set_dst_auto on s"
| "tz_step little (Set_Manual base dst active) s = timezone_set_manual base dst active s"
| "tz_step little Take_Changed s = snd (timezone_take_changed s)"

fun tz_event_ok :: "tz_event \<Rightarrow> bool" where
  "tz_event_ok (Apply st) = payload_ok st"
| "tz_event_ok e = True"

lemma ascending_Some:
  "ascending p es = Some l \<longleftrightarrow> sorted_wrt (<) (p # map wire_utc es) \<and> list_all (\<lambda>e. offset_ok (wire_base_s e)) es
     \<and> l = last (p # map wire_utc es)"
proof (induction es arbitrary: p)
  case (Cons e es)
  have "sorted_wrt (<) (p # map wire_utc (e # es)) \<longleftrightarrow> p < wire_utc e \<and> sorted_wrt (<) (wire_utc e # map wire_utc es)"
    by (auto intro: less_trans)
  then show ?case using Cons.IH [of "wire_utc e"] by (auto simp: not_le)
qed auto

lemma well_formed_iff:
  "well_formed st \<longleftrightarrow> tz_count st \<le> 8 \<and> \<bar>wire_base_s (tz_current st)\<bar> \<le> 86399 \<and> \<bar>tz_subsecond_ns st\<bar> < 1000000000 \<and>
     (let ws = tz_current st # take (unat (tz_count st)) (tz_next st)
      in sorted_wrt (<) (map wire_utc ws) \<and> list_all (\<lambda>e. \<bar>wire_base_s e\<bar> \<le> 86399) ws \<and> wire_utc (last ws) < tz_horizon_utc st)"
proof -
  define es where "es = take (unat (tz_count st)) (tz_next st)"
  have b: "offset_ok x \<longleftrightarrow> \<bar>x\<bar> \<le> 86399" for x by (auto simp: offset_ok_def TIMEZONE_OFFSET_LIMIT_S_def)
  have n: "(x \<le> - NS_PER_SECOND \<or> x \<ge> NS_PER_SECOND) \<longleftrightarrow> \<not> \<bar>x\<bar> < 1000000000" for x by (auto simp: NS_PER_SECOND_def)
  have l: "last (wire_utc c # map wire_utc es) = wire_utc (last (c # es))" for c
    using last_map [of "c # es" wire_utc] by simp
  have a: "(case ascending p es of None \<Rightarrow> False | Some x \<Rightarrow> P x)
      \<longleftrightarrow> sorted_wrt (<) (p # map wire_utc es) \<and> list_all (\<lambda>e. offset_ok (wire_base_s e)) es \<and> P (last (p # map wire_utc es))" for p P
  proof (cases "ascending p es")
    case None
    then show ?thesis using ascending_Some [of p es "last (p # map wire_utc es)"] by (simp del: last.simps sorted_wrt.simps) blast
  next
    case (Some x)
    then show ?thesis using ascending_Some [of p es x] by (simp del: last.simps sorted_wrt.simps)
  qed
  show ?thesis
    unfolding well_formed_def es_def [symmetric] a Let_def l b n [unfolded disj_assoc]
    by (auto simp: SML_TZ_TRANSITION_MAX_def not_less n b)
qed

lemma unat_count_Suc: "(c :: u8) \<le> 8 \<Longrightarrow> unat (c + 1) = Suc (unat c)"
  by (simp add: word_le_nat_alt unat_word_ariths)

lemma replaced_used:
  assumes "tz_count st \<le> 8" "length (tz_next st) = 8"
  shows "used (replace_schedule c st sch) = map copy_entry (tz_current st # take (unat (tz_count st)) (tz_next st))"
proof -
  have "unat (tz_count st) \<le> 8" using assms(1) by (simp add: word_le_nat_alt)
  then show ?thesis using assms by (simp add: used_def replace_schedule_def Let_def unat_count_Suc)
qed

lemma replace_ok:
  assumes "tz_ok s" "payload_ok st" "well_formed st"
  shows "tz_ok (s\<lparr>schedule := replace_schedule c st (schedule s)\<rparr>)"
proof -
  define ws where "ws = tz_current st # take (unat (tz_count st)) (tz_next st)"
  have w: "tz_count st \<le> 8" "sorted_wrt (<) (map wire_utc ws)" "list_all (\<lambda>e. \<bar>wire_base_s e\<bar> \<le> 86399) ws"
    "wire_utc (last ws) < tz_horizon_utc st" "\<bar>tz_subsecond_ns st\<bar> < 1000000000"
    using assms(3) by (auto simp: well_formed_iff ws_def Let_def)
  have n: "unat (tz_count st) \<le> 8" using w(1) by (simp add: word_le_nat_alt)
  have len: "length (tz_next st) = 8" using assms(2) by (simp add: payload_ok_def)
  have u: "used (replace_schedule c st (schedule s)) = map copy_entry ws" using replaced_used [OF w(1) len] by (simp add: ws_def)
  have "ws \<noteq> []" by (simp add: ws_def)
  have "list_all (\<lambda>e. - 32768 \<le> wire_dst_s e \<and> wire_dst_s e < 32768) ws"
    using assms(2) by (auto simp: payload_ok_def ws_def list_all_iff dest: in_set_takeD)
  then have "list_all (\<lambda>e. \<bar>base_offset_s e\<bar> \<le> 86399 \<and> - 32768 \<le> dst_offset_s e \<and> dst_offset_s e < 32768) (map copy_entry ws)"
    using w(3) by (simp add: list_all_iff copy_entry_def)
  moreover have "map utc_seconds (map copy_entry ws) = map wire_utc ws" by (simp add: copy_entry_def)
  moreover have "utc_seconds (last (map copy_entry ws)) = wire_utc (last ws)"
    using \<open>ws \<noteq> []\<close> by (simp add: last_map copy_entry_def)
  moreover define sch where "sch = replace_schedule c st (schedule s)"
  moreover have "held sch" "unat (count sch) = Suc (unat (tz_count st))" "horizon_end_utc sch = tz_horizon_utc st"
    "subsecond_offset_ns sch = tz_subsecond_ns st" "length (entries sch) = 9"
    using w(1) n len assms(1) by (simp_all add: sch_def replace_schedule_def Let_def unat_count_Suc tz_ok_def)
  ultimately show ?thesis using n w u by (simp add: tz_ok_def Let_def del: list.map_comp map_map)
qed

lemma tz_ok_fields:
  "tz_ok (s\<lparr>results := r\<rparr>) = tz_ok s" "tz_ok (s\<lparr>changed := c\<rparr>) = tz_ok s" "tz_ok (timezone_set_auto a s) = tz_ok s"
  "tz_ok (timezone_set_dst_auto a s) = tz_ok s" "tz_ok (timezone_set_manual i j a s) = tz_ok s"
  by (simp_all add: tz_ok_def timezone_set_auto_def timezone_set_dst_auto_def timezone_set_manual_def)

interpretation tz: stepper "tz_step little" tz_event_ok tz_ok for little
proof
  fix e s assume "tz_event_ok e" "tz_ok s"
  then show "tz_ok (tz_step little e s)"
    by (cases e) (simp_all add: timezone_apply_def Let_def tz_ok_fields replace_ok timezone_take_changed_def)
qed

lemma tz_init_ok: "tz_ok timezone_init"
  by (simp add: tz_ok_def timezone_init_def)

lemma in_force_last:
  "sorted_wrt (<) (map utc_seconds (e # xs)) \<Longrightarrow> in_force t e xs = last (e # filter (\<lambda>x. utc_seconds x \<le> t) xs)"
proof (induction xs arbitrary: e)
  case (Cons x xs)
  show ?case
  proof (cases "t < utc_seconds x")
    case True
    then have "filter (\<lambda>x. utc_seconds x \<le> t) xs = []"
      using Cons.prems by (fastforce simp: filter_empty_conv)
    then show ?thesis using True by (simp add: not_le)
  next
    case False
    then show ?thesis using Cons.IH [of x] Cons.prems by (simp add: not_less)
  qed
qed simp

lemma used_cons:
  assumes "tz_ok s" "held (schedule s)"
  shows "used (schedule s) = entries (schedule s) ! 0 # take (unat (count (schedule s)) - 1) (tl (entries (schedule s)))"
proof -
  have "length (entries (schedule s)) = 9" "1 \<le> unat (count (schedule s))" using assms by (simp_all add: tz_ok_def Let_def)
  then show ?thesis by (cases "entries (schedule s)"; cases "unat (count (schedule s))") (simp_all add: used_def)
qed

definition entry_at :: "u32 \<Rightarrow> TimezoneEntry list \<Rightarrow> TimezoneEntry" where
  "entry_at t es = last (hd es # filter (\<lambda>x. utc_seconds x \<le> t) (tl es))"

lemma offset_at_used:
  assumes "tz_ok s" "held (schedule s)"
  shows "in_force t (entries (schedule s) ! 0) (take (unat (count (schedule s)) - 1) (tl (entries (schedule s))))
    = entry_at t (used (schedule s))" "entry_at t (used (schedule s)) \<in> set (used (schedule s))"
proof -
  define e xs where "e = entries (schedule s) ! 0" and "xs = take (unat (count (schedule s)) - 1) (tl (entries (schedule s)))"
  have u: "used (schedule s) = e # xs" using used_cons [OF assms] by (simp add: e_def xs_def)
  moreover have "sorted_wrt (<) (map utc_seconds (used (schedule s)))" using assms by (simp add: tz_ok_def Let_def)
  ultimately show "in_force t (entries (schedule s) ! 0) (take (unat (count (schedule s)) - 1) (tl (entries (schedule s))))
      = entry_at t (used (schedule s))"
    using in_force_last [of e xs t] by (simp add: entry_at_def e_def xs_def)
  show "entry_at t (used (schedule s)) \<in> set (used (schedule s))"
    using last_in_set [of "e # filter (\<lambda>x. utc_seconds x \<le> t) xs"] by (auto simp: u entry_at_def simp del: last.simps)
qed

lemma rounded_bound: "\<bar>rounded_seconds n\<bar> \<le> 1"
  by (simp add: rounded_seconds_def)

lemma offset_sum:
  assumes "\<bar>b\<bar> \<le> 86399" "\<bar>d\<bar> \<le> 32768" "\<bar>p\<bar> \<le> (1 :: int)"
  shows "i32 (p + i32 (b + (if a then d else 0))) = p + (b + (if a then d else 0))"
proof -
  have "\<bar>b + (if a then d else 0)\<bar> < 2 ^ 31" "\<bar>p + (b + (if a then d else 0))\<bar> < 2 ^ 31" using assms by auto
  then show ?thesis by (simp only: i32_abs_id)
qed

text \<open>The CRC leaves out the second of issue.\<close>

lemma encode_native:
  "encode_field little 2 (native_store16 little v @ xs) = Some (sml_put_u16 v)" "drop 2 (native_store16 little v @ xs) = xs"
  "encode_field little 4 (native_store32 little w @ xs) = Some (sml_put_u32 w)" "drop 4 (native_store32 little w @ xs) = xs"
proof -
  obtain a b where "native_store16 little v = [a, b]" "native_load16 little a b = v" using native_roundtrip16 by blast
  then show "encode_field little 2 (native_store16 little v @ xs) = Some (sml_put_u16 v)"
    "drop 2 (native_store16 little v @ xs) = xs" by (simp_all add: encode_field_def)
  obtain a b c d where "native_store32 little w = [a, b, c, d]" "native_load32 little a b c d = w" using native_roundtrip32 by blast
  then show "encode_field little 4 (native_store32 little w @ xs) = Some (sml_put_u32 w)"
    "drop 4 (native_store32 little w @ xs) = xs" by (simp_all add: encode_field_def)
qed

lemma convert_head:
  "convert (encode_field little) (2 # l) (native_store16 little v @ xs) = map_option ((@) (sml_put_u16 v)) (convert (encode_field little) l xs)"
  "convert (encode_field little) (4 # l) (native_store32 little w @ xs) = map_option ((@) (sml_put_u32 w)) (convert (encode_field little) l xs)"
  "convert (encode_field little) (1 # l) (b # xs) = map_option ((@) [b]) (convert (encode_field little) l xs)"
  by (simp_all add: encode_native) (simp add: encode_field_def)

lemma schedule_crc_issued: "schedule_crc little (st\<lparr>tz_issued_utc := i\<rparr>) = schedule_crc little st"
proof -
  define rest where "rest = native_store32 little (tz_horizon_utc st) @ native_store32 little (word_of_int (tz_subsecond_ns st))
     @ entry_bytes little (tz_current st) @ concat (map (entry_bytes little) (tz_next st))"
  define l where "l = [4, 4] @ concat (replicate 9 tz_entry_fields) @ [0]"
  have b: "state_bytes little (st\<lparr>tz_issued_utc := i\<rparr>) = native_store16 little (tz_flags st) @ tz_source st # tz_count st #
      native_store32 little i @ rest" for i by (simp add: state_bytes_def rest_def)
  have L: "layout_tz_state = 2 # 1 # 1 # 4 # l" by (simp add: layout_tz_state_def l_def)
  have e: "sml_encode little layout_tz_state (state_bytes little (st\<lparr>tz_issued_utc := i\<rparr>))
      = map_option (\<lambda>r. sml_put_u16 (tz_flags st) @ [tz_source st, tz_count st] @ sml_put_u32 i @ r) (convert (encode_field little) l rest)" for i
    unfolding sml_encode_def L b convert_head by (simp add: option.map_comp comp_def)
  have m: "sml_message SML_CLASS_TZ SML_TZ_STATE = Some (SmlMessage.make 0x20 1 124 SML_FROM_ESP layout_tz_state ''TZ-STATE'')"
    by code_simp
  have c: "schedule_crc little (st\<lparr>tz_issued_utc := i\<rparr>) = (case convert (encode_field little) l rest of None \<Rightarrow> 0
      | Some r \<Rightarrow> sml_crc (sml_crc SML_CRC_INIT (sml_put_u16 (tz_flags st) @ [tz_source st, tz_count st])) (take (SML_TZ_STATE_BYTES - 8) r))" for i
    unfolding schedule_crc_def m option.case SmlMessage.make_def by (simp add: e SmlMessage.make_def split: option.split)
  from c [of i] c [of "tz_issued_utc st"] show ?thesis by simp
qed

lemma copy_wire [simp]: "copy_entry (wire_entry e) = e"
  by (simp add: copy_entry_def wire_entry_def SML_TZ_ENTRY_DST_ACTIVE_def)

lemma state_entries:
  assumes "tz_ok s" "timezone_state s = Some st"
  shows "held (schedule s)" "tz_current st # take (unat (tz_count st)) (tz_next st) = map wire_entry (used (schedule s))"
    "tz_count st \<le> 8" "length (tz_next st) = 8" "tz_count st + 1 = count (schedule s)"
proof -
  show h: "held (schedule s)" using assms(2) by (simp add: timezone_state_def Let_def split: if_splits)
  define xs where "xs = take (unat (count (schedule s)) - 1) (tl (entries (schedule s)))"
  have c: "1 \<le> unat (count (schedule s))" "unat (count (schedule s)) \<le> 9" "length (entries (schedule s)) = 9"
    using assms(1) h by (simp_all add: tz_ok_def Let_def)
  have le: "(1 :: u8) \<le> count (schedule s)" using c(1) by (simp add: word_le_nat_alt)
  have "unat (count (schedule s) - 1) = unat (count (schedule s)) - 1" using unat_sub [OF le] by simp
  moreover have "tz_count st = count (schedule s) - 1" using assms(2) h by (auto simp: timezone_state_def Let_def)
  ultimately have n: "unat (tz_count st) = unat (count (schedule s)) - 1" "tz_count st = count (schedule s) - 1"
    by simp_all
  have x: "length xs = unat (tz_count st)" using c n(1) by (simp add: xs_def)
  have nx: "tz_next st = map wire_entry xs @ replicate (8 - length xs) blank_wire_entry"
    "tz_current st = wire_entry (entries (schedule s) ! 0)"
    using assms(2) h c by (auto simp: timezone_state_def Let_def xs_def min_def)
  show "tz_current st # take (unat (tz_count st)) (tz_next st) = map wire_entry (used (schedule s))"
    using used_cons [OF assms(1) h, folded xs_def] x by (simp add: nx)
  show "tz_count st \<le> 8" using c n by (simp add: word_le_nat_alt)
  show "length (tz_next st) = 8" using c x n by (simp add: nx)
  show "tz_count st + 1 = count (schedule s)" by (simp add: n)
qed

lemma state_well_formed:
  assumes "tz_ok s" "timezone_state s = Some st"
  shows "well_formed st"
proof -
  note S = state_entries [OF assms]
  have "tz_horizon_utc st = horizon_end_utc (schedule s)" "tz_subsecond_ns st = subsecond_offset_ns (schedule s)"
    using assms(2) by (auto simp: timezone_state_def Let_def split: if_splits)
  moreover have "used (schedule s) \<noteq> []" using used_cons [OF assms(1) S(1)] by simp
  moreover have "map wire_utc (map wire_entry es) = map utc_seconds es" "wire_utc \<circ> wire_entry = utc_seconds" "wire_utc (wire_entry e) = utc_seconds e"
    "wire_base_s (wire_entry e) = base_offset_s e" for es e by (simp_all add: wire_entry_def o_def)
  moreover have "\<bar>wire_base_s (tz_current st)\<bar> \<le> 86399"
  proof -
    have "tz_current st \<in> set (map wire_entry (used (schedule s)))" using S(2) by (metis list.set_intros(1))
    then show ?thesis using assms(1) S(1) by (auto simp: tz_ok_def Let_def list_all_iff wire_entry_def)
  qed
  ultimately show ?thesis
    using assms(1) S(1,3) unfolding well_formed_iff S(2) by (simp add: tz_ok_def Let_def list_all_iff last_map)
qed

text \<open>London from the winter of 2025: one change, open-ended.\<close>

definition london :: SML_TZ_STATE_PAYLOAD where
  "london = \<lparr>tz_flags = SML_TZ_VALID, tz_source = 2, tz_count = 1, tz_issued_utc = 1767225600,
     tz_horizon_utc = OPEN_ENDED_UTC, tz_subsecond_ns = 0,
     tz_current = \<lparr>wire_utc = 1761440400, wire_base_s = 0, wire_dst_s = 3600, wire_flags = 0, wire_reserved = 0\<rparr>,
     tz_next = \<lparr>wire_utc = 1774746000, wire_base_s = 0, wire_dst_s = 3600, wire_flags = 1, wire_reserved = 0\<rparr>
       # replicate 7 blank_wire_entry\<rparr>"

lemma london_ok: "payload_ok london" "well_formed london" "tz_flags london AND SML_TZ_VALID \<noteq> 0"
  by (simp_all add: payload_ok_def london_def blank_wire_entry_def well_formed_def SML_TZ_TRANSITION_MAX_def offset_ok_def
      TIMEZONE_OFFSET_LIMIT_S_def NS_PER_SECOND_def OPEN_ENDED_UTC_def SML_TZ_VALID_def list_all_iff)

lemma london_applied:
  "schedule (tz_step True (Apply london) timezone_init) = replace_schedule (schedule_crc True london) london (schedule timezone_init)"
  "automatic (tz_step True (Apply london) timezone_init)" "dst_automatic (tz_step True (Apply london) timezone_init)"
  "manual_base_s (tz_step True (Apply london) timezone_init) = 0" "manual_dst_s (tz_step True (Apply london) timezone_init) = 0"
  using london_ok(2,3) by (simp_all add: timezone_apply_def timezone_init_def Let_def)

lemma london_used:
  "used (schedule (tz_step True (Apply london) timezone_init)) =
     [\<lparr>utc_seconds = 1761440400, base_offset_s = 0, dst_offset_s = 3600, dst_active = False\<rparr>,
      \<lparr>utc_seconds = 1774746000, base_offset_s = 0, dst_offset_s = 3600, dst_active = True\<rparr>]"
  unfolding london_applied by (subst replaced_used) (simp_all add: london_def copy_entry_def SML_TZ_ENTRY_DST_ACTIVE_def blank_wire_entry_def)

section \<open>The properties\<close>

text \<open>
  C40: The offset shown is the one in force. After any schedules, valid or not, and any settings,
  with a schedule held and manual offsets of at most a day, the base offset, DST amount and DST
  flag at a second are those of the last entry that has started by then, the first entry before
  any has, as far as they are set to automatic, and the manual ones otherwise; the offset from
  UTC is their exact sum with the rounded sub-second part, and no sum wraps.
\<close>
theorem offset_is_entry_in_force:
  assumes "list_all tz_event_ok es" "fold (tz_step little) es timezone_init = s" "held (schedule s)"
    "\<bar>manual_base_s s\<bar> \<le> 86399" "\<bar>manual_dst_s s\<bar> \<le> 32768"
  shows "let e = entry_at t (used (schedule s));
      base = (if automatic s then base_offset_s e else manual_base_s s);
      dst = (if dst_automatic s then dst_offset_s e else manual_dst_s s);
      active = (if dst_automatic s then dst_active e else manual_dst_active s);
      x = timezone_offset_at t s
    in off_base_s x = base \<and> off_dst_s x = dst \<and> off_dst_active x = active \<and>
       off_s x = base + (if active then dst else 0)
         + (if automatic s then rounded_seconds (subsecond_offset_ns (schedule s)) else 0)"
proof -
  have ok: "tz_ok s" using tz.run_invar [OF assms(1) tz_init_ok] assms(2) by blast
  define e where "e = entry_at t (used (schedule s))"
  note U = offset_at_used [OF ok assms(3), of t, folded e_def]
  have b: "\<bar>base_offset_s e\<bar> \<le> 86399" "\<bar>dst_offset_s e\<bar> \<le> 32768"
    using ok assms(3) U(2) by (auto simp: tz_ok_def Let_def list_all_iff)
  define base where "base = (if automatic s then base_offset_s e else manual_base_s s)"
  define dst where "dst = (if dst_automatic s then dst_offset_s e else manual_dst_s s)"
  define part where "part = (if automatic s then rounded_seconds (subsecond_offset_ns (schedule s)) else 0)"
  have r: "\<bar>base\<bar> \<le> 86399" "\<bar>dst\<bar> \<le> 32768" "\<bar>part\<bar> \<le> 1"
    using b assms(4,5) rounded_bound by (simp_all add: base_def dst_def part_def)
  define active where "active = (if dst_automatic s then dst_active e else manual_dst_active s)"
  have X: "timezone_offset_at t s = \<lparr>off_s = i32 (part + i32 (base + (if active then dst else 0))), off_base_s = base, off_dst_s = dst,
      off_dst_active = active, base_automatic = automatic s, off_dst_automatic = dst_automatic s,
      stale = ((automatic s \<or> dst_automatic s) \<and> horizon_end_utc (schedule s) \<noteq> OPEN_ENDED_UTC \<and> t \<ge> horizon_end_utc (schedule s)),
      off_ambiguous = ((automatic s \<or> dst_automatic s) \<and> ambiguous (schedule s))\<rparr>"
    by (simp only: timezone_offset_at_def Let_def assms(3) simp_thms if_True U(1) base_def part_def dst_def active_def)
  show ?thesis
    unfolding e_def [symmetric] base_def [symmetric] dst_def [symmetric] part_def [symmetric] active_def [symmetric] Let_def
      X offset_sum [OF r] by simp
qed

theorem offset_is_entry_in_force_witness:
  "off_s (timezone_offset_at 1774745999 (tz_step True (Apply london) timezone_init)) = 0
   \<and> off_s (timezone_offset_at 1774746000 (tz_step True (Apply london) timezone_init)) = 3600"
proof -
  let ?s = "tz_step True (Apply london) timezone_init"
  have h: "held (schedule ?s)" "subsecond_offset_ns (schedule ?s) = 0"
    unfolding london_applied by (simp_all add: replace_schedule_def Let_def london_def)
  show ?thesis
    using offset_is_entry_in_force [of "[Apply london]" True ?s 1774745999] offset_is_entry_in_force [of "[Apply london]" True ?s 1774746000]
      h london_ok(1) london_applied(2-5)
    by (simp add: london_used entry_at_def rounded_seconds_def NS_PER_SECOND_def Let_def del: tz_step.simps)
qed

text \<open>
  What is stored of a schedule restores it. The TZ-STATE made from the schedule held, given to
  a clock that has none, is applied, and from then on every second has the same offset in all
  its parts as before, under the same settings.
\<close>
theorem stored_schedule_restores:
  assumes "list_all tz_event_ok es" "fold (tz_step little) es timezone_init = s" "timezone_state s = Some st"
    "s0 = timezone_set_manual (manual_base_s s) (manual_dst_s s) (manual_dst_active s)
            (timezone_set_dst_auto (dst_automatic s) (timezone_set_auto (automatic s) timezone_init))"
    "timezone_apply little st s0 = (r, s')"
  shows "r = TIMEZONE_APPLIED \<and> timezone_offset_at t s' = timezone_offset_at t s"
proof -
  have ok: "tz_ok s" using tz.run_invar [OF assms(1) tz_init_ok] assms(2) by blast
  note S = state_entries [OF ok assms(3)]
  have w: "well_formed st" by (rule state_well_formed [OF ok assms(3)])
  have st: "tz_flags st AND SML_TZ_VALID \<noteq> 0" "tz_flags st AND SML_TZ_AMBIGUOUS \<noteq> 0 \<longleftrightarrow> ambiguous (schedule s)"
    "tz_horizon_utc st = horizon_end_utc (schedule s)" "tz_subsecond_ns st = subsecond_offset_ns (schedule s)"
    using assms(3) by (auto simp: timezone_state_def Let_def SML_TZ_VALID_def SML_TZ_AMBIGUOUS_def split: if_splits)
  have s0: "tz_ok s0" "\<not> held (schedule s0)" "automatic s0 = automatic s" "dst_automatic s0 = dst_automatic s"
    "manual_base_s s0 = manual_base_s s" "manual_dst_s s0 = manual_dst_s s" "manual_dst_active s0 = manual_dst_active s"
    by (simp_all add: assms(4) tz_ok_fields tz_init_ok) (simp_all add: timezone_init_def timezone_set_manual_def timezone_set_dst_auto_def timezone_set_auto_def)
  define sch where "sch = replace_schedule (schedule_crc little st) st (schedule s0)"
  have r: "r = TIMEZONE_APPLIED" "s' = (s0\<lparr>schedule := sch, changed := True\<rparr>)\<lparr>results := (results s0)(TIMEZONE_APPLIED := results s0 TIMEZONE_APPLIED + 1)\<rparr>"
    using assms(5) st(1) w s0(2) by (simp_all add: timezone_apply_def Let_def sch_def)
  have u: "used sch = used (schedule s)" using replaced_used [OF S(3,4)] S(2) by (simp add: sch_def o_def)
  have h: "held sch" "subsecond_offset_ns sch = subsecond_offset_ns (schedule s)" "horizon_end_utc sch = horizon_end_utc (schedule s)"
    "ambiguous sch = ambiguous (schedule s)" using st by (simp_all add: sch_def replace_schedule_def Let_def)
  have ok': "tz_ok s'"
  proof -
    have "list_all (\<lambda>e. - 32768 \<le> dst_offset_s e \<and> dst_offset_s e < 32768) (used (schedule s))" using ok S(1) by (simp add: tz_ok_def Let_def list_all_iff)
    moreover have "unat (tz_count st) \<le> 8" using S(3) by (simp add: word_le_nat_alt)
    then have "length (entries sch) = 9" "count sch = count (schedule s)"
      using S(4,5) s0(1) by (simp_all add: sch_def replace_schedule_def Let_def tz_ok_def)
    ultimately have "tz_ok (s0\<lparr>schedule := sch\<rparr>)"
      using ok S(1) h(2,3) u by (simp add: tz_ok_def Let_def)
    then show ?thesis by (simp add: r(2) tz_ok_def)
  qed
  have s': "schedule s' = sch" "automatic s' = automatic s" "dst_automatic s' = dst_automatic s"
    "manual_base_s s' = manual_base_s s" "manual_dst_s s' = manual_dst_s s" "manual_dst_active s' = manual_dst_active s"
    by (simp_all add: r(2) s0)
  have "in_force t (entries sch ! 0) (take (unat (count sch) - 1) (tl (entries sch))) =
      in_force t (entries (schedule s) ! 0) (take (unat (count (schedule s)) - 1) (tl (entries (schedule s))))"
    using offset_at_used(1) [OF ok', of t] offset_at_used(1) [OF ok S(1), of t] h(1) u by (simp add: s'(1))
  then show ?thesis using r(1) h S(1) by (simp add: timezone_offset_at_def s' Let_def)
qed

theorem stored_schedule_restores_witness:
  "\<exists>st r s'. timezone_state (tz_step True (Apply london) timezone_init) = Some st \<and>
     timezone_apply True st timezone_init = (TIMEZONE_APPLIED, s') \<and>
     timezone_offset_at 1774746000 s' = timezone_offset_at 1774746000 (tz_step True (Apply london) timezone_init)"
proof -
  let ?s = "tz_step True (Apply london) timezone_init"
  have "held (schedule ?s)" unfolding london_applied by (simp add: replace_schedule_def Let_def)
  then obtain st where st: "timezone_state ?s = Some st" by (simp add: timezone_state_def Let_def)
  obtain r s' where a: "timezone_apply True st timezone_init = (r, s')" by fastforce
  have "timezone_init = timezone_set_manual (manual_base_s ?s) (manual_dst_s ?s) (manual_dst_active ?s)
            (timezone_set_dst_auto (dst_automatic ?s) (timezone_set_auto (automatic ?s) timezone_init))"
    using london_ok(2,3) by (simp add: timezone_apply_def timezone_init_def Let_def timezone_set_manual_def
        timezone_set_dst_auto_def timezone_set_auto_def)
  from stored_schedule_restores [of "[Apply london]" True ?s st, OF _ _ st this a] london_ok(1) st a
  show ?thesis by (simp del: tz_step.simps)
qed

text \<open>
  A resend is not a change. Once a schedule has been accepted, the same schedule issued at the
  same second or later is accepted as UNCHANGED, marks nothing to be stored and alters no offset.
\<close>
theorem resend_is_unchanged:
  assumes "timezone_apply little st s = (r, s1)" "r = TIMEZONE_APPLIED \<or> r = TIMEZONE_UNCHANGED" "tz_issued_utc st \<le> i"
    "timezone_apply little (st\<lparr>tz_issued_utc := i\<rparr>) s1 = (r2, s2)" "payload_ok st"
  shows "r2 = TIMEZONE_UNCHANGED \<and> changed s2 = changed s1 \<and> timezone_offset_at t s2 = timezone_offset_at t s1"
proof -
  have a: "tz_flags st AND SML_TZ_VALID \<noteq> 0" "well_formed st"
    "schedule s1 = replace_schedule (schedule_crc little st) st (schedule s)"
    using assms(1,2) by (auto simp: timezone_apply_def Let_def split: if_splits)
  have w: "well_formed (st\<lparr>tz_issued_utc := i\<rparr>)" using a(2) by (simp add: well_formed_iff)
  have h: "held (schedule s1)" "crc (schedule s1) = schedule_crc little st" "issued_utc (schedule s1) = tz_issued_utc st"
    by (simp_all add: a(3) replace_schedule_def Let_def)
  define sch where "sch = replace_schedule (schedule_crc little st) (st\<lparr>tz_issued_utc := i\<rparr>) (schedule s1)"
  have g: "(tz_flags (st\<lparr>tz_issued_utc := i\<rparr>) AND SML_TZ_VALID = 0) = False" "(\<not> well_formed (st\<lparr>tz_issued_utc := i\<rparr>)) = False"
    "(held (schedule s1) \<and> tz_source (st\<lparr>tz_issued_utc := i\<rparr>) = source (schedule s1)
       \<and> tz_issued_utc (st\<lparr>tz_issued_utc := i\<rparr>) < issued_utc (schedule s1)) = False"
    "(held (schedule s1) \<and> schedule_crc little st = crc (schedule s1)) = True"
    using a(1) w h assms(3) by (simp_all add: not_less)
  have x: "timezone_apply little (st\<lparr>tz_issued_utc := i\<rparr>) s1 = (TIMEZONE_UNCHANGED, s1\<lparr>schedule := sch, changed := changed s1,
      results := (results s1)(TIMEZONE_UNCHANGED := results s1 TIMEZONE_UNCHANGED + 1)\<rparr>)"
    unfolding timezone_apply_def g Let_def schedule_crc_issued sch_def if_False if_True by simp
  have r2: "r2 = TIMEZONE_UNCHANGED" "schedule s2 = sch" "changed s2 = changed s1" "automatic s2 = automatic s1"
    "dst_automatic s2 = dst_automatic s1" "manual_base_s s2 = manual_base_s s1" "manual_dst_s s2 = manual_dst_s s1"
    "manual_dst_active s2 = manual_dst_active s1"
    using assms(4) unfolding x by auto
  have c: "unat (tz_count st) \<le> 8" "length (tz_next st) = 8" "unat (tz_count st + 1) = Suc (unat (tz_count st))"
    using a(2) assms(5) by (simp_all add: well_formed_iff payload_ok_def word_le_nat_alt unat_count_Suc)
  have "entries sch ! 0 = entries (schedule s1) ! 0" "count sch = count (schedule s1)" "held sch"
    "horizon_end_utc sch = horizon_end_utc (schedule s1)" "ambiguous sch = ambiguous (schedule s1)"
    "subsecond_offset_ns sch = subsecond_offset_ns (schedule s1)"
    "take (unat (count sch) - 1) (tl (entries sch)) = take (unat (count (schedule s1)) - 1) (tl (entries (schedule s1)))"
    using c by (simp_all add: sch_def a(3) replace_schedule_def Let_def)
  then show ?thesis by (simp add: timezone_offset_at_def r2 Let_def h(1))
qed

theorem resend_is_unchanged_witness:
  "fst (timezone_apply True (london\<lparr>tz_issued_utc := 1767312000\<rparr>) (tz_step True (Apply london) timezone_init)) = TIMEZONE_UNCHANGED"
proof -
  let ?s = "tz_step True (Apply london) timezone_init"
  obtain r2 s2 where r2: "timezone_apply True (london\<lparr>tz_issued_utc := 1767312000\<rparr>) ?s = (r2, s2)" by fastforce
  have a: "timezone_apply True london timezone_init = (TIMEZONE_APPLIED, ?s)"
    using london_ok(2,3) by (simp add: timezone_apply_def timezone_init_def Let_def)
  from resend_is_unchanged [OF a _ _ r2 london_ok(1)] show ?thesis unfolding r2 by (simp add: london_def)
qed

end
