(* ===== verification/Ubx_Frame.thy ===== *)
theory Ubx_Frame
  imports Prelude
begin

text \<open>
  Frames to the GNSS receiver (\<open>dspic_src/gnss/ubx_proto.h\<close>, \<open>ubx_encode.c\<close>): the checksum, whole
  frames and the CFG-VALSET and CFG-VALGET messages built key by key. Lengths are natural numbers;
  each is below the \<open>uint16_t\<close> the code keeps it in. A frame buffer is the list of its bytes.
\<close>

section \<open>The code\<close>

definition UBX_SYNC_CHAR_1 :: u8 where "UBX_SYNC_CHAR_1 = 0xB5"
definition UBX_SYNC_CHAR_2 :: u8 where "UBX_SYNC_CHAR_2 = 0x62"
definition UBX_HEADER_LENGTH :: nat where "UBX_HEADER_LENGTH = 6"
definition UBX_CHECKSUM_LENGTH :: nat where "UBX_CHECKSUM_LENGTH = 2"
definition UBX_FRAME_OVERHEAD :: nat where "UBX_FRAME_OVERHEAD = UBX_HEADER_LENGTH + UBX_CHECKSUM_LENGTH"
definition UBX_HEADER_OFFSET_CLASS :: nat where "UBX_HEADER_OFFSET_CLASS = 2"
definition UBX_HEADER_OFFSET_ID :: nat where "UBX_HEADER_OFFSET_ID = 3"
definition UBX_HEADER_OFFSET_LENGTH :: nat where "UBX_HEADER_OFFSET_LENGTH = 4"
definition UBX_CLASS_CFG :: u8 where "UBX_CLASS_CFG = 0x06"
definition UBX_ID_CFG_VALSET :: u8 where "UBX_ID_CFG_VALSET = 0x8A"
definition UBX_ID_CFG_VALGET :: u8 where "UBX_ID_CFG_VALGET = 0x8B"
definition UBX_CFG_VAL_HEADER_LENGTH :: nat where "UBX_CFG_VAL_HEADER_LENGTH = 4"
definition UBX_CFG_VAL_MAX_KEYS :: u8 where "UBX_CFG_VAL_MAX_KEYS = 64"
definition UBX_CFG_MESSAGE_CAPACITY :: nat where "UBX_CFG_MESSAGE_CAPACITY = 256"
definition UBX_POLL_FRAME_LENGTH :: nat where "UBX_POLL_FRAME_LENGTH = UBX_FRAME_OVERHEAD"

lemmas ubx_sizes = UBX_HEADER_LENGTH_def UBX_CHECKSUM_LENGTH_def UBX_FRAME_OVERHEAD_def UBX_HEADER_OFFSET_CLASS_def
  UBX_HEADER_OFFSET_ID_def UBX_HEADER_OFFSET_LENGTH_def UBX_CFG_VAL_HEADER_LENGTH_def UBX_CFG_MESSAGE_CAPACITY_def
  UBX_POLL_FRAME_LENGTH_def

definition UBX_CFG_KEY_VALUE_SIZE :: "u32 \<Rightarrow> nat" where
  "UBX_CFG_KEY_VALUE_SIZE key =
     (let code = drop_bit 28 key AND 7
      in if code = 1 then 1 else if code = 2 then 1 else if code = 3 then 2 else if code = 4 then 4
         else if code = 5 then 8 else 0)"

definition ubx_checksum :: "u8 list \<Rightarrow> u8 \<times> u8" where
  "ubx_checksum source = fold (\<lambda>x (a, b). let a' = a + x in (a', b + a')) source (0, 0)"

definition write_header :: "u8 \<Rightarrow> u8 \<Rightarrow> nat \<Rightarrow> u8 list" where
  "write_header class_id message_id n =
     [UBX_SYNC_CHAR_1, UBX_SYNC_CHAR_2, class_id, message_id,
      ucast (of_nat n AND 0xFF :: u16), ucast (drop_bit 8 (of_nat n :: u16))]"

text \<open>The two bytes behind a frame's header and payload.\<close>

definition write_checksum :: "u8 list \<Rightarrow> u8 list" where
  "write_checksum bytes = (let (a, b) = ubx_checksum (drop UBX_HEADER_OFFSET_CLASS bytes) in [a, b])"

text \<open>The frame, or \<open>None\<close> for the returned 0.\<close>

definition ubx_encode_frame :: "u8 \<Rightarrow> u8 \<Rightarrow> u8 list \<Rightarrow> nat \<Rightarrow> u8 list option" where
  "ubx_encode_frame class_id message_id payload capacity =
     (if length payload + UBX_FRAME_OVERHEAD > capacity then None
      else let bytes = write_header class_id message_id (length payload) @ payload
           in Some (bytes @ write_checksum bytes))"

definition ubx_encode_poll :: "u8 \<Rightarrow> u8 \<Rightarrow> u8 list option" where
  "ubx_encode_poll class_id message_id = ubx_encode_frame class_id message_id [] UBX_POLL_FRAME_LENGTH"

text \<open>The message being built: \<open>cfg_payload\<close> is the payload so far, from the header on.\<close>

record UbxCfgMessage =
  cfg_payload :: "u8 list"
  cfg_frame :: "u8 list"
  cfg_message_id :: u8
  key_count :: u8
  overflowed :: bool

definition cfg_begin :: "u8 \<Rightarrow> u8 \<Rightarrow> UbxCfgMessage" where
  "cfg_begin message_id layer =
     \<lparr>cfg_payload = [0, layer, 0, 0], cfg_frame = [], cfg_message_id = message_id, key_count = 0, overflowed = False\<rparr>"

definition little_bytes :: "u32 \<Rightarrow> nat \<Rightarrow> u8 list" where
  "little_bytes v n = map (\<lambda>i. ucast (drop_bit (8 * i) v)) [0..<n]"

definition cfg_append :: "UbxCfgMessage \<Rightarrow> u32 \<Rightarrow> nat \<Rightarrow> bool \<times> UbxCfgMessage" where
  "cfg_append m v n =
     (if overflowed m \<or> length (cfg_payload m) + n + UBX_FRAME_OVERHEAD > UBX_CFG_MESSAGE_CAPACITY
      then (False, m\<lparr>overflowed := True\<rparr>)
      else (True, m\<lparr>cfg_payload := cfg_payload m @ little_bytes v n\<rparr>))"

definition cfg_append_key :: "UbxCfgMessage \<Rightarrow> u32 \<Rightarrow> bool \<times> UbxCfgMessage" where
  "cfg_append_key m key =
     (if key_count m \<ge> UBX_CFG_VAL_MAX_KEYS then (False, m\<lparr>overflowed := True\<rparr>)
      else case cfg_append m key 4 of
             (False, m1) \<Rightarrow> (False, m1)
           | (True, m1) \<Rightarrow> (True, m1\<lparr>key_count := key_count m1 + 1\<rparr>))"

definition ubx_encode_valset_begin :: "u8 \<Rightarrow> UbxCfgMessage" where
  "ubx_encode_valset_begin layers = cfg_begin UBX_ID_CFG_VALSET layers"

definition ubx_encode_valset_add :: "UbxCfgMessage \<Rightarrow> u32 \<Rightarrow> u32 \<Rightarrow> bool \<times> UbxCfgMessage" where
  "ubx_encode_valset_add m key v =
     (let n = UBX_CFG_KEY_VALUE_SIZE key
      in if cfg_message_id m \<noteq> UBX_ID_CFG_VALSET then (False, m)
         else if n = 0 \<or> n > 4 then (False, m\<lparr>overflowed := True\<rparr>)
         else if length (cfg_payload m) + 4 + n + UBX_FRAME_OVERHEAD > UBX_CFG_MESSAGE_CAPACITY
         then (False, m\<lparr>overflowed := True\<rparr>)
         else case cfg_append_key m key of
                (False, m1) \<Rightarrow> (False, m1)
              | (True, m1) \<Rightarrow> cfg_append m1 v n)"

definition ubx_encode_valget_begin :: "u8 \<Rightarrow> UbxCfgMessage" where
  "ubx_encode_valget_begin layer_number = cfg_begin UBX_ID_CFG_VALGET layer_number"

definition ubx_encode_valget_add :: "UbxCfgMessage \<Rightarrow> u32 \<Rightarrow> bool \<times> UbxCfgMessage" where
  "ubx_encode_valget_add m key =
     (if cfg_message_id m \<noteq> UBX_ID_CFG_VALGET then (False, m) else cfg_append_key m key)"

definition ubx_encode_cfg_finish :: "UbxCfgMessage \<Rightarrow> bool \<times> UbxCfgMessage" where
  "ubx_encode_cfg_finish m =
     (if overflowed m \<or> key_count m = 0 then (False, m)
      else let bytes = write_header UBX_CLASS_CFG (cfg_message_id m) (length (cfg_payload m)) @ cfg_payload m
           in (True, m\<lparr>cfg_frame := bytes @ write_checksum bytes\<rparr>))"

end
