(* ===== verification/Ubx_Decode.thy ===== *)
theory Ubx_Decode
  imports Ubx_Frame
begin

text \<open>
  Payloads from the GNSS receiver (\<open>dspic_src/gnss/ubx_decode.c\<close>): little-endian fields at the
  offsets of the packed structures of \<open>ubx_proto.h\<close>, the strings of MON-VER and the reader of
  CFG-VALGET. A refused payload is \<open>None\<close>; the reader's position is the bytes still ahead of it.
\<close>

section \<open>The code\<close>

definition read_u8 :: "u8 list \<Rightarrow> u8" where "read_u8 source = source ! 0"

definition read_i8 :: "u8 list \<Rightarrow> int" where
  "read_i8 source = (if source ! 0 \<le> 127 then uint (source ! 0) else uint (source ! 0) - 256)"

definition read_u16 :: "u8 list \<Rightarrow> u16" where
  "read_u16 source = ucast (source ! 0) OR push_bit 8 (ucast (source ! 1))"

definition read_u32 :: "u8 list \<Rightarrow> u32" where
  "read_u32 source = ucast (source ! 0) OR push_bit 8 (ucast (source ! 1)) OR push_bit 16 (ucast (source ! 2))
     OR push_bit 24 (ucast (source ! 3))"

definition read_i32 :: "u8 list \<Rightarrow> int" where
  "read_i32 source = (let v = read_u32 source in if v \<le> 0x7FFFFFFF then uint v else - 1 - uint (0xFFFFFFFF - v))"

definition length_is :: "u8 list \<Rightarrow> nat \<Rightarrow> bool" where
  "length_is payload expected \<longleftrightarrow> length payload = expected"

record UbxNavPosllh =
  pos_tow_ms :: u32
  longitude_e7 :: int
  latitude_e7 :: int
  height_ellipsoid_mm :: int
  height_msl_mm :: int
  horizontal_accuracy_mm :: u32
  vertical_accuracy_mm :: u32

record UbxNavStatus =
  sta_tow_ms :: u32
  time_to_first_fix_ms :: u32
  receiver_uptime_ms :: u32
  fix_type :: u8
  sta_flags :: u8
  fix_status :: u8
  status_flags :: u8

record UbxNavTimeutc =
  utc_tow_ms :: u32
  utc_accuracy_ns :: u32
  fractional_second_ns :: int
  utc_year :: u16
  utc_month :: u8
  utc_day :: u8
  utc_hour :: u8
  utc_minute :: u8
  utc_second :: u8
  utc_validity :: u8

record UbxNavClock =
  clk_tow_ms :: u32
  clock_bias_ns :: int
  clock_drift_ns_per_s :: int
  clk_accuracy_ns :: u32
  frequency_accuracy_ps_per_s :: u32

record UbxNavEoe = eoe_tow_ms :: u32

record UbxNavTimels =
  tls_tow_ms :: u32
  time_to_event_s :: int
  event_gps_week :: u16
  event_gps_day :: u16
  tls_version :: u8
  current_source :: u8
  current_leap_seconds :: int
  change_source :: u8
  leap_second_change :: int
  tls_validity :: u8

record UbxTimTp =
  tp_tow_ms :: u32
  tp_tow_sub_ms :: u32
  quantisation_error_ps :: int
  tp_week :: u16
  tp_flags :: u8
  reference_info :: u8

record UbxTimTm2 =
  rising_tow_ms :: u32
  rising_sub_ms_ns :: u32
  falling_tow_ms :: u32
  falling_sub_ms_ns :: u32
  tm2_accuracy_ns :: u32
  rising_edge_count :: u16
  rising_week :: u16
  falling_week :: u16
  tm2_channel :: u8
  tm2_flags :: u8

record UbxAck =
  ack_class :: u8
  ack_id :: u8

definition ubx_decode_nav_posllh :: "u8 list \<Rightarrow> UbxNavPosllh option" where
  "ubx_decode_nav_posllh p = (if \<not> length_is p 28 then None else Some
     \<lparr>pos_tow_ms = read_u32 p, longitude_e7 = read_i32 (drop 4 p), latitude_e7 = read_i32 (drop 8 p),
      height_ellipsoid_mm = read_i32 (drop 12 p), height_msl_mm = read_i32 (drop 16 p),
      horizontal_accuracy_mm = read_u32 (drop 20 p), vertical_accuracy_mm = read_u32 (drop 24 p)\<rparr>)"

definition ubx_decode_nav_status :: "u8 list \<Rightarrow> UbxNavStatus option" where
  "ubx_decode_nav_status p = (if \<not> length_is p 16 then None else Some
     \<lparr>sta_tow_ms = read_u32 p, time_to_first_fix_ms = read_u32 (drop 8 p), receiver_uptime_ms = read_u32 (drop 12 p),
      fix_type = read_u8 (drop 4 p), sta_flags = read_u8 (drop 5 p), fix_status = read_u8 (drop 6 p),
      status_flags = read_u8 (drop 7 p)\<rparr>)"

definition ubx_decode_nav_timeutc :: "u8 list \<Rightarrow> UbxNavTimeutc option" where
  "ubx_decode_nav_timeutc p = (if \<not> length_is p 20 then None else Some
     \<lparr>utc_tow_ms = read_u32 p, utc_accuracy_ns = read_u32 (drop 4 p), fractional_second_ns = read_i32 (drop 8 p),
      utc_year = read_u16 (drop 12 p), utc_month = read_u8 (drop 14 p), utc_day = read_u8 (drop 15 p),
      utc_hour = read_u8 (drop 16 p), utc_minute = read_u8 (drop 17 p), utc_second = read_u8 (drop 18 p),
      utc_validity = read_u8 (drop 19 p)\<rparr>)"

definition ubx_decode_nav_clock :: "u8 list \<Rightarrow> UbxNavClock option" where
  "ubx_decode_nav_clock p = (if \<not> length_is p 20 then None else Some
     \<lparr>clk_tow_ms = read_u32 p, clock_bias_ns = read_i32 (drop 4 p), clock_drift_ns_per_s = read_i32 (drop 8 p),
      clk_accuracy_ns = read_u32 (drop 12 p), frequency_accuracy_ps_per_s = read_u32 (drop 16 p)\<rparr>)"

definition ubx_decode_nav_eoe :: "u8 list \<Rightarrow> UbxNavEoe option" where
  "ubx_decode_nav_eoe p = (if \<not> length_is p 4 then None else Some \<lparr>eoe_tow_ms = read_u32 p\<rparr>)"

definition ubx_decode_nav_timels :: "u8 list \<Rightarrow> UbxNavTimels option" where
  "ubx_decode_nav_timels p = (if \<not> length_is p 24 then None else Some
     \<lparr>tls_tow_ms = read_u32 p, time_to_event_s = read_i32 (drop 12 p), event_gps_week = read_u16 (drop 16 p),
      event_gps_day = read_u16 (drop 18 p), tls_version = read_u8 (drop 4 p), current_source = read_u8 (drop 8 p),
      current_leap_seconds = read_i8 (drop 9 p), change_source = read_u8 (drop 10 p),
      leap_second_change = read_i8 (drop 11 p), tls_validity = read_u8 (drop 23 p)\<rparr>)"

definition ubx_decode_tim_tp :: "u8 list \<Rightarrow> UbxTimTp option" where
  "ubx_decode_tim_tp p = (if \<not> length_is p 16 then None else Some
     \<lparr>tp_tow_ms = read_u32 p, tp_tow_sub_ms = read_u32 (drop 4 p), quantisation_error_ps = read_i32 (drop 8 p),
      tp_week = read_u16 (drop 12 p), tp_flags = read_u8 (drop 14 p), reference_info = read_u8 (drop 15 p)\<rparr>)"

definition ubx_decode_tim_tm2 :: "u8 list \<Rightarrow> UbxTimTm2 option" where
  "ubx_decode_tim_tm2 p = (if \<not> length_is p 28 then None else Some
     \<lparr>rising_tow_ms = read_u32 (drop 8 p), rising_sub_ms_ns = read_u32 (drop 12 p), falling_tow_ms = read_u32 (drop 16 p),
      falling_sub_ms_ns = read_u32 (drop 20 p), tm2_accuracy_ns = read_u32 (drop 24 p), rising_edge_count = read_u16 (drop 2 p),
      rising_week = read_u16 (drop 4 p), falling_week = read_u16 (drop 6 p), tm2_channel = read_u8 p,
      tm2_flags = read_u8 (drop 1 p)\<rparr>)"

definition ubx_decode_ack :: "u8 list \<Rightarrow> UbxAck option" where
  "ubx_decode_ack p = (if \<not> length_is p 2 then None else Some \<lparr>ack_class = read_u8 p, ack_id = read_u8 (drop 1 p)\<rparr>)"

text \<open>Strings are their bytes up to the NUL.\<close>

record UbxMonVer =
  software_version :: "u8 list"
  hardware_version :: "u8 list"
  module_text :: "u8 list"
  firmware_version :: "u8 list"
  protocol_version :: "u8 list"
  extension_count :: nat

definition copy_string :: "u8 list \<Rightarrow> nat \<Rightarrow> u8 list" where
  "copy_string source width = takeWhile (\<lambda>b. b \<noteq> 0) (take width source)"

definition ascii :: "string \<Rightarrow> u8 list" where
  "ascii s = map (\<lambda>c. of_nat (of_char c)) s"

definition copy_extension_value :: "u8 list \<Rightarrow> u8 list \<Rightarrow> string \<Rightarrow> u8 list" where
  "copy_extension_value destination extension prefix =
     (if take (length prefix) extension = ascii prefix
      then copy_string (drop (length prefix) extension) (30 - length prefix) else destination)"

function mon_ver_extensions :: "u8 list \<Rightarrow> nat \<Rightarrow> UbxMonVer \<Rightarrow> UbxMonVer" where
  "mon_ver_extensions payload offset v =
     (if offset < length payload then
        let extension = drop offset payload
        in mon_ver_extensions payload (offset + 30)
             (v\<lparr>module_text := copy_extension_value (module_text v) extension ''MOD='',
                firmware_version := copy_extension_value (firmware_version v) extension ''FWVER='',
                protocol_version := copy_extension_value (protocol_version v) extension ''PROTVER=''\<rparr>)
      else v)"
  by pat_completeness auto
termination by (relation "measure (\<lambda>(p, n, v). length p - n)") auto

declare mon_ver_extensions.simps [simp del]

definition ubx_decode_mon_ver :: "u8 list \<Rightarrow> UbxMonVer option" where
  "ubx_decode_mon_ver payload =
     (if length payload < 40 \<or> (length payload - 40) mod 30 \<noteq> 0 then None
      else Some (mon_ver_extensions payload 40
        \<lparr>software_version = copy_string payload 30, hardware_version = copy_string (drop 30 payload) 10,
         module_text = [], firmware_version = [], protocol_version = [],
         extension_count = (length payload - 40) div 30\<rparr>))"

record UbxCfgValueReader =
  ahead :: "u8 list"
  reader_layer :: u8
  reader_position :: u16

record UbxCfgValue =
  item_key :: u32
  item_value :: u32
  item_size :: nat

datatype UbxCfgReadResult = UBX_CFG_READ_ITEM | UBX_CFG_READ_END | UBX_CFG_READ_MALFORMED

definition ubx_decode_valget_open :: "u8 list \<Rightarrow> UbxCfgValueReader option" where
  "ubx_decode_valget_open payload =
     (if length payload < UBX_CFG_VAL_HEADER_LENGTH then None
      else Some \<lparr>ahead = drop UBX_CFG_VAL_HEADER_LENGTH payload, reader_layer = read_u8 (drop 1 payload),
                reader_position = read_u16 (drop 2 payload)\<rparr>)"

definition ubx_decode_valget_next ::
  "UbxCfgValueReader \<Rightarrow> UbxCfgValue \<Rightarrow> UbxCfgReadResult \<times> UbxCfgValueReader \<times> UbxCfgValue" where
  "ubx_decode_valget_next r item =
     (if ahead r = [] then (UBX_CFG_READ_END, r, item)
      else if length (ahead r) < 4 then (UBX_CFG_READ_MALFORMED, r, item)
      else let key = read_u32 (ahead r); n = UBX_CFG_KEY_VALUE_SIZE key
      in if n = 0 \<or> length (ahead r) < 4 + n then (UBX_CFG_READ_MALFORMED, r, item)
         else let from = drop 4 (ahead r);
                  v = fold (\<lambda>i acc. acc OR push_bit (8 * i) (ucast (from ! i))) [0..<min n 4] 0
              in (UBX_CFG_READ_ITEM, r\<lparr>ahead := drop n from\<rparr>, \<lparr>item_key = key, item_value = v, item_size = n\<rparr>))"

section \<open>Fields\<close>

lemma little_bytes_list:
  "little_bytes v 4 = [ucast v, ucast (drop_bit 8 v), ucast (drop_bit 16 v), ucast (drop_bit 24 v)]"
  "little_bytes v 2 = [ucast v, ucast (drop_bit 8 v)]" "little_bytes v 1 = [ucast v]"
  by (simp_all add: little_bytes_def upt_rec numeral_eq_Suc)

lemma bytes_of_u32:
  "ucast (ucast v :: u8) OR push_bit 8 (ucast (ucast (drop_bit 8 v) :: u8))
     OR push_bit 16 (ucast (ucast (drop_bit 16 v) :: u8)) OR push_bit 24 (ucast (ucast (drop_bit 24 v) :: u8)) = (v :: u32)" (is "?bytes = v")
proof (rule bit_word_eqI)
  fix n assume n: "n < LENGTH(32)"
  then consider "n < 8" | "8 \<le> n" "n < 16" | "16 \<le> n" "n < 24" | "24 \<le> n" by linarith
  then show "bit ?bytes n = bit v n"
    unfolding bit_or_iff bit_push_bit_iff bit_ucast_iff bit_drop_bit_eq comp_def
    using n by cases (simp_all add: less_diff_conv2)
qed

lemma read_little_u32:
  "read_u32 (ucast v # ucast (drop_bit 8 v) # ucast (drop_bit 16 v) # ucast (drop_bit 24 v) # xs) = v"
  unfolding read_u32_def by (simp only: nth_Cons_0 nth_Cons_Suc numeral_2_eq_2 numeral_3_eq_3 One_nat_def bytes_of_u32)

lemma sint_from_uint: "sint (v :: u32) = (if uint v < 2147483648 then uint v else uint v - 4294967296)"
proof (cases "uint v < 2147483648")
  case True
  then have "in_i32 (uint v)" by (intro in_i32I) (use uint_ge_0 [of v] in linarith)+
  from sint_word_of_int_i32 [OF this] True show ?thesis by simp
next
  case False
  have "uint v < 4294967296" using uint_bounded [of v] by simp
  then have "in_i32 (uint v - 4294967296)" using False by (intro in_i32I) linarith+
  moreover have "(word_of_int (uint v - 4294967296) :: u32) = v"
    using word_of_int_2p_len [where 'a = 32] by (simp add: wi_hom_sub [symmetric])
  ultimately have "sint v = uint v - 4294967296" using sint_word_of_int_i32 by metis
  then show ?thesis using False by simp
qed

lemma read_i32_sint: "read_i32 xs = sint (read_u32 xs)"
proof -
  define v where "v = read_u32 xs"
  have le: "v \<le> 0x7FFFFFFF \<longleftrightarrow> uint v < 2147483648"
    unfolding word_le_def by (simp only: uint_numeral) (simp, linarith)
  have "uint v \<le> 4294967295" using uint_bounded [of v] by simp
  then have "uint (0xFFFFFFFF - v) = 4294967295 - uint v" by (subst uint_minus_small) simp_all
  then show ?thesis by (simp add: read_i32_def v_def [symmetric] Let_def le sint_from_uint)
qed

lemma sint_byte: "sint (b :: u8) = (if uint b \<le> 127 then uint b else uint b - 256)"
proof -
  have small: "- 128 \<le> x \<Longrightarrow> x \<le> 127 \<Longrightarrow> sint (word_of_int x :: u8) = x" for x
    by (simp add: sint_sbintrunc' signed_take_bit_int_eq_self)
  have "(word_of_int (uint b - 256) :: u8) = b"
    using word_of_int_2p_len [where 'a = 8] by (simp add: wi_hom_sub [symmetric])
  then have "sint b = uint b - 256" if "\<not> uint b \<le> 127"
    using small [of "uint b - 256"] that uint_bounded [of b] by (simp only:) simp
  moreover have "sint b = uint b" if "uint b \<le> 127" using small [of "uint b"] that uint_ge_0 [of b] by simp
  ultimately show ?thesis by simp
qed

text \<open>Reading the bytes that \<open>little_bytes\<close> wrote.\<close>

lemma read_fields:
  "read_u32 (little_bytes v 4 @ xs) = v"
  "read_i32 (little_bytes (word_of_int i) 4 @ xs) = i32 i"
  "read_u16 (little_bytes (ucast h) 2 @ xs) = h"
  "read_u8 (b # xs) = b"
  "read_i8 (b # xs) = sint b"
  subgoal by (simp add: little_bytes_list read_little_u32)
  subgoal by (simp add: little_bytes_list read_little_u32 read_i32_sint i32_def sint_sbintrunc')
  subgoal by (rule bit_word_eqI) (auto simp: little_bytes_list read_u16_def bit_simps)
  subgoal by (simp add: read_u8_def)
  subgoal by (simp add: read_i8_def sint_byte word_le_def)
  done

text \<open>Writing what was read gives the bytes back.\<close>

lemma write_read_u32: "4 \<le> length q \<Longrightarrow> little_bytes (read_u32 q) 4 = take 4 q"
proof -
  assume "4 \<le> length q"
  then obtain a b c d q' where q: "q = a # b # c # d # q'"
    by (auto simp: numeral_eq_Suc Suc_le_length_iff)
  have far: "8 \<le> m \<Longrightarrow> \<not> bit (x :: u8) m" for x m using bit_imp_le_length [of x m] by auto
  have "read_u32 q = ucast a OR push_bit 8 (ucast b) OR push_bit 16 (ucast c) OR push_bit 24 (ucast d)"
    by (simp add: read_u32_def q)
  then have "ucast (read_u32 q) = a" "ucast (drop_bit 8 (read_u32 q)) = b"
    "ucast (drop_bit 16 (read_u32 q)) = c" "ucast (drop_bit 24 (read_u32 q)) = d"
    by (auto intro!: bit_word_eqI simp: bit_simps far)
  then show ?thesis by (simp add: little_bytes_list q)
qed

lemma write_read_u16: "2 \<le> length q \<Longrightarrow> little_bytes (ucast (read_u16 q)) 2 = take 2 q"
proof -
  assume "2 \<le> length q"
  then obtain a b q' where q: "q = a # b # q'"
    by (auto simp: numeral_eq_Suc Suc_le_length_iff)
  have far: "8 \<le> m \<Longrightarrow> \<not> bit (x :: u8) m" for x m using bit_imp_le_length [of x m] by auto
  have "read_u16 q = ucast a OR push_bit 8 (ucast b)" by (simp add: read_u16_def q)
  then have "ucast (ucast (read_u16 q) :: u32) = a" "ucast (drop_bit 8 (ucast (read_u16 q) :: u32)) = b"
    by (auto intro!: bit_word_eqI simp: bit_simps far)
  then show ?thesis by (simp add: little_bytes_list q)
qed

lemma write_read_i32: "4 \<le> length q \<Longrightarrow> little_bytes (word_of_int (read_i32 q)) 4 = take 4 q"
  by (simp add: read_i32_sint write_read_u32)

lemma read_i32_in_range: "in_i32 (read_i32 q)"
  by (simp add: read_i32_sint sint_in_i32)

text \<open>Field by field: what is written at an offset is what stands there exactly when the rest is.\<close>

lemma field_here:
  "4 \<le> length q \<Longrightarrow> q = little_bytes (read_u32 q) 4 @ xs \<longleftrightarrow> drop 4 q = xs"
  "4 \<le> length q \<Longrightarrow> q = little_bytes (word_of_int (read_i32 q)) 4 @ xs \<longleftrightarrow> drop 4 q = xs"
  "2 \<le> length q \<Longrightarrow> q = little_bytes (ucast (read_u16 q)) 2 @ xs \<longleftrightarrow> drop 2 q = xs"
  "1 \<le> length q \<Longrightarrow> q = read_u8 q # xs \<longleftrightarrow> drop 1 q = xs"
  "1 \<le> length q \<Longrightarrow> q = word_of_int (read_i8 q) # xs \<longleftrightarrow> drop 1 q = xs"
  "k \<le> length q \<Longrightarrow> q = take k q @ xs \<longleftrightarrow> drop k q = xs"
proof -
  have split: "n \<le> length q \<Longrightarrow> q = take n q @ xs \<longleftrightarrow> drop n q = xs" for n
    by (metis append_take_drop_id same_append_eq)
  then show "4 \<le> length q \<Longrightarrow> q = little_bytes (read_u32 q) 4 @ xs \<longleftrightarrow> drop 4 q = xs"
    "4 \<le> length q \<Longrightarrow> q = little_bytes (word_of_int (read_i32 q)) 4 @ xs \<longleftrightarrow> drop 4 q = xs"
    "2 \<le> length q \<Longrightarrow> q = little_bytes (ucast (read_u16 q)) 2 @ xs \<longleftrightarrow> drop 2 q = xs"
    "k \<le> length q \<Longrightarrow> q = take k q @ xs \<longleftrightarrow> drop k q = xs"
    by (simp_all add: write_read_u32 write_read_i32 write_read_u16)
  show "1 \<le> length q \<Longrightarrow> q = read_u8 q # xs \<longleftrightarrow> drop 1 q = xs"
    by (cases q) (auto simp: read_u8_def)
  show "1 \<le> length q \<Longrightarrow> q = word_of_int (read_i8 q) # xs \<longleftrightarrow> drop 1 q = xs"
    by (cases q) (auto simp: read_fields)
qed

lemma last_field_here:
  "q = little_bytes (read_u32 q) 4 \<longleftrightarrow> length q = 4"
proof
  show "length q = 4" if "q = little_bytes (read_u32 q) 4" using arg_cong [OF that, of length] by (simp add: little_bytes_def)
qed (simp add: write_read_u32)

lemma length_little_bytes [simp]: "length (little_bytes v n) = n"
  by (simp add: little_bytes_def)

section \<open>The wire layouts\<close>

text \<open>The packed structures of \<open>ubx_proto.h\<close>, as the bytes of their fields in order.\<close>

definition le32 :: "u32 \<Rightarrow> u8 list" where "le32 v = little_bytes v 4"
definition le32s :: "int \<Rightarrow> u8 list" where "le32s i = little_bytes (word_of_int i) 4"
definition le16 :: "u16 \<Rightarrow> u8 list" where "le16 h = little_bytes (ucast h) 2"
definition byte_s :: "int \<Rightarrow> u8 list" where "byte_s i = [word_of_int i]"

definition UbxNavPosllhWire :: "UbxNavPosllh \<Rightarrow> u8 list" where
  "UbxNavPosllhWire r = le32 (pos_tow_ms r) @ le32s (longitude_e7 r) @ le32s (latitude_e7 r)
     @ le32s (height_ellipsoid_mm r) @ le32s (height_msl_mm r) @ le32 (horizontal_accuracy_mm r)
     @ le32 (vertical_accuracy_mm r) @ []"

definition UbxNavStatusWire :: "UbxNavStatus \<Rightarrow> u8 list" where
  "UbxNavStatusWire r = le32 (sta_tow_ms r) @ [fix_type r, sta_flags r, fix_status r, status_flags r]
     @ le32 (time_to_first_fix_ms r) @ le32 (receiver_uptime_ms r) @ []"

definition UbxNavTimeutcWire :: "UbxNavTimeutc \<Rightarrow> u8 list" where
  "UbxNavTimeutcWire r = le32 (utc_tow_ms r) @ le32 (utc_accuracy_ns r) @ le32s (fractional_second_ns r)
     @ le16 (utc_year r) @ [utc_month r, utc_day r, utc_hour r, utc_minute r, utc_second r, utc_validity r]"

definition UbxNavClockWire :: "UbxNavClock \<Rightarrow> u8 list" where
  "UbxNavClockWire r = le32 (clk_tow_ms r) @ le32s (clock_bias_ns r) @ le32s (clock_drift_ns_per_s r)
     @ le32 (clk_accuracy_ns r) @ le32 (frequency_accuracy_ps_per_s r) @ []"

definition UbxNavEoeWire :: "UbxNavEoe \<Rightarrow> u8 list" where
  "UbxNavEoeWire r = le32 (eoe_tow_ms r) @ []"

definition UbxNavTimelsWire :: "u8 list \<Rightarrow> u8 list \<Rightarrow> UbxNavTimels \<Rightarrow> u8 list" where
  "UbxNavTimelsWire reserved_0 reserved_1 r = le32 (tls_tow_ms r) @ [tls_version r] @ reserved_0
     @ [current_source r] @ byte_s (current_leap_seconds r) @ [change_source r] @ byte_s (leap_second_change r)
     @ le32s (time_to_event_s r) @ le16 (event_gps_week r) @ le16 (event_gps_day r) @ reserved_1
     @ [tls_validity r]"

definition UbxTimTpWire :: "UbxTimTp \<Rightarrow> u8 list" where
  "UbxTimTpWire r = le32 (tp_tow_ms r) @ le32 (tp_tow_sub_ms r) @ le32s (quantisation_error_ps r)
     @ le16 (tp_week r) @ [tp_flags r, reference_info r]"

definition UbxTimTm2Wire :: "UbxTimTm2 \<Rightarrow> u8 list" where
  "UbxTimTm2Wire r = [tm2_channel r, tm2_flags r] @ le16 (rising_edge_count r) @ le16 (rising_week r)
     @ le16 (falling_week r) @ le32 (rising_tow_ms r) @ le32 (rising_sub_ms_ns r) @ le32 (falling_tow_ms r)
     @ le32 (falling_sub_ms_ns r) @ le32 (tm2_accuracy_ns r) @ []"

definition UbxAckWire :: "UbxAck \<Rightarrow> u8 list" where
  "UbxAckWire r = [ack_class r, ack_id r]"

lemmas wire_fields = le32_def le32s_def le16_def byte_s_def

definition in_i8 :: "int \<Rightarrow> bool" where "in_i8 x \<longleftrightarrow> - 128 \<le> x \<and> x \<le> 127"

lemma read_i8_in_range: "in_i8 (read_i8 q)"
  using uint_ge_0 [of "q ! 0"] uint_bounded [of "q ! 0"] order_trans [of "- 128" 0 "uint (q ! 0)"]
  by (auto simp: in_i8_def read_i8_def word_le_def)

lemma sint_word_of_int_i8: "in_i8 x \<Longrightarrow> sint (word_of_int x :: u8) = x"
  by (simp add: in_i8_def sint_sbintrunc' signed_take_bit_int_eq_self)

text \<open>One bundle per direction: from a payload read to its layout, and from the layout to what is read.\<close>

lemmas wire_read = length_is_def wire_fields field_here last_field_here read_i32_in_range read_i8_in_range
lemmas wire_written = length_is_def wire_fields read_fields read_fields [where xs = "[]", simplified append_Nil2] i32_id
  sint_word_of_int_i8

lemma posllh_wire:
  "ubx_decode_nav_posllh p = Some r \<longleftrightarrow> list_all in_i32 [longitude_e7 r, latitude_e7 r, height_ellipsoid_mm r,
     height_msl_mm r] \<and> p = UbxNavPosllhWire r" (is "?d \<longleftrightarrow> ?w")
proof
  show ?w if ?d using that by (auto simp: ubx_decode_nav_posllh_def UbxNavPosllhWire_def wire_read split: if_splits)
  show ?d if ?w using that by (cases r) (simp add: ubx_decode_nav_posllh_def UbxNavPosllhWire_def wire_written)
qed

lemma status_wire: "ubx_decode_nav_status p = Some r \<longleftrightarrow> p = UbxNavStatusWire r" (is "?d \<longleftrightarrow> ?w")
proof
  show ?w if ?d using that by (auto simp: ubx_decode_nav_status_def UbxNavStatusWire_def wire_read split: if_splits)
  show ?d if ?w using that by (cases r) (simp add: ubx_decode_nav_status_def UbxNavStatusWire_def wire_written)
qed

lemma timeutc_wire: "ubx_decode_nav_timeutc p = Some r \<longleftrightarrow> in_i32 (fractional_second_ns r) \<and> p = UbxNavTimeutcWire r"
  (is "?d \<longleftrightarrow> ?w")
proof
  show ?w if ?d using that by (auto simp: ubx_decode_nav_timeutc_def UbxNavTimeutcWire_def wire_read split: if_splits)
  show ?d if ?w using that by (cases r) (simp add: ubx_decode_nav_timeutc_def UbxNavTimeutcWire_def wire_written)
qed

lemma clock_wire:
  "ubx_decode_nav_clock p = Some r \<longleftrightarrow> in_i32 (clock_bias_ns r) \<and> in_i32 (clock_drift_ns_per_s r) \<and> p = UbxNavClockWire r"
  (is "?d \<longleftrightarrow> ?w")
proof
  show ?w if ?d using that by (auto simp: ubx_decode_nav_clock_def UbxNavClockWire_def wire_read split: if_splits)
  show ?d if ?w using that by (cases r) (simp add: ubx_decode_nav_clock_def UbxNavClockWire_def wire_written)
qed

lemma eoe_wire: "ubx_decode_nav_eoe p = Some r \<longleftrightarrow> p = UbxNavEoeWire r" (is "?d \<longleftrightarrow> ?w")
proof
  show ?w if ?d using that by (auto simp: ubx_decode_nav_eoe_def UbxNavEoeWire_def wire_read split: if_splits)
  show ?d if ?w using that by (cases r) (simp add: ubx_decode_nav_eoe_def UbxNavEoeWire_def wire_written)
qed

lemma timels_wire:
  "ubx_decode_nav_timels p = Some r \<longleftrightarrow>
     in_i8 (current_leap_seconds r) \<and> in_i8 (leap_second_change r) \<and> in_i32 (time_to_event_s r)
     \<and> (\<exists>reserved_0 reserved_1. length reserved_0 = 3 \<and> length reserved_1 = 3
          \<and> p = UbxNavTimelsWire reserved_0 reserved_1 r)" (is "?d \<longleftrightarrow> ?w")
proof
  show ?w if ?d
  proof -
    have "p = UbxNavTimelsWire (take 3 (drop 5 p)) (take 3 (drop 20 p)) r"
      using that by (auto simp: ubx_decode_nav_timels_def UbxNavTimelsWire_def wire_read split: if_splits)
    then show ?thesis
      using that by (auto simp: ubx_decode_nav_timels_def wire_read split: if_splits intro!: exI)
  qed
  show ?d if ?w using that
    by (cases r) (auto simp: ubx_decode_nav_timels_def UbxNavTimelsWire_def wire_written)
qed

lemma tim_tp_wire: "ubx_decode_tim_tp p = Some r \<longleftrightarrow> in_i32 (quantisation_error_ps r) \<and> p = UbxTimTpWire r" (is "?d \<longleftrightarrow> ?w")
proof
  show ?w if ?d using that by (auto simp: ubx_decode_tim_tp_def UbxTimTpWire_def wire_read split: if_splits)
  show ?d if ?w using that by (cases r) (simp add: ubx_decode_tim_tp_def UbxTimTpWire_def wire_written)
qed

lemma tim_tm2_wire: "ubx_decode_tim_tm2 p = Some r \<longleftrightarrow> p = UbxTimTm2Wire r" (is "?d \<longleftrightarrow> ?w")
proof
  show ?w if ?d using that by (auto simp: ubx_decode_tim_tm2_def UbxTimTm2Wire_def wire_read simp del: One_nat_def split: if_splits)
  show ?d if ?w using that by (cases r) (simp add: ubx_decode_tim_tm2_def UbxTimTm2Wire_def wire_written)
qed

lemma ack_wire: "ubx_decode_ack p = Some r \<longleftrightarrow> p = UbxAckWire r" (is "?d \<longleftrightarrow> ?w")
proof
  show ?w if ?d using that by (auto simp: ubx_decode_ack_def UbxAckWire_def wire_read split: if_splits)
  show ?d if ?w using that by (cases r) (simp add: ubx_decode_ack_def UbxAckWire_def wire_written)
qed

text \<open>
  C37: A payload decodes to a message exactly when it is the packed layout of \<open>ubx_proto.h\<close> with that
  message's fields, little-endian and signed where declared so, for all nine fixed messages; any
  other length is refused.
\<close>

theorem decoders_read_wire_layouts:
  "(ubx_decode_nav_posllh p = Some pos \<longleftrightarrow> list_all in_i32 [longitude_e7 pos, latitude_e7 pos, height_ellipsoid_mm pos,
      height_msl_mm pos] \<and> p = UbxNavPosllhWire pos)
   \<and> (ubx_decode_nav_status p = Some sta \<longleftrightarrow> p = UbxNavStatusWire sta)
   \<and> (ubx_decode_nav_timeutc p = Some utc \<longleftrightarrow> in_i32 (fractional_second_ns utc) \<and> p = UbxNavTimeutcWire utc)
   \<and> (ubx_decode_nav_clock p = Some clk \<longleftrightarrow>
        in_i32 (clock_bias_ns clk) \<and> in_i32 (clock_drift_ns_per_s clk) \<and> p = UbxNavClockWire clk)
   \<and> (ubx_decode_nav_eoe p = Some eoe \<longleftrightarrow> p = UbxNavEoeWire eoe)
   \<and> (ubx_decode_nav_timels p = Some tls \<longleftrightarrow>
        in_i8 (current_leap_seconds tls) \<and> in_i8 (leap_second_change tls) \<and> in_i32 (time_to_event_s tls)
        \<and> (\<exists>reserved_0 reserved_1. length reserved_0 = 3 \<and> length reserved_1 = 3
             \<and> p = UbxNavTimelsWire reserved_0 reserved_1 tls))
   \<and> (ubx_decode_tim_tp p = Some tp \<longleftrightarrow> in_i32 (quantisation_error_ps tp) \<and> p = UbxTimTpWire tp)
   \<and> (ubx_decode_tim_tm2 p = Some tm2 \<longleftrightarrow> p = UbxTimTm2Wire tm2)
   \<and> (ubx_decode_ack p = Some ack \<longleftrightarrow> p = UbxAckWire ack)"
  by (intro conjI posllh_wire status_wire timeutc_wire clock_wire eoe_wire timels_wire tim_tp_wire tim_tm2_wire ack_wire)

section \<open>Configuration items\<close>

text \<open>A loop over \<open>ubx_decode_valget_next\<close>: the items and how it ended.\<close>

function valget_all :: "UbxCfgValueReader \<Rightarrow> UbxCfgValue list \<times> UbxCfgReadResult" where
  "valget_all r =
     (case ubx_decode_valget_next r \<lparr>item_key = 0, item_value = 0, item_size = 0\<rparr> of
        (UBX_CFG_READ_ITEM, r', item) \<Rightarrow> (let (items, e) = valget_all r' in (item # items, e))
      | (e, _, _) \<Rightarrow> ([], e))"
  by pat_completeness auto
termination
  by (relation "measure (\<lambda>r. length (ahead r))") (auto simp: ubx_decode_valget_next_def Let_def split: if_splits)

declare valget_all.simps [simp del]

definition cfg_item :: "u32 \<times> u32 \<Rightarrow> UbxCfgValue" where
  "cfg_item kv = (let n = UBX_CFG_KEY_VALUE_SIZE (fst kv)
     in \<lparr>item_key = fst kv, item_value = take_bit (8 * n) (snd kv), item_size = n\<rparr>)"

definition item_bytes :: "u32 \<times> u32 \<Rightarrow> u8 list" where
  "item_bytes kv = little_bytes (fst kv) 4 @ little_bytes (snd kv) (UBX_CFG_KEY_VALUE_SIZE (fst kv))"

definition items_fit :: "(u32 \<times> u32) list \<Rightarrow> bool" where
  "items_fit kvs \<longleftrightarrow> length kvs \<le> 64 \<and> list_all (\<lambda>kv. UBX_CFG_KEY_VALUE_SIZE (fst kv) \<in> {1, 2, 4}) kvs
     \<and> 12 + length (concat (map item_bytes kvs)) \<le> 256"

definition valset_of :: "u8 \<Rightarrow> (u32 \<times> u32) list \<Rightarrow> UbxCfgMessage" where
  "valset_of layers kvs =
     fold (\<lambda>kv m. snd (ubx_encode_valset_add m (fst kv) (snd kv))) kvs (ubx_encode_valset_begin layers)"

lemma value_size_cases: "UBX_CFG_KEY_VALUE_SIZE key \<in> {0, 1, 2, 4, 8}"
  by (simp add: UBX_CFG_KEY_VALUE_SIZE_def Let_def)

lemma valset_add_poisoned: "overflowed m \<Longrightarrow> overflowed (snd (ubx_encode_valset_add m k v))"
  by (auto simp: ubx_encode_valset_add_def cfg_append_key_def cfg_append_def Let_def)

lemma valset_add_good:
  assumes "\<not> overflowed m" "cfg_message_id m = UBX_ID_CFG_VALSET"
  shows "snd (ubx_encode_valset_add m k v) =
    (if key_count m < 64 \<and> UBX_CFG_KEY_VALUE_SIZE k \<in> {1, 2, 4} \<and> length (cfg_payload m @ item_bytes (k, v)) + 8 \<le> 256
     then m\<lparr>cfg_payload := cfg_payload m @ item_bytes (k, v), key_count := key_count m + 1\<rparr>
     else m\<lparr>overflowed := True\<rparr>)"
  using assms value_size_cases [of k]
  by (auto simp: ubx_encode_valset_add_def cfg_append_key_def cfg_append_def item_bytes_def Let_def ubx_sizes
    UBX_CFG_VAL_MAX_KEYS_def not_less not_le)

lemma valset_of_items:
  defines "m layers kvs \<equiv> valset_of layers kvs"
  shows "cfg_message_id (m layers kvs) = UBX_ID_CFG_VALSET \<and> overflowed (m layers kvs) = (\<not> items_fit kvs)
    \<and> (items_fit kvs \<longrightarrow> cfg_payload (m layers kvs) = [0, layers, 0, 0] @ concat (map item_bytes kvs)
         \<and> key_count (m layers kvs) = of_nat (length kvs))"
proof (induction kvs rule: rev_induct)
  case Nil
  show ?case by (simp add: m_def valset_of_def ubx_encode_valset_begin_def cfg_begin_def items_fit_def)
next
  case (snoc kv kvs)
  let ?m = "m layers kvs" and ?m' = "m layers (kvs @ [kv])"
  have next_m: "?m' = snd (ubx_encode_valset_add ?m (fst kv) (snd kv))" by (simp add: m_def valset_of_def)
  have id: "cfg_message_id ?m' = UBX_ID_CFG_VALSET"
    using snoc unfolding next_m
    by (auto simp: ubx_encode_valset_add_def cfg_append_key_def cfg_append_def Let_def)
  show ?case
  proof (cases "items_fit kvs")
    case False
    then have "\<not> items_fit (kvs @ [kv])" by (auto simp: items_fit_def)
    then show ?thesis using False snoc id valset_add_poisoned by (simp add: next_m)
  next
    case True
    then have m: "\<not> overflowed ?m" "cfg_message_id ?m = UBX_ID_CFG_VALSET"
      "cfg_payload ?m = [0, layers, 0, 0] @ concat (map item_bytes kvs)" "key_count ?m = of_nat (length kvs)"
      using snoc by simp_all
    have "length kvs \<le> 64" using True by (simp add: items_fit_def)
    then have "key_count ?m < 64 \<longleftrightarrow> length (kvs @ [kv]) \<le> 64"
      unfolding m by (auto simp: word_less_nat_alt unat_of_nat take_bit_nat_eq_self)
    then show ?thesis
      using True m unfolding next_m valset_add_good [OF m(1,2)] by (auto simp: items_fit_def)
  qed
qed

lemma value_bytes:
  assumes "n \<in> {1, 2, 4}"
  shows "fold (\<lambda>i acc. acc OR push_bit (8 * i) (ucast ((little_bytes v n @ rest) ! i))) [0..<n] 0 = take_bit (8 * n) (v :: u32)"
proof -
  consider "n = 1" | "n = 2" | "n = 4" using assms by blast
  then show ?thesis
  proof cases
    case 1
    have "[0..<1] = [0::nat]" by simp
    then show ?thesis using 1 by (auto intro!: bit_word_eqI simp: little_bytes_list bit_simps simp del: One_nat_def)
  next
    case 2
    have "[0..<2] = [0, 1::nat]" by (simp add: upt_rec)
    then show ?thesis using 2 by (auto intro!: bit_word_eqI simp: little_bytes_list bit_simps)
  next
    case 3
    have "[0..<4] = [0, 1, 2, 3::nat]" by (simp add: upt_rec)
    moreover have "take_bit 32 v = v" by (simp add: take_bit_word_eq_self)
    ultimately show ?thesis using 3 bytes_of_u32 [of v] by (simp add: little_bytes_list or.assoc)
  qed
qed

lemma next_of_item:
  assumes "UBX_CFG_KEY_VALUE_SIZE (fst kv) \<in> {1, 2, 4}" "ahead r = item_bytes kv @ rest"
  shows "ubx_decode_valget_next r item = (UBX_CFG_READ_ITEM, r\<lparr>ahead := rest\<rparr>, cfg_item kv)"
proof -
  let ?n = "UBX_CFG_KEY_VALUE_SIZE (fst kv)"
  have n: "?n \<noteq> 0" "min ?n 4 = ?n" using assms(1) by auto
  have key: "read_u32 (ahead r) = fst kv" by (simp add: assms(2) item_bytes_def read_fields)
  have bytes: "drop 4 (ahead r) = little_bytes (snd kv) ?n @ rest" by (simp add: assms(2) item_bytes_def)
  have len: "ahead r \<noteq> []" "\<not> length (ahead r) < 4" "\<not> length (ahead r) < 4 + ?n"
    by (auto simp: assms(2) item_bytes_def dest: arg_cong [where f = length])
  show ?thesis
    unfolding ubx_decode_valget_next_def Let_def key n bytes value_bytes [OF assms(1)]
    using len n by (simp add: cfg_item_def Let_def)
qed

lemma valget_all_items:
  assumes "list_all (\<lambda>kv. UBX_CFG_KEY_VALUE_SIZE (fst kv) \<in> {1, 2, 4}) kvs"
    "ahead r = concat (map item_bytes kvs)"
  shows "valget_all r = (map cfg_item kvs, UBX_CFG_READ_END)"
  using assms
proof (induction kvs arbitrary: r)
  case Nil
  then show ?case by (subst valget_all.simps) (simp add: ubx_decode_valget_next_def)
next
  case (Cons kv kvs)
  then have "valget_all (r\<lparr>ahead := concat (map item_bytes kvs)\<rparr>) = (map cfg_item kvs, UBX_CFG_READ_END)"
    by simp
  moreover have "ubx_decode_valget_next r \<lparr>item_key = 0, item_value = 0, item_size = 0\<rparr>
      = (UBX_CFG_READ_ITEM, r\<lparr>ahead := concat (map item_bytes kvs)\<rparr>, cfg_item kv)"
    using Cons.prems by (intro next_of_item) simp_all
  ultimately show ?case by (subst valget_all.simps) simp
qed

text \<open>
  Settings of the receiver put into a CFG-VALSET key by key: the message is finished exactly when
  there is a key, each has a value of 1, 2 or 4 bytes and the frame stays within 256 bytes; it is then
  the frame of a payload from which the CFG reader reads the layers and the same keys in order, each
  value cut to its key's size, and then the end.
\<close>

theorem cfg_settings_roundtrip:
  "(case ubx_encode_cfg_finish (valset_of layers kvs) of
      (finished, m) \<Rightarrow> finished = (kvs \<noteq> [] \<and> items_fit kvs) \<and>
        (if finished then length (cfg_frame m) \<le> 256 \<and>
           (\<exists>payload r. ubx_encode_frame UBX_CLASS_CFG UBX_ID_CFG_VALSET payload UBX_CFG_MESSAGE_CAPACITY = Some (cfg_frame m)
              \<and> ubx_decode_valget_open payload = Some r \<and> reader_layer r = layers
              \<and> valget_all r = (map cfg_item kvs, UBX_CFG_READ_END))
         else m = valset_of layers kvs))"
proof -
  let ?m = "valset_of layers kvs" and ?p = "[0, layers, 0, 0] @ concat (map item_bytes kvs)"
  have m: "cfg_message_id ?m = UBX_ID_CFG_VALSET" "overflowed ?m = (\<not> items_fit kvs)"
    "items_fit kvs \<Longrightarrow> cfg_payload ?m = ?p" "items_fit kvs \<Longrightarrow> key_count ?m = of_nat (length kvs)"
    using valset_of_items [of layers kvs] by blast+
  have count: "key_count ?m = 0 \<longleftrightarrow> kvs = []" if "items_fit kvs"
  proof -
    have "length kvs \<le> 64" using that by (simp add: items_fit_def)
    then have "unat (of_nat (length kvs) :: u8) = length kvs" by (simp add: unat_of_nat take_bit_nat_eq_self)
    then show ?thesis using m(4) [OF that] by (metis length_0_conv unat_0 unat_eq_zero)
  qed
  show ?thesis
  proof (cases "kvs \<noteq> [] \<and> items_fit kvs")
    case False
    then show ?thesis using m(2) count by (auto simp: ubx_encode_cfg_finish_def)
  next
    case True
    have len: "length ?p + 8 \<le> 256" using True by (simp add: items_fit_def)
    obtain r where r: "ubx_decode_valget_open ?p = Some r" "ahead r = concat (map item_bytes kvs)" "reader_layer r = layers"
      by (simp add: ubx_decode_valget_open_def ubx_sizes read_u8_def)
    have "valget_all r = (map cfg_item kvs, UBX_CFG_READ_END)"
      using True r(2) by (intro valget_all_items) (simp_all add: items_fit_def)
    moreover have "ubx_encode_cfg_finish ?m = (True, ?m\<lparr>cfg_frame := write_header UBX_CLASS_CFG UBX_ID_CFG_VALSET (length ?p) @ ?p
        @ write_checksum (write_header UBX_CLASS_CFG UBX_ID_CFG_VALSET (length ?p) @ ?p)\<rparr>)"
      using True m count by (simp add: ubx_encode_cfg_finish_def Let_def)
    moreover have "length (write_header a b n) = 6" "length (write_checksum bs) = 2" for a b n bs
      by (simp_all add: write_header_def write_checksum_def split: prod.split)
    ultimately show ?thesis
      using True len r by (auto simp: ubx_encode_frame_def ubx_sizes Let_def intro!: exI [of _ ?p] exI [of _ r])
  qed
qed

end
