(* ===== verification/Gnss_Epoch.thy ===== *)
theory Gnss_Epoch
  imports Ubx_Decode Utc
begin

text \<open>
  Navigation epochs (\<open>dspic_src/gnss/gnss_epoch.c\<close>) and the search for the receiver
  (\<open>gnss_detect.c\<close>). Messages of one time of week are gathered into a snapshot that is published
  once NAV-STATUS and NAV-TIMEUTC are both there; the snapshot labels a PPS edge at most once. The
  result of an operation is the assembler and whether it published. The answer of the UART's transmit
  ring to a poll is an argument.
\<close>

section \<open>The code: epochs\<close>

definition EPOCH_PART_STATUS :: u8 where "EPOCH_PART_STATUS = 0x01"
definition EPOCH_PART_TIMEUTC :: u8 where "EPOCH_PART_TIMEUTC = 0x02"
definition EPOCH_PARTS_REQUIRED :: u8 where "EPOCH_PARTS_REQUIRED = EPOCH_PART_STATUS OR EPOCH_PART_TIMEUTC"
definition NANOSECONDS_PER_SECOND :: int where "NANOSECONDS_PER_SECOND = 1000000000"
definition HALF_SECOND_NS :: int where "HALF_SECOND_NS = 500000000"
definition UBX_TIMEUTC_VALID_TOW :: u8 where "UBX_TIMEUTC_VALID_TOW = 0x01"
definition UBX_TIMEUTC_VALID_WEEK :: u8 where "UBX_TIMEUTC_VALID_WEEK = 0x02"
definition UBX_TIMEUTC_VALID_UTC :: u8 where "UBX_TIMEUTC_VALID_UTC = 0x04"
definition TIMEUTC_FULLY_VALID :: u8 where
  "TIMEUTC_FULLY_VALID = UBX_TIMEUTC_VALID_TOW OR UBX_TIMEUTC_VALID_WEEK OR UBX_TIMEUTC_VALID_UTC"
definition UBX_STATUS_FIX_OK :: u8 where "UBX_STATUS_FIX_OK = 0x01"
definition UBX_FIX_2D :: u8 where "UBX_FIX_2D = 2"
definition UBX_FIX_3D :: u8 where "UBX_FIX_3D = 3"
definition UBX_FIX_GNSS_DR :: u8 where "UBX_FIX_GNSS_DR = 4"
definition UBX_FIX_TIME_ONLY :: u8 where "UBX_FIX_TIME_ONLY = 5"
definition GNSS_EPOCH_ALIGNMENT_LIMIT_NS :: int where "GNSS_EPOCH_ALIGNMENT_LIMIT_NS = 100000000"
definition GNSS_PPS_ASSOCIATION_WINDOW_MS :: u32 where "GNSS_PPS_ASSOCIATION_WINDOW_MS = 950"

lemmas epoch_consts = EPOCH_PART_STATUS_def EPOCH_PART_TIMEUTC_def EPOCH_PARTS_REQUIRED_def
  NANOSECONDS_PER_SECOND_def HALF_SECOND_NS_def GNSS_EPOCH_ALIGNMENT_LIMIT_NS_def GNSS_PPS_ASSOCIATION_WINDOW_MS_def

record GnssPpsReference =
  ref_sequence :: u32
  ref_observed_ms :: u32
  ref_valid :: bool

record GnssEpoch =
  ep_tow_ms :: u32
  completed_ms :: u32
  ep_time_valid :: bool
  fix_ok :: bool
  ep_utc_seconds :: u32
  ep_leap_second :: bool
  offset_from_second_ns :: int
  pps_associated :: bool
  ep_pps_sequence :: u32
  ep_status :: UbxNavStatus
  ep_time_utc :: UbxNavTimeutc
  has_clock :: bool
  ep_clock :: UbxNavClock
  has_position :: bool
  ep_position :: UbxNavPosllh
  ended :: bool

record GnssEpochStats =
  eps_published :: u32
  abandoned :: u32
  eps_unassociated :: u32
  invalid_time :: u32

record GnssEpochAssembler =
  building :: GnssEpoch
  building_parts :: u8
  building_active :: bool
  published :: GnssEpoch
  has_published :: bool
  last_labelled_pps_sequence :: u32
  has_labelled_pps :: bool
  ep_stats :: GnssEpochStats

definition civil_of :: "UbxNavTimeutc \<Rightarrow> UtcCivil" where
  "civil_of t = \<lparr>year = utc_year t, month = utc_month t, day = utc_day t, hour = utc_hour t,
     minute = utc_minute t, second = utc_second t\<rparr>"

definition calendar_is_plausible :: "UbxNavTimeutc \<Rightarrow> bool" where
  "calendar_is_plausible t \<longleftrightarrow> utc_year t \<ge> 2020 \<and> utc_year t < UTC_LAST_YEAR \<and> utc_civil_is_valid (civil_of t)"

definition fix_is_usable :: "UbxNavStatus \<Rightarrow> bool" where
  "fix_is_usable s \<longleftrightarrow>
     (fix_type s = UBX_FIX_2D \<or> fix_type s = UBX_FIX_3D \<or> fix_type s = UBX_FIX_GNSS_DR \<or> fix_type s = UBX_FIX_TIME_ONLY)
     \<and> sta_flags s AND UBX_STATUS_FIX_OK \<noteq> 0"

definition derive_time :: "GnssEpoch \<Rightarrow> GnssEpoch" where
  "derive_time e =
     (let t = ep_time_utc e;
          utc_valid = (utc_validity t AND TIMEUTC_FULLY_VALID = TIMEUTC_FULLY_VALID);
          e1 = e\<lparr>fix_ok := fix_is_usable (ep_status e), ep_leap_second := utc_second t = 60\<rparr>
      in if \<not> calendar_is_plausible t
         then e1\<lparr>ep_utc_seconds := 0, offset_from_second_ns := 0, ep_time_valid := False\<rparr>
         else let whole = utc_from_civil (civil_of t); ns = fractional_second_ns t;
                  (whole_second, offset_ns) =
                    (if ns \<ge> HALF_SECOND_NS then (whole + 1, i32 (ns - NANOSECONDS_PER_SECOND))
                     else if ns < - HALF_SECOND_NS then (whole - 1, i32 (ns + NANOSECONDS_PER_SECOND))
                     else (whole, ns));
                  aligned = (offset_ns \<le> GNSS_EPOCH_ALIGNMENT_LIMIT_NS \<and> offset_ns \<ge> - GNSS_EPOCH_ALIGNMENT_LIMIT_NS)
              in e1\<lparr>ep_utc_seconds := whole_second, offset_from_second_ns := offset_ns,
                    ep_time_valid := fix_ok e1 \<and> utc_valid \<and> aligned\<rparr>)"

definition associate_pps :: "u32 \<Rightarrow> GnssPpsReference \<Rightarrow> GnssEpochAssembler \<Rightarrow> GnssEpoch \<Rightarrow> GnssEpochAssembler \<times> GnssEpoch" where
  "associate_pps now pps a e =
     (let already_labelled = (has_labelled_pps a \<and> last_labelled_pps_sequence a = ref_sequence pps);
          recent = now - ref_observed_ms pps < GNSS_PPS_ASSOCIATION_WINDOW_MS;
          e1 = e\<lparr>pps_associated := ref_valid pps \<and> recent \<and> \<not> already_labelled, ep_pps_sequence := ref_sequence pps\<rparr>
      in (if pps_associated e1 then a\<lparr>last_labelled_pps_sequence := ref_sequence pps, has_labelled_pps := True\<rparr> else a, e1))"

definition publish :: "u32 \<Rightarrow> GnssPpsReference \<Rightarrow> GnssEpochAssembler \<Rightarrow> GnssEpochAssembler" where
  "publish now pps a =
     (let (a1, e) = associate_pps now pps a (derive_time ((building a)\<lparr>completed_ms := now\<rparr>));
          s = ep_stats a1;
          s1 = s\<lparr>eps_published := eps_published s + 1\<rparr>;
          s2 = (if \<not> pps_associated e then s1\<lparr>eps_unassociated := eps_unassociated s1 + 1\<rparr> else s1);
          s3 = (if \<not> ep_time_valid e then s2\<lparr>invalid_time := invalid_time s2 + 1\<rparr> else s2)
      in a1\<lparr>building := e, published := e, has_published := True, building_active := False, building_parts := 0, ep_stats := s3\<rparr>)"

definition is_published_epoch :: "GnssEpochAssembler \<Rightarrow> u32 \<Rightarrow> bool" where
  "is_published_epoch a tow \<longleftrightarrow> has_published a \<and> ep_tow_ms (published a) = tow"

text \<open>The zeros that \<open>memset\<close> leaves.\<close>

definition blank_epoch :: GnssEpoch where
  "blank_epoch = \<lparr>ep_tow_ms = 0, completed_ms = 0, ep_time_valid = False, fix_ok = False, ep_utc_seconds = 0,
     ep_leap_second = False, offset_from_second_ns = 0, pps_associated = False, ep_pps_sequence = 0,
     ep_status = \<lparr>sta_tow_ms = 0, time_to_first_fix_ms = 0, receiver_uptime_ms = 0, fix_type = 0, sta_flags = 0,
       fix_status = 0, status_flags = 0\<rparr>,
     ep_time_utc = \<lparr>utc_tow_ms = 0, utc_accuracy_ns = 0, fractional_second_ns = 0, utc_year = 0, utc_month = 0,
       utc_day = 0, utc_hour = 0, utc_minute = 0, utc_second = 0, utc_validity = 0\<rparr>,
     has_clock = False,
     ep_clock = \<lparr>clk_tow_ms = 0, clock_bias_ns = 0, clock_drift_ns_per_s = 0, clk_accuracy_ns = 0,
       frequency_accuracy_ps_per_s = 0\<rparr>,
     has_position = False,
     ep_position = \<lparr>pos_tow_ms = 0, longitude_e7 = 0, latitude_e7 = 0, height_ellipsoid_mm = 0, height_msl_mm = 0,
       horizontal_accuracy_mm = 0, vertical_accuracy_mm = 0\<rparr>,
     ended = False\<rparr>"

text \<open>The assembler with \<open>building\<close> the epoch of this time of week.\<close>

definition building_epoch :: "u32 \<Rightarrow> GnssEpochAssembler \<Rightarrow> GnssEpochAssembler" where
  "building_epoch tow a =
     (if building_active a \<and> ep_tow_ms (building a) = tow then a
      else let s = ep_stats a;
               a1 = (if building_active a \<and> building_parts a \<noteq> 0 then a\<lparr>ep_stats := s\<lparr>abandoned := abandoned s + 1\<rparr>\<rparr> else a)
           in a1\<lparr>building := blank_epoch\<lparr>ep_tow_ms := tow\<rparr>, building_parts := 0, building_active := True\<rparr>)"

definition add_required_part :: "u8 \<Rightarrow> u32 \<Rightarrow> GnssPpsReference \<Rightarrow> GnssEpochAssembler \<Rightarrow> GnssEpochAssembler \<times> bool" where
  "add_required_part part now pps a =
     (let a1 = a\<lparr>building_parts := building_parts a OR part\<rparr>
      in if building_parts a1 AND EPOCH_PARTS_REQUIRED = EPOCH_PARTS_REQUIRED
         then (publish now pps a1, True) else (a1, False))"

definition gnss_epoch_init :: GnssEpochAssembler where
  "gnss_epoch_init = \<lparr>building = blank_epoch, building_parts = 0, building_active = False, published = blank_epoch,
     has_published = False, last_labelled_pps_sequence = 0, has_labelled_pps = False,
     ep_stats = \<lparr>eps_published = 0, abandoned = 0, eps_unassociated = 0, invalid_time = 0\<rparr>\<rparr>"

definition on_building :: "(GnssEpoch \<Rightarrow> GnssEpoch) \<Rightarrow> GnssEpochAssembler \<Rightarrow> GnssEpochAssembler" where
  "on_building f a = a\<lparr>building := f (building a)\<rparr>"

definition gnss_epoch_add_status :: "UbxNavStatus \<Rightarrow> u32 \<Rightarrow> GnssPpsReference \<Rightarrow> GnssEpochAssembler \<Rightarrow> GnssEpochAssembler \<times> bool" where
  "gnss_epoch_add_status s now pps a =
     (if is_published_epoch a (sta_tow_ms s) then (a, False)
      else add_required_part EPOCH_PART_STATUS now pps
             (on_building (\<lambda>e. e\<lparr>ep_status := s\<rparr>) (building_epoch (sta_tow_ms s) a)))"

definition gnss_epoch_add_time_utc :: "UbxNavTimeutc \<Rightarrow> u32 \<Rightarrow> GnssPpsReference \<Rightarrow> GnssEpochAssembler \<Rightarrow> GnssEpochAssembler \<times> bool" where
  "gnss_epoch_add_time_utc t now pps a =
     (if is_published_epoch a (utc_tow_ms t) then (a, False)
      else add_required_part EPOCH_PART_TIMEUTC now pps
             (on_building (\<lambda>e. e\<lparr>ep_time_utc := t\<rparr>) (building_epoch (utc_tow_ms t) a)))"

definition gnss_epoch_add_clock :: "UbxNavClock \<Rightarrow> GnssEpochAssembler \<Rightarrow> GnssEpochAssembler" where
  "gnss_epoch_add_clock c a =
     (let put = (\<lambda>e. e\<lparr>ep_clock := c, has_clock := True\<rparr>)
      in if is_published_epoch a (clk_tow_ms c) then a\<lparr>published := put (published a)\<rparr>
         else on_building put (building_epoch (clk_tow_ms c) a))"

definition gnss_epoch_add_position :: "UbxNavPosllh \<Rightarrow> GnssEpochAssembler \<Rightarrow> GnssEpochAssembler" where
  "gnss_epoch_add_position p a =
     (let put = (\<lambda>e. e\<lparr>ep_position := p, has_position := True\<rparr>)
      in if is_published_epoch a (pos_tow_ms p) then a\<lparr>published := put (published a)\<rparr>
         else on_building put (building_epoch (pos_tow_ms p) a))"

definition gnss_epoch_end :: "UbxNavEoe \<Rightarrow> GnssEpochAssembler \<Rightarrow> GnssEpochAssembler" where
  "gnss_epoch_end e a =
     (if is_published_epoch a (eoe_tow_ms e) then a\<lparr>published := (published a)\<lparr>ended := True\<rparr>\<rparr>
      else if building_active a \<and> ep_tow_ms (building a) = eoe_tow_ms e
      then let s = ep_stats a
           in a\<lparr>ep_stats := (if building_parts a \<noteq> 0 then s\<lparr>abandoned := abandoned s + 1\<rparr> else s),
                building_active := False, building_parts := 0\<rparr>
      else a)"

definition gnss_epoch_latest :: "GnssEpochAssembler \<Rightarrow> GnssEpoch option" where
  "gnss_epoch_latest a = (if has_published a then Some (published a) else None)"

section \<open>The time of an epoch\<close>

text \<open>The instant that a NAV-TIMEUTC reports, in nanoseconds since 1970; 23:59:60 is held as 23:59:59.\<close>

definition reported_ns :: "UbxNavTimeutc \<Rightarrow> int" where
  "reported_ns t =
     (let c = civil_of t
      in int ((date_days (civil_date c) - 719468) * 86400 + unat (hour c) * 3600 + unat (minute c) * 60
           + min 59 (unat (second c))) * 1000000000 + fractional_second_ns t)"

lemma reported_seconds:
  assumes "calendar_is_plausible t"
  shows "reported_ns t = int (unat (utc_from_civil (civil_of t))) * 1000000000 + fractional_second_ns t"
  using assms unat_utc_from_civil [of "civil_of t"]
  by (simp add: reported_ns_def calendar_is_plausible_def Let_def)

lemma plausible_second_range:
  assumes "calendar_is_plausible t"
  shows "0 < unat (utc_from_civil (civil_of t))" "unat (utc_from_civil (civil_of t)) < 2 ^ 32 - 1"
proof -
  let ?c = "civil_of t"
  have v: "utc_civil_is_valid ?c" and y: "2020 \<le> unat (year ?c)" "unat (year ?c) < 2106"
    using assms by (auto simp: calendar_is_plausible_def civil_of_def UTC_LAST_YEAR_def word_le_nat_alt word_less_nat_alt)
  note d = valid_date [OF v]
  have days: "date_days (civil_date ?c) = days_nat (unat (year ?c)) (unat (month ?c)) (unat (day ?c))" by simp
  have "year_start 1970 \<le> year_start (march_year (unat (year ?c)) (unat (month ?c)))"
    by (rule year_start_mono) (use y in \<open>auto simp: march_year_def\<close>)
  then have low: "719527 \<le> date_days (civil_date ?c)" by (simp add: days_nat_alt year_starts)
  have up: "date_days (civil_date ?c) < 719468 + 49710"
    using d(1) y days_nat_upper [of "unat (year ?c)" "unat (month ?c)" "unat (day ?c)"] d(3,7) by simp
  show "0 < unat (utc_from_civil ?c)" "unat (utc_from_civil ?c) < 2 ^ 32 - 1"
    using d(4-6) low up by (simp_all add: unat_utc_from_civil [OF v])
qed

lemma derive_time_exact:
  assumes p: "calendar_is_plausible (ep_time_utc e)" and ns: "\<bar>fractional_second_ns (ep_time_utc e)\<bar> \<le> 1000000000"
  shows "int (unat (ep_utc_seconds (derive_time e))) * 1000000000 + offset_from_second_ns (derive_time e)
      = reported_ns (ep_time_utc e)"
    and "\<bar>offset_from_second_ns (derive_time e)\<bar> \<le> 500000000"
proof -
  let ?t = "ep_time_utc e" and ?w = "utc_from_civil (civil_of (ep_time_utc e))"
  have "unat (?w + 1) = unat ?w + 1" using plausible_second_range [OF p] by (simp add: unat_word_ariths)
  then have up: "int (unat (?w + 1)) = int (unat ?w) + 1" by linarith
  have down: "int (unat (?w - 1)) = int (unat ?w) - 1"
    using plausible_second_range [OF p] by (simp add: unat_sub word_le_nat_alt of_nat_diff)
  have r: "i32 (fractional_second_ns ?t - 1000000000) = fractional_second_ns ?t - 1000000000"
    "i32 (fractional_second_ns ?t + 1000000000) = fractional_second_ns ?t + 1000000000"
    using ns by (intro i32_id in_i32I; linarith)+
  show "int (unat (ep_utc_seconds (derive_time e))) * 1000000000 + offset_from_second_ns (derive_time e) = reported_ns ?t"
    "\<bar>offset_from_second_ns (derive_time e)\<bar> \<le> 500000000"
    using p ns up down r by (auto simp: derive_time_def Let_def epoch_consts reported_seconds)
qed

lemma nearest_second:
  fixes w x i :: int
  assumes "w * 1000000000 + x = i" "\<bar>x\<bar> \<le> 500000000"
  shows "(\<exists>s. \<bar>i - s * 1000000000\<bar> \<le> 100000000) \<longleftrightarrow> \<bar>x\<bar> \<le> 100000000"
proof
  assume "\<exists>s. \<bar>i - s * 1000000000\<bar> \<le> 100000000"
  then obtain s where s: "\<bar>i - s * 1000000000\<bar> \<le> 100000000" by blast
  have "s = w" using s assms by linarith
  then show "\<bar>x\<bar> \<le> 100000000" using s assms by simp
next
  assume "\<bar>x\<bar> \<le> 100000000"
  then show "\<exists>s. \<bar>i - s * 1000000000\<bar> \<le> 100000000" using assms by (intro exI [of _ w]) simp
qed

section \<open>Runs of messages\<close>

datatype GnssEvent =
  StatusMsg UbxNavStatus u32 GnssPpsReference | TimeMsg UbxNavTimeutc u32 GnssPpsReference
  | ClockMsg UbxNavClock | PositionMsg UbxNavPosllh | EndMsg UbxNavEoe

fun epoch_step :: "GnssEvent \<Rightarrow> GnssEpochAssembler \<Rightarrow> GnssEpochAssembler \<times> bool" where
  "epoch_step (StatusMsg s now pps) a = gnss_epoch_add_status s now pps a"
| "epoch_step (TimeMsg t now pps) a = gnss_epoch_add_time_utc t now pps a"
| "epoch_step (ClockMsg c) a = (gnss_epoch_add_clock c a, False)"
| "epoch_step (PositionMsg p) a = (gnss_epoch_add_position p a, False)"
| "epoch_step (EndMsg e) a = (gnss_epoch_end e a, False)"

text \<open>The snapshots as they are published.\<close>

fun epoch_run :: "GnssEvent list \<Rightarrow> GnssEpochAssembler \<Rightarrow> GnssEpoch list" where
  "epoch_run [] a = []"
| "epoch_run (e # es) a =
     (case epoch_step e a of (a', out) \<Rightarrow> (if out then [published a'] else []) @ epoch_run es a')"

definition epoch_states :: "GnssEvent list \<Rightarrow> GnssEpochAssembler \<Rightarrow> GnssEpochAssembler" where
  "epoch_states es a = fold (\<lambda>e a. fst (epoch_step e a)) es a"

text \<open>All parts of one epoch, and its derived fields those of its own messages.\<close>

definition parts_match :: "GnssEpoch \<Rightarrow> bool" where
  "parts_match e \<longleftrightarrow> (has_clock e \<longrightarrow> clk_tow_ms (ep_clock e) = ep_tow_ms e)
     \<and> (has_position e \<longrightarrow> pos_tow_ms (ep_position e) = ep_tow_ms e)"

definition one_epoch :: "GnssEpoch \<Rightarrow> bool" where
  "one_epoch e \<longleftrightarrow> sta_tow_ms (ep_status e) = ep_tow_ms e \<and> utc_tow_ms (ep_time_utc e) = ep_tow_ms e
     \<and> parts_match e \<and> derive_time e = e"

definition building_ok :: "GnssEpochAssembler \<Rightarrow> bool" where
  "building_ok a \<longleftrightarrow> parts_match (building a)
     \<and> (building_parts a AND EPOCH_PART_STATUS \<noteq> 0 \<longrightarrow> sta_tow_ms (ep_status (building a)) = ep_tow_ms (building a))
     \<and> (building_parts a AND EPOCH_PART_TIMEUTC \<noteq> 0 \<longrightarrow> utc_tow_ms (ep_time_utc (building a)) = ep_tow_ms (building a))"

definition assembler_ok :: "GnssEpochAssembler \<Rightarrow> bool" where
  "assembler_ok a \<longleftrightarrow> (building_active a \<longrightarrow> building_ok a) \<and> (has_published a \<longrightarrow> one_epoch (published a))"

lemma derive_time_frame:
  "ep_tow_ms (derive_time e) = ep_tow_ms e" "completed_ms (derive_time e) = completed_ms e"
  "ep_status (derive_time e) = ep_status e" "ep_time_utc (derive_time e) = ep_time_utc e"
  "has_clock (derive_time e) = has_clock e" "ep_clock (derive_time e) = ep_clock e"
  "has_position (derive_time e) = has_position e" "ep_position (derive_time e) = ep_position e"
  "parts_match (derive_time e) = parts_match e"
  by (simp_all add: derive_time_def Let_def parts_match_def split: prod.split)

lemma derive_time_again: "derive_time (derive_time e) = derive_time e"
  by (simp add: derive_time_def Let_def split: prod.split)

lemma derive_time_unchanged:
  "derive_time (e\<lparr>ep_clock := c, has_clock := b\<rparr>) = (derive_time e)\<lparr>ep_clock := c, has_clock := b\<rparr>"
  "derive_time (e\<lparr>ep_position := p, has_position := b\<rparr>) = (derive_time e)\<lparr>ep_position := p, has_position := b\<rparr>"
  "derive_time (e\<lparr>ended := b\<rparr>) = (derive_time e)\<lparr>ended := b\<rparr>"
  "derive_time (e\<lparr>pps_associated := b, ep_pps_sequence := n\<rparr>) = (derive_time e)\<lparr>pps_associated := b, ep_pps_sequence := n\<rparr>"
  by (simp_all add: derive_time_def Let_def split: prod.split)

definition labels_of :: "u32 \<Rightarrow> GnssPpsReference \<Rightarrow> GnssEpochAssembler \<Rightarrow> bool" where
  "labels_of now pps a \<longleftrightarrow> ref_valid pps \<and> now - ref_observed_ms pps < 950
     \<and> \<not> (has_labelled_pps a \<and> last_labelled_pps_sequence a = ref_sequence pps)"

text \<open>What publishing does, in one equation per part.\<close>

lemma publish_result:
  "has_published (publish now pps a)" "\<not> building_active (publish now pps a)"
  "published (publish now pps a) = (derive_time ((building a)\<lparr>completed_ms := now\<rparr>))
     \<lparr>pps_associated := labels_of now pps a, ep_pps_sequence := ref_sequence pps\<rparr>"
  "has_labelled_pps (publish now pps a) = (labels_of now pps a \<or> has_labelled_pps a)"
  "last_labelled_pps_sequence (publish now pps a) =
     (if labels_of now pps a then ref_sequence pps else last_labelled_pps_sequence a)"
  by (simp_all add: publish_def associate_pps_def labels_of_def Let_def GNSS_PPS_ASSOCIATION_WINDOW_MS_def, blast)

lemma publish_one_epoch:
  assumes "building_ok a" "building_parts a AND EPOCH_PARTS_REQUIRED = EPOCH_PARTS_REQUIRED"
  shows "one_epoch (published (publish now pps a))"
proof -
  have "building_parts a AND EPOCH_PART_STATUS = (building_parts a AND EPOCH_PARTS_REQUIRED) AND EPOCH_PART_STATUS"
    "building_parts a AND EPOCH_PART_TIMEUTC = (building_parts a AND EPOCH_PARTS_REQUIRED) AND EPOCH_PART_TIMEUTC"
    by (simp_all add: epoch_consts and.assoc)
  then have "building_parts a AND EPOCH_PART_STATUS \<noteq> 0" "building_parts a AND EPOCH_PART_TIMEUTC \<noteq> 0"
    unfolding assms(2) by (simp_all add: epoch_consts)
  then show ?thesis using assms(1)
    by (simp add: one_epoch_def building_ok_def publish_result derive_time_frame derive_time_unchanged derive_time_again
      parts_match_def)
qed

lemma building_epoch_result:
  assumes "building_active a \<Longrightarrow> building_ok a"
  shows "building_ok (building_epoch tow a)" "ep_tow_ms (building (building_epoch tow a)) = tow"
    "building_active (building_epoch tow a)" "published (building_epoch tow a) = published a"
    "has_published (building_epoch tow a) = has_published a"
    "has_labelled_pps (building_epoch tow a) = has_labelled_pps a"
    "last_labelled_pps_sequence (building_epoch tow a) = last_labelled_pps_sequence a"
  using assms by (auto simp: building_epoch_def Let_def building_ok_def blank_epoch_def parts_match_def)

text \<open>A required part: a duplicate of the published epoch changes nothing; otherwise it joins its epoch.\<close>

lemma part_bits:
  "(p OR EPOCH_PART_STATUS) AND EPOCH_PART_TIMEUTC = p AND EPOCH_PART_TIMEUTC"
  "(p OR EPOCH_PART_TIMEUTC) AND EPOCH_PART_STATUS = p AND EPOCH_PART_STATUS"
  unfolding epoch_consts by (rule bit_word_eqI, auto simp: bit_simps bit_numeral_rec)+

text \<open>The parts with the new one, and what stands there before publishing.\<close>

definition joined :: "GnssEvent \<Rightarrow> GnssEpochAssembler \<Rightarrow> GnssEpochAssembler" where
  "joined e a = (case e of
     StatusMsg s now pps \<Rightarrow> (let b = on_building (\<lambda>x. x\<lparr>ep_status := s\<rparr>) (building_epoch (sta_tow_ms s) a)
       in b\<lparr>building_parts := building_parts b OR EPOCH_PART_STATUS\<rparr>)
   | TimeMsg t now pps \<Rightarrow> (let b = on_building (\<lambda>x. x\<lparr>ep_time_utc := t\<rparr>) (building_epoch (utc_tow_ms t) a)
       in b\<lparr>building_parts := building_parts b OR EPOCH_PART_TIMEUTC\<rparr>)
   | _ \<Rightarrow> a)"

lemma joined_ok:
  assumes "building_active a \<Longrightarrow> building_ok a"
  shows "building_ok (joined (StatusMsg s now pps) a)" "building_ok (joined (TimeMsg t now pps) a)"
    "published (joined e a) = published a" "has_published (joined e a) = has_published a"
    "has_labelled_pps (joined e a) = has_labelled_pps a"
    "last_labelled_pps_sequence (joined e a) = last_labelled_pps_sequence a"
  using building_epoch_result [OF assms]
  by (auto simp: joined_def on_building_def building_ok_def parts_match_def Let_def part_bits split: GnssEvent.split)

lemma required_step:
  "epoch_step (StatusMsg s now pps) a =
     (if is_published_epoch a (sta_tow_ms s) then (a, False)
      else let b = joined (StatusMsg s now pps) a
           in if building_parts b AND EPOCH_PARTS_REQUIRED = EPOCH_PARTS_REQUIRED then (publish now pps b, True) else (b, False))"
  "epoch_step (TimeMsg t now pps) a =
     (if is_published_epoch a (utc_tow_ms t) then (a, False)
      else let b = joined (TimeMsg t now pps) a
           in if building_parts b AND EPOCH_PARTS_REQUIRED = EPOCH_PARTS_REQUIRED then (publish now pps b, True) else (b, False))"
  by (simp_all add: gnss_epoch_add_status_def gnss_epoch_add_time_utc_def joined_def add_required_part_def Let_def)

lemma published_or_joined_ok:
  assumes "building_ok b" "has_published b \<longrightarrow> one_epoch (published b)"
  shows "assembler_ok (fst (if building_parts b AND EPOCH_PARTS_REQUIRED = EPOCH_PARTS_REQUIRED
    then (publish now pps b, True) else (b, False)))"
  using assms publish_one_epoch [OF assms(1)] by (simp add: assembler_ok_def publish_result)

lemma epoch_step_ok: "assembler_ok a \<Longrightarrow> assembler_ok (fst (epoch_step e a))"
proof -
  assume ok: "assembler_ok a"
  then have b: "building_active a \<Longrightarrow> building_ok a" and p: "has_published a \<longrightarrow> one_epoch (published a)"
    by (auto simp: assembler_ok_def)
  note build = building_epoch_result [OF b] and join = joined_ok [OF b]
  show ?thesis
  proof (cases e)
    case (StatusMsg s now pps)
    show ?thesis unfolding StatusMsg required_step Let_def
      using ok p join published_or_joined_ok [of "joined (StatusMsg s now pps) a" now pps] by simp
  next
    case (TimeMsg t now pps)
    show ?thesis unfolding TimeMsg required_step Let_def
      using ok p join published_or_joined_ok [of "joined (TimeMsg t now pps) a" now pps] by simp
  next
    case (ClockMsg c)
    then show ?thesis using ok p build
      by (auto simp: gnss_epoch_add_clock_def Let_def is_published_epoch_def assembler_ok_def on_building_def
        building_ok_def one_epoch_def parts_match_def derive_time_unchanged)
  next
    case (PositionMsg c)
    then show ?thesis using ok p build
      by (auto simp: gnss_epoch_add_position_def Let_def is_published_epoch_def assembler_ok_def on_building_def
        building_ok_def one_epoch_def parts_match_def derive_time_unchanged)
  next
    case (EndMsg d)
    then show ?thesis using ok
      by (auto simp: gnss_epoch_end_def Let_def assembler_ok_def building_ok_def one_epoch_def parts_match_def derive_time_unchanged)
  qed
qed

lemma epoch_init_ok: "assembler_ok gnss_epoch_init"
  by (simp add: assembler_ok_def gnss_epoch_init_def)

interpretation epochs: stepper "\<lambda>e a. fst (epoch_step e a)" "\<lambda>_. True" assembler_ok
  by unfold_locales (rule epoch_step_ok)

lemma epoch_states_ok: "assembler_ok a \<Longrightarrow> assembler_ok (epoch_states es a)"
  unfolding epoch_states_def by (rule epochs.run_invar) (simp_all add: list_all_iff)

lemma published_is_one_epoch: "assembler_ok a \<Longrightarrow> snd (epoch_step e a) \<Longrightarrow> one_epoch (published (fst (epoch_step e a)))"
proof -
  assume ok: "assembler_ok a" and out: "snd (epoch_step e a)"
  have "has_published (fst (epoch_step e a))"
    using out by (cases e) (auto simp: required_step Let_def publish_result simp del: epoch_step.simps(1,2) split: if_splits)
  then show ?thesis using epoch_step_ok [OF ok, of e] by (simp add: assembler_ok_def)
qed

lemma epoch_run_ok: "assembler_ok a \<Longrightarrow> list_all one_epoch (epoch_run es a)"
proof (induction es arbitrary: a)
  case (Cons e es)
  obtain a' out where s: "epoch_step e a = (a', out)" by force
  have "assembler_ok a'" using epoch_step_ok [OF Cons.prems, of e] by (simp add: s)
  then show ?case using Cons.IH published_is_one_epoch [OF Cons.prems, of e] by (auto simp: s)
qed simp

section \<open>Labels of edges\<close>

fun reference_of :: "GnssEvent \<Rightarrow> GnssPpsReference option" where
  "reference_of (StatusMsg s now pps) = Some pps"
| "reference_of (TimeMsg t now pps) = Some pps"
| "reference_of _ = None"

definition edges_seen :: "GnssEvent list \<Rightarrow> u32 list" where
  "edges_seen es = map ref_sequence (List.map_filter reference_of es)"

definition labels :: "GnssEpoch list \<Rightarrow> u32 list" where
  "labels ps = map ep_pps_sequence (filter pps_associated ps)"

text \<open>One step, as far as labels go.\<close>

lemma label_step:
  assumes "epoch_step e a = (a', out)" "assembler_ok a"
  defines "here \<equiv> (if out \<and> pps_associated (published a') then [ep_pps_sequence (published a')] else [])"
  shows "case reference_of e of
      None \<Rightarrow> \<not> out \<and> has_labelled_pps a' = has_labelled_pps a \<and> last_labelled_pps_sequence a' = last_labelled_pps_sequence a
    | Some pps \<Rightarrow>
        if here = [] then has_labelled_pps a' = has_labelled_pps a \<and> last_labelled_pps_sequence a' = last_labelled_pps_sequence a
        else here = [ref_sequence pps] \<and> has_labelled_pps a' \<and> last_labelled_pps_sequence a' = ref_sequence pps
          \<and> \<not> (has_labelled_pps a \<and> last_labelled_pps_sequence a = ref_sequence pps)"
proof -
  have b: "building_active a \<Longrightarrow> building_ok a" using assms(2) by (simp add: assembler_ok_def)
  note join = joined_ok [OF b] and build = building_epoch_result [OF b]
  show ?thesis
  proof (cases e)
    case (StatusMsg s now pps)
    with assms(1) show ?thesis unfolding StatusMsg required_step Let_def here_def
      by (auto simp: publish_result labels_of_def join split: if_splits)
  next
    case (TimeMsg t now pps)
    with assms(1) show ?thesis unfolding TimeMsg required_step Let_def here_def
      by (auto simp: publish_result labels_of_def join split: if_splits)
  qed (use assms(1) build in \<open>auto simp: gnss_epoch_add_clock_def gnss_epoch_add_position_def gnss_epoch_end_def
      on_building_def Let_def split: if_splits\<close>)
qed

lemma runs_of_values:
  assumes "distinct (remdups_adj (q # qs))"
  shows "distinct (remdups_adj qs)" "q \<notin> set (dropWhile ((=) q) qs)"
proof -
  have "(\<lambda>y. y = q) = (=) q" by auto
  then have "remdups_adj (q # qs) = q # remdups_adj (dropWhile ((=) q) qs)"
    using remdups_adj_Cons' [of q qs] by simp
  then show "q \<notin> set (dropWhile ((=) q) qs)" using assms by simp
  show "distinct (remdups_adj qs)" using assms by (cases qs) (auto split: if_splits)
qed

lemma labels_run:
  assumes "assembler_ok a" "distinct (remdups_adj (edges_seen es))"
    "has_labelled_pps a \<Longrightarrow> last_labelled_pps_sequence a
       \<notin> set (dropWhile ((=) (last_labelled_pps_sequence a)) (edges_seen es))"
  shows "distinct (labels (epoch_run es a)) \<and> set (labels (epoch_run es a)) \<subseteq> set (edges_seen es)
    \<and> (has_labelled_pps a \<longrightarrow> last_labelled_pps_sequence a \<notin> set (labels (epoch_run es a)))"
  using assms
proof (induction es arbitrary: a)
  case (Cons e es)
  obtain a' out where s: "epoch_step e a = (a', out)" by force
  have ok: "assembler_ok a'" using epoch_step_ok [OF Cons.prems(1), of e] by (simp add: s)
  let ?here = "if out \<and> pps_associated (published a') then [ep_pps_sequence (published a')] else []"
  let ?L = "last_labelled_pps_sequence a"
  note step = label_step [OF s Cons.prems(1)]
  have run: "labels (epoch_run (e # es) a) = ?here @ labels (epoch_run es a')" by (simp add: s labels_def)
  show ?case
  proof (cases "reference_of e")
    case None
    then have "edges_seen (e # es) = edges_seen es" by (simp add: edges_seen_def List.map_filter_simps)
    then show ?thesis unfolding run using None step Cons.IH [OF ok] Cons.prems by simp
  next
    case (Some pps)
    let ?q = "ref_sequence pps" and ?qs = "edges_seen es"
    have seen: "edges_seen (e # es) = ?q # ?qs" using Some by (simp add: edges_seen_def List.map_filter_simps)
    note q = runs_of_values [OF Cons.prems(2) [unfolded seen]]
    show ?thesis
    proof (cases "?here = []")
      case True
      with step Some have same: "has_labelled_pps a' = has_labelled_pps a" "last_labelled_pps_sequence a' = ?L" by simp_all
      have "?L \<notin> set (dropWhile ((=) ?L) ?qs)" if "has_labelled_pps a"
        using Cons.prems(3) [OF that] set_dropWhileD [of ?L "(=) ?L" ?qs] by (auto simp: seen split: if_splits)
      then show ?thesis using Cons.IH [OF ok q(1)] same True unfolding run seen by auto
    next
      case False
      with step Some have here: "?here = [?q]" "has_labelled_pps a'" "last_labelled_pps_sequence a' = ?q"
        "\<not> (has_labelled_pps a \<and> ?L = ?q)" by simp_all
      have "?L \<notin> set (?q # ?qs)" if "has_labelled_pps a"
        using Cons.prems(3) [OF that] here(4) that by (simp add: seen)
      then show ?thesis using Cons.IH [OF ok q(1)] here q(2) unfolding run seen by auto
    qed
  qed
qed (simp add: labels_def)

lemma label_recent:
  assumes "epoch_step e a = (a', True)" "assembler_ok a" "pps_associated (published a')"
  shows "\<exists>pps. reference_of e = Some pps \<and> ref_valid pps \<and> completed_ms (published a') - ref_observed_ms pps < 950"
proof -
  have b: "building_active a \<Longrightarrow> building_ok a" using assms(2) by (simp add: assembler_ok_def)
  show ?thesis using assms(1,3)
    by (cases e) (auto simp: required_step Let_def publish_result labels_of_def derive_time_frame
      simp del: epoch_step.simps(1,2) split: if_splits)
qed

text \<open>Other messages of the epoch under construction leave what it waits for alone.\<close>

fun joins :: "u32 \<Rightarrow> GnssEvent \<Rightarrow> bool" where
  "joins w (ClockMsg c) = (clk_tow_ms c = w)"
| "joins w (PositionMsg p) = (pos_tow_ms p = w)"
| "joins w _ = False"

definition waiting :: "u32 \<Rightarrow> UbxNavStatus \<Rightarrow> GnssEpochAssembler \<Rightarrow> bool" where
  "waiting w s a \<longleftrightarrow> building_active a \<and> ep_tow_ms (building a) = w \<and> building_parts a = EPOCH_PART_STATUS
     \<and> ep_status (building a) = s \<and> \<not> is_published_epoch a w"

lemma waiting_joins: "waiting w s a \<Longrightarrow> joins w e \<Longrightarrow> waiting w s (fst (epoch_step e a))"
  by (cases e) (auto simp: waiting_def gnss_epoch_add_clock_def gnss_epoch_add_position_def on_building_def
    building_epoch_def is_published_epoch_def Let_def)

lemma joins_labels:
  "waiting w s a \<Longrightarrow> joins w e \<Longrightarrow> has_labelled_pps (fst (epoch_step e a)) = has_labelled_pps a
     \<and> last_labelled_pps_sequence (fst (epoch_step e a)) = last_labelled_pps_sequence a"
  by (cases e) (auto simp: waiting_def gnss_epoch_add_clock_def gnss_epoch_add_position_def on_building_def
    building_epoch_def Let_def)

lemma waiting_run:
  "waiting w s a \<Longrightarrow> list_all (joins w) es \<Longrightarrow> waiting w s (epoch_states es a)
     \<and> labels_of now pps (epoch_states es a) = labels_of now pps a"
  unfolding epoch_states_def
proof (induction es arbitrary: a)
  case (Cons e es)
  then show ?case using waiting_joins [of w s a e] joins_labels [of w s a e] by (simp add: labels_of_def)
qed simp

definition sample_utc :: UbxNavTimeutc where
  "sample_utc = \<lparr>utc_tow_ms = 0, utc_accuracy_ns = 20, fractional_second_ns = -3000, utc_year = 2024, utc_month = 2,
     utc_day = 29, utc_hour = 12, utc_minute = 0, utc_second = 1, utc_validity = 7\<rparr>"

section \<open>Claims\<close>

text \<open>
  C16: Messages of different seconds are never mixed: in every snapshot published in a run, and in the
  latest one at any time, the fix, the time, and the clock and position if there, are of the
  snapshot's own time of week, and its derived time is that of its own messages.
\<close>

theorem epochs_never_mixed:
  "list_all one_epoch (epoch_run es gnss_epoch_init)
   \<and> pred_option one_epoch (gnss_epoch_latest (epoch_states es gnss_epoch_init))"
  using epoch_run_ok [OF epoch_init_ok] epoch_states_ok [OF epoch_init_ok, of es]
  by (simp add: gnss_epoch_latest_def assembler_ok_def)

text \<open>
  C17: A pulse gives the second to one epoch only: as long as the count of edges never returns to an
  earlier value, the edges labelled by the snapshots of a run are all different, whatever pulses and
  messages are missing.
\<close>

theorem edge_labelled_once:
  assumes "distinct (remdups_adj (edges_seen es))"
  shows "distinct (labels (epoch_run es gnss_epoch_init))"
  using labels_run [OF epoch_init_ok assms] by (simp add: gnss_epoch_init_def)

theorem edge_labelled_once_witness:
  "\<exists>es. labels (epoch_run es gnss_epoch_init) = [7, 8] \<and> edges_seen es = [7, 7, 7, 7, 8, 8]
     \<and> distinct (labels (epoch_run es gnss_epoch_init))"
proof -
  define at where "at w n = (\<lambda>e. (case e of
      StatusMsg s now pps \<Rightarrow> StatusMsg (s\<lparr>sta_tow_ms := w\<rparr>) 100 \<lparr>ref_sequence = n, ref_observed_ms = 50, ref_valid = True\<rparr>
    | TimeMsg t now pps \<Rightarrow> TimeMsg (t\<lparr>utc_tow_ms := w\<rparr>) 100 \<lparr>ref_sequence = n, ref_observed_ms = 50, ref_valid = True\<rparr>
    | x \<Rightarrow> x))" for w n
  define no_ref where "no_ref = \<lparr>ref_sequence = 0, ref_observed_ms = 0, ref_valid = False\<rparr>"
  define st ti where "st = StatusMsg (ep_status blank_epoch) 0 no_ref" and "ti = TimeMsg sample_utc 0 no_ref"
  define es where "es = [at 0 7 st, at 0 7 ti, at 1000 7 st, at 1000 7 ti, at 2000 8 st, at 2000 8 ti]"
  have seen: "edges_seen es = [7, 7, 7, 7, 8, 8]"
    by (simp add: es_def at_def st_def ti_def edges_seen_def List.map_filter_simps)
  have "distinct (remdups_adj (edges_seen es))" by (simp add: seen)
  note once = edge_labelled_once [OF this]
  have "labels (epoch_run es gnss_epoch_init) = [7, 8]"
    unfolding es_def at_def st_def ti_def no_ref_def by code_simp
  then show ?thesis using seen once by blast
qed

text \<open>
  An epoch is published as soon as it is complete: for a new time of week, NAV-STATUS followed by
  NAV-TIMEUTC, with any clock and position messages of that second between them, publishes a snapshot
  with exactly these two, the time derived from them, and the latest edge as its own if that edge is
  less than 950 ms old and was not labelled before.
\<close>

theorem epoch_published_when_complete:
  assumes "sta_tow_ms s = w" "utc_tow_ms t = w" "\<not> is_published_epoch a w"
    "\<not> (building_active a \<and> ep_tow_ms (building a) = w)" "list_all (joins w) between"
  shows "case epoch_step (TimeMsg t now pps) (epoch_states (StatusMsg s now' pps' # between) a) of
      (a', out) \<Rightarrow> out \<and> (\<exists>e. gnss_epoch_latest a' = Some e \<and> ep_tow_ms e = w \<and> ep_status e = s \<and> ep_time_utc e = t
        \<and> completed_ms e = now \<and> derive_time e = e \<and> ep_pps_sequence e = ref_sequence pps
        \<and> pps_associated e = (ref_valid pps \<and> now - ref_observed_ms pps < 950
            \<and> \<not> (has_labelled_pps a \<and> last_labelled_pps_sequence a = ref_sequence pps)))"
proof -
  define a1 where "a1 = fst (epoch_step (StatusMsg s now' pps') a)"
  define a2 where "a2 = epoch_states between a1"
  have "EPOCH_PART_STATUS AND EPOCH_PARTS_REQUIRED \<noteq> EPOCH_PARTS_REQUIRED" by (simp add: epoch_consts)
  then have a1: "waiting w s a1" "labels_of now pps a1 = labels_of now pps a"
    using assms(1,3,4)
    by (auto simp: a1_def required_step joined_def building_epoch_def on_building_def waiting_def is_published_epoch_def
      labels_of_def Let_def simp del: epoch_step.simps(1,2))
  then have a2: "waiting w s a2" "labels_of now pps a2 = labels_of now pps a"
    using waiting_run [OF a1(1) assms(5), of now pps] by (simp_all add: a2_def)
  define b where "b = joined (TimeMsg t now pps) a2"
  have b: "building_parts b AND EPOCH_PARTS_REQUIRED = EPOCH_PARTS_REQUIRED"
    "ep_tow_ms (building b) = w" "ep_status (building b) = s" "ep_time_utc (building b) = t" "labels_of now pps b = labels_of now pps a2"
    using a2(1) assms(2)
    by (auto simp: b_def joined_def building_epoch_def on_building_def waiting_def labels_of_def Let_def epoch_consts)
  have "epoch_step (TimeMsg t now pps) a2 = (publish now pps b, True)"
    using a2(1) b(1) assms(2) unfolding required_step b_def by (simp add: waiting_def Let_def)
  moreover have "epoch_states (StatusMsg s now' pps' # between) a = a2" by (simp add: epoch_states_def a2_def a1_def)
  ultimately show ?thesis
    using b a2(2)
    by (simp add: gnss_epoch_latest_def publish_result derive_time_frame derive_time_unchanged derive_time_again labels_of_def)
qed

theorem epoch_published_when_complete_witness:
  "\<exists>s t pps. snd (epoch_step (TimeMsg t 120 pps) (epoch_states [StatusMsg s 110 pps] gnss_epoch_init)) \<and> ref_valid pps"
proof -
  define s where "s = ep_status blank_epoch"
  define pps where "pps = \<lparr>ref_sequence = 7, ref_observed_ms = 50, ref_valid = True\<rparr>"
  have "sta_tow_ms s = 0" "utc_tow_ms sample_utc = 0" "\<not> is_published_epoch gnss_epoch_init 0"
    "\<not> (building_active gnss_epoch_init \<and> ep_tow_ms (building gnss_epoch_init) = 0)" "list_all (joins 0) []"
    by (simp_all add: s_def blank_epoch_def sample_utc_def is_published_epoch_def gnss_epoch_init_def)
  note epoch_published_when_complete [OF this, of 120 pps 110 pps]
  then show ?thesis by (intro exI [of _ s] exI [of _ sample_utc] exI [of _ pps]) (simp add: case_prod_beta pps_def)
qed

text \<open>
  C18: The time of an epoch: with a plausible date, the whole second and the offset it holds add up to
  the instant NAV-TIMEUTC reports, the second being the nearest one; the time is valid exactly when
  the date is plausible, the fix usable, the time fully resolved and the instant within 100 ms of a
  whole second. Without a plausible date it is invalid.
\<close>

theorem epoch_time_exact:
  assumes "\<bar>fractional_second_ns (ep_time_utc e)\<bar> \<le> 1000000000"
  shows "ep_time_valid (derive_time e) =
      (calendar_is_plausible (ep_time_utc e) \<and> fix_is_usable (ep_status e)
       \<and> utc_validity (ep_time_utc e) AND TIMEUTC_FULLY_VALID = TIMEUTC_FULLY_VALID
       \<and> (\<exists>s. \<bar>reported_ns (ep_time_utc e) - s * 1000000000\<bar> \<le> 100000000))
    \<and> (if calendar_is_plausible (ep_time_utc e)
       then int (unat (ep_utc_seconds (derive_time e))) * 1000000000 + offset_from_second_ns (derive_time e)
              = reported_ns (ep_time_utc e) \<and> \<bar>offset_from_second_ns (derive_time e)\<bar> \<le> 500000000
       else ep_utc_seconds (derive_time e) = 0 \<and> offset_from_second_ns (derive_time e) = 0)"
proof (cases "calendar_is_plausible (ep_time_utc e)")
  case True
  note exact = derive_time_exact [OF True assms]
  have "ep_time_valid (derive_time e) = (fix_is_usable (ep_status e)
      \<and> utc_validity (ep_time_utc e) AND TIMEUTC_FULLY_VALID = TIMEUTC_FULLY_VALID
      \<and> \<bar>offset_from_second_ns (derive_time e)\<bar> \<le> 100000000)"
    using True by (auto simp: derive_time_def Let_def epoch_consts abs_le_iff)
  then show ?thesis using True exact nearest_second [OF exact] by simp
qed (simp add: derive_time_def Let_def)

theorem epoch_time_exact_witness:
  "\<exists>e. ep_time_valid (derive_time e) \<and> offset_from_second_ns (derive_time e) = - 3000
     \<and> int (unat (ep_utc_seconds (derive_time e))) * 1000000000 - 3000 = reported_ns sample_utc"
proof -
  define e where "e = blank_epoch\<lparr>ep_time_utc := sample_utc, ep_status := (ep_status blank_epoch)\<lparr>fix_type := 3, sta_flags := 1\<rparr>\<rparr>"
  have e: "ep_time_utc e = sample_utc" by (simp add: e_def)
  have plausible: "calendar_is_plausible sample_utc" by code_simp
  have "offset_from_second_ns (derive_time e) = - 3000"
    using plausible by (simp add: derive_time_def e Let_def epoch_consts) (simp add: sample_utc_def)
  moreover have "\<bar>fractional_second_ns (ep_time_utc e)\<bar> \<le> 1000000000" by (simp add: e sample_utc_def)
  note exact = epoch_time_exact [OF this]
  moreover have "fix_is_usable (ep_status e)" "utc_validity sample_utc AND TIMEUTC_FULLY_VALID = TIMEUTC_FULLY_VALID"
    by (simp_all add: e_def, code_simp+)
  ultimately show ?thesis
    using plausible exact nearest_second [of "int (unat (ep_utc_seconds (derive_time e)))" "-3000" "reported_ns sample_utc"]
    by (intro exI [of _ e]) (simp add: e)
qed

end
