(* ===== verification/Ubx_Parser.thy ===== *)
theory Ubx_Parser
  imports Ubx_Frame
begin

text \<open>
  The receiver's byte stream into frames (\<open>dspic_src/gnss/ubx_parser.c\<close>). The buffer is an array with
  the indices of the bytes still held; a byte written past it is \<open>None\<close>. The handler the code calls is
  the list of messages handed to it. \<open>ubx_parser_service\<close> drains the UART's ring into these
  operations; it is in the theory \<open>Gnss\<close>.
\<close>

section \<open>The code\<close>

definition UBX_PARSER_MAX_PAYLOAD :: nat where "UBX_PARSER_MAX_PAYLOAD = 512"
definition UBX_PARSER_BUFFER_BYTES :: nat where "UBX_PARSER_BUFFER_BYTES = UBX_PARSER_MAX_PAYLOAD + UBX_FRAME_OVERHEAD"
definition UBX_PARSER_TIMEOUT_MS :: u32 where "UBX_PARSER_TIMEOUT_MS = 50"
definition UBX_PARSER_UNEXPECTED_KINDS :: nat where "UBX_PARSER_UNEXPECTED_KINDS = 4"

record UbxMessageRule =
  rule_class :: u8
  rule_id :: u8
  length_base :: nat
  length_step :: nat

definition expected_messages :: "UbxMessageRule list" where
  "expected_messages = (let rule = UbxMessageRule.make in
     [rule 0x01 0x02 28 0, rule 0x01 0x03 16 0, rule 0x01 0x21 20 0, rule 0x01 0x22 20 0, rule 0x01 0x26 24 0,
      rule 0x01 0x61 4 0, rule 0x0D 0x01 16 0, rule 0x0D 0x03 28 0, rule 0x05 0x01 2 0, rule 0x05 0x00 2 0,
      rule 0x0A 0x04 40 30, rule 0x06 0x8B 4 1])"

definition find_rule :: "u8 \<Rightarrow> u8 \<Rightarrow> UbxMessageRule option" where
  "find_rule c i = find (\<lambda>r. rule_class r = c \<and> rule_id r = i) expected_messages"

definition length_matches :: "UbxMessageRule \<Rightarrow> nat \<Rightarrow> bool" where
  "length_matches r n \<longleftrightarrow>
     (if length_step r = 0 then n = length_base r
      else n \<ge> length_base r \<and> (n - length_base r) mod length_step r = 0)"

definition header_is_plausible :: "UbxMessageRule option \<Rightarrow> nat \<Rightarrow> bool" where
  "header_is_plausible rule n \<longleftrightarrow>
     n \<le> UBX_PARSER_MAX_PAYLOAD \<and> (case rule of None \<Rightarrow> True | Some r \<Rightarrow> length_matches r n)"

record UbxUnexpectedMessage =
  un_class :: u8
  un_id :: u8
  un_length :: nat
  un_count :: u32

record UbxParserStats =
  bytes_received :: u32
  valid_frames :: u32
  checksum_errors :: u32
  false_syncs :: u32
  last_false_sync :: "u8 \<times> u8 \<times> nat"
  timeouts :: u32
  discontinuities :: u32
  unexpected_frames :: u32
  unexpected :: "UbxUnexpectedMessage list"
  unexpected_other :: u32

record UbxParser =
  buffer :: "u8 list"
  buf_start :: nat
  buf_end :: nat
  last_byte_ms :: u32
  stats :: UbxParserStats

record UbxDispatch =
  msg_class :: u8
  msg_id :: u8
  msg_payload :: "u8 list"
  observed_ms :: u32

definition buffered_bytes :: "UbxParser \<Rightarrow> nat" where
  "buffered_bytes p = buf_end p - buf_start p"

definition consume :: "nat \<Rightarrow> UbxParser \<Rightarrow> UbxParser" where
  "consume n p =
     (if buf_start p + n \<ge> buf_end p then p\<lparr>buf_start := 0, buf_end := 0\<rparr> else p\<lparr>buf_start := buf_start p + n\<rparr>)"

definition append_byte :: "u8 \<Rightarrow> UbxParser \<Rightarrow> UbxParser option" where
  "append_byte byte p =
     (let q = (if buf_end p = UBX_PARSER_BUFFER_BYTES then
                 let n = buffered_bytes p
                 in p\<lparr>buffer := take n (drop (buf_start p) (buffer p)) @ drop n (buffer p), buf_start := 0, buf_end := n\<rparr>
               else p)
      in if buf_end q < UBX_PARSER_BUFFER_BYTES
         then Some (q\<lparr>buffer := (buffer q)[buf_end q := byte], buf_end := buf_end q + 1\<rparr>) else None)"

definition on_stats :: "(UbxParserStats \<Rightarrow> UbxParserStats) \<Rightarrow> UbxParser \<Rightarrow> UbxParser" where
  "on_stats f p = p\<lparr>stats := f (stats p)\<rparr>"

definition count_false_sync :: "u8 list \<Rightarrow> nat \<Rightarrow> UbxParserStats \<Rightarrow> UbxParserStats" where
  "count_false_sync frame n s =
     s\<lparr>false_syncs := false_syncs s + 1,
       last_false_sync := (frame ! UBX_HEADER_OFFSET_CLASS, frame ! UBX_HEADER_OFFSET_ID, n)\<rparr>"

fun count_kind :: "UbxUnexpectedMessage list \<Rightarrow> u8 \<Rightarrow> u8 \<Rightarrow> nat \<Rightarrow> UbxUnexpectedMessage list option" where
  "count_kind [] c i n = None"
| "count_kind (e # es) c i n =
     (if un_count e = 0 \<or> un_class e = c \<and> un_id e = i
      then Some (\<lparr>un_class = c, un_id = i, un_length = n, un_count = un_count e + 1\<rparr> # es)
      else map_option ((#) e) (count_kind es c i n))"

definition count_unexpected :: "u8 \<Rightarrow> u8 \<Rightarrow> nat \<Rightarrow> UbxParserStats \<Rightarrow> UbxParserStats" where
  "count_unexpected c i n s =
     (let s1 = s\<lparr>unexpected_frames := unexpected_frames s + 1\<rparr>
      in case count_kind (unexpected s1) c i n of
           Some u \<Rightarrow> s1\<lparr>unexpected := u\<rparr>
         | None \<Rightarrow> s1\<lparr>unexpected_other := unexpected_other s1 + 1\<rparr>)"

definition decode_length :: "u8 list \<Rightarrow> nat" where
  "decode_length frame =
     unat (ucast (frame ! UBX_HEADER_OFFSET_LENGTH) OR push_bit 8 (ucast (frame ! (UBX_HEADER_OFFSET_LENGTH + 1))) :: u16)"

lemma consume_less [termination_simp]:
  "0 < n \<Longrightarrow> buffered_bytes p \<noteq> 0 \<Longrightarrow> buffered_bytes (consume n p) < buffered_bytes p"
  by (auto simp: buffered_bytes_def consume_def)

lemma stats_buffered [simp]: "buffered_bytes (on_stats f p) = buffered_bytes p"
  by (simp add: buffered_bytes_def on_stats_def)

text \<open>The frame is the buffer from \<open>start\<close> on, of which \<open>available\<close> bytes are held.\<close>

function process_frames :: "u32 \<Rightarrow> bool \<Rightarrow> UbxParser \<Rightarrow> UbxParser \<times> UbxDispatch list" where
  "process_frames now flush p =
     (let frame = drop (buf_start p) (buffer p); available = buffered_bytes p
      in if available = 0 then (p, [])
         else if frame ! 0 \<noteq> UBX_SYNC_CHAR_1 then process_frames now flush (consume 1 p)
         else if available < 2 then (if flush then process_frames now flush (consume 1 p) else (p, []))
         else if frame ! 1 \<noteq> UBX_SYNC_CHAR_2 then process_frames now flush (consume 1 p)
         else if available < UBX_HEADER_LENGTH
         then (if flush then process_frames now flush (consume 1 p) else (p, []))
         else let class_id = frame ! UBX_HEADER_OFFSET_CLASS; message_id = frame ! UBX_HEADER_OFFSET_ID;
                  n = decode_length frame; rule = find_rule class_id message_id
         in if \<not> header_is_plausible rule n
            then process_frames now flush (consume 1 (on_stats (count_false_sync frame n) p))
            else let frame_length = n + UBX_FRAME_OVERHEAD
         in if available < frame_length then (if flush then process_frames now flush (consume 1 p) else (p, []))
            else if ubx_checksum (take (n + UBX_HEADER_LENGTH - UBX_HEADER_OFFSET_CLASS) (drop UBX_HEADER_OFFSET_CLASS frame))
                    \<noteq> (frame ! (frame_length - 2), frame ! (frame_length - 1))
            then process_frames now flush (consume 1 (on_stats
                   (if rule \<noteq> None then (\<lambda>s. s\<lparr>checksum_errors := checksum_errors s + 1\<rparr>) else count_false_sync frame n) p))
            else if rule = None
            then process_frames now flush (consume frame_length (on_stats (count_unexpected class_id message_id n) p))
            else let (q, ds) = process_frames now flush
                       (consume frame_length (on_stats (\<lambda>s. s\<lparr>valid_frames := valid_frames s + 1\<rparr>) p))
                 in (q, \<lparr>msg_class = class_id, msg_id = message_id, msg_payload = take n (drop UBX_HEADER_LENGTH frame),
                         observed_ms = now\<rparr> # ds))"
  by pat_completeness auto
termination
  by (relation "measure (\<lambda>(now, flush, p). buffered_bytes p)")
    (auto simp: UBX_FRAME_OVERHEAD_def UBX_HEADER_LENGTH_def consume_less [of _ "on_stats _ _", simplified] intro: consume_less)

declare process_frames.simps [simp del]

definition blank_stats :: UbxParserStats where
  "blank_stats = \<lparr>bytes_received = 0, valid_frames = 0, checksum_errors = 0, false_syncs = 0, last_false_sync = (0, 0, 0),
     timeouts = 0, discontinuities = 0, unexpected_frames = 0,
     unexpected = replicate UBX_PARSER_UNEXPECTED_KINDS \<lparr>un_class = 0, un_id = 0, un_length = 0, un_count = 0\<rparr>,
     unexpected_other = 0\<rparr>"

definition ubx_parser_init :: UbxParser where
  "ubx_parser_init = \<lparr>buffer = replicate UBX_PARSER_BUFFER_BYTES 0, buf_start = 0, buf_end = 0, last_byte_ms = 0,
     stats = blank_stats\<rparr>"

definition ubx_parser_reset :: "UbxParser \<Rightarrow> UbxParser" where
  "ubx_parser_reset p = p\<lparr>buf_start := 0, buf_end := 0\<rparr>"

definition ubx_parser_discontinuity :: "UbxParser \<Rightarrow> UbxParser" where
  "ubx_parser_discontinuity p = ubx_parser_reset (on_stats (\<lambda>s. s\<lparr>discontinuities := discontinuities s + 1\<rparr>) p)"

definition ubx_parser_feed :: "u8 \<Rightarrow> u32 \<Rightarrow> UbxParser \<Rightarrow> (UbxParser \<times> UbxDispatch list) option" where
  "ubx_parser_feed byte now p =
     map_option (process_frames now False)
       (append_byte byte ((on_stats (\<lambda>s. s\<lparr>bytes_received := bytes_received s + 1\<rparr>) p)\<lparr>last_byte_ms := now\<rparr>))"

definition ubx_parser_check_timeout :: "u32 \<Rightarrow> UbxParser \<Rightarrow> UbxParser \<times> UbxDispatch list" where
  "ubx_parser_check_timeout now p =
     (if buffered_bytes p > 0 \<and> now - last_byte_ms p \<ge> UBX_PARSER_TIMEOUT_MS
      then process_frames now True (on_stats (\<lambda>s. s\<lparr>timeouts := timeouts s + 1\<rparr>) p)
      else (p, []))"

section \<open>The decision at the head of the stream\<close>

text \<open>What one round does: wait for more bytes, drop one, skip a frame nobody wants, hand one over.\<close>

datatype decision = Hold | Drop | Skip nat | Deliver nat

definition valid_sum :: "u8 list \<Rightarrow> nat \<Rightarrow> bool" where
  "valid_sum w n \<longleftrightarrow> ubx_checksum (take (n + 4) (drop 2 w)) = (w ! (n + 6), w ! (n + 7))"

definition decision :: "u8 list \<Rightarrow> decision" where
  "decision w =
     (if w = [] then Hold
      else if w ! 0 \<noteq> UBX_SYNC_CHAR_1 then Drop
      else if length w < 2 then Hold
      else if w ! 1 \<noteq> UBX_SYNC_CHAR_2 then Drop
      else if length w < 6 then Hold
      else let n = decode_length w; rule = find_rule (w ! 2) (w ! 3)
      in if \<not> header_is_plausible rule n then Drop
         else if length w < n + 8 then Hold
         else if \<not> valid_sum w n then Drop
         else if rule = None then Skip (n + 8) else Deliver (n + 8))"

definition message_at :: "u8 list \<Rightarrow> u8 \<times> u8 \<times> u8 list" where
  "message_at w = (w ! 2, w ! 3, take (decode_length w) (drop 6 w))"

text \<open>The grammar of a whole stream: the messages in it and the bytes left undecided. With
  \<open>flush\<close>, the stream ends here and nothing is left undecided.\<close>

lemma decision_frame:
  "decision w = Deliver n \<or> decision w = Skip n \<Longrightarrow> n = decode_length w + 8 \<and> n \<le> length w \<and> n \<le> 520"
  by (auto simp: decision_def header_is_plausible_def UBX_PARSER_MAX_PAYLOAD_def Let_def split: if_splits)

lemma decision_hold: "decision w = Hold \<Longrightarrow> length w < 520"
  by (auto simp: decision_def header_is_plausible_def UBX_PARSER_MAX_PAYLOAD_def Let_def split: if_splits)

lemma decision_drop: "decision w = Drop \<Longrightarrow> w \<noteq> []"
  by (auto simp: decision_def)

function ubx_parse :: "bool \<Rightarrow> u8 list \<Rightarrow> (u8 \<times> u8 \<times> u8 list) list \<times> u8 list" where
  "ubx_parse flush w =
     (case decision w of
        Hold \<Rightarrow> if flush \<and> w \<noteq> [] then ubx_parse flush (tl w) else ([], w)
      | Drop \<Rightarrow> ubx_parse flush (tl w)
      | Skip n \<Rightarrow> ubx_parse flush (drop n w)
      | Deliver n \<Rightarrow> (let (ms, r) = ubx_parse flush (drop n w) in (message_at w # ms, r)))"
  by pat_completeness auto
termination
proof (relation "measure (\<lambda>(flush, w). length w)")
  show "((flush, drop n w), flush, w) \<in> measure (\<lambda>(flush, w). length w)" if "decision w = Skip n" for flush :: bool and n w
    using decision_frame [of w n] that by (cases w) auto
  show "((flush, drop n w), flush, w) \<in> measure (\<lambda>(flush, w). length w)" if "decision w = Deliver n" for flush :: bool and n w
    using decision_frame [of w n] that by (cases w) auto
  show "((flush, tl w), flush, w) \<in> measure (\<lambda>(flush, w). length w)" if "decision w = Drop" for flush :: bool and w
    using decision_drop [OF that] by (cases w) auto
qed auto

declare ubx_parse.simps [simp del]

lemma parse_cases:
  "decision w = Hold \<Longrightarrow> ubx_parse False w = ([], w)"
  "decision w = Hold \<Longrightarrow> w \<noteq> [] \<Longrightarrow> ubx_parse True w = ubx_parse True (tl w)"
  "decision w = Drop \<Longrightarrow> ubx_parse flush w = ubx_parse flush (tl w)"
  "decision w = Skip n \<Longrightarrow> ubx_parse flush w = ubx_parse flush (drop n w)"
  "decision w = Deliver n \<Longrightarrow>
     ubx_parse flush w = (message_at w # fst (ubx_parse flush (drop n w)), snd (ubx_parse flush (drop n w)))"
  "ubx_parse flush [] = ([], [])"
  by (subst ubx_parse.simps, simp add: case_prod_beta decision_def [of "[]"])+

section \<open>The buffer against the stream\<close>

definition window :: "UbxParser \<Rightarrow> u8 list" where
  "window p = take (buf_end p - buf_start p) (drop (buf_start p) (buffer p))"

definition buffer_ok :: "UbxParser \<Rightarrow> bool" where
  "buffer_ok p \<longleftrightarrow> buf_start p \<le> buf_end p \<and> buf_end p \<le> 520 \<and> length (buffer p) = 520"

lemma ubx_520: "UBX_PARSER_BUFFER_BYTES = 520"
  by (simp add: UBX_PARSER_BUFFER_BYTES_def UBX_PARSER_MAX_PAYLOAD_def ubx_sizes)

lemma length_window: "buffer_ok p \<Longrightarrow> length (window p) = buffered_bytes p"
  by (auto simp: window_def buffer_ok_def buffered_bytes_def)

lemma consume_window: "buffer_ok p \<Longrightarrow> window (consume n p) = drop n (window p)" "buffer_ok p \<Longrightarrow> buffer_ok (consume n p)"
  by (auto simp: window_def consume_def buffer_ok_def drop_take add.commute)

lemma stats_window [simp]: "window (on_stats f p) = window p" "buffer_ok (on_stats f p) = buffer_ok p"
  by (simp_all add: window_def on_stats_def buffer_ok_def)

lemma append_window:
  assumes "buffer_ok p" "buffered_bytes p < 520"
  obtains q where "append_byte b p = Some q" "buffer_ok q" "window q = window p @ [b]" "stats q = stats p" "last_byte_ms q = last_byte_ms p"
proof (cases "buf_end p = 520")
  case True
  define n where "n = 520 - buf_start p"
  have n: "n < 520" "buffered_bytes p = n" using assms True by (auto simp: buffered_bytes_def n_def)
  define q where "q = p\<lparr>buffer := (take n (drop (buf_start p) (buffer p)) @ drop n (buffer p))[n := b], buf_start := 0, buf_end := n + 1\<rparr>"
  have l: "length (take n (drop (buf_start p) (buffer p))) = n" "length (buffer p) = 520"
    using assms(1) by (simp_all add: buffer_ok_def n_def)
  have a: "append_byte b p = Some q" using True n by (simp add: append_byte_def ubx_520 Let_def q_def)
  have "window p = take n (drop (buf_start p) (buffer p))" using True by (simp add: window_def n_def)
  then have "window q = window p @ [b]"
    using l n by (simp add: window_def q_def list_update_append take_Suc_conv_app_nth nth_append)
  moreover have "buffer_ok q" using l n by (simp add: buffer_ok_def q_def)
  ultimately show ?thesis using that a by (simp add: q_def)
next
  case False
  define q where "q = p\<lparr>buffer := (buffer p)[buf_end p := b], buf_end := buf_end p + 1\<rparr>"
  have lt: "buf_end p < 520" "buf_start p \<le> buf_end p" "length (buffer p) = 520" using False assms(1) by (auto simp: buffer_ok_def)
  then have a: "append_byte b p = Some q" using False by (simp add: append_byte_def ubx_520 Let_def q_def)
  have "window q = window p @ [b]"
  proof (rule nth_equalityI)
    show "length (window q) = length (window p @ [b])" using lt by (simp add: window_def q_def)
    fix i assume "i < length (window q)"
    then show "window q ! i = (window p @ [b]) ! i" using lt by (auto simp: window_def q_def nth_append nth_list_update)
  qed
  then show ?thesis using that a lt by (simp add: buffer_ok_def q_def)
qed

definition stamp :: "u32 \<Rightarrow> u8 \<times> u8 \<times> u8 list \<Rightarrow> UbxDispatch" where
  "stamp now m = (case m of (c, i, d) \<Rightarrow> \<lparr>msg_class = c, msg_id = i, msg_payload = d, observed_ms = now\<rparr>)"

definition message_of :: "UbxDispatch \<Rightarrow> u8 \<times> u8 \<times> u8 list" where
  "message_of d = (msg_class d, msg_id d, msg_payload d)"

lemma message_of_stamp [simp]: "message_of (stamp now m) = m" "observed_ms (stamp now m) = now"
  by (cases m, simp add: message_of_def stamp_def)+

text \<open>One round of the loop, by the decision on what is held.\<close>

lemma process_round:
  assumes ok: "buffer_ok p"
  shows "\<exists>f. process_frames now flush p =
    (case decision (window p) of
       Hold \<Rightarrow> if flush \<and> window p \<noteq> [] then process_frames now flush (consume 1 p) else (p, [])
     | Drop \<Rightarrow> process_frames now flush (consume 1 (on_stats f p))
     | Skip n \<Rightarrow> process_frames now flush (consume n (on_stats f p))
     | Deliver n \<Rightarrow> (let (q, ds) = process_frames now flush (consume n (on_stats f p))
                     in (q, stamp now (message_at (window p)) # ds)))"
proof -
  define F w where "F = drop (buf_start p) (buffer p)" and "w = window p"
  have w: "w = take (buffered_bytes p) F" "length w = buffered_bytes p"
    using length_window [OF ok] by (simp_all add: w_def F_def window_def buffered_bytes_def)
  have F: "F ! i = w ! i" if "i < length w" for i using that w by simp
  have len: "decode_length F = decode_length w" if "6 \<le> length w"
    using that by (simp add: decode_length_def ubx_sizes F)
  have part: "take k (drop j F) = take k (drop j w)" if "j + k \<le> length w" for j k
    using that w(2) by (simp add: w(1) drop_take min_def)
  have s0: "on_stats (\<lambda>s. s) p = p" by (simp add: on_stats_def)
  note pf = process_frames.simps [of now flush p, unfolded F_def [symmetric] w(2) [symmetric] Let_def]
  show ?thesis
  proof (cases "length w < 6 \<or> w ! 0 \<noteq> UBX_SYNC_CHAR_1 \<or> w ! 1 \<noteq> UBX_SYNC_CHAR_2")
    case True
    have e: "(buffered_bytes p = 0) = (w = [])" using w(2) by (metis length_0_conv)
    have d0: "process_frames now flush p =
        (if w = [] then (p, []) else if w ! 0 \<noteq> UBX_SYNC_CHAR_1 then process_frames now flush (consume 1 p)
         else if length w < 2 then (if flush then process_frames now flush (consume 1 p) else (p, []))
         else if w ! 1 \<noteq> UBX_SYNC_CHAR_2 then process_frames now flush (consume 1 p)
         else (if flush then process_frames now flush (consume 1 p) else (p, [])))"
    proof (cases "w = []")
      case False
      then have "F ! 0 = w ! 0" by (intro F) simp
      moreover have "F ! 1 = w ! 1" if "\<not> length w < 2" by (rule F) (use that in linarith)
      ultimately show ?thesis using True False
        by (cases "w ! 0 = UBX_SYNC_CHAR_1"; cases "length w < 2"; cases "w ! 1 = UBX_SYNC_CHAR_2"; cases "length w < 6")
          (simp_all add: pf ubx_sizes del: One_nat_def)
    qed (simp add: pf)
    have d1: "decision w = (if w = [] then Hold else if w ! 0 \<noteq> UBX_SYNC_CHAR_1 then Drop else if length w < 2 then Hold
         else if w ! 1 \<noteq> UBX_SYNC_CHAR_2 then Drop else Hold)"
      using True by (auto simp: decision_def)
    show ?thesis
      unfolding w_def [symmetric] d0 d1 by (intro exI [of _ "\<lambda>s. s"]) (simp add: s0)
  next
    case False
    then have g: "w \<noteq> []" "\<not> length w < 2" "\<not> length w < 6" "w ! 0 = UBX_SYNC_CHAR_1" "w ! 1 = UBX_SYNC_CHAR_2" by auto
    define n where "n = decode_length w"
    define rule where "rule = find_rule (w ! 2) (w ! 3)"
    have Fi: "F ! 0 = w ! 0" "F ! 1 = w ! 1" "F ! 2 = w ! 2" "F ! 3 = w ! 3" by (rule F, use g(3) in linarith)+
    have ln: "decode_length F = n" using len g(3) by (simp add: n_def)
    have sum: "ubx_checksum (take (n + 4) (drop 2 F)) = (F ! (n + 6), F ! (n + 7)) \<longleftrightarrow> valid_sum w n"
      "take n (drop 6 F) = take n (drop 6 w)" if "n + 8 \<le> length w"
      using that part [of 2 "n + 4"] part [of 6 n] by (simp_all add: valid_sum_def F)
    have d: "decision w = (if \<not> header_is_plausible rule n then Drop else if length w < n + 8 then Hold
        else if \<not> valid_sum w n then Drop else if rule = None then Skip (n + 8) else Deliver (n + 8))"
      using g by (simp add: decision_def n_def rule_def Let_def)
    define f where "f = (if \<not> header_is_plausible rule n then count_false_sync F n
        else if \<not> valid_sum w n then if rule \<noteq> None then (\<lambda>s. s\<lparr>checksum_errors := checksum_errors s + 1\<rparr>) else count_false_sync F n
        else if rule = None then count_unexpected (w ! 2) (w ! 3) n else (\<lambda>s. s\<lparr>valid_frames := valid_frames s + 1\<rparr>))"
    have pf': "process_frames now flush p =
        (if \<not> header_is_plausible rule n then process_frames now flush (consume 1 (on_stats (count_false_sync F n) p))
         else if length w < n + 8 then (if flush then process_frames now flush (consume 1 p) else (p, []))
         else if ubx_checksum (take (n + 4) (drop 2 F)) \<noteq> (F ! (n + 6), F ! (n + 7))
         then process_frames now flush (consume 1 (on_stats (if rule \<noteq> None then (\<lambda>s. s\<lparr>checksum_errors := checksum_errors s + 1\<rparr>) else count_false_sync F n) p))
         else if rule = None then process_frames now flush (consume (n + 8) (on_stats (count_unexpected (w ! 2) (w ! 3) n) p))
         else let (q, ds) = process_frames now flush (consume (n + 8) (on_stats (\<lambda>s. s\<lparr>valid_frames := valid_frames s + 1\<rparr>) p))
              in (q, \<lparr>msg_class = w ! 2, msg_id = w ! 3, msg_payload = take n (drop 6 F), observed_ms = now\<rparr> # ds))"
    proof -
      have z: "n + 6 - 2 = n + 4" "n + (6 + 2) - 2 = n + 6" "n + (6 + 2) - 1 = n + 7" "n + (6 + 2) = n + 8" "n + 8 - 2 = n + 6" "n + 8 - 1 = n + 7" by simp_all
      have b: "(length w = 0) = False" "(length w < 2) = False" "(length w < 6) = False" using g by auto
      show ?thesis
        unfolding pf ubx_sizes ln z Fi g(4,5) rule_def [symmetric] b by simp
    qed
    show ?thesis
    proof (intro exI [of _ f], unfold w_def [symmetric], cases "header_is_plausible rule n \<and> n + 8 \<le> length w")
      case True
      then show "process_frames now flush p = (case decision w of
           Hold \<Rightarrow> if flush \<and> w \<noteq> [] then process_frames now flush (consume 1 p) else (p, [])
         | Drop \<Rightarrow> process_frames now flush (consume 1 (on_stats f p))
         | Skip n \<Rightarrow> process_frames now flush (consume n (on_stats f p))
         | Deliver n \<Rightarrow> (let (q, ds) = process_frames now flush (consume n (on_stats f p))
                         in (q, stamp now (message_at w) # ds)))"
        unfolding pf' d f_def using sum
        by (cases "valid_sum w n"; cases rule) (simp_all add: message_at_def stamp_def n_def [symmetric] del: One_nat_def)
    next
      case False
      then show "process_frames now flush p = (case decision w of
           Hold \<Rightarrow> if flush \<and> w \<noteq> [] then process_frames now flush (consume 1 p) else (p, [])
         | Drop \<Rightarrow> process_frames now flush (consume 1 (on_stats f p))
         | Skip n \<Rightarrow> process_frames now flush (consume n (on_stats f p))
         | Deliver n \<Rightarrow> (let (q, ds) = process_frames now flush (consume n (on_stats f p))
                         in (q, stamp now (message_at w) # ds)))"
        unfolding pf' d f_def using g(1) by (cases "header_is_plausible rule n") (simp_all add: not_le)
    qed
  qed
qed

lemma process_spec:
  assumes "buffer_ok p" "process_frames now flush p = (q, ds)"
  shows "buffer_ok q \<and> ubx_parse flush (window p) = (map message_of ds, window q) \<and> list_all (\<lambda>d. observed_ms d = now) ds"
  using assms
proof (induction "length (window p)" arbitrary: p q ds rule: less_induct)
  case less
  obtain f where f: "process_frames now flush p =
    (case decision (window p) of
       Hold \<Rightarrow> if flush \<and> window p \<noteq> [] then process_frames now flush (consume 1 p) else (p, [])
     | Drop \<Rightarrow> process_frames now flush (consume 1 (on_stats f p))
     | Skip n \<Rightarrow> process_frames now flush (consume n (on_stats f p))
     | Deliver n \<Rightarrow> (let (q, ds) = process_frames now flush (consume n (on_stats f p))
                     in (q, stamp now (message_at (window p)) # ds)))"
    using process_round [OF less.prems(1)] by blast
  have ok: "buffer_ok (consume n p)" "buffer_ok (consume n (on_stats f p))" for n
    using less.prems(1) by (simp_all add: consume_window(2))
  have win: "window (consume n p) = drop n (window p)" "window (consume n (on_stats f p)) = drop n (window p)" for n
    using less.prems(1) by (simp_all add: consume_window(1))
  show ?case
  proof (cases "decision (window p)")
    case Hold
    show ?thesis
    proof (cases "flush \<and> window p \<noteq> []")
      case True
      then have "process_frames now flush (consume 1 p) = (q, ds)" using f Hold less.prems(2) by simp
      from less.hyps [OF _ ok(1) this] True Hold show ?thesis by (simp add: win parse_cases(2) drop_Suc)
    next
      case False
      then have "q = p" "ds = []" using f Hold less.prems(2) by auto
      then show ?thesis using less.prems(1) False Hold by (cases flush) (simp_all add: parse_cases(1,6))
    qed
  next
    case Drop
    then have "process_frames now flush (consume 1 (on_stats f p)) = (q, ds)" using f less.prems(2) by simp
    from less.hyps [OF _ ok(2) this] decision_drop [OF Drop] Drop show ?thesis by (simp add: win parse_cases(3) drop_Suc)
  next
    case (Skip n)
    then have r: "process_frames now flush (consume n (on_stats f p)) = (q, ds)" using f less.prems(2) by simp
    have "length (window (consume n (on_stats f p))) < length (window p)" using decision_frame [of "window p" n] Skip by (auto simp: win)
    from less.hyps [OF this ok(2) r] show ?thesis by (simp add: win parse_cases(4) [OF Skip])
  next
    case (Deliver n)
    obtain q' ds' where r: "process_frames now flush (consume n (on_stats f p)) = (q', ds')" by fastforce
    then have "q = q'" "ds = stamp now (message_at (window p)) # ds'" using f Deliver less.prems(2) by simp_all
    moreover have "length (window (consume n (on_stats f p))) < length (window p)" using decision_frame [of "window p" n] Deliver by (auto simp: win)
    ultimately show ?thesis using less.hyps [OF _ ok(2) r] by (simp add: win parse_cases(5) [OF Deliver])
  qed
qed

text \<open>Only a byte fed in restarts the timeout.\<close>

lemma process_last:
  assumes "buffer_ok p"
  shows "last_byte_ms (fst (process_frames now flush p)) = last_byte_ms p"
  using assms
proof (induction "length (window p)" arbitrary: p rule: less_induct)
  case less
  obtain f where f: "process_frames now flush p =
    (case decision (window p) of
       Hold \<Rightarrow> if flush \<and> window p \<noteq> [] then process_frames now flush (consume 1 p) else (p, [])
     | Drop \<Rightarrow> process_frames now flush (consume 1 (on_stats f p))
     | Skip n \<Rightarrow> process_frames now flush (consume n (on_stats f p))
     | Deliver n \<Rightarrow> (let (q, ds) = process_frames now flush (consume n (on_stats f p))
                     in (q, stamp now (message_at (window p)) # ds)))"
    using process_round [OF less.prems] by blast
  have l: "last_byte_ms (consume n p) = last_byte_ms p" "last_byte_ms (consume n (on_stats f p)) = last_byte_ms p" for n
    by (simp_all add: consume_def on_stats_def)
  have ih: "last_byte_ms (fst (process_frames now flush q)) = last_byte_ms p"
    if "0 < n" "window p \<noteq> []" "q = consume n p \<or> q = consume n (on_stats f p)" for n q
  proof -
    have "window q = drop n (window p)" "buffer_ok q" using that(3) less.prems by (auto simp: consume_window)
    then show ?thesis using less.hyps [of q] that l by auto
  qed
  show ?case
  proof (cases "decision (window p)")
    case Hold
    then show ?thesis using f ih [of 1 "consume 1 p"] by (cases flush) simp_all
  next
    case Drop
    then show ?thesis using f ih [of 1 "consume 1 (on_stats f p)"] decision_drop by simp
  next
    case (Skip n)
    then have "0 < n" "window p \<noteq> []" using decision_frame [of "window p" n] by auto
    then show ?thesis using f Skip ih [of n "consume n (on_stats f p)"] by simp
  next
    case (Deliver n)
    then have "0 < n" "window p \<noteq> []" using decision_frame [of "window p" n] by auto
    then show ?thesis using f Deliver ih [of n "consume n (on_stats f p)"] by (simp add: case_prod_beta)
  qed
qed

lemma parse_rest: "decision (snd (ubx_parse flush w)) = Hold \<and> (flush \<longrightarrow> snd (ubx_parse flush w) = [])"
proof (induction flush w rule: ubx_parse.induct)
  case (1 flush w)
  then show ?case
    by (cases "decision w"; cases flush; cases "w = []") (auto simp: parse_cases decision_def [of "[]"] simp del: drop_eq_Nil)
qed

text \<open>A decision taken stands whatever comes behind.\<close>

lemma decision_append:
  assumes "decision b \<noteq> Hold"
  shows "decision (b @ c) = decision b" "decision b = Deliver n \<Longrightarrow> message_at (b @ c) = message_at b"
proof -
  have b: "b \<noteq> []" using assms by (auto simp: decision_def)
  have len: "decode_length (b @ c) = decode_length b" if "6 \<le> length b"
    using that by (simp add: decode_length_def ubx_sizes nth_append)
  have sum: "valid_sum (b @ c) n = valid_sum b n" if "n + 8 \<le> length b" for n
    using that by (simp add: valid_sum_def nth_append)
  have hd: "(b @ c) ! 0 = b ! 0" using b by (simp add: nth_append)
  show "decision (b @ c) = decision b"
  proof (cases "b ! 0 = UBX_SYNC_CHAR_1")
    case False
    then show ?thesis using b hd by (simp add: decision_def)
  next
    case s1: True
    then have l2: "\<not> length b < 2" "\<not> length (b @ c) < 2" using assms b by (auto simp: decision_def)
    have h1: "(b @ c) ! 1 = b ! 1" using l2 by (simp add: nth_append)
    show ?thesis
    proof (cases "b ! 1 = UBX_SYNC_CHAR_2")
      case False
      then show ?thesis using b hd h1 s1 l2 unfolding decision_def by simp
    next
      case s2: True
      then have l6: "\<not> length b < 6" "\<not> length (b @ c) < 6" using assms b s1 l2 by (auto simp: decision_def)
      define n where "n = decode_length b"
      define rule where "rule = find_rule (b ! 2) (b ! 3)"
      have h: "decode_length (b @ c) = n" "find_rule ((b @ c) ! 2) ((b @ c) ! 3) = rule"
        using l6 len by (simp_all add: n_def rule_def nth_append)
      have D: "decision b = (if \<not> header_is_plausible rule n then Drop else if length b < n + 8 then Hold
          else if \<not> valid_sum b n then Drop else if rule = None then Skip (n + 8) else Deliver (n + 8))"
        using b s1 s2 l2 l6 by (simp add: decision_def n_def rule_def Let_def)
      have D': "decision (b @ c) = (if \<not> header_is_plausible rule n then Drop else if length (b @ c) < n + 8 then Hold
          else if \<not> valid_sum (b @ c) n then Drop else if rule = None then Skip (n + 8) else Deliver (n + 8))"
        using b hd h1 s1 s2 l2 l6 unfolding decision_def Let_def h by simp
      show ?thesis
      proof (cases "header_is_plausible rule n")
        case True
        then have "\<not> length b < n + 8" using assms D by auto
        then show ?thesis unfolding D D' by (simp add: sum)
      qed (simp add: D D')
    qed
  qed
  show "message_at (b @ c) = message_at b" if "decision b = Deliver n"
    using decision_frame [of b n] that len by (simp add: message_at_def nth_append)
qed

lemma ubx_parse_append:
  "ubx_parse False (b @ c) = (fst (ubx_parse False b) @ fst (ubx_parse False (snd (ubx_parse False b) @ c)),
     snd (ubx_parse False (snd (ubx_parse False b) @ c)))"
proof (induction "length b" arbitrary: b rule: less_induct)
  case less
  show ?case
  proof (cases "decision b")
    case Hold
    then show ?thesis by (simp add: parse_cases(1))
  next
    case Drop
    then have "b \<noteq> []" by (rule decision_drop)
    then have "length (tl b) < length b" by (cases b) auto
    from less.hyps [OF this] Drop \<open>b \<noteq> []\<close> decision_append(1) [where b = b and c = c] show ?thesis
      by (simp add: parse_cases(3) [of b] parse_cases(3) [of "b @ c"])
  next
    case (Skip n)
    have "length (drop n b) < length b" "n \<le> length b" using decision_frame [of b n] Skip by auto
    from less.hyps [OF this(1)] this(2) Skip decision_append(1) [where b = b and c = c] show ?thesis
      by (simp add: parse_cases(4) [of b n] parse_cases(4) [of "b @ c" n])
  next
    case (Deliver n)
    have "length (drop n b) < length b" "n \<le> length b" using decision_frame [of b n] Deliver by auto
    from less.hyps [OF this(1)] this(2) Deliver decision_append [where b = b and c = c] show ?thesis
      by (simp add: parse_cases(5) [of b n] parse_cases(5) [of "b @ c" n])
  qed
qed

section \<open>A life of the parser\<close>

datatype ubx_event = Byte u8 u32 | Idle u32 | Lost

fun ubx_step :: "ubx_event \<Rightarrow> UbxParser \<Rightarrow> (UbxParser \<times> UbxDispatch list) option" where
  "ubx_step (Byte b now) p = ubx_parser_feed b now p"
| "ubx_step (Idle now) p = Some (ubx_parser_check_timeout now p)"
| "ubx_step Lost p = Some (ubx_parser_discontinuity p, [])"

fun ubx_run :: "ubx_event list \<Rightarrow> UbxParser \<Rightarrow> (UbxParser \<times> UbxDispatch list) option" where
  "ubx_run [] p = Some (p, [])"
| "ubx_run (e # es) p =
     (case ubx_step e p of None \<Rightarrow> None
      | Some (q, ds) \<Rightarrow> map_option (\<lambda>(r, ds'). (r, ds @ ds')) (ubx_run es q))"

definition between :: "UbxParser \<Rightarrow> bool" where
  "between p \<longleftrightarrow> buffer_ok p \<and> decision (window p) = Hold"

lemma between_init: "between ubx_parser_init" "window ubx_parser_init = []"
  by (simp_all add: between_def buffer_ok_def window_def ubx_parser_init_def ubx_520 decision_def)

lemma process_between:
  assumes "buffer_ok p" "process_frames now flush p = (q, ds)"
  shows "between q"
  using process_spec [OF assms] parse_rest [of flush "window p"] by (simp add: between_def)

lemma feed_spec:
  assumes "between p"
  obtains q ds where "ubx_parser_feed b now p = Some (q, ds)" "between q"
    "ubx_parse False (window p @ [b]) = (map message_of ds, window q)" "list_all (\<lambda>d. observed_ms d = now) ds"
    "last_byte_ms q = now"
proof -
  define p1 where "p1 = (on_stats (\<lambda>s. s\<lparr>bytes_received := bytes_received s + 1\<rparr>) p)\<lparr>last_byte_ms := now\<rparr>"
  have w: "window p1 = window p" "buffered_bytes p1 = buffered_bytes p" "buffer_ok p1 = buffer_ok p"
    "last_byte_ms p1 = now"
    by (simp_all add: p1_def window_def buffered_bytes_def buffer_ok_def on_stats_def)
  have "buffered_bytes p < 520" using assms decision_hold [of "window p"] length_window [of p] by (simp add: between_def)
  then obtain q1 where q1: "append_byte b p1 = Some q1" "buffer_ok q1" "window q1 = window p @ [b]"
    "last_byte_ms q1 = now"
    using append_window [of p1 b] assms w by (auto simp: between_def)
  obtain q ds where pf: "process_frames now False q1 = (q, ds)" by fastforce
  have "ubx_parser_feed b now p = Some (q, ds)" by (simp add: ubx_parser_feed_def p1_def [symmetric] q1(1) pf)
  then show thesis
    using that process_between [OF q1(2) pf] process_spec [OF q1(2) pf] q1(3,4)
      process_last [OF q1(2), of now False] pf by simp
qed

lemma timeout_between: "between p \<Longrightarrow> ubx_parser_check_timeout now p = (q, ds) \<Longrightarrow> between q"
proof -
  assume a: "between p" "ubx_parser_check_timeout now p = (q, ds)"
  have "buffer_ok (on_stats (\<lambda>s. s\<lparr>timeouts := timeouts s + 1\<rparr>) p)" using a(1) by (simp add: between_def)
  from process_between [OF this, of now True] a show ?thesis
    by (simp add: ubx_parser_check_timeout_def split: if_splits)
qed

lemma timeout_decides:
  assumes "between p" "ubx_parser_check_timeout now p = (q, ds)"
  shows "if window p \<noteq> [] \<and> now - last_byte_ms p \<ge> UBX_PARSER_TIMEOUT_MS
    then map message_of ds = fst (ubx_parse True (window p)) \<and> window q = [] else q = p \<and> ds = []"
proof (cases "window p \<noteq> [] \<and> now - last_byte_ms p \<ge> UBX_PARSER_TIMEOUT_MS")
  case True
  have ok: "buffer_ok p" using assms(1) by (simp add: between_def)
  have "0 < buffered_bytes p" unfolding length_window [OF ok, symmetric] using True by simp
  then have "process_frames now True (on_stats (\<lambda>s. s\<lparr>timeouts := timeouts s + 1\<rparr>) p) = (q, ds)"
    using True assms(2) by (simp add: ubx_parser_check_timeout_def)
  from process_spec [OF _ this] ok parse_rest [of True "window p"] True show ?thesis by simp
next
  case False
  then show ?thesis
    using assms length_window [of p] by (auto simp: ubx_parser_check_timeout_def between_def split: if_splits)
qed

lemma discontinuity_between: "between p \<Longrightarrow> between (ubx_parser_discontinuity p) \<and> window (ubx_parser_discontinuity p) = []"
  by (simp add: between_def buffer_ok_def ubx_parser_discontinuity_def ubx_parser_reset_def window_def on_stats_def decision_def)

lemma run_between:
  assumes "between p"
  shows "\<exists>q ds. ubx_run es p = Some (q, ds) \<and> between q"
  using assms
proof (induction es arbitrary: p)
  case (Cons e es)
  have "\<exists>q ds. ubx_step e p = Some (q, ds) \<and> between q"
  proof (cases e)
    case (Byte b now)
    obtain q ds where "ubx_parser_feed b now p = Some (q, ds)" "between q" by (rule feed_spec [OF Cons.prems])
    then show ?thesis by (simp add: Byte)
  next
    case (Idle now)
    then show ?thesis using timeout_between [OF Cons.prems] by (cases "ubx_parser_check_timeout now p") auto
  next
    case Lost
    then show ?thesis using discontinuity_between [OF Cons.prems] by auto
  qed
  then obtain q ds where q: "ubx_step e p = Some (q, ds)" "between q" by blast
  then show ?case using Cons.IH [OF q(2)] by auto
qed simp

lemma run_append:
  "ubx_run (es @ fs) p = (case ubx_run es p of None \<Rightarrow> None
     | Some (q, ds) \<Rightarrow> map_option (\<lambda>(r, ds'). (r, ds @ ds')) (ubx_run fs q))"
proof (induction es arbitrary: p)
  case Nil
  have "map_option (\<lambda>(r, ds'). (r, [] @ ds')) x = x" for x :: "(UbxParser \<times> UbxDispatch list) option"
    by (cases x) auto
  then show ?case by simp
next
  case (Cons e es)
  have "map_option (\<lambda>(r, ds'). (r, d @ ds')) (map_option (\<lambda>(r, ds'). (r, d' @ ds')) x)
      = map_option (\<lambda>(r, ds'). (r, (d @ d') @ ds')) x" for d d' and x :: "(UbxParser \<times> UbxDispatch list) option"
    by (cases x) auto
  then show ?case by (auto simp: Cons.IH split: option.splits)
qed

lemma run_bytes:
  assumes "between p"
  shows "\<exists>q ds. ubx_run (map (\<lambda>(b, t). Byte b t) bs) p = Some (q, ds) \<and>
    ubx_parse False (window p @ map fst bs) = (map message_of ds, window q) \<and>
    between q \<and> list_all (\<lambda>d. observed_ms d \<in> snd ` set bs) ds \<and>
    last_byte_ms q = (if bs = [] then last_byte_ms p else snd (last bs))"
  using assms
proof (induction bs arbitrary: p)
  case Nil
  then show ?case by (simp add: between_def parse_cases(1))
next
  case (Cons x bs)
  obtain b t where x: "x = (b, t)" by fastforce
  obtain q ds where q: "ubx_parser_feed b t p = Some (q, ds)" "between q" "ubx_parse False (window p @ [b]) = (map message_of ds, window q)"
    "list_all (\<lambda>d. observed_ms d = t) ds" "last_byte_ms q = t"
    using feed_spec [OF Cons.prems, of b t] by blast
  obtain r ds' where r: "ubx_run (map (\<lambda>(b, t). Byte b t) bs) q = Some (r, ds')"
    "ubx_parse False (window q @ map fst bs) = (map message_of ds', window r)" "between r"
    "list_all (\<lambda>d. observed_ms d \<in> snd ` set bs) ds'"
    "last_byte_ms r = (if bs = [] then last_byte_ms q else snd (last bs))"
    using Cons.IH [OF q(2)] by blast
  have "list_all (\<lambda>d. observed_ms d \<in> snd ` set (x # bs)) (ds @ ds')" using q(4) r(4) by (auto simp: x list_all_iff)
  then show ?case using q(1) r(1-3,5) q(3,5) ubx_parse_append [of "window p @ [b]" "map fst bs"] by (simp add: x)
qed

section \<open>Frames sent\<close>

lemma low_byte: "(ucast (v AND 0xFF :: u16) :: u8) = ucast v"
proof -
  have "(0xFF :: u16) = mask 8" by (simp add: mask_eq_exp_minus_1)
  then have "v AND 0xFF = take_bit 8 v" by (simp only: take_bit_eq_mask)
  then show ?thesis by (auto intro: bit_word_eqI simp: bit_simps)
qed

lemma join_bytes: "ucast (ucast v :: u8) OR push_bit 8 (ucast (ucast (drop_bit 8 v) :: u8)) = (v :: u16)"
proof (rule bit_word_eqI)
  fix k assume "k < LENGTH(16)"
  then show "bit (ucast (ucast v :: u8) OR push_bit 8 (ucast (ucast (drop_bit 8 v) :: u8)) :: u16) k = bit v k"
    by (cases "k < 8") (auto simp: bit_simps)
qed

lemma header_length_read: "n < 65536 \<Longrightarrow> decode_length (write_header c i n @ xs) = n"
  by (simp add: decode_length_def write_header_def ubx_sizes low_byte join_bytes unat_of_nat)

definition expected :: "u8 \<times> u8 \<times> u8 list \<Rightarrow> bool" where
  "expected m = (case m of (c, i, d) \<Rightarrow> (case find_rule c i of None \<Rightarrow> False
     | Some r \<Rightarrow> length d \<le> UBX_PARSER_MAX_PAYLOAD \<and> length_matches r (length d)))"

definition sent :: "u8 \<times> u8 \<times> u8 list \<Rightarrow> u8 list" where
  "sent m = (case m of (c, i, d) \<Rightarrow> the (ubx_encode_frame c i d UBX_PARSER_BUFFER_BYTES))"

lemma decision_sent:
  assumes "expected m"
  shows "decision (sent m @ xs) = Deliver (length (sent m))" "message_at (sent m @ xs) = m"
proof -
  obtain c i d where m: "m = (c, i, d)" by (cases m) auto
  obtain r where r: "find_rule c i = Some r" "length d \<le> 512" "length_matches r (length d)"
    using assms by (auto simp: m expected_def UBX_PARSER_MAX_PAYLOAD_def split: option.splits)
  define h where "h = write_header c i (length d)"
  obtain a b where ck: "ubx_checksum (drop 2 (h @ d)) = (a, b)" by fastforce
  have s: "sent m = h @ d @ [a, b]"
    using r(2) ck by (simp add: m sent_def ubx_encode_frame_def ubx_520 ubx_sizes h_def write_checksum_def Let_def)
  have h: "length h = 6" "h ! 0 = UBX_SYNC_CHAR_1" "h ! 1 = UBX_SYNC_CHAR_2" "h ! 2 = c" "h ! 3 = i"
    by (simp_all add: h_def write_header_def)
  define w where "w = sent m @ xs"
  have w: "w = h @ d @ a # b # xs" by (simp add: w_def s)
  have n: "decode_length w = length d" unfolding w h_def using r(2) by (intro header_length_read) simp
  have wi: "w ! 0 = UBX_SYNC_CHAR_1" "w ! 1 = UBX_SYNC_CHAR_2" "w ! 2 = c" "w ! 3 = i"
    unfolding w using h by (simp_all add: nth_append)
  have "take (length d + 4) (drop 2 w) = drop 2 (h @ d)"
    using h(1) by (simp add: w)
  moreover have "w ! (length d + 6) = a" "w ! (length d + 7) = b" using h(1) by (simp_all add: w nth_append)
  ultimately have v: "valid_sum w (length d)" using ck by (simp add: valid_sum_def)
  have l: "\<not> length w < 2" "\<not> length w < 6" "\<not> length w < length d + 8" "w \<noteq> []" using h(1) by (auto simp: w)
  have "header_is_plausible (Some r) (length d)" using r by (simp add: header_is_plausible_def UBX_PARSER_MAX_PAYLOAD_def)
  then have "decision w = Deliver (length d + 8)"
    unfolding decision_def Let_def n wi r(1) using l v by simp
  then show "decision (sent m @ xs) = Deliver (length (sent m))" using h(1) by (simp add: w_def s)
  have "drop 6 w = d @ a # b # xs" using h(1) by (simp add: w)
  then show "message_at (sent m @ xs) = m" unfolding w_def [symmetric] by (simp add: message_at_def n wi m)
qed

lemma ubx_parse_sent:
  "list_all expected ms \<Longrightarrow> ubx_parse False (concat (map sent ms) @ xs) = (ms @ fst (ubx_parse False xs), snd (ubx_parse False xs))"
  by (induction ms) (simp_all add: parse_cases(5) [OF decision_sent(1)] decision_sent(2))

section \<open>The properties\<close>

text \<open>
  C36: The parser finds the messages of the stream. After any bytes, timeouts and losses of bytes,
  and then a loss and bytes that come in one by one, what is handed over is exactly what the grammar
  of the whole stream finds in these bytes, in order, and what stays in the buffer is the undecided
  rest; no byte is ever written past the buffer, wherever in it the held bytes lie. A check of the
  timeout then, with 50 ms or more gone since the last byte, takes the rest for the end of the
  stream: it hands over what the grammar finds in it on those terms and leaves no byte undecided;
  earlier, or with nothing held, it changes nothing and hands over nothing.
\<close>
theorem ubx_parser_finds_messages:
  "\<exists>q ds ds'. ubx_run (es @ Lost # map (\<lambda>(b, t). Byte b t) bs) ubx_parser_init = Some (q, ds @ ds') \<and>
     map message_of ds' = fst (ubx_parse False (map fst bs)) \<and> window q = snd (ubx_parse False (map fst bs)) \<and>
     length (window q) < UBX_PARSER_BUFFER_BYTES \<and>
     (let (q', late) = ubx_parser_check_timeout now q
      in if window q \<noteq> [] \<and> now - snd (last bs) \<ge> UBX_PARSER_TIMEOUT_MS
         then map message_of late = fst (ubx_parse True (window q)) \<and> window q' = []
         else q' = q \<and> late = [])"
proof -
  obtain p ds where p: "ubx_run es ubx_parser_init = Some (p, ds)" "between p" using run_between [OF between_init(1)] by blast
  have b: "between (ubx_parser_discontinuity p)" "window (ubx_parser_discontinuity p) = []"
    using discontinuity_between [OF p(2)] by simp_all
  obtain q ds' where q: "ubx_run (map (\<lambda>(b, t). Byte b t) bs) (ubx_parser_discontinuity p) = Some (q, ds')"
    "ubx_parse False (map fst bs) = (map message_of ds', window q)" "between q"
    "bs \<noteq> [] \<Longrightarrow> last_byte_ms q = snd (last bs)" using run_bytes [OF b(1), of bs] b(2) by auto
  have l: "length (window q) < 520" using decision_hold parse_rest [of False "map fst bs"] q(2) by simp
  have "window q \<noteq> [] \<Longrightarrow> bs \<noteq> []" using q(2) by (auto simp: parse_cases(6))
  then have "let (q', late) = ubx_parser_check_timeout now q
      in if window q \<noteq> [] \<and> now - snd (last bs) \<ge> UBX_PARSER_TIMEOUT_MS
         then map message_of late = fst (ubx_parse True (window q)) \<and> window q' = []
         else q' = q \<and> late = []"
    using timeout_decides [OF q(3), of now] q(4) by (cases "window q = []") (auto split: prod.splits)
  then show ?thesis using p(1) q(1,2) l by (auto simp: run_append ubx_520)
qed

text \<open>
  Frames come back whole. The frames \<open>ubx_encode_frame\<close> makes of messages the clock expects, at
  lengths they can have, sent one after another, are handed over with the same class, id and
  payload, all of them and in order, and nothing stays behind.
\<close>
theorem ubx_frames_roundtrip:
  assumes "list_all expected ms" "map fst bs = concat (map sent ms)"
  shows "\<exists>q ds. ubx_run (map (\<lambda>(b, t). Byte b t) bs) ubx_parser_init = Some (q, ds) \<and> map message_of ds = ms \<and> window q = []"
  using run_bytes [OF between_init(1), of bs] ubx_parse_sent [OF assms(1), of "[]"] assms(2) between_init(2)
  by (auto simp: parse_cases(6))

theorem ubx_frames_roundtrip_witness:
  "\<exists>q ds. ubx_run (map (\<lambda>b. Byte b 7) (sent (0x05, 0x01, [0x06, 0x8A]) @ sent (0x01, 0x61, [1, 2, 3, 4]))) ubx_parser_init = Some (q, ds)
     \<and> map message_of ds = [(0x05, 0x01, [0x06, 0x8A]), (0x01, 0x61, [1, 2, 3, 4])]"
proof -
  let ?ms = "[(0x05, 0x01, [0x06, 0x8A]), (0x01, 0x61, [1, 2, 3, 4])] :: (u8 \<times> u8 \<times> u8 list) list"
  have e: "list_all expected ?ms"
    by (simp add: expected_def find_rule_def expected_messages_def UbxMessageRule.make_def Let_def UBX_PARSER_MAX_PAYLOAD_def length_matches_def)
  show ?thesis
    using ubx_frames_roundtrip [OF e, of "map (\<lambda>b. (b, 7)) (concat (map sent ?ms))"]
    by (auto simp: o_def)
qed

end
