(* ===== verification/Gnss.thy ===== *)
theory Gnss
  imports Gnss_Epoch Ubx_Parser
begin

text \<open>
  The GNSS service (\<open>dspic_src/gnss/gnss.c\<close>, \<open>gnss_detect.c\<close> and \<open>ubx_parser_service\<close>): the bytes
  of the UART through the parser to the handlers of the messages, the search for the receiver, the
  restart of a silent link and what the rest of the clock asks. What the UART driver answers is an
  argument: the bytes read and losses found in one call, whether the ring is empty at its end and
  whether the transmit ring takes a poll. Printing is not modelled.
\<close>

section \<open>The code: draining the UART\<close>

datatype uart_read = RxLost | RxByte u8

text \<open>A budget of 0 is none. The count of bytes is kept as a natural number.\<close>

fun drain_uart :: "u32 \<Rightarrow> nat \<Rightarrow> uart_read list \<Rightarrow> nat \<Rightarrow> UbxParser \<Rightarrow> (UbxParser \<times> UbxDispatch list \<times> nat) option" where
  "drain_uart now budget [] n p = Some (p, [], n)"
| "drain_uart now budget (r # rs) n p =
     (if budget \<noteq> 0 \<and> n \<ge> budget then Some (p, [], n)
      else case r of
        RxLost \<Rightarrow> drain_uart now budget rs n (ubx_parser_discontinuity p)
      | RxByte b \<Rightarrow>
          (case ubx_parser_feed b now p of
             None \<Rightarrow> None
           | Some (q, ds) \<Rightarrow> map_option (\<lambda>(r, ds', m). (r, ds @ ds', m)) (drain_uart now budget rs (n + 1) q)))"

definition ubx_parser_service ::
  "u32 \<Rightarrow> nat \<Rightarrow> uart_read list \<Rightarrow> bool \<Rightarrow> UbxParser \<Rightarrow> (UbxParser \<times> UbxDispatch list) option" where
  "ubx_parser_service now budget reads ring_empty p =
     (case drain_uart now budget reads 0 p of
        None \<Rightarrow> None
      | Some (q, ds, n) \<Rightarrow>
          (if ring_empty then (case ubx_parser_check_timeout now q of (r, ds') \<Rightarrow> Some (r, ds @ ds')) else Some (q, ds)))"

section \<open>The code: finding the receiver\<close>

definition GNSS_DETECT_TIMEOUT_MS :: u32 where "GNSS_DETECT_TIMEOUT_MS = 500"
definition GNSS_DETECT_ATTEMPTS :: u8 where "GNSS_DETECT_ATTEMPTS = 3"
definition UBX_CLASS_NAV :: u8 where "UBX_CLASS_NAV = 0x01"
definition UBX_CLASS_MON :: u8 where "UBX_CLASS_MON = 0x0A"
definition UBX_CLASS_TIM :: u8 where "UBX_CLASS_TIM = 0x0D"
definition UBX_ID_MON_VER :: u8 where "UBX_ID_MON_VER = 0x04"
definition UBX_ID_NAV_POSLLH :: u8 where "UBX_ID_NAV_POSLLH = 0x02"
definition UBX_ID_NAV_STATUS :: u8 where "UBX_ID_NAV_STATUS = 0x03"
definition UBX_ID_NAV_TIMEUTC :: u8 where "UBX_ID_NAV_TIMEUTC = 0x21"
definition UBX_ID_NAV_CLOCK :: u8 where "UBX_ID_NAV_CLOCK = 0x22"
definition UBX_ID_NAV_TIMELS :: u8 where "UBX_ID_NAV_TIMELS = 0x26"
definition UBX_ID_NAV_EOE :: u8 where "UBX_ID_NAV_EOE = 0x61"
definition UBX_ID_TIM_TP :: u8 where "UBX_ID_TIM_TP = 0x01"
definition UBX_ID_TIM_TM2 :: u8 where "UBX_ID_TIM_TM2 = 0x03"

lemmas ubx_ids = UBX_CLASS_NAV_def UBX_CLASS_MON_def UBX_CLASS_TIM_def UBX_ID_MON_VER_def UBX_ID_NAV_POSLLH_def
  UBX_ID_NAV_STATUS_def UBX_ID_NAV_TIMEUTC_def UBX_ID_NAV_CLOCK_def UBX_ID_NAV_TIMELS_def UBX_ID_NAV_EOE_def
  UBX_ID_TIM_TP_def UBX_ID_TIM_TM2_def

datatype GnssDetectionState =
  GNSS_DETECTION_NOT_STARTED | GNSS_DETECTION_PENDING | GNSS_DETECTION_CONFIRMED | GNSS_DETECTION_FAILED

record GnssDetect =
  det_state :: GnssDetectionState
  identity :: UbxMonVer
  last_poll_ms :: u32
  identified_ms :: u32
  attempt_count :: u8
  poll_rejections :: u8

definition blank_identity :: UbxMonVer where
  "blank_identity = \<lparr>software_version = [], hardware_version = [], module_text = [], firmware_version = [],
     protocol_version = [], extension_count = 0\<rparr>"

definition gnss_detect_init :: GnssDetect where
  "gnss_detect_init = \<lparr>det_state = GNSS_DETECTION_NOT_STARTED, identity = blank_identity, last_poll_ms = 0,
     identified_ms = 0, attempt_count = 0, poll_rejections = 0\<rparr>"

text \<open>The second part is the frames given to the UART.\<close>

definition send_poll :: "bool \<Rightarrow> u32 \<Rightarrow> GnssDetect \<Rightarrow> GnssDetect \<times> u8 list list" where
  "send_poll accepted now d =
     (let d1 = d\<lparr>attempt_count := attempt_count d + 1, last_poll_ms := now\<rparr>
      in (if accepted then d1 else d1\<lparr>poll_rejections := poll_rejections d1 + 1\<rparr>,
          case ubx_encode_poll UBX_CLASS_MON UBX_ID_MON_VER of None \<Rightarrow> [] | Some frame \<Rightarrow> [frame]))"

definition gnss_detect_start :: "bool \<Rightarrow> u32 \<Rightarrow> GnssDetect \<Rightarrow> GnssDetect \<times> u8 list list" where
  "gnss_detect_start accepted now d = send_poll accepted now (gnss_detect_init\<lparr>det_state := GNSS_DETECTION_PENDING\<rparr>)"

definition gnss_detect_service :: "bool \<Rightarrow> u32 \<Rightarrow> GnssDetect \<Rightarrow> GnssDetect \<times> u8 list list" where
  "gnss_detect_service accepted now d =
     (if det_state d \<noteq> GNSS_DETECTION_PENDING \<or> \<not> (now - last_poll_ms d \<ge> GNSS_DETECT_TIMEOUT_MS) then (d, [])
      else if attempt_count d < GNSS_DETECT_ATTEMPTS then send_poll accepted now d
      else (d\<lparr>det_state := GNSS_DETECTION_FAILED\<rparr>, []))"

definition gnss_detect_handle :: "u8 \<Rightarrow> u8 \<Rightarrow> u8 list \<Rightarrow> u32 \<Rightarrow> GnssDetect \<Rightarrow> bool \<times> GnssDetect" where
  "gnss_detect_handle class_id message_id payload now d =
     (if det_state d = GNSS_DETECTION_NOT_STARTED \<or> class_id \<noteq> UBX_CLASS_MON \<or> message_id \<noteq> UBX_ID_MON_VER then (False, d)
      else case ubx_decode_mon_ver payload of
             None \<Rightarrow> (False, d)
           | Some v \<Rightarrow> (True, d\<lparr>identity := v, det_state := GNSS_DETECTION_CONFIRMED, identified_ms := now\<rparr>))"

section \<open>The code: the handlers\<close>

definition GNSS_LINK_SILENCE_MS :: u32 where "GNSS_LINK_SILENCE_MS = 3000"
definition GNSS_LINK_RECOVERY_MS :: u32 where "GNSS_LINK_RECOVERY_MS = 5000"
definition GNSS_EPOCH_MAX_AGE_MS :: u32 where "GNSS_EPOCH_MAX_AGE_MS = 2500"
definition GNSS_EPOCH_FAIL_S :: u32 where "GNSS_EPOCH_FAIL_S = 2"
definition GNSS_TIMELS_MAX_AGE_MS :: u32 where "GNSS_TIMELS_MAX_AGE_MS = 30000"
definition GNSS_TIME_MARK_MAX_AGE_MS :: u32 where "GNSS_TIME_MARK_MAX_AGE_MS = 3000"
definition GNSS_LEAP_EVENT_TOLERANCE_S :: u32 where "GNSS_LEAP_EVENT_TOLERANCE_S = 2"
definition GNSS_TIME_MARK_EPOCH_EDGE_FALLING :: bool where "GNSS_TIME_MARK_EPOCH_EDGE_FALLING = True"
definition GNSS_TIME_MARK_WINDOW_NS :: int where "GNSS_TIME_MARK_WINDOW_NS = 1000000"
definition GNSS_OPERATING_BAUD :: u32 where "GNSS_OPERATING_BAUD = 115200"
definition UBX_WEEK_MS :: int where "UBX_WEEK_MS = 604800000"
definition UBX_TIMELS_VALID_CURRENT_LS :: u8 where "UBX_TIMELS_VALID_CURRENT_LS = 0x01"
definition UBX_TIMELS_VALID_TIME_TO_EVENT :: u8 where "UBX_TIMELS_VALID_TIME_TO_EVENT = 0x02"
definition UBX_TP_FLAGS_QERR_INVALID :: u8 where "UBX_TP_FLAGS_QERR_INVALID = 0x10"
definition UBX_TM2_TIMEBASE_MASK :: u8 where "UBX_TM2_TIMEBASE_MASK = 0x18"
definition UBX_TM2_TIMEBASE_SHIFT :: nat where "UBX_TM2_TIMEBASE_SHIFT = 3"
definition UBX_TM2_NEW_FALLING_EDGE :: u8 where "UBX_TM2_NEW_FALLING_EDGE = 0x04"
definition UBX_TM2_NEW_RISING_EDGE :: u8 where "UBX_TM2_NEW_RISING_EDGE = 0x80"
definition UBX_TM2_TIME_VALID :: u8 where "UBX_TM2_TIME_VALID = 0x40"
definition UBX_TIMEBASE_RECEIVER :: u8 where "UBX_TIMEBASE_RECEIVER = 0"

record GnssTimePulse =
  tp_message :: UbxTimTp
  tp_received_ms :: u32
  tp_pps_sequence :: u32
  tp_associated :: bool

record GnssState =
  baud :: u32
  frame_seen :: bool
  last_frame_ms :: u32
  link_recoveries :: u32
  last_recovery_ms :: u32
  detection :: GnssDetect
  epochs :: GnssEpochAssembler
  has_leap_seconds :: bool
  leap_seconds :: UbxNavTimels
  leap_seconds_received_ms :: u32
  has_leap_event :: bool
  leap_event :: UtcLeap
  has_time_pulse :: bool
  time_pulse :: GnssTimePulse
  time_pulses_unassociated :: u32
  has_time_mark :: bool
  time_mark :: UbxTimTm2
  time_mark_received_ms :: u32
  time_marks_out_of_window :: u32

definition time_of_week_delta_ms :: "u32 \<Rightarrow> u32 \<Rightarrow> int" where
  "time_of_week_delta_ms from_ms to_ms =
     (let delta = sint (to_ms - from_ms)
      in if delta > UBX_WEEK_MS sdiv 2 then i32 (delta - UBX_WEEK_MS)
         else if delta < - (UBX_WEEK_MS sdiv 2) then i32 (delta + UBX_WEEK_MS) else delta)"

definition handle_leap_seconds :: "u8 list \<Rightarrow> u32 \<Rightarrow> GnssState \<Rightarrow> GnssState" where
  "handle_leap_seconds payload now g =
     (case ubx_decode_nav_timels payload of
        None \<Rightarrow> g
      | Some ls \<Rightarrow>
          let g1 = g\<lparr>leap_seconds := ls, has_leap_seconds := True, leap_seconds_received_ms := now, has_leap_event := False\<rparr>
          in case gnss_epoch_latest (epochs g) of
               None \<Rightarrow> g1
             | Some e \<Rightarrow>
                 (if tls_validity ls AND UBX_TIMELS_VALID_TIME_TO_EVENT = 0 \<or> leap_second_change ls = 0 \<or> \<not> ep_time_valid e
                  then g1
                  else let to_event_s = i32 (time_to_event_s ls
                             + time_of_week_delta_ms (ep_tow_ms e) (tls_tow_ms ls) sdiv 1000)
                       in case utc_leap_snap (ep_utc_seconds e + word_of_int to_event_s) GNSS_LEAP_EVENT_TOLERANCE_S of
                            None \<Rightarrow> g1
                          | Some midnight \<Rightarrow>
                              g1\<lparr>leap_event := \<lparr>event_utc = midnight, change = leap_second_change ls\<rparr>, has_leap_event := True\<rparr>))"

definition on_epochs :: "(GnssEpochAssembler \<Rightarrow> GnssEpochAssembler) \<Rightarrow> GnssState \<Rightarrow> GnssState" where
  "on_epochs f g = g\<lparr>epochs := f (epochs g)\<rparr>"

definition handle_navigation :: "GnssPpsReference \<Rightarrow> u8 \<Rightarrow> u8 list \<Rightarrow> u32 \<Rightarrow> GnssState \<Rightarrow> GnssState" where
  "handle_navigation pps message_id payload now g =
     (if message_id = UBX_ID_NAV_STATUS then
        (case ubx_decode_nav_status payload of None \<Rightarrow> g
         | Some s \<Rightarrow> on_epochs (\<lambda>a. fst (gnss_epoch_add_status s now pps a)) g)
      else if message_id = UBX_ID_NAV_TIMEUTC then
        (case ubx_decode_nav_timeutc payload of None \<Rightarrow> g
         | Some t \<Rightarrow> on_epochs (\<lambda>a. fst (gnss_epoch_add_time_utc t now pps a)) g)
      else if message_id = UBX_ID_NAV_CLOCK then
        (case ubx_decode_nav_clock payload of None \<Rightarrow> g | Some c \<Rightarrow> on_epochs (gnss_epoch_add_clock c) g)
      else if message_id = UBX_ID_NAV_POSLLH then
        (case ubx_decode_nav_posllh payload of None \<Rightarrow> g | Some p \<Rightarrow> on_epochs (gnss_epoch_add_position p) g)
      else if message_id = UBX_ID_NAV_EOE then
        (case ubx_decode_nav_eoe payload of None \<Rightarrow> g | Some e \<Rightarrow> on_epochs (gnss_epoch_end e) g)
      else if message_id = UBX_ID_NAV_TIMELS then handle_leap_seconds payload now g
      else g)"

definition handle_time_pulse :: "GnssPpsReference \<Rightarrow> u8 list \<Rightarrow> u32 \<Rightarrow> GnssState \<Rightarrow> GnssState" where
  "handle_time_pulse pps payload now g =
     (case ubx_decode_tim_tp payload of
        None \<Rightarrow> g
      | Some m \<Rightarrow>
          let ok = (ref_valid pps \<and> \<not> (now - ref_observed_ms pps \<ge> GNSS_PPS_ASSOCIATION_WINDOW_MS));
              g1 = g\<lparr>has_time_pulse := True, time_pulse := \<lparr>tp_message = m, tp_received_ms = now,
                     tp_pps_sequence = ref_sequence pps + 1, tp_associated = ok\<rparr>\<rparr>
          in if \<not> ok then g1\<lparr>time_pulses_unassociated := time_pulses_unassociated g1 + 1\<rparr> else g1)"

definition offset_from_second :: "u32 \<Rightarrow> u32 \<Rightarrow> int" where
  "offset_from_second tow_ms sub_ms_ns =
     (let ns = i32 (uint (tow_ms mod 1000) * 1000000 + sint sub_ms_ns)
      in if ns \<ge> 500000000 then i32 (ns - 1000000000) else ns)"

definition epoch_edge_offset :: "UbxTimTm2 \<Rightarrow> int option" where
  "epoch_edge_offset mark =
     (let timebase = drop_bit UBX_TM2_TIMEBASE_SHIFT (tm2_flags mark AND UBX_TM2_TIMEBASE_MASK);
          (new_edge, edge_ms, edge_sub_ns) =
            (if GNSS_TIME_MARK_EPOCH_EDGE_FALLING then (UBX_TM2_NEW_FALLING_EDGE, falling_tow_ms mark, falling_sub_ms_ns mark)
             else (UBX_TM2_NEW_RISING_EDGE, rising_tow_ms mark, rising_sub_ms_ns mark))
      in if tm2_flags mark AND UBX_TM2_TIME_VALID = 0 \<or> tm2_flags mark AND new_edge = 0
            \<or> timebase = UBX_TIMEBASE_RECEIVER \<or> edge_sub_ns \<ge> 1000000
         then None else Some (offset_from_second edge_ms edge_sub_ns))"

definition within_mark_window :: "int \<Rightarrow> bool" where
  "within_mark_window ns \<longleftrightarrow> ns \<le> GNSS_TIME_MARK_WINDOW_NS \<and> ns \<ge> - GNSS_TIME_MARK_WINDOW_NS"

definition handle_time_mark :: "u8 list \<Rightarrow> u32 \<Rightarrow> GnssState \<Rightarrow> GnssState" where
  "handle_time_mark payload now g =
     (case ubx_decode_tim_tm2 payload of
        None \<Rightarrow> g
      | Some m \<Rightarrow>
          let g1 = g\<lparr>time_mark := m, has_time_mark := True, time_mark_received_ms := now\<rparr>
          in case epoch_edge_offset m of
               None \<Rightarrow> g1
             | Some ns \<Rightarrow>
                 (if \<not> within_mark_window ns then g1\<lparr>time_marks_out_of_window := time_marks_out_of_window g1 + 1\<rparr> else g1))"

definition handle_message :: "GnssPpsReference \<Rightarrow> UbxDispatch \<Rightarrow> GnssState \<Rightarrow> GnssState" where
  "handle_message pps d g =
     (let now = observed_ms d;
          (taken, det) = gnss_detect_handle (msg_class d) (msg_id d) (msg_payload d) now (detection g);
          g1 = g\<lparr>frame_seen := True, last_frame_ms := now, detection := det\<rparr>
      in if taken then g1
         else if msg_class d = UBX_CLASS_NAV then handle_navigation pps (msg_id d) (msg_payload d) now g1
         else if msg_class d = UBX_CLASS_TIM \<and> msg_id d = UBX_ID_TIM_TP then handle_time_pulse pps (msg_payload d) now g1
         else if msg_class d = UBX_CLASS_TIM \<and> msg_id d = UBX_ID_TIM_TM2 then handle_time_mark (msg_payload d) now g1
         else g1)"

section \<open>The code: the link and the service\<close>

text \<open>The service with its parser.\<close>

record Gnss =
  gnss :: GnssState
  ubx :: UbxParser

definition start_link :: "u32 \<Rightarrow> bool \<Rightarrow> u32 \<Rightarrow> Gnss \<Rightarrow> Gnss \<times> u8 list list" where
  "start_link rate accepted now s =
     (let (d, sent) = gnss_detect_start accepted now (detection (gnss s))
      in (s\<lparr>gnss := (gnss s)\<lparr>baud := rate, detection := d\<rparr>, ubx := ubx_parser_reset (ubx s)\<rparr>, sent))"

definition recover_silent_link :: "bool \<Rightarrow> u32 \<Rightarrow> Gnss \<Rightarrow> Gnss \<times> u8 list list" where
  "recover_silent_link accepted now s =
     (let g = gnss s
      in if \<not> frame_seen g \<or> \<not> (now - last_frame_ms g \<ge> GNSS_LINK_RECOVERY_MS)
            \<or> (link_recoveries g > 0 \<and> \<not> (now - last_recovery_ms g \<ge> GNSS_LINK_RECOVERY_MS))
         then (s, [])
         else start_link (baud g) accepted now
                (s\<lparr>gnss := g\<lparr>link_recoveries := link_recoveries g + 1, last_recovery_ms := now\<rparr>,
                   ubx := ubx_parser_discontinuity (ubx s)\<rparr>))"

definition blank_gnss :: GnssState where
  "blank_gnss = \<lparr>baud = 0, frame_seen = False, last_frame_ms = 0, link_recoveries = 0, last_recovery_ms = 0,
     detection = gnss_detect_init, epochs = gnss_epoch_init, has_leap_seconds = False,
     leap_seconds = \<lparr>tls_tow_ms = 0, time_to_event_s = 0, event_gps_week = 0, event_gps_day = 0, tls_version = 0,
       current_source = 0, current_leap_seconds = 0, change_source = 0, leap_second_change = 0, tls_validity = 0\<rparr>,
     leap_seconds_received_ms = 0, has_leap_event = False, leap_event = \<lparr>event_utc = 0, change = 0\<rparr>,
     has_time_pulse = False,
     time_pulse = \<lparr>tp_message = \<lparr>tp_tow_ms = 0, tp_tow_sub_ms = 0, quantisation_error_ps = 0, tp_week = 0,
       tp_flags = 0, reference_info = 0\<rparr>, tp_received_ms = 0, tp_pps_sequence = 0, tp_associated = False\<rparr>,
     time_pulses_unassociated = 0, has_time_mark = False,
     time_mark = \<lparr>rising_tow_ms = 0, rising_sub_ms_ns = 0, falling_tow_ms = 0, falling_sub_ms_ns = 0, tm2_accuracy_ns = 0,
       rising_edge_count = 0, rising_week = 0, falling_week = 0, tm2_channel = 0, tm2_flags = 0\<rparr>,
     time_mark_received_ms = 0, time_marks_out_of_window = 0\<rparr>"

definition gnss_init :: "bool \<Rightarrow> u32 \<Rightarrow> Gnss \<times> u8 list list" where
  "gnss_init accepted now = start_link GNSS_OPERATING_BAUD accepted now \<lparr>gnss = blank_gnss, ubx = ubx_parser_init\<rparr>"

text \<open>What one call finds at the UART.\<close>

record GnssInput =
  reads :: "uart_read list"
  ring_empty :: bool
  poll_accepted :: bool
  restart_accepted :: bool

definition gnss_service :: "GnssInput \<Rightarrow> u32 \<Rightarrow> GnssPpsReference \<Rightarrow> Gnss \<Rightarrow> (Gnss \<times> u8 list list) option" where
  "gnss_service i now pps s =
     (case ubx_parser_service now 0 (reads i) (ring_empty i) (ubx s) of
        None \<Rightarrow> None
      | Some (p, ds) \<Rightarrow>
          let g = fold (handle_message pps) ds (gnss s);
              (d, polled) = gnss_detect_service (poll_accepted i) now (detection g);
              (s', restarted) = recover_silent_link (restart_accepted i) now \<lparr>gnss = g\<lparr>detection := d\<rparr>, ubx = p\<rparr>
          in Some (s', polled @ restarted))"

section \<open>The code: what the clock asks\<close>

definition gnss_is_present :: "u32 \<Rightarrow> GnssState \<Rightarrow> bool" where
  "gnss_is_present now g \<longleftrightarrow> frame_seen g \<and> \<not> (now - last_frame_ms g \<ge> GNSS_LINK_SILENCE_MS)"

definition gnss_fresh_epoch :: "u32 \<Rightarrow> GnssState \<Rightarrow> GnssEpoch option" where
  "gnss_fresh_epoch now g =
     (case gnss_epoch_latest (epochs g) of
        None \<Rightarrow> None
      | Some e \<Rightarrow> if now - completed_ms e \<ge> GNSS_EPOCH_MAX_AGE_MS then None else Some e)"

definition gnss_has_fix :: "u32 \<Rightarrow> GnssState \<Rightarrow> bool" where
  "gnss_has_fix now g = (case gnss_fresh_epoch now g of None \<Rightarrow> False | Some e \<Rightarrow> fix_ok e)"

definition gnss_leap_event :: "u32 \<Rightarrow> GnssState \<Rightarrow> UtcLeap option" where
  "gnss_leap_event now g =
     (if \<not> has_leap_seconds g \<or> \<not> has_leap_event g \<or> now - leap_seconds_received_ms g \<ge> GNSS_TIMELS_MAX_AGE_MS
      then None else Some (leap_event g))"

definition gnss_utc_at_pps :: "u32 \<Rightarrow> u32 \<Rightarrow> GnssState \<Rightarrow> (u32 \<times> bool) option" where
  "gnss_utc_at_pps pps_sequence now g =
     (case gnss_fresh_epoch now g of
        None \<Rightarrow> None
      | Some e \<Rightarrow>
          if \<not> ep_time_valid e \<or> \<not> pps_associated e then None
          else let edges_since_label = pps_sequence - ep_pps_sequence e
               in if edges_since_label \<ge> GNSS_EPOCH_FAIL_S then None
                  else Some (utc_advance (ep_utc_seconds e) (ep_leap_second e) edges_since_label (gnss_leap_event now g)))"

definition gnss_leap_pending :: "u32 \<Rightarrow> GnssState \<Rightarrow> (int \<times> int) option" where
  "gnss_leap_pending now g =
     (let ls = leap_seconds g
      in if \<not> has_leap_seconds g \<or> now - leap_seconds_received_ms g \<ge> GNSS_TIMELS_MAX_AGE_MS
            \<or> tls_validity ls AND UBX_TIMELS_VALID_TIME_TO_EVENT = 0 \<or> leap_second_change ls = 0 \<or> time_to_event_s ls < 0
         then None
         else let elapsed_s = (now - leap_seconds_received_ms g) div 1000
              in Some (leap_second_change ls, i32 (time_to_event_s ls - sint elapsed_s)))"

definition gnss_leap_seconds :: "u32 \<Rightarrow> GnssState \<Rightarrow> int option" where
  "gnss_leap_seconds now g =
     (if \<not> has_leap_seconds g \<or> now - leap_seconds_received_ms g \<ge> GNSS_TIMELS_MAX_AGE_MS
         \<or> tls_validity (leap_seconds g) AND UBX_TIMELS_VALID_CURRENT_LS = 0
      then None else Some (current_leap_seconds (leap_seconds g)))"

definition gnss_mark_offset :: "u32 \<Rightarrow> GnssState \<Rightarrow> (int \<times> u32) option" where
  "gnss_mark_offset now g =
     (if \<not> has_time_mark g \<or> now - time_mark_received_ms g \<ge> GNSS_TIME_MARK_MAX_AGE_MS then None
      else case epoch_edge_offset (time_mark g) of
             None \<Rightarrow> None
           | Some ns \<Rightarrow> if \<not> within_mark_window ns then None else Some (ns, tm2_accuracy_ns (time_mark g)))"

definition gnss_time_pulse :: "u32 \<Rightarrow> GnssState \<Rightarrow> UbxTimTp option" where
  "gnss_time_pulse pps_sequence g =
     (let pulse = time_pulse g
      in if \<not> has_time_pulse g \<or> \<not> tp_associated pulse \<or> tp_pps_sequence pulse \<noteq> pps_sequence
            \<or> tp_flags (tp_message pulse) AND UBX_TP_FLAGS_QERR_INVALID \<noteq> 0
         then None else Some (tp_message pulse))"

section \<open>Draining is a run of the parser\<close>

fun uart_event :: "u32 \<Rightarrow> uart_read \<Rightarrow> ubx_event" where
  "uart_event now RxLost = Lost"
| "uart_event now (RxByte b) = Byte b now"

lemma drain_is_run:
  "map_option (\<lambda>(q, ds, m). (q, ds)) (drain_uart now 0 rs n p) = ubx_run (map (uart_event now) rs) p"
proof (induction rs arbitrary: n p)
  case (Cons r rs)
  show ?case
  proof (cases r)
    case RxLost
    have "map_option (\<lambda>(r, ds'). (r, ds')) x = x" for x :: "(UbxParser \<times> UbxDispatch list) option"
      by (cases x) auto
    then show ?thesis using Cons.IH [of n "ubx_parser_discontinuity p"] by (simp add: RxLost)
  next
    case (RxByte b)
    then show ?thesis
      by (cases "ubx_parser_feed b now p")
        (simp_all add: Cons.IH [of "n + 1", symmetric] option.map_comp comp_def case_prod_beta)
  qed
qed simp

text \<open>Frames of expected messages, read in one call by a parser that holds nothing.\<close>

lemma service_frames:
  assumes "between p" "window p = []" "list_all expected ms"
  shows "\<exists>q ds. ubx_parser_service now 0 (map RxByte (concat (map sent ms))) quiet p = Some (q, ds)
    \<and> map message_of ds = ms \<and> list_all (\<lambda>d. observed_ms d = now) ds"
proof -
  let ?bs = "concat (map sent ms)"
  obtain q ds where q: "ubx_run (map (\<lambda>(b, t). Byte b t) (map (\<lambda>b. (b, now)) ?bs)) p = Some (q, ds)"
    "ubx_parse False ?bs = (map message_of ds, window q)"
    "list_all (\<lambda>d. observed_ms d \<in> snd ` set (map (\<lambda>b. (b, now)) ?bs)) ds" "between q"
    using run_bytes [OF assms(1), of "map (\<lambda>b. (b, now)) ?bs"] assms(2) by (auto simp: comp_def)
  have "map (uart_event now) (map RxByte ?bs) = map (\<lambda>(b, t). Byte b t) (map (\<lambda>b. (b, now)) ?bs)" by simp
  then have "map_option (\<lambda>(q, ds, m). (q, ds)) (drain_uart now 0 (map RxByte ?bs) 0 p) = Some (q, ds)"
    unfolding drain_is_run using q(1) by presburger
  then obtain n where "drain_uart now 0 (map RxByte ?bs) 0 p = Some (q, ds, n)" by auto
  moreover have "map message_of ds = ms" "window q = []"
    using q(2) ubx_parse_sent [OF assms(3), of "[]"] by (simp_all add: parse_cases(6))
  moreover have "ubx_parser_check_timeout now q = (q, [])"
    using \<open>window q = []\<close> q(4) length_window [of q] by (simp add: ubx_parser_check_timeout_def between_def)
  moreover have "list_all (\<lambda>d. observed_ms d = now) ds" using q(3) by (auto simp: list_all_iff)
  ultimately show ?thesis by (simp add: ubx_parser_service_def)
qed

section \<open>The label of an edge\<close>

lemma service_epochs:
  assumes "ubx_parser_service now 0 (reads i) (ring_empty i) (ubx s) = Some (p, ds)"
  shows "\<exists>s' sent. gnss_service i now pps s = Some (s', sent)
    \<and> epochs (gnss s') = epochs (fold (handle_message pps) ds (gnss s))
    \<and> gnss_leap_event now' (gnss s') = gnss_leap_event now' (fold (handle_message pps) ds (gnss s))"
  using assms
  by (auto simp: gnss_service_def recover_silent_link_def start_link_def gnss_leap_event_def Let_def case_prod_beta)

lemma length_wires:
  "length (UbxNavStatusWire st) = 16" "length (UbxNavTimeutcWire t) = 20"
  by (simp_all add: UbxNavStatusWire_def UbxNavTimeutcWire_def wire_fields)

lemma navigation_expected:
  "expected (UBX_CLASS_NAV, UBX_ID_NAV_STATUS, UbxNavStatusWire st)"
  "expected (UBX_CLASS_NAV, UBX_ID_NAV_TIMEUTC, UbxNavTimeutcWire t)"
  by (simp_all add: expected_def find_rule_def expected_messages_def UbxMessageRule.make_def Let_def ubx_ids
    UBX_PARSER_MAX_PAYLOAD_def length_matches_def length_wires)

text \<open>The dispatch of a navigation message reaches its operation on the epochs.\<close>

lemma handle_status:
  assumes "message_of d = (UBX_CLASS_NAV, UBX_ID_NAV_STATUS, UbxNavStatusWire st)" "observed_ms d = now"
  shows "epochs (handle_message pps d g) = fst (epoch_step (StatusMsg st now pps) (epochs g))"
  using assms status_wire [of "UbxNavStatusWire st" st]
  by (simp add: message_of_def handle_message_def gnss_detect_handle_def handle_navigation_def on_epochs_def ubx_ids)

lemma handle_timeutc:
  assumes "message_of d = (UBX_CLASS_NAV, UBX_ID_NAV_TIMEUTC, UbxNavTimeutcWire t)" "observed_ms d = now"
    "in_i32 (fractional_second_ns t)"
  shows "epochs (handle_message pps d g) = fst (epoch_step (TimeMsg t now pps) (epochs g))"
  using assms timeutc_wire [of "UbxNavTimeutcWire t" t]
  by (simp add: message_of_def handle_message_def gnss_detect_handle_def handle_navigation_def on_epochs_def ubx_ids)

lemma advance_none: "utc_advance u b 0 l = (u, b)"
  by (simp add: utc_advance_def Let_def split: option.split)

lemma labels_from_epoch:
  assumes "gnss_epoch_latest (epochs g) = Some e" "completed_ms e = now" "ep_time_valid e" "pps_associated e"
  shows "gnss_utc_at_pps (ep_pps_sequence e) now g = Some (ep_utc_seconds e, ep_leap_second e)"
    "gnss_utc_at_pps (ep_pps_sequence e + 1) now g
       = Some (utc_advance (ep_utc_seconds e) (ep_leap_second e) 1 (gnss_leap_event now g))"
    "gnss_utc_at_pps (ep_pps_sequence e + 2) now g = None"
  using assms
  by (simp_all add: gnss_utc_at_pps_def gnss_fresh_epoch_def GNSS_EPOCH_MAX_AGE_MS_def GNSS_EPOCH_FAIL_S_def advance_none Let_def word_le_nat_alt)

section \<open>Leap seconds\<close>

lemma sint_minus_small:
  fixes a b :: u32
  assumes "uint a < 2 ^ 31" "uint b < 2 ^ 31"
  shows "sint (a - b) = uint a - uint b"
proof -
  have "uint a < 2147483648" "uint b < 2147483648" using assms by simp_all
  then have "in_i32 (uint a - uint b)"
    using uint_ge_0 [of a] uint_ge_0 [of b] by (intro in_i32I) linarith+
  moreover have "a - b = word_of_int (uint a - uint b)" by simp
  ultimately show ?thesis by (simp only: sint_word_of_int_i32)
qed

text \<open>The shorter way from one time of the week to another.\<close>

lemma week_delta:
  assumes "uint from_ms < UBX_WEEK_MS" "uint to_ms < UBX_WEEK_MS"
    and d: "d mod UBX_WEEK_MS = (uint to_ms - uint from_ms) mod UBX_WEEK_MS" "\<bar>d\<bar> < UBX_WEEK_MS div 2"
  shows "time_of_week_delta_ms from_ms to_ms = d"
proof -
  define x where "x = uint to_ms - uint from_ms"
  have w: "UBX_WEEK_MS = 604800000" by (simp add: UBX_WEEK_MS_def)
  have x: "\<bar>x\<bar> < 604800000"
    using assms(1,2) uint_ge_0 [of to_ms] uint_ge_0 [of from_ms] unfolding x_def w by linarith
  have s: "sint (to_ms - from_ms) = x" unfolding x_def by (rule sint_minus_small) (use assms(1,2) in \<open>simp_all add: w\<close>)
  obtain k where k: "d = x + 604800000 * k"
  proof
    show "d = x + 604800000 * ((d - x) div 604800000)"
      using d(1) unfolding w x_def [symmetric] by (simp add: mod_eq_dvd_iff)
  qed
  have d2: "\<bar>d\<bar> < 302400000" using d(2) by (simp add: w)
  have "k \<in> {-1, 0, 1}"
  proof -
    have "-2 < k" "k < 2" using k x d2 by linarith+
    then show ?thesis by auto
  qed
  moreover have "i32 (x - 604800000) = x - 604800000" "i32 (x + 604800000) = x + 604800000"
    using x by (intro i32_id in_i32I; linarith)+
  ultimately show ?thesis
    using k x d2 unfolding time_of_week_delta_ms_def s by (auto simp: w signed_divide_int_def)
qed

lemma snap_some:
  fixes m :: int
  shows "utc_leap_snap est 2 = Some h \<Longrightarrow> 86400 dvd uint h \<and> \<bar>uint h - uint est\<bar> \<le> 2"
    "utc_leap_snap est 2 = None \<Longrightarrow> 86400 dvd m \<Longrightarrow> m < 2 ^ 32 \<Longrightarrow> 2 < \<bar>m - uint est\<bar>"
proof -
  define n where "n = (unat est + 43199) div 86400 * 86400"
  have snap: "utc_leap_snap est 2 = (if n < 2 ^ 32 \<and> \<bar>int n - int (unat est)\<bar> \<le> 2 then Some (word_of_nat n) else None)"
    unfolding utc_leap_snap_nearest n_def Let_def by simp
  have u: "uint est = int (unat est)" by simp
  show "86400 dvd uint h \<and> \<bar>uint h - uint est\<bar> \<le> 2" if "utc_leap_snap est 2 = Some h"
  proof -
    have n: "n < 2 ^ 32" "\<bar>int n - int (unat est)\<bar> \<le> 2" "h = word_of_nat n"
      using that unfolding snap by (simp_all split: if_splits)
    then have "unat h = n" by (simp add: unat_of_nat take_bit_nat_eq_self)
    then have "uint h = int n" by (simp add: uint_nat)
    moreover have "86400 dvd int n" by (simp add: n_def)
    ultimately show ?thesis using n(2) unfolding u by simp
  qed
  show "2 < \<bar>m - uint est\<bar>" if none: "utc_leap_snap est 2 = None" and "86400 dvd m" "m < 2 ^ 32"
  proof (rule ccontr)
    assume "\<not> 2 < \<bar>m - uint est\<bar>"
    then have near: "\<bar>m - int (unat est)\<bar> \<le> 2" unfolding u by simp
    obtain k where k: "m = 86400 * k" using \<open>86400 dvd m\<close> by blast
    have "0 \<le> k" using near k by linarith
    then have m: "m = int (nat k * 86400)" using k by simp
    have "(unat est + 43199) div 86400 = nat k"
      using near unfolding m of_nat_mult by (intro div_nat_eqI; simp; linarith)
    then have "n = nat k * 86400" by (simp only: n_def)
    then have "int n = m" by (simp only: m)
    moreover have "int n < 2 ^ 32" using \<open>m < 2 ^ 32\<close> calculation by simp
    then have "n < 2 ^ 32" by (simp only: of_nat_less_iff [where 'a = int, symmetric]) simp
    ultimately show False using none near unfolding snap by simp
  qed
qed

section \<open>The search ends\<close>

text \<open>Services at the given times after the start, with what the transmit ring answers, and the polls sent.\<close>

fun detect_run :: "u32 \<Rightarrow> (nat \<times> bool) list \<Rightarrow> GnssDetect \<Rightarrow> GnssDetect \<times> u8 list list" where
  "detect_run start [] d = (d, [])"
| "detect_run start ((t, accepted) # ts) d =
     (let (d1, out) = gnss_detect_service accepted (start + of_nat t) d;
          (d2, rest) = detect_run start ts d1
      in (d2, out @ rest))"

definition MON_VER_POLL :: "u8 list" where
  "MON_VER_POLL = [0xB5, 0x62, 0x0A, 0x04, 0, 0, 0x0E, 0x34]"

lemma poll_sent: "snd (send_poll accepted now d) = [MON_VER_POLL]"
proof -
  have "ubx_encode_poll UBX_CLASS_MON UBX_ID_MON_VER = Some MON_VER_POLL" by code_simp
  then show ?thesis by (simp add: send_poll_def Let_def)
qed

lemma ms_between:
  fixes start :: u32
  assumes "l \<le> t" "t - l < 2 ^ 32"
  shows "unat ((start + of_nat t) - (start + of_nat l)) = t - l"
proof -
  have "(start + of_nat t) - (start + of_nat l) = of_nat (t - l)" using assms(1) by (simp add: of_nat_diff)
  then show ?thesis using assms(2) by (simp add: unat_of_nat take_bit_nat_eq_self)
qed

text \<open>Times never run back and no two services are more than \<open>gap\<close> apart.\<close>

fun served :: "nat \<Rightarrow> nat \<Rightarrow> (nat \<times> bool) list \<Rightarrow> bool" where
  "served gap c [] = True"
| "served gap c ((t, accepted) # ts) = (c \<le> t \<and> t \<le> c + gap \<and> served gap t ts)"

lemma detect_over: "det_state d = GNSS_DETECTION_FAILED \<Longrightarrow> detect_run start ts d = (d, [])"
  by (induction ts) (auto simp: gnss_detect_service_def)

lemma detect_gives_up_from:
  assumes "det_state d = GNSS_DETECTION_PENDING" "unat (attempt_count d) = a" "1 \<le> a" "a \<le> 3"
    "last_poll_ms d = start + of_nat l" "l \<le> c" "c < l + 500" "served gap c ts" "gap < 2 ^ 31"
    "l + (4 - a) * (500 + gap) \<le> last (c # map fst ts)"
  shows "det_state (fst (detect_run start ts d)) = GNSS_DETECTION_FAILED
    \<and> snd (detect_run start ts d) = replicate (3 - a) MON_VER_POLL"
  using assms
proof (induction ts arbitrary: d a l c)
  case Nil
  have "500 \<le> (4 - a) * (500 + gap)" using Nil(4) by (cases "4 - a") auto
  then show ?case using Nil(7,10) by simp
next
  case (Cons x ts)
  obtain t accepted where x: "x = (t, accepted)" by fastforce
  have t: "c \<le> t" "t \<le> c + gap" "served gap t ts" using Cons.prems(8) by (auto simp: x)
  have rest: "l + (4 - a) * (500 + gap) \<le> last (t # map fst ts)" using Cons.prems(10) by (simp add: x)
  have since: "unat (start + of_nat t - last_poll_ms d) = t - l"
    unfolding Cons.prems(5) using Cons.prems(6,7,9) t by (intro ms_between) simp_all
  have due: "(start + of_nat t - last_poll_ms d \<ge> GNSS_DETECT_TIMEOUT_MS) = (500 \<le> t - l)"
    by (simp add: GNSS_DETECT_TIMEOUT_MS_def word_le_nat_alt since)
  have left: "(attempt_count d < GNSS_DETECT_ATTEMPTS) = (a < 3)"
    by (simp add: GNSS_DETECT_ATTEMPTS_def word_less_nat_alt Cons.prems(2))
  consider "t - l < 500" | "500 \<le> t - l" "a < 3" | "500 \<le> t - l" "a = 3" using Cons.prems(4) by linarith
  then show ?case
  proof cases
    case 1
    then have "gnss_detect_service accepted (start + of_nat t) d = (d, [])"
      by (simp only: gnss_detect_service_def due) simp
    moreover have "t < l + 500" "l \<le> t" using 1 t Cons.prems(6) by simp_all
    ultimately show ?thesis using Cons.IH [OF Cons.prems(1-5), of t] t(3) Cons.prems(9) rest by (simp add: x)
  next
    case 2
    obtain d1 where d1: "gnss_detect_service accepted (start + of_nat t) d = (d1, [MON_VER_POLL])"
      "det_state d1 = GNSS_DETECTION_PENDING" "attempt_count d1 = attempt_count d + 1" "last_poll_ms d1 = start + of_nat t"
      using 2 Cons.prems(1) poll_sent [of accepted "start + of_nat t" d]
      by (cases "send_poll accepted (start + of_nat t) d")
        (auto simp: gnss_detect_service_def due left send_poll_def Let_def split: if_splits)
    have a1: "unat (attempt_count d1) = a + 1" using 2 Cons.prems(2) by (simp add: d1(3) unat_word_ariths)
    have "t + (4 - (a + 1)) * (500 + gap) \<le> l + (4 - a) * (500 + gap)"
    proof -
      have "4 - a = Suc (4 - (a + 1))" using 2 by simp
      then have "(4 - a) * (500 + gap) = (500 + gap) + (4 - (a + 1)) * (500 + gap)" by (simp only: mult_Suc)
      then show ?thesis using t(2) Cons.prems(7) by linarith
    qed
    then have "det_state (fst (detect_run start ts d1)) = GNSS_DETECTION_FAILED
        \<and> snd (detect_run start ts d1) = replicate (3 - (a + 1)) MON_VER_POLL"
      using Cons.IH [OF d1(2) a1 _ _ d1(4), of t] t(3) 2 Cons.prems(9) rest by simp
    moreover have "3 - a = Suc (3 - (a + 1))" using 2 by simp
    ultimately show ?thesis by (simp add: x d1(1) case_prod_beta)
  next
    case 3
    then have "gnss_detect_service accepted (start + of_nat t) d = (d\<lparr>det_state := GNSS_DETECTION_FAILED\<rparr>, [])"
      using Cons.prems(1) by (simp add: gnss_detect_service_def due left)
    then show ?thesis using 3 by (simp add: x detect_over)
  qed
qed

section \<open>Claims\<close>

text \<open>
  C5: From bytes to the second of a pulse: when the receiver's NAV-STATUS and NAV-TIMEUTC frames of a
  new second arrive within 950 ms of a pulse not labelled yet, with a usable fix and a fully valid,
  plausible time within 100 ms of a whole second, then the clock's label of that pulse is that
  second, the pulse after it gets the second that follows through any announced leap second, and the
  one after that has no label.
\<close>

theorem edge_gets_reported_second:
  assumes parser: "between (ubx s)" "window (ubx s) = []"
    and reads: "reads i = map RxByte (sent (UBX_CLASS_NAV, UBX_ID_NAV_STATUS, UbxNavStatusWire st)
          @ sent (UBX_CLASS_NAV, UBX_ID_NAV_TIMEUTC, UbxNavTimeutcWire t))"
    and tow: "sta_tow_ms st = w" "utc_tow_ms t = w" "\<not> is_published_epoch (epochs (gnss s)) w"
      "\<not> (building_active (epochs (gnss s)) \<and> ep_tow_ms (building (epochs (gnss s))) = w)"
    and good: "fix_is_usable st" "utc_validity t AND TIMEUTC_FULLY_VALID = TIMEUTC_FULLY_VALID"
      "calendar_is_plausible t" "\<bar>fractional_second_ns t\<bar> \<le> 100000000"
    and pulse: "ref_valid pps" "now - ref_observed_ms pps < 950"
      "\<not> (has_labelled_pps (epochs (gnss s)) \<and> last_labelled_pps_sequence (epochs (gnss s)) = ref_sequence pps)"
  shows "\<exists>s' polls u. gnss_service i now pps s = Some (s', polls)
    \<and> \<bar>int (unat u) * 1000000000 - reported_ns t\<bar> \<le> 100000000
    \<and> gnss_utc_at_pps (ref_sequence pps) now (gnss s') = Some (u, utc_second t = 60)
    \<and> gnss_utc_at_pps (ref_sequence pps + 1) now (gnss s')
        = Some (utc_advance u (utc_second t = 60) 1 (gnss_leap_event now (gnss s')))
    \<and> gnss_utc_at_pps (ref_sequence pps + 2) now (gnss s') = None"
proof -
  let ?ms = "[(UBX_CLASS_NAV, UBX_ID_NAV_STATUS, UbxNavStatusWire st), (UBX_CLASS_NAV, UBX_ID_NAV_TIMEUTC, UbxNavTimeutcWire t)]"
  obtain q ds where q: "ubx_parser_service now 0 (reads i) (ring_empty i) (ubx s) = Some (q, ds)"
    "map message_of ds = ?ms" "list_all (\<lambda>d. observed_ms d = now) ds"
    using service_frames [OF parser, of ?ms now "ring_empty i"] reads by (auto simp: navigation_expected)
  then obtain d1 d2 where ds: "ds = [d1, d2]" by (auto simp: map_eq_Cons_conv)
  obtain s' polls where s': "gnss_service i now pps s = Some (s', polls)"
    "epochs (gnss s') = epochs (fold (handle_message pps) ds (gnss s))"
    using service_epochs [OF q(1), of pps] by blast
  have "in_i32 (fractional_second_ns t)" using good(4) by (intro in_i32I) linarith+
  then have "epochs (gnss s') = fst (epoch_step (TimeMsg t now pps) (epoch_states [StatusMsg st now pps] (epochs (gnss s))))"
    using q(2,3) by (simp add: s'(2) ds handle_status handle_timeutc epoch_states_def del: epoch_step.simps)
  moreover obtain e where e: "gnss_epoch_latest (fst (epoch_step (TimeMsg t now pps)
        (epoch_states [StatusMsg st now pps] (epochs (gnss s))))) = Some e"
    "ep_status e = st" "ep_time_utc e = t" "completed_ms e = now" "derive_time e = e" "ep_pps_sequence e = ref_sequence pps"
    "pps_associated e"
    using epoch_published_when_complete [OF tow, of "[]" now pps now pps] pulse by (auto simp: case_prod_beta)
  ultimately have latest: "gnss_epoch_latest (epochs (gnss s')) = Some e" by simp
  have ns: "\<bar>fractional_second_ns (ep_time_utc e)\<bar> \<le> 1000000000" using good(4) e(3) by simp
  note exact = derive_time_exact [OF _ ns, unfolded e(3,5), OF good(3)]
  have off: "offset_from_second_ns e = fractional_second_ns t" "ep_leap_second e = (utc_second t = 60)"
    "ep_time_valid e"
    using good e(2,3) by (subst e(5) [symmetric], simp add: derive_time_def Let_def epoch_consts abs_le_iff)+
  show ?thesis
    using s'(1) exact(1) off good(4) labels_from_epoch [OF latest e(4) off(3) e(7)] e(6)
    by (intro exI [of _ s'] exI [of _ polls] exI [of _ "ep_utc_seconds e"]) auto
qed

theorem edge_gets_reported_second_witness:
  "\<exists>i st s' polls u. gnss_service i 100 \<lparr>ref_sequence = 7, ref_observed_ms = 50, ref_valid = True\<rparr> (fst (gnss_init True 0)) = Some (s', polls)
    \<and> reads i = map RxByte (sent (UBX_CLASS_NAV, UBX_ID_NAV_STATUS, UbxNavStatusWire st)
          @ sent (UBX_CLASS_NAV, UBX_ID_NAV_TIMEUTC, UbxNavTimeutcWire sample_utc))
    \<and> gnss_utc_at_pps 7 100 (gnss s') = Some (u, False) \<and> \<bar>int (unat u) * 1000000000 - reported_ns sample_utc\<bar> \<le> 100000000"
proof -
  define s where "s = fst (gnss_init True 0)"
  define st where "st = (ep_status blank_epoch)\<lparr>fix_type := 3, sta_flags := 1\<rparr>"
  define pps where "pps = \<lparr>ref_sequence = 7, ref_observed_ms = 50, ref_valid = True\<rparr>"
  define i where "i = \<lparr>reads = map RxByte (sent (UBX_CLASS_NAV, UBX_ID_NAV_STATUS, UbxNavStatusWire st)
      @ sent (UBX_CLASS_NAV, UBX_ID_NAV_TIMEUTC, UbxNavTimeutcWire sample_utc)), ring_empty = True,
      poll_accepted = True, restart_accepted = True\<rparr>"
  have s: "ubx s = ubx_parser_init" "epochs (gnss s) = gnss_epoch_init"
    by (simp_all add: s_def gnss_init_def start_link_def gnss_detect_start_def send_poll_def ubx_parser_reset_def
      ubx_parser_init_def blank_gnss_def Let_def case_prod_beta)
  have start: "between (ubx s)" "window (ubx s) = []" by (simp_all add: s between_init)
  have reads: "reads i = map RxByte (sent (UBX_CLASS_NAV, UBX_ID_NAV_STATUS, UbxNavStatusWire st)
      @ sent (UBX_CLASS_NAV, UBX_ID_NAV_TIMEUTC, UbxNavTimeutcWire sample_utc))" by (simp add: i_def)
  have tow: "sta_tow_ms st = 0" "utc_tow_ms sample_utc = 0" "\<not> is_published_epoch (epochs (gnss s)) 0"
    "\<not> (building_active (epochs (gnss s)) \<and> ep_tow_ms (building (epochs (gnss s))) = 0)"
    by (simp_all add: s st_def blank_epoch_def sample_utc_def is_published_epoch_def gnss_epoch_init_def)
  have good: "fix_is_usable st" "utc_validity sample_utc AND TIMEUTC_FULLY_VALID = TIMEUTC_FULLY_VALID"
    "calendar_is_plausible sample_utc" "\<bar>fractional_second_ns sample_utc\<bar> \<le> 100000000"
    unfolding st_def by code_simp+
  have pulse: "ref_valid pps" "100 - ref_observed_ms pps < 950"
    "\<not> (has_labelled_pps (epochs (gnss s)) \<and> last_labelled_pps_sequence (epochs (gnss s)) = ref_sequence pps)"
    by (simp_all add: pps_def s gnss_epoch_init_def)
  have "\<not> utc_second sample_utc = 60" "ref_sequence pps = 7" by (simp_all add: sample_utc_def pps_def)
  then show ?thesis
    using edge_gets_reported_second [OF start reads tow good pulse] reads unfolding s_def pps_def by auto
qed

text \<open>
  A leap second is announced to the clock exactly when the receiver's countdown, placed against
  the latest epoch by the shorter way round the week, ends within 2 s of a UTC midnight: then with
  that midnight and the receiver's sign, and otherwise not at all.
\<close>

theorem leap_event_on_midnight:
  assumes "gnss_epoch_latest (epochs g) = Some e" "ep_time_valid e"
    and "uint (ep_tow_ms e) < UBX_WEEK_MS" "uint (tls_tow_ms ls) < UBX_WEEK_MS"
    and "in_i8 (current_leap_seconds ls)" "in_i8 (leap_second_change ls)" "\<bar>time_to_event_s ls\<bar> < 2 ^ 30"
    and "length reserved_0 = 3" "length reserved_1 = 3"
    and "tls_validity ls AND UBX_TIMELS_VALID_TIME_TO_EVENT \<noteq> 0" "leap_second_change ls \<noteq> 0"
    and d: "d mod UBX_WEEK_MS = (uint (tls_tow_ms ls) - uint (ep_tow_ms e)) mod UBX_WEEK_MS" "\<bar>d\<bar> < UBX_WEEK_MS div 2"
    and est: "est = uint (ep_utc_seconds e) + time_to_event_s ls + d sdiv 1000" "0 \<le> est" "est < 2 ^ 32"
  shows "case gnss_leap_event now (handle_leap_seconds (UbxNavTimelsWire reserved_0 reserved_1 ls) now g) of
      Some l \<Rightarrow> change l = leap_second_change ls \<and> 86400 dvd uint (event_utc l) \<and> \<bar>uint (event_utc l) - est\<bar> \<le> 2
    | None \<Rightarrow> \<not> (\<exists>m. 86400 dvd m \<and> m < 2 ^ 32 \<and> \<bar>m - est\<bar> \<le> 2)"
proof -
  have small: "\<bar>time_to_event_s ls\<bar> < 1073741824" using assms(7) by simp
  then have "in_i32 (time_to_event_s ls)" by (intro in_i32I) linarith+
  then have dec: "ubx_decode_nav_timels (UbxNavTimelsWire reserved_0 reserved_1 ls) = Some ls"
    using assms(5,6,8,9) timels_wire by blast
  have "1000 * (\<bar>d\<bar> div 1000) \<le> \<bar>d\<bar>" "0 \<le> \<bar>d\<bar> div 1000" by (simp_all add: pos_imp_zdiv_nonneg_iff)
  then have "\<bar>d\<bar> div 1000 \<le> \<bar>d\<bar>" by linarith
  then have "\<bar>d sdiv 1000\<bar> \<le> \<bar>d\<bar>" by (simp add: signed_divide_int_def abs_mult abs_sgn_eq)
  moreover have "\<bar>d\<bar> < 302400000" using d(2) by (simp add: UBX_WEEK_MS_def)
  ultimately have sum: "i32 (time_to_event_s ls + d sdiv 1000) = time_to_event_s ls + d sdiv 1000"
    using small by (intro i32_id in_i32I) linarith+
  have word: "ep_utc_seconds e + word_of_int (time_to_event_s ls + d sdiv 1000) = word_of_int est"
    by (simp add: est(1) add.assoc)
  have u: "uint (word_of_int est :: u32) = est" using est(2,3) by (rule uint_word_of_int_i32)
  define snapped where "snapped = utc_leap_snap (word_of_int est) 2"
  have "gnss_leap_event now (handle_leap_seconds (UbxNavTimelsWire reserved_0 reserved_1 ls) now g)
      = map_option (\<lambda>m. \<lparr>event_utc = m, change = leap_second_change ls\<rparr>) snapped"
    using assms(1,2,10,11) week_delta [OF assms(3,4) d] sum word
    by (cases snapped) (simp_all add: handle_leap_seconds_def dec Let_def gnss_leap_event_def GNSS_TIMELS_MAX_AGE_MS_def
      GNSS_LEAP_EVENT_TOLERANCE_S_def snapped_def)
  moreover have "86400 dvd uint h \<and> \<bar>uint h - est\<bar> \<le> 2" if "snapped = Some h" for h
    using snap_some(1) [of "word_of_int est" h] that unfolding u snapped_def by blast
  moreover have "2 < \<bar>m - est\<bar>" if "snapped = None" "86400 dvd m" "m < 2 ^ 32" for m
    using snap_some(2) [of "word_of_int est" m] that unfolding u snapped_def by blast
  ultimately show ?thesis by (cases snapped) (simp, force, simp)
qed

theorem leap_event_on_midnight_witness:
  "\<exists>g ls l. gnss_leap_event 5 (handle_leap_seconds (UbxNavTimelsWire [0, 0, 0] [0, 0, 0] ls) 5 g) = Some l
     \<and> change l = 1 \<and> \<bar>uint (event_utc l) - 1483228800\<bar> \<le> 2"
proof -
  define e where "e = blank_epoch\<lparr>ep_time_valid := True, ep_tow_ms := 604799000, ep_utc_seconds := 1483228790\<rparr>"
  define g where "g = blank_gnss\<lparr>epochs := gnss_epoch_init\<lparr>has_published := True, published := e\<rparr>\<rparr>"
  define ls where "ls = \<lparr>tls_tow_ms = 0, time_to_event_s = 9, event_gps_week = 0, event_gps_day = 0, tls_version = 0,
       current_source = 0, current_leap_seconds = 17, change_source = 0, leap_second_change = 1, tls_validity = 2\<rparr>"
  have e: "gnss_epoch_latest (epochs g) = Some e" "ep_time_valid e" by (simp_all add: g_def e_def gnss_epoch_latest_def)
  have h: "uint (ep_tow_ms e) < UBX_WEEK_MS" "uint (tls_tow_ms ls) < UBX_WEEK_MS"
    "in_i8 (current_leap_seconds ls)" "in_i8 (leap_second_change ls)" "\<bar>time_to_event_s ls\<bar> < 2 ^ 30"
    "length [0, 0, 0 :: u8] = 3" "length [0, 0, 0 :: u8] = 3"
    "tls_validity ls AND UBX_TIMELS_VALID_TIME_TO_EVENT \<noteq> 0" "leap_second_change ls \<noteq> 0"
    "1000 mod UBX_WEEK_MS = (uint (tls_tow_ms ls) - uint (ep_tow_ms e)) mod UBX_WEEK_MS" "\<bar>1000\<bar> < UBX_WEEK_MS div 2"
    "1483228800 = uint (ep_utc_seconds e) + time_to_event_s ls + 1000 sdiv 1000" "(0 :: int) \<le> 1483228800" "(1483228800 :: int) < 2 ^ 32"
    by (simp_all add: e_def ls_def in_i8_def UBX_WEEK_MS_def UBX_TIMELS_VALID_TIME_TO_EVENT_def signed_divide_int_def)
  have midnight: "\<exists>m. 86400 dvd m \<and> m < 2 ^ 32 \<and> \<bar>m - 1483228800\<bar> \<le> (2 :: int)"
    by (rule exI [of _ 1483228800]) simp
  show ?thesis
    using leap_event_on_midnight [OF e h, of 5] midnight
    by (intro exI [of _ g] exI [of _ ls]) (auto simp: ls_def split: option.splits)
qed

text \<open>
  The search for a receiver that never answers ends: served at least every \<open>gap\<close> ms for
  3 (500 + gap) ms after its start, at any point of the millisecond tick and whatever the transmit
  ring answers, it has sent exactly three MON-VER polls, the first at once, and given up.
\<close>

theorem detection_gives_up:
  assumes "served gap 0 ts" "gap < 2 ^ 31" "3 * (500 + gap) \<le> last (0 # map fst ts)"
  shows "case gnss_detect_start accepted start d of (d0, first) \<Rightarrow>
      first = [MON_VER_POLL]
      \<and> det_state (fst (detect_run start ts d0)) = GNSS_DETECTION_FAILED
      \<and> snd (detect_run start ts d0) = [MON_VER_POLL, MON_VER_POLL]"
proof -
  let ?d0 = "fst (gnss_detect_start accepted start d)"
  have "det_state ?d0 = GNSS_DETECTION_PENDING" "unat (attempt_count ?d0) = 1" "last_poll_ms ?d0 = start + of_nat 0"
    by (simp_all add: gnss_detect_start_def send_poll_def gnss_detect_init_def Let_def)
  note over = detect_gives_up_from [OF this(1,2) _ _ this(3), of 0 gap ts]
  have "snd (gnss_detect_start accepted start d) = [MON_VER_POLL]" by (simp add: gnss_detect_start_def poll_sent)
  then show ?thesis using over assms by (simp add: case_prod_beta numeral_2_eq_2)
qed

theorem detection_gives_up_witness:
  "snd (detect_run 4294967000 [(490, True), (600, False), (1100, True), (1900, True), (2500, True), (3200, True), (3950, True)]
     (fst (gnss_detect_start True 4294967000 gnss_detect_init))) = [MON_VER_POLL, MON_VER_POLL]"
  using detection_gives_up [where gap = 800 and accepted = True and start = 4294967000 and d = gnss_detect_init
      and ts = "[(490, True), (600, False), (1100, True), (1900, True), (2500, True), (3200, True), (3950, True)]"]
  by (simp add: case_prod_beta del: detect_run.simps)

end
