(* ===== verification/Pps.thy ===== *)
theory Pps
  imports Epoch_Control
begin

text \<open>
  Pulse edges (\<open>dspic_src/timing/pps_capture.c\<close>, \<open>pps_monitor.c\<close>): the alignment of the two capture
  timers and its check, the captures of the reference and of the epoch output, the timebase read for
  an edge that is only watched, and the watch on the pins by their change interrupt. What the
  hardware gives is an argument: the buffers of a capture, the outcome of an attempt to align, the
  halves of the timer read, the levels of the pins.
\<close>

section \<open>The code: captures\<close>

definition PERIOD_LIMIT_LOWER :: u32 where
  "PERIOD_LIMIT_LOWER = TIMING_NOMINAL_TICKS - TIMING_NOMINAL_TICKS div 1000"
definition PERIOD_LIMIT_UPPER :: u32 where
  "PERIOD_LIMIT_UPPER = TIMING_NOMINAL_TICKS + TIMING_NOMINAL_TICKS div 1000"
definition PPS_CAPTURE_ALIGN_ATTEMPTS :: nat where "PPS_CAPTURE_ALIGN_ATTEMPTS = 8"
definition PPS_CAPTURE_ALIGN_TOLERANCE :: int where "PPS_CAPTURE_ALIGN_TOLERANCE = 4"
definition PPS_MONITOR_LATENCY_TICKS :: u32 where "PPS_MONITOR_LATENCY_TICKS = 33"

datatype PpsInput = PPS_INPUT_GNSS | PPS_INPUT_ESP

text \<open>The statics of the two pairs; the raw halves kept for the console are left out.\<close>

record Captures =
  captures_trusted :: bool
  ic12_correction :: u32
  ic12_input :: PpsInput
  ic12_stamp :: u32
  ic12_stamp_valid :: bool
  ic12_period :: u32
  ic12_period_sequence :: u32
  ic12_period_valid :: bool
  ic12_edge_sequence :: u32
  ic12_previous :: u32
  ic12_previous_valid :: bool
  ic34_stamp :: u32
  ic34_stamp_valid :: bool

record PpsCaptureSync =
  offsets :: "int list"
  attempts :: nat
  correction :: int
  sync_valid :: bool

definition INT32_MAX :: int where "INT32_MAX = 2147483647"

text \<open>The attempts of the loop: for each what \<open>align_and_check\<close> found, the difference of the two
  captures of the strobe if both were made. \<open>steady\<close> counts those in a row that agree.\<close>

fun align_loop :: "int option list \<Rightarrow> nat \<Rightarrow> int option \<Rightarrow> nat \<Rightarrow> PpsCaptureSync \<Rightarrow> PpsCaptureSync \<times> int option \<times> nat" where
  "align_loop [] left prev steady s = (s, prev, steady)"
| "align_loop (found # rest) left prev steady s =
     (if left = 0 then (s, prev, steady)
      else let s1 = s\<lparr>offsets := offsets s @ [case found of Some d \<Rightarrow> d | None \<Rightarrow> INT32_MAX], attempts := attempts s + 1\<rparr>
           in if found = Some 0 then (s1\<lparr>sync_valid := True\<rparr>, found, steady)
              else align_loop rest (left - 1) found (if found \<noteq> None \<and> found = prev then steady + 1 else 0) s1)"

text \<open>The strobe's edges leave the statics of the captures as \<open>c\<close>; the correction and the routing are
  then set with interrupts held off.\<close>

definition pps_capture_init :: "int option list \<Rightarrow> Captures \<Rightarrow> PpsCaptureSync \<times> Captures" where
  "pps_capture_init found c =
     (let (s, final, steady) = align_loop found PPS_CAPTURE_ALIGN_ATTEMPTS None 0
            \<lparr>offsets = [], attempts = 0, correction = 0, sync_valid = False\<rparr>;
          s1 = (case final of
                  None \<Rightarrow> s
                | Some d \<Rightarrow> if \<not> sync_valid s \<and> steady \<ge> 2 \<and> d \<le> PPS_CAPTURE_ALIGN_TOLERANCE \<and> d \<ge> - PPS_CAPTURE_ALIGN_TOLERANCE
                           then s\<lparr>correction := d, sync_valid := True\<rparr> else s)
      in (s1, c\<lparr>ic12_correction := word_of_int (correction s1), captures_trusted := sync_valid s1,
               ic12_input := PPS_INPUT_GNSS, ic12_edge_sequence := 0, ic12_previous_valid := False,
               ic12_stamp_valid := False, ic34_stamp_valid := False\<rparr>))"

definition join_cascade :: "u16 \<Rightarrow> u16 \<Rightarrow> u32" where
  "join_cascade low high =
     (let high1 = (if low = 0 then high + 1 else high)
      in push_bit 16 (ucast high1) OR ucast low)"

definition ic1_interrupt :: "u16 \<Rightarrow> u16 \<Rightarrow> Captures \<Rightarrow> Captures" where
  "ic1_interrupt low high c =
     (let capture = join_cascade low high - ic12_correction c;
          period = capture - ic12_previous c;
          c1 = (if ic12_previous_valid c then
                  if period \<ge> PERIOD_LIMIT_LOWER \<and> period \<le> PERIOD_LIMIT_UPPER
                  then c\<lparr>ic12_period := period, ic12_period_sequence := ic12_period_sequence c + 1, ic12_period_valid := True\<rparr>
                  else c\<lparr>ic12_period_valid := False\<rparr>
                else c);
          c2 = c1\<lparr>ic12_previous := capture, ic12_previous_valid := True, ic12_stamp := capture,
                  ic12_stamp_valid := captures_trusted c1\<rparr>
      in if captures_trusted c2 then c2\<lparr>ic12_edge_sequence := ic12_edge_sequence c2 + 1\<rparr> else c2)"

definition ic3_interrupt :: "u16 \<Rightarrow> u16 \<Rightarrow> Captures \<Rightarrow> Captures" where
  "ic3_interrupt low high c = c\<lparr>ic34_stamp := join_cascade low high, ic34_stamp_valid := captures_trusted c\<rparr>"

text \<open>A sample, with the fields the loop uses and the two that pair it with a watched edge.\<close>

record PpsRoutedSample = PpsCaptureSample +
  reference_input :: PpsInput
  reference_edge_sequence :: u32

definition pps_capture_sample :: "Captures \<Rightarrow> PpsRoutedSample \<times> Captures" where
  "pps_capture_sample c =
     (\<lparr>reference_capture = ic12_stamp c, reference_capture_valid = ic12_stamp_valid c,
       reference_period = ic12_period c, reference_period_sequence = ic12_period_sequence c,
       reference_period_valid = ic12_period_valid c, epoch_capture = ic34_stamp c,
       epoch_capture_valid = ic34_stamp_valid c, reference_input = ic12_input c,
       reference_edge_sequence = ic12_edge_sequence c\<rparr>,
      c\<lparr>ic12_stamp_valid := False, ic34_stamp_valid := False\<rparr>)"

definition pps_capture_route :: "PpsInput \<Rightarrow> Captures \<Rightarrow> Captures" where
  "pps_capture_route input c =
     (if input = ic12_input c then c
      else c\<lparr>ic12_input := input, ic12_previous_valid := False, ic12_period_valid := False, ic12_stamp_valid := False\<rparr>)"

text \<open>The three reads of the timer, upper, lower and upper half.\<close>

definition pps_capture_timebase :: "u16 \<Rightarrow> u16 \<Rightarrow> u16 \<Rightarrow> u32" where
  "pps_capture_timebase high low high_again =
     (let h = (if high \<noteq> high_again \<and> low < 0x8000 then high_again else high)
      in push_bit 16 (ucast h) OR ucast low)"

section \<open>The code: the watch on the pins\<close>

record Watch =
  wt_stamp :: u32
  wt_sequence :: u32
  wt_observed_ms :: u32
  wt_valid :: bool
  wt_period :: u32
  wt_period_valid :: bool
  seen :: bool
  high_level :: bool

record WatchStats =
  edges_counted :: u32
  implausible :: u32

text \<open>An input's watch with its counts; the array of the code is a function of the input.\<close>

record Monitor =
  watches :: "PpsInput \<Rightarrow> Watch"
  watch_stats :: "PpsInput \<Rightarrow> WatchStats"
  unseen :: u32

definition rising_edge :: "u32 \<Rightarrow> u32 \<Rightarrow> Watch \<Rightarrow> WatchStats \<Rightarrow> Watch \<times> WatchStats" where
  "rising_edge stamp now w st =
     (let period = stamp - wt_stamp w;
          plausible = (seen w \<and> period \<ge> PERIOD_LIMIT_LOWER \<and> period \<le> PERIOD_LIMIT_UPPER);
          st1 = (if seen w \<and> \<not> plausible then st\<lparr>implausible := implausible st + 1\<rparr> else st)
      in (w\<lparr>wt_period_valid := plausible, wt_period := period, wt_stamp := stamp, wt_sequence := wt_sequence w + 1,
            wt_observed_ms := now, wt_valid := True, seen := True\<rparr>,
          st1\<lparr>edges_counted := edges_counted st1 + 1\<rparr>))"

text \<open>One pass of the interrupt's loop over the levels read: the watches after it and whether any level changed.\<close>

definition watch_input :: "u32 \<Rightarrow> u32 \<Rightarrow> bool \<Rightarrow> PpsInput \<Rightarrow> Monitor \<Rightarrow> Monitor" where
  "watch_input stamp now level i m =
     (let w = watches m i
      in if level = high_level w then m
         else let w1 = w\<lparr>high_level := level\<rparr>;
                  (w2, st) = (if level then rising_edge stamp now w1 (watch_stats m i) else (w1, watch_stats m i))
              in m\<lparr>watches := (watches m)(i := w2), watch_stats := (watch_stats m)(i := st)\<rparr>)"

definition cn_pass :: "u32 \<Rightarrow> u32 \<Rightarrow> (PpsInput \<Rightarrow> bool) \<Rightarrow> Monitor \<Rightarrow> Monitor \<times> bool" where
  "cn_pass stamp now levels m =
     (watch_input stamp now (levels PPS_INPUT_ESP) PPS_INPUT_ESP
        (watch_input stamp now (levels PPS_INPUT_GNSS) PPS_INPUT_GNSS m),
      levels PPS_INPUT_GNSS \<noteq> high_level (watches m PPS_INPUT_GNSS)
        \<or> levels PPS_INPUT_ESP \<noteq> high_level (watches m PPS_INPUT_ESP))"

definition cn_leave :: "bool \<Rightarrow> Monitor \<Rightarrow> Monitor" where
  "cn_leave any m = (if \<not> any then m\<lparr>unseen := unseen m + 1\<rparr> else m)"

definition pps_monitor_init :: "(PpsInput \<Rightarrow> bool) \<Rightarrow> Monitor" where
  "pps_monitor_init levels =
     \<lparr>watches = (\<lambda>i. \<lparr>wt_stamp = 0, wt_sequence = 0, wt_observed_ms = 0, wt_valid = False, wt_period = 0,
        wt_period_valid = False, seen = False, high_level = levels i\<rparr>),
      watch_stats = (\<lambda>i. \<lparr>edges_counted = 0, implausible = 0\<rparr>), unseen = 0\<rparr>"

record PpsMonitorEdge =
  me_stamp :: u32
  me_sequence :: u32
  me_observed_ms :: u32
  me_valid :: bool
  me_period :: u32
  me_period_valid :: bool

definition pps_monitor_sample :: "Monitor \<Rightarrow> (PpsInput \<Rightarrow> PpsMonitorEdge) \<times> Monitor" where
  "pps_monitor_sample m =
     ((\<lambda>i. let w = watches m i
           in \<lparr>me_stamp = wt_stamp w, me_sequence = wt_sequence w, me_observed_ms = wt_observed_ms w,
               me_valid = wt_valid w, me_period = wt_period w, me_period_valid = wt_period_valid w\<rparr>),
      m\<lparr>watches := (\<lambda>i. (watches m i)\<lparr>wt_valid := False\<rparr>)\<rparr>)"

record PpsEdge =
  pe_sequence :: u32
  pe_observed_ms :: u32
  pe_valid :: bool

definition pps_monitor_edge :: "PpsInput \<Rightarrow> Monitor \<Rightarrow> PpsEdge" where
  "pps_monitor_edge i m =
     (let w = watches m i in \<lparr>pe_sequence = wt_sequence w, pe_observed_ms = wt_observed_ms w, pe_valid = seen w\<rparr>)"

section \<open>Reading the timers\<close>

text \<open>
  A cascade counts cycles from its alignment. Its lower half shows the count; the upper one moves a
  cycle after the lower has rolled over (the erratum).
\<close>

definition lower_half :: "nat \<Rightarrow> u16" where "lower_half c = of_nat c"
definition upper_half :: "nat \<Rightarrow> u16" where "upper_half c = of_nat ((c - 1) div 65536)"

lemma join_halves:
  "push_bit 16 (ucast (of_nat (c div 65536) :: u16)) OR ucast (of_nat c :: u16) = (of_nat c :: u32)"
proof -
  have "(c div 65536 mod 65536) * 65536 + c mod 65536 = c mod 4294967296"
    using mod_mult2_eq [of c 65536 65536] by simp
  then show ?thesis
    by (simp add: word_unat_eq_iff unat_join_halves unat_of_nat take_bit_eq_mod)
qed

lemma timebase_read:
  assumes "c1 < c2" "c2 < c3" "c3 - c1 < 32768"
  shows "pps_capture_timebase (upper_half c1) (lower_half c2) (upper_half c3) = of_nat c2"
proof -
  define h1 h3 q r where "h1 = (c1 - 1) div 65536" and "h3 = (c3 - 1) div 65536" and "q = c2 div 65536" and "r = c2 mod 65536"
  have c2: "c2 = q * 65536 + r" "r < 65536" by (simp_all add: q_def r_def)
  have b1: "h1 * 65536 \<le> c1 - 1" "c1 - 1 < h1 * 65536 + 65536"
    unfolding h1_def by (simp_all add: div_times_less_eq_dividend dividend_less_div_times)
  have b3: "h3 * 65536 \<le> c3 - 1" "c3 - 1 < h3 * 65536 + 65536"
    unfolding h3_def by (simp_all add: div_times_less_eq_dividend dividend_less_div_times)
  have low: "(lower_half c2 < 0x8000) = (r < 32768)"
    by (simp add: lower_half_def word_less_nat_alt unat_of_nat take_bit_eq_mod r_def)
  have "h1 \<le> h3" "h3 \<le> h1 + 1" using b1 b3 assms by linarith+
  then consider "h3 = h1" "q = h1" | "h3 = h1 + 1" "q = h3" "r < 32768" | "h3 = h1 + 1" "q = h1" "\<not> r < 32768"
    using b1 b3 assms c2 by (cases "r < 32768") linarith+
  then have "(if (of_nat h1 :: u16) \<noteq> of_nat h3 \<and> lower_half c2 < 0x8000 then of_nat h3 else of_nat h1) = (of_nat q :: u16)"
    by cases (auto simp: low)
  then show ?thesis
    unfolding pps_capture_timebase_def upper_half_def Let_def h1_def h3_def
    using join_halves [of c2] by (simp add: lower_half_def q_def)
qed

lemma cascade_read: "0 < c \<Longrightarrow> join_cascade (lower_half c) (upper_half c) = of_nat c"
proof -
  assume c: "0 < c"
  have "(if lower_half c = 0 then upper_half c + 1 else upper_half c) = (of_nat (c div 65536) :: u16)"
  proof (cases "c mod 65536 = 0")
    case True
    then have "lower_half c = 0" by (simp add: lower_half_def word_unat_eq_iff unat_of_nat take_bit_eq_mod)
    moreover have "c = 65536 * (c div 65536)" using True mult_div_mod_eq [of 65536 c] by linarith
    then obtain k where k: "c = 65536 * Suc k" using c by (cases "c div 65536") auto
    then have "(c - 1) div 65536 = k" by (intro div_nat_eqI) simp_all
    then have "(c - 1) div 65536 + 1 = c div 65536" by (simp add: k)
    then have "(of_nat ((c - 1) div 65536) + 1 :: u16) = of_nat (c div 65536)" by (metis of_nat_1 of_nat_add)
    ultimately show ?thesis by (simp add: upper_half_def)
  next
    case False
    then have "lower_half c \<noteq> 0" by (simp add: lower_half_def word_unat_eq_iff unat_of_nat take_bit_eq_mod)
    moreover have "(c - 1) div 65536 = c div 65536"
    proof (rule div_nat_eqI)
      show "65536 * (c div 65536) \<le> c - 1" using False by (simp add: minus_mod_eq_mult_div [symmetric])
      show "c - 1 < 65536 * Suc (c div 65536)" using dividend_less_div_times [of 65536 c] by simp
    qed
    ultimately show ?thesis by (simp add: upper_half_def)
  qed
  then show ?thesis unfolding join_cascade_def Let_def using join_halves [of c] by (simp add: lower_half_def)
qed

section \<open>Alignment\<close>

lemma align_stop: "align_loop fs 0 p st s = (s, p, st)"
  by (cases fs) simp_all

lemma align_append:
  "Some 0 \<notin> set xs \<Longrightarrow> align_loop (xs @ ys) (length xs + n) p st s =
     (case align_loop xs (length xs) p st s of (s', p', st') \<Rightarrow> align_loop ys n p' st' s')"
  by (induction xs arbitrary: p st s) (auto simp: align_stop Let_def)

lemma align_kept:
  "Some 0 \<notin> set xs \<Longrightarrow> sync_valid (fst (align_loop xs n p st s)) = sync_valid s
     \<and> correction (fst (align_loop xs n p st s)) = correction s"
  by (induction xs arbitrary: n p st s) (auto simp: Let_def)

lemma align_found:
  "Some 0 \<in> set (take n xs) \<Longrightarrow> sync_valid (fst (align_loop xs n p st s)) \<and> correction (fst (align_loop xs n p st s)) = correction s"
  by (induction xs arbitrary: n p st s) (auto simp: Let_def gr0_conv_Suc take_Cons' split: if_splits)

text \<open>Without an attempt that agreed, three equal offsets at the end are what counts.\<close>

lemma align_steady:
  assumes "Some 0 \<notin> set (xs @ [x, y, z])"
  shows "\<exists>s' st'. align_loop (xs @ [x, y, z] @ rest) (length xs + 3) p st s = (s', z, st')
    \<and> (2 \<le> st' \<longleftrightarrow> z \<noteq> None \<and> x = z \<and> y = z) \<and> sync_valid s' = sync_valid s \<and> correction s' = correction s"
proof -
  obtain s' p' st' where m: "align_loop xs (length xs) p st s = (s', p', st')" by (metis prod_cases3)
  have k: "sync_valid s' = sync_valid s \<and> correction s' = correction s"
    using align_kept [of xs "length xs" p st s] assms m by simp
  have "align_loop (xs @ [x, y, z] @ rest) (length xs + 3) p st s = align_loop ([x, y, z] @ rest) 3 p' st' s'"
    using align_append [of xs "[x, y, z] @ rest" 3 p st s] assms m by simp
  then show ?thesis using assms k by (auto simp: align_stop Let_def numeral_3_eq_3)
qed

section \<open>Runs of the captures\<close>

datatype CaptureEvent = ReferenceEdge u16 u16 | EpochEdge u16 u16 | TakeSample | Route PpsInput

fun capture_step :: "CaptureEvent \<Rightarrow> Captures \<Rightarrow> Captures" where
  "capture_step (ReferenceEdge low high) c = ic1_interrupt low high c"
| "capture_step (EpochEdge low high) c = ic3_interrupt low high c"
| "capture_step TakeSample c = snd (pps_capture_sample c)"
| "capture_step (Route i) c = pps_capture_route i c"

text \<open>The edges captured since the input was routed last, latest first.\<close>

fun note_edge :: "CaptureEvent \<Rightarrow> Captures \<times> u32 list \<Rightarrow> Captures \<times> u32 list" where
  "note_edge e (c, edges) =
     (capture_step e c,
      case e of ReferenceEdge low high \<Rightarrow> (join_cascade low high - ic12_correction c) # edges
      | Route i \<Rightarrow> if i = ic12_input c then edges else []
      | _ \<Rightarrow> edges)"

definition period_told :: "Captures \<times> u32 list \<Rightarrow> bool" where
  "period_told s \<longleftrightarrow> (case s of (c, edges) \<Rightarrow>
     (ic12_previous_valid c = (edges \<noteq> [])) \<and> (edges \<noteq> [] \<longrightarrow> ic12_previous c = hd edges)
     \<and> (ic12_period_valid c \<longrightarrow> (\<exists>a b rest. edges = b # a # rest \<and> ic12_period c = b - a
           \<and> PERIOD_LIMIT_LOWER \<le> b - a \<and> b - a \<le> PERIOD_LIMIT_UPPER))
     \<and> (ic12_stamp_valid c \<longrightarrow> captures_trusted c \<and> edges \<noteq> [] \<and> ic12_stamp c = hd edges))"

lemma period_told_step: "period_told s \<Longrightarrow> period_told (note_edge e s)"
  by (cases s; cases e)
    (auto simp: period_told_def ic1_interrupt_def ic3_interrupt_def pps_capture_sample_def pps_capture_route_def Let_def
      neq_Nil_conv)

interpretation captures: stepper note_edge "\<lambda>_. True" period_told
  by unfold_locales (rule period_told_step)

lemma init_told: "\<not> ic12_period_valid c \<Longrightarrow> period_told (snd (pps_capture_init found c), [])"
  by (simp add: period_told_def pps_capture_init_def Let_def case_prod_beta)

section \<open>The watch against the pins\<close>

text \<open>
  The change interrupt among changes of the pins: the flag is raised by every change and cleared on
  entry; the two pins are read one after the other and compared afterwards. \<open>rises\<close> and \<open>taken\<close> count
  the rising edges of a pin and those the watch took.
\<close>

datatype WatchPhase = Away | Looping bool | ReadFirst bool bool | ReadBoth bool bool bool

record WatchSystem =
  pins :: "PpsInput \<Rightarrow> bool"
  cn_flag :: bool
  phase :: WatchPhase
  monitor :: Monitor
  rises :: "PpsInput \<Rightarrow> nat"
  taken :: "PpsInput \<Rightarrow> nat"

definition both :: "bool \<Rightarrow> bool \<Rightarrow> PpsInput \<Rightarrow> bool" where
  "both g e i = (case i of PPS_INPUT_GNSS \<Rightarrow> g | PPS_INPUT_ESP \<Rightarrow> e)"

inductive cn_step :: "WatchSystem \<Rightarrow> WatchSystem \<Rightarrow> bool" where
  pin_change: "cn_step s (s\<lparr>pins := (pins s)(i := \<not> pins s i), cn_flag := True,
     rises := (rises s)(i := rises s i + (if pins s i then 0 else 1))\<rparr>)"
| enter_handler: "cn_flag s \<Longrightarrow> phase s = Away \<Longrightarrow> cn_step s (s\<lparr>cn_flag := False, phase := Looping False\<rparr>)"
| read_first: "phase s = Looping any \<Longrightarrow> cn_step s (s\<lparr>phase := ReadFirst any (pins s PPS_INPUT_GNSS)\<rparr>)"
| read_second: "phase s = ReadFirst any g \<Longrightarrow> cn_step s (s\<lparr>phase := ReadBoth any g (pins s PPS_INPUT_ESP)\<rparr>)"
| compare: "phase s = ReadBoth any g e \<Longrightarrow> cn_pass stamp now (both g e) (monitor s) = (m, changed) \<Longrightarrow>
     cn_step s (s\<lparr>monitor := (if changed then m else cn_leave any m),
       phase := (if changed then Looping True else Away),
       taken := (\<lambda>i. taken s i + (if both g e i \<and> \<not> high_level (watches (monitor s) i) then 1 else 0))\<rparr>)"

inductive watch_reach :: "WatchSystem \<Rightarrow> bool" where
  start: "watch_reach \<lparr>pins = levels, cn_flag = False, phase = Away, monitor = pps_monitor_init levels,
     rises = (\<lambda>i. 0), taken = (\<lambda>i. 0)\<rparr>"
| more: "watch_reach s \<Longrightarrow> cn_step s s' \<Longrightarrow> watch_reach s'"

text \<open>The level of a pin as the handler holds it: what it read, if it did.\<close>

definition held_level :: "WatchSystem \<Rightarrow> PpsInput \<Rightarrow> bool option" where
  "held_level s i = (case phase s of
     ReadFirst any g \<Rightarrow> (case i of PPS_INPUT_GNSS \<Rightarrow> Some g | PPS_INPUT_ESP \<Rightarrow> None)
   | ReadBoth any g e \<Rightarrow> Some (both g e i)
   | _ \<Rightarrow> None)"

definition rise :: "bool \<Rightarrow> bool \<Rightarrow> nat" where
  "rise a b = (if \<not> a \<and> b then 1 else 0)"

definition input_ok :: "WatchSystem \<Rightarrow> PpsInput \<Rightarrow> bool" where
  "input_ok s i \<longleftrightarrow>
     (let high = high_level (watches (monitor s) i)
      in wt_sequence (watches (monitor s) i) = of_nat (taken s i)
         \<and> (case held_level s i of
              None \<Rightarrow> taken s i + rise high (pins s i) \<le> rises s i
            | Some l \<Rightarrow> taken s i + rise high l + rise l (pins s i) \<le> rises s i \<and> (\<not> cn_flag s \<longrightarrow> l = pins s i))
         \<and> (\<not> cn_flag s \<and> phase s = Away \<longrightarrow> high = pins s i))"

lemma pass_result:
  assumes "cn_pass stamp now levels m = (m', changed)"
  shows "high_level (watches m' i) = levels i"
    "wt_sequence (watches m' i) = wt_sequence (watches m i) + of_nat (rise (high_level (watches m i)) (levels i))"
    "\<not> changed \<Longrightarrow> high_level (watches m i) = levels i"
  using assms by (cases i; auto simp: cn_pass_def watch_input_def rising_edge_def rise_def Let_def split: if_splits)+

lemma leave_frame: "watches (cn_leave any m) = watches m"
  by (simp add: cn_leave_def)

lemma input_ok_step: "cn_step s s' \<Longrightarrow> input_ok s i \<Longrightarrow> input_ok s' i"
proof (induction rule: cn_step.induct)
  case (pin_change s j)
  then show ?case
    by (cases "i = j") (auto simp: input_ok_def held_level_def rise_def Let_def split: option.splits WatchPhase.splits PpsInput.splits)
next
  case (compare s any g e stamp now m changed)
  note p = pass_result [OF compare(2), of i]
  have h: "held_level s i = Some (both g e i)" using compare(1) by (simp add: held_level_def)
  have h': "held_level (s\<lparr>monitor := m', phase := (if changed then Looping True else Away), taken := t\<rparr>) i = None" for m' t
    by (simp add: held_level_def)
  have w: "watches (if changed then m else cn_leave any m) = watches m" by (simp add: leave_frame)
  show ?case using compare(3) p unfolding input_ok_def Let_def h h'
    by (auto simp: w rise_def split: if_splits)
qed (auto simp: input_ok_def held_level_def both_def rise_def Let_def split: option.splits PpsInput.splits)

lemma watch_reach_ok: "watch_reach s \<Longrightarrow> input_ok s i"
proof (induction rule: watch_reach.induct)
  case (start levels)
  show ?case by (simp add: input_ok_def held_level_def pps_monitor_init_def rise_def Let_def)
next
  case (more s s')
  then show ?case using input_ok_step by blast
qed

section \<open>Claims\<close>

text \<open>The statics before start-up, for the examples.\<close>

definition sample_captures :: Captures where
  "sample_captures = \<lparr>captures_trusted = False, ic12_correction = 0, ic12_input = PPS_INPUT_GNSS, ic12_stamp = 0,
     ic12_stamp_valid = False, ic12_period = 40000000, ic12_period_sequence = 0, ic12_period_valid = False,
     ic12_edge_sequence = 0, ic12_previous = 0, ic12_previous_valid = False, ic34_stamp = 0, ic34_stamp_valid = False\<rparr>"

text \<open>
  C27: Time stamps are exact, however the halves of the timer fall: three reads in order and within
  32768 cycles give the count at the moment of the middle one, and a capture gives the count of its
  cycle, the upper half moving a cycle late in both.
\<close>

theorem timestamps_exact:
  assumes "c1 < c2" "c2 < c3" "c3 - c1 < 32768" "0 < e"
  shows "pps_capture_timebase (upper_half c1) (lower_half c2) (upper_half c3) = of_nat c2
    \<and> join_cascade (lower_half e) (upper_half e) = of_nat e"
  using timebase_read [OF assms(1-3)] cascade_read [OF assms(4)] by blast

theorem timestamps_exact_witness:
  "pps_capture_timebase (upper_half 65535) (lower_half 65537) (upper_half 65540) = 65537
    \<and> join_cascade (lower_half 131072) (upper_half 131072) = 131072"
  using timestamps_exact [of 65535 65537 65540 131072] by simp

text \<open>
  Captures are trusted at start-up exactly when one of the eight attempts found the two pairs
  equal, or the last three found one difference of at most four ticks; that difference, and only
  then, is what is taken off every capture of the reference.
\<close>

theorem alignment_judged:
  assumes "found = xs @ [x, y, z] @ rest" "length xs = 5"
  shows "case pps_capture_init found c of (s, c') \<Rightarrow>
      captures_trusted c' = sync_valid s \<and> ic12_correction c' = word_of_int (correction s)
      \<and> sync_valid s = (Some 0 \<in> set (xs @ [x, y, z]) \<or> (\<exists>d. x = Some d \<and> y = Some d \<and> z = Some d \<and> \<bar>d\<bar> \<le> 4))
      \<and> correction s = (if Some 0 \<notin> set (xs @ [x, y, z]) \<and> sync_valid s then the z else 0)"
proof -
  let ?s0 = "\<lparr>offsets = [], attempts = 0, correction = 0, sync_valid = False\<rparr>"
  obtain s p st where m: "align_loop found PPS_CAPTURE_ALIGN_ATTEMPTS None 0 ?s0 = (s, p, st)" by (metis prod_cases3)
  have eight: "PPS_CAPTURE_ALIGN_ATTEMPTS = length xs + 3" by (simp add: PPS_CAPTURE_ALIGN_ATTEMPTS_def assms(2))
  have tk: "take PPS_CAPTURE_ALIGN_ATTEMPTS found = xs @ [x, y, z]" by (simp add: eight assms(1))
  show ?thesis
  proof (cases "Some 0 \<in> set (xs @ [x, y, z])")
    case True
    then have "sync_valid s" "correction s = 0"
      using align_found [of PPS_CAPTURE_ALIGN_ATTEMPTS found None 0 ?s0] unfolding tk m by simp_all
    then show ?thesis using True by (simp add: pps_capture_init_def m split: option.split)
  next
    case False
    obtain s' st' where s': "align_loop found PPS_CAPTURE_ALIGN_ATTEMPTS None 0 ?s0 = (s', z, st')"
      "2 \<le> st' \<longleftrightarrow> z \<noteq> None \<and> x = z \<and> y = z" "\<not> sync_valid s'" "correction s' = 0"
      using align_steady [OF False, of rest None 0 ?s0] unfolding eight assms(1) by auto
    show ?thesis using False s'
      by (cases z) (auto simp: pps_capture_init_def PPS_CAPTURE_ALIGN_TOLERANCE_def)
  qed
qed

theorem alignment_judged_witness:
  "captures_trusted (snd (pps_capture_init (replicate 5 None @ [Some (-3), Some (-3), Some (-3)] @ []) sample_captures))"
  using alignment_judged [of "replicate 5 None @ [Some (-3), Some (-3), Some (-3)] @ []" "replicate 5 None" "Some (-3)" "Some (-3)" "Some (-3)" "[]" sample_captures]
  by (simp add: case_prod_beta)

text \<open>
  C26: A reference period is never told across a change of input or over a missed pulse: after any
  captures, samples and routings, a period marked valid is the difference of the latest two
  edges captured since the input was last routed, within 1000 ppm of a second, and a stamp marked
  valid is the latest of them.
\<close>

theorem periods_of_one_input:
  assumes "\<not> ic12_period_valid c"
  shows "case fold note_edge es (snd (pps_capture_init found c), []) of (c', edges) \<Rightarrow>
      (ic12_period_valid c' \<longrightarrow> (\<exists>a b rest. edges = b # a # rest \<and> ic12_period c' = b - a
          \<and> PERIOD_LIMIT_LOWER \<le> b - a \<and> b - a \<le> PERIOD_LIMIT_UPPER))
      \<and> (ic12_stamp_valid c' \<longrightarrow> captures_trusted c' \<and> edges \<noteq> [] \<and> ic12_stamp c' = hd edges)"
  using captures.run_invar [of es "(snd (pps_capture_init found c), [])"] init_told [OF assms, of found]
  by (auto simp: period_told_def list_all_iff)

theorem periods_of_one_input_witness:
  "\<exists>c' edges. fold note_edge [ReferenceEdge 1 0, ReferenceEdge 23041 610] (snd (pps_capture_init [Some 0] sample_captures), []) = (c', edges)
     \<and> ic12_period_valid c' \<and> ic12_period c' = edges ! 0 - edges ! 1"
proof -
  let ?r = "fold note_edge [ReferenceEdge 1 0, ReferenceEdge 23041 610] (snd (pps_capture_init [Some 0] sample_captures), [])"
  have "\<not> ic12_period_valid sample_captures" by (simp add: sample_captures_def)
  note told = periods_of_one_input [OF this, of "[ReferenceEdge 1 0, ReferenceEdge 23041 610]" "[Some 0]"]
  have "ic12_period_valid (fst ?r)" by code_simp
  then show ?thesis using told by (cases ?r) auto
qed

text \<open>
  C25: The change interrupt misses no level: whenever it is neither pending nor running, the level it
  keeps of each input is the pin's, whatever changed while it read and compared; and each edge it
  counted is a rising edge of its own.
\<close>

theorem watch_misses_nothing:
  assumes "watch_reach s"
  shows "(\<not> cn_flag s \<and> phase s = Away \<longrightarrow> high_level (watches (monitor s) i) = pins s i)
    \<and> wt_sequence (watches (monitor s) i) = of_nat (taken s i) \<and> taken s i \<le> rises s i"
  using watch_reach_ok [OF assms, of i] by (auto simp: input_ok_def Let_def split: option.splits)

theorem watch_misses_nothing_witness:
  "\<exists>s :: WatchSystem. cn_flag s \<and> pins s PPS_INPUT_ESP \<and> taken s PPS_INPUT_ESP = 0 \<and> taken s PPS_INPUT_ESP \<le> rises s PPS_INPUT_ESP"
proof -
  define s where "s = \<lparr>pins = (\<lambda>_. False), cn_flag = False, phase = Away, monitor = pps_monitor_init (\<lambda>_. False),
     rises = (\<lambda>i. 0), taken = (\<lambda>i. 0)\<rparr>"
  define t where "t = s\<lparr>pins := (pins s)(PPS_INPUT_ESP := \<not> pins s PPS_INPUT_ESP), cn_flag := True,
     rises := (rises s)(PPS_INPUT_ESP := rises s PPS_INPUT_ESP + (if pins s PPS_INPUT_ESP then 0 else 1))\<rparr>"
  have "watch_reach t"
    unfolding t_def by (rule watch_reach.more [OF _ pin_change]) (unfold s_def, rule watch_reach.start)
  note watch_misses_nothing [OF this, of PPS_INPUT_ESP]
  then show ?thesis by (intro exI [of _ t]) (simp add: t_def s_def)
qed

end
