(* ===== verification/Source_Adapters.thy ===== *)
theory Source_Adapters
  imports Sync Gnss Pps
begin

text \<open>
  What the GNSS receiver and the ESP's NTP clock report of an epoch (\<open>dspic_src/sync/source_gnss.c\<close>,
  \<open>source_ntp.c\<close>, \<open>source_edge.c\<close>): the edge watched or captured, its label counted on from the last
  one told, and for NTP the pairing of a TIME-NTP with its edge and the average of its phase. The
  printed line of \<open>source_ntp.c\<close> is left out.
\<close>

section \<open>The code: edges\<close>

definition SOURCE_EDGE_PAIR_TICKS :: u32 where "SOURCE_EDGE_PAIR_TICKS = TIMING_TICKS_PER_MS"

record EdgeSnapshot =
  snap_reference :: PpsRoutedSample
  snap_watched :: "PpsInput \<Rightarrow> PpsMonitorEdge"

definition snapshot_edges :: "Captures \<Rightarrow> Monitor \<Rightarrow> EdgeSnapshot \<times> Captures \<times> Monitor" where
  "snapshot_edges c m =
     (let (sample, c') = pps_capture_sample c; (watched, m') = pps_monitor_sample m
      in (\<lparr>snap_reference = sample, snap_watched = watched\<rparr>, c', m'))"

definition source_edge_latency :: "EdgeSnapshot \<Rightarrow> PpsInput \<Rightarrow> u32 option" where
  "source_edge_latency s input =
     (let watched = snap_watched s input; capture = snap_reference s
      in if \<not> me_valid watched \<or> \<not> reference_capture_valid capture \<or> reference_input capture \<noteq> input then None
         else let latency = me_stamp watched - reference_capture capture
              in if latency > SOURCE_EDGE_PAIR_TICKS then None else Some latency)"

definition source_edge_fill :: "EdgeSnapshot \<Rightarrow> PpsInput \<Rightarrow> SyncSourceReport \<Rightarrow> SyncSourceReport" where
  "source_edge_fill s input r =
     (let watched = snap_watched s input;
          paired = (source_edge_latency s input \<noteq> None);
          r1 = r\<lparr>edge := me_valid watched, edge_number := me_sequence watched,
                 edge_stamp := me_stamp watched - PPS_MONITOR_LATENCY_TICKS, captured := paired\<rparr>
      in if paired then r1\<lparr>edge_stamp := reference_capture (snap_reference s)\<rparr> else r1)"

section \<open>The code: GNSS\<close>

definition source_gnss_report :: "EdgeSnapshot \<Rightarrow> u32 \<Rightarrow> GnssState \<Rightarrow> SyncSourceReport" where
  "source_gnss_report s now g =
     (let fresh = gnss_fresh_epoch now g;
          r0 = no_report\<lparr>present := gnss_is_present now g,
                 time_valid := (case fresh of None \<Rightarrow> False | Some e \<Rightarrow> ep_time_valid e),
                 uncertainty_ns := (case fresh of None \<Rightarrow> 0 | Some e \<Rightarrow> utc_accuracy_ns (ep_time_utc e))\<rparr>;
          r1 = source_edge_fill s PPS_INPUT_GNSS r0;
          r2 = (case (if edge r1 then gnss_utc_at_pps (edge_number r1) now g else None) of
                  None \<Rightarrow> r1\<lparr>labelled := False\<rparr>
                | Some (utc, l) \<Rightarrow> r1\<lparr>labelled := True, utc_seconds := utc, leap_second := l\<rparr>);
          r3 = (case gnss_leap_event now g of
                  None \<Rightarrow> r2\<lparr>leap := (leap r2)\<lparr>change := 0\<rparr>\<rparr>
                | Some l \<Rightarrow> r2\<lparr>leap := l\<rparr>)
      in case gnss_mark_offset now g of
           None \<Rightarrow> r3\<lparr>cross_check := False\<rparr>
         | Some (ns, accuracy) \<Rightarrow> r3\<lparr>cross_check := True, cross_check_ns := ns\<rparr>)"

definition source_gnss_select :: "Captures \<Rightarrow> Captures" where
  "source_gnss_select c = pps_capture_route PPS_INPUT_GNSS c"

section \<open>The code: NTP\<close>

definition SOURCE_NTP_PRESENT_MS :: u32 where "SOURCE_NTP_PRESENT_MS = 3000"
definition SOURCE_NTP_ASSOCIATION_MS :: u32 where "SOURCE_NTP_ASSOCIATION_MS = 500"
definition SOURCE_NTP_FRESH_MS :: u32 where "SOURCE_NTP_FRESH_MS = 5000"
definition SOURCE_NTP_PHASE_WEIGHT :: int where "SOURCE_NTP_PHASE_WEIGHT = 16"
definition SOURCE_NTP_PHASE_OUTLIER_NS :: int where "SOURCE_NTP_PHASE_OUTLIER_NS = 20000"
definition SOURCE_NTP_PPS_DELAY_NS :: int where "SOURCE_NTP_PPS_DELAY_NS = 0"
definition SML_NTP_TIME_VALID :: u16 where "SML_NTP_TIME_VALID = 0x0002"
definition SML_NTP_UPDATE_VALID :: u16 where "SML_NTP_UPDATE_VALID = 0x0004"
definition SML_NTP_UNCERTAINTY_VALID :: u16 where "SML_NTP_UNCERTAINTY_VALID = 0x0020"
definition SML_NTP_CORRECTING :: u16 where "SML_NTP_CORRECTING = 0x0040"

text \<open>The fields of SML-TIME-NTP that are used.\<close>

record TimeNtp =
  ntp_flags :: u16
  ntp_utc_seconds :: u32
  ntp_phase_ns :: int
  ntp_uncertainty_ns :: u32
  ntp_pps_sequence :: u32
  ntp_last_update_utc :: u32

record SourceNtpState =
  messages :: u32
  ntp_labelled :: u32
  unassociated :: u32
  sequence_slips :: u32
  received_ms :: u32
  ntp_has_label :: bool
  label_edge :: u32
  label_esp_sequence :: u32
  label_utc :: u32
  label_phase_ns :: int
  has_phase :: bool
  phase_average_ns :: int
  phase_outliers :: u32
  updates :: u32
  corrections :: u32
  last_update_utc :: u32

record SourceNtp =
  ntp :: SourceNtpState
  latest :: "TimeNtp option"
  received :: "TimeNtp option"
  correcting :: bool

definition average_phase :: "int \<Rightarrow> SourceNtpState \<Rightarrow> SourceNtpState" where
  "average_phase ns s =
     (if \<not> has_phase s then s\<lparr>has_phase := True, phase_average_ns := ns\<rparr>
      else let difference = i32 (ns - phase_average_ns s)
           in if difference > SOURCE_NTP_PHASE_OUTLIER_NS \<or> difference < - SOURCE_NTP_PHASE_OUTLIER_NS
              then s\<lparr>phase_outliers := phase_outliers s + 1\<rparr>
              else s\<lparr>phase_average_ns := i32 (phase_average_ns s + difference sdiv SOURCE_NTP_PHASE_WEIGHT)\<rparr>)"

definition source_ntp_init :: SourceNtp where
  "source_ntp_init = \<lparr>ntp = \<lparr>messages = 0, ntp_labelled = 0, unassociated = 0, sequence_slips = 0, received_ms = 0,
     ntp_has_label = False, label_edge = 0, label_esp_sequence = 0, label_utc = 0, label_phase_ns = 0, has_phase = False,
     phase_average_ns = 0, phase_outliers = 0, updates = 0, corrections = 0, last_update_utc = 0\<rparr>,
     latest = None, received = None, correcting = False\<rparr>"

definition source_ntp_received :: "TimeNtp \<Rightarrow> SourceNtp \<Rightarrow> SourceNtp" where
  "source_ntp_received m s = s\<lparr>received := Some m\<rparr>"

definition note_message :: "u32 \<Rightarrow> TimeNtp \<Rightarrow> SourceNtp \<Rightarrow> SourceNtp" where
  "note_message now m s =
     (let st = (ntp s)\<lparr>messages := messages (ntp s) + 1, received_ms := now\<rparr>;
          st1 = (if ntp_flags m AND SML_NTP_UPDATE_VALID \<noteq> 0 \<and> ntp_last_update_utc m \<noteq> last_update_utc st
                 then st\<lparr>updates := updates st + 1, last_update_utc := ntp_last_update_utc m\<rparr> else st);
          moving = (ntp_flags m AND SML_NTP_CORRECTING \<noteq> 0);
          st2 = (if moving \<and> \<not> correcting s then st1\<lparr>corrections := corrections st1 + 1\<rparr> else st1)
      in s\<lparr>ntp := st2, latest := Some m, received := None, correcting := moving\<rparr>)"

definition label_edge_of :: "TimeNtp \<Rightarrow> PpsEdge \<Rightarrow> SourceNtpState \<Rightarrow> SourceNtpState" where
  "label_edge_of m e st =
     (let st1 = (if ntp_has_label st
                    \<and> pe_sequence e - label_edge st \<noteq> ntp_pps_sequence m - label_esp_sequence st
                 then st\<lparr>sequence_slips := sequence_slips st + 1\<rparr> else st);
          st2 = average_phase (ntp_phase_ns m)
                  (st1\<lparr>ntp_has_label := True, label_edge := pe_sequence e, label_esp_sequence := ntp_pps_sequence m,
                       label_utc := ntp_utc_seconds m, label_phase_ns := ntp_phase_ns m\<rparr>)
      in st2\<lparr>ntp_labelled := ntp_labelled st2 + 1\<rparr>)"

definition source_ntp_service :: "u32 \<Rightarrow> Monitor \<Rightarrow> SourceNtp \<Rightarrow> SourceNtp" where
  "source_ntp_service now mon s =
     (case received s of
        None \<Rightarrow> s
      | Some m \<Rightarrow>
          let s1 = note_message now m s; e = pps_monitor_edge PPS_INPUT_ESP mon
          in if \<not> pe_valid e \<or> now - pe_observed_ms e > SOURCE_NTP_ASSOCIATION_MS
             then s1\<lparr>ntp := (ntp s1)\<lparr>unassociated := unassociated (ntp s1) + 1\<rparr>\<rparr>
             else s1\<lparr>ntp := label_edge_of m e (ntp s1)\<rparr>)"

definition source_ntp_report :: "EdgeSnapshot \<Rightarrow> u32 \<Rightarrow> SourceNtp \<Rightarrow> SyncSourceReport" where
  "source_ntp_report snap now s =
     (let st = ntp s;
          flags = (case latest s of None \<Rightarrow> 0 | Some m \<Rightarrow> ntp_flags m);
          here = (latest s \<noteq> None \<and> now - received_ms st < SOURCE_NTP_PRESENT_MS);
          timed = (here \<and> flags AND SML_NTP_TIME_VALID \<noteq> 0 \<and> flags AND SML_NTP_UNCERTAINTY_VALID \<noteq> 0);
          r0 = no_report\<lparr>present := here, time_valid := timed,
                 uncertainty_ns := (case latest s of None \<Rightarrow> 0 | Some m \<Rightarrow> if timed then ntp_uncertainty_ns m else 0)\<rparr>;
          r1 = source_edge_fill snap PPS_INPUT_ESP r0;
          r2 = (if edge r1 \<and> ntp_has_label st \<and> now - received_ms st < SOURCE_NTP_FRESH_MS
                   \<and> sint (edge_number r1 - label_edge st) \<ge> 0
                then r1\<lparr>labelled := True,
                        utc_seconds := fst (utc_advance (label_utc st) False (edge_number r1 - label_edge st) None),
                        edge_offset_ns := i32 (phase_average_ns st + SOURCE_NTP_PPS_DELAY_NS)\<rparr>
                else r1)
      in r2\<lparr>source_stepped := here \<and> correcting s\<rparr>)"

definition source_ntp_select :: "Captures \<Rightarrow> Captures" where
  "source_ntp_select c = pps_capture_route PPS_INPUT_ESP c"

section \<open>The average of the phase\<close>

lemma sdiv_between:
  fixes d :: int
  shows "0 \<le> d \<Longrightarrow> 0 \<le> d sdiv 16 \<and> d sdiv 16 \<le> d" "d \<le> 0 \<Longrightarrow> d \<le> d sdiv 16 \<and> d sdiv 16 \<le> 0"
proof -
  have pos: "0 \<le> x div 16 \<and> x div 16 \<le> x" if "0 \<le> x" for x :: int
    using that zdiv_mono2 [of x 1 16] by (simp add: pos_imp_zdiv_nonneg_iff)
  show "0 \<le> d \<Longrightarrow> 0 \<le> d sdiv 16 \<and> d sdiv 16 \<le> d"
    using pos [of d] by (cases "d = 0") (simp_all add: signed_divide_int_def sgn_1_pos)
  show "d \<le> 0 \<Longrightarrow> d \<le> d sdiv 16 \<and> d sdiv 16 \<le> 0"
  proof (cases "d = 0")
    case False
    assume "d \<le> 0"
    with False have "d sdiv 16 = - ((- d) div 16)" by (simp add: signed_divide_int_def)
    with \<open>d \<le> 0\<close> show ?thesis using pos [of "- d"] by linarith
  qed simp
qed

lemma average_between:
  assumes "lo \<le> ns" "ns \<le> hi" "has_phase s \<Longrightarrow> lo \<le> phase_average_ns s \<and> phase_average_ns s \<le> hi"
    "- 1073741824 \<le> lo" "hi \<le> 1073741823"
  shows "has_phase (average_phase ns s) \<and> lo \<le> phase_average_ns (average_phase ns s) \<and> phase_average_ns (average_phase ns s) \<le> hi"
proof (cases "has_phase s")
  case True
  define a d where "a = phase_average_ns s" and "d = ns - phase_average_ns s"
  have a: "lo \<le> a" "a \<le> hi" using assms(3) [OF True] by (simp_all add: a_def)
  have n: "ns = a + d" by (simp add: a_def d_def)
  have n': "ns - a = d" by (simp add: n)
  have "i32 d = d" using assms a n by (intro i32_id in_i32I) linarith+
  moreover have mid: "lo \<le> a + d sdiv 16" "a + d sdiv 16 \<le> hi"
    using sdiv_between [of d] assms(1,2) a n by (cases "0 \<le> d"; linarith)+
  moreover have "i32 (a + d sdiv 16) = a + d sdiv 16" using mid assms(4,5) by (intro i32_id in_i32I) linarith+
  ultimately show ?thesis using True a by (simp add: average_phase_def SOURCE_NTP_PHASE_WEIGHT_def Let_def n' flip: a_def)
qed (use assms(1,2) in \<open>simp add: average_phase_def\<close>)

section \<open>Labels follow on\<close>

lemma edge_fill_frame:
  "present (source_edge_fill s i r) = present r" "time_valid (source_edge_fill s i r) = time_valid r"
  "labelled (source_edge_fill s i r) = labelled r" "leap (source_edge_fill s i r) = leap r"
  "leap_second (source_edge_fill s i r) = leap_second r"
  "edge_number (source_edge_fill s i r) = me_sequence (snap_watched s i)"
  "edge (source_edge_fill s i r) = me_valid (snap_watched s i)"
  by (simp_all add: source_edge_fill_def Let_def)

lemma ntp_report_label:
  assumes "labelled (source_ntp_report snap now s)"
  shows "utc_seconds (source_ntp_report snap now s) = label_utc (ntp s) + (edge_number (source_ntp_report snap now s) - label_edge (ntp s))"
    "\<not> leap_second (source_ntp_report snap now s)" "change (leap (source_ntp_report snap now s)) = 0"
    "edge (source_ntp_report snap now s)"
  using assms
  by (auto simp: source_ntp_report_def Let_def edge_fill_frame no_report_def no_leap_def utc_advance_def split: if_splits)

lemma gnss_report_fields:
  "labelled (source_gnss_report snap now g) \<Longrightarrow>
     edge (source_gnss_report snap now g) \<and> gnss_utc_at_pps (edge_number (source_gnss_report snap now g)) now g
       = Some (utc_seconds (source_gnss_report snap now g), leap_second (source_gnss_report snap now g))"
  "leap (source_gnss_report snap now g) = (case gnss_leap_event now g of None \<Rightarrow> no_leap\<lparr>change := 0\<rparr> | Some l \<Rightarrow> l)"
  by (auto simp: source_gnss_report_def Let_def edge_fill_frame no_report_def split: option.splits if_splits)

text \<open>A label counts on by edges: what the judge expects of the next is what the report says.\<close>

lemma advance_sum:
  "fst (utc_advance u False a None) + b = fst (utc_advance u False (a + b) None)"
  by (simp add: utc_advance_def Let_def)

lemma advance_no_change: "change l = 0 \<Longrightarrow> utc_advance u b n (Some l) = utc_advance u b n None"
  by (simp add: utc_advance_def Let_def)

lemma announced_event: "utc_advance u b n (announced (case e of None \<Rightarrow> no_leap\<lparr>change := 0\<rparr> | Some l \<Rightarrow> l)) = utc_advance u b n e"
  by (cases e) (auto simp: announced_def advance_no_change)

lemma gnss_next_label:
  assumes "gnss_utc_at_pps n now g = Some (u, l)" "gnss_utc_at_pps (n + 1) now' g = Some (u', l')"
    "gnss_leap_event now' g = gnss_leap_event now g"
  shows "utc_advance u l 1 (gnss_leap_event now g) = (u', l')"
proof -
  obtain e where e: "gnss_epoch_latest (epochs g) = Some e"
    "utc_advance (ep_utc_seconds e) (ep_leap_second e) (n - ep_pps_sequence e) (gnss_leap_event now g) = (u, l)"
    "utc_advance (ep_utc_seconds e) (ep_leap_second e) (n + 1 - ep_pps_sequence e) (gnss_leap_event now' g) = (u', l')"
    "n - ep_pps_sequence e < 2" "n + 1 - ep_pps_sequence e < 2"
    using assms by (auto simp: gnss_utc_at_pps_def gnss_fresh_epoch_def Let_def GNSS_EPOCH_FAIL_S_def not_le split: option.splits if_splits)
  define k where "k = n - ep_pps_sequence e"
  have k1: "n + 1 - ep_pps_sequence e = k + 1" by (simp add: k_def)
  have "unat k < 2" "unat (k + 1) < 2" using e(4,5) by (simp_all add: k_def [symmetric] k1 word_less_nat_alt)
  moreover have "unat (k + 1) = (unat k + 1) mod 2 ^ 32" by (simp add: unat_word_ariths)
  ultimately have "k = 0" by (simp add: word_unat_eq_iff)
  then show ?thesis using e(2,3) assms(3) by (simp add: k1 k_def [symmetric] advance_none)
qed

section \<open>Claims\<close>

text \<open>
  The synchroniser never takes the counting on of a label for a jump of the source. Two epochs
  labelled from the same TIME-NTP, at any edges, and two neighbouring edges labelled from the same
  GNSS epoch, a leap second between them included, are found consistent: the second is judged GOOD
  whenever its other checks pass.
\<close>

theorem counted_labels_follow_on:
  assumes "r1 = source_ntp_report snap1 now1 s \<and> r2 = source_ntp_report snap2 now2 s
      \<or> r1 = source_gnss_report snap1 now1 g \<and> r2 = source_gnss_report snap2 now1 g \<and> edge_number r2 = edge_number r1 + 1"
    and "classify r1 lim1 \<in> {SYNC_CHECK_GOOD, SYNC_CHECK_INACCURATE}" "classify r2 lim2 = SYNC_CHECK_GOOD"
  shows "fst (sync_source_judge (snd (sync_source_judge t r1 lim1 n1)) r2 lim2 n2) = SYNC_CHECK_GOOD"
proof -
  have lab: "labelled r1" "labelled r2" using assms(2,3) by (auto simp: classify_def split: if_splits)
  have "utc_advance (utc_seconds r1) (leap_second r1) (edge_number r2 - edge_number r1) (announced (leap r2))
      = (utc_seconds r2, leap_second r2)"
    using assms(1)
  proof
    assume ntp: "r1 = source_ntp_report snap1 now1 s \<and> r2 = source_ntp_report snap2 now2 s"
    show ?thesis
      using ntp_report_label [of snap1 now1 s] ntp_report_label [of snap2 now2 s] lab ntp
      by (simp add: announced_def utc_advance_def Let_def)
  next
    assume gnss: "r1 = source_gnss_report snap1 now1 g \<and> r2 = source_gnss_report snap2 now1 g \<and> edge_number r2 = edge_number r1 + 1"
    then have at: "gnss_utc_at_pps (edge_number r1) now1 g = Some (utc_seconds r1, leap_second r1)"
      "gnss_utc_at_pps (edge_number r1 + 1) now1 g = Some (utc_seconds r2, leap_second r2)"
      and told: "leap r2 = (case gnss_leap_event now1 g of None \<Rightarrow> no_leap\<lparr>change := 0\<rparr> | Some l \<Rightarrow> l)"
      using gnss_report_fields [of snap1 now1 g] gnss_report_fields [of snap2 now1 g] lab by auto
    have "edge_number r2 = edge_number r1 + 1" using gnss by blast
    then have "edge_number r2 - edge_number r1 = 1" by (simp only: add_diff_cancel_left')
    then show ?thesis using gnss_next_label [OF at refl] by (simp only: told announced_event)
  qed
  then show ?thesis
    using label_continuity [of r1 lim1 r2 lim2 t n1 n2] assms(2,3) by auto
qed

theorem counted_labels_follow_on_witness:
  "\<exists>snap1 snap2 s. utc_seconds (source_ntp_report snap1 5300 s) = 1900000001
     \<and> utc_seconds (source_ntp_report snap2 8100 s) = 1900000004
     \<and> fst (sync_source_judge (snd (sync_source_judge sync_source_reset (source_ntp_report snap1 5300 s) 1000000 5)) (source_ntp_report snap2 8100 s) 0 8)
         = SYNC_CHECK_GOOD"
proof -
  define m where "m = \<lparr>ntp_flags = 34, ntp_utc_seconds = 1900000000, ntp_phase_ns = 100,
    ntp_uncertainty_ns = 2000, ntp_pps_sequence = 70, ntp_last_update_utc = 0\<rparr>"
  define s where "s = source_ntp_init\<lparr>ntp := (label_edge_of m \<lparr>pe_sequence = 40, pe_observed_ms = 4990, pe_valid = True\<rparr>
    (ntp source_ntp_init))\<lparr>received_ms := 5200\<rparr>, latest := Some m\<rparr>"
  define edge_at where "edge_at = (\<lambda>n :: u32. \<lparr>me_stamp = 7, me_sequence = n, me_observed_ms = 4990, me_valid = True,
    me_period = 0, me_period_valid = False\<rparr>)"
  define snap where "snap = (\<lambda>n. \<lparr>snap_reference = \<lparr>reference_capture = 0, reference_capture_valid = False, reference_period = 0,
    reference_period_sequence = 0, reference_period_valid = False, epoch_capture = 0, epoch_capture_valid = False,
    reference_input = PPS_INPUT_GNSS, reference_edge_sequence = 0\<rparr>, snap_watched = (\<lambda>i. edge_at n)\<rparr>)"
  have r: "present (source_ntp_report (snap n) now s) \<and> time_valid (source_ntp_report (snap n) now s)
      \<and> edge (source_ntp_report (snap n) now s) \<and> labelled (source_ntp_report (snap n) now s)
      \<and> uncertainty_ns (source_ntp_report (snap n) now s) = 2000
      \<and> utc_seconds (source_ntp_report (snap n) now s) = 1900000000 + (n - 40)"
    if "now - 5200 < 3000" "sint (n - 40) \<ge> 0" for n now
  proof -
    have "now - 5200 < 5000" using that(1) by (simp add: word_less_nat_alt)
    with that show ?thesis
      by (simp add: source_ntp_report_def s_def m_def snap_def edge_at_def label_edge_of_def average_phase_def source_ntp_init_def
          source_edge_fill_def source_edge_latency_def Let_def utc_advance_def no_report_def SML_NTP_TIME_VALID_def SML_NTP_UNCERTAINTY_VALID_def
          SOURCE_NTP_PRESENT_MS_def SOURCE_NTP_FRESH_MS_def)
  qed
  have r1: "classify (source_ntp_report (snap 41) 5300 s) 1000000 = SYNC_CHECK_GOOD" "utc_seconds (source_ntp_report (snap 41) 5300 s) = 1900000001"
    using r [of 5300 41] by (simp_all add: classify_def)
  have r2: "classify (source_ntp_report (snap 44) 8100 s) 0 = SYNC_CHECK_GOOD" "utc_seconds (source_ntp_report (snap 44) 8100 s) = 1900000004"
    using r [of 8100 44] by (simp_all add: classify_def)
  show ?thesis
    using counted_labels_follow_on [OF disjI1 [OF conjI [OF refl refl]], of "snap 41" 5300 s 1000000 "snap 44" 8100 0 sync_source_reset 5 8] r1 r2
    by fastforce
qed

text \<open>
  The phase of an NTP edge is an average that cannot be thrown off: however many TIME-NTP come,
  it never leaves the range of the phases they gave.
\<close>

theorem phase_average_in_range:
  assumes "list_all (\<lambda>ns. lo \<le> ns \<and> ns \<le> hi) phases" "phases \<noteq> []" "- (2 ^ 30) \<le> lo" "hi < 2 ^ 30" "\<not> has_phase s"
  shows "lo \<le> phase_average_ns (fold average_phase phases s) \<and> phase_average_ns (fold average_phase phases s) \<le> hi"
proof -
  have "has_phase (fold average_phase phases s) \<and> lo \<le> phase_average_ns (fold average_phase phases s)
      \<and> phase_average_ns (fold average_phase phases s) \<le> hi"
    using assms(1,2)
  proof (induction phases rule: rev_induct)
    case (snoc ns phases)
    have "has_phase (fold average_phase phases s) \<Longrightarrow> lo \<le> phase_average_ns (fold average_phase phases s)
        \<and> phase_average_ns (fold average_phase phases s) \<le> hi"
      using snoc assms(5) by (cases "phases = []") auto
    then show ?case using average_between [of lo ns hi "fold average_phase phases s"] snoc.prems(1) assms(3,4) by simp
  qed simp
  then show ?thesis by blast
qed

theorem phase_average_in_range_witness:
  "\<exists>a. a = phase_average_ns (fold average_phase [1000, -500, 900000, 300] (ntp source_ntp_init)) \<and> - 500 \<le> a \<and> a \<le> 900000"
  using phase_average_in_range [of "-500" 900000 "[1000, -500, 900000, 300]" "ntp source_ntp_init"]
  by (simp add: source_ntp_init_def)

end
