(* ===== verification/Rtc_Chip.thy ===== *)
theory Rtc_Chip
  imports Utc
begin

text \<open>
  The driver of the PCF8563 real-time clock (\<open>dspic_src/drivers/pcf8563.c\<close>): its registers in BCD,
  the three transfers over I2C and the one request at a time. The queue of \<open>i2c1.c\<close> is modelled as
  far as the driver sees it, the result of each transfer; what the bus and the chip answer is an
  argument. Printing is left out.
\<close>

section \<open>The code: registers\<close>

definition PCF8563_STOP :: u8 where "PCF8563_STOP = 0x20"
definition PCF8563_VL :: u8 where "PCF8563_VL = 0x80"
definition PCF8563_CENTURY :: u8 where "PCF8563_CENTURY = 0x80"
definition PCF8563_FIRST_UTC :: u32 where "PCF8563_FIRST_UTC = 946684800"
definition PCF8563_DETECT_INTERVAL_MS :: u32 where "PCF8563_DETECT_INTERVAL_MS = 10000"
definition PCF8563_READ_INTERVAL_MS :: u32 where "PCF8563_READ_INTERVAL_MS = 60000"

definition pcf8563_bcd_to_binary :: "u8 \<Rightarrow> u8" where
  "pcf8563_bcd_to_binary bcd = bcd - 6 * drop_bit 4 bcd"

definition pcf8563_binary_to_bcd :: "u8 \<Rightarrow> u8" where
  "pcf8563_binary_to_bcd binary = binary + 6 * (binary div 10)"

definition bcd_valid :: "u8 \<Rightarrow> bool" where
  "bcd_valid bcd \<longleftrightarrow> bcd AND 0x0F \<le> 9 \<and> drop_bit 4 bcd \<le> 9"

section \<open>The code: transfers\<close>

datatype I2cResult =
  I2C_IDLE | I2C_QUEUED | I2C_BUSY | I2C_OK | I2C_NACK_ADDRESS | I2C_NACK_DATA | I2C_BUS_ERROR | I2C_TIMEOUT

datatype RtcTransfer = ReadTransfer | WriteTransfer | ReleaseTransfer

datatype Pcf8563Request =
  PCF8563_NONE | PCF8563_READING | PCF8563_WRITING | PCF8563_WRITING_STOPPED | PCF8563_RELEASING
  | PCF8563_DONE | PCF8563_FAILED

text \<open>The status and the statics; \<open>registers\<close> is what the read transfer fills.\<close>

record Pcf8563 =
  chip_present :: bool
  calendar_valid :: bool
  chip_time_valid :: bool
  voltage_low :: bool
  stopped :: bool
  century :: bool
  chip_utc :: u32
  read_ms :: u32
  read_stamp :: u32
  registers :: "u8 list"
  request :: Pcf8563Request
  last_result :: I2cResult
  reads :: u32
  writes :: u32
  releases :: u32
  failures :: u32
  write_buffer :: "u8 list"
  transfer_result :: "RtcTransfer \<Rightarrow> I2cResult"
  start_stamp :: u32
  last_attempt_ms :: u32
  report_next :: bool
  report_due :: bool
  auto_read :: bool

definition in_flight :: "RtcTransfer \<Rightarrow> Pcf8563 \<Rightarrow> bool" where
  "in_flight t p \<longleftrightarrow> transfer_result p t = I2C_QUEUED \<or> transfer_result p t = I2C_BUSY"

definition i2c1_submit :: "RtcTransfer \<Rightarrow> Pcf8563 \<Rightarrow> bool \<times> Pcf8563" where
  "i2c1_submit t p =
     (if in_flight t p then (False, p)
      else (True, p\<lparr>transfer_result := (transfer_result p)(t := I2C_QUEUED)\<rparr>))"

definition i2c1_done :: "RtcTransfer \<Rightarrow> Pcf8563 \<Rightarrow> bool" where
  "i2c1_done t p \<longleftrightarrow> \<not> in_flight t p"

section \<open>The code: the driver\<close>

definition decode_registers :: "Pcf8563 \<Rightarrow> Pcf8563" where
  "decode_registers p =
     (let r = registers p;
          seconds = r ! 2 AND 0x7F; minutes = r ! 3 AND 0x7F; hours = r ! 4 AND 0x3F;
          days = r ! 5 AND 0x3F; months = r ! 7 AND 0x1F; years = r ! 8;
          p1 = p\<lparr>voltage_low := (r ! 2 AND PCF8563_VL \<noteq> 0), stopped := (r ! 0 AND PCF8563_STOP \<noteq> 0),
                 century := (r ! 7 AND PCF8563_CENTURY \<noteq> 0), calendar_valid := False, chip_time_valid := False\<rparr>
      in if \<not> bcd_valid seconds \<or> \<not> bcd_valid minutes \<or> \<not> bcd_valid hours \<or> \<not> bcd_valid days
            \<or> \<not> bcd_valid months \<or> \<not> bcd_valid years
         then p1
         else let civil = \<lparr>year = 2000 + ucast (pcf8563_bcd_to_binary years) + (if century p1 then 100 else 0),
                           month = pcf8563_bcd_to_binary months, day = pcf8563_bcd_to_binary days,
                           hour = pcf8563_bcd_to_binary hours, minute = pcf8563_bcd_to_binary minutes,
                           second = pcf8563_bcd_to_binary seconds\<rparr>
              in if second civil > 59 \<or> \<not> utc_civil_is_valid civil then p1
                 else p1\<lparr>chip_utc := utc_from_civil civil, calendar_valid := True,
                         chip_time_valid := \<not> voltage_low p1 \<and> \<not> stopped p1\<rparr>)"

definition start_transfer :: "RtcTransfer \<Rightarrow> Pcf8563Request \<Rightarrow> Pcf8563 \<Rightarrow> bool \<times> Pcf8563" where
  "start_transfer t req p =
     (case i2c1_submit t p of (False, p') \<Rightarrow> (False, p') | (True, p') \<Rightarrow> (True, p'\<lparr>request := req\<rparr>))"

definition pcf8563_busy :: "Pcf8563 \<Rightarrow> bool" where
  "pcf8563_busy p \<longleftrightarrow> request p = PCF8563_READING \<or> request p = PCF8563_WRITING
     \<or> request p = PCF8563_WRITING_STOPPED \<or> request p = PCF8563_RELEASING"

definition pcf8563_read :: "Pcf8563 \<Rightarrow> bool \<times> Pcf8563" where
  "pcf8563_read p = (if pcf8563_busy p then (False, p) else start_transfer ReadTransfer PCF8563_READING p)"

definition pcf8563_init :: "u32 \<Rightarrow> Pcf8563 \<Rightarrow> Pcf8563" where
  "pcf8563_init now p =
     snd (pcf8563_read (p\<lparr>request := PCF8563_NONE, last_result := I2C_IDLE, last_attempt_ms := now, report_next := True\<rparr>))"

definition encode_time :: "u32 \<Rightarrow> u8 \<Rightarrow> Pcf8563 \<Rightarrow> Pcf8563" where
  "encode_time utc control_1 p =
     (let civil = utc_to_civil utc False \<lparr>year = 0, month = 0, day = 0, hour = 0, minute = 0, second = 0\<rparr>;
          days = ucast (utc div UTC_SECONDS_PER_DAY) :: u16
      in p\<lparr>write_buffer :=
           [0x00, control_1, 0x00, pcf8563_binary_to_bcd (second civil), pcf8563_binary_to_bcd (minute civil),
            pcf8563_binary_to_bcd (hour civil), pcf8563_binary_to_bcd (day civil), ucast ((days + 4) mod 7),
            pcf8563_binary_to_bcd (month civil) OR (if year civil \<ge> 2100 then PCF8563_CENTURY else 0),
            pcf8563_binary_to_bcd (ucast (year civil mod 100))]\<rparr>)"

definition pcf8563_write :: "u32 \<Rightarrow> Pcf8563 \<Rightarrow> bool \<times> Pcf8563" where
  "pcf8563_write utc p =
     (if pcf8563_busy p \<or> utc < PCF8563_FIRST_UTC then (False, p)
      else case start_transfer WriteTransfer PCF8563_WRITING (encode_time utc 0x00 p) of
             (False, p') \<Rightarrow> (False, p')
           | (True, p') \<Rightarrow> (True, p'\<lparr>report_next := True\<rparr>))"

definition pcf8563_write_stopped :: "u32 \<Rightarrow> Pcf8563 \<Rightarrow> bool \<times> Pcf8563" where
  "pcf8563_write_stopped utc p =
     (if pcf8563_busy p \<or> utc < PCF8563_FIRST_UTC then (False, p)
      else start_transfer WriteTransfer PCF8563_WRITING_STOPPED (encode_time utc PCF8563_STOP p))"

definition pcf8563_release :: "Pcf8563 \<Rightarrow> bool \<times> Pcf8563" where
  "pcf8563_release p = (if pcf8563_busy p then (False, p) else start_transfer ReleaseTransfer PCF8563_RELEASING p)"

definition note_result :: "I2cResult \<Rightarrow> u32 \<Rightarrow> Pcf8563 \<Rightarrow> Pcf8563" where
  "note_result result now p =
     (let p1 = p\<lparr>last_result := result, last_attempt_ms := now\<rparr>
      in if result = I2C_NACK_ADDRESS then p1\<lparr>chip_present := False, calendar_valid := False, chip_time_valid := False\<rparr>
         else if result = I2C_OK \<or> result = I2C_NACK_DATA then p1\<lparr>chip_present := True\<rparr> else p1)"

definition finish_transfer :: "RtcTransfer \<Rightarrow> u32 \<Rightarrow> Pcf8563 \<Rightarrow> bool \<times> Pcf8563" where
  "finish_transfer t now p =
     (let p2 = note_result (transfer_result p t) now p
      in if transfer_result p t \<noteq> I2C_OK then (t = ReadTransfer, p2\<lparr>failures := failures p2 + 1, request := PCF8563_FAILED\<rparr>)
         else if request p2 = PCF8563_WRITING_STOPPED then (False, p2\<lparr>writes := writes p2 + 1, request := PCF8563_DONE\<rparr>)
         else if request p2 = PCF8563_RELEASING then (False, p2\<lparr>releases := releases p2 + 1, request := PCF8563_DONE\<rparr>)
         else if t = WriteTransfer then
           (case start_transfer ReadTransfer PCF8563_READING (p2\<lparr>writes := writes p2 + 1, request := PCF8563_DONE\<rparr>) of
              (True, p3) \<Rightarrow> (False, p3)
            | (False, p3) \<Rightarrow> (False, p3\<lparr>request := PCF8563_FAILED\<rparr>))
         else (True, decode_registers (p2\<lparr>reads := reads p2 + 1, read_ms := now, read_stamp := start_stamp p2, request := PCF8563_DONE\<rparr>)))"

definition pcf8563_service :: "u32 \<Rightarrow> Pcf8563 \<Rightarrow> bool \<times> Pcf8563" where
  "pcf8563_service now p =
     (let (read_done, p1) =
            (if request p = PCF8563_READING \<and> i2c1_done ReadTransfer p then finish_transfer ReadTransfer now p
             else if (request p = PCF8563_WRITING \<or> request p = PCF8563_WRITING_STOPPED) \<and> i2c1_done WriteTransfer p
             then finish_transfer WriteTransfer now p
             else if request p = PCF8563_RELEASING \<and> i2c1_done ReleaseTransfer p then finish_transfer ReleaseTransfer now p
             else (False, p));
          p2 = (if read_done \<and> report_next p1 then p1\<lparr>report_next := False, report_due := True\<rparr> else p1);
          p3 = (if auto_read p2 \<and> \<not> pcf8563_busy p2
                   \<and> now - last_attempt_ms p2 \<ge> (if chip_present p2 then PCF8563_READ_INTERVAL_MS else PCF8563_DETECT_INTERVAL_MS)
                then snd (pcf8563_read (p2\<lparr>last_attempt_ms := now\<rparr>)) else p2)
      in (read_done, p3))"

definition pcf8563_report_due :: "Pcf8563 \<Rightarrow> bool \<times> Pcf8563" where
  "pcf8563_report_due p = (report_due p, p\<lparr>report_due := False\<rparr>)"

definition pcf8563_set_auto_read :: "bool \<Rightarrow> Pcf8563 \<Rightarrow> Pcf8563" where
  "pcf8563_set_auto_read enabled p = p\<lparr>auto_read := enabled\<rparr>"

definition pcf8563_now :: "u32 \<Rightarrow> Pcf8563 \<Rightarrow> u32 option" where
  "pcf8563_now now p = (if \<not> calendar_valid p then None else Some (chip_utc p + (now - read_ms p + 500) div 1000))"

section \<open>The bus and the chip\<close>

text \<open>
  The bus takes a queued transfer and ends one that is on it; the chip's answer to a read comes with
  it. \<open>held\<close> is what the chip was last told: the nine registers of a write, their STOP cleared by a
  release.
\<close>

datatype ChipEvent =
  Service u32 | ReadTime | WriteTime u32 | WriteStopped u32 | ReleaseStop | AutoRead bool | TakeReport
  | BusTakes RtcTransfer | BusEnds RtcTransfer I2cResult "u8 list" u32

definition bus_ends :: "RtcTransfer \<Rightarrow> I2cResult \<Rightarrow> u8 list \<Rightarrow> u32 \<Rightarrow> Pcf8563 \<Rightarrow> Pcf8563" where
  "bus_ends t r bytes stamp p =
     (let p1 = p\<lparr>transfer_result := (transfer_result p)(t := r)\<rparr>
      in if t = ReadTransfer \<and> r = I2C_OK then p1\<lparr>registers := bytes, start_stamp := stamp\<rparr> else p1)"

fun chip_step :: "ChipEvent \<Rightarrow> Pcf8563 \<Rightarrow> Pcf8563" where
  "chip_step (Service now) p = snd (pcf8563_service now p)"
| "chip_step ReadTime p = snd (pcf8563_read p)"
| "chip_step (WriteTime utc) p = snd (pcf8563_write utc p)"
| "chip_step (WriteStopped utc) p = snd (pcf8563_write_stopped utc p)"
| "chip_step ReleaseStop p = snd (pcf8563_release p)"
| "chip_step (AutoRead b) p = pcf8563_set_auto_read b p"
| "chip_step TakeReport p = snd (pcf8563_report_due p)"
| "chip_step (BusTakes t) p = (if transfer_result p t = I2C_QUEUED then p\<lparr>transfer_result := (transfer_result p)(t := I2C_BUSY)\<rparr> else p)"
| "chip_step (BusEnds t r bytes stamp) p =
     (if transfer_result p t = I2C_BUSY \<and> r \<notin> {I2C_QUEUED, I2C_BUSY} then bus_ends t r bytes stamp p else p)"

text \<open>A transfer in flight is the one of the request; without a request none is.\<close>

fun transfer_of :: "Pcf8563Request \<Rightarrow> RtcTransfer option" where
  "transfer_of PCF8563_READING = Some ReadTransfer"
| "transfer_of PCF8563_WRITING = Some WriteTransfer"
| "transfer_of PCF8563_WRITING_STOPPED = Some WriteTransfer"
| "transfer_of PCF8563_RELEASING = Some ReleaseTransfer"
| "transfer_of _ = None"

definition one_transfer :: "Pcf8563 \<Rightarrow> bool" where
  "one_transfer p \<longleftrightarrow> (\<forall>t. in_flight t p \<longrightarrow> transfer_of (request p) = Some t)"

lemma busy_transfer: "pcf8563_busy p \<longleftrightarrow> transfer_of (request p) \<noteq> None"
  by (cases "request p") (simp_all add: pcf8563_busy_def)

lemma in_flight_frame [simp]:
  "in_flight t (p\<lparr>request := q\<rparr>) = in_flight t p" "in_flight t (p\<lparr>write_buffer := w\<rparr>) = in_flight t p"
  "in_flight t (p\<lparr>report_next := b\<rparr>) = in_flight t p" "in_flight t (p\<lparr>last_attempt_ms := n\<rparr>) = in_flight t p"
  "in_flight t (p\<lparr>last_result := r\<rparr>) = in_flight t p" "in_flight t (p\<lparr>writes := n\<rparr>) = in_flight t p"
  "in_flight t (p\<lparr>releases := n\<rparr>) = in_flight t p" "in_flight t (p\<lparr>reads := n\<rparr>) = in_flight t p"
  "in_flight t (p\<lparr>failures := n\<rparr>) = in_flight t p" "in_flight t (p\<lparr>read_ms := n\<rparr>) = in_flight t p"
  "in_flight t (p\<lparr>read_stamp := n\<rparr>) = in_flight t p" "in_flight t (p\<lparr>chip_present := b\<rparr>) = in_flight t p"
  "in_flight t (p\<lparr>calendar_valid := b\<rparr>) = in_flight t p" "in_flight t (p\<lparr>chip_time_valid := b\<rparr>) = in_flight t p"
  "in_flight t (p\<lparr>report_due := b\<rparr>) = in_flight t p" "in_flight t (p\<lparr>auto_read := b\<rparr>) = in_flight t p"
  by (simp_all add: in_flight_def)

definition none_in_flight :: "Pcf8563 \<Rightarrow> bool" where
  "none_in_flight p \<longleftrightarrow> (\<forall>t. \<not> in_flight t p)"

lemma idle_none: "one_transfer p \<Longrightarrow> \<not> pcf8563_busy p \<Longrightarrow> none_in_flight p"
  by (auto simp: one_transfer_def busy_transfer none_in_flight_def)

lemma none_one: "none_in_flight p \<Longrightarrow> one_transfer p"
  by (simp add: none_in_flight_def one_transfer_def)

lemma start_accepted:
  "none_in_flight p \<Longrightarrow> start_transfer t req p = (True, p\<lparr>transfer_result := (transfer_result p)(t := I2C_QUEUED), request := req\<rparr>)"
  by (simp add: start_transfer_def i2c1_submit_def none_in_flight_def)

lemma start_one:
  assumes "none_in_flight p" "transfer_of req = Some t"
  shows "one_transfer (snd (start_transfer t req p))"
  using assms by (auto simp: start_accepted one_transfer_def none_in_flight_def in_flight_def split: if_splits)

lemma encode_frame [simp]:
  "in_flight t (encode_time utc c p) = in_flight t p" "none_in_flight (encode_time utc c p) = none_in_flight p"
  "request (encode_time utc c p) = request p" "transfer_result (encode_time utc c p) = transfer_result p"
  by (simp_all add: encode_time_def Let_def none_in_flight_def)

lemma decode_frame [simp]:
  "transfer_result (decode_registers p) = transfer_result p" "request (decode_registers p) = request p"
  "write_buffer (decode_registers p) = write_buffer p" "in_flight t (decode_registers p) = in_flight t p"
  by (simp_all add: decode_registers_def Let_def in_flight_def)

lemma read_one: "one_transfer p \<Longrightarrow> one_transfer (snd (pcf8563_read p))"
  by (simp add: pcf8563_read_def start_one idle_none)

lemma release_one: "one_transfer p \<Longrightarrow> one_transfer (snd (pcf8563_release p))"
  by (simp add: pcf8563_release_def start_one idle_none)

lemma write_stopped_one: "one_transfer p \<Longrightarrow> one_transfer (snd (pcf8563_write_stopped utc p))"
  by (simp add: pcf8563_write_stopped_def start_one idle_none)

lemma write_one: "one_transfer p \<Longrightarrow> one_transfer (snd (pcf8563_write utc p))"
  using start_one [of "encode_time utc 0 p" PCF8563_WRITING WriteTransfer]
  by (cases "pcf8563_busy p") (auto simp: pcf8563_write_def idle_none one_transfer_def split: prod.splits bool.splits)

lemma note_frame [simp]:
  "in_flight t (note_result r now p) = in_flight t p" "request (note_result r now p) = request p"
  "write_buffer (note_result r now p) = write_buffer p" "none_in_flight (note_result r now p) = none_in_flight p"
  by (simp_all add: note_result_def none_in_flight_def Let_def)

lemma finish_one:
  assumes n: "none_in_flight p"
  shows "one_transfer (snd (finish_transfer t now p))"
proof -
  define p2 where "p2 = note_result (transfer_result p t) now p"
  have "none_in_flight p2" using n by (simp add: p2_def)
  then have q: "none_in_flight (p2\<lparr>writes := writes p2 + 1, request := PCF8563_DONE\<rparr>)"
    "one_transfer (p2\<lparr>failures := failures p2 + 1, request := PCF8563_FAILED\<rparr>)"
    "one_transfer (p2\<lparr>writes := writes p2 + 1, request := PCF8563_DONE\<rparr>)"
    "one_transfer (p2\<lparr>releases := releases p2 + 1, request := PCF8563_DONE\<rparr>)"
    "one_transfer (decode_registers (p2\<lparr>reads := reads p2 + 1, read_ms := now, read_stamp := start_stamp p2, request := PCF8563_DONE\<rparr>))"
    by (simp_all add: none_in_flight_def one_transfer_def)
  show ?thesis
    unfolding finish_transfer_def Let_def p2_def [symmetric]
    using q start_one [OF q(1), of PCF8563_READING ReadTransfer] start_accepted [OF q(1), of ReadTransfer PCF8563_READING]
    by simp
qed

lemma service_one:
  assumes "one_transfer p"
  shows "one_transfer (snd (pcf8563_service now p))"
proof -
  define r where "r = (if request p = PCF8563_READING \<and> i2c1_done ReadTransfer p then finish_transfer ReadTransfer now p
             else if (request p = PCF8563_WRITING \<or> request p = PCF8563_WRITING_STOPPED) \<and> i2c1_done WriteTransfer p
             then finish_transfer WriteTransfer now p
             else if request p = PCF8563_RELEASING \<and> i2c1_done ReleaseTransfer p then finish_transfer ReleaseTransfer now p
             else (False, p))"
  have none: "none_in_flight p" if "transfer_of (request p) = Some t" "i2c1_done t p" for t
    using that assms by (auto simp: one_transfer_def none_in_flight_def i2c1_done_def)
  have "one_transfer (snd r)"
    unfolding r_def using none [of ReadTransfer] none [of WriteTransfer] none [of ReleaseTransfer] assms
    by (auto intro: finish_one)
  moreover obtain d p1 where r: "r = (d, p1)" by (cases r)
  define p2 where "p2 = (if d \<and> report_next p1 then p1\<lparr>report_next := False, report_due := True\<rparr> else p1)"
  ultimately have "one_transfer p2" by (simp add: p2_def one_transfer_def r)
  then have "one_transfer (snd (pcf8563_read (p2\<lparr>last_attempt_ms := now\<rparr>)))"
    by (intro read_one) (simp add: one_transfer_def)
  with \<open>one_transfer p2\<close> show ?thesis
    by (simp add: pcf8563_service_def r_def [symmetric] r p2_def [symmetric] Let_def)
qed

lemma one_transfer_frame:
  "one_transfer (p\<lparr>auto_read := b\<rparr>) = one_transfer p" "one_transfer (p\<lparr>report_due := b\<rparr>) = one_transfer p"
  by (simp_all add: one_transfer_def)

lemma one_transfer_step: "one_transfer p \<Longrightarrow> one_transfer (chip_step e p)"
proof (cases e)
  case (BusTakes t)
  then show "one_transfer p \<Longrightarrow> ?thesis"
    by (simp add: one_transfer_def in_flight_def) (metis option.inject)
next
  case (BusEnds t r bytes stamp)
  then show "one_transfer p \<Longrightarrow> ?thesis"
    by (simp add: one_transfer_def in_flight_def bus_ends_def Let_def) (metis option.inject)
qed (simp_all add: service_one read_one write_one write_stopped_one release_one one_transfer_frame pcf8563_set_auto_read_def pcf8563_report_due_def)

interpretation chip: stepper chip_step "\<lambda>_. True" one_transfer
  by unfold_locales (rule one_transfer_step)

text \<open>The buffer is only written by a request, which a transfer in flight refuses.\<close>

lemma start_buffer: "write_buffer (snd (start_transfer t req p)) = write_buffer p"
  by (auto simp: start_transfer_def i2c1_submit_def split: prod.split bool.split)

lemma finish_buffer: "write_buffer (snd (finish_transfer t now p)) = write_buffer p"
proof -
  have "write_buffer (snd (case x of (True, p3) \<Rightarrow> (False, p3) | (False, p3) \<Rightarrow> (False, p3\<lparr>request := PCF8563_FAILED\<rparr>)))
      = write_buffer (snd x)" for x :: "bool \<times> Pcf8563"
    by (cases x; cases "fst x") simp_all
  then show ?thesis by (simp add: finish_transfer_def Let_def start_buffer)
qed

lemma read_buffer: "write_buffer (snd (pcf8563_read p)) = write_buffer p"
  by (simp add: pcf8563_read_def start_buffer)

lemma service_buffer: "write_buffer (snd (pcf8563_service now p)) = write_buffer p"
proof -
  define r where "r = (if request p = PCF8563_READING \<and> i2c1_done ReadTransfer p then finish_transfer ReadTransfer now p
             else if (request p = PCF8563_WRITING \<or> request p = PCF8563_WRITING_STOPPED) \<and> i2c1_done WriteTransfer p
             then finish_transfer WriteTransfer now p
             else if request p = PCF8563_RELEASING \<and> i2c1_done ReleaseTransfer p then finish_transfer ReleaseTransfer now p
             else (False, p))"
  have "write_buffer (snd r) = write_buffer p" by (simp add: r_def finish_buffer)
  then show ?thesis
    by (cases r) (simp add: pcf8563_service_def r_def [symmetric] Let_def read_buffer)
qed

lemma step_buffer: "pcf8563_busy p \<Longrightarrow> write_buffer (chip_step e p) = write_buffer p"
  by (cases e; simp add: service_buffer read_buffer pcf8563_write_def pcf8563_write_stopped_def pcf8563_release_def
      start_buffer pcf8563_set_auto_read_def pcf8563_report_due_def bus_ends_def Let_def)

section \<open>BCD\<close>

text \<open>Two decimal digits survive the registers, the mask of a field included.\<close>

definition bcd_fits :: "u8 \<Rightarrow> u8 \<Rightarrow> bool" where
  "bcd_fits m x \<longleftrightarrow> pcf8563_binary_to_bcd x AND m = pcf8563_binary_to_bcd x \<and> bcd_valid (pcf8563_binary_to_bcd x)
     \<and> pcf8563_bcd_to_binary (pcf8563_binary_to_bcd x) = x"

lemma word_below: "(x :: u8) < of_nat n \<Longrightarrow> n < 256 \<Longrightarrow> list_all (\<lambda>k. P (of_nat k)) [0..<n] \<Longrightarrow> P x"
  by (auto simp: list_all_iff word_less_nat_alt unat_of_nat dest!: bspec [of _ _ "unat x"])

lemma bcd_all:
  "list_all (\<lambda>n. bcd_fits 0x7F (of_nat n)) [0..<60]" "list_all (\<lambda>n. bcd_fits 0x3F (of_nat n)) [0..<32]"
  "list_all (\<lambda>n. bcd_fits 0x1F (of_nat n)) [0..<13]" "list_all (\<lambda>n. bcd_fits 0xFF (of_nat n)) [0..<100]"
  by code_simp+

lemma bcd_field:
  "x < 60 \<Longrightarrow> bcd_fits 0x7F x" "x < 32 \<Longrightarrow> bcd_fits 0x3F x" "x < 13 \<Longrightarrow> bcd_fits 0x1F x" "x < 100 \<Longrightarrow> bcd_fits 0xFF x"
  using word_below [of x 60, OF _ _ bcd_all(1)] word_below [of x 32, OF _ _ bcd_all(2)]
    word_below [of x 13, OF _ _ bcd_all(3)] word_below [of x 100, OF _ _ bcd_all(4)] by simp_all

text \<open>The fields the chip holds of a written time, its unused bits arbitrary.\<close>

definition holds_written :: "u8 list \<Rightarrow> u8 list \<Rightarrow> bool" where
  "holds_written r w \<longleftrightarrow> r ! 0 AND PCF8563_STOP = w ! 0 AND PCF8563_STOP \<and> r ! 2 = w ! 2 \<and> r ! 3 AND 0x7F = w ! 3 AND 0x7F
     \<and> r ! 4 AND 0x3F = w ! 4 AND 0x3F \<and> r ! 5 AND 0x3F = w ! 5 AND 0x3F
     \<and> r ! 7 AND 0x9F = w ! 7 AND 0x9F \<and> r ! 8 = w ! 8"

lemma high_bit_clear: "b AND 0x1F = (b :: u8) \<Longrightarrow> b AND 0x80 = 0" "b AND 0x7F = (b :: u8) \<Longrightarrow> b AND 0x80 = 0"
proof -
  have "(b AND 0x1F) AND 0x80 = 0" "(b AND 0x7F) AND 0x80 = 0" by (simp_all add: and.assoc)
  then show "b AND 0x1F = b \<Longrightarrow> b AND 0x80 = 0" "b AND 0x7F = b \<Longrightarrow> b AND 0x80 = 0" by simp_all
qed

lemma month_and_century:
  assumes "b AND 0x1F = (b :: u8)" "x AND 0x9F = (b OR (if c then 0x80 else 0)) AND 0x9F"
  shows "x AND 0x1F = b" "(x AND 0x80 \<noteq> 0) = c"
proof -
  have "(x AND 0x9F) AND 0x1F = x AND 0x1F" "(x AND 0x9F) AND 0x80 = x AND 0x80" by (simp_all add: and.assoc)
  then show "x AND 0x1F = b" "(x AND 0x80 \<noteq> 0) = c"
    using assms(1) high_bit_clear(1) [OF assms(1)] unfolding assms(2)
    by (cases c; simp add: bit.conj_disj_distrib2 and.assoc; fail)+
qed

lemma year_from_2000: "10957 \<le> n \<Longrightarrow> 2000 \<le> fst (calendar n)"
proof (induction n rule: dec_induct)
  case base
  have "date_days (calendar 10957) = date_days (2000, 1, 1)" by (simp add: calendar_days days_nat_alt march_year_def year_start_def march_day_def)
  moreover have "date_ok (2000, 1, 1)" by (simp add: month_days_def)
  ultimately have "calendar 10957 = (2000, 1, 1)" using date_days_inj calendar_date_ok by blast
  then show ?case by simp
next
  case (step n)
  then show ?case by (cases "calendar n") (auto simp: calendar_Suc)
qed

lemma civil_2000:
  fixes c0 :: UtcCivil
  assumes "PCF8563_FIRST_UTC \<le> utc"
  defines "c \<equiv> utc_to_civil utc False c0"
  shows "2000 \<le> unat (year c)" "unat (year c) \<le> 2106" "month c < 13" "day c < 32" "hour c < 32" "minute c < 60" "second c < 60"
proof -
  note f = utc_to_civil_fields [of utc False c0, folded c_def]
  have v: "utc_civil_is_valid c" unfolding c_def by (rule utc_to_civil_valid) simp
  note ok = valid_date [OF v]
  have "unat (946684800 :: u32) \<le> unat utc" using assms(1) unfolding PCF8563_FIRST_UTC_def word_le_nat_alt .
  then have "946684800 div 86400 \<le> unat utc div 86400" by (intro div_le_mono) simp
  then show "2000 \<le> unat (year c)" using year_from_2000 [of "unat utc div 86400"] f(1) [symmetric] by simp
  show "unat (year c) \<le> 2106" using v by (simp add: utc_civil_is_valid_def UTC_LAST_YEAR_def word_le_nat_alt not_less split: if_splits)
  show "month c < 13" "day c < 32"
    using ok(1) month_days_le [of "unat (year c)" "unat (month c)"] by (auto simp: word_less_nat_alt)
  show "hour c < 32" "minute c < 60" using ok(4,5) by (simp_all add: word_less_nat_alt)
  show "second c < 60" using f(4) by (simp add: word_less_nat_alt)
qed

text \<open>The year of a century and its flag.\<close>

lemma year_parts:
  assumes "2000 \<le> unat (y :: u16)" "unat y \<le> 2106"
  shows "2000 + ucast (ucast (y mod 100) :: u8) + (if y \<ge> 2100 then 100 else 0) = y" "(ucast (y mod 100) :: u8) < 100"
proof -
  have "unat y mod 100 < 100" by simp
  then have u: "unat (ucast (y mod 100) :: u8) = unat y mod 100"
    by (simp add: unsigned_ucast_eq take_bit_nat_eq_self unat_mod)
  have "unat (ucast (ucast (y mod 100) :: u8) :: u16) = unat y mod 100" by (simp add: width_simps u)
  moreover have "unat y = 2000 + unat y mod 100 + (if 2100 \<le> unat y then 100 else 0)"
    using assms div_mult_mod_eq [of "unat y" 100]
    by (cases "2100 \<le> unat y") (auto simp: mod_if [of "unat y"] le_mod_geq)
  ultimately show "2000 + ucast (ucast (y mod 100) :: u8) + (if y \<ge> 2100 then 100 else 0) = y"
    by (auto simp: word_unat_eq_iff unat_word_ariths word_le_nat_alt)
  show "(ucast (y mod 100) :: u8) < 100" by (simp add: word_less_nat_alt u)
qed

lemma decode_encoded:
  assumes "PCF8563_FIRST_UTC \<le> utc" "holds_written (registers p) (drop 1 (write_buffer (encode_time utc control q)))"
  shows "calendar_valid (decode_registers p) \<and> chip_utc (decode_registers p) = utc
    \<and> chip_time_valid (decode_registers p) = (control AND PCF8563_STOP = 0) \<and> stopped (decode_registers p) = (control AND PCF8563_STOP \<noteq> 0)"
proof -
  define c where "c = utc_to_civil utc False \<lparr>year = 0, month = 0, day = 0, hour = 0, minute = 0, second = 0\<rparr>"
  note b = civil_2000 [OF assms(1), of "\<lparr>year = 0, month = 0, day = 0, hour = 0, minute = 0, second = 0\<rparr>", folded c_def]
  note bcd = bcd_field(1) [OF b(7)] bcd_field(1) [OF b(6)] bcd_field(2) [OF b(5)] bcd_field(2) [OF b(4)] bcd_field(3) [OF b(3)]
    bcd_field(4) [OF year_parts(2) [OF b(1,2)]]
  have v: "utc_civil_is_valid c" unfolding c_def by (rule utc_to_civil_valid) simp
  have again: "utc_from_civil c = utc" unfolding c_def by (rule utc_from_to_civil) simp
  have w: "drop 1 (write_buffer (encode_time utc control q)) =
      [control, 0x00, pcf8563_binary_to_bcd (second c), pcf8563_binary_to_bcd (minute c), pcf8563_binary_to_bcd (hour c),
       pcf8563_binary_to_bcd (day c), ucast ((ucast (utc div UTC_SECONDS_PER_DAY) + 4 :: u16) mod 7),
       pcf8563_binary_to_bcd (month c) OR (if year c \<ge> 2100 then PCF8563_CENTURY else 0), pcf8563_binary_to_bcd (ucast (year c mod 100))]"
    by (simp add: encode_time_def Let_def c_def)
  define r where "r = registers p"
  note h = assms(2) [unfolded w holds_written_def, folded r_def]
  have sec: "r ! 2 AND 0x7F = pcf8563_binary_to_bcd (second c)" "r ! 2 AND 0x80 = 0"
    using h bcd(1) high_bit_clear(2) by (simp_all add: bcd_fits_def)
  have rest: "r ! 3 AND 0x7F = pcf8563_binary_to_bcd (minute c)" "r ! 4 AND 0x3F = pcf8563_binary_to_bcd (hour c)"
    "r ! 5 AND 0x3F = pcf8563_binary_to_bcd (day c)" "r ! 8 = pcf8563_binary_to_bcd (ucast (year c mod 100))"
    using h bcd by (simp_all add: bcd_fits_def)
  have month: "r ! 7 AND 0x1F = pcf8563_binary_to_bcd (month c)" "(r ! 7 AND 0x80 \<noteq> 0) = (2100 \<le> year c)"
    using month_and_century [of "pcf8563_binary_to_bcd (month c)" "r ! 7" "2100 \<le> year c"] h bcd(5)
    by (simp_all add: bcd_fits_def PCF8563_CENTURY_def)
  have stop: "r ! 0 AND 0x20 = control AND 0x20" using h by (simp add: PCF8563_STOP_def)
  have "second c \<le> 59" using b(7) by (simp add: word_less_nat_alt word_le_nat_alt)
  moreover have "\<lparr>year = 2000 + ucast (ucast (year c mod 100) :: u8) + (if 2100 \<le> year c then 100 else 0), month = month c,
      day = day c, hour = hour c, minute = minute c, second = second c\<rparr> = c"
    by (simp only: year_parts(1) [OF b(1,2)]) simp
  ultimately show ?thesis
    using bcd v again stop
    by (simp add: decode_registers_def Let_def r_def [symmetric] sec rest month bcd_fits_def not_less
        PCF8563_VL_def PCF8563_STOP_def PCF8563_CENTURY_def)
qed

section \<open>A write and its read-back\<close>

lemma write_accepted:
  assumes "none_in_flight p" "\<not> pcf8563_busy p" "PCF8563_FIRST_UTC \<le> utc"
  shows "pcf8563_write utc p = (True, (encode_time utc 0 p)\<lparr>
    transfer_result := (transfer_result p)(WriteTransfer := I2C_QUEUED), request := PCF8563_WRITING, report_next := True\<rparr>)"
  using assms start_accepted [of "encode_time utc 0 p" WriteTransfer PCF8563_WRITING]
  by (simp add: pcf8563_write_def not_less)

lemma service_written:
  assumes "request p = PCF8563_WRITING" "transfer_result p WriteTransfer = I2C_OK" "\<not> in_flight ReadTransfer p"
  shows "\<exists>q. snd (pcf8563_service now p) = q\<lparr>transfer_result := (transfer_result q)(ReadTransfer := I2C_QUEUED), request := PCF8563_READING\<rparr>
    \<and> transfer_result q WriteTransfer = I2C_OK"
proof -
  define p2 where "p2 = note_result I2C_OK now p"
  define q where "q = p2\<lparr>writes := writes p2 + 1, request := PCF8563_DONE\<rparr>"
  have "\<not> in_flight ReadTransfer q" using assms(3) by (simp add: q_def p2_def)
  then have st: "start_transfer ReadTransfer PCF8563_READING q
      = (True, q\<lparr>transfer_result := (transfer_result q)(ReadTransfer := I2C_QUEUED), request := PCF8563_READING\<rparr>)"
    by (simp add: start_transfer_def i2c1_submit_def)
  have "finish_transfer WriteTransfer now p = (False, q\<lparr>transfer_result := (transfer_result q)(ReadTransfer := I2C_QUEUED), request := PCF8563_READING\<rparr>)"
    using assms(1,2) by (simp add: finish_transfer_def Let_def p2_def [symmetric] q_def [symmetric] st)
      (simp add: p2_def)
  moreover have "transfer_result q WriteTransfer = I2C_OK" using assms(2) by (simp add: q_def p2_def note_result_def)
  ultimately show ?thesis
    using assms(1,2)
    by (intro exI [of _ q]) (simp add: pcf8563_service_def i2c1_done_def in_flight_def pcf8563_busy_def Let_def)
qed

lemma service_read:
  assumes "request p = PCF8563_READING" "transfer_result p ReadTransfer = I2C_OK"
  shows "\<exists>q. fst (pcf8563_service now p) \<and> registers q = registers p \<and> start_stamp q = start_stamp p
    \<and> calendar_valid (snd (pcf8563_service now p)) = calendar_valid (decode_registers q)
    \<and> chip_time_valid (snd (pcf8563_service now p)) = chip_time_valid (decode_registers q)
    \<and> stopped (snd (pcf8563_service now p)) = stopped (decode_registers q)
    \<and> chip_utc (snd (pcf8563_service now p)) = chip_utc (decode_registers q)
    \<and> read_stamp (snd (pcf8563_service now p)) = start_stamp p \<and> \<not> pcf8563_busy (snd (pcf8563_service now p))"
proof -
  define p2 where "p2 = note_result I2C_OK now p"
  define q where "q = p2\<lparr>reads := reads p2 + 1, read_ms := now, read_stamp := start_stamp p2, request := PCF8563_DONE\<rparr>"
  have f: "finish_transfer ReadTransfer now p = (True, decode_registers q)"
    using assms by (simp add: finish_transfer_def Let_def p2_def [symmetric] q_def [symmetric]) (simp add: p2_def)
  have "last_attempt_ms (decode_registers q) = now" "read_stamp (decode_registers q) = start_stamp p"
    by (simp_all add: decode_registers_def q_def p2_def note_result_def Let_def)
  then have "pcf8563_service now p = (True, if report_next (decode_registers q)
      then (decode_registers q)\<lparr>report_next := False, report_due := True\<rparr> else decode_registers q)"
    using assms by (simp add: pcf8563_service_def f i2c1_done_def in_flight_def Let_def
        PCF8563_READ_INTERVAL_MS_def PCF8563_DETECT_INTERVAL_MS_def)
  moreover have "registers q = registers p" "start_stamp q = start_stamp p" "request q = PCF8563_DONE"
    by (simp_all add: q_def p2_def note_result_def Let_def)
  ultimately show ?thesis using \<open>read_stamp (decode_registers q) = start_stamp p\<close>
    by (intro exI [of _ q]) (simp add: pcf8563_busy_def)
qed

section \<open>Claims\<close>

text \<open>The driver's statics at start-up, before the first read is started.\<close>

definition chip_statics :: Pcf8563 where
  "chip_statics = \<lparr>chip_present = False, calendar_valid = False, chip_time_valid = False, voltage_low = False, stopped = False,
     century = False, chip_utc = 0, read_ms = 0, read_stamp = 0, registers = replicate 9 0, request = PCF8563_NONE,
     last_result = I2C_IDLE, reads = 0, writes = 0, releases = 0, failures = 0, write_buffer = replicate 10 0,
     transfer_result = (\<lambda>_. I2C_IDLE), start_stamp = 0, last_attempt_ms = 0, report_next = False, report_due = False, auto_read = True\<rparr>"

lemma init_one: "one_transfer (pcf8563_init now chip_statics)"
  unfolding pcf8563_init_def by (rule read_one) (simp add: one_transfer_def in_flight_def chip_statics_def)

text \<open>
  C35: A time written is the time read: whatever the driver did before, when it is not busy a time of
  2000 to 2106 is accepted, and once the bus has carried it, the next two services read it back; with
  the chip holding the fields it was given, its unused bits being anything, the status shows that
  second, valid, stamped with the start of the read.
\<close>

theorem written_time_read_back:
  assumes "p = fold chip_step es (pcf8563_init start chip_statics)" "\<not> pcf8563_busy p" "PCF8563_FIRST_UTC \<le> utc"
    "holds_written r (drop 1 (write_buffer (snd (pcf8563_write utc p))))"
  shows "case fold chip_step [WriteTime utc, BusTakes WriteTransfer, BusEnds WriteTransfer I2C_OK [] s, Service n1,
        BusTakes ReadTransfer, BusEnds ReadTransfer I2C_OK r stamp] p of p' \<Rightarrow>
      fst (pcf8563_write utc p) \<and> fst (pcf8563_service n2 p')
      \<and> calendar_valid (chip_step (Service n2) p') \<and> chip_time_valid (chip_step (Service n2) p')
      \<and> chip_utc (chip_step (Service n2) p') = utc \<and> read_stamp (chip_step (Service n2) p') = stamp
      \<and> \<not> pcf8563_busy (chip_step (Service n2) p')"
proof -
  have "one_transfer p" unfolding assms(1) by (rule chip.run_invar) (simp_all add: init_one list_all_iff)
  then have none: "none_in_flight p" using assms(2) by (rule idle_none)
  note w = write_accepted [OF none assms(2,3)]
  define p3 where "p3 = fold chip_step [WriteTime utc, BusTakes WriteTransfer, BusEnds WriteTransfer I2C_OK [] s] p"
  have p3: "request p3 = PCF8563_WRITING" "transfer_result p3 WriteTransfer = I2C_OK" "\<not> in_flight ReadTransfer p3"
    using none by (simp_all add: p3_def w bus_ends_def in_flight_def none_in_flight_def)
  obtain q where q: "snd (pcf8563_service n1 p3) = q\<lparr>transfer_result := (transfer_result q)(ReadTransfer := I2C_QUEUED), request := PCF8563_READING\<rparr>"
    using service_written [OF p3] by blast
  define p6 where "p6 = fold chip_step [BusTakes ReadTransfer, BusEnds ReadTransfer I2C_OK r stamp] (snd (pcf8563_service n1 p3))"
  have p6: "request p6 = PCF8563_READING" "transfer_result p6 ReadTransfer = I2C_OK" "registers p6 = r" "start_stamp p6 = stamp"
    by (simp_all add: p6_def q bus_ends_def)
  have "holds_written r (drop 1 (write_buffer (encode_time utc 0 p)))" using assms(4) by (simp add: w)
  then have "calendar_valid (decode_registers x) \<and> chip_utc (decode_registers x) = utc \<and> chip_time_valid (decode_registers x)"
    if "registers x = registers p6" for x
    using decode_encoded [OF assms(3), of x 0 p] that p6(3) by simp
  moreover have "fold chip_step [WriteTime utc, BusTakes WriteTransfer, BusEnds WriteTransfer I2C_OK [] s, Service n1,
        BusTakes ReadTransfer, BusEnds ReadTransfer I2C_OK r stamp] p = p6"
    by (simp add: p6_def p3_def)
  ultimately show ?thesis using service_read [OF p6(1,2), of n2] p6(4) w by auto
qed

text \<open>The chip keeps the bytes and raises every bit it does not use.\<close>

definition noisy :: "u8 list \<Rightarrow> u8 list" where
  "noisy w = [w ! 0 OR 0x57, 0, w ! 2, w ! 3 OR 0x80, w ! 4 OR 0xC0, w ! 5 OR 0xC0, 0xFF, w ! 7 OR 0x60, w ! 8]"

lemma noisy_holds: "length w = 9 \<Longrightarrow> holds_written (noisy w) w"
  by (simp add: holds_written_def noisy_def bit.conj_disj_distrib2 PCF8563_STOP_def)

theorem written_time_read_back_witness:
  "\<exists>p' :: Pcf8563. calendar_valid p' \<and> chip_time_valid p' \<and> chip_utc p' = 1900000000 \<and> read_stamp p' = 77"
proof -
  define p where "p = fold chip_step [BusTakes ReadTransfer, BusEnds ReadTransfer I2C_NACK_ADDRESS [] 0, Service 2] (pcf8563_init 1 chip_statics)"
  have busy: "\<not> pcf8563_busy p" by (simp add: p_def, code_simp)
  have len: "length (drop 1 (write_buffer (snd (pcf8563_write 1900000000 p)))) = 9"
    using busy by (auto simp: pcf8563_write_def PCF8563_FIRST_UTC_def encode_time_def start_transfer_def i2c1_submit_def Let_def
      split: prod.split bool.split)
  have "PCF8563_FIRST_UTC \<le> 1900000000" by (simp add: PCF8563_FIRST_UTC_def)
  from written_time_read_back [OF p_def busy this noisy_holds [OF len], of 4 0 3 77] show ?thesis by blast
qed

text \<open>
  One request at a time: whatever is asked of the driver and whenever the bus answers, a request
  is accepted exactly when none is in progress, the transfer on the bus is the one of the
  request, and the bytes it sends are not changed before it has ended.
\<close>

theorem transfers_undisturbed:
  "case fold chip_step es (pcf8563_init start chip_statics) of p \<Rightarrow>
     fst (pcf8563_read p) = (\<not> pcf8563_busy p) \<and> fst (pcf8563_release p) = (\<not> pcf8563_busy p)
     \<and> fst (pcf8563_write utc p) = (\<not> pcf8563_busy p \<and> PCF8563_FIRST_UTC \<le> utc)
     \<and> fst (pcf8563_write_stopped utc p) = (\<not> pcf8563_busy p \<and> PCF8563_FIRST_UTC \<le> utc)
     \<and> (in_flight t p \<longrightarrow> transfer_of (request p) = Some t \<and> write_buffer (chip_step e p) = write_buffer p)"
proof -
  define p where "p = fold chip_step es (pcf8563_init start chip_statics)"
  have one: "one_transfer p" unfolding p_def by (rule chip.run_invar) (simp_all add: init_one list_all_iff)
  then have none: "\<not> pcf8563_busy p \<Longrightarrow> none_in_flight p" by (simp add: idle_none)
  have "in_flight t p \<Longrightarrow> transfer_of (request p) = Some t \<and> write_buffer (chip_step e p) = write_buffer p"
    using one step_buffer [of p e] by (auto simp: one_transfer_def busy_transfer)
  then show ?thesis
    unfolding p_def [symmetric] using none
    by (auto simp: pcf8563_read_def pcf8563_release_def pcf8563_write_def pcf8563_write_stopped_def start_accepted
        not_less split: prod.splits bool.splits)
qed

end
