(* ===== verification/Rtc.thy ===== *)
theory Rtc
  imports Sync Rtc_Chip "HOL-Library.While_Combinator"
begin

text \<open>
  The real-time clock as a time source, and keeping it set (\<open>dspic_src/sync/source_rtc.c\<close>): the search
  for its second by repeated reads, its rate, its time against UTC with a bound, and the aligned
  write, loaded stopped and released so that its next second falls on an epoch. The operations act on
  the source's state and the driver's. Debug output and printing are left out.
\<close>

section \<open>The code: constants and state\<close>

definition SOURCE_RTC_TICKS_PER_US :: u32 where "SOURCE_RTC_TICKS_PER_US = TIMING_NOMINAL_TICKS div 1000000"
definition SECOND_TICKS :: u32 where "SECOND_TICKS = TIMING_NOMINAL_TICKS"
definition PCF8563_START_DELAY_NS :: u32 where "PCF8563_START_DELAY_NS = 492187500"
definition START_DELAY_TICKS :: int where
  "START_DELAY_TICKS = sint (PCF8563_START_DELAY_NS div (1000 div SOURCE_RTC_TICKS_PER_US))"
definition NS_PER_TICK :: int where "NS_PER_TICK = 1000 sdiv sint SOURCE_RTC_TICKS_PER_US"
definition RTC_NS_PER_SECOND :: int where "RTC_NS_PER_SECOND = 1000000000"
definition SOURCE_RTC_UNCERTAINTY_NS :: u32 where "SOURCE_RTC_UNCERTAINTY_NS = 999000000"
definition SOURCE_RTC_ALLOWANCE_PPM :: u64 where "SOURCE_RTC_ALLOWANCE_PPM = 10"
definition SOURCE_RTC_BOUND_MAX_NS :: u32 where "SOURCE_RTC_BOUND_MAX_NS = 0xFFFFFFFE"
definition SOURCE_RTC_SEARCH_RESOLUTION_TICKS :: u32 where "SOURCE_RTC_SEARCH_RESOLUTION_TICKS = 2000 * SOURCE_RTC_TICKS_PER_US"
definition SOURCE_RTC_SEARCH_EPOCHS :: u32 where "SOURCE_RTC_SEARCH_EPOCHS = 4"
definition SOURCE_RTC_READ_LATCH_TICKS :: u32 where "SOURCE_RTC_READ_LATCH_TICKS = 25 * SOURCE_RTC_TICKS_PER_US"
definition SOURCE_RTC_CHECK_EPOCHS :: u32 where "SOURCE_RTC_CHECK_EPOCHS = 21600"
definition SOURCE_RTC_CHECK_MIN_EPOCHS :: u32 where "SOURCE_RTC_CHECK_MIN_EPOCHS = 600"
definition SOURCE_RTC_DRIFT_LIMIT_MS :: u64 where "SOURCE_RTC_DRIFT_LIMIT_MS = 500"
definition SOURCE_RTC_RATE_MIN_SECONDS :: u32 where "SOURCE_RTC_RATE_MIN_SECONDS = 300"
definition SOURCE_RTC_RATE_EPOCHS :: u32 where "SOURCE_RTC_RATE_EPOCHS = 600"
definition SOURCE_RTC_RATE_LIMIT_PPM :: int where "SOURCE_RTC_RATE_LIMIT_PPM = 500"
definition SOURCE_RTC_SECOND_MAX_AGE_EPOCHS :: u32 where "SOURCE_RTC_SECOND_MAX_AGE_EPOCHS = SOURCE_RTC_CHECK_EPOCHS + 3600"
definition SOURCE_RTC_SETTLE_EPOCHS :: u32 where "SOURCE_RTC_SETTLE_EPOCHS = 60"
definition SOURCE_RTC_RETRY_EPOCHS :: u32 where "SOURCE_RTC_RETRY_EPOCHS = 60"
definition SOURCE_RTC_RESYNC_MS :: int where "SOURCE_RTC_RESYNC_MS = 10"
definition SOURCE_RTC_SYNC_ATTEMPTS :: u8 where "SOURCE_RTC_SYNC_ATTEMPTS = 3"
definition SOURCE_RTC_ALIGN_TOLERANCE_TICKS :: int where "SOURCE_RTC_ALIGN_TOLERANCE_TICKS = 2000 * sint SOURCE_RTC_TICKS_PER_US"
definition SOURCE_RTC_RELEASE_LATENCY_TICKS :: int where "SOURCE_RTC_RELEASE_LATENCY_TICKS = 70 * sint SOURCE_RTC_TICKS_PER_US"
definition SOURCE_RTC_RELEASE_EARLIEST_TICKS :: int where
  "SOURCE_RTC_RELEASE_EARLIEST_TICKS = sint (50 * 1000 * SOURCE_RTC_TICKS_PER_US)"
definition SOURCE_RTC_SPIN_TICKS :: int where "SOURCE_RTC_SPIN_TICKS = 2000 * sint SOURCE_RTC_TICKS_PER_US"
definition SOURCE_RTC_LATE_TICKS :: int where "SOURCE_RTC_LATE_TICKS = 100 * sint SOURCE_RTC_TICKS_PER_US"
definition SOURCE_RTC_CORRECTION_LIMIT_TICKS :: int where
  "SOURCE_RTC_CORRECTION_LIMIT_TICKS = 600 * 1000 * sint SOURCE_RTC_TICKS_PER_US"
definition OFFSET_LIMIT_S :: int where "OFFSET_LIMIT_S = 2000000"

definition rate_limit :: int where
  "rate_limit = SOURCE_RTC_RATE_LIMIT_PPM * sint SOURCE_RTC_TICKS_PER_US * 256"

datatype SourceRtcActivity =
  SOURCE_RTC_IDLE | SOURCE_RTC_SEARCHING | SOURCE_RTC_LOADING | SOURCE_RTC_WAITING | SOURCE_RTC_RELEASING
  | SOURCE_RTC_CONFIRMING

datatype SearchPurpose = PURPOSE_MEASURE | PURPOSE_CHECK | PURPOSE_CONFIRM

record SourceRtcAnchor =
  an_valid :: bool
  an_aligned :: bool
  an_utc :: u32
  an_offset_ns :: int
  an_bound_ns :: u32

record SourceRtcKept =
  kept_anchor :: SourceRtcAnchor
  kept_rate_valid :: bool
  kept_rate_q8 :: int
  kept_write_valid :: bool
  kept_write_aligned :: bool
  kept_write_utc :: u32

record SourceRtcState =
  activity :: SourceRtcActivity
  second_valid :: bool
  second_stamp :: u32
  second_label :: u32
  second_edges :: u32
  measured_epoch :: u32
  resolution_ticks :: u32
  rate_valid :: bool
  rate_q8 :: int
  rate_updates :: u32
  baseline_valid :: bool
  baseline_stamp :: u32
  baseline_label :: u32
  offset_valid :: bool
  offset_ms :: int
  offset_epoch :: u32
  anchor :: SourceRtcAnchor
  kept_changes :: u32
  rtc_changes :: u32
  restored :: bool
  last_read_valid :: bool
  last_read_utc :: u32
  next_check_epoch :: u32
  rtc_attempts :: u8
  release_correction :: int
  last_write_valid :: bool
  last_write_aligned :: bool
  last_write_error :: int
  last_write_utc :: u32
  last_write_epoch :: u32
  rate_due :: bool
  rate_due_epoch :: u32
  searches :: u32
  searches_failed :: u32
  checks :: u32
  rtc_writes :: u32
  writes_failed :: u32
  plain_writes :: u32
  late_releases :: u32

record SourceRtc = SourceRtcState +
  oscillator_q16 :: int
  second_fraction_q8 :: int
  epoch_sequence :: u32
  epoch_valid :: bool
  epoch_stamp :: u32
  purpose :: SearchPurpose
  search_deadline :: u32
  sample_valid :: bool
  sample_utc :: u32
  sample_stamp :: u32
  reads_seen :: u32
  search_done :: bool
  search_found :: bool
  measure_due_epoch :: u32
  write_wanted :: bool
  plain_wanted :: bool
  release_target :: u32
  expect_stamp :: u32
  expect_label :: u32
  writes_seen :: u32
  releases_seen :: u32
  activity_epoch :: u32
  stopped_released :: bool
  set_by_command :: bool
  reads_dated :: u32
  was_synchronised :: bool
  corrections_seen :: u32

section \<open>The code: helpers\<close>

definition epoch_reached :: "u32 \<Rightarrow> SourceRtc \<Rightarrow> bool" where
  "epoch_reached epoch s \<longleftrightarrow> sint (epoch_sequence s - epoch) \<ge> 0"

definition check_by :: "u32 \<Rightarrow> SourceRtc \<Rightarrow> SourceRtc" where
  "check_by epoch s = (if sint (epoch - next_check_epoch s) < 0 then s\<lparr>next_check_epoch := epoch\<rparr> else s)"

definition writing :: "SourceRtc \<Rightarrow> bool" where
  "writing s \<longleftrightarrow> activity s = SOURCE_RTC_LOADING \<or> activity s = SOURCE_RTC_WAITING
     \<or> activity s = SOURCE_RTC_RELEASING \<or> activity s = SOURCE_RTC_CONFIRMING"

definition set_activity :: "SourceRtcActivity \<Rightarrow> SourceRtc \<Rightarrow> Pcf8563 \<Rightarrow> SourceRtc \<times> Pcf8563" where
  "set_activity a s p =
     (s\<lparr>activity := a, activity_epoch := epoch_sequence s\<rparr>, pcf8563_set_auto_read (a = SOURCE_RTC_IDLE) p)"

definition floor_div :: "int \<Rightarrow> int \<Rightarrow> int" where
  "floor_div a b = (if a \<ge> 0 then a sdiv b else - ((- a + b - 1) sdiv b))"

definition next_second :: "int \<Rightarrow> SourceRtc \<Rightarrow> u32 \<times> int" where
  "next_second fraction_q8 s =
     (let q = i32 (fraction_q8 + rate_q8 s); whole = floor_div q 256
      in (word_of_int (sint SECOND_TICKS + whole), q - whole * 256))"

definition learn_rate :: "u32 \<Rightarrow> u32 \<Rightarrow> SourceRtc \<Rightarrow> SourceRtc" where
  "learn_rate stamp label s =
     (let seconds = label - baseline_label s
      in if \<not> baseline_valid s \<or> seconds < SOURCE_RTC_RATE_MIN_SECONDS \<or> seconds > 200000 then s
         else let predicted = baseline_stamp s + seconds * SECOND_TICKS + word_of_int ((uint seconds * rate_q8 s) sdiv 256);
                  error = sint (stamp - predicted);
                  rate = rate_q8 s + (error * 256) sdiv uint seconds
              in if rate > rate_limit \<or> rate < - rate_limit then s
                 else s\<lparr>rate_q8 := i32 rate, rate_valid := True, rate_updates := rate_updates s + 1,
                        kept_changes := kept_changes s + 1\<rparr>)"

definition source_rtc_check_interval :: "SourceRtc \<Rightarrow> u32" where
  "source_rtc_check_interval s =
     (let ticks_per_second = word_of_int (if rate_q8 s < 0 then - rate_q8 s else rate_q8 s) div 256 :: u32
      in if \<not> rate_valid s \<or> ticks_per_second = 0 then SOURCE_RTC_CHECK_EPOCHS
         else let seconds = SOURCE_RTC_DRIFT_LIMIT_MS * ucast TIMING_TICKS_PER_MS div ucast ticks_per_second
              in if seconds > ucast SOURCE_RTC_CHECK_EPOCHS then SOURCE_RTC_CHECK_EPOCHS
                 else if seconds < ucast SOURCE_RTC_CHECK_MIN_EPOCHS then SOURCE_RTC_CHECK_MIN_EPOCHS
                 else ucast seconds)"

definition clamp_correction :: "int \<Rightarrow> int" where
  "clamp_correction ticks =
     (if ticks > SOURCE_RTC_CORRECTION_LIMIT_TICKS then SOURCE_RTC_CORRECTION_LIMIT_TICKS
      else if ticks < - SOURCE_RTC_CORRECTION_LIMIT_TICKS then - SOURCE_RTC_CORRECTION_LIMIT_TICKS
      else ticks)"

definition saturate_bound :: "u64 \<Rightarrow> u32" where
  "saturate_bound ns = (if ns > ucast SOURCE_RTC_BOUND_MAX_NS then SOURCE_RTC_BOUND_MAX_NS else ucast ns)"

definition rtc_changed :: "SourceRtc \<Rightarrow> SourceRtc" where
  "rtc_changed s = s\<lparr>anchor := (anchor s)\<lparr>an_valid := False\<rparr>, rtc_changes := rtc_changes s + 1, kept_changes := kept_changes s + 1\<rparr>"

definition wrote_plainly :: "u32 \<Rightarrow> SourceRtc \<Rightarrow> SourceRtc" where
  "wrote_plainly utc s =
     (rtc_changed s)\<lparr>anchor := \<lparr>an_valid = True, an_aligned = False, an_utc = utc, an_offset_ns = 0,
                                an_bound_ns = SOURCE_RTC_UNCERTAINTY_NS\<rparr>,
       last_write_valid := True, last_write_aligned := False, last_write_utc := utc, last_write_epoch := epoch_sequence s\<rparr>"

definition anchor_found :: "SyncTime \<Rightarrow> u32 \<Rightarrow> SourceRtc \<Rightarrow> SourceRtc" where
  "anchor_found t clock_bound_ns s =
     (if \<not> epoch_valid s \<or> clock_bound_ns = SYNC_BOUND_NONE then s
      else s\<lparr>anchor := \<lparr>an_valid = True, an_aligned = True, an_utc = second_label s,
               an_offset_ns = sint (time_utc t - second_label s) * RTC_NS_PER_SECOND
                              + sint (second_stamp s - epoch_stamp s) * NS_PER_TICK,
               an_bound_ns = saturate_bound (ucast clock_bound_ns + ucast (resolution_ticks s) * word_of_int NS_PER_TICK div 2)\<rparr>,
             kept_changes := kept_changes s + 1\<rparr>)"

definition predict :: "u32 \<Rightarrow> SourceRtc \<Rightarrow> (int \<times> u32) option" where
  "predict label s =
     (let elapsed = sint (label - an_utc (anchor s));
          allowance = (if rate_valid s then SOURCE_RTC_ALLOWANCE_PPM else word_of_int SOURCE_RTC_RATE_LIMIT_PPM)
      in if \<not> an_valid (anchor s) \<or> elapsed < 0 then None
         else Some (an_offset_ns (anchor s)
                      + (if rate_valid s then (elapsed * (rate_q8 s - oscillator_q16 s sdiv 256) * NS_PER_TICK) sdiv 256 else 0),
                    saturate_bound (ucast (an_bound_ns (anchor s)) + word_of_int elapsed * allowance * 1000)))"

definition current_label :: "SourceRtc \<Rightarrow> Pcf8563 \<Rightarrow> u32 option" where
  "current_label s p =
     (if \<not> chip_time_valid p then None else Some (if second_valid s then second_label s else chip_utc p))"

definition bound_at :: "u32 \<Rightarrow> SourceRtc \<Rightarrow> u32" where
  "bound_at label s =
     (case predict label s of
        None \<Rightarrow> SOURCE_RTC_UNCERTAINTY_NS
      | Some (offset, bound) \<Rightarrow>
          if second_valid s
          then saturate_bound (ucast bound + ucast (resolution_ticks s) * word_of_int NS_PER_TICK div 2)
          else bound)"

section \<open>The code: searching for its second\<close>

definition start_search :: "SearchPurpose \<Rightarrow> u32 \<Rightarrow> SourceRtc \<Rightarrow> Pcf8563 \<Rightarrow> SourceRtc \<times> Pcf8563" where
  "start_search why n s p =
     (let s1 = s\<lparr>purpose := why, search_deadline := epoch_sequence s + n, sample_valid := False, reads_seen := reads p,
                 search_done := False, searches := searches s + 1\<rparr>;
          (s2, p2) = set_activity (if why = PURPOSE_CONFIRM then SOURCE_RTC_CONFIRMING else SOURCE_RTC_SEARCHING) s1 p
      in (s2, snd (pcf8563_read p2)))"

definition end_search :: "bool \<Rightarrow> SourceRtc \<Rightarrow> Pcf8563 \<Rightarrow> SourceRtc \<times> Pcf8563" where
  "end_search success s p =
     (let s1 = s\<lparr>search_done := True, search_found := success\<rparr>;
          s2 = (if \<not> success then s1\<lparr>searches_failed := searches_failed s1 + 1\<rparr> else s1)
      in set_activity SOURCE_RTC_IDLE s2 p)"

definition second_found :: "u32 \<Rightarrow> u32 \<Rightarrow> u32 \<Rightarrow> SourceRtc \<Rightarrow> Pcf8563 \<Rightarrow> SourceRtc \<times> Pcf8563" where
  "second_found stamp label resolution s p =
     (let s1 = (if second_valid s
                then let apart = sint (stamp - second_stamp s);
                         seconds = i32 (apart + sint (SECOND_TICKS div 2)) sdiv sint SECOND_TICKS
                     in s\<lparr>second_edges := second_edges s + word_of_int (if seconds > 0 then seconds else 0)\<rparr>
                else s\<lparr>second_edges := second_edges s + 1\<rparr>);
          s2 = (if purpose s1 \<noteq> PURPOSE_CONFIRM then learn_rate stamp label s1 else s1)
      in end_search True
           (s2\<lparr>baseline_valid := True, baseline_stamp := stamp, baseline_label := label, second_fraction_q8 := 0,
               second_valid := True, second_stamp := stamp, second_label := label, measured_epoch := epoch_sequence s2,
               resolution_ticks := resolution\<rparr>) p)"

definition take_sample :: "SourceRtc \<Rightarrow> Pcf8563 \<Rightarrow> SourceRtc \<times> Pcf8563" where
  "take_sample s p =
     (let kept = s\<lparr>sample_valid := True, sample_utc := chip_utc p, sample_stamp := read_stamp p\<rparr>
      in if \<not> calendar_valid p \<or> stopped p then (s\<lparr>sample_valid := False\<rparr>, p)
         else if sample_valid s \<and> chip_utc p = sample_utc s + 1 then
           let gap = read_stamp p - sample_stamp s
           in if gap \<le> SOURCE_RTC_SEARCH_RESOLUTION_TICKS
              then second_found (sample_stamp s + gap div 2 + SOURCE_RTC_READ_LATCH_TICKS) (chip_utc p) gap s p
              else (kept, p)
         else (kept, p))"

definition keep_searching :: "SourceRtc \<Rightarrow> Pcf8563 \<Rightarrow> SourceRtc \<times> Pcf8563" where
  "keep_searching s p =
     (let (s1, p1) = (if reads p \<noteq> reads_seen s then take_sample (s\<lparr>reads_seen := reads p\<rparr>) p else (s, p))
      in if activity s1 \<noteq> SOURCE_RTC_SEARCHING \<and> activity s1 \<noteq> SOURCE_RTC_CONFIRMING then (s1, p1)
         else if \<not> pcf8563_busy p1 then
           if \<not> chip_present p1 then end_search False s1 p1 else (s1, snd (pcf8563_read p1))
         else (s1, p1))"

section \<open>The code: aligned writing\<close>

definition abort_write :: "SourceRtc \<Rightarrow> Pcf8563 \<Rightarrow> SourceRtc \<times> Pcf8563" where
  "abort_write s p =
     (let (s1, p1) = set_activity SOURCE_RTC_IDLE
                       (s\<lparr>writes_failed := writes_failed s + 1, rtc_attempts := rtc_attempts s + 1\<rparr>) p
      in (if rtc_attempts s1 < SOURCE_RTC_SYNC_ATTEMPTS then s1\<lparr>write_wanted := True\<rparr> else s1\<lparr>plain_wanted := True\<rparr>, p1))"

text \<open>How many seconds on the first increment is to fall: the loop, which ends for every correction in
  its limits (\<open>release_loop_ends\<close>).\<close>

definition release_epochs :: "int \<Rightarrow> u32 option" where
  "release_epochs delay =
     while_option (\<lambda>n. sint (n * SECOND_TICKS) - delay < SOURCE_RTC_RELEASE_EARLIEST_TICKS) (\<lambda>n. n + 1) 1"

definition release_delay :: "SourceRtc \<Rightarrow> int" where
  "release_delay s = START_DELAY_TICKS + release_correction s + SOURCE_RTC_RELEASE_LATENCY_TICKS"

definition planned_write :: "u32 \<Rightarrow> SyncTime \<Rightarrow> Pcf8563 \<Rightarrow> SourceRtc \<Rightarrow> SourceRtc" where
  "planned_write n t p s =
     (rtc_changed (s\<lparr>baseline_valid := False\<rparr>))
       \<lparr>release_target := epoch_stamp s + n * SECOND_TICKS - word_of_int (release_delay s),
        expect_stamp := epoch_stamp s + n * SECOND_TICKS, expect_label := time_utc t + n, writes_seen := writes p\<rparr>"

definition load_write :: "SourceRtc \<Rightarrow> Pcf8563 \<Rightarrow> SourceRtc \<times> Pcf8563" where
  "load_write s p =
     (let (s1, p1) = set_activity SOURCE_RTC_LOADING s p; (ok, p2) = pcf8563_write_stopped (expect_label s1 - 1) p1
      in if ok then (s1, p2) else abort_write s1 p2)"

definition begin_write :: "SyncTime \<Rightarrow> SourceRtc \<Rightarrow> Pcf8563 \<Rightarrow> SourceRtc \<times> Pcf8563" where
  "begin_write t s0 p =
     (let s = s0\<lparr>write_wanted := False\<rparr>; label = time_utc t
      in case release_epochs (release_delay s) of
           None \<Rightarrow> (s, p)
         | Some n \<Rightarrow>
             if change (time_leap t) \<noteq> 0 \<and> event_utc (time_leap t) > label \<and> event_utc (time_leap t) - label \<le> n + 1
             then (s\<lparr>write_wanted := True\<rparr>, p)
             else load_write (planned_write n t p s) p)"

text \<open>\<open>now\<close> is the timebase at the check. The loop that then spins until the timebase has reached the
  target changes nothing; the release goes out after it.\<close>

definition wait_release :: "u32 \<Rightarrow> SourceRtc \<Rightarrow> Pcf8563 \<Rightarrow> SourceRtc \<times> Pcf8563" where
  "wait_release now s p =
     (let remaining = sint (release_target s - now)
      in if remaining > SOURCE_RTC_SPIN_TICKS then (s, p)
         else if remaining < - SOURCE_RTC_LATE_TICKS then abort_write (s\<lparr>late_releases := late_releases s + 1\<rparr>) p
         else let (ok, p1) = pcf8563_release p; s1 = s\<lparr>releases_seen := releases p\<rparr>
              in if ok then set_activity SOURCE_RTC_RELEASING s1 p1 else abort_write s1 p1)"

section \<open>The code: results, at the epoch\<close>

definition measure_offset :: "SyncTime \<Rightarrow> SourceRtc \<Rightarrow> SourceRtc" where
  "measure_offset t s =
     (if \<not> known t \<or> \<not> epoch_valid s \<or> \<not> second_valid s then s\<lparr>offset_valid := False\<rparr>
      else let seconds = sint (second_label s - time_utc t);
               delta_ms = sint (second_stamp s - epoch_stamp s) sdiv sint TIMING_TICKS_PER_MS
           in s\<lparr>offset_ms := (if seconds > OFFSET_LIMIT_S then OFFSET_LIMIT_S * 1000
                              else if seconds < - OFFSET_LIMIT_S then - OFFSET_LIMIT_S * 1000
                              else seconds * 1000 - delta_ms),
                offset_valid := True, offset_epoch := epoch_sequence s\<rparr>)"

definition landing_error :: "SourceRtc \<Rightarrow> int" where
  "landing_error s = sint (second_stamp s - expect_stamp s)"

definition landed_within :: "SourceRtc \<Rightarrow> bool" where
  "landed_within s \<longleftrightarrow> landing_error s \<le> SOURCE_RTC_ALIGN_TOLERANCE_TICKS \<and> landing_error s \<ge> - SOURCE_RTC_ALIGN_TOLERANCE_TICKS"

definition learn_delay :: "SourceRtc \<Rightarrow> SourceRtc" where
  "learn_delay s =
     (let error = landing_error s
      in if second_label s = expect_label s
         then s\<lparr>release_correction := clamp_correction (i32 (release_correction s + (if landed_within s then error sdiv 2 else error))),
                last_write_error := error\<rparr>
         else s)"

definition confirmed :: "SourceRtc \<Rightarrow> SourceRtc" where
  "confirmed s =
     (let label_ok = (second_label s = expect_label s); within = landed_within s; s1 = learn_delay s
      in if label_ok \<and> within
         then s1\<lparr>rtc_writes := rtc_writes s1 + 1, rtc_attempts := 0, last_write_valid := True, last_write_aligned := True,
                 last_write_utc := expect_label s1, last_write_epoch := epoch_sequence s1, kept_changes := kept_changes s1 + 1,
                 next_check_epoch := epoch_sequence s1 + source_rtc_check_interval s1, rate_due := True,
                 rate_due_epoch := epoch_sequence s1 + SOURCE_RTC_RATE_EPOCHS\<rparr>
         else let s2 = s1\<lparr>writes_failed := writes_failed s1 + 1, rtc_attempts := rtc_attempts s1 + 1\<rparr>
              in if rtc_attempts s2 < SOURCE_RTC_SYNC_ATTEMPTS then s2\<lparr>write_wanted := True\<rparr>
                 else if \<not> label_ok then s2\<lparr>plain_wanted := True\<rparr>
                 else s2\<lparr>rtc_attempts := 0, next_check_epoch := epoch_sequence s2 + source_rtc_check_interval s2\<rparr>)"

definition search_result :: "SyncTime \<Rightarrow> bool \<Rightarrow> u32 \<Rightarrow> SourceRtc \<Rightarrow> Pcf8563 \<Rightarrow> SourceRtc \<times> Pcf8563" where
  "search_result t synchronised clock_bound_ns s0 p =
     (let s = s0\<lparr>search_done := False\<rparr>
      in if \<not> search_found s then
           if purpose s = PURPOSE_CONFIRM then abort_write s p
           else let s1 = s\<lparr>measure_due_epoch := epoch_sequence s + SOURCE_RTC_RETRY_EPOCHS\<rparr>
                in (if purpose s = PURPOSE_CHECK then s1\<lparr>next_check_epoch := epoch_sequence s + SOURCE_RTC_RETRY_EPOCHS\<rparr> else s1, p)
         else
           let s1 = measure_offset t s;
               s2 = (if synchronised then anchor_found t clock_bound_ns s1 else s1)
           in if purpose s2 = PURPOSE_CONFIRM then (confirmed s2, p)
              else if purpose s2 \<noteq> PURPOSE_CHECK then
                (if rate_valid s2 \<and> last_write_valid s2
                 then check_by (last_write_epoch s2 + source_rtc_check_interval s2) s2 else s2, p)
              else let s3 = s2\<lparr>next_check_epoch := epoch_sequence s2 + source_rtc_check_interval s2\<rparr>
                   in (if synchronised \<and> offset_valid s3
                          \<and> (\<not> chip_time_valid p \<or> offset_ms s3 > SOURCE_RTC_RESYNC_MS \<or> offset_ms s3 < - SOURCE_RTC_RESYNC_MS)
                       then s3\<lparr>rtc_attempts := 0, write_wanted := True\<rparr> else s3, p))"

section \<open>The code: the interface\<close>

definition rtc_state_cleared :: SourceRtcState where
  "rtc_state_cleared =
     \<lparr>activity = SOURCE_RTC_IDLE, second_valid = False, second_stamp = 0, second_label = 0, second_edges = 0,
      measured_epoch = 0, resolution_ticks = 0, rate_valid = False, rate_q8 = 0, rate_updates = 0, baseline_valid = False,
      baseline_stamp = 0, baseline_label = 0, offset_valid = False, offset_ms = 0, offset_epoch = 0,
      anchor = \<lparr>an_valid = False, an_aligned = False, an_utc = 0, an_offset_ns = 0, an_bound_ns = 0\<rparr>, kept_changes = 0,
      rtc_changes = 0, restored = False, last_read_valid = False, last_read_utc = 0, next_check_epoch = 0, rtc_attempts = 0,
      release_correction = 0, last_write_valid = False, last_write_aligned = False, last_write_error = 0, last_write_utc = 0,
      last_write_epoch = 0, rate_due = False, rate_due_epoch = 0, searches = 0, searches_failed = 0, checks = 0, rtc_writes = 0,
      writes_failed = 0, plain_writes = 0, late_releases = 0\<rparr>"

text \<open>The statics it does not mention keep their values: \<open>s\<close>.\<close>

definition source_rtc_init :: "SourceRtc \<Rightarrow> Pcf8563 \<Rightarrow> SourceRtc \<times> Pcf8563" where
  "source_rtc_init s p =
     set_activity SOURCE_RTC_IDLE
       ((SourceRtcState.extend rtc_state_cleared (SourceRtcState.more s))
         \<lparr>second_fraction_q8 := 0, oscillator_q16 := 0, next_check_epoch := SOURCE_RTC_CHECK_EPOCHS, epoch_sequence := 0,
          epoch_valid := False, search_done := False, write_wanted := False, plain_wanted := False, measure_due_epoch := 0,
          was_synchronised := False, corrections_seen := 0, stopped_released := False, set_by_command := False, reads_dated := 0\<rparr>) p"

definition source_rtc_set_oscillator :: "int \<Rightarrow> SourceRtc \<Rightarrow> SourceRtc" where
  "source_rtc_set_oscillator q s = s\<lparr>oscillator_q16 := q\<rparr>"

definition source_rtc_kept :: "SourceRtc \<Rightarrow> SourceRtcKept" where
  "source_rtc_kept s =
     \<lparr>kept_anchor = anchor s, kept_rate_valid = rate_valid s, kept_rate_q8 = rate_q8 s, kept_write_valid = last_write_valid s,
      kept_write_aligned = last_write_aligned s, kept_write_utc = last_write_utc s\<rparr>"

definition source_rtc_restore :: "SourceRtcKept \<Rightarrow> SourceRtc \<Rightarrow> SourceRtc" where
  "source_rtc_restore k s =
     (let ok = (kept_rate_valid k \<and> kept_rate_q8 k \<le> rate_limit \<and> kept_rate_q8 k \<ge> - rate_limit)
      in s\<lparr>anchor := kept_anchor k, rate_valid := ok, rate_q8 := (if ok then kept_rate_q8 k else 0),
           last_write_valid := kept_write_valid k, last_write_aligned := kept_write_aligned k,
           last_write_utc := kept_write_utc k, restored := True\<rparr>)"

definition source_rtc_reckoning :: "SourceRtc \<Rightarrow> Pcf8563 \<Rightarrow> u32 option" where
  "source_rtc_reckoning s p = current_label s p"

definition source_rtc_bound :: "SourceRtc \<Rightarrow> Pcf8563 \<Rightarrow> u32 option" where
  "source_rtc_bound s p = (case current_label s p of None \<Rightarrow> None | Some label \<Rightarrow> Some (bound_at label s))"

text \<open>The loop that counts the second on to the epoch: False when a fourth step was needed.\<close>

fun count_on :: "nat \<Rightarrow> u32 \<Rightarrow> SourceRtc \<Rightarrow> bool \<times> SourceRtc" where
  "count_on 0 capture s = (False, s\<lparr>second_valid := False\<rparr>)"
| "count_on (Suc left) capture s =
     (let (ticks, fraction) = next_second (second_fraction_q8 s) s
      in if sint (capture - (second_stamp s + ticks)) < 0 then (True, s)
         else count_on left capture
                (s\<lparr>second_fraction_q8 := fraction, second_stamp := second_stamp s + ticks,
                   second_label := second_label s + 1, second_edges := second_edges s + 1\<rparr>))"

definition source_rtc_report :: "TimingSnapshot \<Rightarrow> SourceRtc \<Rightarrow> Pcf8563 \<Rightarrow> SyncSourceReport \<times> SourceRtc" where
  "source_rtc_report snapshot s p =
     (let capture = snap_capture snapshot;
          r0 = no_report\<lparr>present := chip_present p, time_valid := chip_time_valid p \<and> \<not> writing s,
                         uncertainty_ns := SOURCE_RTC_UNCERTAINTY_NS\<rparr>
      in if \<not> second_valid s \<or> \<not> epoch_capture_valid capture then
           (case current_label s p of None \<Rightarrow> r0 | Some label \<Rightarrow> r0\<lparr>uncertainty_ns := bound_at label s\<rparr>, s)
         else let (kept, s1) = count_on 4 (epoch_capture capture) s
              in if \<not> kept \<or> writing s1 then (r0, s1)
                 else let r1 = r0\<lparr>edge := True, edge_number := second_edges s1, edge_stamp := second_stamp s1, labelled := True,
                                 utc_seconds := second_label s1, uncertainty_ns := bound_at (second_label s1) s1\<rparr>
                      in (case predict (second_label s1) s1 of
                            None \<Rightarrow> r1
                          | Some (offset, bound) \<Rightarrow>
                              let seconds = floor_div (offset + RTC_NS_PER_SECOND sdiv 2) RTC_NS_PER_SECOND
                              in r1\<lparr>utc_seconds := second_label s1 + word_of_int (i32 seconds),
                                    edge_offset_ns := i32 (offset - seconds * RTC_NS_PER_SECOND)\<rparr>, s1))"

text \<open>The parts of \<open>source_rtc_epoch\<close>, in order: what is noted of the epoch, the steps that ran out of
  time, the check that follows a synchronisation or a correction, and what an idle source does next.\<close>

definition epoch_noted :: "TimingSnapshot \<Rightarrow> SyncTime \<Rightarrow> SourceRtc \<Rightarrow> Pcf8563 \<Rightarrow> SourceRtc" where
  "epoch_noted snapshot t s p =
     (let s1 = s\<lparr>epoch_sequence := sample_sequence (snap_timer snapshot),
                 epoch_valid := epoch_capture_valid (snap_capture snapshot), epoch_stamp := epoch_capture (snap_capture snapshot)\<rparr>;
          s2 = (if reads p \<noteq> reads_dated s1
                then let s' = s1\<lparr>reads_dated := reads p\<rparr>
                     in if known t then s'\<lparr>last_read_valid := True, last_read_utc := time_utc t\<rparr> else s'
                else s1)
      in if second_valid s2 \<and> epoch_sequence s2 - measured_epoch s2 > SOURCE_RTC_SECOND_MAX_AGE_EPOCHS
         then s2\<lparr>second_valid := False\<rparr> else s2)"

definition epoch_timeouts :: "SourceRtc \<Rightarrow> Pcf8563 \<Rightarrow> SourceRtc \<times> Pcf8563" where
  "epoch_timeouts s p =
     (if (activity s = SOURCE_RTC_SEARCHING \<or> activity s = SOURCE_RTC_CONFIRMING) \<and> epoch_reached (search_deadline s) s
      then end_search False s p
      else if (activity s = SOURCE_RTC_LOADING \<or> activity s = SOURCE_RTC_WAITING \<or> activity s = SOURCE_RTC_RELEASING)
              \<and> epoch_reached (activity_epoch s + 4) s
      then abort_write s p else (s, p))"

definition epoch_settle :: "SyncTime \<Rightarrow> bool \<Rightarrow> SourceRtc \<Rightarrow> SourceRtc" where
  "epoch_settle t synchronised s =
     (let s1 = (if synchronised \<and> (\<not> was_synchronised s \<or> corrections t \<noteq> corrections_seen s)
                then check_by (epoch_sequence s + SOURCE_RTC_SETTLE_EPOCHS) s else s)
      in s1\<lparr>was_synchronised := synchronised, corrections_seen := corrections t\<rparr>)"

definition epoch_plain :: "SyncTime \<Rightarrow> bool \<Rightarrow> SourceRtc \<Rightarrow> Pcf8563 \<Rightarrow> SourceRtc \<times> Pcf8563" where
  "epoch_plain t synchronised s p =
     (let s1 = s\<lparr>plain_wanted := False, rtc_attempts := 0, next_check_epoch := epoch_sequence s + SOURCE_RTC_CHECK_EPOCHS\<rparr>
      in if \<not> synchronised then (s1, p)
         else let (ok, p1) = pcf8563_write (time_utc t) p
              in if ok then ((wrote_plainly (time_utc t) s1)\<lparr>plain_writes := plain_writes s1 + 1, second_valid := False,
                                baseline_valid := False\<rparr>, p1)
                 else (s1, p1))"

definition epoch_stopped :: "SourceRtc \<Rightarrow> Pcf8563 \<Rightarrow> SourceRtc \<times> Pcf8563" where
  "epoch_stopped s p =
     (if \<not> stopped_released s then
        let (ok, p1) = pcf8563_release p; s1 = s\<lparr>stopped_released := ok, second_valid := False\<rparr>
        in (if an_valid (anchor s1) then rtc_changed s1 else s1, p1)
      else let (ok, p1) = pcf8563_read p in (s\<lparr>stopped_released := \<not> ok\<rparr>, p1))"

definition epoch_idle :: "SyncTime \<Rightarrow> bool \<Rightarrow> SourceRtc \<Rightarrow> Pcf8563 \<Rightarrow> SourceRtc \<times> Pcf8563" where
  "epoch_idle t synchronised s p =
     (if plain_wanted s then epoch_plain t synchronised s p
      else if write_wanted s then
        if synchronised \<and> epoch_valid s then begin_write t s p
        else if \<not> synchronised then (s\<lparr>write_wanted := False, rtc_attempts := 0\<rparr>, p)
        else (s, p)
      else if calendar_valid p \<and> stopped p then epoch_stopped s p
      else if synchronised \<and> epoch_reached (next_check_epoch s) s then
        let s1 = s\<lparr>checks := checks s + 1\<rparr>
        in if \<not> chip_time_valid p then (s1\<lparr>rtc_attempts := 0, write_wanted := True\<rparr>, p)
           else start_search PURPOSE_CHECK SOURCE_RTC_SEARCH_EPOCHS s1 p
      else if rate_due s \<and> epoch_reached (rate_due_epoch s) s \<and> chip_time_valid p then
        start_search PURPOSE_MEASURE SOURCE_RTC_SEARCH_EPOCHS (s\<lparr>rate_due := False\<rparr>) p
      else if \<not> second_valid s \<and> chip_time_valid p \<and> epoch_reached (measure_due_epoch s) s then
        start_search PURPOSE_MEASURE SOURCE_RTC_SEARCH_EPOCHS s p
      else (s, p))"

definition source_rtc_epoch :: "TimingSnapshot \<Rightarrow> SyncTime \<Rightarrow> bool \<Rightarrow> u32 \<Rightarrow> SourceRtc \<Rightarrow> Pcf8563 \<Rightarrow> SourceRtc \<times> Pcf8563" where
  "source_rtc_epoch snapshot t sync clock_bound_ns s p =
     (let synchronised = (sync \<and> known t \<and> \<not> time_leap_second t);
          (s1, p1) = epoch_timeouts (epoch_noted snapshot t s p) p;
          (s2, p2) = (if search_done s1 then search_result t synchronised clock_bound_ns s1 p1 else (s1, p1));
          s3 = epoch_settle t synchronised s2
      in if activity s3 \<noteq> SOURCE_RTC_IDLE \<or> \<not> chip_present p2 \<or> pcf8563_busy p2 then (s3, p2)
         else epoch_idle t synchronised s3 p2)"

definition source_rtc_poll :: "u32 \<Rightarrow> SourceRtc \<Rightarrow> Pcf8563 \<Rightarrow> SourceRtc \<times> Pcf8563" where
  "source_rtc_poll now s p =
     (case activity s of
        SOURCE_RTC_IDLE \<Rightarrow>
          if searches s = 0 \<and> \<not> second_valid s \<and> reads p \<noteq> 0 \<and> chip_time_valid p \<and> \<not> pcf8563_busy p
          then start_search PURPOSE_MEASURE SOURCE_RTC_SEARCH_EPOCHS s p else (s, p)
      | SOURCE_RTC_SEARCHING \<Rightarrow> keep_searching s p
      | SOURCE_RTC_CONFIRMING \<Rightarrow> keep_searching s p
      | SOURCE_RTC_LOADING \<Rightarrow>
          if pcf8563_busy p then (s, p)
          else if writes p \<noteq> writes_seen s then set_activity SOURCE_RTC_WAITING s p else abort_write s p
      | SOURCE_RTC_WAITING \<Rightarrow> wait_release now s p
      | SOURCE_RTC_RELEASING \<Rightarrow>
          if pcf8563_busy p then (s, p)
          else if releases p \<noteq> releases_seen s then start_search PURPOSE_CONFIRM SOURCE_RTC_SEARCH_EPOCHS s p
          else abort_write s p)"

definition source_rtc_set :: "u32 \<Rightarrow> SourceRtc \<Rightarrow> Pcf8563 \<Rightarrow> bool \<times> SourceRtc \<times> Pcf8563" where
  "source_rtc_set utc s p =
     (if activity s \<noteq> SOURCE_RTC_IDLE then (False, s, p)
      else let (ok, p1) = pcf8563_write utc p
           in if \<not> ok then (False, s, p1)
              else (True, (wrote_plainly utc s)\<lparr>plain_writes := plain_writes s + 1, second_valid := False, baseline_valid := False,
                      measure_due_epoch := epoch_sequence s, write_wanted := False, plain_wanted := False, set_by_command := True\<rparr>, p1))"

definition source_rtc_take_set :: "SourceRtc \<Rightarrow> bool \<times> SourceRtc" where
  "source_rtc_take_set s = (set_by_command s, s\<lparr>set_by_command := False\<rparr>)"

section \<open>Constants\<close>

lemma rtc_ticks:
  "SOURCE_RTC_TICKS_PER_US = 40" "sint SECOND_TICKS = 40000000" "START_DELAY_TICKS = 19687500" "NS_PER_TICK = 25"
  "rate_limit = 5120000" "SOURCE_RTC_RELEASE_EARLIEST_TICKS = 2000000" "SOURCE_RTC_RELEASE_LATENCY_TICKS = 2800"
  "SOURCE_RTC_CORRECTION_LIMIT_TICKS = 24000000" "SOURCE_RTC_ALIGN_TOLERANCE_TICKS = 80000" "SECOND_TICKS = 40000000"
  "SOURCE_RTC_SEARCH_RESOLUTION_TICKS = 80000" "SOURCE_RTC_READ_LATCH_TICKS = 1000"
  by (simp_all add: SOURCE_RTC_TICKS_PER_US_def TIMING_NOMINAL_TICKS_def SECOND_TICKS_def START_DELAY_TICKS_def NS_PER_TICK_def
      PCF8563_START_DELAY_NS_def rate_limit_def SOURCE_RTC_RATE_LIMIT_PPM_def SOURCE_RTC_RELEASE_EARLIEST_TICKS_def
      SOURCE_RTC_RELEASE_LATENCY_TICKS_def SOURCE_RTC_CORRECTION_LIMIT_TICKS_def SOURCE_RTC_ALIGN_TOLERANCE_TICKS_def
      SOURCE_RTC_SEARCH_RESOLUTION_TICKS_def SOURCE_RTC_READ_LATCH_TICKS_def signed_divide_int_def)

section \<open>Runs\<close>

text \<open>
  What the main loop calls and what the chip's driver does in between. An epoch comes with the next
  number, its capture and the clock's time.
\<close>

datatype RtcEvent =
  RtcEpoch bool u32 SyncTime bool u32 | RtcPoll u32 | RtcReport TimingSnapshot | RtcSet u32 | RtcTakeSet
  | RtcOscillator int | RtcRestore SourceRtcKept | RtcChip ChipEvent

definition rtc_snapshot :: "bool \<Rightarrow> u32 \<Rightarrow> u32 \<Rightarrow> TimingSnapshot" where
  "rtc_snapshot valid capture number =
     \<lparr>snap_timer = \<lparr>sample_sequence = number, sample_running_period = TIMING_NOMINAL_TICKS, sample_handler_late = 0\<rparr>,
      snap_capture = \<lparr>reference_capture = 0, reference_capture_valid = False, reference_period = 0,
        reference_period_sequence = 0, reference_period_valid = False, epoch_capture = capture, epoch_capture_valid = valid\<rparr>\<rparr>"

fun rtc_step :: "RtcEvent \<Rightarrow> SourceRtc \<times> Pcf8563 \<Rightarrow> SourceRtc \<times> Pcf8563" where
  "rtc_step (RtcEpoch valid capture t sync bound) (s, p) =
     source_rtc_epoch (rtc_snapshot valid capture (epoch_sequence s + 1)) t sync bound s p"
| "rtc_step (RtcPoll now) (s, p) = source_rtc_poll now s p"
| "rtc_step (RtcReport snapshot) (s, p) = (snd (source_rtc_report snapshot s p), p)"
| "rtc_step (RtcSet utc) (s, p) = snd (source_rtc_set utc s p)"
| "rtc_step RtcTakeSet (s, p) = (snd (source_rtc_take_set s), p)"
| "rtc_step (RtcOscillator q) (s, p) = (source_rtc_set_oscillator q s, p)"
| "rtc_step (RtcRestore k) (s, p) = (source_rtc_restore k s, p)"
| "rtc_step (RtcChip e) (s, p) = (s, chip_step e p)"

text \<open>
  The invariant of the source: no attempt beyond the third, a step at most four epochs old with its
  search's deadline, and the learnt numbers in their limits.
\<close>

definition trying :: "SourceRtc \<Rightarrow> bool" where
  "trying s \<longleftrightarrow> writing s \<or> (search_done s \<and> purpose s = PURPOSE_CONFIRM)"

definition attempts_ok :: "SourceRtc \<Rightarrow> bool" where
  "attempts_ok s \<longleftrightarrow> rtc_attempts s \<le> 3 \<and> (write_wanted s \<or> trying s \<longrightarrow> rtc_attempts s < 3)
     \<and> (trying s \<longrightarrow> \<not> write_wanted s) \<and> (activity s \<noteq> SOURCE_RTC_IDLE \<longrightarrow> \<not> search_done s)
     \<and> (activity s = SOURCE_RTC_CONFIRMING \<longrightarrow> purpose s = PURPOSE_CONFIRM)
     \<and> (activity s = SOURCE_RTC_SEARCHING \<longrightarrow> purpose s \<noteq> PURPOSE_CONFIRM)"

definition searching :: "SourceRtc \<Rightarrow> bool" where
  "searching s \<longleftrightarrow> activity s = SOURCE_RTC_SEARCHING \<or> activity s = SOURCE_RTC_CONFIRMING"

definition step_age :: "SourceRtc \<Rightarrow> nat" where
  "step_age s = unat (epoch_sequence s - activity_epoch s)"

definition age_ok :: "nat \<Rightarrow> SourceRtc \<Rightarrow> bool" where
  "age_ok n s \<longleftrightarrow> (activity s \<noteq> SOURCE_RTC_IDLE \<longrightarrow> step_age s < n)
     \<and> (searching s \<longrightarrow> search_deadline s = activity_epoch s + 4)"

definition learnt_ok :: "SourceRtc \<Rightarrow> bool" where
  "learnt_ok s \<longleftrightarrow> \<bar>release_correction s\<bar> \<le> 24000000 \<and> \<bar>rate_q8 s\<bar> \<le> 5120000
     \<and> 0 \<le> second_fraction_q8 s \<and> second_fraction_q8 s < 256"

lemmas rtc_inv_defs = attempts_ok_def trying_def writing_def age_ok_def searching_def step_age_def learnt_ok_def

lemma idle_effect:
  "fst (set_activity SOURCE_RTC_IDLE s p) = s\<lparr>activity := SOURCE_RTC_IDLE, activity_epoch := epoch_sequence s\<rparr>"
  by (simp add: set_activity_def)

lemma abort_effect:
  "fst (abort_write s p) = s\<lparr>activity := SOURCE_RTC_IDLE, activity_epoch := epoch_sequence s, writes_failed := writes_failed s + 1,
     rtc_attempts := rtc_attempts s + 1,
     write_wanted := (rtc_attempts s + 1 < 3 \<or> write_wanted s), plain_wanted := (\<not> rtc_attempts s + 1 < 3 \<or> plain_wanted s)\<rparr>"
  by (simp add: abort_write_def set_activity_def Let_def SOURCE_RTC_SYNC_ATTEMPTS_def)

lemma attempts_next: "rtc_attempts s < 3 \<Longrightarrow> rtc_attempts s + 1 \<le> 3"
  for s :: SourceRtc
  by (simp add: word_less_nat_alt word_le_nat_alt unat_word_ariths)

text \<open>Ending a step keeps the invariant when it was one.\<close>

definition rtc_inv :: "nat \<Rightarrow> SourceRtc \<Rightarrow> bool" where
  "rtc_inv n s \<longleftrightarrow> attempts_ok s \<and> age_ok n s \<and> learnt_ok s"

text \<open>Fields the invariant does not mention.\<close>

lemma rtc_frame [simp]:
  "rtc_inv n (s\<lparr>second_valid := x0\<rparr>) = rtc_inv n s" "rtc_inv n (s\<lparr>second_stamp := x1\<rparr>) = rtc_inv n s"
  "rtc_inv n (s\<lparr>second_label := x2\<rparr>) = rtc_inv n s" "rtc_inv n (s\<lparr>second_edges := x3\<rparr>) = rtc_inv n s"
  "rtc_inv n (s\<lparr>measured_epoch := x4\<rparr>) = rtc_inv n s" "rtc_inv n (s\<lparr>resolution_ticks := x5\<rparr>) = rtc_inv n s"
  "rtc_inv n (s\<lparr>rate_valid := x6\<rparr>) = rtc_inv n s" "rtc_inv n (s\<lparr>rate_updates := x7\<rparr>) = rtc_inv n s"
  "rtc_inv n (s\<lparr>baseline_valid := x8\<rparr>) = rtc_inv n s" "rtc_inv n (s\<lparr>baseline_stamp := x9\<rparr>) = rtc_inv n s"
  "rtc_inv n (s\<lparr>baseline_label := x10\<rparr>) = rtc_inv n s" "rtc_inv n (s\<lparr>offset_valid := x11\<rparr>) = rtc_inv n s"
  "rtc_inv n (s\<lparr>offset_ms := x12\<rparr>) = rtc_inv n s" "rtc_inv n (s\<lparr>offset_epoch := x13\<rparr>) = rtc_inv n s"
  "rtc_inv n (s\<lparr>anchor := x14\<rparr>) = rtc_inv n s" "rtc_inv n (s\<lparr>kept_changes := x15\<rparr>) = rtc_inv n s"
  "rtc_inv n (s\<lparr>rtc_changes := x16\<rparr>) = rtc_inv n s" "rtc_inv n (s\<lparr>restored := x17\<rparr>) = rtc_inv n s"
  "rtc_inv n (s\<lparr>last_read_valid := x18\<rparr>) = rtc_inv n s" "rtc_inv n (s\<lparr>last_read_utc := x19\<rparr>) = rtc_inv n s"
  "rtc_inv n (s\<lparr>next_check_epoch := x20\<rparr>) = rtc_inv n s" "rtc_inv n (s\<lparr>last_write_valid := x21\<rparr>) = rtc_inv n s"
  "rtc_inv n (s\<lparr>last_write_aligned := x22\<rparr>) = rtc_inv n s" "rtc_inv n (s\<lparr>last_write_error := x23\<rparr>) = rtc_inv n s"
  "rtc_inv n (s\<lparr>last_write_utc := x24\<rparr>) = rtc_inv n s" "rtc_inv n (s\<lparr>last_write_epoch := x25\<rparr>) = rtc_inv n s"
  "rtc_inv n (s\<lparr>rate_due := x26\<rparr>) = rtc_inv n s" "rtc_inv n (s\<lparr>rate_due_epoch := x27\<rparr>) = rtc_inv n s"
  "rtc_inv n (s\<lparr>searches := x28\<rparr>) = rtc_inv n s" "rtc_inv n (s\<lparr>searches_failed := x29\<rparr>) = rtc_inv n s"
  "rtc_inv n (s\<lparr>checks := x30\<rparr>) = rtc_inv n s" "rtc_inv n (s\<lparr>rtc_writes := x31\<rparr>) = rtc_inv n s"
  "rtc_inv n (s\<lparr>writes_failed := x32\<rparr>) = rtc_inv n s" "rtc_inv n (s\<lparr>plain_writes := x33\<rparr>) = rtc_inv n s"
  "rtc_inv n (s\<lparr>late_releases := x34\<rparr>) = rtc_inv n s" "rtc_inv n (s\<lparr>oscillator_q16 := x35\<rparr>) = rtc_inv n s"
  "rtc_inv n (s\<lparr>epoch_valid := x36\<rparr>) = rtc_inv n s" "rtc_inv n (s\<lparr>epoch_stamp := x37\<rparr>) = rtc_inv n s"
  "rtc_inv n (s\<lparr>sample_valid := x38\<rparr>) = rtc_inv n s" "rtc_inv n (s\<lparr>sample_utc := x39\<rparr>) = rtc_inv n s"
  "rtc_inv n (s\<lparr>sample_stamp := x40\<rparr>) = rtc_inv n s" "rtc_inv n (s\<lparr>reads_seen := x41\<rparr>) = rtc_inv n s"
  "rtc_inv n (s\<lparr>search_found := x42\<rparr>) = rtc_inv n s" "rtc_inv n (s\<lparr>measure_due_epoch := x43\<rparr>) = rtc_inv n s"
  "rtc_inv n (s\<lparr>plain_wanted := x44\<rparr>) = rtc_inv n s" "rtc_inv n (s\<lparr>release_target := x45\<rparr>) = rtc_inv n s"
  "rtc_inv n (s\<lparr>expect_stamp := x46\<rparr>) = rtc_inv n s" "rtc_inv n (s\<lparr>expect_label := x47\<rparr>) = rtc_inv n s"
  "rtc_inv n (s\<lparr>writes_seen := x48\<rparr>) = rtc_inv n s" "rtc_inv n (s\<lparr>releases_seen := x49\<rparr>) = rtc_inv n s"
  "rtc_inv n (s\<lparr>stopped_released := x50\<rparr>) = rtc_inv n s" "rtc_inv n (s\<lparr>set_by_command := x51\<rparr>) = rtc_inv n s"
  "rtc_inv n (s\<lparr>reads_dated := x52\<rparr>) = rtc_inv n s" "rtc_inv n (s\<lparr>was_synchronised := x53\<rparr>) = rtc_inv n s"
  "rtc_inv n (s\<lparr>corrections_seen := x54\<rparr>) = rtc_inv n s"
  by (simp_all add: rtc_inv_def rtc_inv_defs)

lemma activity_frame [simp]:
  "searching (s\<lparr>second_edges := x0\<rparr>) = searching s" "searching (s\<lparr>reads_seen := x1\<rparr>) = searching s"
  "searching (s\<lparr>late_releases := x2\<rparr>) = searching s" "searching (s\<lparr>releases_seen := x3\<rparr>) = searching s"
  "searching (s\<lparr>rate_valid := x4\<rparr>) = searching s" "searching (s\<lparr>rate_updates := x5\<rparr>) = searching s"
  "searching (s\<lparr>kept_changes := x6\<rparr>) = searching s" "searching (s\<lparr>rate_q8 := x7\<rparr>) = searching s"
  "searching (s\<lparr>sample_valid := x8\<rparr>) = searching s" "searching (s\<lparr>baseline_valid := x9\<rparr>) = searching s"
  "searching (s\<lparr>baseline_stamp := x10\<rparr>) = searching s" "searching (s\<lparr>baseline_label := x11\<rparr>) = searching s"
  "searching (s\<lparr>second_fraction_q8 := x12\<rparr>) = searching s" "searching (s\<lparr>second_valid := x13\<rparr>) = searching s"
  "searching (s\<lparr>second_stamp := x14\<rparr>) = searching s" "searching (s\<lparr>second_label := x15\<rparr>) = searching s"
  "searching (s\<lparr>measured_epoch := x16\<rparr>) = searching s" "searching (s\<lparr>resolution_ticks := x17\<rparr>) = searching s"
  "writing (s\<lparr>late_releases := y0\<rparr>) = writing s" "writing (s\<lparr>releases_seen := y1\<rparr>) = writing s"
  "writing (s\<lparr>second_valid := y2\<rparr>) = writing s"
  by (simp_all add: searching_def writing_def)

lemma rate_inv: "\<bar>r\<bar> \<le> 5120000 \<Longrightarrow> rtc_inv n s \<Longrightarrow> rtc_inv n (s\<lparr>rate_q8 := r\<rparr>)"
  by (simp add: rtc_inv_def rtc_inv_defs)

lemma fraction_inv: "0 \<le> f \<Longrightarrow> f < 256 \<Longrightarrow> rtc_inv n s \<Longrightarrow> rtc_inv n (s\<lparr>second_fraction_q8 := f\<rparr>)"
  by (simp add: rtc_inv_def rtc_inv_defs)

lemma abort_inv:
  assumes "rtc_inv n s" "writing s" "\<not> search_done s"
  shows "rtc_inv m (fst (abort_write s p))"
proof -
  have "rtc_attempts s < 3" "\<not> write_wanted s" using assms by (auto simp: rtc_inv_def attempts_ok_def trying_def)
  then show ?thesis using assms attempts_next [of s]
    by (auto simp: rtc_inv_def abort_effect rtc_inv_defs)
qed

lemma end_search_effect:
  "fst (end_search f s p) = s\<lparr>search_done := True, search_found := f,
     searches_failed := (if f then searches_failed s else searches_failed s + 1),
     activity := SOURCE_RTC_IDLE, activity_epoch := epoch_sequence s\<rparr>"
  by (simp add: end_search_def set_activity_def Let_def)

lemma end_search_inv: "rtc_inv n s \<Longrightarrow> searching s \<Longrightarrow> rtc_inv m (fst (end_search f s p))"
  by (auto simp: rtc_inv_def end_search_effect rtc_inv_defs)

lemma start_search_effect:
  "fst (start_search why n s p) = s\<lparr>purpose := why, search_deadline := epoch_sequence s + n, sample_valid := False,
     reads_seen := reads p, search_done := False, searches := searches s + 1,
     activity := (if why = PURPOSE_CONFIRM then SOURCE_RTC_CONFIRMING else SOURCE_RTC_SEARCHING), activity_epoch := epoch_sequence s\<rparr>"
  by (simp add: start_search_def set_activity_def Let_def)

lemma start_search_inv:
  assumes "rtc_inv n s" "why = PURPOSE_CONFIRM \<Longrightarrow> rtc_attempts s < 3 \<and> \<not> write_wanted s" "0 < m"
  shows "rtc_inv m (fst (start_search why SOURCE_RTC_SEARCH_EPOCHS s p))"
  using assms by (cases why) (auto simp: rtc_inv_def start_search_effect rtc_inv_defs SOURCE_RTC_SEARCH_EPOCHS_def)

lemma floor_div_div: "0 < b \<Longrightarrow> floor_div a b = a div b"
proof -
  assume b: "0 < b"
  show ?thesis
  proof (cases "0 \<le> a")
    case False
    have "- a + b - 1 \<ge> 0" using False b by simp
    moreover have "(- a + b - 1) div b = - (a div b)"
      using b div_mult_mod_eq [of a b] pos_mod_bound [OF b, of a] pos_mod_sign [OF b, of a]
      by (intro int_div_pos_eq [of _ _ _ "b - 1 - a mod b"]) (auto simp: algebra_simps)
    ultimately show ?thesis using False b by (simp add: floor_div_def signed_divide_int_def sgn_if)
  qed (use b in \<open>simp add: floor_div_def signed_divide_int_def sgn_if\<close>)
qed

lemma next_fraction:
  assumes "learnt_ok s" "next_second (second_fraction_q8 s) s = (ticks, fraction)"
  shows "0 \<le> fraction \<and> fraction < 256"
proof -
  have "fraction = i32 (second_fraction_q8 s + rate_q8 s) mod 256"
    using assms(2) by (auto simp: next_second_def Let_def floor_div_div minus_div_mult_eq_mod)
  then show ?thesis by simp
qed

lemma learn_effect:
  "\<exists>r v u k. learn_rate stamp label s = s\<lparr>rate_q8 := r, rate_valid := v, rate_updates := u, kept_changes := k\<rparr>
     \<and> (\<bar>rate_q8 s\<bar> \<le> 5120000 \<longrightarrow> \<bar>r\<bar> \<le> 5120000)"
proof -
  have i: "\<bar>i32 x\<bar> \<le> 5120000" if "\<not> (x > rate_limit \<or> x < - rate_limit)" for x
    using that by (subst i32_abs_id) (simp_all add: rtc_ticks abs_le_iff abs_less_iff)
  show ?thesis
    unfolding learn_rate_def Let_def
    by (cases s) (auto simp: i intro!: exI)
qed

lemma found_inv:
  assumes "rtc_inv n s" "searching s"
  shows "rtc_inv m (fst (second_found stamp label r s p))"
proof -
  define s1 where "s1 = (if second_valid s
                then let apart = sint (stamp - second_stamp s);
                         seconds = i32 (apart + sint (SECOND_TICKS div 2)) sdiv sint SECOND_TICKS
                     in s\<lparr>second_edges := second_edges s + word_of_int (if seconds > 0 then seconds else 0)\<rparr>
                else s\<lparr>second_edges := second_edges s + 1\<rparr>)"
  have s1: "rtc_inv n s1" "searching s1"
    using assms by (simp_all add: s1_def Let_def)
  define s2 where "s2 = (if purpose s1 \<noteq> PURPOSE_CONFIRM then learn_rate stamp label s1 else s1)"
  obtain ra v u k where e: "learn_rate stamp label s1 = s1\<lparr>rate_q8 := ra, rate_valid := v, rate_updates := u, kept_changes := k\<rparr>"
    "\<bar>rate_q8 s1\<bar> \<le> 5120000 \<longrightarrow> \<bar>ra\<bar> \<le> 5120000"
    using learn_effect by blast
  have s2: "rtc_inv n s2" "searching s2"
    using s1 e(2) by (simp_all add: s2_def e(1) rate_inv rtc_inv_def [of _ s1] learnt_ok_def)
  show ?thesis
    unfolding second_found_def Let_def s1_def [unfolded Let_def, symmetric] s2_def [symmetric]
    using s2 by (intro end_search_inv [of n]) (simp_all add: fraction_inv)
qed

lemma sample_inv:
  assumes "rtc_inv n s" "searching s"
  shows "rtc_inv n (fst (take_sample s p))"
proof -
  show ?thesis using assms(1) found_inv [OF assms] by (simp add: take_sample_def Let_def)
qed

lemma keep_searching_inv:
  assumes "rtc_inv n s" "searching s"
  shows "rtc_inv n (fst (keep_searching s p))"
proof -
  define r where "r = (if reads p \<noteq> reads_seen s then take_sample (s\<lparr>reads_seen := reads p\<rparr>) p else (s, p))"
  have "rtc_inv n (s\<lparr>reads_seen := reads p\<rparr>)" "searching (s\<lparr>reads_seen := reads p\<rparr>)"
    using assms by simp_all
  then have "rtc_inv n (fst r)" using sample_inv assms by (simp add: r_def)
  then show ?thesis
    by (cases r) (auto simp: keep_searching_def r_def [symmetric] Let_def searching_def intro: end_search_inv)
qed

lemma enter_inv:
  assumes "rtc_inv n s" "rtc_attempts s < 3" "\<not> write_wanted s" "\<not> search_done s" "0 < m"
    "a = SOURCE_RTC_LOADING \<or> a = SOURCE_RTC_WAITING \<or> a = SOURCE_RTC_RELEASING"
  shows "rtc_inv m (fst (set_activity a s p)) \<and> writing (fst (set_activity a s p))"
proof -
  have "learnt_ok s" using assms(1) by (simp add: rtc_inv_def)
  then show ?thesis using assms(2-6)
    by (elim disjE) (simp_all add: set_activity_def rtc_inv_def rtc_inv_defs word_le_nat_alt word_less_nat_alt)
qed

lemma writing_facts: "rtc_inv n s \<Longrightarrow> writing s \<Longrightarrow> rtc_attempts s < 3 \<and> \<not> write_wanted s \<and> \<not> search_done s"
proof -
  assume i: "rtc_inv n s" and w: "writing s"
  have "activity s \<noteq> SOURCE_RTC_IDLE" using w by (simp add: writing_def) (elim disjE, simp_all)
  with i w show ?thesis unfolding rtc_inv_def attempts_ok_def trying_def by blast
qed

lemma activity_inv:
  assumes "rtc_inv n s" "writing s" "a = SOURCE_RTC_WAITING \<or> a = SOURCE_RTC_RELEASING" "0 < m"
  shows "rtc_inv m (fst (set_activity a s p))"
  using enter_inv [OF assms(1)] writing_facts [OF assms(1,2)] assms(3,4) by blast

lemma wait_inv:
  assumes "rtc_inv n s" "activity s = SOURCE_RTC_WAITING" "0 < n"
  shows "rtc_inv n (fst (wait_release now s p))"
proof -
  have d: "\<not> search_done s" "writing s" using assms by (simp_all add: rtc_inv_def attempts_ok_def writing_def)
  obtain ok p1 where r: "pcf8563_release p = (ok, p1)" by (cases "pcf8563_release p")
  have "rtc_inv n (fst (abort_write (s\<lparr>late_releases := late_releases s + 1\<rparr>) p))"
    "rtc_inv n (fst (abort_write (s\<lparr>releases_seen := releases p\<rparr>) p1))"
    using assms d by (intro abort_inv [of n]; simp)+
  moreover have "rtc_inv n (fst (set_activity SOURCE_RTC_RELEASING (s\<lparr>releases_seen := releases p\<rparr>) p1))"
    using assms d by (intro activity_inv [of n]) simp_all
  ultimately show ?thesis using assms(1) by (simp add: wait_release_def Let_def r)
qed

lemma poll_inv:
  assumes "rtc_inv n s" "0 < n"
  shows "rtc_inv n (fst (source_rtc_poll now s p))"
proof -
  have idle: "rtc_inv n (fst (start_search PURPOSE_MEASURE SOURCE_RTC_SEARCH_EPOCHS s p))"
    using assms by (intro start_search_inv) simp_all
  have confirm: "rtc_inv n (fst (start_search PURPOSE_CONFIRM SOURCE_RTC_SEARCH_EPOCHS s p))" if "writing s"
    using assms that by (intro start_search_inv) (auto simp: rtc_inv_def attempts_ok_def trying_def)
  have d: "\<not> search_done s" if "activity s \<noteq> SOURCE_RTC_IDLE" using assms that by (simp add: rtc_inv_def attempts_ok_def)
  show ?thesis
    using assms idle confirm d wait_inv [OF assms(1) _ assms(2)] keep_searching_inv [OF assms(1)] abort_inv [OF assms(1)]
      activity_inv [OF assms(1)]
    by (cases "activity s") (simp_all add: source_rtc_poll_def searching_def writing_def)
qed

lemma count_on_inv: "rtc_inv n s \<Longrightarrow> rtc_inv n (snd (count_on k capture s))"
proof (induction k arbitrary: s)
  case (Suc k)
  obtain ticks fraction where x: "next_second (second_fraction_q8 s) s = (ticks, fraction)" by (cases "next_second (second_fraction_q8 s) s")
  have "0 \<le> fraction" "fraction < 256"
    using next_fraction [of s ticks fraction] x Suc.prems by (auto simp: rtc_inv_def)
  then show ?case using Suc by (simp add: x fraction_inv)
qed simp

lemma report_inv:
  assumes "rtc_inv n s"
  shows "rtc_inv n (snd (source_rtc_report snapshot s p))"
  using assms count_on_inv [OF assms, of 4 "epoch_capture (snap_capture snapshot)"]
  by (cases "count_on 4 (epoch_capture (snap_capture snapshot)) s") (simp add: source_rtc_report_def Let_def split: option.split prod.split)

text \<open>The loop of an aligned write ends at once or after one step.\<close>

lemma release_two:
  assumes "\<bar>c\<bar> \<le> 24000000"
  shows "release_epochs (START_DELAY_TICKS + c + SOURCE_RTC_RELEASE_LATENCY_TICKS)
    = Some (if 40000000 - (19690300 + c) < 2000000 then 2 else 1)"
  using assms
  by (auto simp: release_epochs_def while_option_unfold [of _ _ 1] while_option_unfold [of _ _ "2 :: u32"] rtc_ticks)

lemma changed_effect: "rtc_changed s = s\<lparr>anchor := (anchor s)\<lparr>an_valid := False\<rparr>, rtc_changes := rtc_changes s + 1, kept_changes := kept_changes s + 1\<rparr>"
  by (simp add: rtc_changed_def)

lemma load_inv:
  assumes "rtc_inv n s" "rtc_attempts s < 3" "\<not> write_wanted s" "\<not> search_done s" "0 < n"
  shows "rtc_inv n (fst (load_write s p))"
proof -
  obtain s1 p1 where e: "set_activity SOURCE_RTC_LOADING s p = (s1, p1)" by (cases "set_activity SOURCE_RTC_LOADING s p")
  then have "\<not> search_done s1" using assms by (auto simp: set_activity_def)
  moreover have "rtc_inv n s1" "writing s1" using enter_inv [OF assms, of SOURCE_RTC_LOADING p] by (simp_all add: e)
  ultimately show ?thesis using abort_inv by (auto simp: load_write_def e split: prod.split)
qed

lemma begin_inv:
  assumes "rtc_inv n s" "write_wanted s" "activity s = SOURCE_RTC_IDLE" "\<not> search_done s" "0 < n"
  shows "rtc_inv n (fst (begin_write t s p))"
proof -
  have w: "rtc_inv n (s\<lparr>write_wanted := b\<rparr>)" "rtc_attempts s < 3" for b using assms by (auto simp: rtc_inv_def rtc_inv_defs)
  then have "rtc_inv n (fst (load_write (planned_write k t p (s\<lparr>write_wanted := False\<rparr>)) p))" for k
    using assms by (intro load_inv) (simp_all add: planned_write_def changed_effect)
  then show ?thesis using w by (auto simp: begin_write_def Let_def split: option.split)
qed

lemma clamp_limit: "\<bar>clamp_correction x\<bar> \<le> 24000000"
  by (simp add: clamp_correction_def rtc_ticks abs_le_iff)

lemma confirmed_inv:
  assumes "rtc_inv n s" "rtc_attempts s < 3" "activity s = SOURCE_RTC_IDLE" "\<not> search_done s" "\<not> write_wanted s"
  shows "rtc_inv n (confirmed s)"
proof -
  define s1 where "s1 = learn_delay s"
  have s1: "rtc_inv n s1" "rtc_attempts s1 < 3" "activity s1 = SOURCE_RTC_IDLE" "\<not> search_done s1" "\<not> write_wanted s1"
    using assms clamp_limit by (simp_all add: s1_def learn_delay_def Let_def rtc_inv_def rtc_inv_defs)
  have zero: "rtc_inv n (s1\<lparr>rtc_writes := x, rtc_attempts := 0\<rparr>)" "rtc_inv n (s1\<lparr>writes_failed := x, rtc_attempts := 0\<rparr>)"
    "rtc_inv n (s1\<lparr>rtc_attempts := 0, writes_failed := x\<rparr>)" for x
    using s1 by (simp_all add: rtc_inv_def rtc_inv_defs)
  have one: "rtc_inv n (s1\<lparr>writes_failed := x, rtc_attempts := rtc_attempts s1 + 1, write_wanted := True\<rparr>)" if "rtc_attempts s1 + 1 < 3" for x
    using s1 that attempts_next [of s1] by (simp add: rtc_inv_def rtc_inv_defs)
  have two: "rtc_inv n (s1\<lparr>writes_failed := x, rtc_attempts := rtc_attempts s1 + 1\<rparr>)" for x
    using s1 attempts_next [of s1] by (simp add: rtc_inv_def rtc_inv_defs)
  show ?thesis
    unfolding confirmed_def Let_def s1_def [symmetric] SOURCE_RTC_SYNC_ATTEMPTS_def
    using zero one two by simp
qed

lemma abort_idle_inv:
  assumes "rtc_inv n s" "rtc_attempts s < 3" "\<not> write_wanted s" "\<not> search_done s"
  shows "rtc_inv m (fst (abort_write s p)) \<and> \<not> search_done (fst (abort_write s p))"
  using assms attempts_next [of s]
  by (auto simp: rtc_inv_def abort_effect rtc_inv_defs)

definition resting :: "SourceRtc \<Rightarrow> bool" where
  "resting s \<longleftrightarrow> activity s = SOURCE_RTC_IDLE \<and> \<not> search_done s"

lemma resting_frame [simp]:
  "resting (s\<lparr>next_check_epoch := a\<rparr>) = resting s" "resting (s\<lparr>measure_due_epoch := b\<rparr>) = resting s"
  "resting (s\<lparr>offset_valid := c\<rparr>) = resting s" "resting (s\<lparr>offset_ms := d\<rparr>) = resting s" "resting (s\<lparr>offset_epoch := e\<rparr>) = resting s"
  "resting (s\<lparr>anchor := f\<rparr>) = resting s" "resting (s\<lparr>kept_changes := g\<rparr>) = resting s" "resting (s\<lparr>rtc_attempts := h\<rparr>) = resting s"
  "resting (s\<lparr>write_wanted := w\<rparr>) = resting s" "resting (s\<lparr>checks := k\<rparr>) = resting s" "resting (s\<lparr>was_synchronised := l\<rparr>) = resting s"
  "resting (s\<lparr>corrections_seen := m\<rparr>) = resting s"
  by (simp_all add: resting_def)

lemma rest_attempts:
  "rtc_inv n s \<Longrightarrow> resting s \<Longrightarrow> rtc_inv n (s\<lparr>rtc_attempts := 0\<rparr>)"
  "rtc_inv n s \<Longrightarrow> resting s \<Longrightarrow> rtc_inv n (s\<lparr>rtc_attempts := 0, write_wanted := w\<rparr>)"
  "rtc_inv n s \<Longrightarrow> resting s \<Longrightarrow> rtc_inv n (s\<lparr>checks := x, rtc_attempts := 0, write_wanted := w\<rparr>)"
  "rtc_inv n s \<Longrightarrow> resting s \<Longrightarrow> rtc_inv n (s\<lparr>next_check_epoch := y, rtc_attempts := 0, write_wanted := w\<rparr>)"
  "rtc_inv n s \<Longrightarrow> resting s \<Longrightarrow> rtc_inv n (s\<lparr>next_check_epoch := y, rtc_attempts := 0, plain_wanted := v\<rparr>)"
  "rtc_inv n s \<Longrightarrow> resting s \<Longrightarrow> rtc_inv n (s\<lparr>plain_wanted := v, rtc_attempts := 0\<rparr>)"
  "rtc_inv n s \<Longrightarrow> resting s \<Longrightarrow> rtc_inv n (s\<lparr>write_wanted := w, rtc_attempts := 0\<rparr>)"
  "rtc_inv n s \<Longrightarrow> rtc_inv n (s\<lparr>write_wanted := False\<rparr>)"
  by (simp_all add: rtc_inv_def rtc_inv_defs resting_def)

lemma measure_keeps: "rtc_inv n s \<Longrightarrow> rtc_inv n (measure_offset t s)" "resting (measure_offset t s) = resting s"
  "rtc_attempts (measure_offset t s) = rtc_attempts s" "write_wanted (measure_offset t s) = write_wanted s" "purpose (measure_offset t s) = purpose s"
  by (simp_all add: measure_offset_def Let_def)

lemma anchor_keeps: "rtc_inv n s \<Longrightarrow> rtc_inv n (anchor_found t b s)" "resting (anchor_found t b s) = resting s"
  "rtc_attempts (anchor_found t b s) = rtc_attempts s" "write_wanted (anchor_found t b s) = write_wanted s" "purpose (anchor_found t b s) = purpose s"
  by (simp_all add: anchor_found_def Let_def)

lemma confirmed_rests: "resting s \<Longrightarrow> resting (confirmed s)"
  by (simp add: confirmed_def learn_delay_def Let_def resting_def)

lemma check_by_keeps: "rtc_inv n s \<Longrightarrow> rtc_inv n (check_by e s)" "resting (check_by e s) = resting s"
  by (simp_all add: check_by_def)

lemma result_inv:
  assumes "rtc_inv n s" "search_done s"
  shows "rtc_inv n (fst (search_result t sy b s p)) \<and> resting (fst (search_result t sy b s p))"
proof -
  define s0 where "s0 = s\<lparr>search_done := False\<rparr>"
  have a: "activity s = SOURCE_RTC_IDLE" using assms by (auto simp: rtc_inv_def attempts_ok_def)
  then have s0: "rtc_inv n s0" "resting s0" using assms(1) by (auto simp: s0_def resting_def rtc_inv_def rtc_inv_defs)
  have c: "rtc_attempts s0 < 3" "\<not> write_wanted s0" if "purpose s0 = PURPOSE_CONFIRM"
    using assms that by (simp_all add: s0_def rtc_inv_def attempts_ok_def trying_def)
  define s2 where "s2 = (if sy then anchor_found t b (measure_offset t s0) else measure_offset t s0)"
  have s2: "rtc_inv n s2" "resting s2" "rtc_attempts s2 = rtc_attempts s0" "write_wanted s2 = write_wanted s0" "purpose s2 = purpose s0"
    using s0 by (simp_all add: s2_def measure_keeps anchor_keeps)
  show ?thesis
  proof (cases "search_found s0")
    case False
    show ?thesis
    proof (cases "purpose s0 = PURPOSE_CONFIRM")
      case True
      then show ?thesis using False abort_idle_inv [OF s0(1) c] s0(2)
        by (simp add: search_result_def s0_def [symmetric] resting_def abort_effect)
    qed (use False s0 in \<open>simp add: search_result_def s0_def [symmetric] Let_def\<close>)
  next
    case True
    then have r: "search_result t sy b s p =
       (if purpose s2 = PURPOSE_CONFIRM then (confirmed s2, p)
        else if purpose s2 \<noteq> PURPOSE_CHECK then
          (if rate_valid s2 \<and> last_write_valid s2 then check_by (last_write_epoch s2 + source_rtc_check_interval s2) s2 else s2, p)
        else let s3 = s2\<lparr>next_check_epoch := epoch_sequence s2 + source_rtc_check_interval s2\<rparr>
             in (if sy \<and> offset_valid s3 \<and> (\<not> chip_time_valid p \<or> offset_ms s3 > SOURCE_RTC_RESYNC_MS \<or> offset_ms s3 < - SOURCE_RTC_RESYNC_MS)
                 then s3\<lparr>rtc_attempts := 0, write_wanted := True\<rparr> else s3, p))"
      by (simp add: search_result_def s0_def [symmetric] Let_def s2_def)
    have "rtc_inv n (confirmed s2) \<and> resting (confirmed s2)" if "purpose s2 = PURPOSE_CONFIRM"
      using s2 c that confirmed_rests [OF s2(2)] confirmed_inv [OF s2(1)] by (simp add: resting_def [of s2])
    then show ?thesis
      using s2 rest_attempts(1-7) [OF s2(1,2)] by (simp add: r check_by_keeps Let_def)
  qed
qed

lemma noted_inv:
  assumes "rtc_inv 4 s"
  shows "rtc_inv 5 (epoch_noted (rtc_snapshot v c (epoch_sequence s + 1)) t s p)"
proof -
  have "unat (epoch_sequence s + 1 - activity_epoch s) < 5" if "unat (epoch_sequence s - activity_epoch s) < 4"
  proof -
    have "epoch_sequence s + 1 - activity_epoch s = (epoch_sequence s - activity_epoch s) + 1" by simp
    then show ?thesis using that by (simp only: unat_plus_if') simp
  qed
  then have "rtc_inv 5 (s\<lparr>epoch_sequence := epoch_sequence s + 1\<rparr>)"
    using assms by (simp add: rtc_inv_def rtc_inv_defs)
  then have "rtc_inv 5 (s\<lparr>epoch_sequence := epoch_sequence s + 1, epoch_valid := v, epoch_stamp := c\<rparr>)" by simp
  then show ?thesis by (simp add: epoch_noted_def rtc_snapshot_def Let_def)
qed

lemma deadline_passed:
  assumes "unat (e - a) < 5"
  shows "(0 \<le> sint (e - (a + 4) :: u32)) = (unat (e - a) = 4)"
proof -
  define d where "d = e - a"
  have e: "e - (a + 4) = d - 4" by (simp add: d_def)
  have "unat d = 0 \<or> unat d = 1 \<or> unat d = 2 \<or> unat d = 3 \<or> unat d = 4" using assms by (simp add: d_def) linarith
  then have "d = 0 \<or> d = 1 \<or> d = 2 \<or> d = 3 \<or> d = 4" by (auto simp: word_unat_eq_iff)
  then show ?thesis unfolding e d_def [symmetric] by auto
qed

lemma timeouts_inv:
  assumes "rtc_inv 5 s"
  shows "rtc_inv 4 (fst (epoch_timeouts s p))"
proof (cases "activity s = SOURCE_RTC_IDLE")
  case True
  then show ?thesis using assms by (simp add: epoch_timeouts_def rtc_inv_def rtc_inv_defs)
next
  case False
  have age: "unat (epoch_sequence s - activity_epoch s) < 5" "searching s \<Longrightarrow> search_deadline s = activity_epoch s + 4" "\<not> search_done s"
    using False assms by (simp_all add: rtc_inv_def attempts_ok_def age_ok_def step_age_def)
  have four: "epoch_reached (activity_epoch s + 4) s = (unat (epoch_sequence s - activity_epoch s) = 4)"
    using deadline_passed [OF age(1)] by (simp add: epoch_reached_def)
  have young: "rtc_inv 4 s" if "unat (epoch_sequence s - activity_epoch s) \<noteq> 4"
    using assms that age(1) by (simp add: rtc_inv_def age_ok_def step_age_def)
  have kind: "searching s \<and> \<not> (activity s = SOURCE_RTC_LOADING \<or> activity s = SOURCE_RTC_WAITING \<or> activity s = SOURCE_RTC_RELEASING)
      \<or> \<not> searching s \<and> writing s \<and> (activity s = SOURCE_RTC_LOADING \<or> activity s = SOURCE_RTC_WAITING \<or> activity s = SOURCE_RTC_RELEASING)"
    using False by (cases "activity s") (simp_all add: searching_def writing_def)
  show ?thesis
    using kind four young age(2,3) end_search_inv [OF assms] abort_inv [OF assms]
    by (cases "searching s") (simp_all add: epoch_timeouts_def searching_def [symmetric])
qed

lemma settle_keeps: "rtc_inv n s \<Longrightarrow> rtc_inv n (epoch_settle t b s)" "resting (epoch_settle t b s) = resting s"
  by (simp_all add: epoch_settle_def Let_def check_by_keeps)

lemma settle_activity: "activity (epoch_settle t b s) = activity s"
  by (simp add: epoch_settle_def Let_def check_by_def)

lemma plain_inv: "rtc_inv n s \<Longrightarrow> resting s \<Longrightarrow> rtc_inv n (fst (epoch_plain t b s p))"
  by (auto intro!: rest_attempts simp: epoch_plain_def Let_def wrote_plainly_def changed_effect split: prod.splits)

lemma stopped_inv: "rtc_inv n s \<Longrightarrow> rtc_inv n (fst (epoch_stopped s p))"
  by (auto simp: epoch_stopped_def Let_def changed_effect split: prod.splits)

lemma idle_inv:
  assumes "rtc_inv n s" "resting s" "0 < n"
  shows "rtc_inv n (fst (epoch_idle t b s p))"
proof -
  have m: "rtc_inv n (fst (start_search why SOURCE_RTC_SEARCH_EPOCHS s' p))" if "why \<noteq> PURPOSE_CONFIRM" "rtc_inv n s'" for why s'
    using that assms(3) by (intro start_search_inv [of n]) simp_all
  have w: "rtc_inv n (fst (begin_write t s p))" if "write_wanted s"
    using that assms by (intro begin_inv) (simp_all add: resting_def)
  show ?thesis
    unfolding epoch_idle_def Let_def
    using assms m w plain_inv [OF assms(1,2)] stopped_inv [OF assms(1)] rest_attempts(1-7) [OF assms(1,2)] rest_attempts(8) [OF assms(1)]
    by simp
qed

lemma epoch_inv:
  assumes "rtc_inv 4 s"
  shows "rtc_inv 4 (fst (source_rtc_epoch (rtc_snapshot v c (epoch_sequence s + 1)) t sy b s p))"
proof -
  obtain s1 p1 where e1: "epoch_timeouts (epoch_noted (rtc_snapshot v c (epoch_sequence s + 1)) t s p) p = (s1, p1)" by (metis prod.exhaust)
  have i1: "rtc_inv 4 s1" using timeouts_inv [OF noted_inv [OF assms], of v c t p p] by (simp add: e1)
  define sn where "sn = (sy \<and> known t \<and> \<not> time_leap_second t)"
  obtain s2 p2 where e2: "(if search_done s1 then search_result t sn b s1 p1 else (s1, p1)) = (s2, p2)" by (metis prod.exhaust)
  have i2: "rtc_inv 4 s2" "activity s2 = SOURCE_RTC_IDLE \<Longrightarrow> resting s2"
    using e2 i1 result_inv [OF i1, of t sn b p1] by (auto simp: resting_def split: if_splits)
  define s3 where "s3 = epoch_settle t sn s2"
  have i3: "rtc_inv 4 s3" using i2(1) by (simp add: s3_def settle_keeps)
  have "activity s3 = SOURCE_RTC_IDLE \<Longrightarrow> resting s3"
    using i2(2) by (simp add: s3_def settle_keeps settle_activity)
  then show ?thesis
    using idle_inv [OF i3] i3 by (simp add: source_rtc_epoch_def Let_def sn_def [symmetric] e1 e2 s3_def [symmetric])
qed

lemma set_inv: "rtc_inv n s \<Longrightarrow> rtc_inv n (fst (snd (source_rtc_set utc s p)))"
  by (auto simp: source_rtc_set_def Let_def wrote_plainly_def changed_effect intro!: rest_attempts(8) split: prod.splits)

lemma restore_inv: "rtc_inv n s \<Longrightarrow> rtc_inv n (source_rtc_restore k s)"
  by (auto simp: source_rtc_restore_def Let_def rtc_ticks abs_le_iff intro!: rate_inv)

section \<open>What reaches the chip\<close>

text \<open>\<open>acts A p q\<close>: \<open>q\<close> comes from \<open>p\<close> by driver operations of \<open>A\<close> alone.\<close>

definition acts :: "ChipEvent set \<Rightarrow> Pcf8563 \<Rightarrow> Pcf8563 \<Rightarrow> bool" where
  "acts A p q \<longleftrightarrow> (\<exists>es. set es \<subseteq> A \<and> q = fold chip_step es p)"

definition quiet :: "ChipEvent set" where
  "quiet = {AutoRead True, AutoRead False, ReadTime, ReleaseStop}"

lemma acts_refl [intro]: "acts A p p"
  by (auto simp: acts_def intro: exI [of _ "[]"])

lemma acts_trans [trans]: "acts A p q \<Longrightarrow> acts A q r \<Longrightarrow> acts A p r"
proof -
  assume "acts A p q" "acts A q r"
  then obtain es fs where "set es \<subseteq> A" "q = fold chip_step es p" "set fs \<subseteq> A" "r = fold chip_step fs q" by (auto simp: acts_def)
  then show ?thesis unfolding acts_def by (intro exI [of _ "es @ fs"]) simp
qed

lemma acts_step: "e \<in> A \<Longrightarrow> q = chip_step e p \<Longrightarrow> acts A p q"
  by (auto simp: acts_def intro: exI [of _ "[e]"])

lemma acts_ops:
  "quiet \<subseteq> A \<Longrightarrow> acts A p (pcf8563_set_auto_read b p)" "quiet \<subseteq> A \<Longrightarrow> acts A p (snd (pcf8563_read p))"
  "quiet \<subseteq> A \<Longrightarrow> acts A p (snd (pcf8563_release p))"
  "WriteTime utc \<in> A \<Longrightarrow> acts A p (snd (pcf8563_write utc p))"
  "WriteStopped utc \<in> A \<Longrightarrow> acts A p (snd (pcf8563_write_stopped utc p))"
  using acts_step [of "AutoRead b" A] acts_step [of ReadTime A] acts_step [of ReleaseStop A] acts_step [of "WriteTime utc" A]
    acts_step [of "WriteStopped utc" A]
  by (cases b; auto simp: quiet_def; fail)+

lemma activity_acts: "quiet \<subseteq> A \<Longrightarrow> acts A p (snd (set_activity a s p))"
  by (simp add: set_activity_def acts_ops)

lemma start_acts: "quiet \<subseteq> A \<Longrightarrow> acts A p (snd (start_search why n s p))"
  by (auto simp: start_search_def Let_def set_activity_def intro: acts_trans acts_ops)

lemma end_acts: "quiet \<subseteq> A \<Longrightarrow> acts A p (snd (end_search f s p))"
  by (simp add: end_search_def Let_def activity_acts)

lemma found_acts: "quiet \<subseteq> A \<Longrightarrow> acts A p (snd (second_found st l r s p))"
  by (simp add: second_found_def Let_def end_acts)

lemma sample_acts: "quiet \<subseteq> A \<Longrightarrow> acts A p (snd (take_sample s p))"
  by (auto simp: take_sample_def Let_def found_acts)

lemma abort_acts: "quiet \<subseteq> A \<Longrightarrow> acts A p (snd (abort_write s p))"
  by (simp add: abort_write_def Let_def set_activity_def acts_ops)

lemma keep_acts: "quiet \<subseteq> A \<Longrightarrow> acts A p (snd (keep_searching s p))"
proof -
  assume q: "quiet \<subseteq> A"
  define r where "r = (if reads p \<noteq> reads_seen s then take_sample (s\<lparr>reads_seen := reads p\<rparr>) p else (s, p))"
  have "acts A p (snd r)" using sample_acts [OF q] by (auto simp: r_def)
  then show ?thesis using end_acts [OF q] acts_ops(2) [OF q] acts_trans
    by (cases r) (auto simp: keep_searching_def r_def [symmetric] Let_def intro: acts_trans)
qed

lemma release_then:
  assumes q: "quiet \<subseteq> A" and "\<And>p. acts A p (snd (f p))" "\<And>p. acts A p (snd (g p))"
  shows "acts A p (snd (let (ok, p1) = pcf8563_release p in if ok then f p1 else g p1))"
proof -
  have "acts A p (snd (pcf8563_release p))" by (rule acts_ops(3) [OF q])
  then show ?thesis using assms(2,3) by (cases "pcf8563_release p") (auto intro: acts_trans)
qed

lemma wait_acts: "quiet \<subseteq> A \<Longrightarrow> acts A p (snd (wait_release now s p))"
  using release_then [of A "\<lambda>p1. set_activity SOURCE_RTC_RELEASING (s\<lparr>releases_seen := releases p\<rparr>) p1"
      "\<lambda>p1. abort_write (s\<lparr>releases_seen := releases p\<rparr>) p1" p]
  by (auto simp: wait_release_def Let_def activity_acts abort_acts)

lemma poll_acts: "quiet \<subseteq> A \<Longrightarrow> acts A p (snd (source_rtc_poll now s p))"
  by (cases "activity s") (auto simp: source_rtc_poll_def start_acts keep_acts activity_acts abort_acts wait_acts)

lemma load_acts:
  assumes "quiet \<subseteq> A" "WriteStopped (expect_label s - 1) \<in> A"
  shows "acts A p (snd (load_write s p))"
proof -
  obtain s1 p1 where e: "set_activity SOURCE_RTC_LOADING s p = (s1, p1)" by (metis prod.exhaust)
  have s1: "expect_label s1 = expect_label s" "acts A p p1"
    using e activity_acts [OF assms(1), of p SOURCE_RTC_LOADING s] by (auto simp: set_activity_def)
  obtain ok p2 where w: "pcf8563_write_stopped (expect_label s1 - 1) p1 = (ok, p2)" by (metis prod.exhaust)
  have "acts A p1 p2" using acts_ops(5) [OF assms(2), of p1] w by (simp add: s1(1))
  then show ?thesis using s1(2) abort_acts [OF assms(1)] by (auto simp: load_write_def e w intro: acts_trans)
qed

text \<open>The times a synchronised epoch may write: its own, or for an aligned write the second before
  that of its \<open>n\<close>th successor, with no leap second up to the one after.\<close>

definition may_write :: "SyncTime \<Rightarrow> ChipEvent set" where
  "may_write t = insert (WriteTime (time_utc t))
     {WriteStopped (time_utc t + n - 1) | n. n \<in> {1, 2} \<and>
        \<not> (change (time_leap t) \<noteq> 0 \<and> time_utc t < event_utc (time_leap t) \<and> event_utc (time_leap t) - time_utc t \<le> n + 1)}"

lemma begin_acts:
  assumes "quiet \<subseteq> A" "may_write t \<subseteq> A" "\<bar>release_correction s\<bar> \<le> 24000000"
  shows "acts A p (snd (begin_write t s p))"
proof -
  define n where "n = (if 40000000 - (19690300 + release_correction s) < 2000000 then 2 else 1 :: u32)"
  have r: "release_epochs (release_delay (s\<lparr>write_wanted := False\<rparr>)) = Some n"
    using release_two [OF assms(3)] by (simp add: release_delay_def n_def)
  have "n \<in> {1, 2}" by (simp add: n_def)
  then have "acts A p (snd (load_write (planned_write n t p (s\<lparr>write_wanted := False\<rparr>)) p))"
    if "\<not> (change (time_leap t) \<noteq> 0 \<and> time_utc t < event_utc (time_leap t) \<and> event_utc (time_leap t) - time_utc t \<le> n + 1)"
    using assms(2) that by (intro load_acts [OF assms(1)]) (auto simp: planned_write_def may_write_def)
  then show ?thesis by (auto simp: begin_write_def Let_def r)
qed

lemma plain_acts:
  assumes "quiet \<subseteq> A" "b \<Longrightarrow> WriteTime (time_utc t) \<in> A"
  shows "acts A p (snd (epoch_plain t b s p))"
  using assms acts_ops(4) [of "time_utc t" A p] by (cases "pcf8563_write (time_utc t) p") (auto simp: epoch_plain_def Let_def)

lemma stopped_acts: "quiet \<subseteq> A \<Longrightarrow> acts A p (snd (epoch_stopped s p))"
  using acts_ops(2,3) [of A p]
  by (cases "pcf8563_read p"; cases "pcf8563_release p") (auto simp: epoch_stopped_def Let_def)

lemma idle_acts:
  assumes "quiet \<subseteq> A" "b \<Longrightarrow> may_write t \<subseteq> A" "\<bar>release_correction s\<bar> \<le> 24000000"
  shows "acts A p (snd (epoch_idle t b s p))"
  unfolding epoch_idle_def Let_def
  using assms plain_acts [of A b t p s] begin_acts [of A t s p] stopped_acts [of A p s] start_acts [of A p]
  by (auto simp: may_write_def)

lemma result_acts: "quiet \<subseteq> A \<Longrightarrow> acts A p (snd (search_result t sy b s p))"
  by (auto simp: search_result_def Let_def abort_acts)

lemma timeouts_acts: "quiet \<subseteq> A \<Longrightarrow> acts A p (snd (epoch_timeouts s p))"
  by (auto simp: epoch_timeouts_def end_acts abort_acts)

lemma settle_correction: "release_correction (epoch_settle t b s) = release_correction s"
  by (simp add: epoch_settle_def Let_def check_by_def)

definition synchronised_time :: "SyncTime \<Rightarrow> bool \<Rightarrow> bool" where
  "synchronised_time t sy \<longleftrightarrow> sy \<and> known t \<and> \<not> time_leap_second t"

lemma epoch_acts:
  assumes i: "rtc_inv 4 s" and q: "quiet \<subseteq> A" and w: "synchronised_time t sy \<Longrightarrow> may_write t \<subseteq> A"
  shows "acts A p (snd (source_rtc_epoch (rtc_snapshot v c (epoch_sequence s + 1)) t sy b s p))"
proof -
  define sn where "sn = synchronised_time t sy"
  obtain s1 p1 where e1: "epoch_timeouts (epoch_noted (rtc_snapshot v c (epoch_sequence s + 1)) t s p) p = (s1, p1)" by (metis prod.exhaust)
  have i1: "rtc_inv 4 s1" using timeouts_inv [OF noted_inv [OF i], of v c t p p] by (simp add: e1)
  obtain s2 p2 where e2: "(if search_done s1 then search_result t sn b s1 p1 else (s1, p1)) = (s2, p2)" by (metis prod.exhaust)
  have "rtc_inv 4 s2" using e2 i1 result_inv [OF i1, of t sn b p1] by (auto split: if_splits)
  then have c: "\<bar>release_correction (epoch_settle t sn s2)\<bar> \<le> 24000000" by (simp add: settle_correction rtc_inv_def learnt_ok_def)
  have "acts A p p1" using timeouts_acts [OF q, of p] e1 by (metis snd_conv)
  moreover have "acts A p1 p2" using result_acts [OF q, of p1 t sn b s1] e2 by (auto split: if_splits)
  ultimately have "acts A p p2" by (rule acts_trans)
  moreover have "acts A p2 (snd (epoch_idle t sn (epoch_settle t sn s2) p2))"
    using w by (intro idle_acts [OF q _ c]) (simp add: sn_def)
  ultimately have "acts A p (snd (epoch_idle t sn (epoch_settle t sn s2) p2))" "acts A p p2" by (blast intro: acts_trans)+
  then show ?thesis
    by (simp add: source_rtc_epoch_def Let_def synchronised_time_def [symmetric] sn_def [symmetric] e1 e2)
qed

text \<open>What a call may do to the chip.\<close>

fun allowed_acts :: "RtcEvent \<Rightarrow> ChipEvent set" where
  "allowed_acts (RtcEpoch valid capture t sync bound) = quiet \<union> (if synchronised_time t sync then may_write t else {})"
| "allowed_acts (RtcSet utc) = insert (WriteTime utc) quiet"
| "allowed_acts (RtcChip e) = {e}"
| "allowed_acts _ = quiet"

lemma step_acts:
  assumes "rtc_inv 4 s" "rtc_step e (s, p) = (s', p')"
  shows "acts (allowed_acts e) p p'"
proof (cases e)
  case (RtcEpoch v c t sy b)
  then show ?thesis using epoch_acts [OF assms(1), of "allowed_acts e" t sy p v c b] assms(2) by (auto simp: acts_refl)
next
  case (RtcPoll now)
  then show ?thesis using poll_acts [of quiet p now s] assms(2) by simp
next
  case (RtcSet utc)
  have "acts (allowed_acts e) p (snd (pcf8563_write utc p))" using RtcSet by (intro acts_ops) simp
  then show ?thesis using RtcSet assms(2)
    by (cases "pcf8563_write utc p") (auto simp: source_rtc_set_def Let_def split: if_splits)
next
  case (RtcChip ev)
  then show ?thesis using assms(2) by (auto intro: acts_step)
qed (use assms(2) in \<open>auto simp: source_rtc_report_def split: prod.splits\<close>)

lemma acts_one: "acts A p q \<Longrightarrow> one_transfer p \<Longrightarrow> one_transfer q"
  by (auto simp: acts_def list_all_iff intro: chip.run_invar)

definition rtc_ok :: "SourceRtc \<times> Pcf8563 \<Rightarrow> bool" where
  "rtc_ok x \<longleftrightarrow> rtc_inv 4 (fst x) \<and> one_transfer (snd x)"

lemma rtc_ok_step: "rtc_ok x \<Longrightarrow> rtc_ok (rtc_step e x)"
proof -
  assume "rtc_ok x"
  obtain s p where x: "x = (s, p)" by (cases x)
  have i: "rtc_inv 4 s" "one_transfer p" using \<open>rtc_ok x\<close> by (simp_all add: x rtc_ok_def)
  obtain s' p' where r: "rtc_step e (s, p) = (s', p')" by (metis prod.exhaust)
  have "rtc_inv 4 (fst (rtc_step e (s, p)))"
    using i(1) by (cases e) (simp_all add: epoch_inv poll_inv report_inv set_inv source_rtc_take_set_def source_rtc_set_oscillator_def restore_inv)
  then show ?thesis using acts_one [OF step_acts [OF i(1) r] i(2)] by (simp add: x r rtc_ok_def)
qed

interpretation rtc: stepper rtc_step "\<lambda>_. True" rtc_ok
  by unfold_locales (rule rtc_ok_step)

text \<open>Start-up, with any statics that the code does not set.\<close>

definition rtc_started :: "u32 \<Rightarrow> SourceRtc \<Rightarrow> SourceRtc \<times> Pcf8563" where
  "rtc_started now s = source_rtc_init s (pcf8563_init now chip_statics)"

lemma rtc_started_ok: "rtc_ok (rtc_started now s)"
proof -
  have "rtc_inv 4 (fst (rtc_started now s))"
    by (simp add: rtc_started_def source_rtc_init_def set_activity_def rtc_inv_def rtc_inv_defs rtc_state_cleared_def SourceRtcState.defs)
  moreover have "one_transfer (snd (rtc_started now s))"
    using init_one [of now] one_transfer_frame(1) by (simp add: rtc_started_def source_rtc_init_def set_activity_def pcf8563_set_auto_read_def)
  ultimately show ?thesis by (simp add: rtc_ok_def)
qed

lemma rtc_run_ok: "rtc_ok (fold rtc_step es (rtc_started now s))"
  by (rule rtc.run_invar) (simp_all add: list_all_iff rtc_started_ok)

section \<open>An aligned write and the chip's start delay\<close>

text \<open>A chip that takes \<open>d\<close> ticks from STOP's clearing to its first increment, found where it is.\<close>

definition landed :: "int \<Rightarrow> SourceRtc \<Rightarrow> SourceRtc" where
  "landed d s = s\<lparr>second_stamp := release_target s + word_of_int (SOURCE_RTC_RELEASE_LATENCY_TICKS + d), second_label := expect_label s\<rparr>"

lemma landing_planned:
  assumes "\<bar>d - START_DELAY_TICKS\<bar> \<le> 24000000" "\<bar>release_correction s\<bar> \<le> 24000000"
  shows "landing_error (landed d (planned_write n t p s)) = d - START_DELAY_TICKS - release_correction s"
proof -
  have "second_stamp (landed d (planned_write n t p s)) - expect_stamp (landed d (planned_write n t p s))
      = word_of_int (d - START_DELAY_TICKS - release_correction s)"
    by (simp add: landed_def planned_write_def changed_effect release_delay_def algebra_simps)
  moreover have "in_i32 (d - START_DELAY_TICKS - release_correction s)" using assms by (intro in_i32I) linarith+
  ultimately show ?thesis by (simp only: landing_error_def sint_word_of_int_i32)
qed

lemma clamp_id: "\<bar>x\<bar> \<le> 24000000 \<Longrightarrow> clamp_correction (i32 x) = x"
  by (subst i32_abs_id) (auto simp: clamp_correction_def rtc_ticks abs_le_iff)

lemma sdiv2_between:
  fixes e :: int
  shows "0 \<le> e \<Longrightarrow> 0 \<le> e sdiv 2 \<and> e sdiv 2 \<le> e" "e \<le> 0 \<Longrightarrow> e \<le> e sdiv 2 \<and> e sdiv 2 \<le> 0"
  by (auto simp: signed_divide_int_def sgn_if)

lemma correction_learnt:
  assumes "\<bar>d - START_DELAY_TICKS\<bar> \<le> 24000000" "\<bar>release_correction s\<bar> \<le> 24000000"
    "landing_error x = d - START_DELAY_TICKS - release_correction x" "release_correction x = release_correction s" "second_label x = expect_label x"
  shows "release_correction (confirmed x)
    = release_correction s + (if landed_within x then landing_error x sdiv 2 else landing_error x)"
proof -
  define e where "e = landing_error x"
  have e: "release_correction s + e = d - START_DELAY_TICKS" using assms(3,4) by (simp add: e_def)
  have "\<bar>release_correction s + e sdiv 2\<bar> \<le> 24000000"
    using assms(1,2) e sdiv2_between [of e] by (cases "0 \<le> e") linarith+
  then show ?thesis
    using assms(1,4,5) e by (simp add: confirmed_def Let_def learn_delay_def e_def [symmetric] clamp_id)
qed

section \<open>The bound\<close>

lemma saturate_exact:
  assumes "saturate_bound x = b" "b \<noteq> SOURCE_RTC_BOUND_MAX_NS"
  shows "uint b = uint x"
proof -
  have b: "b = ucast x" "x \<le> 0xFFFFFFFE" using assms by (auto simp: saturate_bound_def SOURCE_RTC_BOUND_MAX_NS_def not_less split: if_splits)
  then have "uint x \<le> 0xFFFFFFFE" by (simp add: word_le_def)
  then show ?thesis by (simp add: b(1) unsigned_ucast_eq take_bit_int_eq_self)
qed

lemma allowance_sum:
  assumes "0 \<le> elapsed" "elapsed < 2 ^ 31" "a \<le> (500 :: u64)"
  shows "uint (ucast (an :: u32) + word_of_int elapsed * a * 1000 :: u64) = uint an + elapsed * uint a * 1000"
proof -
  have a: "0 \<le> uint a" "uint a \<le> 500" using assms(3) by (simp_all add: word_le_def)
  have "elapsed * uint a \<le> 2 ^ 31 * 500" using assms a by (intro mult_mono) simp_all
  moreover have "0 \<le> elapsed * uint a" using assms a by simp
  moreover have "uint an < 2 ^ 32" "0 \<le> uint an" using uint_lt2p [of an] by simp_all
  ultimately have s: "0 \<le> uint an + elapsed * uint a * 1000" "uint an + elapsed * uint a * 1000 < 2 ^ 64" by simp_all
  have "(ucast an + word_of_int elapsed * a * 1000 :: u64) = word_of_int (uint an + elapsed * uint a * 1000)"
    by simp
  then show ?thesis using s by (simp only: uint_word_of_int) simp
qed

text \<open>The drift in whole ns: an integer within a real allowance is within what the division leaves.\<close>

lemma drift_rounding:
  fixes x q a e :: int
  assumes "\<bar>256 * x - q\<bar> \<le> 256 * a"
  shows "\<bar>x - q sdiv 256\<bar> \<le> a"
proof -
  have "\<bar>q - 256 * (q sdiv 256)\<bar> \<le> 255"
    using pos_mod_bound [of 256 "\<bar>q\<bar>"] pos_mod_sign [of 256 "\<bar>q\<bar>"] div_mult_mod_eq [of "\<bar>q\<bar>" 256]
    by (cases "0 \<le> q") (auto simp: signed_divide_int_def sgn_if)
  then show ?thesis using assms by linarith
qed

section \<open>Claims\<close>

text \<open>The statics at power-up.\<close>

definition rtc_statics :: SourceRtc where
  "rtc_statics = SourceRtcState.extend rtc_state_cleared
     (SourceRtc.fields 0 0 0 False 0 PURPOSE_MEASURE 0 False 0 0 0 False False 0 False False 0 0 0 0 0 0 False False 0 False 0)"

text \<open>
  A plain write that is due is made in a synchronised epoch whatever leap second is announced: the
  guard of the aligned write is not there.
\<close>

theorem plain_write_ignores_leap:
  assumes "plain_wanted s"
  shows "snd (epoch_idle (t\<lparr>time_leap := \<lparr>event_utc = time_utc t + 1, change = 1\<rparr>\<rparr>) True s p)
    = snd (pcf8563_write (time_utc t) p)"
  using assms by (simp add: epoch_idle_def epoch_plain_def Let_def case_prod_beta)

text \<open>
  C10: The chip is only written on a time that is known: in any run of the source and its driver, all
  that a call does to the chip are operations of the driver, and those are reads, releases of STOP and
  the switch of the periodic reads, except that \<open>source_rtc_set\<close> writes the time it is given and a
  synchronised epoch, in no leap second, writes its own second, or loads, stopped, the one before
  the next or the next but one. Only this last, the load of an aligned write, keeps away from an
  announced leap second: none may be due up to the second after the one it aims at. The plain write of
  the epoch's own second may come right before one (\<open>plain_write_ignores_leap\<close>), which the header of
  \<open>source_rtc.h\<close> rules out.
\<close>

theorem chip_written_by_known_time:
  "case fold rtc_step es (rtc_started now s0) of (s, p) \<Rightarrow> case rtc_step e (s, p) of (s', p') \<Rightarrow>
     \<exists>ds. set ds \<subseteq> allowed_acts e \<and> p' = fold chip_step ds p"
proof -
  obtain s p where r: "fold rtc_step es (rtc_started now s0) = (s, p)" by (metis prod.exhaust)
  obtain s' p' where r': "rtc_step e (s, p) = (s', p')" by (metis prod.exhaust)
  have "rtc_inv 4 s" using rtc_run_ok [of es now s0] by (simp add: r rtc_ok_def)
  from step_acts [OF this r'] show ?thesis by (simp add: r r' acts_def)
qed

text \<open>
  C31: Nothing the chip or the bus does holds the source: whenever and however they answer, or do not,
  no step of a search or of an aligned write is older than four epochs, an aligned write is given up
  after its third attempt, and the correction and the rate stay in their limits.
\<close>

theorem rtc_steps_end:
  "case fold rtc_step es (rtc_started now s0) of (s, p) \<Rightarrow>
     (activity s = SOURCE_RTC_IDLE \<or> unat (epoch_sequence s - activity_epoch s) < 4) \<and> rtc_attempts s \<le> 3
     \<and> (rtc_attempts s < 3 \<or> activity s = SOURCE_RTC_IDLE \<or> activity s = SOURCE_RTC_SEARCHING)
     \<and> (rtc_attempts s < 3 \<or> write_wanted s = False) \<and> \<bar>release_correction s\<bar> \<le> 24000000 \<and> \<bar>rate_q8 s\<bar> \<le> 5120000"
proof -
  obtain s p where r: "fold rtc_step es (rtc_started now s0) = (s, p)" by (metis prod.exhaust)
  have i: "rtc_inv 4 s" using rtc_run_ok [of es now s0] by (simp add: r rtc_ok_def)
  have "rtc_attempts s < 3 \<or> activity s = SOURCE_RTC_IDLE \<or> activity s = SOURCE_RTC_SEARCHING"
    using writing_facts [OF i] by (cases "activity s") (simp_all add: writing_def)
  moreover have "activity s = SOURCE_RTC_IDLE \<or> unat (epoch_sequence s - activity_epoch s) < 4"
    using i by (simp add: rtc_inv_def age_ok_def step_age_def) blast
  moreover have "rtc_attempts s \<le> 3" "rtc_attempts s < 3 \<or> write_wanted s = False" using i unfolding rtc_inv_def attempts_ok_def by blast+
  moreover have "\<bar>release_correction s\<bar> \<le> 24000000" "\<bar>rate_q8 s\<bar> \<le> 5120000" using i by (simp_all add: rtc_inv_def learnt_ok_def)
  ultimately show ?thesis by (simp add: r)
qed

text \<open>
  C32: The loop that plans an aligned write ends whatever has been learnt: after one or two rounds it
  gives a release at least 50 ms after the epoch and its first increment one or two seconds on.
\<close>

theorem release_loop_ends:
  "case fold rtc_step es (rtc_started now s0) of (s, p) \<Rightarrow>
     \<exists>n. (n = 1 \<or> n = 2) \<and> release_epochs (release_delay s) = Some n
       \<and> sint (n * SECOND_TICKS) - release_delay s \<ge> SOURCE_RTC_RELEASE_EARLIEST_TICKS"
proof -
  obtain s p where r: "fold rtc_step es (rtc_started now s0) = (s, p)" by (metis prod.exhaust)
  have c: "\<bar>release_correction s\<bar> \<le> 24000000" using rtc_run_ok [of es now s0] by (simp add: r rtc_ok_def rtc_inv_def learnt_ok_def)
  show ?thesis using release_two [OF c] c by (auto simp: r release_delay_def rtc_ticks)
qed

text \<open>
  C14: The start delay of the chip is learnt: for a chip whose start takes any fixed time within 600 ms
  of the data sheet's, an aligned write lands off its epoch by just what the correction is off; the
  next one lands exactly on its epoch after a miss, and with half the error, rounded, otherwise.
\<close>

theorem start_delay_learnt:
  assumes "\<bar>d - START_DELAY_TICKS\<bar> \<le> 24000000" "\<bar>release_correction s\<bar> \<le> 24000000"
  shows "case landed d (planned_write n t p s) of first \<Rightarrow>
      case landed d (planned_write n' t' p' (confirmed first)) of again \<Rightarrow>
        landing_error first = d - START_DELAY_TICKS - release_correction s
        \<and> landing_error again = (if landed_within first then landing_error first - landing_error first sdiv 2 else 0)"
proof -
  define first where "first = landed d (planned_write n t p s)"
  have e: "landing_error first = d - START_DELAY_TICKS - release_correction s"
    unfolding first_def by (rule landing_planned [OF assms])
  have c: "release_correction first = release_correction s" "second_label first = expect_label first"
    by (simp_all add: first_def landed_def planned_write_def changed_effect)
  have l: "release_correction (confirmed first)
      = release_correction s + (if landed_within first then landing_error first sdiv 2 else landing_error first)"
    using correction_learnt [OF assms, of first] e c by simp
  have "\<bar>release_correction (confirmed first)\<bar> \<le> 24000000"
    using confirmed_def clamp_limit c(2) by (simp add: confirmed_def Let_def learn_delay_def)
  from landing_planned [OF assms(1) this, of n' t' p']
  have "landing_error (landed d (planned_write n' t' p' (confirmed first)))
      = (if landed_within first then landing_error first - landing_error first sdiv 2 else 0)"
    by (simp add: l e)
  then show ?thesis using e by (simp add: first_def)
qed

definition sample_time :: SyncTime where
  "sample_time = \<lparr>known = True, time_utc = 1900000000, time_leap_second = False, time_leap = no_leap, corrections = 0, time_source = 0\<rparr>"

theorem start_delay_learnt_witness:
  "landing_error (landed 20312500 (planned_write 1 sample_time chip_statics
     (confirmed (landed 20312500 (planned_write 1 sample_time chip_statics rtc_statics))))) = 0"
proof -
  have c: "release_correction rtc_statics = 0"
    by (simp add: rtc_statics_def rtc_state_cleared_def SourceRtcState.defs SourceRtc.defs)
  have "\<bar>20312500 - START_DELAY_TICKS\<bar> \<le> 24000000" "\<bar>release_correction rtc_statics\<bar> \<le> 24000000" by (simp_all add: c rtc_ticks)
  from start_delay_learnt [OF this, of 1 sample_time chip_statics 1 sample_time chip_statics]
  show ?thesis by (auto simp: c rtc_ticks landed_within_def)
qed

text \<open>
  C15: The bound on the predicted time holds: if the anchor's offset is true to within its bound, and
  since then the chip has drifted from the rate in use, as seen against true seconds, by no more
  than the allowance, 10 ppm of a rate learnt or 500 ppm without one, then at every later second
  (less than \<open>2 ^ 31\<close> of them, past which nothing is predicted) at which the bound predicted has not
  saturated at \<open>SOURCE_RTC_BOUND_MAX_NS\<close>, the true offset is within it of the offset predicted. The
  bound saturates at 4.29 s, about five days after the anchor at 10 ppm and 2.4 hours at 500 ppm;
  from there on it can be less than the drift allowed comes to, and nothing is stated.
\<close>

theorem predicted_bound_holds:
  assumes "predict label s = Some (offset, bound)" "bound \<noteq> SOURCE_RTC_BOUND_MAX_NS"
    "elapsed = sint (label - an_utc (anchor s))" "rate = (if rate_valid s then rate_q8 s - oscillator_q16 s sdiv 256 else 0)"
    "\<bar>true_anchor - an_offset_ns (anchor s)\<bar> \<le> uint (an_bound_ns (anchor s))"
    "\<bar>256 * (true_now - true_anchor) - elapsed * rate * 25\<bar> \<le> 256 * (elapsed * (if rate_valid s then 10 else 500) * 1000)"
  shows "\<bar>true_now - offset\<bar> \<le> uint bound"
proof -
  define a where "a = (if rate_valid s then 10 else 500 :: int)"
  have p: "0 \<le> elapsed" "offset = an_offset_ns (anchor s) + (elapsed * rate * 25) sdiv 256"
    "saturate_bound (ucast (an_bound_ns (anchor s)) + word_of_int elapsed * (if rate_valid s then 10 else 500) * 1000) = bound"
    using assms(1,3,4) by (auto simp: predict_def Let_def rtc_ticks SOURCE_RTC_ALLOWANCE_PPM_def SOURCE_RTC_RATE_LIMIT_PPM_def split: if_splits)
  have "elapsed < 2 ^ 31" using sint_lt [of "label - an_utc (anchor s)"] by (simp add: assms(3))
  then have b: "uint bound = uint (an_bound_ns (anchor s)) + elapsed * a * 1000"
    using saturate_exact [OF p(3) assms(2)] allowance_sum [OF p(1), of "if rate_valid s then 10 else 500" "an_bound_ns (anchor s)"]
    by (simp add: a_def split: if_splits)
  have "\<bar>(true_now - true_anchor) - (elapsed * rate * 25) sdiv 256\<bar> \<le> elapsed * a * 1000"
    using assms(6) by (intro drift_rounding) (simp add: a_def)
  then show ?thesis using assms(5) p(2) b by linarith
qed

theorem predicted_bound_holds_witness:
  "\<exists>offset bound. predict 1900086400
       (rtc_statics\<lparr>anchor := \<lparr>an_valid = True, an_aligned = True, an_utc = 1900000000, an_offset_ns = 40, an_bound_ns = 100\<rparr>,
                   rate_valid := True, rate_q8 := -10240\<rparr>) = Some (offset, bound)
     \<and> \<bar>(- 87000000) - offset\<bar> \<le> uint bound \<and> uint bound = 864000100"
proof -
  define s where "s = rtc_statics\<lparr>anchor := \<lparr>an_valid = True, an_aligned = True, an_utc = 1900000000, an_offset_ns = 40, an_bound_ns = 100\<rparr>,
                   rate_valid := True, rate_q8 := -10240\<rparr>"
  have s: "oscillator_q16 s = 0" "anchor s = \<lparr>an_valid = True, an_aligned = True, an_utc = 1900000000, an_offset_ns = 40, an_bound_ns = 100\<rparr>"
    "rate_valid s" "rate_q8 s = -10240"
    by (simp_all add: s_def rtc_statics_def rtc_state_cleared_def SourceRtcState.defs SourceRtc.defs)
  have p: "predict 1900086400 s = Some (-86399960, 864000100)"
    by (simp add: predict_def s rtc_ticks SOURCE_RTC_ALLOWANCE_PPM_def saturate_bound_def SOURCE_RTC_BOUND_MAX_NS_def signed_divide_int_def)
  from predicted_bound_holds [OF p _ refl refl, of 0 "-87000000"]
  have "\<bar>(- 87000000) - (-86399960)\<bar> \<le> uint (864000100 :: u32)"
    by (simp add: s SOURCE_RTC_BOUND_MAX_NS_def)
  then show ?thesis unfolding s_def [symmetric] p by simp
qed

end
