(* ===== verification/Ui.thy ===== *)
theory Ui
  imports Prelude
begin

text \<open>
  The alarm, the buzzer and its beeps, the button and the switch, and the brightness of the tubes
  (\<open>dspic_src/ui/alarm.c\<close>, \<open>beeps.c\<close>, \<open>controls.c\<close>, \<open>brightness.c\<close>, \<open>drivers/buzzer.c\<close>). Timer5 is its
  interrupt, the pins are levels given or counted; printing is left out.
\<close>

section \<open>The code: buzzer\<close>

definition BUZZER_TICK_MS :: u16 where "BUZZER_TICK_MS = 1"

record BuzzerPattern =
  on_ms :: u16
  gap_ms :: u16
  beep_group :: u8
  pause_ms :: u16
  repeats :: bool

definition buzzer_button :: BuzzerPattern where
  "buzzer_button = \<lparr>on_ms = 60, gap_ms = 0, beep_group = 0, pause_ms = 0, repeats = False\<rparr>"
definition buzzer_chime :: BuzzerPattern where
  "buzzer_chime = \<lparr>on_ms = 100, gap_ms = 100, beep_group = 4, pause_ms = 300, repeats = False\<rparr>"
definition buzzer_alarm :: BuzzerPattern where
  "buzzer_alarm = \<lparr>on_ms = 100, gap_ms = 100, beep_group = 4, pause_ms = 500, repeats = True\<rparr>"

datatype BuzzerPriority = BUZZER_PRIORITY_NONE | BUZZER_PRIORITY_BUTTON | BUZZER_PRIORITY_CHIME | BUZZER_PRIORITY_ALARM

fun priority_rank :: "BuzzerPriority \<Rightarrow> nat" where
  "priority_rank BUZZER_PRIORITY_NONE = 0"
| "priority_rank BUZZER_PRIORITY_BUTTON = 1"
| "priority_rank BUZZER_PRIORITY_CHIME = 2"
| "priority_rank BUZZER_PRIORITY_ALARM = 3"

lemma priority_rank_inj: "priority_rank a = priority_rank b \<longleftrightarrow> a = b"
  by (cases a; cases b) simp_all

instantiation BuzzerPriority :: linorder
begin

definition less_eq_BuzzerPriority :: "BuzzerPriority \<Rightarrow> BuzzerPriority \<Rightarrow> bool" where
  "less_eq_BuzzerPriority a b \<longleftrightarrow> priority_rank a \<le> priority_rank b"

definition less_BuzzerPriority :: "BuzzerPriority \<Rightarrow> BuzzerPriority \<Rightarrow> bool" where
  "less_BuzzerPriority a b \<longleftrightarrow> priority_rank a < priority_rank b"

instance
  by standard (auto simp: less_eq_BuzzerPriority_def less_BuzzerPriority_def priority_rank_inj [symmetric])

end

datatype BuzzerStep = STEP_ON | STEP_GAP | STEP_PAUSE

text \<open>\<open>raised\<close> counts how often the pin was set high; the timer runs while \<open>timer_on\<close>.\<close>

record Buzzer =
  pattern :: "BuzzerPattern option"
  playing :: BuzzerPriority
  beep_count :: u8
  beeps_done :: u8
  beep_step :: BuzzerStep
  step_left :: u16
  pin_high :: bool
  raised :: nat
  timer_on :: bool
  buzzer_played :: u32
  buzzer_refused :: u32
  buzzer_stopped :: u32

definition silence :: "Buzzer \<Rightarrow> Buzzer" where
  "silence b = b\<lparr>pin_high := False, playing := BUZZER_PRIORITY_NONE, pattern := None\<rparr>"

definition buzzer_init :: "Buzzer \<Rightarrow> Buzzer" where
  "buzzer_init b = b\<lparr>timer_on := False, pin_high := False, pattern := None, playing := BUZZER_PRIORITY_NONE\<rparr>"

definition beep_on :: "BuzzerPattern \<Rightarrow> Buzzer \<Rightarrow> Buzzer" where
  "beep_on pat b = b\<lparr>beep_step := STEP_ON, step_left := on_ms pat, pin_high := True, raised := raised b + 1\<rparr>"

text \<open>The step after a beep; one of no length goes straight on to the next beep, whose step is
  \<open>beep_on\<close>, so \<open>advance\<close> calls itself at most once.\<close>

definition after_beep :: "BuzzerPattern \<Rightarrow> Buzzer \<Rightarrow> Buzzer" where
  "after_beep pat b0 =
     (let b = b0\<lparr>pin_high := False, beeps_done := beeps_done b0 + 1\<rparr>;
          go = (\<lambda>b. if step_left b = 0 then beep_on pat b else b)
      in if beeps_done b \<ge> beep_count b then
           if \<not> repeats pat then silence b
           else go (b\<lparr>beeps_done := 0, beep_step := STEP_PAUSE, step_left := pause_ms pat\<rparr>)
         else if beep_group pat \<noteq> 0 \<and> beeps_done b mod beep_group pat = 0
         then go (b\<lparr>beep_step := STEP_PAUSE, step_left := pause_ms pat\<rparr>)
         else go (b\<lparr>beep_step := STEP_GAP, step_left := gap_ms pat\<rparr>))"

definition advance :: "BuzzerPattern \<Rightarrow> Buzzer \<Rightarrow> Buzzer" where
  "advance pat b = (if beep_step b \<noteq> STEP_ON then beep_on pat b else after_beep pat b)"

definition T5Interrupt :: "Buzzer \<Rightarrow> Buzzer" where
  "T5Interrupt b =
     (if playing b = BUZZER_PRIORITY_NONE then b\<lparr>timer_on := False\<rparr>
      else if step_left b > BUZZER_TICK_MS then b\<lparr>step_left := step_left b - BUZZER_TICK_MS\<rparr>
      else case pattern b of None \<Rightarrow> b | Some pat \<Rightarrow> advance pat b)"

definition buzzer_play :: "BuzzerPattern \<Rightarrow> u8 \<Rightarrow> BuzzerPriority \<Rightarrow> Buzzer \<Rightarrow> bool \<times> Buzzer" where
  "buzzer_play pat n priority b =
     (if n = 0 \<or> on_ms pat = 0 then (False, b)
      else if playing b > priority then (False, b\<lparr>buzzer_refused := buzzer_refused b + 1\<rparr>)
      else (True, b\<lparr>pattern := Some pat, beep_count := n, beeps_done := 0, beep_step := STEP_ON, step_left := on_ms pat,
                    playing := priority, pin_high := True, raised := raised b + 1, buzzer_played := buzzer_played b + 1,
                    timer_on := True\<rparr>))"

definition buzzer_stop :: "BuzzerPriority \<Rightarrow> Buzzer \<Rightarrow> Buzzer" where
  "buzzer_stop priority b =
     (if playing b = BUZZER_PRIORITY_NONE \<or> playing b > priority then b
      else (silence (b\<lparr>timer_on := False\<rparr>))\<lparr>buzzer_stopped := buzzer_stopped b + 1\<rparr>)"

section \<open>The code: beeps\<close>

definition SECONDS_PER_DAY :: u32 where "SECONDS_PER_DAY = 86400"
definition SECONDS_PER_HOUR :: u32 where "SECONDS_PER_HOUR = 3600"
definition BEEPS_CHIME_INTERVAL_S :: u32 where "BEEPS_CHIME_INTERVAL_S = 900"

definition beeps_chime_count :: "u32 \<Rightarrow> u8" where
  "beeps_chime_count local =
     (let of_day = local mod SECONDS_PER_DAY
      in if of_day mod BEEPS_CHIME_INTERVAL_S \<noteq> 0 then 0
         else if of_day mod SECONDS_PER_HOUR \<noteq> 0 then 1
         else let h = ucast (of_day div SECONDS_PER_HOUR mod 12) :: u8 in if h = 0 then 12 else h)"

definition beeps_epoch :: "bool \<Rightarrow> bool \<Rightarrow> bool \<Rightarrow> u32 \<Rightarrow> Buzzer \<Rightarrow> Buzzer" where
  "beeps_epoch enabled known_time leap local b =
     (if \<not> enabled \<or> \<not> known_time \<or> leap then b
      else let n = beeps_chime_count local in if n \<noteq> 0 then snd (buzzer_play buzzer_chime n BUZZER_PRIORITY_CHIME b) else b)"

definition beeps_button :: "bool \<Rightarrow> Buzzer \<Rightarrow> Buzzer" where
  "beeps_button enabled b = (if enabled then snd (buzzer_play buzzer_button 1 BUZZER_PRIORITY_BUTTON b) else b)"

section \<open>The code: alarm\<close>

definition ALARM_SOUND_S :: u16 where "ALARM_SOUND_S = 120"
definition ALARM_CATCH_UP_S :: u32 where "ALARM_CATCH_UP_S = 7200"

datatype AlarmState = ALARM_OFF | ALARM_DISARMED | ALARM_ARMED | ALARM_SOUNDING

record AlarmStats =
  sounded :: u32
  stopped_by_button :: u32
  stopped_by_switch :: u32
  timed_out :: u32

record Alarm =
  alarm_on :: bool
  time_of_day :: u32
  switch_on :: bool
  sounding :: bool
  sounding_epochs :: u16
  have_last :: bool
  last_local :: u32
  fired :: bool
  fired_day :: u32
  alarm_stats :: AlarmStats

text \<open>\<open>stop\<close> takes the counter as the update of the statistics.\<close>

definition alarm_stop :: "(AlarmStats \<Rightarrow> AlarmStats) \<Rightarrow> Alarm \<Rightarrow> Buzzer \<Rightarrow> Alarm \<times> Buzzer" where
  "alarm_stop count a b =
     (if sounding a
      then (a\<lparr>sounding := False, alarm_stats := count (alarm_stats a)\<rparr>, buzzer_stop BUZZER_PRIORITY_ALARM b)
      else (a, b))"

definition by_switch :: "AlarmStats \<Rightarrow> AlarmStats" where "by_switch s = s\<lparr>stopped_by_switch := stopped_by_switch s + 1\<rparr>"
definition by_button :: "AlarmStats \<Rightarrow> AlarmStats" where "by_button s = s\<lparr>stopped_by_button := stopped_by_button s + 1\<rparr>"
definition by_time :: "AlarmStats \<Rightarrow> AlarmStats" where "by_time s = s\<lparr>timed_out := timed_out s + 1\<rparr>"

definition alarm_init :: "Alarm \<Rightarrow> Alarm" where
  "alarm_init a = a\<lparr>alarm_on := False, time_of_day := 0, switch_on := False, sounding := False, sounding_epochs := 0,
     have_last := False, fired := False, alarm_stats := \<lparr>sounded = 0, stopped_by_button = 0, stopped_by_switch = 0, timed_out = 0\<rparr>\<rparr>"

definition alarm_set :: "bool \<Rightarrow> u32 \<Rightarrow> Alarm \<Rightarrow> Buzzer \<Rightarrow> Alarm \<times> Buzzer" where
  "alarm_set on t a b =
     (if t \<ge> SECONDS_PER_DAY then (a, b)
      else let a1 = (if t \<noteq> time_of_day a then a\<lparr>fired := False\<rparr> else a);
               a2 = a1\<lparr>alarm_on := on, time_of_day := t\<rparr>
           in if \<not> on then alarm_stop by_switch a2 b else (a2, b))"

definition alarm_set_switch :: "bool \<Rightarrow> Alarm \<Rightarrow> Buzzer \<Rightarrow> Alarm \<times> Buzzer" where
  "alarm_set_switch on a b =
     (let a1 = a\<lparr>switch_on := on\<rparr> in if \<not> on then alarm_stop by_switch a1 b else (a1, b))"

definition alarm_press :: "Alarm \<Rightarrow> Buzzer \<Rightarrow> bool \<times> Alarm \<times> Buzzer" where
  "alarm_press a b = (if \<not> sounding a then (False, a, b) else (True, alarm_stop by_button a b))"

definition alarm_reached :: "u32 \<Rightarrow> Alarm \<Rightarrow> u32 option" where
  "alarm_reached local a =
     (if \<not> have_last a \<or> local \<le> last_local a \<or> local - last_local a > ALARM_CATCH_UP_S then None
      else let moment = local - local mod SECONDS_PER_DAY + time_of_day a
           in if moment > local \<and> moment < SECONDS_PER_DAY then None
              else let m = (if moment > local then moment - SECONDS_PER_DAY else moment); day = m div SECONDS_PER_DAY
                   in if m > last_local a \<and> \<not> (fired a \<and> fired_day a = day) then Some day else None)"

definition alarm_timeout :: "Alarm \<Rightarrow> Buzzer \<Rightarrow> Alarm \<times> Buzzer" where
  "alarm_timeout a0 b =
     (if sounding a0
      then let a = a0\<lparr>sounding_epochs := sounding_epochs a0 + 1\<rparr>
           in if sounding_epochs a \<ge> ALARM_SOUND_S then alarm_stop by_time a b else (a, b)
      else (a0, b))"

definition alarm_sound :: "u32 \<Rightarrow> Alarm \<Rightarrow> Buzzer \<Rightarrow> Alarm \<times> Buzzer" where
  "alarm_sound local a b =
     (case (if alarm_on a \<and> switch_on a \<and> \<not> sounding a then alarm_reached local a else None) of
        None \<Rightarrow> (a, b)
      | Some day \<Rightarrow>
          let (ok, b1) = buzzer_play buzzer_alarm (beep_group buzzer_alarm) BUZZER_PRIORITY_ALARM b
          in (a\<lparr>sounding := ok, sounding_epochs := 0, fired := True, fired_day := day,
                alarm_stats := (alarm_stats a)\<lparr>sounded := sounded (alarm_stats a) + 1\<rparr>\<rparr>, b1))"

definition alarm_epoch :: "bool \<Rightarrow> u32 \<Rightarrow> Alarm \<Rightarrow> Buzzer \<Rightarrow> Alarm \<times> Buzzer" where
  "alarm_epoch known_time local a b =
     (let (a1, b1) = alarm_timeout a b
      in if \<not> known_time then (a1\<lparr>have_last := False\<rparr>, b1)
         else let (a2, b2) = alarm_sound local a1 b1 in (a2\<lparr>last_local := local, have_last := True\<rparr>, b2))"

definition alarm_state :: "Alarm \<Rightarrow> AlarmState" where
  "alarm_state a =
     (if \<not> alarm_on a then ALARM_OFF else if sounding a then ALARM_SOUNDING
      else if switch_on a then ALARM_ARMED else ALARM_DISARMED)"

definition alarm_is_set :: "Alarm \<Rightarrow> bool" where
  "alarm_is_set a \<longleftrightarrow> alarm_state a = ALARM_ARMED \<or> alarm_state a = ALARM_SOUNDING"

section \<open>The code: button and switch\<close>

definition CONTROLS_DEBOUNCE_MS :: u32 where "CONTROLS_DEBOUNCE_MS = 30"
definition CONTROLS_LONG_MS :: u32 where "CONTROLS_LONG_MS = 500"

definition time_ms_has_elapsed :: "u32 \<Rightarrow> u32 \<Rightarrow> u32 \<Rightarrow> bool" where
  "time_ms_has_elapsed now previous interval_ms \<longleftrightarrow> now - previous \<ge> interval_ms"

datatype ControlsPress = CONTROLS_NONE | CONTROLS_SHORT | CONTROLS_LONG | CONTROLS_HOLD

record Debounced =
  raw :: bool
  raw_since :: u32
  level :: bool
  level_since :: u32

record Controls =
  button :: Debounced
  toggle :: Debounced
  controls_started :: bool
  long_reported :: bool
  last_press :: ControlsPress
  press_count :: u32
  presses :: "ControlsPress \<Rightarrow> u32"
  switch_changes :: u32
  bounces :: u32

definition debounce_init :: Debounced where
  "debounce_init = \<lparr>raw = False, raw_since = 0, level = False, level_since = 0\<rparr>"

text \<open>Whether the level changes, whether a bounce is counted, and the input after the sample.\<close>

definition debounce :: "bool \<Rightarrow> u32 \<Rightarrow> Debounced \<Rightarrow> bool \<times> bool \<times> Debounced" where
  "debounce r now d =
     (let bounce = (r \<noteq> raw d \<and> raw d \<noteq> level d);
          d1 = (if r \<noteq> raw d then d\<lparr>raw := r, raw_since := now\<rparr> else d)
      in if raw d1 \<noteq> level d1 \<and> time_ms_has_elapsed now (raw_since d1) CONTROLS_DEBOUNCE_MS
         then (True, bounce, d1\<lparr>level := raw d1, level_since := raw_since d1\<rparr>)
         else (False, bounce, d1))"

definition report_press :: "ControlsPress \<Rightarrow> Controls \<Rightarrow> Controls" where
  "report_press p c = c\<lparr>last_press := p, press_count := press_count c + 1, presses := (presses c)(p := presses c p + 1)\<rparr>"

definition controls_init :: Controls where
  "controls_init = \<lparr>button = debounce_init, toggle = debounce_init, controls_started = False, long_reported = False,
     last_press = CONTROLS_NONE, press_count = 0, presses = (\<lambda>_. 0), switch_changes = 0, bounces = 0\<rparr>"

definition count_bounce :: "bool \<Rightarrow> Controls \<Rightarrow> Controls" where
  "count_bounce b c = (if b then c\<lparr>bounces := bounces c + 1\<rparr> else c)"

definition controls_service :: "u32 \<Rightarrow> bool \<Rightarrow> bool \<Rightarrow> Controls \<Rightarrow> Controls" where
  "controls_service now pressed sw c =
     (if \<not> controls_started c then
        c\<lparr>controls_started := True, button := \<lparr>raw = pressed, raw_since = now, level = pressed, level_since = now\<rparr>,
          toggle := \<lparr>raw = sw, raw_since = now, level = sw, level_since = now\<rparr>, long_reported := pressed\<rparr>
      else
        let (changed, bounce, d) = debounce pressed now (button c);
            c1 = count_bounce bounce (c\<lparr>button := d\<rparr>);
            c2 = (if changed \<and> level d then c1\<lparr>long_reported := False\<rparr>
                  else if changed \<and> \<not> long_reported c1 then report_press CONTROLS_SHORT c1 else c1);
            c3 = (if level d \<and> raw d \<and> \<not> long_reported c2 \<and> time_ms_has_elapsed now (level_since d) CONTROLS_LONG_MS
                  then report_press CONTROLS_LONG (c2\<lparr>long_reported := True\<rparr>) else c2);
            (sw_changed, sw_bounce, t) = debounce sw now (toggle c3);
            c4 = count_bounce sw_bounce (c3\<lparr>toggle := t\<rparr>)
        in if sw_changed then c4\<lparr>switch_changes := switch_changes c4 + 1\<rparr> else c4)"

section \<open>The code: brightness\<close>

definition TUBES_BRIGHTNESS_FULL :: u16 where "TUBES_BRIGHTNESS_FULL = 4000"
definition TUBES_BRIGHTNESS_MAX :: u16 where "TUBES_BRIGHTNESS_MAX = 3800"
definition TUBES_BRIGHTNESS_MIN :: u16 where "TUBES_BRIGHTNESS_MIN = 200"
definition TUBES_BRIGHTNESS_DEFAULT :: u16 where "TUBES_BRIGHTNESS_DEFAULT = 2000"
definition BRIGHTNESS_LUX_CONST :: u32 where "BRIGHTNESS_LUX_CONST = 0"
definition BRIGHTNESS_LUX_LINEAR :: u32 where "BRIGHTNESS_LUX_LINEAR = 3"
definition BRIGHTNESS_LUX_SQUARE :: u32 where "BRIGHTNESS_LUX_SQUARE = 0"
definition BRIGHTNESS_STEP :: u16 where "BRIGHTNESS_STEP = 10"

text \<open>What is read of the light sensor's status.\<close>

record LightSensor =
  sensor_present :: bool
  sensor_reads :: u32
  saturated :: bool
  too_dark :: bool
  lux_valid :: bool
  lux_x10 :: u16

record Brightness =
  automatic :: bool
  manual_level :: u16
  target :: u16
  tube_level :: u16

definition brightness_init :: Brightness where
  "brightness_init = \<lparr>automatic = True, manual_level = TUBES_BRIGHTNESS_DEFAULT, target = TUBES_BRIGHTNESS_DEFAULT,
     tube_level = TUBES_BRIGHTNESS_DEFAULT\<rparr>"

definition brightness_set_auto :: "bool \<Rightarrow> Brightness \<Rightarrow> Brightness" where "brightness_set_auto on b = b\<lparr>automatic := on\<rparr>"

definition brightness_set_level :: "u16 \<Rightarrow> Brightness \<Rightarrow> Brightness" where
  "brightness_set_level v b = b\<lparr>manual_level := (if v > TUBES_BRIGHTNESS_FULL then TUBES_BRIGHTNESS_FULL else v)\<rparr>"

definition brightness_from_lux :: "u16 \<Rightarrow> u16" where
  "brightness_from_lux lux =
     (let v = BRIGHTNESS_LUX_CONST + BRIGHTNESS_LUX_LINEAR * ucast lux + BRIGHTNESS_LUX_SQUARE * (ucast lux * ucast lux);
          r = (v + ucast (BRIGHTNESS_STEP div 2)) div ucast BRIGHTNESS_STEP * ucast BRIGHTNESS_STEP
      in if r < ucast TUBES_BRIGHTNESS_MIN then TUBES_BRIGHTNESS_MIN
         else if r > ucast TUBES_BRIGHTNESS_MAX then TUBES_BRIGHTNESS_MAX else ucast r)"

definition auto_target :: "LightSensor \<Rightarrow> Brightness \<Rightarrow> u16" where
  "auto_target l b =
     (if \<not> sensor_present l \<or> sensor_reads l = 0 then manual_level b
      else if saturated l then TUBES_BRIGHTNESS_MAX
      else if too_dark l then TUBES_BRIGHTNESS_MIN
      else if lux_valid l then brightness_from_lux (lux_x10 l) else manual_level b)"

definition step_towards :: "u16 \<Rightarrow> u16 \<Rightarrow> u16" where
  "step_towards a t =
     (if a < t then
        let n = (if a < TUBES_BRIGHTNESS_MIN then TUBES_BRIGHTNESS_MIN else a + BRIGHTNESS_STEP) in if n > t then t else n
      else if a > t then
        let n = (if a > TUBES_BRIGHTNESS_MAX then TUBES_BRIGHTNESS_MAX else if a < BRIGHTNESS_STEP then 0 else a - BRIGHTNESS_STEP)
        in if n < t then t else n
      else a)"

definition brightness_service :: "LightSensor \<Rightarrow> Brightness \<Rightarrow> Brightness" where
  "brightness_service l b0 =
     (let b = b0\<lparr>target := (if automatic b0 then auto_target l b0 else manual_level b0)\<rparr>
      in if tube_level b \<noteq> target b
         then b\<lparr>tube_level := (if automatic b then step_towards (tube_level b) (target b) else target b)\<rparr> else b)"

section \<open>Runs of the alarm and the buzzer\<close>

text \<open>Everything that acts on either: \<open>Epoch\<close> gives the alarm and then the chimes the local time, a
  press is the alarm's first and a click otherwise.\<close>

datatype UiEvent =
  Epoch bool bool bool u32 | Switch bool | Press bool | SetAlarm bool u32 | Timer5

fun ui_step :: "UiEvent \<Rightarrow> Alarm \<times> Buzzer \<Rightarrow> Alarm \<times> Buzzer" where
  "ui_step (Epoch known_time leap beeps local) (a, b) =
     (case alarm_epoch known_time local a b of (a1, b1) \<Rightarrow> (a1, beeps_epoch beeps known_time leap local b1))"
| "ui_step (Switch on) (a, b) = alarm_set_switch on a b"
| "ui_step (Press beeps) (a, b) =
     (case alarm_press a b of (taken, a1, b1) \<Rightarrow> if taken then (a1, b1) else (a1, beeps_button beeps b1))"
| "ui_step (SetAlarm on t) (a, b) = alarm_set on t a b"
| "ui_step Timer5 (a, b) = (a, T5Interrupt b)"

text \<open>The alarm is what the buzzer plays at its priority, and its pattern repeats.\<close>

definition alarm_plays :: "Alarm \<times> Buzzer \<Rightarrow> bool" where
  "alarm_plays s \<longleftrightarrow> (case s of (a, b) \<Rightarrow>
     (sounding a = (playing b = BUZZER_PRIORITY_ALARM))
     \<and> (playing b = BUZZER_PRIORITY_ALARM \<longrightarrow> pattern b = Some buzzer_alarm)
     \<and> ((playing b = BUZZER_PRIORITY_NONE) = (pattern b = None))
     \<and> (playing b \<noteq> BUZZER_PRIORITY_NONE \<longrightarrow> timer_on b))"

lemma rank_simps [simp]:
  "(BUZZER_PRIORITY_CHIME < x) = (x = BUZZER_PRIORITY_ALARM)" "\<not> (BUZZER_PRIORITY_ALARM < x)"
  "(BUZZER_PRIORITY_BUTTON < x) = (x = BUZZER_PRIORITY_CHIME \<or> x = BUZZER_PRIORITY_ALARM)"
  by (cases x; simp add: less_BuzzerPriority_def)+

lemma stop_plays: "alarm_plays (a, b) \<Longrightarrow> alarm_plays (alarm_stop f a b)"
  by (auto simp: alarm_plays_def alarm_stop_def buzzer_stop_def silence_def)

lemma beep_plays:
  "alarm_plays (a, b) \<Longrightarrow> alarm_plays (a, snd (buzzer_play buzzer_chime n BUZZER_PRIORITY_CHIME b))"
  "alarm_plays (a, b) \<Longrightarrow> alarm_plays (a, snd (buzzer_play buzzer_button n BUZZER_PRIORITY_BUTTON b))"
  by (auto simp: alarm_plays_def buzzer_play_def)

lemma alarm_frame [simp]:
  "alarm_plays (a\<lparr>alarm_on := v\<rparr>, b) = alarm_plays (a, b)" "alarm_plays (a\<lparr>time_of_day := t\<rparr>, b) = alarm_plays (a, b)"
  "alarm_plays (a\<lparr>switch_on := v\<rparr>, b) = alarm_plays (a, b)" "alarm_plays (a\<lparr>sounding_epochs := n\<rparr>, b) = alarm_plays (a, b)"
  "alarm_plays (a\<lparr>have_last := v\<rparr>, b) = alarm_plays (a, b)" "alarm_plays (a\<lparr>last_local := t\<rparr>, b) = alarm_plays (a, b)"
  "alarm_plays (a\<lparr>fired := v\<rparr>, b) = alarm_plays (a, b)"
  by (simp_all add: alarm_plays_def)

lemma sound_plays: "\<not> sounding a \<Longrightarrow> buzzer_play buzzer_alarm 4 BUZZER_PRIORITY_ALARM b = (ok, b') \<Longrightarrow>
    alarm_plays (a\<lparr>sounding := ok, sounding_epochs := n, fired := v, fired_day := d, alarm_stats := s\<rparr>, b')"
  by (auto simp: buzzer_play_def buzzer_alarm_def alarm_plays_def)

lemma alarm_group [simp]: "beep_group buzzer_alarm = 4" by (simp add: buzzer_alarm_def)

lemma timeout_plays: "alarm_plays (a, b) \<Longrightarrow> alarm_plays (alarm_timeout a b)"
  by (simp add: alarm_timeout_def Let_def stop_plays)

lemma sound_keeps: "alarm_plays (a, b) \<Longrightarrow> alarm_plays (alarm_sound local a b)"
  using sound_plays [of a] by (auto simp: alarm_sound_def Let_def split: option.split prod.split)

lemma epoch_plays: "alarm_plays (a, b) \<Longrightarrow> alarm_plays (alarm_epoch k local a b)"
proof -
  assume "alarm_plays (a, b)"
  moreover obtain a1 b1 where r: "alarm_timeout a b = (a1, b1)" by (metis prod.exhaust)
  moreover obtain a2 b2 where r2: "alarm_sound local a1 b1 = (a2, b2)" by (metis prod.exhaust)
  ultimately show ?thesis using timeout_plays [of a b] sound_keeps [of a1 b1 local] by (simp add: alarm_epoch_def)
qed

lemma advance_plays: "alarm_plays (a, b) \<Longrightarrow> pattern b = Some pat \<Longrightarrow> alarm_plays (a, advance pat b)"
  by (auto simp: alarm_plays_def advance_def after_beep_def beep_on_def silence_def Let_def buzzer_alarm_def)

lemma ui_step_plays: "alarm_plays s \<Longrightarrow> alarm_plays (ui_step e s)"
proof -
  assume p: "alarm_plays s"
  obtain a b where s: "s = (a, b)" by (cases s)
  show ?thesis
  proof (cases e)
    case (Epoch k l beeps local)
    obtain a1 b1 where r: "alarm_epoch k local a b = (a1, b1)" by (metis prod.exhaust)
    have "alarm_plays (a1, b1)" using epoch_plays [of a b k local] p by (simp add: s r)
    then show ?thesis by (simp add: s Epoch r beeps_epoch_def Let_def beep_plays)
  next
    case (Press beeps)
    obtain a1 b1 where r: "alarm_stop by_button a b = (a1, b1)" by (metis prod.exhaust)
    have "alarm_plays (a1, b1)" using stop_plays [of a b by_button] p by (simp add: s r)
    then show ?thesis using p by (simp add: s Press alarm_press_def r beeps_button_def beep_plays)
  next
    case Timer5
    then show ?thesis using p advance_plays [of a b]
      by (auto simp: s T5Interrupt_def split: option.split) (auto simp: alarm_plays_def)
  qed (use p in \<open>auto simp: s alarm_set_def alarm_set_switch_def Let_def intro!: stop_plays\<close>)
qed

interpretation ui: stepper ui_step "\<lambda>_. True" alarm_plays
  by unfold_locales (rule ui_step_plays)

section \<open>The moment of the alarm\<close>

lemma moment_nat:
  fixes l t r :: nat
  assumes "t < 86400" "r \<le> 7200" "l - r \<le> r'" "r' < l"
  shows "(\<exists>m. r' < m \<and> m \<le> l \<and> m mod 86400 = t \<and> P m) =
    (let m = l - l mod 86400 + t; m' = (if m > l then m - 86400 else m)
     in \<not> (m > l \<and> m < 86400) \<and> r' < m' \<and> P m')"
proof -
  define q s where "q = l div 86400" and "s = l mod 86400"
  have l: "l = q * 86400 + s" "s < 86400" by (simp_all add: q_def s_def)
  have base: "l - l mod 86400 = q * 86400" using l(1) s_def by simp
  have key: "m = (if q * 86400 + t > l then q * 86400 + t - 86400 else q * 86400 + t)"
    if m: "r' < m" "m \<le> l" "m mod 86400 = t" for m
  proof -
    define k where "k = m div 86400"
    have mk: "m = k * 86400 + t" using m(3) by (simp add: k_def flip: m(3))
    have "k \<le> q" using m(2) mk l assms(1) by (metis div_le_mono k_def q_def)
    moreover have "q \<le> k + 1"
    proof (rule ccontr)
      assume "\<not> q \<le> k + 1"
      then have "k + 2 \<le> q" by simp
      then have "(k + 2) * 86400 \<le> q * 86400" by (rule mult_le_mono1)
      then show False using mk l m(1) assms by simp
    qed
    ultimately consider "k = q" | "q = k + 1" by linarith
    then show ?thesis using mk l m assms by cases auto
  qed
  have here: "(q * 86400 + t) mod 86400 = t" using assms(1) by simp
  have before: "(q * 86400 + t - 86400) mod 86400 = t" if "86400 \<le> q * 86400 + t"
  proof -
    have "q \<noteq> 0" using that assms(1) by (intro notI) simp
    then obtain k where "q = Suc k" using not0_implies_Suc by blast
    then have "q * 86400 + t - 86400 = k * 86400 + t" by simp
    then show ?thesis using assms(1) by simp
  qed
  define m0 m1 where "m0 = q * 86400 + t" and "m1 = (if m0 > l then m0 - 86400 else m0)"
  have A: "m = m1 \<and> \<not> (m0 > l \<and> m0 < 86400)" if "r' < m" "m \<le> l" "m mod 86400 = t" for m
  proof -
    have e: "m = m1" using key [OF that] by (simp add: m1_def m0_def)
    have "m1 = 0" if "m0 > l" "m0 < 86400" using that by (simp add: m1_def)
    then show ?thesis using e \<open>r' < m\<close> by auto
  qed
  have B: "m1 \<le> l \<and> m1 mod 86400 = t" if "\<not> (m0 > l \<and> m0 < 86400)"
  proof (cases "m0 > l")
    case True
    then show ?thesis using that before l(2) l(1) assms(1) by (simp add: m1_def m0_def)
  next
    case False
    then show ?thesis using here by (simp add: m1_def m0_def)
  qed
  show ?thesis
    unfolding base Let_def m0_def [symmetric] m1_def [symmetric] using A B by blast
qed

lemma reached_exact:
  assumes "time_of_day a < SECONDS_PER_DAY" "local < 4294944000"
  shows "alarm_reached local a = Some day \<longleftrightarrow>
    have_last a \<and> last_local a < local \<and> local - last_local a \<le> ALARM_CATCH_UP_S
    \<and> (\<exists>m. unat (last_local a) < m \<and> m \<le> unat local \<and> m mod 86400 = unat (time_of_day a)
         \<and> day = of_nat (m div 86400) \<and> \<not> (fired a \<and> fired_day a = day))"
proof (cases "have_last a \<and> last_local a < local \<and> local - last_local a \<le> ALARM_CATCH_UP_S")
  case True
  define l r t where "l = unat local" and "r = unat (last_local a)" and "t = unat (time_of_day a)"
  have "r < l" using True by (simp add: l_def r_def word_less_nat_alt)
  moreover from this have u: "unat (local - last_local a) = l - r" by (simp add: l_def r_def unat_sub word_le_nat_alt)
  moreover have "unat (local - last_local a) \<le> 7200" using True by (simp add: word_le_nat_alt ALARM_CATCH_UP_S_def)
  ultimately have rl: "r < l" "l - r \<le> 7200" by simp_all
  have t: "t < 86400" using assms(1) by (simp add: t_def SECONDS_PER_DAY_def word_less_nat_alt)
  have lim: "l < 4294944000" using assms(2) by (simp add: l_def word_less_nat_alt)
  define base where "base = l - l mod 86400"
  have "base div 86400 \<le> 49709" "base = base div 86400 * 86400"
  proof -
    have "base = l div 86400 * 86400" by (simp add: base_def minus_mod_eq_div_mult)
    then show "base = base div 86400 * 86400" by simp
    show "base div 86400 \<le> 49709" using lim by (simp add: \<open>base = l div 86400 * 86400\<close> less_mult_imp_div_less Suc_le_eq [symmetric])
  qed
  then have fits: "base + t < 4294967296" using t by linarith
  have m: "unat (local - local mod SECONDS_PER_DAY + time_of_day a) = base + t"
  proof -
    have "unat (local - local mod SECONDS_PER_DAY) = base"
      by (simp add: SECONDS_PER_DAY_def base_def l_def unat_sub unat_mod word_le_nat_alt)
    then show ?thesis using fits by (simp add: unat_plus_if' t_def)
  qed
  have gt: "(local - local mod SECONDS_PER_DAY + time_of_day a > local) = (base + t > l)"
    "(local - local mod SECONDS_PER_DAY + time_of_day a < SECONDS_PER_DAY) = (base + t < 86400)"
    by (simp_all only: word_less_nat_alt m l_def) (simp add: SECONDS_PER_DAY_def)
  define moment where "moment = (if local - local mod SECONDS_PER_DAY + time_of_day a > local
      then local - local mod SECONDS_PER_DAY + time_of_day a - SECONDS_PER_DAY
      else local - local mod SECONDS_PER_DAY + time_of_day a)"
  have mu: "unat moment = (if base + t > l then base + t - 86400 else base + t)" if "\<not> (base + t > l \<and> base + t < 86400)"
  proof (cases "base + t > l")
    case True
    then have "86400 \<le> base + t" using that by simp
    then have "SECONDS_PER_DAY \<le> local - local mod SECONDS_PER_DAY + time_of_day a"
      unfolding word_le_nat_alt m by (simp add: SECONDS_PER_DAY_def)
    then show ?thesis using True by (simp add: moment_def gt unat_sub m SECONDS_PER_DAY_def [THEN arg_cong, of unat])
  qed (simp add: moment_def gt m)
  have day: "moment div SECONDS_PER_DAY = of_nat (unat moment div 86400)"
    using le_less_trans [OF div_le_dividend unat_less_of [of moment], of 86400]
    by (simp add: SECONDS_PER_DAY_def word_unat_eq_iff unat_div unat_of_nat take_bit_nat_eq_self)
  have "alarm_reached local a = Some day \<longleftrightarrow> \<not> (base + t > l \<and> base + t < 86400)
      \<and> r < unat moment \<and> day = of_nat (unat moment div 86400) \<and> \<not> (fired a \<and> fired_day a = day)"
  proof -
    have "alarm_reached local a =
        (if \<not> have_last a \<or> local \<le> last_local a \<or> local - last_local a > ALARM_CATCH_UP_S then None
         else if local - local mod SECONDS_PER_DAY + time_of_day a > local
           \<and> local - local mod SECONDS_PER_DAY + time_of_day a < SECONDS_PER_DAY then None
         else if moment > last_local a \<and> \<not> (fired a \<and> fired_day a = moment div SECONDS_PER_DAY)
           then Some (moment div SECONDS_PER_DAY) else None)"
      unfolding alarm_reached_def Let_def moment_def by (rule refl)
    moreover have "\<not> (\<not> have_last a \<or> local \<le> last_local a \<or> local - last_local a > ALARM_CATCH_UP_S)"
      using True by (simp add: not_le not_less)
    moreover have "(moment > last_local a) = (r < unat moment)" by (simp add: r_def word_less_nat_alt)
    ultimately show ?thesis by (auto simp only: gt day if_False if_True option.inject split: if_splits)
  qed
  moreover have "l - (l - r) \<le> r" using rl(1) by simp
  note moment_nat [OF t rl(2) this rl(1), of "\<lambda>m. day = of_nat (m div 86400) \<and> \<not> (fired a \<and> fired_day a = day)"]
  ultimately show ?thesis using True mu
    by (auto simp: Let_def base_def [symmetric] l_def [symmetric] r_def [symmetric] t_def [symmetric] split: if_splits)
qed (auto simp: alarm_reached_def not_less)

section \<open>A pattern that does not repeat\<close>

text \<open>Interrupts until the step's time is up.\<close>

lemma tick_down:
  assumes "playing b \<noteq> BUZZER_PRIORITY_NONE" "pattern b = Some pat" "unat (step_left b) = Suc n"
  shows "(T5Interrupt ^^ Suc n) b = advance pat (b\<lparr>step_left := 1\<rparr>)"
  using assms
proof (induction n arbitrary: b)
  case 0
  then have "step_left b = 1" by (simp add: word_unat_eq_iff)
  moreover from this have e: "b\<lparr>step_left := 1\<rparr> = b" by simp
  ultimately show ?case unfolding e using 0 by (simp add: T5Interrupt_def BUZZER_TICK_MS_def)
next
  case (Suc n)
  have u: "unat (step_left b - 1) = Suc n" using Suc.prems(3) by (simp add: unat_sub word_le_nat_alt)
  have "T5Interrupt b = b\<lparr>step_left := step_left b - 1\<rparr>"
    using Suc.prems by (simp add: T5Interrupt_def BUZZER_TICK_MS_def word_less_nat_alt)
  then have "(T5Interrupt ^^ Suc (Suc n)) b = (T5Interrupt ^^ Suc n) (b\<lparr>step_left := step_left b - 1\<rparr>)"
    by (simp only: funpow_Suc_right o_def)
  also have "\<dots> = advance pat (b\<lparr>step_left := step_left b - 1\<rparr>\<lparr>step_left := 1\<rparr>)"
    using Suc.prems u by (intro Suc.IH) simp_all
  finally show ?case by simp
qed

lemma tick_step:
  assumes "playing b \<noteq> BUZZER_PRIORITY_NONE" "pattern b = Some pat" "step_left b \<noteq> 0"
  shows "\<exists>k. (T5Interrupt ^^ k) b = advance pat (b\<lparr>step_left := 1\<rparr>)"
proof -
  have "unat (step_left b) \<noteq> 0" using assms(3) by (simp add: word_unat_eq_iff)
  then obtain n where "unat (step_left b) = Suc n" using not0_implies_Suc by blast
  then show ?thesis using tick_down [OF assms(1,2)] by blast
qed

lemma funpow_chain: "(f ^^ j) x = y \<Longrightarrow> (f ^^ k) y = z \<Longrightarrow> (f ^^ (k + j)) x = z"
  by (simp add: funpow_add)

text \<open>From the start of a beep to its end, and if it is not the last to the start of the next.\<close>

lemma beep_once:
  assumes "playing b \<noteq> BUZZER_PRIORITY_NONE" "pattern b = Some pat" "\<not> repeats pat" "on_ms pat \<noteq> 0"
    "beep_step b = STEP_ON" "step_left b \<noteq> 0" "beeps_done b < beep_count b"
  shows "\<exists>k. if beeps_done b + 1 = beep_count b
      then (T5Interrupt ^^ k) b = silence (b\<lparr>step_left := 1, beeps_done := beeps_done b + 1, pin_high := False\<rparr>)
      else (T5Interrupt ^^ k) b = beep_on pat (b\<lparr>beeps_done := beeps_done b + 1\<rparr>)"
proof -
  obtain k where k: "(T5Interrupt ^^ k) b = advance pat (b\<lparr>step_left := 1\<rparr>)" using tick_step [OF assms(1,2,6)] by blast
  have next_done: "unat (beeps_done b + 1) = unat (beeps_done b) + 1"
    using assms(7) unat_less_of [of "beep_count b"] by (simp add: unat_plus_if' word_less_nat_alt)
  show ?thesis
  proof (cases "beeps_done b + 1 = beep_count b")
    case True
    then show ?thesis using k assms by (intro exI [of _ k]) (simp add: advance_def after_beep_def Let_def silence_def)
  next
    case False
    then have less: "\<not> beep_count b \<le> beeps_done b + 1"
      using assms(7) next_done by (auto simp: word_le_nat_alt word_less_nat_alt word_unat_eq_iff)
    define c where "c = (if beep_group pat \<noteq> 0 \<and> (beeps_done b + 1) mod beep_group pat = 0
        then b\<lparr>step_left := 1, pin_high := False, beeps_done := beeps_done b + 1, beep_step := STEP_PAUSE, step_left := pause_ms pat\<rparr>
        else b\<lparr>step_left := 1, pin_high := False, beeps_done := beeps_done b + 1, beep_step := STEP_GAP, step_left := gap_ms pat\<rparr>)"
    have adv: "(T5Interrupt ^^ k) b = (if step_left c = 0 then beep_on pat c else c)"
      using k less assms(5) by (simp add: advance_def after_beep_def Let_def c_def)
    have c: "playing c \<noteq> BUZZER_PRIORITY_NONE" "pattern c = Some pat" "beep_step c \<noteq> STEP_ON"
      using assms(1,2) by (simp_all add: c_def)
    have same: "beep_on pat (c\<lparr>step_left := x\<rparr>) = beep_on pat (b\<lparr>beeps_done := beeps_done b + 1\<rparr>)" "beep_on pat c = beep_on pat (b\<lparr>beeps_done := beeps_done b + 1\<rparr>)" for x
      by (simp_all add: beep_on_def c_def)
    show ?thesis
    proof (cases "step_left c = 0")
      case True
      then show ?thesis using adv False same by auto
    next
      case nonzero: False
      obtain j where "(T5Interrupt ^^ j) c = advance pat (c\<lparr>step_left := 1\<rparr>)" using tick_step [OF c(1,2) nonzero] by blast
      then have "(T5Interrupt ^^ j) c = beep_on pat (b\<lparr>beeps_done := beeps_done b + 1\<rparr>)"
        using c(3) same by (simp add: advance_def)
      with adv nonzero have "(T5Interrupt ^^ (j + k)) b = beep_on pat (b\<lparr>beeps_done := beeps_done b + 1\<rparr>)"
        by (intro funpow_chain [of k]) simp_all
      then show ?thesis using False by auto
    qed
  qed
qed

lemma beeps_all:
  assumes "playing b \<noteq> BUZZER_PRIORITY_NONE" "pattern b = Some pat" "\<not> repeats pat" "on_ms pat \<noteq> 0"
    "beep_step b = STEP_ON" "step_left b \<noteq> 0" "unat (beep_count b) = unat (beeps_done b) + Suc n"
  shows "\<exists>k. playing ((T5Interrupt ^^ k) b) = BUZZER_PRIORITY_NONE \<and> \<not> pin_high ((T5Interrupt ^^ k) b)
    \<and> raised ((T5Interrupt ^^ k) b) = raised b + n"
  using assms
proof (induction n arbitrary: b)
  case 0
  have d: "beeps_done b < beep_count b" "beeps_done b + 1 = beep_count b"
    using "0.prems"(7) unat_less_of [of "beep_count b"] by (auto simp: word_less_nat_alt word_unat_eq_iff unat_plus_if')
  obtain k where "(T5Interrupt ^^ k) b = silence (b\<lparr>step_left := 1, beeps_done := beeps_done b + 1, pin_high := False\<rparr>)"
    using beep_once [OF "0.prems"(1-6) d(1)] d(2) by auto
  then show ?case by (intro exI [of _ k]) (simp add: silence_def)
next
  case (Suc n)
  have d: "beeps_done b < beep_count b" using Suc.prems(7) by (simp add: word_less_nat_alt)
  have u: "unat (beeps_done b + 1) = unat (beeps_done b) + 1"
    using Suc.prems(7) unat_less_of [of "beep_count b"] by (simp add: unat_plus_if')
  then have ne: "beeps_done b + 1 \<noteq> beep_count b" using Suc.prems(7) by (auto simp: word_unat_eq_iff)
  define c where "c = beep_on pat (b\<lparr>beeps_done := beeps_done b + 1\<rparr>)"
  obtain k where k: "(T5Interrupt ^^ k) b = c" using beep_once [OF Suc.prems(1-6) d] ne by (auto simp: c_def)
  obtain j where j: "playing ((T5Interrupt ^^ j) c) = BUZZER_PRIORITY_NONE \<and> \<not> pin_high ((T5Interrupt ^^ j) c)
      \<and> raised ((T5Interrupt ^^ j) c) = raised c + n"
    using Suc.IH [of c] Suc.prems u by (auto simp: c_def beep_on_def)
  have "(T5Interrupt ^^ (j + k)) b = (T5Interrupt ^^ j) c" by (rule funpow_chain [OF k refl])
  then show ?case using j by (intro exI [of _ "j + k"]) (simp add: c_def beep_on_def)
qed

section \<open>The button\<close>

text \<open>A sample is a time and the pin's level; the run keeps them, latest first.\<close>

fun debounce_step :: "u32 \<times> bool \<Rightarrow> Debounced \<times> (u32 \<times> bool) list \<Rightarrow> Debounced \<times> (u32 \<times> bool) list" where
  "debounce_step (now, r) (d, seen) = (snd (snd (debounce r now d)), (now, r) # seen)"

definition steady_since :: "u32 \<Rightarrow> bool \<Rightarrow> (u32 \<times> bool) list \<Rightarrow> bool" where
  "steady_since t r seen \<longleftrightarrow> (\<exists>run older. seen = run @ (t, r) # older \<and> list_all (\<lambda>(_, x). x = r) run)"

definition backed :: "Debounced \<times> (u32 \<times> bool) list \<Rightarrow> bool" where
  "backed s \<longleftrightarrow> (case s of (d, seen) \<Rightarrow> steady_since (raw_since d) (raw d) seen)"

lemma steady_more: "steady_since t r seen \<Longrightarrow> steady_since t r ((now, r) # seen)"
proof -
  assume "steady_since t r seen"
  then obtain run older where "seen = run @ (t, r) # older" "list_all (\<lambda>(_, x). x = r) run" by (auto simp: steady_since_def)
  then show ?thesis unfolding steady_since_def by (intro exI [of _ "(now, r) # run"] exI [of _ older]) simp
qed

lemma steady_first: "steady_since now r ((now, r) # seen)"
  unfolding steady_since_def by (intro exI [of _ "[]"] exI [of _ seen]) simp

lemma backed_step: "backed s \<Longrightarrow> backed (debounce_step e s)"
  by (cases s; cases e) (auto simp: backed_def debounce_def Let_def steady_more steady_first)

interpretation debounced: stepper debounce_step "\<lambda>_. True" backed
  by unfold_locales (rule backed_step)

section \<open>Brightness\<close>

lemma fade_up:
  assumes "unat t \<le> 4000" "unat a < unat t"
  shows "unat a < unat (step_towards a t) \<and> unat (step_towards a t) \<le> unat t
    \<and> (step_towards a t = t \<or> unat a + 10 \<le> unat (step_towards a t) \<or> unat (step_towards a t) = 200)"
  using assms
  by (auto simp: step_towards_def Let_def BRIGHTNESS_STEP_def TUBES_BRIGHTNESS_MIN_def word_less_nat_alt unat_plus_if')

lemma fade_down:
  assumes "unat a \<le> 4000" "unat t < unat a"
  shows "unat (step_towards a t) < unat a \<and> unat t \<le> unat (step_towards a t)
    \<and> (unat (step_towards a t) = unat t \<or> unat (step_towards a t) + 10 \<le> unat a \<or> unat (step_towards a t) = 3800)"
  using assms
  by (auto simp: step_towards_def Let_def BRIGHTNESS_STEP_def TUBES_BRIGHTNESS_MAX_def word_less_nat_alt unat_sub word_le_nat_alt)

section \<open>Claims\<close>

text \<open>The statics at power-up.\<close>

definition silent :: Buzzer where
  "silent = \<lparr>pattern = None, playing = BUZZER_PRIORITY_NONE, beep_count = 0, beeps_done = 0, beep_step = STEP_ON, step_left = 0,
     pin_high = False, raised = 0, timer_on = False, buzzer_played = 0, buzzer_refused = 0, buzzer_stopped = 0\<rparr>"

definition alarm_statics :: Alarm where
  "alarm_statics = \<lparr>alarm_on = False, time_of_day = 0, switch_on = False, sounding = False, sounding_epochs = 0, have_last = False,
     last_local = 0, fired = False, fired_day = 0,
     alarm_stats = \<lparr>sounded = 0, stopped_by_button = 0, stopped_by_switch = 0, timed_out = 0\<rparr>\<rparr>"

lemma started_plays: "alarm_plays (alarm_init a, buzzer_init b)"
  by (simp add: alarm_plays_def alarm_init_def buzzer_init_def)

text \<open>
  C24: The alarm sounds exactly at its moments: at an epoch whose time of day is known, the alarm goes
  off just when it is on, armed and not sounding yet, and between the last second known and this
  one, at most two hours apart, lies a moment of its time of day, on a local day on which it has not
  gone off. Moments skipped by a change of the local time are caught, repeated ones are not.
\<close>

theorem alarm_sounds_exactly:
  assumes "time_of_day a < SECONDS_PER_DAY" "local < 4294944000" "\<not> sounding a"
  shows "sounding (fst (alarm_epoch True local a b)) \<longleftrightarrow>
    alarm_on a \<and> switch_on a \<and> have_last a \<and> last_local a < local \<and> local - last_local a \<le> ALARM_CATCH_UP_S
    \<and> (\<exists>m. unat (last_local a) < m \<and> m \<le> unat local \<and> m mod 86400 = unat (time_of_day a)
         \<and> \<not> (fired a \<and> fired_day a = of_nat (m div 86400)))"
proof -
  have "fst (buzzer_play buzzer_alarm 4 BUZZER_PRIORITY_ALARM b)" by (simp add: buzzer_play_def buzzer_alarm_def)
  then obtain b' where play: "buzzer_play buzzer_alarm 4 BUZZER_PRIORITY_ALARM b = (True, b')"
    by (cases "buzzer_play buzzer_alarm 4 BUZZER_PRIORITY_ALARM b") auto
  have "sounding (fst (alarm_epoch True local a b)) \<longleftrightarrow> alarm_on a \<and> switch_on a \<and> (\<exists>day. alarm_reached local a = Some day)"
    using assms(3) play by (cases "alarm_reached local a") (auto simp: alarm_epoch_def alarm_timeout_def alarm_sound_def)
  then show ?thesis unfolding reached_exact [OF assms(1,2)] by blast
qed

theorem alarm_sounds_exactly_witness:
  "sounding (fst (alarm_epoch True 1900007200
     (alarm_statics\<lparr>alarm_on := True, switch_on := True, have_last := True, last_local := 1900000000, time_of_day := 66000\<rparr>) silent))"
proof -
  have "1900000000 div 86400 = (21990 :: nat)" by simp
  then show ?thesis
    using alarm_sounds_exactly [of "alarm_statics\<lparr>alarm_on := True, switch_on := True, have_last := True, last_local := 1900000000,
      time_of_day := 66000\<rparr>" 1900007200 silent]
    by (auto simp: alarm_statics_def SECONDS_PER_DAY_def ALARM_CATCH_UP_S_def intro: exI [of _ "21990 * 86400 + 66000"])
qed

text \<open>
  C23: The buzzer plays the alarm exactly while the alarm is sounding: through any order of epochs,
  chimes, clicks, presses, changes of the switch and the settings, and interrupts of the timer,
  nothing takes the buzzer from a sounding alarm, and a silenced or finished alarm never leaves it on.
\<close>

theorem buzzer_follows_alarm:
  "case fold ui_step es (alarm_init a0, buzzer_init b0) of (a, b) \<Rightarrow>
     (sounding a = (playing b = BUZZER_PRIORITY_ALARM)) \<and> (sounding a = (sounding a \<and> pattern b = Some buzzer_alarm \<and> timer_on b))"
  using ui.run_invar [of es "(alarm_init a0, buzzer_init b0)"] started_plays [of a0 b0]
  by (cases "fold ui_step es (alarm_init a0, buzzer_init b0)") (auto simp: alarm_plays_def list_all_iff)

text \<open>
  A chime has as many beeps as it was asked for, whatever its groups and pauses, those of no
  length included: played on a quiet buzzer, the pin is raised that often and, after so many
  interrupts, low and the buzzer silent.
\<close>

theorem pattern_beeps_counted:
  assumes "\<not> repeats pat" "on_ms pat \<noteq> 0" "n \<noteq> 0" "playing b \<le> priority" "priority \<noteq> BUZZER_PRIORITY_NONE"
  shows "\<exists>k. case (T5Interrupt ^^ k) (snd (buzzer_play pat n priority b)) of b' \<Rightarrow>
      playing b' = BUZZER_PRIORITY_NONE \<and> \<not> pin_high b' \<and> raised b' = raised b + unat n"
proof -
  obtain m where m: "unat n = Suc m" using assms(3) not0_implies_Suc [of "unat n"] by (auto simp: word_unat_eq_iff)
  define c where "c = snd (buzzer_play pat n priority b)"
  have c: "playing c \<noteq> BUZZER_PRIORITY_NONE" "pattern c = Some pat" "beep_step c = STEP_ON" "step_left c = on_ms pat"
    "beep_count c = n" "beeps_done c = 0" "raised c = raised b + 1"
    using assms by (simp_all add: c_def buzzer_play_def leD)
  from beeps_all [OF c(1,2) assms(1,2) c(3)] c(4-7) assms(2) m show ?thesis by (auto simp: c_def)
qed

theorem pattern_beeps_counted_witness:
  "\<exists>k. raised ((T5Interrupt ^^ k) (snd (buzzer_play buzzer_chime 11 BUZZER_PRIORITY_CHIME silent))) = 11"
  using pattern_beeps_counted [of buzzer_chime 11 silent BUZZER_PRIORITY_CHIME]
  by (auto simp: buzzer_chime_def silent_def less_eq_BuzzerPriority_def)

text \<open>
  The level of a debounced input is backed by its pin: when a sample changes it, the pin has read
  the new level in every sample of at least the last 30 ms, and the change is dated by the first
  of them. A bounce shorter than that never gets through.
\<close>

theorem level_backed_by_pin:
  assumes "fold debounce_step samples (\<lparr>raw = l, raw_since = t, level = l, level_since = t\<rparr>, [(t, l)]) = (d, seen)"
    "debounce r now d = (True, bounce, d')"
  shows "level d' = r \<and> (\<exists>run older. (now, r) # seen = run @ (level_since d', r) # older \<and> list_all (\<lambda>(_, x). x = r) run)
    \<and> CONTROLS_DEBOUNCE_MS \<le> now - level_since d'"
proof -
  have "backed (\<lparr>raw = l, raw_since = t, level = l, level_since = t\<rparr>, [(t, l)])"
    unfolding backed_def using steady_first [of t l "[]"] by simp
  from debounced.run_invar [OF _ this, of samples] have "backed (d, seen)" by (simp add: assms(1) list_all_iff)
  then have "backed (debounce_step (now, r) (d, seen))" by (rule backed_step)
  then have "steady_since (raw_since d') (raw d') ((now, r) # seen)" by (simp add: backed_def assms(2))
  moreover have "raw d' = r" "level d' = r" "level_since d' = raw_since d'" "CONTROLS_DEBOUNCE_MS \<le> now - raw_since d'"
    using assms(2) by (auto simp: debounce_def Let_def time_ms_has_elapsed_def split: if_splits)
  ultimately show ?thesis by (simp add: steady_since_def)
qed

theorem level_backed_by_pin_witness:
  "\<exists>bounce d'. debounce True 45 (fst (fold debounce_step [(10, True), (20, True), (30, True), (40, False), (42, True)]
      (\<lparr>raw = False, raw_since = 0, level = False, level_since = 0\<rparr>, [(0, False)]))) = (False, bounce, d')
    \<and> fst (debounce True 75 d') \<and> level (snd (snd (debounce True 75 d')))"
proof -
  let ?d = "fst (fold debounce_step [(10, True), (20, True), (30, True), (40, False), (42, True)]
      (\<lparr>raw = False, raw_since = 0, level = False, level_since = 0\<rparr>, [(0, False)]))"
  obtain bounce d' where d: "debounce True 45 ?d = (False, bounce, d')"
    by (auto simp: debounce_def Let_def time_ms_has_elapsed_def CONTROLS_DEBOUNCE_MS_def)
  obtain bounce2 d2 where d2: "debounce True 75 d' = (True, bounce2, d2)"
    using d by (auto simp: debounce_def Let_def time_ms_has_elapsed_def CONTROLS_DEBOUNCE_MS_def)
  obtain seen where "fold debounce_step [(10, True), (20, True), (30, True), (40, False), (42, True), (45, True)]
      (\<lparr>raw = False, raw_since = 0, level = False, level_since = 0\<rparr>, [(0, False)]) = (d', seen)"
    using d by (auto simp: debounce_def Let_def time_ms_has_elapsed_def CONTROLS_DEBOUNCE_MS_def)
  from level_backed_by_pin [OF this d2] have "level d2" by simp
  then show ?thesis using d d2 by simp
qed

end
