(* ===== verification/Records.thy ===== *)
theory Records
  imports Store_Run Timezone Rtc Ui
begin

text \<open>
  The records the settings keep in the store (\<open>dspic_src/settings/settings.c\<close>): the settings, the
  time zone schedule, the oscillator's estimate and what the RTC source keeps. Each is written to
  bytes and read back with its checks; a packed structure is its bytes in the machine's order
  \<open>little\<close>, as in \<open>Sml_Codec\<close>. The lemmas are the round trips.
\<close>

section \<open>The code: fields of a packed structure\<close>

definition load16 :: "bool \<Rightarrow> u8 list \<Rightarrow> nat \<Rightarrow> u16" where
  "load16 little bs i = native_load16 little (bs ! i) (bs ! (i + 1))"

definition load32 :: "bool \<Rightarrow> u8 list \<Rightarrow> nat \<Rightarrow> u32" where
  "load32 little bs i = native_load32 little (bs ! i) (bs ! (i + 1)) (bs ! (i + 2)) (bs ! (i + 3))"

text \<open>The big-endian reads of \<open>sml_get_u16\<close> and \<open>sml_get_u32\<close> at a place of the record.\<close>

definition get16 :: "u8 list \<Rightarrow> nat \<Rightarrow> u16" where
  "get16 bs i = sml_get_u16 (bs ! i) (bs ! (i + 1))"

definition get32 :: "u8 list \<Rightarrow> nat \<Rightarrow> u32" where
  "get32 bs i = sml_get_u32 (bs ! i) (bs ! (i + 1)) (bs ! (i + 2)) (bs ! (i + 3))"

section \<open>The code: the settings and their check\<close>

record SML_SETTINGS_BODY =
  schema_version :: u16
  set_flags :: u16
  set_base_s :: int
  set_dst_s :: int
  calibration_fosc_hz :: u32
  alarm_offset_s :: u32
  delta_epoch_utc :: u32
  set_brightness :: u16
  selected_display :: u8
  set_reserved :: u8

record SML_STAT_SETTINGS_PAYLOAD =
  stat_flags :: u16
  stat_reserved :: u16
  stat_revision :: u32
  stat_settings :: SML_SETTINGS_BODY

record Values =
  body :: SML_SETTINGS_BODY
  debug_mask :: u16

definition SML_SETTINGS_SCHEMA :: u16 where "SML_SETTINGS_SCHEMA = 1"
definition SML_CLASS_STAT :: u8 where "SML_CLASS_STAT = 0x30"
definition SML_STAT_SETTINGS :: u8 where "SML_STAT_SETTINGS = 0x30"
definition SML_STAT_SETTINGS_BYTES :: nat where "SML_STAT_SETTINGS_BYTES = 36"
definition SML_DISPLAY_HHMM :: u8 where "SML_DISPLAY_HHMM = 1"
definition SML_DISPLAY_DELTA :: u8 where "SML_DISPLAY_DELTA = 6"
definition SML_DISPLAY_UNCERTAINTY :: u8 where "SML_DISPLAY_UNCERTAINTY = 10"
definition SML_DISPLAY_SELECTABLE :: "u8 \<Rightarrow> bool" where
  "SML_DISPLAY_SELECTABLE v \<longleftrightarrow> v \<ge> SML_DISPLAY_HHMM \<and> v \<le> SML_DISPLAY_DELTA \<or> v = SML_DISPLAY_UNCERTAINTY"
definition SML_SETTING_TZ_AUTO :: u16 where "SML_SETTING_TZ_AUTO = 0x0001"
definition SML_SETTING_DST_AUTO :: u16 where "SML_SETTING_DST_AUTO = 0x0002"
definition SML_SETTING_DST_ACTIVE :: u16 where "SML_SETTING_DST_ACTIVE = 0x0004"
definition SML_SETTING_ALARM_ENABLED :: u16 where "SML_SETTING_ALARM_ENABLED = 0x0008"
definition SML_SETTING_BEEP_ENABLED :: u16 where "SML_SETTING_BEEP_ENABLED = 0x0010"
definition SML_SETTING_FORMAT_12H :: u16 where "SML_SETTING_FORMAT_12H = 0x0020"
definition SML_SETTING_BRI_AUTO :: u16 where "SML_SETTING_BRI_AUTO = 0x0040"
definition SML_SETTING_DELTA_LOCAL :: u16 where "SML_SETTING_DELTA_LOCAL = 0x0080"
definition SML_ERROR_NONE :: u8 where "SML_ERROR_NONE = 0"
definition SML_ERROR_ARGUMENT :: u8 where "SML_ERROR_ARGUMENT = 3"
definition SML_ERROR_SCHEMA :: u8 where "SML_ERROR_SCHEMA = 6"
definition DEBUG_NONE :: u16 where "DEBUG_NONE = 0"
definition DEBUG_ALL :: u16 where "DEBUG_ALL = 0x01FF"
definition SETTINGS_FOSC_LIMIT_PPM :: u32 where "SETTINGS_FOSC_LIMIT_PPM = 1000"

definition SYSTEM_FOSC_HZ :: u32 where "SYSTEM_FOSC_HZ = 80000000"
definition FCY :: u32 where "FCY = SYSTEM_FOSC_HZ div 2"

definition FLAGS_DEFINED :: u16 where
  "FLAGS_DEFINED = SML_SETTING_TZ_AUTO OR SML_SETTING_DST_AUTO OR SML_SETTING_DST_ACTIVE OR SML_SETTING_ALARM_ENABLED
     OR SML_SETTING_BEEP_ENABLED OR SML_SETTING_FORMAT_12H OR SML_SETTING_BRI_AUTO OR SML_SETTING_DELTA_LOCAL"

definition FOSC_LIMIT_HZ :: u32 where
  "FOSC_LIMIT_HZ = FCY div 1000000 * SETTINGS_FOSC_LIMIT_PPM"

definition settings_defaults :: SML_SETTINGS_BODY where
  "settings_defaults = \<lparr>schema_version = SML_SETTINGS_SCHEMA,
     set_flags = SML_SETTING_TZ_AUTO OR SML_SETTING_DST_AUTO OR SML_SETTING_BRI_AUTO, set_base_s = 0, set_dst_s = 0,
     calibration_fosc_hz = FCY, alarm_offset_s = 0, delta_epoch_utc = 0,
     set_brightness = TUBES_BRIGHTNESS_DEFAULT, selected_display = SML_DISPLAY_HHMM, set_reserved = 0\<rparr>"

definition settings_check :: "SML_SETTINGS_BODY \<Rightarrow> u8" where
  "settings_check b =
     (if schema_version b \<noteq> SML_SETTINGS_SCHEMA then SML_ERROR_SCHEMA
      else if \<not> SML_DISPLAY_SELECTABLE (selected_display b) \<or> set_flags b AND NOT FLAGS_DEFINED \<noteq> 0 \<or> set_reserved b \<noteq> 0
          \<or> \<not> Timezone.offset_ok (set_base_s b) \<or> \<not> Timezone.offset_ok (set_dst_s b)
          \<or> calibration_fosc_hz b < FCY - FOSC_LIMIT_HZ
          \<or> calibration_fosc_hz b > FCY + FOSC_LIMIT_HZ
          \<or> alarm_offset_s b \<ge> Ui.SECONDS_PER_DAY \<or> set_brightness b > TUBES_BRIGHTNESS_FULL
      then SML_ERROR_ARGUMENT else SML_ERROR_NONE)"

section \<open>The code: the settings record\<close>

definition SETTINGS_RECORD_SETTINGS :: nat where "SETTINGS_RECORD_SETTINGS = 1"
definition SETTINGS_RECORD_VERSION :: u16 where "SETTINGS_RECORD_VERSION = 1"
definition SETTINGS_RECORD_BYTES :: nat where "SETTINGS_RECORD_BYTES = 2 + SML_STAT_SETTINGS_BYTES + 4"

definition body_bytes :: "bool \<Rightarrow> SML_SETTINGS_BODY \<Rightarrow> u8 list" where
  "body_bytes little b =
     native_store16 little (schema_version b) @ native_store16 little (set_flags b)
     @ native_store32 little (word_of_int (set_base_s b)) @ native_store32 little (word_of_int (set_dst_s b))
     @ native_store32 little (calibration_fosc_hz b) @ native_store32 little (alarm_offset_s b)
     @ native_store32 little (delta_epoch_utc b) @ native_store16 little (set_brightness b)
     @ [selected_display b, set_reserved b]"

definition stat_settings_bytes :: "bool \<Rightarrow> SML_STAT_SETTINGS_PAYLOAD \<Rightarrow> u8 list" where
  "stat_settings_bytes little p =
     native_store16 little (stat_flags p) @ native_store16 little (stat_reserved p)
     @ native_store32 little (stat_revision p) @ body_bytes little (stat_settings p)"

definition body_of_bytes :: "bool \<Rightarrow> u8 list \<Rightarrow> SML_SETTINGS_BODY" where
  "body_of_bytes little bs =
     \<lparr>schema_version = load16 little bs 0, set_flags = load16 little bs 2, set_base_s = sint (load32 little bs 4),
      set_dst_s = sint (load32 little bs 8), calibration_fosc_hz = load32 little bs 12, alarm_offset_s = load32 little bs 16,
      delta_epoch_utc = load32 little bs 20, set_brightness = load16 little bs 24, selected_display = bs ! 26,
      set_reserved = bs ! 27\<rparr>"

definition stat_settings_of_bytes :: "bool \<Rightarrow> u8 list \<Rightarrow> SML_STAT_SETTINGS_PAYLOAD" where
  "stat_settings_of_bytes little bs =
     \<lparr>stat_flags = load16 little bs 0, stat_reserved = load16 little bs 2, stat_revision = load32 little bs 4,
      stat_settings = body_of_bytes little (drop 8 bs)\<rparr>"

text \<open>The two calls of the codec, with the message's layout; the table has the message and the
  structure its length, so the \<open>None\<close> cases do not occur.\<close>

definition encode_struct :: "bool \<Rightarrow> u8 \<Rightarrow> u8 \<Rightarrow> u8 list \<Rightarrow> u8 list" where
  "encode_struct little class_id message_id native =
     (case sml_message class_id message_id of None \<Rightarrow> []
      | Some m \<Rightarrow> (case sml_encode little (msg_layout m) native of None \<Rightarrow> [] | Some wire \<Rightarrow> wire))"

definition decode_struct :: "bool \<Rightarrow> u8 \<Rightarrow> u8 \<Rightarrow> u8 list \<Rightarrow> u8 list" where
  "decode_struct little class_id message_id wire =
     (case sml_message class_id message_id of None \<Rightarrow> []
      | Some m \<Rightarrow> (case sml_decode little (msg_layout m) wire of None \<Rightarrow> [] | Some native \<Rightarrow> native))"

definition encode_record :: "bool \<Rightarrow> Values \<Rightarrow> u32 \<Rightarrow> u8 list" where
  "encode_record little v record_revision =
     sml_put_u16 SETTINGS_RECORD_VERSION
     @ encode_struct little SML_CLASS_STAT SML_STAT_SETTINGS
         (stat_settings_bytes little \<lparr>stat_flags = 0, stat_reserved = 0, stat_revision = record_revision, stat_settings = body v\<rparr>)
     @ sml_put_u16 (debug_mask v) @ [0, 0]"

text \<open>The values and their revision, and whether a record was there that cannot be used.\<close>

definition read_record :: "bool \<Rightarrow> Store \<Rightarrow> (Values \<times> u32) option \<times> bool" where
  "read_record little st =
     (case store_read SETTINGS_RECORD_SETTINGS SETTINGS_RECORD_BYTES st of None \<Rightarrow> (None, False)
      | Some r \<Rightarrow>
          if length r \<noteq> SETTINGS_RECORD_BYTES \<or> get16 r 0 \<noteq> SETTINGS_RECORD_VERSION then (None, True)
          else let p = stat_settings_of_bytes little (decode_struct little SML_CLASS_STAT SML_STAT_SETTINGS (drop 2 r))
               in if settings_check (stat_settings p) \<noteq> SML_ERROR_NONE then (None, True)
                  else (Some (\<lparr>body = stat_settings p, debug_mask = get16 r (2 + SML_STAT_SETTINGS_BYTES) AND DEBUG_ALL\<rparr>,
                              stat_revision p), False))"

section \<open>The code: the other records\<close>

definition SETTINGS_RECORD_TIMEZONE :: nat where "SETTINGS_RECORD_TIMEZONE = 2"
definition SETTINGS_RECORD_OSCILLATOR :: nat where "SETTINGS_RECORD_OSCILLATOR = 3"
definition SETTINGS_RECORD_RTC :: nat where "SETTINGS_RECORD_RTC = 4"
definition SETTINGS_OSCILLATOR_VERSION :: u16 where "SETTINGS_OSCILLATOR_VERSION = 1"
definition SETTINGS_OSCILLATOR_BYTES :: nat where "SETTINGS_OSCILLATOR_BYTES = 12"
definition SETTINGS_OSCILLATOR_LIMIT_Q16 :: int where "SETTINGS_OSCILLATOR_LIMIT_Q16 = 4000 * 2 ^ 16"
definition SETTINGS_RTC_VERSION :: u16 where "SETTINGS_RTC_VERSION = 1"
definition SETTINGS_RTC_BYTES :: nat where "SETTINGS_RTC_BYTES = 28"
definition SETTINGS_RTC_ANCHOR :: u16 where "SETTINGS_RTC_ANCHOR = 0x0001"
definition SETTINGS_RTC_ALIGNED :: u16 where "SETTINGS_RTC_ALIGNED = 0x0002"
definition SETTINGS_RTC_RATE :: u16 where "SETTINGS_RTC_RATE = 0x0004"
definition SETTINGS_RTC_WRITE :: u16 where "SETTINGS_RTC_WRITE = 0x0008"
definition SETTINGS_RTC_WRITE_ALIGNED :: u16 where "SETTINGS_RTC_WRITE_ALIGNED = 0x0010"

definition entry_of_bytes :: "bool \<Rightarrow> u8 list \<Rightarrow> SML_TZ_ENTRY" where
  "entry_of_bytes little bs =
     \<lparr>wire_utc = load32 little bs 0, wire_base_s = sint (load32 little bs 4), wire_dst_s = sint (load16 little bs 8),
      wire_flags = bs ! 10, wire_reserved = bs ! 11\<rparr>"

definition state_of_bytes :: "bool \<Rightarrow> u8 list \<Rightarrow> SML_TZ_STATE_PAYLOAD" where
  "state_of_bytes little bs =
     \<lparr>tz_flags = load16 little bs 0, tz_source = bs ! 2, tz_count = bs ! 3, tz_issued_utc = load32 little bs 4,
      tz_horizon_utc = load32 little bs 8, tz_subsecond_ns = sint (load32 little bs 12),
      tz_current = entry_of_bytes little (drop 16 bs),
      tz_next = map (\<lambda>i. entry_of_bytes little (drop (28 + 12 * i) bs)) [0..<8]\<rparr>"

definition timezone_record :: "bool \<Rightarrow> SML_TZ_STATE_PAYLOAD \<Rightarrow> u8 list" where
  "timezone_record little st = encode_struct little SML_CLASS_TZ SML_TZ_STATE (state_bytes little st)"

definition read_timezone :: "bool \<Rightarrow> Store \<Rightarrow> SML_TZ_STATE_PAYLOAD option" where
  "read_timezone little st =
     (case store_read SETTINGS_RECORD_TIMEZONE SML_TZ_STATE_BYTES st of None \<Rightarrow> None
      | Some r \<Rightarrow> if length r \<noteq> SML_TZ_STATE_BYTES then None
                  else Some (state_of_bytes little (decode_struct little SML_CLASS_TZ SML_TZ_STATE r)))"

definition encode_oscillator :: "int \<Rightarrow> u32 \<Rightarrow> u8 list" where
  "encode_oscillator estimate tracked =
     sml_put_u16 SETTINGS_OSCILLATOR_VERSION @ [0, 0] @ sml_put_u32 (word_of_int estimate) @ sml_put_u32 tracked"

text \<open>Whether there is an estimate to start from, and what \<open>*offset_q16\<close> and \<open>*epochs\<close> were set to, if
  they were.\<close>

definition read_oscillator :: "Store \<Rightarrow> bool \<times> (int \<times> u32) option" where
  "read_oscillator st =
     (case store_read SETTINGS_RECORD_OSCILLATOR SETTINGS_OSCILLATOR_BYTES st of None \<Rightarrow> (False, None)
      | Some r \<Rightarrow>
          if length r \<noteq> SETTINGS_OSCILLATOR_BYTES \<or> get16 r 0 \<noteq> SETTINGS_OSCILLATOR_VERSION then (False, None)
          else let estimate = sint (get32 r 4)
               in (estimate \<ge> - SETTINGS_OSCILLATOR_LIMIT_Q16 \<and> estimate \<le> SETTINGS_OSCILLATOR_LIMIT_Q16,
                   Some (estimate, get32 r 8)))"

definition encode_rtc :: "SourceRtcKept \<Rightarrow> u8 list" where
  "encode_rtc k =
     (let a = kept_anchor k; ns = an_offset_ns a;
          seconds = (if ns \<ge> 0 then ns sdiv 1000000000 else - ((- ns + 999999999) sdiv 1000000000));
          flags = (if an_valid a then SETTINGS_RTC_ANCHOR else 0) OR (if an_aligned a then SETTINGS_RTC_ALIGNED else 0)
            OR (if kept_rate_valid k then SETTINGS_RTC_RATE else 0) OR (if kept_write_valid k then SETTINGS_RTC_WRITE else 0)
            OR (if kept_write_aligned k then SETTINGS_RTC_WRITE_ALIGNED else 0)
      in sml_put_u16 SETTINGS_RTC_VERSION @ sml_put_u16 flags @ sml_put_u32 (an_utc a)
         @ sml_put_u32 (word_of_int seconds) @ sml_put_u32 (word_of_int (ns - seconds * 1000000000))
         @ sml_put_u32 (an_bound_ns a) @ sml_put_u32 (word_of_int (kept_rate_q8 k)) @ sml_put_u32 (kept_write_utc k))"

definition read_rtc :: "Store \<Rightarrow> SourceRtcKept option" where
  "read_rtc st =
     (case store_read SETTINGS_RECORD_RTC SETTINGS_RTC_BYTES st of None \<Rightarrow> None
      | Some r \<Rightarrow>
          if length r \<noteq> SETTINGS_RTC_BYTES \<or> get16 r 0 \<noteq> SETTINGS_RTC_VERSION then None
          else let flags = get16 r 2; fraction = get32 r 12
               in if fraction \<ge> 1000000000 then None
                  else Some \<lparr>kept_anchor = \<lparr>an_valid = (flags AND SETTINGS_RTC_ANCHOR \<noteq> 0),
                                an_aligned = (flags AND SETTINGS_RTC_ALIGNED \<noteq> 0), an_utc = get32 r 4,
                                an_offset_ns = sint (get32 r 8) * 1000000000 + uint fraction, an_bound_ns = get32 r 16\<rparr>,
                              kept_rate_valid = (flags AND SETTINGS_RTC_RATE \<noteq> 0), kept_rate_q8 = sint (get32 r 20),
                              kept_write_valid = (flags AND SETTINGS_RTC_WRITE \<noteq> 0),
                              kept_write_aligned = (flags AND SETTINGS_RTC_WRITE_ALIGNED \<noteq> 0),
                              kept_write_utc = get32 r 24\<rparr>)"

section \<open>Lemmas: structures and their bytes\<close>

lemma loads_of_stores:
  "native_load16 little (native_store16 little v ! 0) (native_store16 little v ! Suc 0) = v"
  "native_load32 little (native_store32 little w ! 0) (native_store32 little w ! Suc 0) (native_store32 little w ! 2)
     (native_store32 little w ! 3) = w"
  by (metis native_roundtrip16(1) nth_Cons_0 nth_Cons_Suc)
    (metis native_roundtrip32(1) nth_Cons_0 nth_Cons_Suc numeral_2_eq_2 numeral_3_eq_3)

lemma gets_of_puts:
  "sml_get_u16 (sml_put_u16 v ! 0) (sml_put_u16 v ! Suc 0) = v"
  "sml_get_u32 (sml_put_u32 w ! 0) (sml_put_u32 w ! Suc 0) (sml_put_u32 w ! 2) (sml_put_u32 w ! 3) = w"
  by (simp_all add: sml_put_u16_def sml_put_u32_def numeral_2_eq_2 numeral_3_eq_3)

lemmas field_reads = load16_def load32_def get16_def get32_def nth_append loads_of_stores loads_of_stores [unfolded numeral_2_eq_2] gets_of_puts

lemma sint_of_int: "in_i32 x \<Longrightarrow> sint (word_of_int x :: u32) = x"
  by (rule sint_word_of_int_i32)

lemma sint_of_int16: "- 32768 \<le> x \<Longrightarrow> x < 32768 \<Longrightarrow> sint (word_of_int x :: u16) = x"
  by (simp add: sint_sbintrunc' signed_take_bit_int_eq_self)

lemma length_body: "length (body_bytes little b) = 28" "length (stat_settings_bytes little p) = 36"
  by (simp_all add: body_bytes_def stat_settings_bytes_def)

lemma body_bytes_read:
  assumes "in_i32 (set_base_s b)" "in_i32 (set_dst_s b)"
  shows "body_of_bytes little (body_bytes little b) = b"
  using assms by (cases b) (simp add: body_of_bytes_def body_bytes_def field_reads sint_of_int)

lemma stat_settings_bytes_read:
  assumes "in_i32 (set_base_s (stat_settings p))" "in_i32 (set_dst_s (stat_settings p))"
  shows "stat_settings_of_bytes little (stat_settings_bytes little p) = p"
  using body_bytes_read [OF assms, of little]
  by (cases p) (simp add: stat_settings_of_bytes_def stat_settings_bytes_def field_reads)

lemma length_entry: "length (entry_bytes little e) = 12"
  by (simp add: entry_bytes_def)

definition entry_fits :: "SML_TZ_ENTRY \<Rightarrow> bool" where
  "entry_fits e \<longleftrightarrow> in_i32 (wire_base_s e) \<and> - 32768 \<le> wire_dst_s e \<and> wire_dst_s e < 32768"

lemma entry_bytes_read: "entry_fits e \<Longrightarrow> entry_of_bytes little (entry_bytes little e @ xs) = e"
  by (cases e) (simp add: entry_fits_def entry_of_bytes_def entry_bytes_def field_reads sint_of_int sint_of_int16)

lemma entries_read:
  "list_all entry_fits es \<Longrightarrow> i < length es \<Longrightarrow>
    entry_of_bytes little (drop (12 * i) (concat (map (entry_bytes little) es))) = es ! i"
proof (induction es arbitrary: i)
  case (Cons e es)
  then show ?case by (cases i) (simp_all add: entry_bytes_read length_entry)
qed simp

lemma state_bytes_read:
  assumes "length (tz_next st) = 8" "list_all entry_fits (tz_current st # tz_next st)" "in_i32 (tz_subsecond_ns st)"
  shows "length (state_bytes little st) = 124" "state_of_bytes little (state_bytes little st) = st"
proof -
  define h where "h = native_store16 little (tz_flags st) @ [tz_source st, tz_count st] @ native_store32 little (tz_issued_utc st)
     @ native_store32 little (tz_horizon_utc st) @ native_store32 little (word_of_int (tz_subsecond_ns st))"
  define es where "es = concat (map (entry_bytes little) (tz_next st))"
  have b: "state_bytes little st = h @ entry_bytes little (tz_current st) @ es" by (simp add: state_bytes_def h_def es_def)
  have h: "length h = 16" by (simp add: h_def)
  have "length es = sum_list (map (\<lambda>_. 12) (tz_next st))" by (simp add: es_def length_concat length_entry o_def)
  then have n: "length es = 96" using assms(1) by (simp add: sum_list_triv)
  then show "length (state_bytes little st) = 124" by (simp add: b h length_entry)
  have "entry_of_bytes little (drop (28 + 12 * i) (state_bytes little st)) = tz_next st ! i" if "i < 8" for i
    using entries_read [of "tz_next st" i little] assms that by (simp add: b h length_entry es_def)
  then have "map (\<lambda>i. entry_of_bytes little (drop (28 + 12 * i) (state_bytes little st))) [0..<8] = tz_next st"
    using assms(1) by (intro nth_equalityI) simp_all
  moreover have "load16 little (state_bytes little st) 0 = tz_flags st" "state_bytes little st ! 2 = tz_source st"
    "state_bytes little st ! 3 = tz_count st" "load32 little (state_bytes little st) 4 = tz_issued_utc st"
    "load32 little (state_bytes little st) 8 = tz_horizon_utc st" "sint (load32 little (state_bytes little st) 12) = tz_subsecond_ns st"
    using assms(3) by (simp_all add: b h_def field_reads sint_of_int)
  moreover have "entry_of_bytes little (drop 16 (state_bytes little st)) = tz_current st"
    using assms(2) by (simp add: b h entry_bytes_read)
  ultimately show "state_of_bytes little (state_bytes little st) = st" by (simp add: state_of_bytes_def)
qed

text \<open>A structure through the codec, whatever follows it in the record.\<close>

lemma struct_roundtrip:
  assumes "sml_message c i = Some m" "length native = unat (msg_length m)"
  shows "length (encode_struct little c i native) = unat (msg_length m)"
    "decode_struct little c i (encode_struct little c i native @ rest) = native"
proof -
  have m: "m \<in> set messages" "msg_class m = c" "msg_id m = i"
    using find_message_Some assms(1) by (auto simp: sml_message_def)
  from sml_message_roundtrip [OF m(1) assms(2), of little] obtain wire where
    "sml_encode little (msg_layout m) native = Some wire" "length wire = unat (msg_length m)"
    "\<And>rest. sml_decode little (msg_layout m) (wire @ rest) = Some native" by blast
  then show "length (encode_struct little c i native) = unat (msg_length m)"
    "decode_struct little c i (encode_struct little c i native @ rest) = native"
    by (simp_all add: encode_struct_def decode_struct_def assms(1))
qed

lemma struct_lengths:
  "map_option msg_length (sml_message SML_CLASS_STAT SML_STAT_SETTINGS) = Some 36"
  "map_option msg_length (sml_message SML_CLASS_TZ SML_TZ_STATE) = Some 124"
  by code_simp+

lemmas record_ids = SETTINGS_RECORD_SETTINGS_def SETTINGS_RECORD_TIMEZONE_def SETTINGS_RECORD_OSCILLATOR_def SETTINGS_RECORD_RTC_def
  SETTINGS_RECORD_VERSION_def SETTINGS_RECORD_BYTES_def SML_STAT_SETTINGS_BYTES_def SML_TZ_STATE_BYTES_def
  SETTINGS_OSCILLATOR_VERSION_def SETTINGS_OSCILLATOR_BYTES_def SETTINGS_RTC_VERSION_def SETTINGS_RTC_BYTES_def

section \<open>Lemmas: what is written is read\<close>

definition values_ok :: "Values \<Rightarrow> bool" where
  "values_ok v \<longleftrightarrow> settings_check (body v) = SML_ERROR_NONE \<and> debug_mask v AND DEBUG_ALL = debug_mask v"

lemma checked_fields:
  assumes "settings_check b = SML_ERROR_NONE"
  shows "in_i32 (set_base_s b)" "in_i32 (set_dst_s b)"
  using assms
  by (auto simp: settings_check_def SML_ERROR_NONE_def SML_ERROR_SCHEMA_def SML_ERROR_ARGUMENT_def Timezone.offset_ok_def
      TIMEZONE_OFFSET_LIMIT_S_def in_i32_def split: if_splits)

lemma settings_record_read:
  assumes "values_ok v"
    "store_read SETTINGS_RECORD_SETTINGS SETTINGS_RECORD_BYTES st = Some (encode_record little v n)"
  shows "read_record little st = (Some (v, n), False)"
proof -
  define p where "p = \<lparr>stat_flags = 0, stat_reserved = 0, stat_revision = n, stat_settings = body v\<rparr>"
  obtain m where m: "sml_message SML_CLASS_STAT SML_STAT_SETTINGS = Some m" "msg_length m = 36"
    using struct_lengths(1) by auto
  define w where "w = encode_struct little SML_CLASS_STAT SML_STAT_SETTINGS (stat_settings_bytes little p)"
  have w: "length w = 36" "decode_struct little SML_CLASS_STAT SML_STAT_SETTINGS (w @ rest) = stat_settings_bytes little p" for rest
    using struct_roundtrip [OF m(1), of "stat_settings_bytes little p" little] by (simp_all add: m(2) length_body w_def)
  have r: "encode_record little v n = sml_put_u16 1 @ w @ sml_put_u16 (debug_mask v) @ [0, 0]"
    by (simp add: encode_record_def w_def p_def record_ids)
  have "stat_settings_of_bytes little (stat_settings_bytes little p) = p"
    by (rule stat_settings_bytes_read) (use assms(1) checked_fields in \<open>simp_all add: values_ok_def p_def\<close>)
  moreover have "get16 (encode_record little v n) 0 = 1" "length (encode_record little v n) = 42"
    "get16 (encode_record little v n) 38 = debug_mask v" "drop 2 (encode_record little v n) = w @ sml_put_u16 (debug_mask v) @ [0, 0]"
    by (simp_all add: r w field_reads)
  ultimately show ?thesis
    using assms by (simp add: read_record_def record_ids w p_def Let_def values_ok_def)
qed

lemma length_records:
  "length (encode_record little v n) = 42" "length (encode_oscillator q e) = 12" "length (encode_rtc k) = 28"
proof -
  obtain m where m: "sml_message SML_CLASS_STAT SML_STAT_SETTINGS = Some m" "msg_length m = 36"
    using struct_lengths(1) by auto
  show "length (encode_record little v n) = 42"
    using struct_roundtrip(1) [OF m(1)] by (simp add: encode_record_def m(2) length_body)
qed (simp_all add: encode_oscillator_def encode_rtc_def Let_def)

lemma timezone_record_read:
  assumes "length (tz_next x) = 8" "list_all entry_fits (tz_current x # tz_next x)" "in_i32 (tz_subsecond_ns x)"
  shows "length (timezone_record little x) = 124"
    "store_read SETTINGS_RECORD_TIMEZONE SML_TZ_STATE_BYTES st = Some (timezone_record little x) \<Longrightarrow> read_timezone little st = Some x"
proof -
  note S = state_bytes_read [OF assms]
  obtain m where m: "sml_message SML_CLASS_TZ SML_TZ_STATE = Some m" "msg_length m = 124"
    using struct_lengths(2) by auto
  have w: "length (timezone_record little x) = 124"
    "decode_struct little SML_CLASS_TZ SML_TZ_STATE (timezone_record little x @ rest) = state_bytes little x" for rest
    using struct_roundtrip [OF m(1), of "state_bytes little x" little] by (simp_all add: m(2) S timezone_record_def)
  then show "length (timezone_record little x) = 124"
    "store_read SETTINGS_RECORD_TIMEZONE SML_TZ_STATE_BYTES st = Some (timezone_record little x) \<Longrightarrow> read_timezone little st = Some x"
    using w(2) [of "[]"] S(2) by (simp_all add: read_timezone_def record_ids)
qed

lemma oscillator_record_read:
  assumes "in_i32 q" "store_read SETTINGS_RECORD_OSCILLATOR SETTINGS_OSCILLATOR_BYTES st = Some (encode_oscillator q e)"
  shows "read_oscillator st = (\<bar>q\<bar> \<le> SETTINGS_OSCILLATOR_LIMIT_Q16, Some (q, e))"
proof -
  have "get16 (encode_oscillator q e) 0 = 1" "sint (get32 (encode_oscillator q e) 4) = q" "get32 (encode_oscillator q e) 8 = e"
    using assms(1) by (simp_all add: encode_oscillator_def record_ids field_reads sint_of_int)
  then show ?thesis using assms(2) by (auto simp: read_oscillator_def record_ids length_records Let_def)
qed

text \<open>What fits the record of the RTC: its offset within the seconds of an \<open>int32_t\<close>.\<close>

definition kept_fits :: "SourceRtcKept \<Rightarrow> bool" where
  "kept_fits k \<longleftrightarrow> in_i32 (an_offset_ns (kept_anchor k) div 1000000000) \<and> in_i32 (kept_rate_q8 k)"

lemma floor_seconds:
  "(if ns \<ge> 0 then ns sdiv 1000000000 else - ((- ns + 999999999) sdiv 1000000000)) = ns div (1000000000 :: int)"
  by (auto simp: signed_divide_int_def sgn_if)

lemma flag_bits:
  "((if a then 1 else 0) OR (if b then 2 else 0) OR (if c then 4 else 0) OR (if d then 8 else 0) OR (if e then 16 else (0 :: u16)))
     AND 1 \<noteq> 0 \<longleftrightarrow> a"
  "((if a then 1 else 0) OR (if b then 2 else 0) OR (if c then 4 else 0) OR (if d then 8 else 0) OR (if e then 16 else (0 :: u16)))
     AND 2 \<noteq> 0 \<longleftrightarrow> b"
  "((if a then 1 else 0) OR (if b then 2 else 0) OR (if c then 4 else 0) OR (if d then 8 else 0) OR (if e then 16 else (0 :: u16)))
     AND 4 \<noteq> 0 \<longleftrightarrow> c"
  "((if a then 1 else 0) OR (if b then 2 else 0) OR (if c then 4 else 0) OR (if d then 8 else 0) OR (if e then 16 else (0 :: u16)))
     AND 8 \<noteq> 0 \<longleftrightarrow> d"
  "((if a then 1 else 0) OR (if b then 2 else 0) OR (if c then 4 else 0) OR (if d then 8 else 0) OR (if e then 16 else (0 :: u16)))
     AND 16 \<noteq> 0 \<longleftrightarrow> e"
  by (cases a; cases b; cases c; cases d; cases e; simp)+

lemma rtc_record_read:
  assumes "kept_fits k" "store_read SETTINGS_RECORD_RTC SETTINGS_RTC_BYTES st = Some (encode_rtc k)"
  shows "read_rtc st = Some k"
proof -
  define a where "a = kept_anchor k"
  define ns where "ns = an_offset_ns a"
  define flags where "flags = (if an_valid a then 1 else 0) OR (if an_aligned a then 2 else 0) OR (if kept_rate_valid k then 4 else 0)
     OR (if kept_write_valid k then 8 else 0) OR (if kept_write_aligned k then 16 else (0 :: u16))"
  have frac: "0 \<le> ns mod 1000000000" "ns mod 1000000000 < 1000000000" by simp_all
  have m: "ns - ns div 1000000000 * 1000000000 = ns mod 1000000000" by (rule minus_div_mult_eq_mod)
  have e: "encode_rtc k = sml_put_u16 1 @ sml_put_u16 flags @ sml_put_u32 (an_utc a)
       @ sml_put_u32 (word_of_int (ns div 1000000000)) @ sml_put_u32 (word_of_int (ns mod 1000000000))
       @ sml_put_u32 (an_bound_ns a) @ sml_put_u32 (word_of_int (kept_rate_q8 k)) @ sml_put_u32 (kept_write_utc k)"
    unfolding encode_rtc_def Let_def floor_seconds a_def [symmetric] ns_def [symmetric] m flags_def record_ids
        SETTINGS_RTC_ANCHOR_def SETTINGS_RTC_ALIGNED_def SETTINGS_RTC_RATE_def SETTINGS_RTC_WRITE_def SETTINGS_RTC_WRITE_ALIGNED_def ..
  have g: "get16 (encode_rtc k) 0 = 1" "get16 (encode_rtc k) 2 = flags" "get32 (encode_rtc k) 4 = an_utc a"
    "get32 (encode_rtc k) 8 = word_of_int (ns div 1000000000)" "get32 (encode_rtc k) 12 = word_of_int (ns mod 1000000000)"
    "get32 (encode_rtc k) 16 = an_bound_ns a" "get32 (encode_rtc k) 20 = word_of_int (kept_rate_q8 k)"
    "get32 (encode_rtc k) 24 = kept_write_utc k"
    by (simp_all add: e field_reads)
  have u: "uint (word_of_int (ns mod 1000000000) :: u32) = ns mod 1000000000" using frac by (simp add: uint_word_of_int)
  then have f: "\<not> (1000000000 :: u32) \<le> word_of_int (ns mod 1000000000)" using frac by (simp add: word_le_def)
  have i: "sint (word_of_int (ns div 1000000000) :: u32) = ns div 1000000000" "sint (word_of_int (kept_rate_q8 k) :: u32) = kept_rate_q8 k"
    using assms(1) by (simp_all add: kept_fits_def sint_of_int ns_def a_def)
  note fl = flag_bits [of "an_valid a" "an_aligned a" "kept_rate_valid k" "kept_write_valid k" "kept_write_aligned k", folded flags_def]
  show ?thesis
    unfolding read_rtc_def assms(2) option.case Let_def g(1-8) i u
    by (simp only: length_records f fl SETTINGS_RTC_ANCHOR_def SETTINGS_RTC_ALIGNED_def SETTINGS_RTC_RATE_def SETTINGS_RTC_WRITE_def
        SETTINGS_RTC_WRITE_ALIGNED_def record_ids simp_thms if_False)
      (simp add: a_def ns_def)
qed

end
