(* ===== verification/Settings.thy ===== *)
theory Settings
  imports Records
begin

text \<open>
  The settings and what is kept over a reset (\<open>dspic_src/settings/settings.c\<close>, and the setters of
  \<open>ui/display.c\<close>, \<open>ui/beeps.c\<close> and \<open>console/debug.c\<close> it applies them to). The state is that of the modules
  the settings reach, extended by the statics of \<open>settings.c\<close>; the modules' own operations are those
  of their theories. Printing and the redrawing of the display are left out.
\<close>

section \<open>The code: the modules the settings are applied to\<close>

datatype DisplayMode =
  DISPLAY_MODE_HHMM | DISPLAY_MODE_MMSS | DISPLAY_MODE_SSMM | DISPLAY_MODE_YYYY | DISPLAY_MODE_MMDD
  | DISPLAY_MODE_DELTA | DISPLAY_MODE_UNCERTAINTY

record DisplaySettings =
  mode_selected :: DisplayMode
  mode_shown :: DisplayMode
  twelve_hours :: bool
  delta_epoch :: u32
  delta_local :: bool

definition display_init :: DisplaySettings where
  "display_init = \<lparr>mode_selected = DISPLAY_MODE_HHMM, mode_shown = DISPLAY_MODE_HHMM, twelve_hours = False,
     delta_epoch = 0, delta_local = False\<rparr>"

definition display_set_mode :: "DisplayMode \<Rightarrow> DisplaySettings \<Rightarrow> DisplaySettings" where
  "display_set_mode m d = (if m = mode_selected d then d else d\<lparr>mode_selected := m, mode_shown := m\<rparr>)"

definition display_set_12h :: "bool \<Rightarrow> DisplaySettings \<Rightarrow> DisplaySettings" where
  "display_set_12h on d = d\<lparr>twelve_hours := on\<rparr>"

definition display_set_delta_epoch :: "u32 \<Rightarrow> bool \<Rightarrow> DisplaySettings \<Rightarrow> DisplaySettings" where
  "display_set_delta_epoch t l d = d\<lparr>delta_epoch := t, delta_local := l\<rparr>"

record Modules =
  store_module :: Store
  timezone_module :: Timezone
  brightness_module :: Brightness
  beeps_on :: bool
  alarm_module :: Alarm
  buzzer_module :: Buzzer
  display_module :: DisplaySettings
  debug_bits :: u16
  loop_module :: EpochControl
  rtc_module :: SourceRtc

section \<open>The code: state\<close>

record SettingsStats =
  loaded :: bool
  load_rejected :: bool
  timezone_restored :: bool
  oscillator_restored :: bool
  rtc_restored :: bool
  saves :: u32
  timezone_saves :: u32
  oscillator_saves :: u32
  rtc_saves :: u32
  save_failures :: u32

record Settings = Modules +
  running :: Values
  stored :: Values
  revision :: u32
  have_record :: bool
  save_requested :: bool
  oscillator_requested :: bool
  save_error :: u8
  timezone_pending :: bool
  timezone_changed_epoch :: u32
  settings_stats :: SettingsStats
  have_oscillator :: bool
  kept_oscillator_q16 :: int
  oscillator_saved :: bool
  oscillator_saved_epoch :: u32
  rtc_saved_changes :: u32
  rtc_saved_rtc_changes :: u32
  rtc_saved :: bool
  rtc_saved_epoch :: u32
  rtc_retry :: bool
  rtc_retry_epoch :: u32

definition SML_ERROR_STORAGE :: u8 where "SML_ERROR_STORAGE = 7"
definition SML_ERROR_VERIFY :: u8 where "SML_ERROR_VERIFY = 8"
definition SML_SETTINGS_VALID :: u16 where "SML_SETTINGS_VALID = 1"
definition SML_SETTINGS_DIRTY :: u16 where "SML_SETTINGS_DIRTY = 2"
definition SML_SETTINGS_DEFAULTS :: u16 where "SML_SETTINGS_DEFAULTS = 4"
definition DEBUG_DEFAULT :: u16 where "DEBUG_DEFAULT = DEBUG_NONE"
definition SETTINGS_TIMEZONE_DELAY_EPOCHS :: u32 where "SETTINGS_TIMEZONE_DELAY_EPOCHS = 60"
definition SETTINGS_OSCILLATOR_TRACK_EPOCHS :: u32 where "SETTINGS_OSCILLATOR_TRACK_EPOCHS = 600"
definition SETTINGS_OSCILLATOR_EPOCHS :: u32 where "SETTINGS_OSCILLATOR_EPOCHS = 3600"
definition SETTINGS_OSCILLATOR_CHANGE_Q16 :: int where "SETTINGS_OSCILLATOR_CHANGE_Q16 = 2 * 2 ^ 16"
definition SETTINGS_RTC_EPOCHS :: u32 where "SETTINGS_RTC_EPOCHS = 3600"
definition SETTINGS_RTC_RETRY_EPOCHS :: u32 where "SETTINGS_RTC_RETRY_EPOCHS = 60"

section \<open>The code: applying the settings\<close>

text \<open>For a selectable value; the modes from HHMM to DELTA are in the same order in both.\<close>

definition display_mode_of :: "u8 \<Rightarrow> DisplayMode" where
  "display_mode_of v =
     (if v = SML_DISPLAY_UNCERTAINTY then DISPLAY_MODE_UNCERTAINTY
      else [DISPLAY_MODE_HHMM, DISPLAY_MODE_MMSS, DISPLAY_MODE_SSMM, DISPLAY_MODE_YYYY, DISPLAY_MODE_MMDD, DISPLAY_MODE_DELTA]
             ! unat (v - SML_DISPLAY_HHMM))"

definition flag_set :: "u16 \<Rightarrow> SML_SETTINGS_BODY \<Rightarrow> bool" where
  "flag_set f b \<longleftrightarrow> set_flags b AND f \<noteq> 0"

definition apply_settings :: "Settings \<Rightarrow> Settings" where
  "apply_settings s =
     (let b = body (running s);
          tz = timezone_set_manual (set_base_s b) (set_dst_s b) (flag_set SML_SETTING_DST_ACTIVE b)
                 (timezone_set_dst_auto (flag_set SML_SETTING_DST_AUTO b)
                   (timezone_set_auto (flag_set SML_SETTING_TZ_AUTO b) (timezone_module s)));
          br = brightness_set_auto (flag_set SML_SETTING_BRI_AUTO b)
                 (brightness_set_level (set_brightness b) (brightness_module s));
          (al, bz) = alarm_set (flag_set SML_SETTING_ALARM_ENABLED b) (alarm_offset_s b) (alarm_module s) (buzzer_module s);
          di = display_set_delta_epoch (delta_epoch_utc b) (flag_set SML_SETTING_DELTA_LOCAL b)
                 (display_set_12h (flag_set SML_SETTING_FORMAT_12H b)
                   (display_set_mode (display_mode_of (selected_display b)) (display_module s)))
      in s\<lparr>timezone_module := tz, brightness_module := br, beeps_on := flag_set SML_SETTING_BEEP_ENABLED b,
            alarm_module := al, buzzer_module := bz, display_module := di\<rparr>)"

definition debug_set :: "u16 \<Rightarrow> Settings \<Rightarrow> Settings" where
  "debug_set m s = s\<lparr>debug_bits := m AND DEBUG_ALL\<rparr>"

section \<open>The code: start-up\<close>

text \<open>At start-up what is applied is what the store holds; the flag of a change is taken, for
  nothing is to be written.\<close>

definition restore_timezone :: "bool \<Rightarrow> Settings \<Rightarrow> Settings" where
  "restore_timezone little s =
     (case read_timezone little (store_module s) of None \<Rightarrow> s
      | Some st \<Rightarrow>
          let (r, tz) = timezone_apply little st (timezone_module s)
          in s\<lparr>timezone_module := snd (timezone_take_changed tz),
               settings_stats := (settings_stats s)\<lparr>timezone_restored := (r = TIMEZONE_APPLIED)\<rparr>\<rparr>)"

definition restore_oscillator :: "Settings \<Rightarrow> Settings" where
  "restore_oscillator s =
     (let (ok, r) = read_oscillator (store_module s);
          s1 = s\<lparr>have_oscillator := ok, oscillator_saved := False,
                 kept_oscillator_q16 := (case r of Some (q, _) \<Rightarrow> q | None \<Rightarrow> kept_oscillator_q16 s)\<rparr>
      in if ok then s1\<lparr>loop_module := epoch_control_seed (kept_oscillator_q16 s1) (loop_module s1),
                       settings_stats := (settings_stats s1)\<lparr>oscillator_restored := True\<rparr>\<rparr>
         else s1)"

definition restore_rtc :: "Settings \<Rightarrow> Settings" where
  "restore_rtc s =
     (let s1 = s\<lparr>rtc_saved := False, rtc_retry := False\<rparr>;
          s2 = (case read_rtc (store_module s1) of None \<Rightarrow> s1
                | Some k \<Rightarrow> s1\<lparr>rtc_module := source_rtc_restore k (rtc_module s1),
                                settings_stats := (settings_stats s1)\<lparr>rtc_restored := True\<rparr>\<rparr>)
      in s2\<lparr>rtc_saved_changes := kept_changes (rtc_module s2), rtc_saved_rtc_changes := rtc_changes (rtc_module s2)\<rparr>)"

definition stats_cleared :: SettingsStats where
  "stats_cleared = \<lparr>loaded = False, load_rejected = False, timezone_restored = False, oscillator_restored = False,
     rtc_restored = False, saves = 0, timezone_saves = 0, oscillator_saves = 0, rtc_saves = 0, save_failures = 0\<rparr>"

definition default_values :: Values where
  "default_values = \<lparr>body = settings_defaults, debug_mask = DEBUG_NONE\<rparr>"

definition load_settings :: "bool \<Rightarrow> Settings \<Rightarrow> Settings" where
  "load_settings little s0 =
     (let s = s0\<lparr>save_requested := False, save_error := SML_ERROR_NONE, timezone_pending := False, revision := 0,
                 store_module := store_init (flash (store_module s0)), running := default_values\<rparr>;
          (r, rejected) = read_record little (store_module s)
      in (case r of Some (v, n) \<Rightarrow> s\<lparr>running := v, revision := n, stored := v, have_record := True\<rparr>
          | None \<Rightarrow> s\<lparr>stored := default_values, have_record := False\<rparr>)
           \<lparr>settings_stats := stats_cleared\<lparr>loaded := (r \<noteq> None), load_rejected := rejected\<rparr>\<rparr>)"

definition settings_init :: "bool \<Rightarrow> Settings \<Rightarrow> Settings" where
  "settings_init little s0 =
     (let s = apply_settings (load_settings little s0)
      in restore_rtc (restore_oscillator (restore_timezone little (debug_set (debug_mask (running s) OR DEBUG_DEFAULT) s))))"

section \<open>The code: changing the settings\<close>

definition settings_flags :: "Settings \<Rightarrow> u16" where
  "settings_flags s =
     SML_SETTINGS_VALID
     OR (if body (running s) \<noteq> body (stored s) \<or> debug_mask (running s) \<noteq> debug_mask (stored s) then SML_SETTINGS_DIRTY else 0)
     OR (if body (running s) = settings_defaults then SML_SETTINGS_DEFAULTS else 0)"

definition settings_stat :: "Settings \<Rightarrow> SML_STAT_SETTINGS_PAYLOAD" where
  "settings_stat s = \<lparr>stat_flags = settings_flags s, stat_reserved = 0, stat_revision = revision s,
     stat_settings = body (running s)\<rparr>"

definition settings_write :: "SML_SETTINGS_BODY \<Rightarrow> Settings \<Rightarrow> u8 \<times> Settings" where
  "settings_write b s =
     (let error = settings_check b
      in if error \<noteq> SML_ERROR_NONE then (error, s)
         else (SML_ERROR_NONE,
               if b \<noteq> body (running s)
               then apply_settings (s\<lparr>running := (running s)\<lparr>body := b\<rparr>, revision := revision s + 1\<rparr>) else s))"

definition settings_set_debug :: "u16 \<Rightarrow> Settings \<Rightarrow> Settings" where
  "settings_set_debug m s =
     (let s1 = s\<lparr>running := (running s)\<lparr>debug_mask := m AND DEBUG_ALL\<rparr>\<rparr> in debug_set (debug_mask (running s1)) s1)"

definition settings_restore_defaults :: "Settings \<Rightarrow> Settings" where
  "settings_restore_defaults s = settings_set_debug DEBUG_NONE (snd (settings_write settings_defaults s))"

definition settings_save :: "Settings \<Rightarrow> Settings" where
  "settings_save s = s\<lparr>save_requested := True, oscillator_requested := True\<rparr>"

section \<open>The code: saving\<close>

definition store_error :: "StoreResult \<Rightarrow> u8" where
  "store_error r = (case r of STORE_OK \<Rightarrow> SML_ERROR_NONE | STORE_VERIFY \<Rightarrow> SML_ERROR_VERIFY | _ \<Rightarrow> SML_ERROR_STORAGE)"

definition count_failure :: "Settings \<Rightarrow> Settings" where
  "count_failure s = s\<lparr>settings_stats := (settings_stats s)\<lparr>save_failures := save_failures (settings_stats s) + 1\<rparr>\<rparr>"

definition save_settings :: "bool \<Rightarrow> Settings \<Rightarrow> Settings" where
  "save_settings little s0 =
     (let s = s0\<lparr>save_requested := False\<rparr>
      in if settings_flags s AND SML_SETTINGS_DIRTY = 0 \<and> have_record s then s\<lparr>save_error := SML_ERROR_NONE\<rparr>
         else let (r, st) = store_write SETTINGS_RECORD_SETTINGS (encode_record little (running s) (revision s)) (store_module s);
                  s1 = s\<lparr>store_module := st, save_error := store_error r\<rparr>
              in if save_error s1 = SML_ERROR_NONE
                 then s1\<lparr>stored := running s1, have_record := True,
                         settings_stats := (settings_stats s1)\<lparr>saves := saves (settings_stats s1) + 1\<rparr>\<rparr>
                 else count_failure s1)"

definition save_timezone :: "bool \<Rightarrow> u32 \<Rightarrow> Settings \<Rightarrow> Settings" where
  "save_timezone little epoch s0 =
     (let s = s0\<lparr>timezone_pending := False\<rparr>
      in case timezone_state (timezone_module s) of None \<Rightarrow> s
         | Some x \<Rightarrow>
             let (r, st) = store_write SETTINGS_RECORD_TIMEZONE (timezone_record little x) (store_module s);
                 s1 = s\<lparr>store_module := st\<rparr>
             in if r = STORE_OK
                then s1\<lparr>settings_stats := (settings_stats s1)\<lparr>timezone_saves := timezone_saves (settings_stats s1) + 1\<rparr>\<rparr>
                else (count_failure s1)\<lparr>timezone_pending := True, timezone_changed_epoch := epoch\<rparr>)"

definition oscillator_due :: "u32 \<Rightarrow> bool \<Rightarrow> Settings \<Rightarrow> bool" where
  "oscillator_due epoch asked s =
     (let l = loop_module s
      in if loop_state l \<noteq> EPOCH_STATE_TRACK \<or> \<not> learn_frequency (profile l) \<or> \<not> initialized (pps_kf l)
            \<or> reference_epochs l < SETTINGS_OSCILLATOR_TRACK_EPOCHS then False
         else if \<not> have_oscillator s then True
         else let estimate = kalman_phase_q16 (pps_kf l);
                  change = (if estimate > kept_oscillator_q16 s then i32 (estimate - kept_oscillator_q16 s)
                            else i32 (kept_oscillator_q16 s - estimate))
              in if asked then change \<noteq> 0
                 else change \<ge> SETTINGS_OSCILLATOR_CHANGE_Q16 \<and>
                      (\<not> oscillator_saved s \<or> epoch - oscillator_saved_epoch s \<ge> SETTINGS_OSCILLATOR_EPOCHS))"

definition save_oscillator :: "u32 \<Rightarrow> Settings \<Rightarrow> Settings" where
  "save_oscillator epoch s0 =
     (let l = loop_module s0; estimate = kalman_phase_q16 (pps_kf l);
          s = s0\<lparr>oscillator_saved := True, oscillator_saved_epoch := epoch\<rparr>;
          (r, st) = store_write SETTINGS_RECORD_OSCILLATOR (encode_oscillator estimate (reference_epochs l)) (store_module s);
          s1 = s\<lparr>store_module := st\<rparr>
      in if r = STORE_OK
         then s1\<lparr>have_oscillator := True, kept_oscillator_q16 := estimate,
                 settings_stats := (settings_stats s1)\<lparr>oscillator_saves := oscillator_saves (settings_stats s1) + 1\<rparr>\<rparr>
         else count_failure s1)"

definition rtc_due :: "u32 \<Rightarrow> Settings \<Rightarrow> bool" where
  "rtc_due epoch s =
     (let r = rtc_module s
      in if kept_changes r = rtc_saved_changes s then False
         else if rtc_retry s \<and> epoch - rtc_retry_epoch s < SETTINGS_RTC_RETRY_EPOCHS then False
         else rtc_changes r \<noteq> rtc_saved_rtc_changes s \<or> \<not> rtc_saved s
           \<or> epoch - rtc_saved_epoch s \<ge> SETTINGS_RTC_EPOCHS)"

definition save_rtc :: "u32 \<Rightarrow> Settings \<Rightarrow> Settings" where
  "save_rtc epoch s =
     (let rtc = rtc_module s;
          (r, st) = store_write SETTINGS_RECORD_RTC (encode_rtc (source_rtc_kept rtc)) (store_module s);
          s1 = s\<lparr>store_module := st\<rparr>
      in if r = STORE_OK
         then s1\<lparr>rtc_saved_changes := kept_changes rtc, rtc_saved_rtc_changes := rtc_changes rtc, rtc_saved := True,
                 rtc_saved_epoch := epoch, rtc_retry := False,
                 settings_stats := (settings_stats s1)\<lparr>rtc_saves := rtc_saves (settings_stats s1) + 1\<rparr>\<rparr>
         else count_failure (s1\<lparr>rtc_retry := True, rtc_retry_epoch := epoch\<rparr>))"

definition note_timezone :: "u32 \<Rightarrow> Settings \<Rightarrow> Settings" where
  "note_timezone epoch s =
     (let (changed_now, tz) = timezone_take_changed (timezone_module s); s1 = s\<lparr>timezone_module := tz\<rparr>
      in if changed_now then s1\<lparr>timezone_pending := True, timezone_changed_epoch := epoch\<rparr> else s1)"

definition settings_service :: "bool \<Rightarrow> u32 \<Rightarrow> bool \<Rightarrow> Settings \<Rightarrow> Settings" where
  "settings_service little epoch is_quiet s0 =
     (let s = note_timezone epoch s0
      in if \<not> is_quiet then s
         else if save_requested s then save_settings little s
         else if timezone_pending s \<and> epoch - timezone_changed_epoch s \<ge> SETTINGS_TIMEZONE_DELAY_EPOCHS
         then save_timezone little epoch s
         else if rtc_due epoch s then save_rtc epoch s
         else let asked = oscillator_requested s; s1 = s\<lparr>oscillator_requested := False\<rparr>
              in if oscillator_due epoch asked s1 then save_oscillator epoch s1 else s1)"

end
