(* ===== verification/Settings_Run.thy ===== *)
theory Settings_Run
  imports Settings
begin

text \<open>
  The settings over a life of the clock: changes and saves, the other modules at work, a flash that
  may fail at any operation, and resets. What should be kept is an abstract memory of four cells, set
  as the statistics count a save; the theorems tie what a start finds to it.
\<close>

section \<open>A life of the settings\<close>

text \<open>Start-up (\<open>main.c\<close>): the modules are initialised, then the flash, then the settings. The
  controller's answers are new ones, the cells what the last operation left; \<open>l\<close> and \<open>r\<close> are the loop and
  the RTC source as their own start-up leaves them.\<close>

definition power_up :: "bool \<Rightarrow> (nat \<Rightarrow> bool) \<Rightarrow> EpochControl \<Rightarrow> SourceRtc \<Rightarrow> Settings \<Rightarrow> Settings" where
  "power_up little answers l r s =
     settings_init little
       \<lparr>store_module = (store_module s)\<lparr>flash := snd (flash_init (of_nat FLASH_STORE_BASE) (of_nat FLASH_CONFIG_PAGE)
                                                    ((flash (store_module s))\<lparr>performs := answers\<rparr>))\<rparr>,
        timezone_module = timezone_init, brightness_module = brightness_init, beeps_on = False,
        alarm_module = alarm_init (alarm_module s), buzzer_module = buzzer_init (buzzer_module s),
        display_module = display_init, debug_bits = 0, loop_module = l, rtc_module = r,
        running = default_values, stored = default_values, revision = 0, have_record = False, save_requested = False,
        oscillator_requested = False, save_error = 0, timezone_pending = False, timezone_changed_epoch = 0,
        settings_stats = stats_cleared, have_oscillator = False, kept_oscillator_q16 = 0, oscillator_saved = False,
        oscillator_saved_epoch = 0, rtc_saved_changes = 0, rtc_saved_rtc_changes = 0, rtc_saved = False,
        rtc_saved_epoch = 0, rtc_retry = False, rtc_retry_epoch = 0\<rparr>"

datatype settings_change =
  Write_Settings SML_SETTINGS_BODY | Set_Debug u16 | Restore_Defaults | Ask_Save

fun change_settings :: "settings_change \<Rightarrow> Settings \<Rightarrow> Settings" where
  "change_settings (Write_Settings b) s = snd (settings_write b s)"
| "change_settings (Set_Debug m) s = settings_set_debug m s"
| "change_settings Restore_Defaults s = settings_restore_defaults s"
| "change_settings Ask_Save s = settings_save s"

record Memory =
  kept_values :: "(Values \<times> u32) option"
  kept_zone :: "SML_TZ_STATE_PAYLOAD option"
  kept_estimate :: "(int \<times> u32) option"
  kept_rtc :: "SourceRtcKept option"

definition nothing_kept :: Memory where
  "nothing_kept = \<lparr>kept_values = None, kept_zone = None, kept_estimate = None, kept_rtc = None\<rparr>"

text \<open>Each save the statistics count puts what it saved into its cell.\<close>

definition note_saves :: "Settings \<Rightarrow> Settings \<Rightarrow> Memory \<Rightarrow> Memory" where
  "note_saves s s' g =
     (let a = settings_stats s; b = settings_stats s'
      in \<lparr>kept_values = (if saves b \<noteq> saves a then Some (running s, revision s) else kept_values g),
          kept_zone = (if timezone_saves b \<noteq> timezone_saves a then timezone_state (timezone_module s) else kept_zone g),
          kept_estimate = (if oscillator_saves b \<noteq> oscillator_saves a
                           then Some (kalman_phase_q16 (pps_kf (loop_module s)), reference_epochs (loop_module s))
                           else kept_estimate g),
          kept_rtc = (if rtc_saves b \<noteq> rtc_saves a then Some (source_rtc_kept (rtc_module s)) else kept_rtc g)\<rparr>)"

text \<open>The records that could be written now are recognised by their CRC if cut short.\<close>

definition cuts_show :: "bool \<Rightarrow> Settings \<Rightarrow> bool" where
  "cuts_show little s \<longleftrightarrow>
     cut_detected SETTINGS_RECORD_SETTINGS (encode_record little (running s) (revision s)) \<and>
     (case timezone_state (timezone_module s) of None \<Rightarrow> True
      | Some x \<Rightarrow> cut_detected SETTINGS_RECORD_TIMEZONE (timezone_record little x)) \<and>
     cut_detected SETTINGS_RECORD_OSCILLATOR
       (encode_oscillator (kalman_phase_q16 (pps_kf (loop_module s))) (reference_epochs (loop_module s))) \<and>
     cut_detected SETTINGS_RECORD_RTC (encode_rtc (source_rtc_kept (rtc_module s)))"

text \<open>What the other modules hold fits the records.\<close>

definition modules_fit :: "Settings \<Rightarrow> bool" where
  "modules_fit s \<longleftrightarrow> tz_ok (timezone_module s) \<and> in_i32 (kalman_phase_q16 (pps_kf (loop_module s))) \<and>
     kept_fits (source_rtc_kept (rtc_module s))"

inductive lives :: "bool \<Rightarrow> Settings \<Rightarrow> Memory \<Rightarrow> bool" for little where
  first: "\<not> fst (header_valid 0 (flash (store_module s))) \<Longrightarrow> \<not> fst (header_valid 1 (flash (store_module s))) \<Longrightarrow>
    modules_fit (power_up little answers l r s) \<Longrightarrow> lives little (power_up little answers l r s) nothing_kept"
| change: "lives little s g \<Longrightarrow> lives little (change_settings c s) g"
| service: "lives little s g \<Longrightarrow> cuts_show little s \<Longrightarrow> s' = settings_service little epoch is_quiet s \<Longrightarrow>
    lives little s' (note_saves s s' g)"
| others: "lives little s g \<Longrightarrow>
    s' = s\<lparr>timezone_module := tz, brightness_module := br, beeps_on := be, alarm_module := al, buzzer_module := bz,
           display_module := di, loop_module := l, rtc_module := r\<rparr> \<Longrightarrow>
    modules_fit s' \<Longrightarrow> lives little s' g"
| power: "lives little s g \<Longrightarrow> modules_fit (power_up little answers l r s) \<Longrightarrow> lives little (power_up little answers l r s) g"

section \<open>What the operations leave alone\<close>

lemma apply_frame [simp]:
  "store_module (apply_settings s) = store_module s" "loop_module (apply_settings s) = loop_module s"
  "rtc_module (apply_settings s) = rtc_module s" "running (apply_settings s) = running s" "stored (apply_settings s) = stored s"
  "revision (apply_settings s) = revision s" "have_record (apply_settings s) = have_record s"
  "settings_stats (apply_settings s) = settings_stats s" "debug_bits (apply_settings s) = debug_bits s"
  "schedule (timezone_module (apply_settings s)) = schedule (timezone_module s)"
  "Timezone.changed (timezone_module (apply_settings s)) = Timezone.changed (timezone_module s)"
  "have_oscillator (apply_settings s) = have_oscillator s" "save_requested (apply_settings s) = save_requested s"
  by (simp_all add: apply_settings_def Let_def timezone_set_manual_def timezone_set_dst_auto_def timezone_set_auto_def split: prod.split)

lemma tz_ok_apply [simp]: "tz_ok (timezone_module (apply_settings s)) = tz_ok (timezone_module s)"
  by (simp add: apply_settings_def Let_def tz_ok_fields split: prod.split)

lemma debug_frame [simp]:
  "store_module (debug_set m s) = store_module s" "loop_module (debug_set m s) = loop_module s" "rtc_module (debug_set m s) = rtc_module s"
  "timezone_module (debug_set m s) = timezone_module s" "running (debug_set m s) = running s" "stored (debug_set m s) = stored s"
  "have_record (debug_set m s) = have_record s" "settings_stats (debug_set m s) = settings_stats s" "revision (debug_set m s) = revision s"
  by (simp_all add: debug_set_def)

lemma failure_frame [simp]:
  "store_module (count_failure s) = store_module s" "loop_module (count_failure s) = loop_module s"
  "rtc_module (count_failure s) = rtc_module s" "timezone_module (count_failure s) = timezone_module s"
  "running (count_failure s) = running s" "stored (count_failure s) = stored s" "have_record (count_failure s) = have_record s"
  "revision (count_failure s) = revision s" "saves (settings_stats (count_failure s)) = saves (settings_stats s)"
  "timezone_saves (settings_stats (count_failure s)) = timezone_saves (settings_stats s)"
  "oscillator_saves (settings_stats (count_failure s)) = oscillator_saves (settings_stats s)"
  "rtc_saves (settings_stats (count_failure s)) = rtc_saves (settings_stats s)"
  by (simp_all add: count_failure_def)

section \<open>What is remembered\<close>

definition memory_map :: "bool \<Rightarrow> Memory \<Rightarrow> written" where
  "memory_map little g = (\<lambda>t.
     if t = SETTINGS_RECORD_SETTINGS then map_option (\<lambda>(v, n). encode_record little v n) (kept_values g)
     else if t = SETTINGS_RECORD_TIMEZONE then map_option (timezone_record little) (kept_zone g)
     else if t = SETTINGS_RECORD_OSCILLATOR then map_option (\<lambda>(q, e). encode_oscillator q e) (kept_estimate g)
     else if t = SETTINGS_RECORD_RTC then map_option encode_rtc (kept_rtc g) else None)"

definition zone_fits :: "SML_TZ_STATE_PAYLOAD \<Rightarrow> bool" where
  "zone_fits x \<longleftrightarrow> length (tz_next x) = 8 \<and> list_all entry_fits (tz_current x # tz_next x) \<and> in_i32 (tz_subsecond_ns x)"

definition memory_fits :: "Memory \<Rightarrow> bool" where
  "memory_fits g \<longleftrightarrow> pred_option (values_ok \<circ> fst) (kept_values g) \<and> pred_option zone_fits (kept_zone g) \<and>
     pred_option (in_i32 \<circ> fst) (kept_estimate g) \<and> pred_option kept_fits (kept_rtc g)"

definition stored_as :: "Memory \<Rightarrow> Settings \<Rightarrow> bool" where
  "stored_as g s \<longleftrightarrow> have_record s = (kept_values g \<noteq> None) \<and>
     stored s = (case kept_values g of None \<Rightarrow> default_values | Some (v, n) \<Rightarrow> v)"

definition remembers :: "bool \<Rightarrow> Settings \<Rightarrow> Memory \<Rightarrow> bool" where
  "remembers little s g \<longleftrightarrow> keeps (store_module s, memory_map little g) \<and> memory_fits g \<and> stored_as g s \<and>
     values_ok (running s) \<and> modules_fit s"

lemma zone_of_schedule:
  assumes "tz_ok tz" "timezone_state tz = Some x"
  shows "zone_fits x"
proof -
  note S = state_entries [OF assms]
  have sch: "tz_ok tz" "held (schedule tz)" using assms(1) S(1) by simp_all
  have e: "list_all entry_fits (map wire_entry (used (schedule tz)))"
    using sch by (auto simp: tz_ok_def Let_def list_all_iff entry_fits_def wire_entry_def in_i32_def)
  have n: "tz_next x = map wire_entry (take (unat (count (schedule tz)) - 1) (tl (entries (schedule tz))))
      @ replicate (8 - (unat (count (schedule tz)) - 1)) blank_wire_entry" "tz_current x = wire_entry (entries (schedule tz) ! 0)"
    "tz_subsecond_ns x = subsecond_offset_ns (schedule tz)"
    using assms(2) S(1) by (auto simp: timezone_state_def Let_def)
  have c: "1 \<le> unat (count (schedule tz))" "length (entries (schedule tz)) = 9" using sch by (simp_all add: tz_ok_def Let_def)
  then have "used (schedule tz) = entries (schedule tz) ! 0 # take (unat (count (schedule tz)) - 1) (tl (entries (schedule tz)))"
    using used_cons [OF sch] by simp
  moreover have "entry_fits blank_wire_entry" by (simp add: entry_fits_def blank_wire_entry_def in_i32_def)
  ultimately have "list_all entry_fits (tz_current x # tz_next x)"
    using e by (auto simp: n list_all_iff)
  moreover have "in_i32 (tz_subsecond_ns x)" using sch by (simp add: n tz_ok_def Let_def in_i32_def abs_less_iff)
  ultimately show ?thesis using S(4) by (simp add: zone_fits_def)
qed

lemma write_keeps:
  assumes "keeps (st, m)" "cut_detected t d" "store_write t d st = (r, st')"
  shows "keeps (st', if r = STORE_OK then m(t := Some d) else m)"
  using keeps_event [OF assms(1), of "Write t d"] assms(2,3) by simp

lemma memory_map_saved:
  "(memory_map little g)(SETTINGS_RECORD_SETTINGS := Some (encode_record little v n)) = memory_map little (g\<lparr>kept_values := Some (v, n)\<rparr>)"
  "(memory_map little g)(SETTINGS_RECORD_TIMEZONE := Some (timezone_record little x)) = memory_map little (g\<lparr>kept_zone := Some x\<rparr>)"
  "(memory_map little g)(SETTINGS_RECORD_OSCILLATOR := Some (encode_oscillator q e)) = memory_map little (g\<lparr>kept_estimate := Some (q, e)\<rparr>)"
  "(memory_map little g)(SETTINGS_RECORD_RTC := Some (encode_rtc k)) = memory_map little (g\<lparr>kept_rtc := Some k\<rparr>)"
  by (auto simp: memory_map_def record_ids)

lemma defaults_ok: "values_ok default_values"
  by code_simp

lemma values_ok_body: "values_ok v \<Longrightarrow> settings_check b = SML_ERROR_NONE \<Longrightarrow> values_ok (v\<lparr>body := b\<rparr>)"
  by (simp add: values_ok_def)

lemma remembers_write: "remembers little s g \<Longrightarrow> remembers little (snd (settings_write b s)) g"
  by (auto simp: remembers_def settings_write_def Let_def stored_as_def modules_fit_def values_ok_body split: option.splits)

lemma remembers_debug: "remembers little s g \<Longrightarrow> remembers little (settings_set_debug m s) g"
  by (simp add: remembers_def settings_set_debug_def Let_def stored_as_def modules_fit_def values_ok_def and.assoc)

lemma remembers_change: "remembers little s g \<Longrightarrow> remembers little (change_settings c s) g"
proof (cases c)
  case Ask_Save
  then show "remembers little s g \<Longrightarrow> ?thesis"
    by (simp add: settings_save_def remembers_def stored_as_def modules_fit_def)
qed (simp_all add: remembers_write remembers_debug settings_restore_defaults_def)

text \<open>The four saves. A write that fails leaves the cells as they are, by the store's own promise.\<close>

lemma remembers_fields:
  "remembers little s g \<Longrightarrow> store_module s' = store_module s \<Longrightarrow> timezone_module s' = timezone_module s \<Longrightarrow>
   loop_module s' = loop_module s \<Longrightarrow> rtc_module s' = rtc_module s \<Longrightarrow> running s' = running s \<Longrightarrow> stored s' = stored s \<Longrightarrow>
   have_record s' = have_record s \<Longrightarrow> remembers little s' g"
  by (simp add: remembers_def stored_as_def modules_fit_def)

definition counts :: "Settings \<Rightarrow> u32 \<times> u32 \<times> u32 \<times> u32" where
  "counts s = (saves (settings_stats s), timezone_saves (settings_stats s), oscillator_saves (settings_stats s), rtc_saves (settings_stats s))"

lemma note_nothing: "counts s' = counts s \<Longrightarrow> note_saves s s' g = g"
  by (simp add: counts_def note_saves_def Let_def)

lemma remembers_saved:
  assumes R: "remembers little s g" and w: "store_write t d (store_module s) = (r, st)" and c: "cut_detected t d"
    and g': "(memory_map little g)(t := Some d) = memory_map little g'" "memory_fits g'"
    and s': "store_module s' = st" "timezone_module s' = timezone_module s" "loop_module s' = loop_module s"
      "rtc_module s' = rtc_module s" "running s' = running s"
    and ok: "r = STORE_OK \<Longrightarrow> stored_as g' s' \<and> note_saves s s' g = g'"
    and failed: "r \<noteq> STORE_OK \<Longrightarrow> stored s' = stored s \<and> have_record s' = have_record s \<and> counts s' = counts s"
  shows "remembers little s' (note_saves s s' g)"
proof -
  have K: "keeps (store_module s, memory_map little g)" "memory_fits g" "stored_as g s" "values_ok (running s)" "modules_fit s"
    using R by (simp_all add: remembers_def)
  show ?thesis
  proof (cases "r = STORE_OK")
    case True
    then show ?thesis using write_keeps [OF K(1) c w] K g' s' ok by (simp add: remembers_def modules_fit_def)
  next
    case False
    then show ?thesis
      using write_keeps [OF K(1) c w] K s' failed by (simp add: remembers_def modules_fit_def stored_as_def note_nothing)
  qed
qed

lemma remembers_unsaved:
  assumes "remembers little s g" "store_module s' = store_module s" "timezone_module s' = timezone_module s"
    "loop_module s' = loop_module s" "rtc_module s' = rtc_module s" "running s' = running s" "stored s' = stored s"
    "have_record s' = have_record s" "counts s' = counts s"
  shows "remembers little s' (note_saves s s' g)"
  using remembers_fields [OF assms(1-8)] note_nothing [OF assms(9)] by simp

lemma memory_parts:
  "remembers little s g \<Longrightarrow> memory_fits g" "remembers little s g \<Longrightarrow> stored_as g s" "remembers little s g \<Longrightarrow> values_ok (running s)"
  "remembers little s g \<Longrightarrow> tz_ok (timezone_module s)" "remembers little s g \<Longrightarrow> in_i32 (kalman_phase_q16 (pps_kf (loop_module s)))"
  "remembers little s g \<Longrightarrow> kept_fits (source_rtc_kept (rtc_module s))"
  "remembers little s g \<Longrightarrow> keeps (store_module s, memory_map little g)"
  by (simp_all add: remembers_def modules_fit_def)

lemma saved_result: "store_error r = SML_ERROR_NONE \<longleftrightarrow> r = STORE_OK"
  by (cases r) (simp_all add: store_error_def SML_ERROR_NONE_def SML_ERROR_STORAGE_def SML_ERROR_VERIFY_def)

lemma flags_frame [simp]: "settings_flags (s\<lparr>save_requested := x\<rparr>) = settings_flags s"
  by (simp add: settings_flags_def)

lemma remembers_save_settings:
  assumes R: "remembers little s g" and c: "cut_detected SETTINGS_RECORD_SETTINGS (encode_record little (running s) (revision s))"
  shows "remembers little (save_settings little s) (note_saves s (save_settings little s) g)"
proof (cases "settings_flags s AND SML_SETTINGS_DIRTY = 0 \<and> have_record s")
  case True
  then have s': "save_settings little s = s\<lparr>save_requested := False, save_error := SML_ERROR_NONE\<rparr>"
    by (simp add: save_settings_def)
  show ?thesis by (rule remembers_unsaved [OF R]) (simp_all add: s' counts_def)
next
  case clean: False
  obtain r st where w: "store_write SETTINGS_RECORD_SETTINGS (encode_record little (running s) (revision s)) (store_module s) = (r, st)"
    by fastforce
  define s1 where "s1 = s\<lparr>save_requested := False, store_module := st, save_error := store_error r\<rparr>"
  have sv: "save_settings little s = (if r = STORE_OK
      then s1\<lparr>stored := running s1, have_record := True,
              settings_stats := (settings_stats s1)\<lparr>saves := saves (settings_stats s1) + 1\<rparr>\<rparr> else count_failure s1)"
    using clean by (auto simp: save_settings_def Let_def w s1_def saved_result)
  show ?thesis
    by (rule remembers_saved [OF R w c memory_map_saved(1)])
      (use memory_parts [OF R] in \<open>simp_all add: sv s1_def memory_fits_def stored_as_def counts_def note_saves_def Let_def\<close>)
qed

lemma remembers_save_timezone:
  assumes R: "remembers little s g"
    and c: "case timezone_state (timezone_module s) of None \<Rightarrow> True | Some x \<Rightarrow> cut_detected SETTINGS_RECORD_TIMEZONE (timezone_record little x)"
  shows "remembers little (save_timezone little epoch s) (note_saves s (save_timezone little epoch s) g)"
proof (cases "timezone_state (timezone_module s)")
  case None
  then have s': "save_timezone little epoch s = s\<lparr>timezone_pending := False\<rparr>" by (simp add: save_timezone_def)
  show ?thesis by (rule remembers_unsaved [OF R]) (simp_all add: s' counts_def)
next
  case (Some x)
  obtain r st where w: "store_write SETTINGS_RECORD_TIMEZONE (timezone_record little x) (store_module s) = (r, st)" by fastforce
  define s1 where "s1 = s\<lparr>timezone_pending := False, store_module := st\<rparr>"
  have sv: "save_timezone little epoch s = (if r = STORE_OK
      then s1\<lparr>settings_stats := (settings_stats s1)\<lparr>timezone_saves := timezone_saves (settings_stats s1) + 1\<rparr>\<rparr>
      else (count_failure s1)\<lparr>timezone_pending := True, timezone_changed_epoch := epoch\<rparr>)"
    by (simp add: save_timezone_def Some w s1_def Let_def)
  have c': "cut_detected SETTINGS_RECORD_TIMEZONE (timezone_record little x)" using c Some by simp
  show ?thesis
    by (rule remembers_saved [OF R w c' memory_map_saved(2)])
      (use memory_parts [OF R] zone_of_schedule [OF _ Some] in
        \<open>simp_all add: sv s1_def memory_fits_def stored_as_def counts_def note_saves_def Let_def Some\<close>)
qed

lemma remembers_save_oscillator:
  assumes R: "remembers little s g"
    and c: "cut_detected SETTINGS_RECORD_OSCILLATOR (encode_oscillator (kalman_phase_q16 (pps_kf (loop_module s))) (reference_epochs (loop_module s)))"
  shows "remembers little (save_oscillator epoch s) (note_saves s (save_oscillator epoch s) g)"
proof -
  define q where "q = kalman_phase_q16 (pps_kf (loop_module s))"
  define n where "n = reference_epochs (loop_module s)"
  note qn = q_def [symmetric] n_def [symmetric]
  obtain r st where w: "store_write SETTINGS_RECORD_OSCILLATOR (encode_oscillator q n) (store_module s) = (r, st)" by fastforce
  define s1 where "s1 = s\<lparr>oscillator_saved := True, oscillator_saved_epoch := epoch, store_module := st\<rparr>"
  have sv: "save_oscillator epoch s = (if r = STORE_OK
      then s1\<lparr>have_oscillator := True, kept_oscillator_q16 := q,
              settings_stats := (settings_stats s1)\<lparr>oscillator_saves := oscillator_saves (settings_stats s1) + 1\<rparr>\<rparr>
      else count_failure s1)"
    by (simp add: save_oscillator_def w s1_def Let_def qn)
  show ?thesis
    by (rule remembers_saved [OF R w c [unfolded qn] memory_map_saved(3)])
      (use memory_parts [OF R] in \<open>simp_all add: sv s1_def memory_fits_def stored_as_def counts_def note_saves_def Let_def qn\<close>)
qed

lemma remembers_save_rtc:
  assumes R: "remembers little s g" and c: "cut_detected SETTINGS_RECORD_RTC (encode_rtc (source_rtc_kept (rtc_module s)))"
  shows "remembers little (save_rtc epoch s) (note_saves s (save_rtc epoch s) g)"
proof -
  obtain r st where w: "store_write SETTINGS_RECORD_RTC (encode_rtc (source_rtc_kept (rtc_module s))) (store_module s) = (r, st)" by fastforce
  define s1 where "s1 = s\<lparr>store_module := st\<rparr>"
  have sv: "save_rtc epoch s = (if r = STORE_OK
      then s1\<lparr>rtc_saved_changes := kept_changes (rtc_module s), rtc_saved_rtc_changes := rtc_changes (rtc_module s), rtc_saved := True,
              rtc_saved_epoch := epoch, rtc_retry := False,
              settings_stats := (settings_stats s1)\<lparr>rtc_saves := rtc_saves (settings_stats s1) + 1\<rparr>\<rparr>
      else count_failure (s1\<lparr>rtc_retry := True, rtc_retry_epoch := epoch\<rparr>))"
    by (simp add: save_rtc_def w s1_def Let_def)
  show ?thesis
    by (rule remembers_saved [OF R w c memory_map_saved(4)])
      (use memory_parts [OF R] in \<open>simp_all add: sv s1_def memory_fits_def stored_as_def counts_def note_saves_def Let_def\<close>)
qed

text \<open>The service: one save at most, after the change of the time zone has been noted.\<close>

lemma note_timezone_frame [simp]:
  "store_module (note_timezone epoch s) = store_module s" "loop_module (note_timezone epoch s) = loop_module s"
  "rtc_module (note_timezone epoch s) = rtc_module s" "running (note_timezone epoch s) = running s"
  "stored (note_timezone epoch s) = stored s" "have_record (note_timezone epoch s) = have_record s"
  "revision (note_timezone epoch s) = revision s" "counts (note_timezone epoch s) = counts s"
  "save_requested (note_timezone epoch s) = save_requested s"
  "timezone_state (timezone_module (note_timezone epoch s)) = timezone_state (timezone_module s)"
  "tz_ok (timezone_module (note_timezone epoch s)) = tz_ok (timezone_module s)"
  by (simp_all add: note_timezone_def Let_def timezone_take_changed_def counts_def timezone_state_def tz_ok_def)

lemma note_saves_from:
  "counts s1 = counts s \<Longrightarrow> running s1 = running s \<Longrightarrow> revision s1 = revision s \<Longrightarrow>
   timezone_state (timezone_module s1) = timezone_state (timezone_module s) \<Longrightarrow> loop_module s1 = loop_module s \<Longrightarrow>
   rtc_module s1 = rtc_module s \<Longrightarrow> note_saves s s' g = note_saves s1 s' g"
  by (simp add: note_saves_def Let_def counts_def)

lemma remembers_service:
  assumes R: "remembers little s g" and c: "cuts_show little s"
  shows "remembers little (settings_service little epoch is_quiet s) (note_saves s (settings_service little epoch is_quiet s) g)"
proof -
  define s1 where "s1 = note_timezone epoch s"
  define s2 where "s2 = s1\<lparr>oscillator_requested := False\<rparr>"
  have R1: "remembers little s1 g" using R by (simp add: s1_def remembers_def stored_as_def modules_fit_def)
  have R2: "remembers little s2 g" by (rule remembers_fields [OF R1]) (simp_all add: s2_def)
  have n1: "note_saves s s' g = note_saves s1 s' g" for s' by (rule note_saves_from) (simp_all add: s1_def)
  have n2: "note_saves s1 s' g = note_saves s2 s' g" for s' by (rule note_saves_from) (simp_all add: s2_def counts_def)
  have c1: "cuts_show little s1" "cuts_show little s2" using c by (simp_all add: cuts_show_def s2_def s1_def)
  have "settings_service little epoch is_quiet s \<in>
      {s1, save_settings little s1, save_timezone little epoch s1, save_rtc epoch s1, save_oscillator epoch s2, s2}"
    by (simp add: settings_service_def s1_def [symmetric] s2_def [symmetric] Let_def)
  moreover have "remembers little s1 (note_saves s1 s1 g)" using R1 by (simp add: note_nothing)
  moreover have "remembers little s2 (note_saves s1 s2 g)" using R2 by (simp add: n2 note_nothing)
  ultimately show ?thesis
    unfolding n1 using c1 remembers_save_settings [OF R1] remembers_save_timezone [OF R1] remembers_save_rtc [OF R1]
      remembers_save_oscillator [OF R2, of epoch] by (auto simp: n2 cuts_show_def)
qed

section \<open>What a start finds\<close>

lemma memory_reads:
  assumes k: "keeps (st, memory_map little g)" and f: "memory_fits g"
  shows "read_record little st = (kept_values g, False)" "read_timezone little st = kept_zone g"
    "read_oscillator st = (case kept_estimate g of None \<Rightarrow> (False, None) | Some (q, e) \<Rightarrow> (\<bar>q\<bar> \<le> SETTINGS_OSCILLATOR_LIMIT_Q16, Some (q, e)))"
    "read_rtc st = kept_rtc g"
proof -
  note read = keeps_read [OF k, simplified]
  have r1: "store_read SETTINGS_RECORD_SETTINGS SETTINGS_RECORD_BYTES st = map_option (\<lambda>(v, n). encode_record little v n) (kept_values g)"
    using read [of SETTINGS_RECORD_SETTINGS SETTINGS_RECORD_BYTES]
    by (cases "kept_values g") (auto simp: memory_map_def record_ids store_ids length_records)
  show "read_record little st = (kept_values g, False)"
  proof (cases "kept_values g")
    case None
    then show ?thesis using r1 by (simp add: read_record_def)
  next
    case (Some x)
    obtain v n where x: "x = (v, n)" by fastforce
    have "values_ok v" using f Some by (simp add: memory_fits_def x)
    then show ?thesis using settings_record_read [of v st little n] r1 by (simp add: Some x)
  qed
  have r2: "store_read SETTINGS_RECORD_TIMEZONE SML_TZ_STATE_BYTES st = map_option (timezone_record little) (kept_zone g)"
  proof (cases "kept_zone g")
    case (Some x)
    then have "zone_fits x" using f by (simp add: memory_fits_def)
    then have "length (timezone_record little x) = 124" using timezone_record_read(1) by (simp add: zone_fits_def)
    then show ?thesis using read [of SETTINGS_RECORD_TIMEZONE SML_TZ_STATE_BYTES] Some by (simp add: memory_map_def record_ids store_ids)
  qed (use read [of SETTINGS_RECORD_TIMEZONE SML_TZ_STATE_BYTES] in \<open>simp add: memory_map_def record_ids store_ids\<close>)
  show "read_timezone little st = kept_zone g"
  proof (cases "kept_zone g")
    case None
    then show ?thesis using r2 by (simp add: read_timezone_def)
  next
    case (Some x)
    then have "zone_fits x" using f by (simp add: memory_fits_def)
    then show ?thesis using timezone_record_read(2) [of x st little] r2 Some by (simp add: zone_fits_def)
  qed
  have r3: "store_read SETTINGS_RECORD_OSCILLATOR SETTINGS_OSCILLATOR_BYTES st = map_option (\<lambda>(q, e). encode_oscillator q e) (kept_estimate g)"
    using read [of SETTINGS_RECORD_OSCILLATOR SETTINGS_OSCILLATOR_BYTES]
    by (cases "kept_estimate g") (auto simp: memory_map_def record_ids store_ids length_records)
  show "read_oscillator st = (case kept_estimate g of None \<Rightarrow> (False, None) | Some (q, e) \<Rightarrow> (\<bar>q\<bar> \<le> SETTINGS_OSCILLATOR_LIMIT_Q16, Some (q, e)))"
  proof (cases "kept_estimate g")
    case None
    then show ?thesis using r3 by (simp add: read_oscillator_def)
  next
    case (Some x)
    obtain q e where x: "x = (q, e)" by fastforce
    have "in_i32 q" using f Some by (simp add: memory_fits_def x)
    then show ?thesis using oscillator_record_read [of q st e] r3 by (simp add: Some x)
  qed
  have r4: "store_read SETTINGS_RECORD_RTC SETTINGS_RTC_BYTES st = map_option encode_rtc (kept_rtc g)"
    using read [of SETTINGS_RECORD_RTC SETTINGS_RTC_BYTES]
    by (cases "kept_rtc g") (auto simp: memory_map_def record_ids store_ids length_records)
  show "read_rtc st = kept_rtc g"
  proof (cases "kept_rtc g")
    case None
    then show ?thesis using r4 by (simp add: read_rtc_def)
  next
    case (Some k)
    then have "kept_fits k" using f by (simp add: memory_fits_def)
    then show ?thesis using rtc_record_read [of k st] r4 Some by simp
  qed
qed

text \<open>The modules do as the settings say.\<close>

definition agrees :: "Settings \<Rightarrow> bool" where
  "agrees s \<longleftrightarrow> (let b = body (running s); tz = timezone_module s; d = display_module s in
     Timezone.automatic tz = flag_set SML_SETTING_TZ_AUTO b \<and> dst_automatic tz = flag_set SML_SETTING_DST_AUTO b \<and>
     manual_base_s tz = set_base_s b \<and> manual_dst_s tz = set_dst_s b \<and> manual_dst_active tz = flag_set SML_SETTING_DST_ACTIVE b \<and>
     manual_level (brightness_module s) = set_brightness b \<and> Brightness.automatic (brightness_module s) = flag_set SML_SETTING_BRI_AUTO b \<and>
     beeps_on s = flag_set SML_SETTING_BEEP_ENABLED b \<and> alarm_on (alarm_module s) = flag_set SML_SETTING_ALARM_ENABLED b \<and>
     time_of_day (alarm_module s) = alarm_offset_s b \<and> mode_selected d = display_mode_of (selected_display b) \<and>
     twelve_hours d = flag_set SML_SETTING_FORMAT_12H b \<and> delta_epoch d = delta_epoch_utc b \<and>
     delta_local d = flag_set SML_SETTING_DELTA_LOCAL b)"

text \<open>What a settings body may hold.\<close>

definition acceptable :: "SML_SETTINGS_BODY \<Rightarrow> bool" where
  "acceptable b \<longleftrightarrow> schema_version b = 1 \<and> (selected_display b \<in> {1..6} \<or> selected_display b = 10) \<and> set_flags b < 256 \<and>
     \<bar>set_base_s b\<bar> \<le> 86399 \<and> \<bar>set_dst_s b\<bar> \<le> 86399 \<and> calibration_fosc_hz b \<in> {39960000..40040000} \<and>
     alarm_offset_s b < 86400 \<and> set_brightness b \<le> 4000 \<and> set_reserved b = 0"

lemma flags_defined: "(f :: u16) AND NOT FLAGS_DEFINED = 0 \<longleftrightarrow> f < 256"
proof -
  have m: "FLAGS_DEFINED = mask 8" by code_simp
  have "f AND NOT (mask 8) = 0 \<longleftrightarrow> take_bit 8 f = f"
    unfolding take_bit_eq_mask by (auto simp: bit_eq_iff bit_simps)
  also have "\<dots> \<longleftrightarrow> take_bit 8 (uint f) = uint f" by (metis unsigned_take_bit_eq word_uint_eq_iff)
  finally show ?thesis by (simp add: m take_bit_int_eq_self_iff word_less_def)
qed

lemma check_acceptable: "settings_check b = SML_ERROR_NONE \<longleftrightarrow> acceptable b"
proof -
  have c: "FCY - FOSC_LIMIT_HZ = 39960000" "FCY + FOSC_LIMIT_HZ = 40040000" by code_simp+
  show ?thesis
    unfolding settings_check_def flags_defined c acceptable_def
    by (auto simp: SML_ERROR_NONE_def SML_ERROR_SCHEMA_def SML_ERROR_ARGUMENT_def SML_SETTINGS_SCHEMA_def Timezone.offset_ok_def
        TIMEZONE_OFFSET_LIMIT_S_def SML_DISPLAY_SELECTABLE_def SML_DISPLAY_HHMM_def SML_DISPLAY_DELTA_def SML_DISPLAY_UNCERTAINTY_def
        Ui.SECONDS_PER_DAY_def TUBES_BRIGHTNESS_FULL_def)
qed

lemma apply_agrees:
  assumes "settings_check (body (running s)) = SML_ERROR_NONE"
  shows "agrees (apply_settings s)"
proof -
  define b where "b = body (running s)"
  have b: "alarm_offset_s b < 86400" "set_brightness b \<le> 4000" using assms by (simp_all add: check_acceptable acceptable_def b_def)
  obtain al bz where a: "alarm_set (flag_set SML_SETTING_ALARM_ENABLED b) (alarm_offset_s b) (alarm_module s) (buzzer_module s) = (al, bz)"
    by fastforce
  then have al: "alarm_on al = flag_set SML_SETTING_ALARM_ENABLED b" "time_of_day al = alarm_offset_s b"
    using b by (auto simp: alarm_set_def Let_def alarm_stop_def Ui.SECONDS_PER_DAY_def split: if_splits)
  show ?thesis
    using a by (simp add: b leD agrees_def apply_settings_def Let_def b_def [symmetric] al timezone_set_manual_def timezone_set_dst_auto_def
        timezone_set_auto_def brightness_set_auto_def brightness_set_level_def TUBES_BRIGHTNESS_FULL_def display_set_delta_epoch_def
        display_set_12h_def display_set_mode_def)
qed

text \<open>The stages of a start.\<close>

lemma load_result:
  assumes "read_record little (store_init (flash (store_module s))) = (kept_values g, False)" "memory_fits g"
  shows "store_module (load_settings little s) = store_init (flash (store_module s))"
    "running (load_settings little s) = (case kept_values g of None \<Rightarrow> default_values | Some (v, n) \<Rightarrow> v)"
    "stored (load_settings little s) = running (load_settings little s)"
    "revision (load_settings little s) = (case kept_values g of None \<Rightarrow> 0 | Some (v, n) \<Rightarrow> n)"
    "have_record (load_settings little s) = (kept_values g \<noteq> None)" "timezone_module (load_settings little s) = timezone_module s"
    "loop_module (load_settings little s) = loop_module s" "rtc_module (load_settings little s) = rtc_module s"
    "values_ok (running (load_settings little s))"
  using assms defaults_ok by (auto simp: load_settings_def Let_def memory_fits_def split: option.splits)

lemma restore_timezone_frame [simp]:
  "store_module (restore_timezone little s) = store_module s" "running (restore_timezone little s) = running s"
  "stored (restore_timezone little s) = stored s" "revision (restore_timezone little s) = revision s"
  "have_record (restore_timezone little s) = have_record s" "loop_module (restore_timezone little s) = loop_module s"
  "rtc_module (restore_timezone little s) = rtc_module s" "debug_bits (restore_timezone little s) = debug_bits s"
  "agrees (restore_timezone little s) = agrees s"
  by (simp_all add: restore_timezone_def agrees_def timezone_apply_def timezone_take_changed_def Let_def split: option.split)

lemma apply_schedule:
  "schedule tz = schedule tz0 \<Longrightarrow> schedule (snd (timezone_apply little x tz)) = schedule (snd (timezone_apply little x tz0))"
  by (simp add: timezone_apply_def Let_def)

lemma restore_timezone_schedule:
  "schedule (timezone_module (restore_timezone little s)) = (case read_timezone little (store_module s) of None \<Rightarrow> schedule (timezone_module s)
     | Some x \<Rightarrow> schedule (snd (timezone_apply little x (timezone_module s))))"
  by (simp add: restore_timezone_def timezone_take_changed_def Let_def split: option.split prod.split)

lemma restore_oscillator_frame [simp]:
  "store_module (restore_oscillator s) = store_module s" "running (restore_oscillator s) = running s"
  "stored (restore_oscillator s) = stored s" "revision (restore_oscillator s) = revision s"
  "have_record (restore_oscillator s) = have_record s" "timezone_module (restore_oscillator s) = timezone_module s"
  "rtc_module (restore_oscillator s) = rtc_module s" "debug_bits (restore_oscillator s) = debug_bits s"
  "agrees (restore_oscillator s) = agrees s"
  by (simp_all add: restore_oscillator_def agrees_def Let_def split: prod.split)

lemma restore_oscillator_loop:
  "loop_module (restore_oscillator s) = (case read_oscillator (store_module s) of
     (True, Some (q, e)) \<Rightarrow> epoch_control_seed q (loop_module s)
   | (True, None) \<Rightarrow> epoch_control_seed (kept_oscillator_q16 s) (loop_module s) | (False, _) \<Rightarrow> loop_module s)"
  by (simp add: restore_oscillator_def Let_def split: prod.split bool.split option.split)

lemma restore_rtc_frame [simp]:
  "store_module (restore_rtc s) = store_module s" "running (restore_rtc s) = running s"
  "stored (restore_rtc s) = stored s" "revision (restore_rtc s) = revision s"
  "have_record (restore_rtc s) = have_record s" "timezone_module (restore_rtc s) = timezone_module s"
  "loop_module (restore_rtc s) = loop_module s" "debug_bits (restore_rtc s) = debug_bits s"
  "agrees (restore_rtc s) = agrees s"
  by (simp_all add: restore_rtc_def agrees_def Let_def split: option.split)

lemma restore_rtc_module:
  "rtc_module (restore_rtc s) = (case read_rtc (store_module s) of None \<Rightarrow> rtc_module s | Some k \<Rightarrow> source_rtc_restore k (rtc_module s))"
  by (simp add: restore_rtc_def Let_def split: option.split)

lemma debug_set_agrees [simp]: "agrees (debug_set m s) = agrees s" "debug_bits (debug_set m s) = m AND DEBUG_ALL"
  by (simp_all add: agrees_def debug_set_def)

lemma power_result:
  assumes k: "keeps (boot answers (flash (store_module s)), memory_map little g)" and f: "memory_fits g"
    and p: "power_up little answers l r s = s'"
  shows "store_module s' = boot answers (flash (store_module s))"
    "running s' = (case kept_values g of None \<Rightarrow> default_values | Some (v, n) \<Rightarrow> v)" "stored s' = running s'"
    "revision s' = (case kept_values g of None \<Rightarrow> 0 | Some (v, n) \<Rightarrow> n)" "have_record s' = (kept_values g \<noteq> None)"
    "agrees s'" "debug_bits s' = debug_mask (running s')" "values_ok (running s')"
    "schedule (timezone_module s') = (case kept_zone g of None \<Rightarrow> schedule timezone_init
       | Some x \<Rightarrow> schedule (snd (timezone_apply little x timezone_init)))"
    "loop_module s' = (case kept_estimate g of None \<Rightarrow> l
       | Some (q, e) \<Rightarrow> if \<bar>q\<bar> \<le> SETTINGS_OSCILLATOR_LIMIT_Q16 then epoch_control_seed q l else l)"
    "rtc_module s' = (case kept_rtc g of None \<Rightarrow> r | Some x \<Rightarrow> source_rtc_restore x r)"
proof -
  obtain s0 where s0: "s' = settings_init little s0" "store_init (flash (store_module s0)) = boot answers (flash (store_module s))"
    "timezone_module s0 = timezone_init" "loop_module s0 = l" "rtc_module s0 = r"
    using p by (auto simp: power_up_def boot_def)
  note m = memory_reads [OF k f]
  have rd: "read_record little (store_init (flash (store_module s0))) = (kept_values g, False)" by (simp add: s0(2) m(1))
  note L = load_result [OF rd f]
  define A where "A = apply_settings (load_settings little s0)"
  define D where "D = debug_set (debug_mask (running A) OR DEBUG_DEFAULT) A"
  have s': "s' = restore_rtc (restore_oscillator (restore_timezone little D))"
    by (simp add: s0(1) settings_init_def Let_def A_def D_def)
  have st: "store_module D = boot answers (flash (store_module s))" by (simp add: D_def A_def L s0(2))
  then show "store_module s' = boot answers (flash (store_module s))" by (simp add: s')
  show v: "values_ok (running s')" using L(9) by (simp add: s' D_def A_def)
  show "running s' = (case kept_values g of None \<Rightarrow> default_values | Some (v, n) \<Rightarrow> v)" "stored s' = running s'"
    "revision s' = (case kept_values g of None \<Rightarrow> 0 | Some (v, n) \<Rightarrow> n)" "have_record s' = (kept_values g \<noteq> None)"
    using L(2-5) by (simp_all add: s' D_def A_def)
  have "agrees A" unfolding A_def by (rule apply_agrees) (use L(9) in \<open>simp add: values_ok_def\<close>)
  then show "agrees s'" by (simp add: s' D_def)
  have "debug_bits s' = debug_mask (running s') AND DEBUG_ALL" by (simp add: s' D_def DEBUG_DEFAULT_def DEBUG_NONE_def)
  then show "debug_bits s' = debug_mask (running s')" using v by (simp add: values_ok_def)
  have "schedule (timezone_module D) = schedule timezone_init" by (simp add: D_def A_def L s0(3))
  then show "schedule (timezone_module s') = (case kept_zone g of None \<Rightarrow> schedule timezone_init
       | Some x \<Rightarrow> schedule (snd (timezone_apply little x timezone_init)))"
    using apply_schedule [of "timezone_module D" timezone_init little]
    by (simp add: s' restore_timezone_schedule st m(2) split: option.split)
  have "loop_module D = l" "rtc_module D = r" by (simp_all add: D_def A_def L s0)
  then show "loop_module s' = (case kept_estimate g of None \<Rightarrow> l
       | Some (q, e) \<Rightarrow> if \<bar>q\<bar> \<le> SETTINGS_OSCILLATOR_LIMIT_Q16 then epoch_control_seed q l else l)"
    "rtc_module s' = (case kept_rtc g of None \<Rightarrow> r | Some x \<Rightarrow> source_rtc_restore x r)"
    by (simp_all add: s' restore_oscillator_loop restore_rtc_module st m(3,4) split: option.split bool.split)
qed

text \<open>What is remembered holds throughout.\<close>

lemma power_remembers:
  assumes "keeps (boot answers (flash (store_module s)), memory_map little g)" "memory_fits g" "modules_fit (power_up little answers l r s)"
  shows "remembers little (power_up little answers l r s) g"
  using power_result [OF assms(1,2) refl] assms by (simp add: remembers_def stored_as_def)

lemma reset_keeps: "keeps (st, m) \<Longrightarrow> keeps (boot answers (flash st), m)"
  using keeps_event [of "(st, m)" "Store_Run.Reset answers"] by simp

lemma lives_remembers: "lives little s g \<Longrightarrow> remembers little s g"
proof (induction rule: lives.induct)
  case (first s answers l r)
  have "memory_map little nothing_kept = Map.empty" by (auto simp: memory_map_def nothing_kept_def)
  then show ?case
    using keeps_first [OF first(1,2)] first(3) by (intro power_remembers) (simp_all add: memory_fits_def nothing_kept_def)
next
  case (others s g s')
  then show ?case by (simp add: remembers_def stored_as_def)
next
  case (power s g answers l r)
  show ?case by (rule power_remembers [OF reset_keeps [OF memory_parts(7) [OF power.IH]] memory_parts(1) [OF power.IH] power.hyps(2)])
qed (simp_all add: remembers_change remembers_service)

lemma lives_power:
  assumes "lives little s g" "power_up little answers l r s = s'"
  shows "running s' = stored s" "stored s' = running s'"
proof -
  note R = lives_remembers [OF assms(1)]
  note P = power_result [OF reset_keeps [OF memory_parts(7) [OF R]] memory_parts(1) [OF R] assms(2)]
  show "running s' = stored s" using memory_parts(2) [OF R] by (simp add: P(2) stored_as_def)
  show "stored s' = running s'" by (rule P(3))
qed

lemma dirty_iff: "settings_flags s AND SML_SETTINGS_DIRTY = 0 \<longleftrightarrow> running s = stored s"
proof -
  have "running s = stored s \<longleftrightarrow> body (running s) = body (stored s) \<and> debug_mask (running s) = debug_mask (stored s)"
    by (cases "running s"; cases "stored s") simp
  then show ?thesis
    by (simp add: settings_flags_def SML_SETTINGS_VALID_def SML_SETTINGS_DIRTY_def SML_SETTINGS_DEFAULTS_def)
qed

lemma works_saves:
  assumes "keeps (st, m)" "works (flash st)" "0 < t" "t < STORE_TYPES" "length d \<le> STORE_RECORD_MAX_BYTES" "cut_detected t d"
    "store_write t d st = (r, st')"
  shows "r = STORE_OK"
proof -
  obtain J where "store_ok st J" "reserved (flash st)" using assms(1) by (auto simp: keeps_def)
  then show ?thesis using store_write_result [OF _ _ assms(6,7)] assms(2-5) by blast
qed

lemma save_result:
  assumes R: "remembers little s g" and w: "works (flash (store_module s))"
    and c: "cut_detected SETTINGS_RECORD_SETTINGS (encode_record little (running s) (revision s))"
  shows "save_error (save_settings little s) = SML_ERROR_NONE" "\<not> save_requested (save_settings little s)"
    "running (save_settings little s) = running s" "stored (save_settings little s) = running s"
proof -
  obtain r st where e: "store_write SETTINGS_RECORD_SETTINGS (encode_record little (running s) (revision s)) (store_module s) = (r, st)"
    by fastforce
  have "r = STORE_OK"
    by (rule works_saves [OF memory_parts(7) [OF R] w _ _ _ c e]) (simp_all add: record_ids store_ids length_records)
  then show "save_error (save_settings little s) = SML_ERROR_NONE" "\<not> save_requested (save_settings little s)"
    "running (save_settings little s) = running s" "stored (save_settings little s) = running s"
    using e dirty_iff [of s] by (auto simp: save_settings_def Let_def saved_result)
qed

lemma asked_service:
  "settings_service little epoch True (settings_save s) = save_settings little (note_timezone epoch (settings_save s))"
  by (simp add: settings_service_def) (simp add: settings_save_def)

section \<open>An example\<close>

text \<open>Where a register that ends in \<open>ERASED\<close> must be before so many erased words.\<close>

definition before_erased :: "u16 list" where
  "before_erased =
     [0xFFFF, 0x7B30, 0x2F07, 0xDE22, 0x46AD, 0x8F8C, 0x7902, 0x89A7, 0x23B6, 0x1C43, 0xD55B, 0xDFE3, 0xE187, 0xC149, 0x2E4B,
      0x0B79, 0x66B1, 0x153B, 0x974C, 0x79CE, 0x6E62, 0xF57E]"

lemma before_erased_step: "i < 21 \<Longrightarrow> crc_word (before_erased ! Suc i) ERASED = before_erased ! i"
proof -
  have "list_all (\<lambda>(a, b). crc_word b ERASED = a) (zip before_erased (tl before_erased))" by code_simp
  moreover have "length before_erased = 22" by (simp add: before_erased_def)
  ultimately show "i < 21 \<Longrightarrow> crc_word (before_erased ! Suc i) ERASED = before_erased ! i"
    by (auto simp: list_all_length nth_tl)
qed

lemma crc_word_inj: "foldl crc_word c ws = foldl crc_word c' ws \<Longrightarrow> c = c'"
proof (induction ws arbitrary: c c')
  case (Cons w ws)
  then show ?case by (auto simp: crc_word_def dest!: crc.step_inj_state)
qed simp

lemma before_erased_run: "n < 22 \<Longrightarrow> foldl crc_word (before_erased ! n) (replicate n ERASED) = ERASED"
proof (induction n)
  case (Suc n)
  then show ?case using before_erased_step [of n] by simp
qed (simp add: before_erased_def ERASED_def)

text \<open>Each record's prefix is taken once, and compared with the register that the rest would need.\<close>

fun cut_crcs_show :: "u16 \<Rightarrow> u16 list \<Rightarrow> bool" where
  "cut_crcs_show c (a # b # x # ws) =
     (let c' = crc_word (crc_word c a) b in c' \<noteq> before_erased ! length ws \<and> cut_crcs_show c' (x # ws))"
| "cut_crcs_show c ws = True"

lemma cut_crcs:
  "cut_crcs_show c ws \<Longrightarrow> length ws \<le> 24 \<Longrightarrow> 2 * k + 2 < length ws \<Longrightarrow>
    foldl crc_word (foldl crc_word c (take (2 * k + 2) ws)) (replicate (length ws - 3 - 2 * k) ERASED) \<noteq> ERASED"
proof (induction c ws arbitrary: k rule: cut_crcs_show.induct)
  case (1 c a b x ws)
  show ?case
  proof (cases k)
    case 0
    have "crc_word (crc_word c a) b \<noteq> before_erased ! length ws" using "1.prems"(1) by (simp add: Let_def)
    moreover have "foldl crc_word (before_erased ! length ws) (replicate (length ws) ERASED) = ERASED"
      using before_erased_run "1.prems"(2) by simp
    ultimately show ?thesis by (simp add: 0) (metis crc_word_inj)
  next
    case (Suc j)
    then show ?thesis using "1.IH" [OF refl, of j] "1.prems" by (simp add: Let_def)
  qed
qed simp_all

lemma cut_detectedI:
  assumes "cut_crcs_show SML_CRC_INIT (build_record t d)" "length d \<le> 42"
  shows "cut_detected t d"
proof -
  define ws where "ws = build_record t d"
  have len: "length ws \<le> 24"
    using assms(2) build_record_words(1) [of t d] by (simp add: ws_def record_words_def Let_def)
  have "\<not> rec_intact (cut k ws)" if k: "1 \<le> k" "k < length ws div 2" for k
  proof -
    obtain j where j: "k = Suc j" using k by (cases k) auto
    have n: "2 * k < length ws" using k by simp
    have "take (length ws - 1) (cut k ws) = take (2 * k) ws @ replicate (length ws - 1 - 2 * k) ERASED"
      unfolding cut_def using n by (cases "length ws - 1 = 2 * k") (auto simp: min_def not_le)
    moreover have "cut k ws ! (length ws - 1) = ERASED" "length (cut k ws) = length ws"
      using n less_Suc_eq_le [of "2 * k" "length ws - 1"] by (auto simp: cut_def nth_append)
    ultimately show ?thesis
      using cut_crcs [OF assms(1) [folded ws_def] len, of j] n by (simp add: rec_intact_def crc_words_def j eval_nat_numeral)
  qed
  then show ?thesis by (simp add: cut_detected_def list_all_iff ws_def [symmetric])
qed

text \<open>A clock with an empty flash, before its first start, and a body with the 12 hour format.\<close>

definition empty_clock :: Settings where
  "empty_clock =
     \<lparr>store_module = store_init blank_flash, timezone_module = timezone_init, brightness_module = brightness_init, beeps_on = False,
      alarm_module = alarm_statics, buzzer_module = silent, display_module = display_init, debug_bits = 0,
      loop_module = blank_loop, rtc_module = rtc_statics, running = default_values, stored = default_values, revision = 0,
      have_record = False, save_requested = False, oscillator_requested = False, save_error = 0, timezone_pending = False,
      timezone_changed_epoch = 0, settings_stats = stats_cleared, have_oscillator = False, kept_oscillator_q16 = 0,
      oscillator_saved = False, oscillator_saved_epoch = 0, rtc_saved_changes = 0, rtc_saved_rtc_changes = 0, rtc_saved = False,
      rtc_saved_epoch = 0, rtc_retry = False, rtc_retry_epoch = 0\<rparr>"

definition started :: Settings where
  "started = power_up True (\<lambda>_. True) blank_loop rtc_statics empty_clock"

definition body_12h :: SML_SETTINGS_BODY where
  "body_12h = settings_defaults\<lparr>set_flags := set_flags settings_defaults OR SML_SETTING_FORMAT_12H\<rparr>"

definition changed_12h :: Settings where
  "changed_12h = change_settings (Write_Settings body_12h) started"

lemma body_12h_ok: "acceptable body_12h" "body_12h \<noteq> settings_defaults"
  by (simp_all add: acceptable_def body_12h_def settings_defaults_def SML_SETTINGS_SCHEMA_def SML_SETTING_TZ_AUTO_def
      SML_SETTING_DST_AUTO_def SML_SETTING_BRI_AUTO_def SML_SETTING_FORMAT_12H_def FCY_def SYSTEM_FOSC_HZ_def
      TUBES_BRIGHTNESS_DEFAULT_def SML_DISPLAY_HHMM_def)

lemma blank_estimate: "kalman_phase_q16 (pps_kf blank_loop) = 0" "reference_epochs blank_loop = 0"
  by (simp_all add: blank_loop_def blank_timer_def EpochTimer.defs blank_filter_def kalman_phase_q16_def)

lemma modules_of_blank:
  assumes "schedule tz = schedule timezone_init"
  shows "tz_ok tz" "in_i32 (kalman_phase_q16 (pps_kf blank_loop))" "kept_fits (source_rtc_kept rtc_statics)"
  using tz_init_ok assms
  by (simp_all add: tz_ok_def blank_estimate in_i32_def kept_fits_def source_rtc_kept_def
      rtc_statics_def rtc_state_cleared_def SourceRtcState.defs SourceRtc.defs)

lemma empty_flash: "flash (store_init blank_flash) = blank_flash"
  using store_init_ok [of blank_flash None] blank_flash_headers by (simp add: flash_ok_def)

lemma started_facts:
  "lives True started nothing_kept" "running started = default_values" "revision started = 0" "agrees started"
  "store_module started = boot (\<lambda>_. True) (flash (store_init blank_flash))"
  "schedule (timezone_module started) = schedule timezone_init" "loop_module started = blank_loop" "rtc_module started = rtc_statics"
proof -
  note f = empty_flash
  have e: "store_module empty_clock = store_init blank_flash" by (simp add: empty_clock_def)
  have m: "memory_map True nothing_kept = Map.empty" by (auto simp: memory_map_def nothing_kept_def)
  have k: "keeps (boot (\<lambda>_. True) (flash (store_module empty_clock)), memory_map True nothing_kept)"
    unfolding m e f by (rule keeps_first [OF blank_flash_headers])
  have "memory_fits nothing_kept" by (simp add: memory_fits_def nothing_kept_def)
  note P = power_result [OF k this started_def [symmetric]]
  show "running started = default_values" "revision started = 0" "agrees started"
    "store_module started = boot (\<lambda>_. True) (flash (store_init blank_flash))"
    and t: "schedule (timezone_module started) = schedule timezone_init" and l: "loop_module started = blank_loop" "rtc_module started = rtc_statics"
    using P by (simp_all add: nothing_kept_def e)
  have "modules_fit started" using modules_of_blank [OF t] by (simp add: modules_fit_def l)
  then show "lives True started nothing_kept"
    unfolding started_def using blank_flash_headers by (intro lives.first) (simp_all add: e f)
qed

lemma changed_facts:
  "lives True changed_12h nothing_kept" "running changed_12h = \<lparr>body = body_12h, debug_mask = 0\<rparr>" "revision changed_12h = 1"
  "works (flash (store_module changed_12h))" "cuts_show True changed_12h"
  "settings_flags changed_12h AND SML_SETTINGS_DIRTY \<noteq> 0" "running changed_12h \<noteq> default_values"
proof -
  have w: "settings_write body_12h started = (SML_ERROR_NONE,
      apply_settings (started\<lparr>running := default_values\<lparr>body := body_12h\<rparr>, revision := 1\<rparr>))"
    using body_12h_ok by (simp add: settings_write_def Let_def check_acceptable started_facts default_values_def)
  then have c: "changed_12h = apply_settings (started\<lparr>running := default_values\<lparr>body := body_12h\<rparr>, revision := 1\<rparr>)"
    by (simp add: changed_12h_def)
  show "lives True changed_12h nothing_kept" unfolding changed_12h_def by (rule lives.change [OF started_facts(1)])
  show r: "running changed_12h = \<lparr>body = body_12h, debug_mask = 0\<rparr>" "revision changed_12h = 1"
    by (simp_all add: c default_values_def DEBUG_NONE_def)
  show n: "running changed_12h \<noteq> default_values" using body_12h_ok by (simp add: r default_values_def)
  have "flash_ok blank_flash None" using blank_flash_headers by (simp add: flash_ok_def)
  then have "works (flash (boot (\<lambda>_. True) blank_flash))"
    using store_init_ok [OF flash_ok_same_cells] by (simp add: boot_def works_def flash_init_def Let_def)
  then show "works (flash (store_module changed_12h))" by (simp add: c started_facts(5) empty_flash)
  have "stored changed_12h = default_values"
    using memory_parts(2) [OF lives_remembers [OF started_facts(1)]] by (simp add: c stored_as_def nothing_kept_def)
  then show "settings_flags changed_12h AND SML_SETTINGS_DIRTY \<noteq> 0" using n by (simp add: dirty_iff)
  have z: "timezone_state (timezone_module changed_12h) = None"
    by (simp add: timezone_state_def c started_facts timezone_init_def)
  have "cut_detected SETTINGS_RECORD_SETTINGS (encode_record True \<lparr>body = body_12h, debug_mask = 0\<rparr> 1)"
    by (rule cut_detectedI) (code_simp, simp add: length_records)
  moreover have "cut_detected SETTINGS_RECORD_OSCILLATOR (encode_oscillator 0 0)" by (rule cut_detectedI) (code_simp, simp add: length_records)
  moreover have "cut_detected SETTINGS_RECORD_RTC (encode_rtc (source_rtc_kept rtc_statics))" by (rule cut_detectedI) (code_simp, simp add: length_records)
  ultimately show "cuts_show True changed_12h" by (simp add: cuts_show_def r z) (simp add: c started_facts blank_estimate)
qed

lemma saved_facts:
  defines "s \<equiv> settings_service True 1 True (settings_save changed_12h)"
  shows "\<exists>g. lives True s g \<and> (case kept_values g of None \<Rightarrow> default_values | Some (v, n) \<Rightarrow> v) = \<lparr>body = body_12h, debug_mask = 0\<rparr>"
proof -
  have L: "lives True s (note_saves (settings_save changed_12h) s nothing_kept)"
    using lives.service [of True "settings_save changed_12h" nothing_kept s 1 True] lives.change [OF changed_facts(1), of Ask_Save]
      changed_facts(5) by (simp add: cuts_show_def settings_save_def s_def)
  define s0 where "s0 = note_timezone 1 (settings_save changed_12h)"
  have f: "store_module s0 = store_module changed_12h" "running s0 = running changed_12h" "revision s0 = revision changed_12h"
    by (simp_all add: s0_def settings_save_def)
  have R: "remembers True s0 nothing_kept"
    using lives_remembers [OF changed_facts(1)] by (simp add: s0_def settings_save_def remembers_def stored_as_def modules_fit_def)
  have "stored s = running changed_12h"
    using save_result(4) [OF R] changed_facts(4,5) unfolding f by (simp add: s_def asked_service s0_def [symmetric] cuts_show_def)
  then show ?thesis using memory_parts(2) [OF lives_remembers [OF L]] L changed_facts(2) by (auto simp: stored_as_def)
qed

section \<open>The properties\<close>

text \<open>
  C4: What was saved is what the next start finds. Whatever the settings, the saves, the other
  modules and the flash do, a failed or interrupted save and earlier resets included, a reset at any
  moment starts with the values and the revision of the last save that succeeded, or the defaults if
  none has, with the time zone schedule, the oscillator's estimate and the RTC's measurement last
  saved, and with every module set as the values say.
\<close>
theorem saved_survives_reset:
  assumes "lives little s g" "power_up little answers l r s = s'"
  shows "running s' = (case kept_values g of None \<Rightarrow> default_values | Some (v, n) \<Rightarrow> v) \<and>
    revision s' = (case kept_values g of None \<Rightarrow> 0 | Some (v, n) \<Rightarrow> n) \<and>
    agrees s' \<and> debug_bits s' = debug_mask (running s') \<and>
    schedule (timezone_module s') = (case kept_zone g of None \<Rightarrow> schedule timezone_init
      | Some x \<Rightarrow> schedule (snd (timezone_apply little x timezone_init))) \<and>
    loop_module s' = (case kept_estimate g of None \<Rightarrow> l
      | Some (q, e) \<Rightarrow> if \<bar>q\<bar> \<le> SETTINGS_OSCILLATOR_LIMIT_Q16 then epoch_control_seed q l else l) \<and>
    rtc_module s' = (case kept_rtc g of None \<Rightarrow> r | Some x \<Rightarrow> source_rtc_restore x r)"
proof -
  note R = lives_remembers [OF assms(1)]
  note P = power_result [OF reset_keeps [OF memory_parts(7) [OF R]] memory_parts(1) [OF R] assms(2)]
  show ?thesis using P(2,4,6,7,9-11) by blast
qed

text \<open>Saved, and then a reset into a flash that refuses every operation.\<close>

theorem saved_survives_reset_witness:
  "\<exists>s g. lives True s g \<and>
     body (running (power_up True (\<lambda>_. False) blank_loop rtc_statics s)) = body_12h \<and>
     twelve_hours (display_module (power_up True (\<lambda>_. False) blank_loop rtc_statics s))"
proof -
  obtain s g where s: "lives True s g" "(case kept_values g of None \<Rightarrow> default_values | Some (v, n) \<Rightarrow> v) = \<lparr>body = body_12h, debug_mask = 0\<rparr>"
    using saved_facts by blast
  obtain s' where s': "power_up True (\<lambda>_. False) blank_loop rtc_statics s = s'" by simp
  note T = saved_survives_reset [OF s(1) s']
  have r: "running s' = \<lparr>body = body_12h, debug_mask = 0\<rparr>" using T s(2) by simp
  have "agrees s'" using T by blast
  then have "twelve_hours (display_module s') = flag_set SML_SETTING_FORMAT_12H body_12h" by (simp add: agrees_def r Let_def)
  moreover have "flag_set SML_SETTING_FORMAT_12H body_12h" by code_simp
  ultimately show ?thesis using s(1) s' r by (intro exI [of _ s] exI [of _ g]) simp
qed

text \<open>
  The flag tells. Settings are marked DIRTY exactly when a reset now, whatever it does to the
  flash, would change them.
\<close>
theorem dirty_flag_tells:
  assumes "lives little s g"
  shows "settings_flags s AND SML_SETTINGS_DIRTY = 0 \<longleftrightarrow> running (power_up little answers l r s) = running s"
  using lives_power(1) [OF assms refl, of answers l r] dirty_iff [of s] by auto

text \<open>Changed and not saved: a reset would bring the defaults back.\<close>

theorem dirty_flag_tells_witness:
  "settings_flags changed_12h AND SML_SETTINGS_DIRTY \<noteq> 0 \<and>
   running (power_up True (\<lambda>_. True) blank_loop rtc_statics changed_12h) \<noteq> running changed_12h"
  using dirty_flag_tells [OF changed_facts(1), of "\<lambda>_. True" blank_loop rtc_statics] changed_facts(6) by simp

text \<open>
  C33: Saving works. Asked to save, the next quiet moment with a flash that does what it is asked stores
  the settings as they are: the request is done, without an error, nothing is DIRTY, and a reset, with
  any flash, brings the same settings back.
\<close>
theorem save_makes_lasting:
  assumes "lives little s g" "works (flash (store_module s))" "cuts_show little s"
    "settings_service little epoch True (settings_save s) = s1"
  shows "save_error s1 = SML_ERROR_NONE \<and> \<not> save_requested s1 \<and> settings_flags s1 AND SML_SETTINGS_DIRTY = 0 \<and>
    running s1 = running s \<and> running (power_up little answers l r s1) = running s"
proof -
  define s0 where "s0 = note_timezone epoch (settings_save s)"
  have s1: "s1 = save_settings little s0" using assms(4) by (simp add: asked_service s0_def)
  have f: "store_module s0 = store_module s" "running s0 = running s" "revision s0 = revision s" by (simp_all add: s0_def settings_save_def)
  have R: "remembers little s0 g"
    using lives_remembers [OF assms(1)] by (simp add: s0_def settings_save_def remembers_def stored_as_def modules_fit_def)
  have S: "save_error s1 = SML_ERROR_NONE" "\<not> save_requested s1" "running s1 = running s" "stored s1 = running s"
    using save_result [OF R] assms(2,3) by (simp_all add: f s1 cuts_show_def)
  have "lives little s1 (note_saves (settings_save s) s1 g)"
    using lives.service [of little "settings_save s" g s1 epoch True] lives.change [OF assms(1), of Ask_Save] assms(3,4)
    by (simp add: cuts_show_def settings_save_def)
  then have "running (power_up little answers l r s1) = stored s1" by (rule lives_power(1) [OF _ refl])
  then show ?thesis using S dirty_iff [of s1] by simp
qed

theorem save_makes_lasting_witness:
  "body (running (power_up True (\<lambda>n. n < 3) blank_loop rtc_statics (settings_service True 7 True (settings_save changed_12h)))) = body_12h"
  using save_makes_lasting [OF changed_facts(1,4,5) refl, of 7 "\<lambda>n. n < 3" blank_loop rtc_statics] changed_facts(2) by simp

text \<open>
  C34: Settings are written whole or not at all. A body is taken exactly when every field is
  acceptable; then it is what runs, every module does as it says, and the revision counts up by one if
  anything changed. Otherwise the error says whether the version or a value is at fault, and nothing
  changes.
\<close>
theorem settings_written_whole:
  assumes "settings_write b s = (e, s')" "agrees s"
  shows "(if acceptable b then e = SML_ERROR_NONE \<and> body (running s') = b \<and> agrees s' \<and>
            revision s' = revision s + (if b = body (running s) then 0 else 1)
          else e = (if schema_version b = 1 then SML_ERROR_ARGUMENT else SML_ERROR_SCHEMA) \<and> s' = s)"
proof (cases "acceptable b")
  case True
  then have c: "settings_check b = SML_ERROR_NONE" by (simp add: check_acceptable)
  show ?thesis
  proof (cases "b = body (running s)")
    case False
    define s1 where "s1 = s\<lparr>running := (running s)\<lparr>body := b\<rparr>, revision := revision s + 1\<rparr>"
    have "s' = apply_settings s1" "e = SML_ERROR_NONE" using assms(1) c False by (simp_all add: settings_write_def Let_def s1_def)
    moreover have "agrees (apply_settings s1)" by (rule apply_agrees) (simp add: s1_def c)
    ultimately show ?thesis using True False by (simp add: s1_def)
  qed (use assms c True in \<open>simp add: settings_write_def Let_def\<close>)
next
  case False
  then have "settings_check b \<noteq> SML_ERROR_NONE" by (simp add: check_acceptable)
  then show ?thesis using assms(1) False by (auto simp: settings_write_def Let_def settings_check_def SML_SETTINGS_SCHEMA_def split: if_splits)
qed

theorem settings_written_whole_witness:
  "revision (snd (settings_write body_12h started)) = 1 \<and>
   settings_write (body_12h\<lparr>alarm_offset_s := 86400\<rparr>) started = (SML_ERROR_ARGUMENT, started)"
proof -
  obtain e s' where w: "settings_write body_12h started = (e, s')" by fastforce
  obtain e2 s2 where w2: "settings_write (body_12h\<lparr>alarm_offset_s := 86400\<rparr>) started = (e2, s2)" by fastforce
  have "\<not> acceptable (body_12h\<lparr>alarm_offset_s := 86400\<rparr>)" "schema_version body_12h = 1"
    using body_12h_ok(1) by (simp_all add: acceptable_def)
  then show ?thesis
    using settings_written_whole [OF w started_facts(4)] settings_written_whole [OF w2 started_facts(4)] body_12h_ok w w2
    by (simp add: started_facts default_values_def)
qed

end
