(* ===== verification/Spec2Isabelle.thy ===== *)
theory Spec2Isabelle
  imports Sml_Parser Sync_Run Store_Run Scheduler Timezone Source_Adapters Rtc Ui Settings_Run
begin

text \<open>
  Smol Clock: the firmware of the dsPIC33 in a desk clock disciplined by GNSS, NTP and a real-time
  clock (\<open>src/dspic_src\<close>, with the protocol it shares with an ESP32 in \<open>src/common\<close>).

  \<^bold>\<open>The program.\<close> A timer counts 40 MHz ticks; its period is the clock's second, the epoch. Capture
  modules stamp the edges of a reference (a PPS of the GNSS receiver or of the ESP) and of the epoch
  on one timebase. Once an epoch the synchroniser collects what each source reports (an edge, a label
  in UTC seconds, a bound), judges and ranks them, chooses one to follow and gives the epoch control
  loop its edge. The loop filters the period with a Kalman estimator, drives the phase with a PI servo
  and requests the next period of the timer. The GNSS service reads UBX messages from a UART and
  assembles navigation epochs; the ESP sends NTP time, time zone schedules and settings in SML frames;
  the RTC is read, measured against the epoch and set so that its second falls on one. Settings, the
  schedule, the oscillator's estimate and the RTC's measurement are kept as records in a journal in
  program flash. A cooperative scheduler runs all this beside the display, the alarm and the button.

  \<^bold>\<open>Theories and code.\<close> Each theory opens with the definitions that translate its source, under the
  source's names, and then states what holds of them.
  \<^item> \<open>Prelude\<close>: C integers, and \<open>stepper\<close>, the contract of a component with an invariant.
  \<^item> \<open>Checksum\<close>, \<open>Sml_Codec\<close>, \<open>Sml_Parser\<close>: \<open>common/sml.c\<close>, the CRC, the message table, the conversion of
    packed structures and the frame parser. The state is \<open>SmlParser\<close>; the parser refines \<open>parse\<close>, a
    function of the whole stream.
  \<^item> \<open>Utc\<close>: \<open>platform/utc.c\<close>, seconds and the civil calendar, against a calendar counted day by day.
  \<^item> \<open>Fixed_Point\<close>, \<open>Kalman\<close>, \<open>Servo\<close>, \<open>Epoch_Timer\<close>, \<open>Epoch_Control\<close>: \<open>timing/q16.h\<close>, \<open>kalman.c\<close>, \<open>servo.c\<close>,
    \<open>epoch_timer.c\<close>, \<open>epoch_control.c\<close>. \<open>EpochControl\<close> extends the timer's record, so that a request of the
    loop is an update of the timer; \<open>loop_step\<close> is every operation that touches the loop.
  \<^item> \<open>Sync_Source\<close>, \<open>Sync_Rank\<close>, \<open>Sync\<close>, \<open>Sync_Run\<close>: \<open>sync/sync_source.c\<close> and \<open>sync/sync.c\<close>, the verdicts on a
    source, the ranking, the state machine and its runs.
  \<^item> \<open>Pps\<close>: \<open>timing/pps_capture.c\<close> and \<open>pps_monitor.c\<close>. \<open>Source_Adapters\<close>: \<open>sync/source_edge.c\<close>, \<open>source_gnss.c\<close>,
    \<open>source_ntp.c\<close>, which turn edges and messages into the reports that \<open>sync_update\<close> takes.
  \<^item> \<open>Ubx_Frame\<close>, \<open>Ubx_Parser\<close>, \<open>Ubx_Decode\<close>, \<open>Gnss_Epoch\<close>, \<open>Gnss\<close>: the files of \<open>gnss/\<close>, from bytes to the
    second an edge is given.
  \<^item> \<open>Rtc_Chip\<close>: \<open>drivers/pcf8563.c\<close>. \<open>Rtc\<close>: \<open>sync/source_rtc.c\<close>, whose operations act on both states.
  \<^item> \<open>Flash\<close>, \<open>Store\<close>: \<open>drivers/flash.c\<close> and \<open>settings/store.c\<close>. \<open>Journal\<close> and \<open>Page_Change\<close> hold what they
    promise, \<open>Store_Run\<close> a life of writes, failures and resets. \<open>Records\<close>,
    \<open>Settings\<close>, \<open>Settings_Run\<close>: \<open>settings/settings.c\<close>, the check of the settings and the four records written
    and read back, the operations on the state of all the modules they reach, and a life of saves,
    failures and resets against an abstract memory of four cells.
  \<^item> \<open>Scheduler\<close>: \<open>timing/scheduler.c\<close>. \<open>Timezone\<close>: \<open>ui/timezone.c\<close>. \<open>Ui\<close>: \<open>ui/alarm.c\<close>, \<open>beeps.c\<close>,
    \<open>controls.c\<close>, \<open>brightness.c\<close> and \<open>drivers/buzzer.c\<close>.

  \<^bold>\<open>What is shown.\<close> The properties are the theorems numbered C1 to C40, each with its statement in
  words before it and, where it has hypotheses, an instance after it.
  \<^item> Transport: the parser accepts exactly what \<open>parse\<close> does, whatever the pieces the bytes come in, and
    finds every frame sent; a frame with one byte or two neighbouring
    ones changed outside its length is not accepted; the UBX parser and decoders
    likewise; the calendar is the Gregorian one.
  \<^item> The loop: every reachable state requests a period within its limits, the estimator is exact
    fixed-point arithmetic, no fraction of a tick is lost, a step lands on the reference's edge, and
    without a usable reference nothing is learnt.
  \<^item> The choice of source: it is the head of a ranking; the states follow the diagram of \<open>sync.h\<close> except
    when a source fails with no holdover to go to or a resynchronisation is asked for; only a source judged fit steers, a source in use is displaced only after ten epochs in a row.
  \<^item> Labels: a navigation epoch is never mixed from two, an edge gets the second the receiver reported
    for it, once; labels are counted on across leap seconds; the watch on the pins misses no edge.
  \<^item> The RTC: what is written is the epoch's time, its bound covers the drift allowed until it saturates, the release of
    its second is learnt, and every step ends and so does the loop that plans the release.
  \<^item> Storage: the store reads back the last data written whatever fails or resets in between, and
    can be written again; what was saved of the settings, the time zone, the oscillator and the RTC is
    what the next start finds, a save asked for is made, and settings are taken whole or not at all.
  \<^item> The rest: the scheduler runs periodic tasks on their grid and slot tasks once an epoch; the
    offset shown is that of the entry in force; the alarm sounds exactly at its moments and the buzzer
    plays it exactly as long.

  \<^bold>\<open>Interfaces.\<close> \<open>stepper\<close> (an invariant kept by every step on the events allowed, hence over runs) is
  interpreted for the estimator, the servo, the parser, the time zone, the store's life, the GNSS
  assembler, the captures, the RTC driver and source, the alarm with the buzzer, and the debounced
  input. \<open>digest\<close> and \<open>burst_digest\<close> state what a CRC owes to a frame and are interpreted on the CRC's byte step;
  \<open>field_conversion\<close> and \<open>codec\<close> what the conversion of one field owes to that of a structure, for both
  byte orders; \<open>symmetric_rounding\<close> what a rounding owes to the fixed-point lemmas, for the three roundings
  of the code.

  \<^bold>\<open>Bounds and termination.\<close> Unsigned C integers are words and wrap; signed ones are \<open>int\<close>, passed through
  \<open>i32\<close> where the code stores them. A frequency seed of the loop is not limited by the code: what is
  stated of the loop takes it to be within 16383 ticks of the nominal second (\<open>seed_fits\<close>), the estimator's
  own arithmetic holds for any. Loops over buffers and lists are structural; the parsers' and the
  flash scan's loops are functions with measures; the search for the epoch of the RTC's release is a \<open>while_option\<close>
  that is proved to end; the alignment of the captures makes at most 8 attempts; the RTC source counts
  its second on by at most 4 at a report, enough since it reports every epoch. A write outside a
  buffer is \<open>None\<close> and is proved not to occur.

  \<^bold>\<open>What is assumed of the hardware.\<close> Bytes received, pin levels, captured edges, the answers of the I2C
  bus and of the flash controller are arguments, with no restriction except as a theorem's hypotheses
  say. An operation of the flash is done or refused as a whole. A flash record cut short is
  recognised by its CRC where the hypotheses \<open>cut_detected\<close> and \<open>cuts_show\<close> say so; about one cut in 65536 is not.
  The pins do not change between the start of the watch and the clearing of its flag.
  Functions that an interrupt could break up run with it masked in the code and are single steps here.

  \<^bold>\<open>Not modelled.\<close> \<open>ui/display.c\<close> beyond the settings' setters,
  \<open>ui/frame.c\<close> and \<open>menu/menu.c\<close>: segments, layout and the menu, on which no other state of the clock rests.
  \<open>console/\<close>, \<open>sync_report.c\<close>, \<open>timing_report.c\<close>, \<open>sync_tuning.c\<close>: text for people. \<open>esp/esp_link.c\<close> beyond its receive
  loop and \<open>esp_report.c\<close>: copies of the other components' state into messages. The remaining drivers,
  \<open>platform/board.c\<close>, \<open>system.c\<close> and \<open>main.c\<close>: registers, set-up and the calls that start each component.
  The ESP32's C++ (\<open>esp_src\<close>), which runs on tasks, sockets and floating point of its own; the boot
  loader, generated by the MPLAB configurator; the Python service and the build tools.
\<close>

end
